(* ===== verification/Prelude.thy ===== *)
theory Prelude
  imports
    Main
    "HOL-Library.Word"
    "HOL-Library.AList"
    "HOL-Library.List_Lexorder"
    "HOL-Library.While_Combinator"
begin

text \<open>
  What every theory of the development shares: how Go's basic values are read in HOL, and the
  generic lemmas on lists and maps the component proofs use.

  A Go string is the list of its runes (\<open>str\<close>). The code only handles valid UTF-8 (the wire
  decoder and the corpus guarantee it), for which the byte order \<open>slices.Sort\<close> and
  \<open>sort.Strings\<close> use is the lexicographic order of the code points, which is the order
  \<open>HOL-Library.List_Lexorder\<close> puts on \<open>str\<close>. An instant (\<open>time.Time\<close>) and a
  \<open>time.Duration\<close> are integers, counted in nanoseconds.
\<close>

subsection \<open>Types\<close>

type_synonym rune = nat
type_synonym str = "rune list"
type_synonym instant = int
type_synonym duration = int
type_synonym u32 = "32 word"
type_synonym u64 = "64 word"

definition lit :: "string \<Rightarrow> str" where
  "lit s = map of_char s"

subsection \<open>Collections of facts\<close>

named_theorems go_simps \<open>unfoldings of the Go standard library functions the code calls\<close>
named_theorems inv_defs \<open>definitions of the invariants\<close>
named_theorems frame_simps \<open>fields an operation leaves as they were\<close>

subsection \<open>Go integers\<close>

text \<open>
  \<open>int64\<close> arithmetic wraps around; a \<open>time.Duration\<close> computed by \<open>Time.Sub\<close> saturates instead;
  integer division truncates towards zero.
\<close>

definition wrap64 :: "int \<Rightarrow> int" where
  "wrap64 x = (x + 2 ^ 63) mod 2 ^ 64 - 2 ^ 63"

definition max_int64 :: int where
  "max_int64 = 2 ^ 63 - 1"

definition min_int64 :: int where
  "min_int64 = - (2 ^ 63)"

definition time_sub :: "instant \<Rightarrow> instant \<Rightarrow> duration" where
  "time_sub t u = min max_int64 (max min_int64 (t - u))"

definition go_div :: "int \<Rightarrow> int \<Rightarrow> int" where
  "go_div a b = sgn a * sgn b * (\<bar>a\<bar> div \<bar>b\<bar>)"

lemma wrap64_id: "- (2 ^ 63) \<le> x \<Longrightarrow> x < 2 ^ 63 \<Longrightarrow> wrap64 x = x"
  by (simp add: wrap64_def)

lemma go_div_nonneg: "0 \<le> a \<Longrightarrow> 0 < b \<Longrightarrow> go_div a b = a div b"
  by (cases "a = 0") (simp_all add: go_div_def sgn_if)

text \<open>\<open>bits.Len\<close>: how many bits it takes to write a number, none for zero.\<close>

fun bits_len :: "nat \<Rightarrow> nat" where
  "bits_len n = (if n = 0 then 0 else Suc (bits_len (n div 2)))"

declare bits_len.simps [simp del]

lemma bits_len_0 [simp]: "bits_len 0 = 0"
  by (simp add: bits_len.simps)

lemma bits_len_pos: "0 < n \<Longrightarrow> bits_len n = Suc (bits_len (n div 2))"
  by (simp add: bits_len.simps [of n])

lemma bits_len_range: "0 < n \<Longrightarrow> 2 ^ (bits_len n - 1) \<le> n \<and> n < 2 ^ bits_len n"
proof (induction n rule: bits_len.induct)
  case (1 n)
  show ?case
  proof (cases "n = 1")
    case True
    then show ?thesis by (simp add: bits_len_pos)
  next
    case False
    with 1 have p: "0 < n div 2" by auto
    with 1 have "2 ^ (bits_len (n div 2) - 1) \<le> n div 2 \<and> n div 2 < 2 ^ bits_len (n div 2)"
      by simp
    moreover obtain k where k: "bits_len (n div 2) = Suc k"
      using p by (metis bits_len_pos)
    ultimately have "2 ^ k \<le> n div 2" and "n div 2 < 2 * 2 ^ k"
      by simp_all
    then have "2 * 2 ^ k \<le> n \<and> n < 2 * (2 * 2 ^ k)"
      by linarith
    with 1 k show ?thesis by (simp add: bits_len_pos [of n])
  qed
qed

subsection \<open>Cyclic positions\<close>

lemma mod_in_range: "i < n \<Longrightarrow> k mod n < (n :: nat)"
  by (rule mod_less_divisor) linarith

lemma reach_index: "i < n \<Longrightarrow> j < n \<Longrightarrow> \<exists>m \<ge> 1. m \<le> n \<and> (i + m) mod n = (j :: nat)"
  by (cases "i < j") (auto intro: exI [of _ "j - i"] exI [of _ "n - i + j"])

text \<open>How many steps round a table of \<open>n\<close> seats lead from seat \<open>i\<close> to seat \<open>j\<close>.\<close>

definition cdist :: "nat \<Rightarrow> nat \<Rightarrow> nat \<Rightarrow> nat" where
  "cdist n i j = (j + n - i) mod n"

lemma add_mod_table: "i < n \<Longrightarrow> k \<le> n \<Longrightarrow> (i + k) mod n = (if i + k < n then i + k else i + k - (n :: nat))"
  by (auto simp: le_mod_geq not_less)

lemma cdist_eq: "i < n \<Longrightarrow> j < n \<Longrightarrow> cdist n i j = (if i \<le> j then j - i else j + n - i)"
  using add_mod_table [of j n "n - i"] by (auto simp: cdist_def)

lemma cdist_less: "i < n \<Longrightarrow> j < n \<Longrightarrow> cdist n i j < n"
  by (auto simp: cdist_eq)

lemma cdist_self [simp]: "i < n \<Longrightarrow> cdist n i i = 0"
  by (simp add: cdist_eq)

lemma cdist_0_iff: "i < n \<Longrightarrow> j < n \<Longrightarrow> cdist n i j = 0 \<longleftrightarrow> i = j"
  by (auto simp: cdist_eq)

lemma cdist_reaches: "i < n \<Longrightarrow> j < n \<Longrightarrow> (i + cdist n i j) mod n = j"
  using add_mod_table [of i n "cdist n i j"] cdist_less [of i n j] by (auto simp: cdist_eq)

lemma cdist_unique: "i < n \<Longrightarrow> k < n \<Longrightarrow> cdist n i ((i + k) mod n) = k"
  by (auto simp: cdist_eq add_mod_table)

lemma cdist_shift:
  "i < n \<Longrightarrow> j < n \<Longrightarrow> m \<le> cdist n i j \<Longrightarrow> cdist n ((i + m) mod n) j = cdist n i j - m"
  using cdist_less [of i n j] by (auto simp: cdist_eq add_mod_table split: if_splits)

subsection \<open>Errors as values\<close>

text \<open>Go's \<open>if err != nil { return err }\<close>: the rest runs on the value, an error is passed up.\<close>

fun sum_bind :: "'e + 'a \<Rightarrow> ('a \<Rightarrow> 'e + 'b) \<Rightarrow> 'e + 'b" where
  "sum_bind (Inl e) f = Inl e"
| "sum_bind (Inr x) f = f x"

lemma sum_bind_Inr_iff: "sum_bind x f = Inr y \<longleftrightarrow> (\<exists>v. x = Inr v \<and> f v = Inr y)"
  by (cases x) auto

end
