(* ===== verification/Go_Strings.thy ===== *)
theory Go_Strings
  imports Prelude
begin

text \<open>
  The functions of Go's \<open>strings\<close> and \<open>unicode\<close> packages the server uses, on runes.

  The Unicode character tables and the normal forms of \<open>golang.org/x/text/unicode/norm\<close> are
  data outside the repository: they are the fields of the record \<open>unicode\<close>, an argument of every
  definition that consults them.
\<close>

record unicode =
  nfc :: "str \<Rightarrow> str"
  nfd :: "str \<Rightarrow> str"
  lower_rune :: "rune \<Rightarrow> rune"
  is_mn :: "rune \<Rightarrow> bool"
  is_me :: "rune \<Rightarrow> bool"
  is_cf :: "rune \<Rightarrow> bool"
  is_print :: "rune \<Rightarrow> bool"
  is_letter :: "rune \<Rightarrow> bool"
  is_digit :: "rune \<Rightarrow> bool"
  is_punct :: "rune \<Rightarrow> bool"
  is_symbol :: "rune \<Rightarrow> bool"

text \<open>\<open>unicode.IsSpace\<close> and \<open>unicode.IsControl\<close>: fixed sets, written out.\<close>

definition is_space :: "rune \<Rightarrow> bool" where
  "is_space r \<longleftrightarrow> (9 \<le> r \<and> r \<le> 13) \<or> r = 32 \<or> r = 0x85 \<or> r = 0xA0 \<or> r = 0x1680
     \<or> (0x2000 \<le> r \<and> r \<le> 0x200A) \<or> r = 0x2028 \<or> r = 0x2029 \<or> r = 0x202F \<or> r = 0x205F
     \<or> r = 0x3000"

definition is_control :: "rune \<Rightarrow> bool" where
  "is_control r \<longleftrightarrow> r < 32 \<or> (127 \<le> r \<and> r < 160)"

lemma is_space_32 [simp]: "is_space 32"
  by (simp add: is_space_def)

subsection \<open>strings.ToLower\<close>

definition to_lower :: "unicode \<Rightarrow> str \<Rightarrow> str" where
  "to_lower u s = map (lower_rune u) s"

subsection \<open>strings.Fields and strings.Join\<close>

text \<open>
  \<open>strings.Fields\<close> cuts a string around each run of white space. The accumulator holds the field
  being read; an empty one is never emitted.
\<close>

fun fields_acc :: "str \<Rightarrow> str \<Rightarrow> str list" where
  "fields_acc acc [] = (if acc = [] then [] else [acc])"
| "fields_acc acc (r # rs) =
     (if is_space r then (if acc = [] then fields_acc [] rs else acc # fields_acc [] rs)
      else fields_acc (acc @ [r]) rs)"

definition fields :: "str \<Rightarrow> str list" where
  "fields s = fields_acc [] s"

fun join :: "str \<Rightarrow> str list \<Rightarrow> str" where
  "join sep [] = []"
| "join sep [s] = s"
| "join sep (s # t # ts) = s @ sep @ join sep (t # ts)"

abbreviation join_sp :: "str list \<Rightarrow> str" where
  "join_sp \<equiv> join [32]"

definition no_space :: "str \<Rightarrow> bool" where
  "no_space s \<longleftrightarrow> s \<noteq> [] \<and> (\<forall>r \<in> set s. \<not> is_space r)"

lemma join_Cons: "ts \<noteq> [] \<Longrightarrow> join sep (s # ts) = s @ sep @ join sep ts"
  by (cases ts) auto

lemma set_join: "set (join sep xs) \<subseteq> set sep \<union> (\<Union>x \<in> set xs. set x)"
  by (induction sep xs rule: join.induct) auto

lemma join_eq_Nil_iff: "sep \<noteq> [] \<Longrightarrow> join sep xs = [] \<longleftrightarrow> xs = [] \<or> xs = [[]]"
  by (induction sep xs rule: join.induct) auto

lemma fields_acc_no_space:
  "list_all (\<lambda>r. \<not> is_space r) acc \<Longrightarrow> f \<in> set (fields_acc acc s) \<Longrightarrow> no_space f"
proof (induction acc s rule: fields_acc.induct)
  case (1 acc)
  then show ?case by (simp add: no_space_def list_all_iff split: if_splits)
next
  case (2 acc r rs)
  show ?case
  proof (cases "is_space r")
    case True
    with 2 have "f = acc \<and> acc \<noteq> [] \<or> f \<in> set (fields_acc [] rs)"
      by (auto split: if_splits)
    with 2 True show ?thesis by (cases "acc = []") (auto simp: no_space_def list_all_iff)
  next
    case False
    with 2 show ?thesis by simp
  qed
qed

lemma fields_no_space: "f \<in> set (fields s) \<Longrightarrow> no_space f"
  using fields_acc_no_space [of "[]" f s] by (simp add: fields_def)

lemma fields_acc_set:
  "f \<in> set (fields_acc acc s) \<Longrightarrow> set f \<subseteq> set acc \<union> set s"
  by (induction acc s rule: fields_acc.induct) (auto split: if_splits)

lemma fields_set: "f \<in> set (fields s) \<Longrightarrow> set f \<subseteq> set s"
  using fields_acc_set [of f "[]" s] by (simp add: fields_def)

lemma fields_acc_append:
  "\<forall>r \<in> set t. \<not> is_space r \<Longrightarrow> fields_acc acc (t @ rest) = fields_acc (acc @ t) rest"
  by (induction t arbitrary: acc) auto

lemma fields_join:
  "\<forall>f \<in> set fs. no_space f \<Longrightarrow> fields (join_sp fs) = fs"
proof (induction fs rule: induct_list012)
  case 1
  then show ?case by (simp add: fields_def)
next
  case (2 f)
  then show ?case
    using fields_acc_append [of f "[]" "[]"] by (simp add: fields_def no_space_def)
next
  case (3 f g fs)
  then show ?case
    using fields_acc_append [of f "[]" "32 # join_sp (g # fs)"]
    by (simp add: fields_def no_space_def)
qed

lemma length_fields_acc: "length (fields_acc acc s) \<le> length s + (if acc = [] then 0 else 1)"
  by (induction acc s rule: fields_acc.induct) auto

lemma length_join_fields_acc:
  "length (join_sp (fields_acc acc s)) \<le> length acc + length s"
proof (induction acc s rule: fields_acc.induct)
  case (1 acc)
  then show ?case by simp
next
  case (2 acc r rs)
  then show ?case
    by (cases "fields_acc [] rs = []") (auto simp: join_Cons)
qed

text \<open>Collapsing white space never makes a string longer.\<close>

lemma length_join_fields: "length (join_sp (fields s)) \<le> length s"
  using length_join_fields_acc [of "[]" s] by (simp add: fields_def)

subsection \<open>strconv.Atoi\<close>

text \<open>
  An optional sign and at least one decimal digit, within the range of \<open>int\<close>; anything else is an
  error, which is \<open>None\<close>.
\<close>

fun decimal :: "str \<Rightarrow> int \<Rightarrow> int option" where
  "decimal [] n = Some n"
| "decimal (r # rs) n =
     (if 48 \<le> r \<and> r \<le> 57 then decimal rs (10 * n + (int r - 48)) else None)"

definition Atoi :: "str \<Rightarrow> int option" where
  "Atoi s =
     (let neg = (s \<noteq> [] \<and> hd s = 45);
          digits = (if s \<noteq> [] \<and> (hd s = 43 \<or> hd s = 45) then tl s else s)
      in if digits = [] then None
         else case decimal digits 0 of
           None \<Rightarrow> None
         | Some n \<Rightarrow>
             let v = (if neg then - n else n)
             in if min_int64 \<le> v \<and> v \<le> max_int64 then Some v else None)"

end
