(* ===== verification/Game_State.thy ===== *)
theory Game_State
  imports Go_Strings
begin

text \<open>
  \<open>server/internal/game/state.go\<close>: the vocabulary of a game, and the slice of the dictionary the
  engine needs. The reasons and kinds are Go's \<open>iota\<close> enumerations, in the order the source lists
  them; the dictionary interface is a record of functions, as a Go interface value is.
\<close>

type_synonym player = str

record dictionary =
  Resolve :: "str \<Rightarrow> str option"
  FirstSyllable :: "str \<Rightarrow> str option"
  LastSyllable :: "str \<Rightarrow> str option"
  WordsStartingWith :: "str \<Rightarrow> str list"
  OutDegree :: "str \<Rightarrow> int option"

datatype reject_reason =
    ReasonNone | ReasonNotYourTurn | ReasonTooFewSyllables | ReasonNotInDictionary
  | ReasonWrongLink | ReasonAlreadyUsed | ReasonTimeout | ReasonGameOver

datatype point_kind =
    PointKindNone | PointKindBase | PointKindChain | PointKindSyllables | PointKindSpeed
  | PointKindRarity

datatype end_reason = EndNone | EndTimeout | EndNoLegalMove | EndResigned

text \<open>The \<open>String\<close> methods. A value outside the enumeration does not exist in the model.\<close>

fun reject_string :: "reject_reason \<Rightarrow> string" where
  "reject_string ReasonNone = ''accepted''"
| "reject_string ReasonNotYourTurn = ''not your turn''"
| "reject_string ReasonTooFewSyllables = ''fewer than two syllables''"
| "reject_string ReasonNotInDictionary = ''not in dictionary''"
| "reject_string ReasonWrongLink = ''wrong first syllable''"
| "reject_string ReasonAlreadyUsed = ''already used''"
| "reject_string ReasonTimeout = ''turn expired''"
| "reject_string ReasonGameOver = ''game already over''"

fun point_kind_string :: "point_kind \<Rightarrow> string" where
  "point_kind_string PointKindNone = ''none''"
| "point_kind_string PointKindBase = ''base''"
| "point_kind_string PointKindChain = ''chain''"
| "point_kind_string PointKindSyllables = ''syllables''"
| "point_kind_string PointKindSpeed = ''speed''"
| "point_kind_string PointKindRarity = ''rarity''"

fun end_reason_string :: "end_reason \<Rightarrow> string" where
  "end_reason_string EndNone = ''in play''"
| "end_reason_string EndTimeout = ''timeout''"
| "end_reason_string EndNoLegalMove = ''no legal move''"
| "end_reason_string EndResigned = ''resigned''"

text \<open>The \<open>iota\<close> number of a kind; kinds are ordered by it.\<close>

fun point_kind_iota :: "point_kind \<Rightarrow> nat" where
  "point_kind_iota PointKindNone = 0"
| "point_kind_iota PointKindBase = 1"
| "point_kind_iota PointKindChain = 2"
| "point_kind_iota PointKindSyllables = 3"
| "point_kind_iota PointKindSpeed = 4"
| "point_kind_iota PointKindRarity = 5"

lemma point_kind_iota_inj: "point_kind_iota a = point_kind_iota b \<Longrightarrow> a = b"
  by (cases a; cases b) simp_all

instantiation point_kind :: linorder
begin

definition less_eq_point_kind :: "point_kind \<Rightarrow> point_kind \<Rightarrow> bool" where
  "less_eq_point_kind a b \<longleftrightarrow> point_kind_iota a \<le> point_kind_iota b"

definition less_point_kind :: "point_kind \<Rightarrow> point_kind \<Rightarrow> bool" where
  "less_point_kind a b \<longleftrightarrow> point_kind_iota a < point_kind_iota b"

instance
  by standard
    (auto simp: less_eq_point_kind_def less_point_kind_def intro: point_kind_iota_inj)

end

record point_part =
  pp_kind :: point_kind
  pp_value :: int

record move =
  mv_player :: player
  mv_word :: str
  mv_typed :: str
  mv_first :: str
  mv_last :: str
  mv_syllables :: nat
  mv_points :: int
  mv_parts :: "point_part list"
  mv_at :: instant

record standing =
  st_player :: player
  st_score :: int
  st_rank :: nat
  st_reason :: end_reason

record game_state =
  gs_current :: str
  gs_turn :: player
  gs_deadline :: instant
  gs_scores :: "player \<rightharpoonup> int"
  gs_alive :: "player \<rightharpoonup> bool"
  gs_eliminated :: "player list"
  gs_chainLength :: nat
  gs_over :: bool
  gs_winner :: player
  gs_endReason :: end_reason
  gs_standings :: "standing list"

text \<open>
  The contract between a word store and everything above it: what the engine, the bot and the room
  may rely on when they look a word up. A provider is a state type with an invariant and the
  dictionary it answers as; \<open>Dictionary_Store\<close> provides it.
\<close>

locale word_graph =
  fixes dict_of :: "'d \<Rightarrow> dictionary"
    and wf :: "'d \<Rightarrow> bool"
  assumes resolve_ends: "wf d \<Longrightarrow> Resolve (dict_of d) w = Some c \<Longrightarrow>
      FirstSyllable (dict_of d) c \<noteq> None \<and> LastSyllable (dict_of d) c \<noteq> None"
    and first_resolves: "wf d \<Longrightarrow> FirstSyllable (dict_of d) w = Some f \<Longrightarrow>
      Resolve (dict_of d) w = Some w"
    and starting_iff: "wf d \<Longrightarrow>
      w \<in> set (WordsStartingWith (dict_of d) s) \<longleftrightarrow> FirstSyllable (dict_of d) w = Some s"
    and starting_distinct: "wf d \<Longrightarrow> distinct (WordsStartingWith (dict_of d) s)"
    and degree_counts: "wf d \<Longrightarrow> OutDegree (dict_of d) s = Some n \<Longrightarrow>
      n = int (length (WordsStartingWith (dict_of d) s))"
    and finitely_many: "wf d \<Longrightarrow> finite {w. FirstSyllable (dict_of d) w \<noteq> None}"
begin

lemma resolve_idem:
  "wf d \<Longrightarrow> Resolve (dict_of d) w = Some c \<Longrightarrow> Resolve (dict_of d) c = Some c"
  by (metis first_resolves not_Some_eq resolve_ends)

lemma starting_resolves:
  "wf d \<Longrightarrow> w \<in> set (WordsStartingWith (dict_of d) s) \<Longrightarrow> Resolve (dict_of d) w = Some w"
  by (simp add: starting_iff first_resolves)

lemma starting_last:
  "wf d \<Longrightarrow> w \<in> set (WordsStartingWith (dict_of d) s) \<Longrightarrow> LastSyllable (dict_of d) w \<noteq> None"
  using starting_resolves resolve_ends by blast

end

end
