(* ===== verification/Vietnamese.thy ===== *)
theory Vietnamese
  imports Go_Strings
begin

text \<open>
  \<open>server/internal/vietnamese/normalize.go\<close>: the canonical form of a word and its syllables. The
  same function serves the corpus builder, the engine and the transport layer, which is what makes
  a lookup of a player's word mean anything.
\<close>

definition MinSyllables :: nat where
  "MinSyllables = 2"

text \<open>The error \<open>ErrEmpty\<close> is \<open>None\<close>: it is the only error the function returns.\<close>

definition Normalize :: "unicode \<Rightarrow> str \<Rightarrow> (str \<times> str list) option" where
  "Normalize u raw =
     (let composed = nfc u raw;
          lowered = nfc u (to_lower u composed);
          syllables = fields lowered
      in if syllables = [] then None else Some (join_sp syllables, syllables))"

definition HasEnoughSyllables :: "str list \<Rightarrow> bool" where
  "HasEnoughSyllables syllables \<longleftrightarrow> MinSyllables \<le> length syllables"

lemma Normalize_Some:
  "Normalize u raw = Some (w, ss) \<longleftrightarrow>
     ss = fields (nfc u (to_lower u (nfc u raw))) \<and> ss \<noteq> [] \<and> w = join_sp ss"
  by (auto simp: Normalize_def Let_def)

lemma Normalize_syllables:
  "Normalize u raw = Some (w, ss) \<Longrightarrow> ss \<noteq> [] \<and> w = join_sp ss \<and> fields w = ss"
  by (auto simp: Normalize_Some fields_join fields_no_space)

text \<open>
  What \<open>Normalize\<close> relies on in the third-party normal form and the Unicode tables, as a
  predicate: composing is idempotent (the definition of a normal form); composing a lower-case
  string leaves it lower-case; a composed string stays composed when its white space is collapsed,
  because white space never takes part in a composition; the space is its own lower case.
\<close>

definition unicode_laws :: "unicode \<Rightarrow> bool" where
  "unicode_laws u \<longleftrightarrow>
     (\<forall>s. nfc u (nfc u s) = nfc u s) \<and>
     (\<forall>s. to_lower u (nfc u (to_lower u s)) = nfc u (to_lower u s)) \<and>
     (\<forall>s. nfc u s = s \<longrightarrow> nfc u (join_sp (fields s)) = join_sp (fields s)) \<and>
     lower_rune u 32 = 32"

lemma to_lower_fixed_iff: "to_lower u s = s \<longleftrightarrow> (\<forall>r \<in> set s. lower_rune u r = r)"
  by (induction s) (auto simp: to_lower_def)

lemma lower_collapse:
  assumes "to_lower u s = s" and "lower_rune u 32 = 32"
  shows "to_lower u (join_sp (fields s)) = join_sp (fields s)"
proof -
  have "set (join_sp (fields s)) \<subseteq> insert 32 (set s)"
    using set_join [of "[32]" "fields s"] fields_set by fastforce
  with assms show ?thesis by (auto simp: to_lower_fixed_iff)
qed

text \<open>
  A canonical word normalizes to itself: what the builder stored and what the engine looks up are
  the same string, however often either is normalized.
\<close>

lemma Normalize_idem:
  assumes laws: "unicode_laws u" and norm: "Normalize u raw = Some (w, ss)"
  shows "Normalize u w = Some (w, ss)"
proof -
  let ?l = "nfc u (to_lower u (nfc u raw))"
  have w: "w = join_sp (fields ?l)" and ss: "ss = fields ?l" "ss \<noteq> []"
    using norm by (auto simp: Normalize_Some)
  have "nfc u ?l = ?l" and "to_lower u ?l = ?l" and sp: "lower_rune u 32 = 32"
    using laws by (auto simp: unicode_laws_def)
  then have "nfc u w = w" and "to_lower u w = w"
    using laws w by (auto simp: unicode_laws_def lower_collapse)
  moreover have "fields w = ss"
    using norm Normalize_syllables by blast
  ultimately show ?thesis using w ss by (simp add: Normalize_Some)
qed

end
