(* ===== verification/Engine.thy ===== *)
theory Engine
  imports Game_State Vietnamese
begin

text \<open>
  \<open>server/internal/game/engine.go\<close>: the rules. One operation of the model per method of the
  source's \<open>Engine\<close>, with the engine passed in and returned instead of mutated.
\<close>

subsection \<open>Scoring constants\<close>

definition basePoints :: int where "basePoints = 10"
definition chainBonus :: int where "chainBonus = 2"
definition chainBonusWords :: int where "chainBonusWords = 15"
definition syllableBonus :: int where "syllableBonus = 5"
definition speedBonus :: int where "speedBonus = 10"
definition rarityBonus :: int where "rarityBonus = 15"
definition rarityHalvingPenalty :: int where "rarityHalvingPenalty = 3"
definition maxPointsPerWord :: int where "maxPointsPerWord = 100"

lemmas score_consts = basePoints_def chainBonus_def chainBonusWords_def syllableBonus_def
  speedBonus_def rarityBonus_def rarityHalvingPenalty_def maxPointsPerWord_def

subsection \<open>The state\<close>

record engine =
  dict :: dictionary
  players :: "player list"
  alive :: "bool list"
  aliveN :: int
  outOrder :: "player list"
  outReason :: "player \<rightharpoonup> end_reason"
  used :: "str set"
  current :: str
  turnIndex :: nat
  turnLimit :: duration
  deadline :: instant
  history :: "move list"
  scores :: "player \<rightharpoonup> int"
  over :: bool
  winner :: player
  endReason :: end_reason

text \<open>Reading a Go map at a missing key gives the zero value.\<close>

definition score_of :: "engine \<Rightarrow> player \<Rightarrow> int" where
  "score_of e p = (case scores e p of None \<Rightarrow> 0 | Some v \<Rightarrow> v)"

definition OutReason :: "engine \<Rightarrow> player \<Rightarrow> end_reason" where
  "OutReason e p = (case outReason e p of None \<Rightarrow> EndNone | Some r \<Rightarrow> r)"

definition Turn :: "engine \<Rightarrow> player" where
  "Turn e = players e ! turnIndex e"

fun index_from :: "nat \<Rightarrow> player list \<Rightarrow> player \<Rightarrow> nat option" where
  "index_from i [] p = None"
| "index_from i (q # qs) p = (if q = p then Some i else index_from (Suc i) qs p)"

definition indexOf :: "engine \<Rightarrow> player \<Rightarrow> nat option" where
  "indexOf e p = index_from 0 (players e) p"

definition Alive :: "engine \<Rightarrow> player \<Rightarrow> bool" where
  "Alive e p = (case indexOf e p of None \<Rightarrow> False | Some i \<Rightarrow> alive e ! i)"

definition ChainLength :: "engine \<Rightarrow> nat" where
  "ChainLength e = length (history e) + 1"

definition EliminatedCount :: "engine \<Rightarrow> nat" where
  "EliminatedCount e = length (outOrder e)"

definition LastMove :: "engine \<Rightarrow> move option" where
  "LastMove e = (if history e = [] then None else Some (last (history e)))"

definition Used :: "engine \<Rightarrow> str \<Rightarrow> bool" where
  "Used e w \<longleftrightarrow> w \<in> used e"

definition IsExpired :: "engine \<Rightarrow> instant \<Rightarrow> bool" where
  "IsExpired e now \<longleftrightarrow> deadline e < now"

subsection \<open>The position: what may be played\<close>

definition LegalMoves :: "engine \<Rightarrow> str list" where
  "LegalMoves e = filter (\<lambda>w. w \<notin> used e) (WordsStartingWith (dict e) (current e))"

text \<open>\<open>HasLegalMove\<close> stops at the first unused candidate.\<close>

fun any_unused :: "str set \<Rightarrow> str list \<Rightarrow> bool" where
  "any_unused us [] = False"
| "any_unused us (w # ws) = (if w \<notin> us then True else any_unused us ws)"

definition HasLegalMove :: "engine \<Rightarrow> bool" where
  "HasLegalMove e = any_unused (used e) (WordsStartingWith (dict e) (current e))"

definition Suggestions :: "engine \<Rightarrow> int \<Rightarrow> str list" where
  "Suggestions e n =
     (if n \<le> 0 then []
      else let moves = sort (LegalMoves e) in take (min (nat n) (length moves)) moves)"

subsection \<open>Scoring a word\<close>

definition speedPoints :: "engine \<Rightarrow> instant \<Rightarrow> int" where
  "speedPoints e now =
     (let remaining = time_sub (deadline e) now
      in if remaining \<le> 0 then 0
         else let remaining = (if remaining > turnLimit e then turnLimit e else remaining)
              in go_div (wrap64 (speedBonus * remaining)) (turnLimit e))"

definition rarityPoints :: "engine \<Rightarrow> str \<Rightarrow> int" where
  "rarityPoints e link =
     (case OutDegree (dict e) link of
        None \<Rightarrow> 0
      | Some options \<Rightarrow>
          if options < 1 then 0
          else let halvings = int (bits_len (nat options)) - 1
               in max (rarityBonus - rarityHalvingPenalty * halvings) 0)"

definition sumParts :: "point_part list \<Rightarrow> int" where
  "sumParts parts = foldl (\<lambda>total p. total + pp_value p) 0 parts"

text \<open>
  The trimming loop runs from the last part to the first while there is overflow left; here it
  walks the reversed list.
\<close>

fun trim_from :: "point_part list \<Rightarrow> int \<Rightarrow> point_part list" where
  "trim_from [] overflow = []"
| "trim_from (p # ps) overflow =
     (if overflow > 0
      then let cut = min (pp_value p) overflow
           in p\<lparr>pp_value := pp_value p - cut\<rparr> # trim_from ps (overflow - cut)
      else p # ps)"

definition raw_parts :: "engine \<Rightarrow> nat \<Rightarrow> str \<Rightarrow> instant \<Rightarrow> point_part list" where
  "raw_parts e syllables link now =
     [\<lparr>pp_kind = PointKindBase, pp_value = basePoints\<rparr>,
      \<lparr>pp_kind = PointKindChain,
        pp_value = chainBonus * min (int (ChainLength e)) chainBonusWords\<rparr>,
      \<lparr>pp_kind = PointKindSyllables,
        pp_value = syllableBonus * (int syllables - int MinSyllables)\<rparr>,
      \<lparr>pp_kind = PointKindSpeed, pp_value = speedPoints e now\<rparr>,
      \<lparr>pp_kind = PointKindRarity, pp_value = rarityPoints e link\<rparr>]"

definition pointsFor :: "engine \<Rightarrow> nat \<Rightarrow> str \<Rightarrow> instant \<Rightarrow> int \<times> point_part list" where
  "pointsFor e syllables link now =
     (let parts = raw_parts e syllables link now;
          trimmed = rev (trim_from (rev parts) (sumParts parts - maxPointsPerWord));
          kept = filter (\<lambda>p. \<not> pp_value p \<le> 0) trimmed
      in (sumParts kept, kept))"

subsection \<open>Turn order and elimination\<close>

text \<open>\<open>advance\<close> tries each seat once, starting with the one after the player to act.\<close>

fun advance_loop :: "nat \<Rightarrow> bool list \<Rightarrow> nat \<Rightarrow> nat" where
  "advance_loop 0 al i = i"
| "advance_loop (Suc k) al i =
     (let j = (i + 1) mod length al in if al ! j then j else advance_loop k al j)"

definition advance :: "engine \<Rightarrow> engine" where
  "advance e = e\<lparr>turnIndex := advance_loop (length (players e)) (alive e) (turnIndex e)\<rparr>"

definition eliminate :: "player \<Rightarrow> end_reason \<Rightarrow> engine \<Rightarrow> bool \<times> engine" where
  "eliminate p reason e =
     (case indexOf e p of
        None \<Rightarrow> (False, e)
      | Some i \<Rightarrow>
          if \<not> alive e ! i then (False, e)
          else
            let e1 = e\<lparr>alive := (alive e)[i := False],
                       aliveN := aliveN e - 1,
                       outOrder := outOrder e @ [p],
                       outReason := (outReason e)(p \<mapsto> reason),
                       endReason := reason\<rparr>;
                e2 = (if turnIndex e1 = i then advance e1 else e1)
            in (True, if aliveN e2 \<le> 1
                      then e2\<lparr>over := True, winner := players e2 ! turnIndex e2\<rparr>
                      else e2))"

text \<open>
  The loop of \<open>settle\<close> is the library's \<open>while\<close>; that it stops in every state the engine can be in
  is a theorem (\<open>settle_terminates\<close>), not a property of the definition.
\<close>

definition settle_guard :: "engine \<Rightarrow> bool" where
  "settle_guard e \<longleftrightarrow> \<not> over e \<and> \<not> HasLegalMove e"

definition settle_body :: "engine \<Rightarrow> engine" where
  "settle_body e = snd (eliminate (Turn e) EndNoLegalMove e)"

definition settle :: "engine \<Rightarrow> engine" where
  "settle e = while settle_guard settle_body e"

definition expire :: "instant \<Rightarrow> engine \<Rightarrow> engine" where
  "expire now e =
     (let reason = (if \<not> HasLegalMove e then EndNoLegalMove else EndTimeout);
          e1 = snd (eliminate (Turn e) reason e);
          e2 = settle e1
      in if \<not> over e2 then e2\<lparr>deadline := now + turnLimit e2\<rparr> else e2)"

subsection \<open>The operations a caller drives\<close>

definition Submit ::
  "unicode \<Rightarrow> player \<Rightarrow> str \<Rightarrow> instant \<Rightarrow> engine \<Rightarrow> engine \<times> move option \<times> reject_reason" where
  "Submit u p raw now e =
     (if over e then (e, None, ReasonGameOver)
      else if p \<noteq> Turn e then (e, None, ReasonNotYourTurn)
      else if IsExpired e now then (expire now e, None, ReasonTimeout)
      else case Normalize u raw of
        None \<Rightarrow> (e, None, ReasonTooFewSyllables)
      | Some (normalized, syllables) \<Rightarrow>
          if \<not> HasEnoughSyllables syllables then (e, None, ReasonTooFewSyllables)
          else case Resolve (dict e) normalized of
            None \<Rightarrow> (e, None, ReasonNotInDictionary)
          | Some canonical \<Rightarrow>
              case FirstSyllable (dict e) canonical of
                None \<Rightarrow> (e, None, ReasonNotInDictionary)
              | Some firstSyl \<Rightarrow>
                  if firstSyl \<noteq> current e then (e, None, ReasonWrongLink)
                  else if canonical \<in> used e then (e, None, ReasonAlreadyUsed)
                  else case LastSyllable (dict e) canonical of
                    None \<Rightarrow> (e, None, ReasonNotInDictionary)
                  | Some lastSyl \<Rightarrow>
                      let (points, parts) = pointsFor e (length syllables) firstSyl now;
                          move = \<lparr>mv_player = p, mv_word = canonical, mv_typed = raw,
                                  mv_first = firstSyl, mv_last = lastSyl,
                                  mv_syllables = length syllables, mv_points = points,
                                  mv_parts = parts, mv_at = now\<rparr>;
                          e1 = e\<lparr>used := insert canonical (used e),
                                 history := history e @ [move],
                                 scores := (scores e)(p \<mapsto> score_of e p + mv_points move),
                                 current := lastSyl\<rparr>;
                          e2 = advance e1
                      in (e2\<lparr>deadline := now + turnLimit e2\<rparr>, Some move, ReasonNone))"

definition Timeout :: "instant \<Rightarrow> engine \<Rightarrow> bool \<times> engine" where
  "Timeout now e = (if over e \<or> \<not> IsExpired e now then (False, e) else (True, expire now e))"

definition NoMove :: "instant \<Rightarrow> engine \<Rightarrow> bool \<times> engine" where
  "NoMove now e = (if over e \<or> HasLegalMove e then (False, e) else (True, expire now e))"

definition Resign :: "player \<Rightarrow> instant \<Rightarrow> engine \<Rightarrow> bool \<times> engine" where
  "Resign p now e =
     (if over e then (False, e)
      else let before = Turn e; (gone, e1) = eliminate p EndResigned e
           in if \<not> gone then (False, e1)
              else if \<not> over e1 \<and> Turn e1 \<noteq> before
              then let e2 = settle e1
                   in (True, if \<not> over e2 then e2\<lparr>deadline := now + turnLimit e2\<rparr> else e2)
              else (True, e1))"

subsection \<open>Starting a game\<close>

datatype new_error =
    NilDictionary | TooFewPlayers nat | BadTurnLimit duration | DuplicatePlayer player
  | OpeningUnknown str | OpeningNoLast str | OpeningDeadEnd str str

fun first_duplicate :: "player set \<Rightarrow> player list \<Rightarrow> player option" where
  "first_duplicate seen [] = None"
| "first_duplicate seen (p # ps) =
     (if p \<in> seen then Some p else first_duplicate (insert p seen) ps)"

definition initial_engine ::
  "dictionary \<Rightarrow> player list \<Rightarrow> str \<Rightarrow> str \<Rightarrow> duration \<Rightarrow> instant \<Rightarrow> engine" where
  "initial_engine d ps canonical lastSyl limit now =
     \<lparr>dict = d, players = ps, alive = replicate (length ps) True, aliveN = int (length ps),
      outOrder = [], outReason = Map.empty, used = {canonical}, current = lastSyl, turnIndex = 0,
      turnLimit = limit, deadline = now + limit, history = [],
      scores = map_of (map (\<lambda>p. (p, 0)) ps), over = False, winner = [], endReason = EndNone\<rparr>"

definition New ::
  "dictionary option \<Rightarrow> player list \<Rightarrow> str \<Rightarrow> duration \<Rightarrow> instant \<Rightarrow> new_error + engine" where
  "New dct ps opening limit now =
     (case dct of
        None \<Rightarrow> Inl NilDictionary
      | Some d \<Rightarrow>
          if length ps < 2 then Inl (TooFewPlayers (length ps))
          else if limit \<le> 0 then Inl (BadTurnLimit limit)
          else case first_duplicate {} ps of
            Some p \<Rightarrow> Inl (DuplicatePlayer p)
          | None \<Rightarrow>
              case Resolve d opening of
                None \<Rightarrow> Inl (OpeningUnknown opening)
              | Some canonical \<Rightarrow>
                  case LastSyllable d canonical of
                    None \<Rightarrow> Inl (OpeningNoLast canonical)
                  | Some lastSyl \<Rightarrow>
                      let e = initial_engine d ps canonical lastSyl limit now
                      in if \<not> HasLegalMove e then Inl (OpeningDeadEnd canonical lastSyl) else Inr e)"

subsection \<open>The final table and the snapshot\<close>

text \<open>The loop reads \<open>outOrder\<close> backwards and ranks by the length of the table so far.\<close>

fun standings_loop :: "engine \<Rightarrow> player list \<Rightarrow> standing list \<Rightarrow> standing list" where
  "standings_loop e [] out = out"
| "standings_loop e (p # ps) out =
     standings_loop e ps
       (out @ [\<lparr>st_player = p, st_score = score_of e p, st_rank = length out + 1,
                st_reason = OutReason e p\<rparr>])"

definition Standings :: "engine \<Rightarrow> standing list" where
  "Standings e =
     standings_loop e (rev (outOrder e))
       (if winner e \<noteq> []
        then [\<lparr>st_player = winner e, st_score = score_of e (winner e), st_rank = 1,
               st_reason = EndNone\<rparr>]
        else [])"

definition Snapshot :: "engine \<Rightarrow> game_state" where
  "Snapshot e =
     \<lparr>gs_current = current e, gs_turn = Turn e, gs_deadline = deadline e, gs_scores = scores e,
      gs_alive = map_of (zip (players e) (alive e)), gs_eliminated = outOrder e,
      gs_chainLength = ChainLength e, gs_over = over e, gs_winner = winner e,
      gs_endReason = endReason e, gs_standings = (if over e then Standings e else [])\<rparr>"

end
