(* ===== verification/Engine_Turns.thy ===== *)
theory Engine_Turns
  imports Engine
begin

text \<open>
  Turn order and elimination in \<open>server/internal/game/engine.go\<close>: the invariant of a table, that every
  operation keeps it, that the \<open>settle\<close> loop stops, and what each operation does to who is in.
\<close>

subsection \<open>Looking players up\<close>

lemma index_from_Some:
  "index_from k ps p = Some i \<Longrightarrow> k \<le> i \<and> i < k + length ps \<and> ps ! (i - k) = p"
proof (induction ps arbitrary: k)
  case Nil
  then show ?case by simp
next
  case (Cons q qs)
  show ?case
  proof (cases "q = p")
    case True
    with Cons.prems show ?thesis by simp
  next
    case False
    with Cons.prems have "index_from (Suc k) qs p = Some i" by simp
    then have "Suc k \<le> i \<and> i < Suc k + length qs \<and> qs ! (i - Suc k) = p" by (rule Cons.IH)
    then show ?thesis by (auto simp: nth_Cons' Suc_diff_le)
  qed
qed

lemma index_from_None: "index_from k ps p = None \<longleftrightarrow> p \<notin> set ps"
  by (induction ps arbitrary: k) auto

lemma indexOf_Some: "indexOf e p = Some i \<Longrightarrow> i < length (players e) \<and> players e ! i = p"
  using index_from_Some [of 0 "players e" p i] by (simp add: indexOf_def)

lemma indexOf_None: "indexOf e p = None \<longleftrightarrow> p \<notin> set (players e)"
  by (simp add: indexOf_def index_from_None)

lemma indexOf_nth:
  assumes "distinct (players e)" and "i < length (players e)"
  shows "indexOf e (players e ! i) = Some i"
proof (cases "indexOf e (players e ! i)")
  case None
  with assms show ?thesis by (simp add: indexOf_None)
next
  case (Some j)
  then have "j < length (players e)" "players e ! j = players e ! i"
    using indexOf_Some by blast+
  with assms Some show ?thesis
    using nth_eq_iff_index_eq [of "players e" j i] by simp
qed

subsection \<open>Advancing the turn\<close>

text \<open>
  \<open>advance_loop\<close> lands on the first seat still in, in cyclic order after the given one, when there is
  one within reach.
\<close>

lemma advance_loop_first:
  assumes "i < length al" and "\<exists>m \<ge> 1. m \<le> k \<and> al ! ((i + m) mod length al)"
  shows "\<exists>m \<ge> 1. m \<le> k \<and> advance_loop k al i = (i + m) mod length al \<and>
    al ! ((i + m) mod length al) \<and> (\<forall>m' \<ge> 1. m' < m \<longrightarrow> \<not> al ! ((i + m') mod length al))"
  using assms
proof (induction k al i rule: advance_loop.induct)
  case (1 al i)
  then show ?case by auto
next
  case (2 k al i)
  let ?n = "length al"
  let ?j = "(i + 1) mod ?n"
  show ?case
  proof (cases "al ! ?j")
    case True
    then show ?thesis by (intro exI [of _ 1]) simp
  next
    case False
    from 2(3) obtain m where m: "1 \<le> m" "m \<le> Suc k" "al ! ((i + m) mod ?n)" by blast
    with False have "m \<noteq> 1" by auto
    have rw: "(?j + t) mod ?n = (i + Suc t) mod ?n" for t
      by (simp add: mod_add_left_eq)
    from m \<open>m \<noteq> 1\<close> have shift: "1 \<le> m - 1" "m - 1 \<le> k" "(?j + (m - 1)) mod ?n = (i + m) mod ?n"
      using rw [of "m - 1"] by auto
    have jn: "?j < ?n" using 2(2) by (rule mod_in_range)
    have ex: "\<exists>m \<ge> 1. m \<le> k \<and> al ! ((?j + m) mod ?n)"
      using shift m by metis
    obtain q where q: "1 \<le> q" "q \<le> k" "advance_loop k al ?j = (?j + q) mod ?n"
      "al ! ((?j + q) mod ?n)" "\<forall>m' \<ge> 1. m' < q \<longrightarrow> \<not> al ! ((?j + m') mod ?n)"
      using 2(1) [OF refl False jn ex] by blast
    show ?thesis
    proof (intro exI [of _ "Suc q"] conjI allI impI)
      fix m' :: nat
      assume m': "1 \<le> m'" "m' < Suc q"
      show "\<not> al ! ((i + m') mod ?n)"
      proof (cases "m' = 1")
        case True
        with False show ?thesis by simp
      next
        case other: False
        with m' obtain t where t: "m' = Suc t" "1 \<le> t" "t < q" by (cases m') auto
        then have "\<not> al ! ((?j + t) mod ?n)" using q(5) by blast
        then show ?thesis using rw [of t] t(1) by metis
      qed
    qed (use q rw False in auto)
  qed
qed

definition alive_seats :: "engine \<Rightarrow> nat set" where
  "alive_seats e = {i. i < length (alive e) \<and> alive e ! i}"

lemma finite_alive_seats [simp]: "finite (alive_seats e)"
  by (simp add: alive_seats_def)

text \<open>The player to act next: the first seat still in after \<open>i\<close>, going round the table.\<close>

definition next_alive :: "engine \<Rightarrow> nat \<Rightarrow> nat \<Rightarrow> bool" where
  "next_alive e i j \<longleftrightarrow> j \<in> alive_seats e \<and>
     (\<exists>m \<ge> 1. m \<le> length (players e) \<and> j = (i + m) mod length (players e) \<and>
        (\<forall>m' \<ge> 1. m' < m \<longrightarrow> (i + m') mod length (players e) \<notin> alive_seats e))"

lemma advance_next_alive:
  assumes "length (alive e) = length (players e)" and "i = turnIndex e"
    and "i < length (players e)" and "alive_seats e \<noteq> {}"
  shows "next_alive e i (turnIndex (advance e))"
proof -
  obtain j where "j < length (alive e)" "alive e ! j"
    using assms(4) by (auto simp: alive_seats_def)
  with assms reach_index [of i "length (players e)" j]
  have "\<exists>m \<ge> 1. m \<le> length (players e) \<and> alive e ! ((i + m) mod length (alive e))"
    by metis
  moreover have "(i + m) mod length (players e) < length (players e)" for m
    using assms(3) by (rule mod_in_range)
  ultimately show ?thesis
    using advance_loop_first [of i "alive e" "length (players e)"] assms
    by (auto simp: next_alive_def advance_def alive_seats_def)
qed

lemma advance_frame [simp]:
  "dict (advance e) = dict e" "players (advance e) = players e" "alive (advance e) = alive e"
  "aliveN (advance e) = aliveN e" "outOrder (advance e) = outOrder e"
  "outReason (advance e) = outReason e" "used (advance e) = used e"
  "current (advance e) = current e" "turnLimit (advance e) = turnLimit e"
  "deadline (advance e) = deadline e" "history (advance e) = history e"
  "scores (advance e) = scores e" "over (advance e) = over e" "winner (advance e) = winner e"
  "endReason (advance e) = endReason e"
  by (simp_all add: advance_def)

subsection \<open>The invariant of a table\<close>

text \<open>
  Everything the fields about seats must agree on: the flags and the counter, the seat to act (always
  somebody still in), the final table being built, and the end of the game.
\<close>

definition seats_inv :: "engine \<Rightarrow> bool" where
  "seats_inv e \<longleftrightarrow>
     length (alive e) = length (players e) \<and> distinct (players e) \<and> 2 \<le> length (players e) \<and>
     turnIndex e \<in> alive_seats e \<and>
     aliveN e = int (card (alive_seats e)) \<and>
     over e = (aliveN e \<le> 1) \<and>
     winner e = (if over e then Turn e else []) \<and>
     distinct (outOrder e) \<and>
     set (outOrder e) = (\<lambda>i. players e ! i) ` ({..<length (players e)} - alive_seats e) \<and>
     dom (outReason e) = set (outOrder e) \<and> EndNone \<notin> ran (outReason e) \<and>
     endReason e = (if outOrder e = [] then EndNone else OutReason e (last (outOrder e))) \<and>
     0 < turnLimit e"

lemma seats_invD:
  assumes "seats_inv e"
  shows "length (alive e) = length (players e)" "distinct (players e)" "2 \<le> length (players e)"
    "turnIndex e \<in> alive_seats e" "turnIndex e < length (players e)" "alive e ! turnIndex e"
    "aliveN e = int (card (alive_seats e))" "over e = (aliveN e \<le> 1)"
    "winner e = (if over e then Turn e else [])" "distinct (outOrder e)"
    "set (outOrder e) = (\<lambda>i. players e ! i) ` ({..<length (players e)} - alive_seats e)"
    "dom (outReason e) = set (outOrder e)" "EndNone \<notin> ran (outReason e)"
    "endReason e = (if outOrder e = [] then EndNone else OutReason e (last (outOrder e)))"
    "0 < turnLimit e"
  using assms by (auto simp: seats_inv_def alive_seats_def)

lemma Turn_in_players: "seats_inv e \<Longrightarrow> Turn e \<in> set (players e)"
  by (simp add: Turn_def seats_invD)

lemma Alive_iff:
  assumes "seats_inv e"
  shows "Alive e p \<longleftrightarrow> (\<exists>i \<in> alive_seats e. players e ! i = p)"
proof (cases "indexOf e p")
  case None
  then have "p \<notin> set (players e)" by (simp add: indexOf_None)
  moreover from None have "\<not> Alive e p" by (simp add: Alive_def)
  ultimately show ?thesis using assms by (auto simp: alive_seats_def seats_invD)
next
  case (Some i)
  then have i: "i < length (players e)" "players e ! i = p" using indexOf_Some by blast+
  have "j = i" if "j \<in> alive_seats e" "players e ! j = p" for j
    using that i assms nth_eq_iff_index_eq [of "players e" j i]
    by (auto simp: alive_seats_def seats_invD)
  with Some i assms show ?thesis by (auto simp: Alive_def alive_seats_def seats_invD)
qed

lemma Alive_Turn: "seats_inv e \<Longrightarrow> Alive e (Turn e)"
  by (auto simp: Alive_iff Turn_def seats_invD)

lemma outOrder_iff:
  assumes "seats_inv e"
  shows "p \<in> set (outOrder e) \<longleftrightarrow> p \<in> set (players e) \<and> \<not> Alive e p"
proof -
  have "p \<in> set (outOrder e) \<longleftrightarrow>
      (\<exists>i < length (players e). i \<notin> alive_seats e \<and> players e ! i = p)"
    by (auto simp: seats_invD(11) [OF assms])
  also have "\<dots> \<longleftrightarrow> p \<in> set (players e) \<and> \<not> Alive e p"
    using assms nth_eq_iff_index_eq [OF seats_invD(2) [OF assms]]
    by (auto simp: Alive_iff in_set_conv_nth alive_seats_def seats_invD)
  finally show ?thesis .
qed

text \<open>A table read off as a partition: everybody is in or out, never both.\<close>

lemma outOrder_length:
  assumes "seats_inv e"
  shows "length (outOrder e) + card (alive_seats e) = length (players e)"
proof -
  have sub: "alive_seats e \<subseteq> {..<length (players e)}"
    using assms by (auto simp: alive_seats_def seats_invD)
  have "inj_on (\<lambda>i. players e ! i) ({..<length (players e)} - alive_seats e)"
    using assms by (auto simp: inj_on_def nth_eq_iff_index_eq seats_invD)
  then have "card (set (outOrder e)) = card ({..<length (players e)} - alive_seats e)"
    by (simp add: seats_invD(11) [OF assms] card_image)
  also have "\<dots> = length (players e) - card (alive_seats e)"
    using sub by (simp add: card_Diff_subset)
  finally have "length (outOrder e) = length (players e) - card (alive_seats e)"
    using distinct_card [OF seats_invD(10) [OF assms]] by simp
  then show ?thesis
    using card_mono [OF _ sub] by simp
qed

subsection \<open>Eliminating a player\<close>

lemma eliminate_frame [simp]:
  "dict (snd (eliminate p r e)) = dict e" "players (snd (eliminate p r e)) = players e"
  "used (snd (eliminate p r e)) = used e" "current (snd (eliminate p r e)) = current e"
  "turnLimit (snd (eliminate p r e)) = turnLimit e"
  "deadline (snd (eliminate p r e)) = deadline e" "history (snd (eliminate p r e)) = history e"
  "scores (snd (eliminate p r e)) = scores e"
  by (auto simp: eliminate_def Let_def split: option.splits)

lemma eliminate_gone_iff:
  assumes "seats_inv e"
  shows "fst (eliminate p r e) \<longleftrightarrow> Alive e p"
  by (auto simp: eliminate_def Alive_def Let_def split: option.splits)

lemma eliminate_noop: "\<not> fst (eliminate p r e) \<Longrightarrow> snd (eliminate p r e) = e"
  by (auto simp: eliminate_def Let_def split: option.splits if_splits)

text \<open>What eliminating a player who is in does, field by field.\<close>

lemma eliminate_alive:
  fixes r :: end_reason
  assumes inv: "seats_inv e" and "Alive e p"
  defines "e' \<equiv> snd (eliminate p r e)"
  shows "\<exists>i \<in> alive_seats e. players e ! i = p \<and> alive e' = (alive e)[i := False]
      \<and> alive_seats e' = alive_seats e - {i}
      \<and> turnIndex e' = (if turnIndex e = i
          then advance_loop (length (players e)) ((alive e)[i := False]) i else turnIndex e)"
    and "aliveN e' = aliveN e - 1"
    and "outOrder e' = outOrder e @ [p]"
    and "outReason e' = (outReason e)(p \<mapsto> r)"
    and "endReason e' = r"
    and "over e' = (over e \<or> aliveN e \<le> 2)"
    and "winner e' = (if aliveN e \<le> 2 then Turn e' else winner e)"
proof -
  obtain i where i: "indexOf e p = Some i" "alive e ! i"
    using assms(2) by (auto simp: Alive_def split: option.splits)
  then have len: "i < length (players e)" "players e ! i = p"
    using indexOf_Some by blast+
  have "i \<in> alive_seats e"
    using i len inv by (simp add: alive_seats_def seats_invD)
  then show "\<exists>i \<in> alive_seats e. players e ! i = p \<and> alive e' = (alive e)[i := False]
      \<and> alive_seats e' = alive_seats e - {i}
      \<and> turnIndex e' = (if turnIndex e = i
          then advance_loop (length (players e)) ((alive e)[i := False]) i else turnIndex e)"
    using i len
    by (intro bexI [of _ i]) (auto simp: e'_def eliminate_def Let_def advance_def alive_seats_def
        nth_list_update)
  show "aliveN e' = aliveN e - 1" "outOrder e' = outOrder e @ [p]"
    "outReason e' = (outReason e)(p \<mapsto> r)" "endReason e' = r"
    "over e' = (over e \<or> aliveN e \<le> 2)" "winner e' = (if aliveN e \<le> 2 then Turn e' else winner e)"
    using i by (auto simp: e'_def eliminate_def Let_def Turn_def)
qed

lemma eliminate_inv:
  assumes inv: "seats_inv e" and going: "\<not> over e" and r: "r \<noteq> EndNone"
  shows "seats_inv (snd (eliminate p r e))"
proof (cases "Alive e p")
  case False
  with inv show ?thesis by (simp add: eliminate_noop eliminate_gone_iff)
next
  case True
  let ?e = "snd (eliminate p r e)"
  note el = eliminate_alive [OF inv True, of r]
  obtain i where i: "i \<in> alive_seats e" "players e ! i = p" "alive ?e = (alive e)[i := False]"
    "alive_seats ?e = alive_seats e - {i}"
    "turnIndex ?e = (if turnIndex e = i
        then advance_loop (length (players e)) ((alive e)[i := False]) i else turnIndex e)"
    using el(1) by blast
  have len: "i < length (players e)" using i(1) inv by (simp add: alive_seats_def seats_invD)
  have p_out: "p \<notin> set (outOrder e)" using True inv by (simp add: outOrder_iff)
  have many: "2 \<le> card (alive_seats e)"
    using inv going by (simp add: seats_invD)
  have card: "card (alive_seats ?e) = card (alive_seats e) - 1"
    using i by simp
  have turn: "turnIndex ?e \<in> alive_seats ?e"
  proof (cases "turnIndex e = i")
    case False
    with i inv show ?thesis by (simp add: seats_invD)
  next
    case same: True
    have "0 < card (alive_seats ?e)" using card many by linarith
    then have "alive_seats ?e \<noteq> {}" by (simp add: card_gt_0_iff)
    then obtain j where "j < length (alive ?e)" "alive ?e ! j" by (auto simp: alive_seats_def)
    moreover have "length (alive ?e) = length (players e)" using i(3) inv by (simp add: seats_invD)
    ultimately have "\<exists>m \<ge> 1. m \<le> length (players e) \<and> alive ?e ! ((i + m) mod length (alive ?e))"
      using reach_index [of i "length (players e)" j] len by metis
    then show ?thesis
      using advance_loop_first [of i "alive ?e" "length (players e)"] same len i
        \<open>length (alive ?e) = length (players e)\<close> mod_in_range [OF len]
      by (auto simp: alive_seats_def)
  qed
  have outs: "set (outOrder ?e) = (\<lambda>i. players ?e ! i) ` ({..<length (players ?e)} - alive_seats ?e)"
  proof -
    have "{..<length (players e)} - alive_seats ?e = insert i ({..<length (players e)} - alive_seats e)"
      using i(1) len unfolding i(4) by blast
    then show ?thesis using i(2) by (simp add: el(3) seats_invD(11) [OF inv])
  qed
  have reasons: "dom (outReason ?e) = set (outOrder ?e)" "EndNone \<notin> ran (outReason ?e)"
    using seats_invD(12,13) [OF inv] p_out r unfolding el(3,4) by (auto simp: ran_def dom_def)
  have last_reason: "endReason ?e = OutReason ?e (last (outOrder ?e))" "outOrder ?e \<noteq> []"
    by (simp_all add: el(3-5) OutReason_def)
  show ?thesis
    unfolding seats_inv_def
    using inv i turn card many outs reasons last_reason p_out going
    by (simp add: seats_invD el(2,3,6,7))
qed

end
