(* ===== verification/Engine_Moves.thy ===== *)
theory Engine_Moves
  imports Engine_Turns
begin

text \<open>
  The operations a caller drives (\<open>server/internal/game/engine.go\<close>): the dead-end cascade of \<open>settle\<close>
  and who it leaves standing, and that \<open>New\<close>, \<open>Submit\<close>, \<open>Timeout\<close>, \<open>NoMove\<close> and \<open>Resign\<close> keep the
  table invariant.
\<close>

subsection \<open>Legal moves\<close>

lemma any_unused_iff: "any_unused us ws \<longleftrightarrow> (\<exists>w \<in> set ws. w \<notin> us)"
  by (induction ws) auto

lemma HasLegalMove_iff: "HasLegalMove e \<longleftrightarrow> LegalMoves e \<noteq> []"
  by (auto simp: HasLegalMove_def LegalMoves_def any_unused_iff filter_empty_conv)

text \<open>The part of the state a position is: what elimination never touches.\<close>

definition same_position :: "engine \<Rightarrow> engine \<Rightarrow> bool" where
  "same_position e e' \<longleftrightarrow>
     dict e' = dict e \<and> players e' = players e \<and> used e' = used e \<and> current e' = current e \<and>
     turnLimit e' = turnLimit e \<and> history e' = history e \<and> scores e' = scores e"

lemma same_position_refl [simp]: "same_position e e"
  by (simp add: same_position_def)

lemma same_position_trans:
  "same_position a b \<Longrightarrow> same_position b c \<Longrightarrow> same_position a c"
  by (simp add: same_position_def)

lemma same_position_eliminate [simp]: "same_position e (snd (eliminate p r e))"
  by (simp add: same_position_def)

lemma same_position_deadline [simp]: "same_position e (e'\<lparr>deadline := t\<rparr>) = same_position e e'"
  by (simp add: same_position_def)

lemma LegalMoves_same: "same_position e e' \<Longrightarrow> LegalMoves e' = LegalMoves e"
  by (simp add: same_position_def LegalMoves_def)

lemma HasLegalMove_same: "same_position e e' \<Longrightarrow> HasLegalMove e' = HasLegalMove e"
  by (simp add: HasLegalMove_iff LegalMoves_same)

subsection \<open>The settle loop\<close>

lemma settle_body_step:
  assumes "seats_inv e" and "settle_guard e"
  shows "seats_inv (settle_body e)"
    and "card (alive_seats (settle_body e)) < card (alive_seats e)"
    and "\<exists>q. outOrder (settle_body e) = outOrder e @ [q]"
proof -
  have going: "\<not> over e" using assms(2) by (simp add: settle_guard_def)
  show "seats_inv (settle_body e)"
    using assms(1) going unfolding settle_body_def by (intro eliminate_inv) simp_all
  note el = eliminate_alive [OF assms(1) Alive_Turn [OF assms(1)], of EndNoLegalMove]
  obtain i where i: "i \<in> alive_seats e" "alive_seats (settle_body e) = alive_seats e - {i}"
    using el(1) unfolding settle_body_def by blast
  then show "card (alive_seats (settle_body e)) < card (alive_seats e)"
    by (simp add: card_Diff1_less del: card_Diff_insert)
  show "\<exists>q. outOrder (settle_body e) = outOrder e @ [q]"
    using el(3) by (simp add: settle_body_def)
qed

lemma settle_terminates:
  assumes "seats_inv e"
  shows "while_option settle_guard settle_body e = Some (settle e)"
proof -
  obtain e' where "while_option settle_guard settle_body e = Some e'"
    using measure_while_option_Some [of seats_inv settle_guard settle_body
        "\<lambda>e. card (alive_seats e)" e] assms settle_body_step(1,2) by blast
  then show ?thesis by (simp add: settle_def while_def)
qed

text \<open>Rule for what the loop keeps.\<close>

lemma settle_induct:
  assumes "seats_inv e" and "P e"
    and "\<And>a. seats_inv a \<Longrightarrow> settle_guard a \<Longrightarrow> P a \<Longrightarrow> P (settle_body a)"
  shows "P (settle e)"
proof -
  have "seats_inv (settle e) \<and> P (settle e)"
    using while_option_rule [where P = "\<lambda>a. seats_inv a \<and> P a",
        OF _ settle_terminates [OF assms(1)]] assms settle_body_step(1) by blast
  then show ?thesis ..
qed

lemma settle_inv: "seats_inv e \<Longrightarrow> seats_inv (settle e)"
  using settle_induct [of e seats_inv] settle_body_step(1) by blast

lemma settle_position: "seats_inv e \<Longrightarrow> same_position e (settle e)"
  by (rule settle_induct [where P = "same_position e"])
     (auto simp: settle_body_def intro: same_position_trans)

lemma settle_deadline: "seats_inv e \<Longrightarrow> deadline (settle e) = deadline e"
  by (rule settle_induct [where P = "\<lambda>a. deadline a = deadline e"]) (auto simp: settle_body_def)

lemma settle_noop: "\<not> settle_guard e \<Longrightarrow> settle e = e"
  by (simp add: settle_def while_unfold)

lemma settle_done: "seats_inv e \<Longrightarrow> over (settle e) \<or> HasLegalMove (settle e)"
  using while_option_stop [OF settle_terminates] by (simp add: settle_guard_def)

text \<open>A dead end is a property of the position, so the cascade runs until one player is left.\<close>

lemma settle_dead_end: "seats_inv e \<Longrightarrow> \<not> HasLegalMove e \<Longrightarrow> over (settle e)"
  using settle_done settle_position HasLegalMove_same by blast

lemma settle_outOrder: "seats_inv e \<Longrightarrow> \<exists>qs. outOrder (settle e) = outOrder e @ qs"
proof (rule settle_induct [where P = "\<lambda>a. \<exists>qs. outOrder a = outOrder e @ qs"])
  fix a
  assume "seats_inv a" "settle_guard a" "\<exists>qs. outOrder a = outOrder e @ qs"
  then show "\<exists>qs. outOrder (settle_body a) = outOrder e @ qs"
    using settle_body_step(3) [of a] by auto
qed simp_all

subsection \<open>Who is left standing\<close>

text \<open>
  How far seat \<open>j\<close> is from the seat to act, going round the table. The cascade takes players out in
  that order, so the seat furthest away is the one it leaves.
\<close>

definition dist :: "engine \<Rightarrow> nat \<Rightarrow> nat" where
  "dist e j = cdist (length (players e)) (turnIndex e) j"

definition furthest :: "engine \<Rightarrow> nat \<Rightarrow> bool" where
  "furthest e w \<longleftrightarrow> w \<in> alive_seats e \<and> (\<forall>j \<in> alive_seats e. dist e j \<le> dist e w)"

lemma alive_seats_less: "seats_inv e \<Longrightarrow> j \<in> alive_seats e \<Longrightarrow> j < length (players e)"
  by (simp add: alive_seats_def seats_invD)

lemma furthest_eliminate_Turn:
  assumes inv: "seats_inv e" and going: "\<not> over e" and w: "furthest e w" and r: "r \<noteq> EndNone"
  shows "furthest (snd (eliminate (Turn e) r e)) w"
proof -
  let ?e = "snd (eliminate (Turn e) r e)" and ?n = "length (players e)" and ?t = "turnIndex e"
  note t = seats_invD(4,5) [OF inv]
  obtain i where i: "i \<in> alive_seats e" "players e ! i = Turn e" "alive ?e = (alive e)[i := False]"
    "alive_seats ?e = alive_seats e - {i}"
    "turnIndex ?e = (if ?t = i then advance_loop ?n ((alive e)[i := False]) i else ?t)"
    using eliminate_alive(1) [OF inv Alive_Turn [OF inv], of r] by blast
  have "i = ?t"
    using i(1,2) t nth_eq_iff_index_eq [OF seats_invD(2) [OF inv]] alive_seats_less [OF inv]
    by (auto simp: Turn_def)
  then have al: "alive ?e = (alive e)[?t := False]" "alive_seats ?e = alive_seats e - {?t}"
    "turnIndex ?e = advance_loop ?n (alive ?e) ?t"
    using i by simp_all
  have inv': "seats_inv ?e" using eliminate_inv [OF inv going r] .
  have len: "length (alive ?e) = ?n" using seats_invD(1) [OF inv'] by simp
  have turn': "turnIndex ?e \<in> alive_seats ?e" "turnIndex ?e < ?n"
    using seats_invD(4,5) [OF inv'] by simp_all
  then obtain m where m: "1 \<le> m" "m \<le> ?n" "turnIndex ?e = (?t + m) mod ?n"
    "\<forall>m' \<ge> 1. m' < m \<longrightarrow> \<not> alive ?e ! ((?t + m') mod ?n)"
    using advance_loop_first [of ?t "alive ?e" ?n] reach_index [of ?t ?n "turnIndex ?e"] t len
    unfolding al(3) alive_seats_def by (metis (no_types, lifting) mem_Collect_eq)
  have closer: "m \<le> cdist ?n ?t k" if "k \<in> alive_seats ?e" for k
  proof (rule ccontr)
    assume "\<not> m \<le> cdist ?n ?t k"
    moreover have k: "k < ?n" "k \<noteq> ?t" "alive ?e ! k"
      using that al(2) len by (auto simp: alive_seats_def)
    moreover have "1 \<le> cdist ?n ?t k" using k t cdist_0_iff [of ?t ?n k] by linarith
    ultimately have "\<not> alive ?e ! k" using m(4) cdist_reaches [of ?t ?n k] t by auto
    with k show False by simp
  qed
  have dist': "dist ?e k = dist e k - m" if "k \<in> alive_seats ?e" for k
    using cdist_shift [of ?t ?n k m] closer [OF that] t m(3) alive_seats_less [OF inv' that]
    by (simp add: dist_def)
  have "w \<noteq> ?t"
  proof
    assume "w = ?t"
    then have "dist e (turnIndex ?e) = 0"
      using w turn' al(2) t by (auto simp: furthest_def dist_def)
    then show False using turn' al(2) t cdist_0_iff [of ?t ?n "turnIndex ?e"] by (auto simp: dist_def)
  qed
  with w al(2) have w': "w \<in> alive_seats ?e" by (simp add: furthest_def)
  then show ?thesis
    using w dist' al(2) by (auto simp: furthest_def intro!: diff_le_mono)
qed

lemma furthest_settle:
  assumes "seats_inv e" and "furthest e w"
  shows "furthest (settle e) w"
  using assms
  by (rule settle_induct [where P = "\<lambda>a. furthest a w"])
     (simp add: settle_body_def settle_guard_def furthest_eliminate_Turn)

lemma over_furthest:
  assumes "seats_inv e" and "over e" and "furthest e w"
  shows "turnIndex e = w" and "winner e = players e ! w"
proof -
  have "card (alive_seats e) \<le> 1" using assms by (simp add: seats_invD)
  moreover have "turnIndex e \<in> alive_seats e" using assms by (simp add: seats_invD)
  moreover have "w \<in> alive_seats e" using assms by (simp add: furthest_def)
  ultimately show "turnIndex e = w" by (metis card_le_Suc0_iff_eq One_nat_def finite_alive_seats)
  then show "winner e = players e ! w" using assms by (simp add: seats_invD Turn_def)
qed

subsection \<open>Ending a turn\<close>

lemma expire_facts:
  assumes inv: "seats_inv e" and going: "\<not> over e"
  shows "seats_inv (expire now e)" and "same_position e (expire now e)"
    and "over (expire now e) \<or> HasLegalMove (expire now e)"
    and "\<exists>qs. outOrder (expire now e) = outOrder e @ Turn e # qs"
    and "furthest e w \<Longrightarrow> furthest (expire now e) w"
    and "deadline (expire now e) = (if over (expire now e) then deadline e else now + turnLimit e)"
proof -
  define r where "r = (if \<not> HasLegalMove e then EndNoLegalMove else EndTimeout)"
  let ?a = "snd (eliminate (Turn e) r e)"
  have r: "r \<noteq> EndNone" by (simp add: r_def)
  have ex: "expire now e = (if \<not> over (settle ?a)
      then (settle ?a)\<lparr>deadline := now + turnLimit (settle ?a)\<rparr> else settle ?a)"
    by (simp add: expire_def Let_def r_def)
  have a: "seats_inv ?a" by (rule eliminate_inv [OF inv going r])
  have upd: "seats_inv (b\<lparr>deadline := t\<rparr>) = seats_inv b" "alive_seats (b\<lparr>deadline := t\<rparr>) = alive_seats b"
    "HasLegalMove (b\<lparr>deadline := t\<rparr>) = HasLegalMove b" "furthest (b\<lparr>deadline := t\<rparr>) = furthest b"
    for b t
    by (simp_all add: seats_inv_def alive_seats_def Turn_def OutReason_def HasLegalMove_def
        furthest_def dist_def fun_eq_iff)
  have pos: "same_position e (settle ?a)"
    using same_position_trans [OF same_position_eliminate settle_position [OF a]] .
  show "seats_inv (expire now e)" using settle_inv [OF a] by (simp add: ex upd)
  show "same_position e (expire now e)" using pos by (simp add: ex)
  show "over (expire now e) \<or> HasLegalMove (expire now e)"
    using settle_done [OF a] by (auto simp: ex upd)
  show "\<exists>qs. outOrder (expire now e) = outOrder e @ Turn e # qs"
    using settle_outOrder [OF a] eliminate_alive(3) [OF inv Alive_Turn [OF inv], of r]
    by (auto simp: ex)
  show "furthest (expire now e) w" if "furthest e w"
    using furthest_settle [OF a furthest_eliminate_Turn [OF inv going that r]] by (simp add: ex upd)
  show "deadline (expire now e) = (if over (expire now e) then deadline e else now + turnLimit e)"
    using settle_deadline [OF a] pos by (simp add: ex same_position_def)
qed

subsection \<open>Playing a word\<close>

text \<open>The state \<open>Submit\<close> leaves behind when it accepts the move \<open>m\<close>.\<close>

definition accepted :: "engine \<Rightarrow> move \<Rightarrow> instant \<Rightarrow> engine" where
  "accepted e m now =
     (advance (e\<lparr>used := insert (mv_word m) (used e), history := history e @ [m],
                 scores := (scores e)(mv_player m \<mapsto> score_of e (mv_player m) + mv_points m),
                 current := mv_last m\<rparr>))\<lparr>deadline := now + turnLimit e\<rparr>"

lemma accepted_simps [simp]:
  "dict (accepted e m now) = dict e" "players (accepted e m now) = players e"
  "alive (accepted e m now) = alive e" "aliveN (accepted e m now) = aliveN e"
  "outOrder (accepted e m now) = outOrder e" "outReason (accepted e m now) = outReason e"
  "used (accepted e m now) = insert (mv_word m) (used e)"
  "current (accepted e m now) = mv_last m" "turnLimit (accepted e m now) = turnLimit e"
  "deadline (accepted e m now) = now + turnLimit e"
  "history (accepted e m now) = history e @ [m]"
  "scores (accepted e m now) = (scores e)(mv_player m \<mapsto> score_of e (mv_player m) + mv_points m)"
  "over (accepted e m now) = over e" "winner (accepted e m now) = winner e"
  "endReason (accepted e m now) = endReason e"
  "alive_seats (accepted e m now) = alive_seats e"
  by (simp_all add: accepted_def alive_seats_def)

lemma accepted_turn: "turnIndex (accepted e m now) = turnIndex (advance e)"
  by (simp add: accepted_def advance_def)

text \<open>The one branch that accepts, with every guard it passed.\<close>

lemma Submit_accepted:
  assumes "Submit u p raw now e = (e', Some m, r)"
  obtains w ss where "r = ReasonNone" "\<not> over e" "p = Turn e" "now \<le> deadline e"
    "Normalize u raw = Some (w, ss)" "MinSyllables \<le> length ss"
    "Resolve (dict e) w = Some (mv_word m)"
    "FirstSyllable (dict e) (mv_word m) = Some (current e)" "mv_word m \<notin> used e"
    "LastSyllable (dict e) (mv_word m) = Some (mv_last m)"
    "pointsFor e (length ss) (current e) now = (mv_points m, mv_parts m)"
    "mv_player m = p" "mv_typed m = raw" "mv_first m = current e" "mv_syllables m = length ss"
    "mv_at m = now" "e' = accepted e m now"
  using assms
  by (auto simp: Submit_def Let_def accepted_def advance_def IsExpired_def HasEnoughSyllables_def
      not_less split: if_splits option.splits prod.splits)

text \<open>Every other branch returns no move; only an expired turn changes the state.\<close>

lemma Submit_refused:
  assumes "Submit u p raw now e = (e', None, r)"
  shows "r \<noteq> ReasonNone"
    and "e' = (if r = ReasonTimeout then expire now e else e)"
    and "r = ReasonTimeout \<Longrightarrow> \<not> over e \<and> p = Turn e \<and> deadline e < now"
  using assms
  by (auto simp: Submit_def Let_def IsExpired_def split: if_splits option.splits prod.splits)

lemma Submit_cases:
  obtains (accepted) m where "Submit u p raw now e = (accepted e m now, Some m, ReasonNone)"
  | (refused) r where "Submit u p raw now e = (e, None, r)" "r \<noteq> ReasonNone" "r \<noteq> ReasonTimeout"
  | (expired) "Submit u p raw now e = (expire now e, None, ReasonTimeout)" "\<not> over e" "p = Turn e"
      "deadline e < now"
proof -
  obtain e' mo r where s: "Submit u p raw now e = (e', mo, r)" by (metis prod_cases3)
  show thesis
  proof (cases mo)
    case None
    with s Submit_refused [of u p raw now e e' r] that(2,3) show ?thesis
      by (cases "r = ReasonTimeout") auto
  next
    case (Some m)
    with s Submit_accepted [of u p raw now e e' m r] that(1) show ?thesis by metis
  qed
qed

lemma advance_inv:
  assumes "seats_inv e" and "\<not> over e"
  shows "seats_inv (advance e)"
proof -
  have "next_alive e (turnIndex e) (turnIndex (advance e))"
    using assms by (intro advance_next_alive) (auto simp: seats_invD)
  then have "turnIndex (advance e) \<in> alive_seats e" by (simp add: next_alive_def)
  moreover have "alive_seats (advance e) = alive_seats e" by (simp add: alive_seats_def)
  ultimately show ?thesis
    using assms by (simp add: seats_inv_def OutReason_def)
qed

lemma accepted_inv:
  assumes "seats_inv e" and "\<not> over e"
  shows "seats_inv (accepted e m now)"
  using advance_inv [OF assms] assms(2)
  by (auto simp: seats_inv_def accepted_turn OutReason_def alive_seats_def)

text \<open>The player who just played is the one furthest from the turn they gave away.\<close>

lemma accepted_furthest:
  assumes inv: "seats_inv e" and "\<not> over e"
  shows "furthest (accepted e m now) (turnIndex e)"
proof -
  let ?n = "length (players e)" and ?t = "turnIndex e" and ?j = "turnIndex (advance e)"
  note t = seats_invD(4,5) [OF inv]
  have "next_alive e ?t ?j"
    using assms by (intro advance_next_alive) (auto simp: seats_invD)
  then obtain m where m: "1 \<le> m" "m \<le> ?n" "?j = (?t + m) mod ?n" "?j \<in> alive_seats e"
    "\<forall>m' \<ge> 1. m' < m \<longrightarrow> (?t + m') mod ?n \<notin> alive_seats e"
    by (auto simp: next_alive_def)
  have jn: "?j < ?n" using m(4) alive_seats_less [OF inv] by simp
  have ret: "cdist ?n ?j ?t = ?n - m"
  proof (cases "m = ?n")
    case True
    with m(3) t have "?j = ?t" by simp
    with True t show ?thesis by simp
  next
    case False
    with m t show ?thesis by (auto simp: m(3) cdist_eq add_mod_table mod_in_range split: if_splits)
  qed
  have "cdist ?n ?j k \<le> ?n - m" if k: "k \<in> alive_seats e" for k
  proof (cases "k = ?t")
    case True
    with ret show ?thesis by simp
  next
    case False
    have kn: "k < ?n" using k alive_seats_less [OF inv] by simp
    have "1 \<le> cdist ?n ?t k" using cdist_0_iff [of ?t ?n k] False t kn by linarith
    then have "m \<le> cdist ?n ?t k"
      using m(5) cdist_reaches [of ?t ?n k] t kn k by (metis not_less)
    then show ?thesis
      using cdist_shift [of ?t ?n k m] cdist_less [of ?t ?n k] t kn m(3) by simp
  qed
  then show ?thesis
    using t ret by (auto simp: furthest_def dist_def accepted_turn)
qed

lemma Submit_inv:
  assumes "seats_inv e" and "Submit u p raw now e = (e', mo, r)"
  shows "seats_inv e'"
proof (cases rule: Submit_cases [of u p raw now e])
  case (accepted m)
  then have "\<not> over e" using Submit_accepted by metis
  with accepted assms show ?thesis by (simp add: accepted_inv)
qed (use assms expire_facts(1) in auto)

text \<open>Conversely, a word that passes every guard is accepted.\<close>

lemma Submit_accepts:
  assumes "over e = False" and "Turn e = p" and "now \<le> deadline e"
    and "Normalize u raw = Some (w, ss)" and "HasEnoughSyllables ss = True"
    and "Resolve (dict e) w = Some (mv_word m)"
    and "FirstSyllable (dict e) (mv_word m) = Some (current e)"
    and "mv_word m \<notin> used e" and "LastSyllable (dict e) (mv_word m) = Some (mv_last m)"
    and "pointsFor e (length ss) (current e) now = (mv_points m, mv_parts m)"
    and "(mv_player m, mv_typed m, mv_first m) = (p, raw, current e)"
    and "(mv_syllables m, mv_at m) = (length ss, now)"
  shows "Submit u p raw now e = (accepted e m now, Some m, ReasonNone)"
  using assms by (cases m) (simp add: Submit_def IsExpired_def accepted_def Let_def)

end
