(* ===== verification/Engine_Score.thy ===== *)
theory Engine_Score
  imports Engine
begin

text \<open>
  What a word is worth (\<open>pointsFor\<close>, \<open>speedPoints\<close> and \<open>rarityPoints\<close> of
  \<open>server/internal/game/engine.go\<close>): the five terms, the cap, the trimming loop that applies it, and
  the breakdown that travels to the client.
\<close>

subsection \<open>The trimming loop\<close>

lemma sumParts_eq: "sumParts ps = sum_list (map pp_value ps)"
proof -
  have "foldl (\<lambda>total p. total + pp_value p) a ps = a + sum_list (map pp_value ps)" for a :: int
    by (induction ps arbitrary: a) simp_all
  then show ?thesis by (simp add: sumParts_def)
qed

definition nonneg_parts :: "point_part list \<Rightarrow> bool" where
  "nonneg_parts ps \<longleftrightarrow> (\<forall>p \<in> set ps. 0 \<le> pp_value p)"

lemma nonneg_parts_simps [simp]:
  "nonneg_parts []"
  "nonneg_parts (p # ps) \<longleftrightarrow> 0 \<le> pp_value p \<and> nonneg_parts ps"
  "nonneg_parts (ps @ qs) \<longleftrightarrow> nonneg_parts ps \<and> nonneg_parts qs"
  "nonneg_parts (rev ps) \<longleftrightarrow> nonneg_parts ps"
  by (auto simp: nonneg_parts_def)

lemma sum_nonneg_parts: "nonneg_parts ps \<Longrightarrow> 0 \<le> sum_list (map pp_value ps)"
  by (induction ps) auto

lemma trim_from_done [simp]: "overflow \<le> 0 \<Longrightarrow> trim_from ps overflow = ps"
  by (cases ps) simp_all

lemma map_kind_trim [simp]: "map pp_kind (trim_from ps overflow) = map pp_kind ps"
  by (induction ps overflow rule: trim_from.induct) (simp_all add: Let_def)

lemma nonneg_trim: "nonneg_parts ps \<Longrightarrow> nonneg_parts (trim_from ps overflow)"
  by (induction ps overflow rule: trim_from.induct) (simp_all add: Let_def)

lemma sum_trim:
  "nonneg_parts ps \<Longrightarrow> 0 \<le> overflow \<Longrightarrow>
   sum_list (map pp_value (trim_from ps overflow))
     = sum_list (map pp_value ps) - min overflow (sum_list (map pp_value ps))"
proof (induction ps overflow rule: trim_from.induct)
  case (1 overflow)
  then show ?case by simp
next
  case (2 p ps overflow)
  show ?case
  proof (cases "overflow > 0")
    case True
    with 2 have "sum_list (map pp_value (trim_from ps (overflow - min (pp_value p) overflow)))
      = sum_list (map pp_value ps)
        - min (overflow - min (pp_value p) overflow) (sum_list (map pp_value ps))"
      by simp
    moreover have "0 \<le> sum_list (map pp_value ps)"
      using 2 by (simp add: sum_nonneg_parts)
    ultimately show ?thesis
      using True 2 by (simp add: Let_def min_def)
  next
    case False
    with 2 sum_nonneg_parts [of "p # ps"] show ?thesis by simp
  qed
qed

text \<open>Overflow that the last terms can absorb never reaches the first ones.\<close>

lemma trim_append:
  "nonneg_parts xs \<Longrightarrow> overflow \<le> sum_list (map pp_value xs) \<Longrightarrow>
   trim_from (xs @ ys) overflow = trim_from xs overflow @ ys"
proof (induction xs overflow rule: trim_from.induct)
  case (1 overflow)
  then show ?case by simp
next
  case (2 p ps overflow)
  then show ?case
    using sum_nonneg_parts [of ps]
    by (cases "overflow > 0"; cases "pp_value p \<le> overflow") (simp_all add: Let_def min_def)
qed

subsection \<open>The speed term\<close>

text \<open>
  The product in \<open>speedPoints\<close> is an \<open>int64\<close>: the hypothesis on the turn limit (under some 29 years)
  is what keeps it from wrapping around.
\<close>

definition limit_ok :: "duration \<Rightarrow> bool" where
  "limit_ok limit \<longleftrightarrow> 0 < limit \<and> speedBonus * limit \<le> max_int64"

lemma speedPoints_in_turn:
  assumes "limit_ok (turnLimit e)" and "now \<le> deadline e"
    and "deadline e \<le> now + turnLimit e"
  shows "speedPoints e now = speedBonus * (deadline e - now) div turnLimit e"
proof (cases "deadline e = now")
  case True
  then show ?thesis by (simp add: speedPoints_def time_sub_def max_int64_def min_int64_def)
next
  case False
  have lim: "0 < turnLimit e" "speedBonus * turnLimit e \<le> max_int64"
    using assms by (auto simp: limit_ok_def)
  have sub: "time_sub (deadline e) now = deadline e - now"
    using assms lim by (simp add: time_sub_def min_int64_def max_int64_def speedBonus_def)
  have prod: "wrap64 (speedBonus * (deadline e - now)) = speedBonus * (deadline e - now)"
    using assms lim False by (intro wrap64_id) (auto simp: speedBonus_def max_int64_def)
  have nn: "0 \<le> speedBonus * (deadline e - now)"
    using assms by (simp add: speedBonus_def)
  show ?thesis
    using assms False lim go_div_nonneg [OF nn lim(1)]
    by (simp add: speedPoints_def sub prod Let_def)
qed

lemma speedPoints_bounds:
  assumes "limit_ok (turnLimit e)"
  shows "0 \<le> speedPoints e now \<and> speedPoints e now \<le> speedBonus"
proof -
  let ?L = "turnLimit e"
  define r where "r = min (time_sub (deadline e) now) ?L"
  have L: "0 < ?L" "speedBonus * ?L \<le> max_int64"
    using assms by (auto simp: limit_ok_def)
  show ?thesis
  proof (cases "time_sub (deadline e) now \<le> 0")
    case True
    then show ?thesis by (simp add: speedPoints_def speedBonus_def)
  next
    case False
    with L have r: "0 < r" "r \<le> ?L" by (auto simp: r_def)
    have w: "wrap64 (speedBonus * r) = speedBonus * r"
      using r L by (intro wrap64_id) (auto simp: speedBonus_def max_int64_def)
    have "speedPoints e now = go_div (wrap64 (speedBonus * r)) ?L"
      using False by (simp add: speedPoints_def Let_def r_def min_def)
    moreover have "go_div (speedBonus * r) ?L = speedBonus * r div ?L"
      using r L by (intro go_div_nonneg) (simp_all add: speedBonus_def)
    ultimately have "speedPoints e now = speedBonus * r div ?L"
      by (simp only: w)
    moreover have "speedBonus * r div ?L \<le> speedBonus * ?L div ?L"
      using r L by (intro zdiv_mono1) (auto simp: speedBonus_def)
    moreover have "0 \<le> speedBonus * r div ?L"
      using r L by (simp add: speedBonus_def pos_imp_zdiv_nonneg_iff)
    ultimately show ?thesis using L by simp
  qed
qed

subsection \<open>The rarity term\<close>

lemma rarityPoints_ladder:
  assumes "OutDegree (dict e) link = Some n" and "2 ^ k \<le> n" and "n < 2 ^ Suc k"
  shows "rarityPoints e link = max (rarityBonus - rarityHalvingPenalty * int k) 0"
proof -
  have pos: "0 < n" using assms(2) by (smt (verit) zero_less_power)
  have lo: "2 ^ k \<le> nat n" and hi: "nat n < 2 ^ Suc k"
    using assms pos by (simp_all add: nat_less_iff le_nat_iff del: power_Suc)
  have r: "2 ^ (bits_len (nat n) - 1) \<le> nat n" "nat n < 2 ^ bits_len (nat n)"
    using bits_len_range [of "nat n"] pos by auto
  from lo r(2) have "k < bits_len (nat n)"
    using power_less_imp_less_exp [of "2::nat" k] by (meson le_less_trans one_less_numeral_iff semiring_norm(76))
  moreover from r(1) hi have "bits_len (nat n) - 1 < Suc k"
    using power_less_imp_less_exp [of "2::nat" _ "Suc k"] by (meson le_less_trans one_less_numeral_iff semiring_norm(76))
  ultimately have "bits_len (nat n) = Suc k" by linarith
  then show ?thesis using assms(1) pos by (simp add: rarityPoints_def)
qed

lemma rarityPoints_bounds: "0 \<le> rarityPoints e link \<and> rarityPoints e link \<le> rarityBonus"
proof (cases "OutDegree (dict e) link")
  case None
  then show ?thesis by (simp add: rarityPoints_def rarityBonus_def)
next
  case (Some n)
  show ?thesis
  proof (cases "n < 1")
    case True
    with Some show ?thesis by (simp add: rarityPoints_def rarityBonus_def)
  next
    case False
    then have "bits_len (nat n) \<ge> 1" by (simp add: bits_len_pos)
    with Some False show ?thesis
      by (auto simp: rarityPoints_def rarityBonus_def rarityHalvingPenalty_def)
  qed
qed

subsection \<open>The whole word\<close>

text \<open>
  Trimming a breakdown \<open>early @ late\<close> to a cap the early terms fit under: the early terms are as they
  were, the rest keep their kinds, and the total is the capped total.
\<close>

lemma cap_spec:
  assumes nn: "nonneg_parts (early @ late)" and fits: "sum_list (map pp_value early) \<le> cap"
  defines "trimmed \<equiv> rev (trim_from (rev (early @ late)) (sumParts (early @ late) - cap))"
  shows "\<exists>late'. trimmed = early @ late' \<and> map pp_kind late' = map pp_kind late"
    and "nonneg_parts trimmed"
    and "sumParts trimmed = min (sumParts (early @ late)) cap"
proof -
  let ?ov = "sumParts (early @ late) - cap"
  have "trim_from (rev late @ rev early) ?ov = trim_from (rev late) ?ov @ rev early"
    using nn fits by (intro trim_append) (simp_all add: sumParts_eq rev_map [symmetric])
  then have "trimmed = early @ rev (trim_from (rev late) ?ov)"
    by (simp add: trimmed_def)
  moreover have "map pp_kind (rev (trim_from (rev late) ?ov)) = map pp_kind late"
    by (simp add: rev_map [symmetric])
  ultimately show "\<exists>late'. trimmed = early @ late' \<and> map pp_kind late' = map pp_kind late"
    by blast
  show "nonneg_parts trimmed"
    using nn unfolding trimmed_def by (simp add: nonneg_trim del: rev_append)
  have "sumParts trimmed = sum_list (map pp_value (trim_from (rev (early @ late)) ?ov))"
    by (simp add: trimmed_def sumParts_eq rev_map [symmetric])
  also have "\<dots> = min (sumParts (early @ late)) cap"
  proof (cases "?ov \<le> 0")
    case True
    then show ?thesis by (simp add: sumParts_eq rev_map [symmetric])
  next
    case False
    have "0 \<le> cap" using fits nn sum_nonneg_parts [of early] by simp
    with False show ?thesis
      using nn sum_trim [of "rev (early @ late)" ?ov]
      by (simp add: sumParts_eq rev_map [symmetric] del: rev_append)
  qed
  finally show "sumParts trimmed = min (sumParts (early @ late)) cap" .
qed

lemma filter_pos_parts:
  "nonneg_parts ps \<Longrightarrow> sumParts (filter (\<lambda>p. \<not> pp_value p \<le> 0) ps) = sumParts ps"
  unfolding sumParts_eq by (induction ps) auto

lemma sorted_wrt_map_filter:
  "sorted_wrt P (map f xs) \<Longrightarrow> sorted_wrt P (map f (filter Q xs))"
  by (induction xs) auto

text \<open>What the five terms are, before the cap.\<close>

definition raw_total :: "engine \<Rightarrow> nat \<Rightarrow> str \<Rightarrow> instant \<Rightarrow> int" where
  "raw_total e n link now =
     basePoints + chainBonus * min (int (ChainLength e)) chainBonusWords
       + syllableBonus * (int n - int MinSyllables) + speedPoints e now + rarityPoints e link"

lemma sum_raw_parts: "sumParts (raw_parts e n link now) = raw_total e n link now"
  by (simp add: sumParts_eq raw_parts_def raw_total_def)

lemma pointsFor_spec:
  assumes lim: "limit_ok (turnLimit e)" and n: "MinSyllables \<le> n"
    and eq: "pointsFor e n link now = (pts, parts)"
  shows "pts = min (raw_total e n link now) maxPointsPerWord"
    and "pts = sumParts parts"
    and "\<forall>p \<in> set parts. 0 < pp_value p"
    and "sorted_wrt (<) (map pp_kind parts)"
    and "take 2 parts = take 2 (raw_parts e n link now)"
proof -
  obtain early late where early: "early = take 2 (raw_parts e n link now)"
    and late: "late = drop 2 (raw_parts e n link now)"
    by simp
  have raw: "raw_parts e n link now = early @ late"
    by (simp add: early late)
  have nn: "nonneg_parts (early @ late)"
    using speedPoints_bounds [OF lim, of now] rarityPoints_bounds [of e link] n
    unfolding raw [symmetric] by (simp add: raw_parts_def score_consts)
  have "sum_list (map pp_value early) \<le> maxPointsPerWord"
    by (simp add: early raw_parts_def score_consts)
  note cap = cap_spec [OF nn this]
  define trimmed where
    "trimmed = rev (trim_from (rev (early @ late)) (sumParts (early @ late) - maxPointsPerWord))"
  have parts: "parts = filter (\<lambda>p. \<not> pp_value p \<le> 0) trimmed" and pts: "pts = sumParts parts"
    using eq unfolding pointsFor_def Let_def raw trimmed_def by auto
  obtain late' where late': "trimmed = early @ late'" "map pp_kind late' = map pp_kind late"
    using cap(1) unfolding trimmed_def by blast
  show "pts = sumParts parts" by (rule pts)
  show "pts = min (raw_total e n link now) maxPointsPerWord"
    using cap(2,3) filter_pos_parts [of trimmed] sum_raw_parts [of e n link now]
    unfolding pts parts raw trimmed_def [symmetric] by simp
  show "\<forall>p \<in> set parts. 0 < pp_value p" by (auto simp: parts)
  show "take 2 parts = take 2 (raw_parts e n link now)"
    unfolding early [symmetric] parts late'(1)
    by (simp add: early raw_parts_def score_consts ChainLength_def min_def)
  have "map pp_kind trimmed = map pp_kind (raw_parts e n link now)"
    by (simp add: late' raw)
  then show "sorted_wrt (<) (map pp_kind parts)"
    unfolding parts
    by (intro sorted_wrt_map_filter) (simp add: raw_parts_def less_point_kind_def)
qed

end
