(* ===== verification/Engine_Game.thy ===== *)
theory Engine_Game
  imports Engine_Moves Engine_Score
begin

text \<open>
  Whole games of \<open>server/internal/game/engine.go\<close>: the states reachable from \<open>New\<close> by any sequence of
  operations, the chain of words and the scores they keep, and the properties of the engine.
\<close>

subsection \<open>Each operation keeps the table invariant\<close>

lemma Timeout_inv: "seats_inv e \<Longrightarrow> seats_inv (snd (Timeout now e))"
  by (simp add: Timeout_def expire_facts(1))

lemma NoMove_inv: "seats_inv e \<Longrightarrow> seats_inv (snd (NoMove now e))"
  by (simp add: NoMove_def expire_facts(1))

lemma seats_inv_deadline [simp]: "seats_inv (e\<lparr>deadline := t\<rparr>) = seats_inv e"
  by (simp add: seats_inv_def alive_seats_def Turn_def OutReason_def)

lemma Resign_inv: "seats_inv e \<Longrightarrow> seats_inv (snd (Resign p now e))"
  using eliminate_inv [of e EndResigned p] settle_inv [of "snd (eliminate p EndResigned e)"]
  by (auto simp: Resign_def Let_def split: prod.splits)

lemma Resign_position:
  assumes inv: "seats_inv e"
  shows "same_position e (snd (Resign p now e))"
proof (cases "over e")
  case True
  then show ?thesis by (simp add: Resign_def)
next
  case False
  obtain gone a where el: "eliminate p EndResigned e = (gone, a)" by fastforce
  then have a: "seats_inv a" "same_position e a"
    using eliminate_inv [OF inv False, of EndResigned p]
      same_position_eliminate [of e p EndResigned] by simp_all
  then have "same_position e (settle a)"
    using settle_position same_position_trans by blast
  with a False show ?thesis by (auto simp: Resign_def Let_def el)
qed

lemma first_duplicate_None:
  "first_duplicate seen ps = None \<longleftrightarrow> distinct ps \<and> seen \<inter> set ps = {}"
  by (induction seen ps rule: first_duplicate.induct) auto

lemma New_ok:
  assumes "New (Some d) ps opening limit now = Inr e"
  obtains w l where "Resolve d opening = Some w" "LastSyllable d w = Some l"
    "e = initial_engine d ps w l limit now" "2 \<le> length ps" "distinct ps" "0 < limit"
    "HasLegalMove e"
proof -
  have n: "\<not> length ps < 2" "\<not> limit \<le> 0" "first_duplicate {} ps = None"
    using assms by (auto simp: New_def split: if_splits option.splits)
  obtain w where w: "Resolve d opening = Some w"
    using n assms by (cases "Resolve d opening") (simp_all add: New_def)
  obtain l where l: "LastSyllable d w = Some l"
    using n w assms by (cases "LastSyllable d w") (simp_all add: New_def)
  have "HasLegalMove (initial_engine d ps w l limit now)" "e = initial_engine d ps w l limit now"
    using assms n w l by (auto simp: New_def Let_def split: if_splits)
  with n w l that show ?thesis by (auto simp: first_duplicate_None)
qed

lemma initial_engine_simps [simp]:
  "dict (initial_engine d ps w l limit now) = d" "players (initial_engine d ps w l limit now) = ps"
  "alive (initial_engine d ps w l limit now) = replicate (length ps) True"
  "aliveN (initial_engine d ps w l limit now) = int (length ps)"
  "outOrder (initial_engine d ps w l limit now) = []"
  "outReason (initial_engine d ps w l limit now) = Map.empty"
  "used (initial_engine d ps w l limit now) = {w}"
  "current (initial_engine d ps w l limit now) = l"
  "turnIndex (initial_engine d ps w l limit now) = 0"
  "turnLimit (initial_engine d ps w l limit now) = limit"
  "deadline (initial_engine d ps w l limit now) = now + limit"
  "history (initial_engine d ps w l limit now) = []"
  "scores (initial_engine d ps w l limit now) = map_of (map (\<lambda>p. (p, 0)) ps)"
  "over (initial_engine d ps w l limit now) = False"
  "winner (initial_engine d ps w l limit now) = []"
  "endReason (initial_engine d ps w l limit now) = EndNone"
  "alive_seats (initial_engine d ps w l limit now) = {..<length ps}"
  by (auto simp: initial_engine_def alive_seats_def)

lemma initial_engine_inv:
  assumes "2 \<le> length ps" and "distinct ps" and "0 < limit"
  shows "seats_inv (initial_engine d ps w l limit now)"
  unfolding seats_inv_def using assms by auto

subsection \<open>The chain of words\<close>

fun linked :: "str \<Rightarrow> move list \<Rightarrow> str \<Rightarrow> bool" where
  "linked s [] cur \<longleftrightarrow> s = cur"
| "linked s (m # ms) cur \<longleftrightarrow> mv_first m = s \<and> linked (mv_last m) ms cur"

lemma linked_snoc:
  "linked s ms cur \<Longrightarrow> mv_first m = cur \<Longrightarrow> linked s (ms @ [m]) (mv_last m)"
  by (induction ms arbitrary: s) auto

definition move_ok :: "dictionary \<Rightarrow> move \<Rightarrow> bool" where
  "move_ok d m \<longleftrightarrow>
     FirstSyllable d (mv_word m) = Some (mv_first m) \<and>
     LastSyllable d (mv_word m) = Some (mv_last m) \<and> MinSyllables \<le> mv_syllables m"

definition words_inv :: "str \<Rightarrow> engine \<Rightarrow> bool" where
  "words_inv w0 e \<longleftrightarrow>
     (\<exists>l0. LastSyllable (dict e) w0 = Some l0 \<and> linked l0 (history e) (current e)) \<and>
     distinct (w0 # map mv_word (history e)) \<and>
     used e = set (w0 # map mv_word (history e)) \<and>
     (\<forall>m \<in> set (history e). move_ok (dict e) m)"

lemma words_inv_same: "words_inv w0 e \<Longrightarrow> same_position e e' \<Longrightarrow> words_inv w0 e'"
  by (auto simp: words_inv_def same_position_def)

lemma words_inv_accepted:
  assumes "words_inv w0 e" and "Submit u p raw now e = (e', Some m, r)"
  shows "words_inv w0 e'"
  using assms(2)
proof (rule Submit_accepted)
  fix w ss
  assume "FirstSyllable (dict e) (mv_word m) = Some (current e)" "mv_word m \<notin> used e"
    "LastSyllable (dict e) (mv_word m) = Some (mv_last m)" "mv_first m = current e"
    "mv_syllables m = length ss" "MinSyllables \<le> length ss" "e' = accepted e m now"
  with assms(1) show ?thesis
    by (auto simp: words_inv_def move_ok_def intro: linked_snoc)
qed

subsection \<open>The scores\<close>

definition points_by :: "move list \<Rightarrow> player \<Rightarrow> int" where
  "points_by ms p = sum_list (map mv_points (filter (\<lambda>m. mv_player m = p) ms))"

lemma points_by_snoc [simp]:
  "points_by (ms @ [m]) p = points_by ms p + (if mv_player m = p then mv_points m else 0)"
  by (simp add: points_by_def)

definition scores_inv :: "engine \<Rightarrow> bool" where
  "scores_inv e \<longleftrightarrow>
     dom (scores e) = set (players e) \<and>
     (\<forall>p. score_of e p = points_by (history e) p) \<and>
     (\<forall>m \<in> set (history e). mv_player m \<in> set (players e))"

lemma scores_inv_same: "scores_inv e \<Longrightarrow> same_position e e' \<Longrightarrow> scores_inv e'"
  by (auto simp: scores_inv_def same_position_def score_of_def)

lemma scores_inv_accepted:
  assumes "seats_inv e" and "scores_inv e" and "Submit u p raw now e = (e', Some m, r)"
  shows "scores_inv e'"
  using assms(3)
proof (rule Submit_accepted)
  assume "p = Turn e" "mv_player m = p" "e' = accepted e m now"
  with assms(1,2) Turn_in_players [OF assms(1)] show ?thesis
    by (auto simp: scores_inv_def score_of_def)
qed

lemma initial_words: "LastSyllable d w = Some l \<Longrightarrow> words_inv w (initial_engine d ps w l limit now)"
  by (simp add: words_inv_def)

lemma initial_scores: "scores_inv (initial_engine d ps w l limit now)"
proof -
  have "map_of (map (\<lambda>p. (p, 0)) ps) p = (if p \<in> set ps then Some (0 :: int) else None)" for p
    by (induction ps) auto
  then show ?thesis
    by (auto simp: scores_inv_def score_of_def points_by_def split: if_splits)
qed

subsection \<open>Reachable states\<close>

text \<open>One step is one call of a public operation, with any player, word and clock.\<close>

inductive engine_step :: "unicode \<Rightarrow> engine \<Rightarrow> engine \<Rightarrow> bool" for u where
  submit: "Submit u p raw now e = (e', mo, r) \<Longrightarrow> engine_step u e e'"
| timeout: "engine_step u e (snd (Timeout now e))"
| no_move: "engine_step u e (snd (NoMove now e))"
| resign: "engine_step u e (snd (Resign p now e))"

inductive_cases engine_stepE: "engine_step u e e'"

inductive reachable :: "unicode \<Rightarrow> str \<Rightarrow> engine \<Rightarrow> bool" for u w0 where
  start: "New (Some d) ps opening limit now = Inr e \<Longrightarrow> Resolve d opening = Some w0 \<Longrightarrow>
    reachable u w0 e"
| step: "reachable u w0 e \<Longrightarrow> engine_step u e e' \<Longrightarrow> reachable u w0 e'"

definition engine_inv :: "str \<Rightarrow> engine \<Rightarrow> bool" where
  "engine_inv w0 e \<longleftrightarrow> seats_inv e \<and> words_inv w0 e \<and> scores_inv e"

lemma same_position_inv:
  "engine_inv w0 e \<Longrightarrow> same_position e e' \<Longrightarrow> seats_inv e' \<Longrightarrow> engine_inv w0 e'"
  by (auto simp: engine_inv_def intro: words_inv_same scores_inv_same)

lemma Timeout_position: "seats_inv e \<Longrightarrow> same_position e (snd (Timeout now e))"
  by (simp add: Timeout_def expire_facts(2))

lemma NoMove_position: "seats_inv e \<Longrightarrow> same_position e (snd (NoMove now e))"
  by (simp add: NoMove_def expire_facts(2))

lemma engine_step_inv:
  assumes "engine_step u e e'" and inv: "engine_inv w0 e"
  shows "engine_inv w0 e'"
  using assms(1)
proof cases
  case (submit p raw now mo r)
  have seats: "seats_inv e'" using submit inv Submit_inv engine_inv_def by blast
  show ?thesis
  proof (cases mo)
    case None
    with submit Submit_refused(2) have "e' = (if r = ReasonTimeout then expire now e else e)" by blast
    with None submit inv Submit_refused(3) have "same_position e e'"
      by (auto simp: engine_inv_def expire_facts(2))
    with seats inv show ?thesis using same_position_inv by blast
  next
    case (Some m)
    with submit seats inv show ?thesis
      using words_inv_accepted scores_inv_accepted engine_inv_def by metis
  qed
next
  case (timeout now)
  with inv show ?thesis
    using same_position_inv Timeout_position Timeout_inv engine_inv_def by blast
next
  case (no_move now)
  with inv show ?thesis
    using same_position_inv NoMove_position NoMove_inv engine_inv_def by blast
next
  case (resign p now)
  with inv show ?thesis
    using same_position_inv Resign_position Resign_inv engine_inv_def by blast
qed

lemma reachable_inv: "reachable u w0 e \<Longrightarrow> engine_inv w0 e"
proof (induction rule: reachable.induct)
  case (start d ps w limit now e)
  then show ?case
    by (elim New_ok) (simp add: engine_inv_def initial_engine_inv initial_words initial_scores)
next
  case (step e e')
  then show ?case by (blast intro: engine_step_inv)
qed

end
