(* ===== verification/Fixtures.thy ===== *)
theory Fixtures
  imports Game_State Vietnamese
begin

text \<open>
  Concrete inputs the witnesses evaluate the model on: an ASCII slice of the Unicode tables, and a
  dictionary given by a list of words with their end syllables. Nothing here models code.
\<close>

definition demo_unicode :: unicode where
  "demo_unicode = \<lparr>nfc = (\<lambda>s. s), nfd = (\<lambda>s. s),
     lower_rune = (\<lambda>r. if 65 \<le> r \<and> r \<le> 90 then r + 32 else r),
     is_mn = (\<lambda>r. 0x300 \<le> r \<and> r \<le> 0x36F), is_me = (\<lambda>r. r = 0x488 \<or> r = 0x489),
     is_cf = (\<lambda>r. r = 0xAD \<or> (0x200B \<le> r \<and> r \<le> 0x200F) \<or> (0x202A \<le> r \<and> r \<le> 0x202E)),
     is_print = (\<lambda>r. 32 \<le> r \<and> r \<noteq> 127 \<and> \<not> (128 \<le> r \<and> r \<le> 160)),
     is_letter = (\<lambda>r. (65 \<le> r \<and> r \<le> 90) \<or> (97 \<le> r \<and> r \<le> 122) \<or> 0xC0 \<le> r),
     is_digit = (\<lambda>r. 48 \<le> r \<and> r \<le> 57),
     is_punct = (\<lambda>r. r \<in> {33, 34, 35, 37, 38, 39, 40, 41, 42, 44, 45, 46, 47, 58, 59, 63, 64, 95}),
     is_symbol = (\<lambda>r. r \<in> {36, 43, 60, 61, 62, 94, 96, 124, 126})\<rparr>"

lemma demo_unicode_laws: "unicode_laws demo_unicode"
  by (auto simp: unicode_laws_def demo_unicode_def to_lower_def)

definition dictionary_of :: "(str \<times> str \<times> str) list \<Rightarrow> dictionary" where
  "dictionary_of ws = \<lparr>Resolve = (\<lambda>w. map_option (\<lambda>_. w) (map_of ws w)),
     FirstSyllable = (\<lambda>w. map_option fst (map_of ws w)),
     LastSyllable = (\<lambda>w. map_option snd (map_of ws w)),
     WordsStartingWith = (\<lambda>s. map fst (filter (\<lambda>(_, f, _). f = s) ws)),
     OutDegree = (\<lambda>s. Some (int (length (filter (\<lambda>(_, f, _). f = s) ws))))\<rparr>"

text \<open>Syllables are the letters a to e, a word is two of them.\<close>

definition demo_entry :: "nat \<Rightarrow> nat \<Rightarrow> str \<times> str \<times> str" where
  "demo_entry a b = ([a, 32, b], [a], [b])"

text \<open>\<open>e a\<close> opens; \<open>a b\<close> closes the board at once, \<open>a c\<close> and \<open>c d\<close> keep it open.\<close>

definition demo_dict :: dictionary where
  "demo_dict = dictionary_of
     [demo_entry 101 97, demo_entry 97 98, demo_entry 97 99, demo_entry 99 100,
      demo_entry 100 97]"

definition P1 :: player where "P1 = [112, 49]"
definition P2 :: player where "P2 = [112, 50]"
definition P3 :: player where "P3 = [112, 51]"

end
