(* ===== verification/Demo_Game.thy ===== *)
theory Demo_Game
  imports Engine_Game Fixtures
begin

text \<open>
  A short game of three players on the fixture dictionary, every move of it evaluated: the concrete
  reachable states the witnesses of the engine's properties stand on.
\<close>

subsection \<open>A game to try the properties on\<close>

text \<open>Three players open on \<open>e a\<close>; then \<open>a c\<close>, \<open>c d\<close>, \<open>d a\<close> and \<open>a b\<close>, which leaves no move.\<close>

definition game0 :: engine where
  "game0 = initial_engine demo_dict [P1, P2, P3] [101, 32, 97] [97] 15000000000 0"

definition demo_move :: "player \<Rightarrow> nat \<Rightarrow> nat \<Rightarrow> instant \<Rightarrow> int list \<Rightarrow> move" where
  "demo_move p a b now vs =
     \<lparr>mv_player = p, mv_word = [a, 32, b], mv_typed = [a, 32, b], mv_first = [a], mv_last = [b],
      mv_syllables = 2, mv_points = sum_list vs,
      mv_parts = map (\<lambda>(k, v). \<lparr>pp_kind = k, pp_value = v\<rparr>)
        (zip [PointKindBase, PointKindChain, PointKindSpeed, PointKindRarity] vs), mv_at = now\<rparr>"

definition move1 :: move where "move1 = demo_move P1 97 99 5000000000 [10, 2, 6, 12]"
definition move2 :: move where "move2 = demo_move P2 99 100 8000000000 [10, 4, 8, 15]"
definition move3 :: move where "move3 = demo_move P3 100 97 9000000000 [10, 6, 9, 15]"
definition move4 :: move where "move4 = demo_move P1 97 98 10000000000 [10, 8, 9, 12]"

definition game1 :: engine where "game1 = accepted game0 move1 5000000000"
definition game2 :: engine where "game2 = accepted game1 move2 8000000000"
definition game3 :: engine where "game3 = accepted game2 move3 9000000000"
definition game4 :: engine where "game4 = accepted game3 move4 10000000000"

lemmas game_defs = game0_def game1_def game2_def game3_def game4_def

lemma demo_new: "New (Some demo_dict) [P1, P2, P3] [101, 32, 97] 15000000000 0 = Inr game0"
proof -
  have "HasLegalMove game0" "Resolve demo_dict [101, 32, 97] = Some [101, 32, 97]"
    "LastSyllable demo_dict [101, 32, 97] = Some [97]" "first_duplicate {} [P1, P2, P3] = None"
    by code_simp+
  then show ?thesis by (simp add: New_def game0_def)
qed

lemma demo_submit1: "Submit demo_unicode P1 [97, 32, 99] 5000000000 game0 = (game1, Some move1, ReasonNone)"
  unfolding game1_def by (rule Submit_accepts) code_simp+

lemma demo_submit2: "Submit demo_unicode P2 [99, 32, 100] 8000000000 game1 = (game2, Some move2, ReasonNone)"
  unfolding game2_def by (rule Submit_accepts) code_simp+

lemma demo_submit3: "Submit demo_unicode P3 [100, 32, 97] 9000000000 game2 = (game3, Some move3, ReasonNone)"
  unfolding game3_def by (rule Submit_accepts) code_simp+

lemma demo_submit4: "Submit demo_unicode P1 [97, 32, 98] 10000000000 game3 = (game4, Some move4, ReasonNone)"
  unfolding game4_def by (rule Submit_accepts) code_simp+

lemma demo_reachable0: "reachable demo_unicode [101, 32, 97] game0"
  by (rule reachable.start [OF demo_new]) code_simp

lemma demo_reachable1: "reachable demo_unicode [101, 32, 97] game1"
  by (rule reachable.step [OF demo_reachable0 engine_step.submit [OF demo_submit1]])

lemma demo_reachable2: "reachable demo_unicode [101, 32, 97] game2"
  by (rule reachable.step [OF demo_reachable1 engine_step.submit [OF demo_submit2]])

lemma demo_reachable3: "reachable demo_unicode [101, 32, 97] game3"
  by (rule reachable.step [OF demo_reachable2 engine_step.submit [OF demo_submit3]])

lemma demo_reachable4: "reachable demo_unicode [101, 32, 97] game4"
  by (rule reachable.step [OF demo_reachable3 engine_step.submit [OF demo_submit4]])

end
