(* ===== verification/Engine_Props.thy ===== *)
theory Engine_Props
  imports Demo_Game
begin

text \<open>
  The properties of the engine (\<open>server/internal/game/engine.go\<close>), each with a witness on a small
  table of three players.
\<close>

subsection \<open>The table\<close>

lemma alive_players_count:
  assumes "seats_inv e"
  shows "length (filter (Alive e) (players e)) = card (alive_seats e)"
proof -
  have at: "Alive e (players e ! i) = (alive e ! i)" if "i < length (players e)" for i
    using that assms indexOf_nth [OF seats_invD(2) [OF assms] that] by (simp add: Alive_def)
  have "length (filter (Alive e) (players e)) =
      card {i. i < length (players e) \<and> Alive e (players e ! i)}"
    by (rule length_filter_conv_card)
  also have "{i. i < length (players e) \<and> Alive e (players e ! i)} = alive_seats e"
    using at assms by (auto simp: alive_seats_def seats_invD)
  finally show ?thesis .
qed

lemma OutReason_Alive:
  assumes "seats_inv e" and "p \<in> set (players e)"
  shows "OutReason e p = EndNone \<longleftrightarrow> Alive e p"
proof -
  have "Alive e p \<longleftrightarrow> outReason e p = None"
    using assms outOrder_iff [of e p] seats_invD(12) [of e] domIff [of p "outReason e"] by auto
  with assms(1) seats_invD(13) [of e] show ?thesis
    by (auto simp: OutReason_def ran_def split: option.splits)
qed

lemma reachable_seats: "reachable u w0 e \<Longrightarrow> seats_inv e"
  using reachable_inv by (simp add: engine_inv_def)

text \<open>
  Claim (C1). In every state a game can reach, the player to act is still in; the game is over
  exactly when one player is left, who is then the winner; the elimination order lists each player
  who is out exactly once; and the players with a reason for being out are exactly those.
\<close>

theorem engine_table:
  assumes "reachable u w0 e"
  shows "Alive e (Turn e) \<and> (over e = (length (filter (Alive e) (players e)) = 1)) \<and>
    winner e = (if over e then Turn e else []) \<and>
    distinct (outOrder e) \<and> set (outOrder e) = {p \<in> set (players e). \<not> Alive e p} \<and>
    {p \<in> set (players e). OutReason e p = EndNone} = {p \<in> set (players e). Alive e p}"
proof -
  have inv: "seats_inv e" using assms by (rule reachable_seats)
  have "0 < card (alive_seats e)"
    using seats_invD(4) [OF inv] by (auto simp: card_gt_0_iff)
  then have "over e = (length (filter (Alive e) (players e)) = 1)"
    using inv by (simp add: alive_players_count seats_invD(7,8)) linarith
  moreover have "set (outOrder e) = {p \<in> set (players e). \<not> Alive e p}"
    using outOrder_iff [OF inv] by blast
  moreover have "{p \<in> set (players e). OutReason e p = EndNone} = {p \<in> set (players e). Alive e p}"
    using OutReason_Alive [OF inv] by blast
  ultimately show ?thesis
    using Alive_Turn [OF inv] seats_invD(9,10) [OF inv] by blast
qed



theorem engine_table_witness:
  "Alive game4 (Turn game4) \<and> (over game4 = (length (filter (Alive game4) (players game4)) = 1))"
  using engine_table [OF demo_reachable4] by blast

subsection \<open>The chain of words\<close>

text \<open>
  Claim (C2). In every reachable state the words played form a chain from the opening word: each
  starts with the syllable the one before ended with, all are words of the dictionary, none is played
  twice, the opening word included, and the words marked as used are exactly these.
\<close>

theorem engine_chain:
  assumes "reachable u w0 e"
  shows "(\<exists>l0. LastSyllable (dict e) w0 = Some l0 \<and> linked l0 (history e) (current e)) \<and>
    distinct (w0 # map mv_word (history e)) \<and> used e = set (w0 # map mv_word (history e)) \<and>
    (\<forall>m \<in> set (history e). FirstSyllable (dict e) (mv_word m) = Some (mv_first m) \<and>
       LastSyllable (dict e) (mv_word m) = Some (mv_last m))"
  using reachable_inv [OF assms] by (auto simp: engine_inv_def words_inv_def move_ok_def)

theorem engine_chain_witness:
  "map mv_word (history game3) = [[97, 32, 99], [99, 32, 100], [100, 32, 97]] \<and>
   distinct ([101, 32, 97] # map mv_word (history game3))"
  using engine_chain [OF demo_reachable3]
  by (simp add: game_defs initial_engine_def accepted_def advance_def move1_def move2_def move3_def
      demo_move_def)

subsection \<open>Scores\<close>

definition paid_ok :: "engine \<Rightarrow> bool" where
  "paid_ok e \<longleftrightarrow> (\<forall>m \<in> set (history e). mv_points m = sumParts (mv_parts m) \<and>
     basePoints + chainBonus \<le> mv_points m \<and> mv_points m \<le> maxPointsPerWord)"

lemma sumParts_take_le:
  assumes "\<forall>p \<in> set ps. 0 < pp_value p"
  shows "sumParts (take n ps) \<le> sumParts ps"
proof -
  have "sumParts ps = sumParts (take n ps) + sumParts (drop n ps)"
    by (simp add: sumParts_eq flip: sum_list_append map_append)
  moreover have "\<forall>v \<in> set (map pp_value (drop n ps)). 0 \<le> v"
    using assms by (auto dest!: in_set_dropD intro: less_imp_le)
  then have "0 \<le> sumParts (drop n ps)"
    unfolding sumParts_eq by (intro sum_list_nonneg) blast
  ultimately show ?thesis by simp
qed

lemma pointsFor_range:
  assumes "limit_ok (turnLimit e)" and "MinSyllables \<le> n" and "pointsFor e n link now = (pts, parts)"
  shows "pts = sumParts parts \<and> basePoints + chainBonus \<le> pts \<and> pts \<le> maxPointsPerWord"
proof -
  note spec = pointsFor_spec [OF assms]
  have "sumParts (take 2 parts) \<le> pts" using spec(2,3) sumParts_take_le by simp
  moreover have "sumParts (take 2 parts) = basePoints + chainBonus * min (int (ChainLength e)) chainBonusWords"
    unfolding spec(5) by (simp add: raw_parts_def sumParts_eq)
  moreover have "1 \<le> min (int (ChainLength e)) chainBonusWords"
    by (simp add: ChainLength_def chainBonusWords_def)
  ultimately have "basePoints + chainBonus \<le> pts" by (simp add: score_consts)
  with spec(1,2) show ?thesis by simp
qed

lemma same_position_limit: "same_position e e' \<Longrightarrow> turnLimit e' = turnLimit e \<and> history e' = history e"
  by (simp add: same_position_def)

lemma engine_step_limit:
  assumes "seats_inv e" and "engine_step u e e'"
  shows "turnLimit e' = turnLimit e"
  using assms(2)
proof cases
  case (submit p raw now mo r)
  then show ?thesis
    using expire_facts(2) [OF assms(1), of now] same_position_limit [of e e']
    by (cases rule: Submit_cases [of u p raw now e]) auto
qed (use assms(1) same_position_limit Timeout_position NoMove_position Resign_position in blast)+

lemma engine_step_history:
  assumes "seats_inv e" and "engine_step u e e'"
  obtains "history e' = history e"
  | p raw now m r where "Submit u p raw now e = (e', Some m, r)" "history e' = history e @ [m]"
  using assms(2)
proof cases
  case (submit p raw now mo r)
  then show ?thesis
    using expire_facts(2) [OF assms(1), of now] same_position_limit [of e e'] that
    by (cases rule: Submit_cases [of u p raw now e]) auto
qed (use assms(1) same_position_limit Timeout_position NoMove_position Resign_position that in blast)+

lemma reachable_paid:
  assumes "reachable u w0 e" and "limit_ok (turnLimit e)"
  shows "paid_ok e"
  using assms
proof (induction rule: reachable.induct)
  case (start d ps w limit now e)
  then show ?case by (elim New_ok) (simp add: paid_ok_def)
next
  case (step e e')
  have inv: "seats_inv e" by (rule reachable_seats [OF step.hyps(1)])
  have lim: "limit_ok (turnLimit e)"
    using engine_step_limit [OF inv step.hyps(2)] step.prems by simp
  have paid: "paid_ok e" using step.IH lim .
  show ?case
  proof (rule engine_step_history [OF inv step.hyps(2)])
    assume "history e' = history e"
    with paid show ?thesis unfolding paid_ok_def by metis
  next
    fix p raw now m r
    assume s: "Submit u p raw now e = (e', Some m, r)" and h: "history e' = history e @ [m]"
    from s obtain n link where "MinSyllables \<le> n" "pointsFor e n link now = (mv_points m, mv_parts m)"
      by (rule Submit_accepted) blast
    from pointsFor_range [OF lim this] paid h show ?thesis unfolding paid_ok_def by auto
  qed
qed

text \<open>
  In every reachable state whose turn limit is within what the speed formula can multiply
  without overflow, a player's score is the sum of the points of their words; every word paid its
  parts exactly, at least the base and the first chain step, and never more than the cap.
\<close>

lemma engine_scores:
  assumes "reachable u w0 e" and "limit_ok (turnLimit e)"
  shows "(\<forall>p. score_of e p = sum_list (map mv_points (filter (\<lambda>m. mv_player m = p) (history e)))) \<and>
    (\<forall>m \<in> set (history e). mv_points m = sumParts (mv_parts m) \<and>
       basePoints + chainBonus \<le> mv_points m \<and> mv_points m \<le> maxPointsPerWord)"
proof -
  have "scores_inv e" "paid_ok e"
    using reachable_inv [OF assms(1)] reachable_paid [OF assms] by (simp_all add: engine_inv_def)
  then show ?thesis unfolding scores_inv_def points_by_def paid_ok_def by blast
qed

lemma demo_limit: "limit_ok (turnLimit game4)"
  by (simp add: limit_ok_def game_defs max_int64_def speedBonus_def)

subsection \<open>The cascade\<close>

text \<open>
  Claim (C6). The loop that takes out players with nothing to play terminates in every reachable
  state, and it stops only where the game is over or the player to act has a legal move; it changes
  nothing of the chain, the words used or the scores.
\<close>

theorem engine_settles:
  assumes "reachable u w0 e"
  shows "while_option settle_guard settle_body e = Some (settle e) \<and>
    (over (settle e) \<or> HasLegalMove (settle e)) \<and> same_position e (settle e)"
  using reachable_seats [OF assms] settle_terminates settle_done settle_position by blast

theorem engine_settles_witness: "over (settle game4)"
proof -
  have "\<not> HasLegalMove game4" by code_simp
  moreover have "\<not> HasLegalMove (settle game4)"
    using engine_settles [OF demo_reachable4] HasLegalMove_same calculation by blast
  ultimately show ?thesis using engine_settles [OF demo_reachable4] by blast
qed


subsection \<open>Playing into a dead end\<close>

text \<open>What the cascade gives as the reason for those it takes out.\<close>

definition stuck_reasons :: "engine \<Rightarrow> engine \<Rightarrow> bool" where
  "stuck_reasons e a \<longleftrightarrow>
     (\<forall>q. OutReason a q = OutReason e q \<or> (OutReason e q = EndNone \<and> OutReason a q = EndNoLegalMove))"

lemma stuck_reasons_refl [simp]: "stuck_reasons e e"
  by (simp add: stuck_reasons_def)

lemma stuck_reasons_eliminate:
  assumes "seats_inv a" and "stuck_reasons e a"
  shows "stuck_reasons e (snd (eliminate (Turn a) EndNoLegalMove a))"
proof -
  have t: "Alive a (Turn a)" using assms(1) by (rule Alive_Turn)
  then have none: "OutReason a (Turn a) = EndNone"
    using assms(1) by (simp add: OutReason_Alive Turn_in_players)
  have "OutReason (snd (eliminate (Turn a) EndNoLegalMove a)) q =
      (if q = Turn a then EndNoLegalMove else OutReason a q)" for q
    using eliminate_alive(4) [OF assms(1) t, of EndNoLegalMove] by (simp add: OutReason_def)
  with assms(2) none show ?thesis
    unfolding stuck_reasons_def by (metis end_reason.distinct(3))
qed

lemma stuck_reasons_settle: "seats_inv a \<Longrightarrow> stuck_reasons e a \<Longrightarrow> stuck_reasons e (settle a)"
  by (rule settle_induct [where P = "stuck_reasons e"])
     (simp_all add: settle_body_def stuck_reasons_eliminate)

lemma expire_stuck:
  assumes "seats_inv e" and "\<not> over e" and "\<not> HasLegalMove e"
  shows "stuck_reasons e (expire now e)"
proof -
  let ?a = "snd (eliminate (Turn e) EndNoLegalMove e)"
  have "seats_inv ?a" using assms by (simp add: eliminate_inv)
  moreover have "stuck_reasons e ?a" using assms(1) by (simp add: stuck_reasons_eliminate)
  ultimately have "stuck_reasons e (settle ?a)" by (rule stuck_reasons_settle)
  with assms(3) show ?thesis by (simp add: expire_def Let_def stuck_reasons_def OutReason_def)
qed

lemma closing_move:
  assumes inv: "seats_inv e" and s: "Submit u p raw now e = (e', Some m, r)" and dead: "\<not> HasLegalMove e'"
  shows "over (expire later e') \<and> winner (expire later e') = p \<and>
    (\<forall>q \<in> set (players e). Alive e q \<and> q \<noteq> p \<longrightarrow>
       OutReason (expire later e') q = EndNoLegalMove)"
proof (rule Submit_accepted [OF s])
  let ?x = "expire later e'"
  assume p: "p = Turn e" and going: "\<not> over e" and e': "e' = accepted e m now"
  have inv': "seats_inv e'" and going': "\<not> over e'"
    using inv going e' by (simp_all add: accepted_inv)
  note ex = expire_facts [OF inv' going', where now = later]
  have over: "over ?x"
    using ex(2,3) dead HasLegalMove_same by blast
  have f: "furthest ?x (turnIndex e)" by (rule ex(5)) (simp add: e' accepted_furthest inv going)
  have win: "winner ?x = p"
    using over_furthest(2) [OF ex(1) over f] ex(2) e' p
    by (simp add: Turn_def same_position_def)
  have "OutReason ?x q = EndNoLegalMove" if q: "q \<in> set (players e)" "Alive e q" "q \<noteq> p" for q
  proof -
    have pl: "players ?x = players e" using ex(2) e' by (simp add: same_position_def)
    have t: "Turn ?x = p" using win over seats_invD(9) [OF ex(1)] by simp
    have "card (alive_seats ?x) \<le> 1" using over seats_invD(7,8) [OF ex(1)] by simp
    then have "\<not> Alive ?x q"
      using q(3) t seats_invD(4) [OF ex(1)] Alive_iff [OF ex(1)]
      by (auto simp: Turn_def card_le_Suc0_iff_eq)
    then have "OutReason ?x q \<noteq> EndNone" using OutReason_Alive [OF ex(1)] pl q(1) by simp
    moreover have "OutReason e' q = EndNone"
      using OutReason_Alive [OF inv] q by (simp add: e' OutReason_def)
    ultimately show ?thesis using expire_stuck [OF inv' going' dead]
      unfolding stuck_reasons_def by metis
  qed
  with over win show ?thesis by blast
qed

text \<open>
  Claim (C3). Playing the word that leaves nobody a move wins: as soon as the server asks about the
  dead end, before or after the clock runs out, the game is over, the player who closed the chain is
  the winner, and everybody else who was still in is out for want of a move, not for being slow.
\<close>

theorem closing_player_wins:
  assumes "reachable u w0 e" and "Submit u p raw now e = (e', Some m, r)" and "\<not> HasLegalMove e'"
    and "(gone, x) = NoMove later e' \<or> (gone, x) = Timeout later e' \<and> deadline e' < later"
  shows "gone \<and> over x \<and> winner x = p \<and>
    (\<forall>q \<in> set (players e). Alive e q \<and> q \<noteq> p \<longrightarrow> OutReason x q = EndNoLegalMove)"
proof -
  have inv: "seats_inv e" by (rule reachable_seats [OF assms(1)])
  have "\<not> over e'" using assms(2) by (rule Submit_accepted) simp
  then have "gone" and "x = expire later e'"
    using assms(3,4) by (auto simp: NoMove_def Timeout_def IsExpired_def)
  with closing_move [OF inv assms(2,3), of later] show ?thesis by simp
qed

theorem closing_player_wins_witness: "winner (snd (NoMove 10000000001 game4)) = P1"
proof -
  have "\<not> HasLegalMove game4" by code_simp
  from closing_player_wins [OF demo_reachable3 demo_submit4 this,
      of "fst (NoMove 10000000001 game4)" "snd (NoMove 10000000001 game4)" 10000000001]
  show ?thesis by simp
qed


subsection \<open>Every game ends\<close>

definition progress :: "engine \<Rightarrow> nat" where
  "progress e = length (history e) + EliminatedCount e"

lemma expire_progress:
  assumes "seats_inv e" and "\<not> over e"
  shows "progress e < progress (expire now e)"
proof -
  obtain qs where "outOrder (expire now e) = outOrder e @ Turn e # qs"
    using expire_facts(4) [OF assms] by blast
  with expire_facts(2) [OF assms, of now] show ?thesis
    by (simp add: progress_def EliminatedCount_def same_position_def)
qed

lemma Resign_progress:
  assumes inv: "seats_inv e"
  shows "snd (Resign p now e) = e \<or> progress e < progress (snd (Resign p now e))"
proof (cases "over e \<or> \<not> Alive e p")
  case True
  then show ?thesis
    using eliminate_gone_iff [OF inv, of p EndResigned] eliminate_noop [of p EndResigned e]
    by (auto simp: Resign_def Let_def split: prod.splits)
next
  case False
  then obtain a where el: "eliminate p EndResigned e = (True, a)"
    using eliminate_gone_iff [OF inv, of p EndResigned] by (cases "eliminate p EndResigned e") auto
  then have out: "outOrder a = outOrder e @ [p]"
    using False eliminate_alive(3) [OF inv, of p EndResigned] by simp
  have "seats_inv a" using False inv el eliminate_inv [of e EndResigned p] by simp
  then obtain qs where "outOrder (settle a) = outOrder a @ qs" using settle_outOrder by blast
  with out False have "length (outOrder e) < length (outOrder (snd (Resign p now e)))"
    by (auto simp: Resign_def Let_def el)
  with Resign_position [OF inv, of p now] show ?thesis
    by (simp add: progress_def EliminatedCount_def same_position_def)
qed

lemma engine_step_progress:
  assumes inv: "seats_inv e" and "engine_step u e e'"
  shows "e' = e \<or> (\<not> over e \<and> progress e < progress e')"
  using assms(2)
proof cases
  case (submit p raw now mo r)
  then show ?thesis
  proof (cases rule: Submit_cases [of u p raw now e])
    case (accepted m)
    then have "\<not> over e" by (rule Submit_accepted) simp
    moreover have "e' = accepted e m now" using submit accepted by simp
    ultimately show ?thesis by (simp add: progress_def EliminatedCount_def)
  next
    case (refused r')
    with submit show ?thesis by simp
  next
    case expired
    with submit expire_progress [OF inv, of now] show ?thesis by simp
  qed
next
  case (timeout now)
  then show ?thesis using expire_progress [OF inv, of now] by (auto simp: Timeout_def)
next
  case (no_move now)
  then show ?thesis using expire_progress [OF inv, of now] by (auto simp: NoMove_def)
next
  case (resign p now)
  then show ?thesis using Resign_progress [OF inv, of p now] by (auto simp: Resign_def)
qed

lemma progress_bounded:
  assumes "engine_inv w0 e" and fin: "finite {w. LastSyllable (dict e) w \<noteq> None}"
  shows "progress e + 2 \<le> card {w. LastSyllable (dict e) w \<noteq> None} + length (players e)"
proof -
  have words: "words_inv w0 e" and seats: "seats_inv e"
    using assms(1) by (simp_all add: engine_inv_def)
  have "set (w0 # map mv_word (history e)) \<subseteq> {w. LastSyllable (dict e) w \<noteq> None}"
    using words by (auto simp: words_inv_def move_ok_def)
  then have "card (set (w0 # map mv_word (history e))) \<le> card {w. LastSyllable (dict e) w \<noteq> None}"
    by (rule card_mono [OF fin])
  moreover have "card (set (w0 # map mv_word (history e))) = Suc (length (history e))"
    using words distinct_card [of "w0 # map mv_word (history e)"] by (simp add: words_inv_def)
  moreover have "Suc (length (outOrder e)) \<le> length (players e)"
    using outOrder_length [OF seats] seats_invD(4) [OF seats] card_gt_0_iff [of "alive_seats e"]
    by fastforce
  ultimately show ?thesis by (simp add: progress_def EliminatedCount_def)
qed

text \<open>
  Claim (C4). Every game ends: a call either changes nothing or adds a word or takes a player out, the
  state of a finished game never changes, and on a dictionary of finitely many words no game gets
  past one word each and one player left. No sequence of calls can keep a game alive for ever.
\<close>

theorem game_progress:
  assumes "reachable u w0 e" and "finite {w. LastSyllable (dict e) w \<noteq> None}"
    and "engine_step u e e'"
  shows "(e' = e \<or> (\<not> over e \<and>
      length (history e) + EliminatedCount e < length (history e') + EliminatedCount e')) \<and>
    length (history e) + EliminatedCount e + 2 \<le>
      card {w. LastSyllable (dict e) w \<noteq> None} + length (players e)"
  using engine_step_progress [OF reachable_seats [OF assms(1)] assms(3)]
    progress_bounded [OF reachable_inv [OF assms(1)] assms(2)]
  by (simp add: progress_def)

lemma demo_words: "LastSyllable demo_dict w \<noteq> None \<longleftrightarrow>
  w \<in> {[101, 32, 97], [97, 32, 98], [97, 32, 99], [99, 32, 100], [100, 32, 97]}"
  by (auto simp: demo_dict_def dictionary_of_def demo_entry_def)

theorem game_progress_witness: "length (history game3) + EliminatedCount game3 \<le> 6"
proof -
  have d: "dict game3 = demo_dict" "length (players game3) = 3" by (simp_all add: game_defs)
  have words: "{w. LastSyllable (dict game3) w \<noteq> None} =
    {[101, 32, 97], [97, 32, 98], [97, 32, 99], [99, 32, 100], [100, 32, 97]}"
    unfolding d(1) using demo_words by blast
  have "finite {w. LastSyllable (dict game3) w \<noteq> None}" unfolding words by simp
  from game_progress [OF demo_reachable3 this engine_step.submit [OF demo_submit4]]
  show ?thesis unfolding words d(2) by simp
qed

subsection \<open>Resigning\<close>

text \<open>
  A player who resigns when it is somebody else's turn is out at once and last in the
  order so far, but takes nothing from the player to act: unless that ends the game, the turn, the
  clock and what may be played stay as they were.
\<close>

lemma resign_out_of_turn:
  assumes "reachable u w0 e" and "\<not> over e" and "Alive e p" and "p \<noteq> Turn e"
    and "Resign p now e = (gone, e')"
  shows "gone \<and> \<not> Alive e' p \<and> OutReason e' p = EndResigned \<and> outOrder e' = outOrder e @ [p] \<and>
    Turn e' = Turn e \<and> deadline e' = deadline e \<and> LegalMoves e' = LegalMoves e \<and>
    (over e' \<longrightarrow> winner e' = Turn e)"
proof -
  have inv: "seats_inv e" by (rule reachable_seats [OF assms(1)])
  obtain a where el: "eliminate p EndResigned e = (True, a)"
    using assms(3) eliminate_gone_iff [OF inv, of p EndResigned]
    by (cases "eliminate p EndResigned e") auto
  have a: "seats_inv a" "same_position e a" "deadline a = deadline e"
    using inv assms(2) el eliminate_inv [of e EndResigned p] same_position_eliminate [of e p EndResigned]
      eliminate_frame(6) [of p EndResigned e] by simp_all
  note out = eliminate_alive [OF inv assms(3), of EndResigned, unfolded el snd_conv]
  obtain i where "i \<in> alive_seats e" "players e ! i = p"
    "turnIndex a = (if turnIndex e = i then advance_loop (length (players e)) ((alive e)[i := False]) i
      else turnIndex e)"
    using out(1) by blast
  with assms(4) have t: "Turn a = Turn e" using a(2) by (auto simp: Turn_def same_position_def)
  have e': "e' = a" "gone" using assms(2,5) t by (auto simp: Resign_def Let_def el)
  have "\<not> Alive a p" using outOrder_iff [OF a(1), of p] out(3) by auto
  with e' t a out show ?thesis
    by (simp add: LegalMoves_same OutReason_def seats_invD(9) [OF a(1)])
qed

subsection \<open>Running out of time\<close>

text \<open>
  A turn that runs out while there is still a word to play costs exactly the player to
  act: they are out for the timeout, alone and next in the order, the turn goes to the first player
  still in after them, with a full turn on the clock, and the position they faced is unchanged.
\<close>

lemma timeout_takes_one:
  assumes "reachable u w0 e" and "\<not> over e" and "HasLegalMove e" and "deadline e < now"
    and "Timeout now e = (changed, e')"
  shows "changed \<and> outOrder e' = outOrder e @ [Turn e] \<and> OutReason e' (Turn e) = EndTimeout \<and>
    next_alive e' (turnIndex e) (turnIndex e') \<and> LegalMoves e' = LegalMoves e \<and>
    deadline e' = (if over e' then deadline e else now + turnLimit e)"
proof -
  have inv: "seats_inv e" by (rule reachable_seats [OF assms(1)])
  define a where "a = snd (eliminate (Turn e) EndTimeout e)"
  note out = eliminate_alive [OF inv Alive_Turn [OF inv], of EndTimeout, folded a_def]
  have a: "seats_inv a" "same_position e a"
    using inv assms(2) by (simp_all add: a_def eliminate_inv)
  have "HasLegalMove a" using assms(3) a(2) HasLegalMove_same by blast
  then have "settle a = a" by (simp add: settle_noop settle_guard_def)
  then have e': "changed" "e' = (if over a then a else a\<lparr>deadline := now + turnLimit a\<rparr>)"
    using assms(2-5) by (auto simp: Timeout_def IsExpired_def expire_def Let_def a_def)
  obtain i where i: "i \<in> alive_seats e" "players e ! i = Turn e" "alive a = (alive e)[i := False]"
    "turnIndex a = (if turnIndex e = i then advance_loop (length (players e)) ((alive e)[i := False]) i
      else turnIndex e)"
    using out(1) by blast
  have ti: "i = turnIndex e"
    using i(1,2) inv nth_eq_iff_index_eq [OF seats_invD(2) [OF inv], of i "turnIndex e"]
    by (simp add: Turn_def alive_seats_less seats_invD)
  have "turnIndex a = turnIndex (advance (a\<lparr>turnIndex := turnIndex e\<rparr>))"
    using i ti a(2) by (simp add: advance_def same_position_def)
  moreover have "next_alive (a\<lparr>turnIndex := turnIndex e\<rparr>) (turnIndex e)
      (turnIndex (advance (a\<lparr>turnIndex := turnIndex e\<rparr>)))"
    using seats_invD(1,4) [OF a(1)] seats_invD(5) [OF inv] a(2)
    by (intro advance_next_alive) (auto simp: alive_seats_def same_position_def)
  ultimately have "next_alive a (turnIndex e) (turnIndex a)"
    by (simp add: next_alive_def alive_seats_def)
  moreover have "deadline a = deadline e" by (simp add: a_def)
  ultimately show ?thesis
    using e' out a(2) LegalMoves_same [OF a(2)]
    by (simp add: next_alive_def alive_seats_def OutReason_def LegalMoves_def same_position_def)
qed

subsection \<open>The final table\<close>

lemma standings_loop_map:
  "map st_player (standings_loop e ps out) = map st_player out @ ps \<and>
   map st_rank (standings_loop e ps out) = map st_rank out @ [length out + 1 ..< length out + 1 + length ps] \<and>
   (\<forall>s \<in> set (standings_loop e ps out). s \<in> set out \<or>
      st_score s = score_of e (st_player s) \<and> st_reason s = OutReason e (st_player s))"
proof (induction ps arbitrary: out)
  case Nil
  then show ?case by simp
next
  case (Cons p ps)
  let ?s = "\<lparr>st_player = p, st_score = score_of e p, st_rank = length out + 1,
                st_reason = OutReason e p\<rparr>"
  have "[length out + 1 ..< length out + 1 + length (p # ps)] =
      (length out + 1) # [length out + 2 ..< length out + 1 + length (p # ps)]"
    by (subst upt_conv_Cons) simp_all
  with Cons.IH [of "out @ [?s]"] show ?case by auto
qed

text \<open>
  Claim (C5). The table of a finished game, when every player has an id: it lists every player exactly
  once, the winner first and then those who went out, latest first; the ranks are 1, 2, 3 and so on,
  and each row carries that player's score and the reason they are out.
\<close>

theorem standings_table:
  assumes "reachable u w0 e" and "over e" and "[] \<notin> set (players e)"
  shows "map st_player (Standings e) = winner e # rev (outOrder e) \<and>
    set (map st_player (Standings e)) = set (players e) \<and> distinct (map st_player (Standings e)) \<and>
    map st_rank (Standings e) = [1 ..< length (players e) + 1] \<and>
    (\<forall>s \<in> set (Standings e). st_score s = score_of e (st_player s) \<and>
       st_reason s = OutReason e (st_player s))"
proof -
  have inv: "seats_inv e" by (rule reachable_seats [OF assms(1)])
  have w: "winner e = Turn e" using assms(2) by (simp add: seats_invD(9) [OF inv])
  then have wp: "winner e \<in> set (players e)" "winner e \<noteq> []" "Alive e (winner e)"
    using Turn_in_players [OF inv] Alive_Turn [OF inv] assms(3) by auto
  have r: "OutReason e (winner e) = EndNone" using OutReason_Alive [OF inv] wp by simp
  let ?first = "[\<lparr>st_player = winner e, st_score = score_of e (winner e), st_rank = 1,
               st_reason = EndNone\<rparr>]"
  have st: "Standings e = standings_loop e (rev (outOrder e)) ?first"
    using wp by (simp add: Standings_def)
  note t = standings_loop_map [of e "rev (outOrder e)" ?first, folded st, THEN conjunct1]
    standings_loop_map [of e "rev (outOrder e)" ?first, folded st, THEN conjunct2, THEN conjunct1]
    standings_loop_map [of e "rev (outOrder e)" ?first, folded st, THEN conjunct2, THEN conjunct2]
  have one: "card (alive_seats e) = 1"
  proof -
    have "alive_seats e \<noteq> {}" using seats_invD(4) [OF inv] by blast
    then have "0 < card (alive_seats e)" by (simp add: card_gt_0_iff)
    then show ?thesis using assms(2) seats_invD(7,8) [OF inv] by simp
  qed
  have names: "map st_player (Standings e) = winner e # rev (outOrder e)" using t(1) by simp
  have only: "p = winner e" if "Alive e p" for p
    using that one seats_invD(4) [OF inv] w
    by (auto simp: Alive_iff [OF inv] Turn_def card_1_singleton_iff)
  have "x \<in> set (winner e # rev (outOrder e)) \<longleftrightarrow> x \<in> set (players e)" for x
    using only [of x] wp(1) outOrder_iff [OF inv, of x] by (cases "x = winner e") auto
  then have "set (winner e # rev (outOrder e)) = set (players e)" by blast
  moreover have "distinct (winner e # rev (outOrder e))"
    using wp outOrder_iff [OF inv] seats_invD(10) [OF inv] by simp
  moreover have "map st_rank (Standings e) = [1 ..< length (players e) + 1]"
  proof -
    have "map st_rank (Standings e) = 1 # [2 ..< 2 + length (outOrder e)]" using t(2) by (simp add: numeral_2_eq_2)
    also have "\<dots> = [1 ..< length (players e) + 1]"
    proof -
      have "2 + length (outOrder e) = length (players e) + 1"
        using outOrder_length [OF inv, unfolded one] by simp
      moreover have "[1 ..< length (players e) + 1] = 1 # [2 ..< length (players e) + 1]"
      proof -
        have "1 < length (players e) + 1" using seats_invD(3) [OF inv] by linarith
        from upt_conv_Cons [OF this] show ?thesis by (simp add: numeral_2_eq_2 del: upt_Suc)
      qed
      ultimately show ?thesis by simp
    qed
    finally show ?thesis .
  qed
  moreover have "\<forall>s \<in> set (Standings e). st_score s = score_of e (st_player s) \<and>
       st_reason s = OutReason e (st_player s)"
    using t(3) r by (metis (no_types, lifting) empty_iff empty_set standing.select_convs(1,2,4) set_ConsD)
  ultimately show ?thesis unfolding names by blast
qed

definition game_end :: engine where "game_end = snd (NoMove 10000000001 game4)"

theorem standings_table_witness: "map st_player (Standings game_end) = winner game_end # rev (outOrder game_end)"
proof -
  have r: "reachable demo_unicode [101, 32, 97] game_end"
    unfolding game_end_def by (rule reachable.step [OF demo_reachable4 engine_step.no_move])
  have "\<not> HasLegalMove game4" by code_simp
  moreover have "\<not> over game4" by code_simp
  ultimately have "over game_end"
    using expire_facts(2,3) [OF reachable_seats [OF demo_reachable4], of 10000000001] HasLegalMove_same
    by (auto simp: game_end_def NoMove_def)
  moreover have "players game_end = [P1, P2, P3]"
    using NoMove_position [OF reachable_seats [OF demo_reachable4], of 10000000001]
    by (simp add: game_end_def same_position_def game_defs)
  ultimately show ?thesis using standings_table [OF r] by (simp add: P1_def P2_def P3_def)
qed


subsection \<open>What a word pays\<close>

text \<open>
  What a word pays: the sum of its parts, capped; the parts shown add up to exactly what
  was paid, none of them is zero or negative, they stand in the order base, chain, syllables, speed,
  rarity, and the cap is taken from the later parts, never from the base or the chain.
\<close>

lemma word_points:
  assumes "limit_ok (turnLimit e)" and "MinSyllables \<le> n" and "pointsFor e n link now = (pts, parts)"
  shows "pts = min (basePoints + chainBonus * min (int (ChainLength e)) chainBonusWords +
      syllableBonus * (int n - int MinSyllables) + speedPoints e now + rarityPoints e link)
      maxPointsPerWord \<and>
    pts = sumParts parts \<and> (\<forall>p \<in> set parts. 0 < pp_value p) \<and>
    sorted_wrt (<) (map pp_kind parts) \<and>
    map pp_kind (take 2 parts) = [PointKindBase, PointKindChain] \<and>
    map pp_value (take 2 parts) = [basePoints, chainBonus * min (int (ChainLength e)) chainBonusWords]"
proof -
  note spec = pointsFor_spec [OF assms]
  have "map pp_kind (take 2 parts) = [PointKindBase, PointKindChain] \<and>
    map pp_value (take 2 parts) = [basePoints, chainBonus * min (int (ChainLength e)) chainBonusWords]"
    unfolding spec(5) by (simp add: raw_parts_def)
  with spec(1-4) show ?thesis by (simp add: raw_total_def)
qed

end
