(* ===== verification/Dictionary_Store.thy ===== *)
theory Dictionary_Store
  imports Game_State
begin

text \<open>
  \<open>server/internal/dictionary/store.go\<close>: the dictionary loaded from the builder's database into maps,
  the checks it passes at start-up, and the lookups.

  The database is what its queries answer: for each \<open>SELECT\<close> of the source, an error or the rows in
  the order the query delivers them. A Go map is an association list with one entry per key; where
  the source ranges over a map, in an order Go leaves open, the order is an argument of the
  definition (\<open>ord\<close>, any rearrangement of the keys).
\<close>

subsection \<open>The database as its queries see it\<close>

datatype 'a scan = Scanned 'a | NoRows | ScanFailed

datatype 'a rows = QueryFailed | ReadFailed | Rows "'a list"

record sense =
  Pos :: str
  Gloss :: str

record database =
  db_meta :: "str \<Rightarrow> str scan"
  db_syllables :: "(str \<times> int) rows"
  db_words :: "(str \<times> str \<times> str) rows"
  db_aliases :: "(str \<times> str) rows"
  db_meanings :: "(str \<times> sense) rows"

datatype db_file = FileMissing | FileUnopenable | FileOpens database

subsection \<open>The store\<close>

record wordInfo =
  wi_first :: str
  wi_last :: str

record opener =
  op_word :: str
  lastOutDegree :: int

record store =
  words :: "(str \<times> wordInfo) list"
  aliases :: "(str \<times> str) list"
  byFirst :: "(str \<times> str list) list"
  outDegree :: "(str \<times> int) list"
  openers :: "opener list"
  meanings :: "(str \<times> sense list) list"
  meaningCount :: nat
  stripped :: "(str \<times> str list) list"
  license :: str

definition RequiredBuilderVersion :: str where
  "RequiredBuilderVersion = lit ''5''"

datatype store_error =
    FileNotFound | CannotOpen | NotANoituDb | NoBuilderVersion | BuilderVersionUnreadable
  | WrongBuilderVersion str | CountMissing str | CountUnreadable str | CountNotANumber str str
  | LoadFailed | ScanRowFailed
  | WordsIncomplete int nat | NoWords | MeaningsIncomplete int nat | MeaningForMissingWord str
  | WrongOutDegree str int nat | AliasToMissingWord str str

text \<open>A map lookup at a missing key gives the zero value: no words, degree zero, no senses.\<close>

definition get_list :: "('k \<times> 'v list) list \<Rightarrow> 'k \<Rightarrow> 'v list" where
  "get_list m k = (case map_of m k of None \<Rightarrow> [] | Some vs \<Rightarrow> vs)"

definition get_int :: "('k \<times> int) list \<Rightarrow> 'k \<Rightarrow> int" where
  "get_int m k = (case map_of m k of None \<Rightarrow> 0 | Some v \<Rightarrow> v)"

definition append_to :: "'k \<Rightarrow> 'v \<Rightarrow> ('k \<times> 'v list) list \<Rightarrow> ('k \<times> 'v list) list" where
  "append_to k v m = AList.update k (get_list m k @ [v]) m"

lemma map_of_update [simp]: "map_of (AList.update k v m) = (map_of m)(k \<mapsto> v)"
  by (simp add: update_conv')

lemma get_list_append_to [simp]:
  "get_list (append_to k v m) k' = (if k' = k then get_list m k @ [v] else get_list m k')"
  by (simp add: append_to_def get_list_def)

lemma distinct_append_to [simp]:
  "distinct (map fst m) \<Longrightarrow> distinct (map fst (append_to k v m))"
  by (simp add: append_to_def distinct_update)

subsection \<open>Loading\<close>

definition count_meta :: "database \<Rightarrow> str \<Rightarrow> store_error + int" where
  "count_meta db key =
     (case db_meta db key of
        NoRows \<Rightarrow> Inl (CountMissing key)
      | ScanFailed \<Rightarrow> Inl (CountUnreadable key)
      | Scanned raw \<Rightarrow>
          (case Atoi raw of None \<Rightarrow> Inl (CountNotANumber key raw) | Some n \<Rightarrow> Inr n))"

definition loadMeta :: "database \<Rightarrow> store \<Rightarrow> store_error + (store \<times> int \<times> int)" where
  "loadMeta db s =
     (case db_meta db (lit ''source_license'') of
        Scanned lic \<Rightarrow>
          (let s = s\<lparr>license := lic\<rparr>
           in case db_meta db (lit ''builder_version'') of
                NoRows \<Rightarrow> Inl NoBuilderVersion
              | ScanFailed \<Rightarrow> Inl BuilderVersionUnreadable
              | Scanned builder \<Rightarrow>
                  if builder \<noteq> RequiredBuilderVersion then Inl (WrongBuilderVersion builder)
                  else case count_meta db (lit ''word_count'') of
                    Inl e \<Rightarrow> Inl e
                  | Inr declaredWords \<Rightarrow>
                      (case count_meta db (lit ''meaning_count'') of
                         Inl e \<Rightarrow> Inl e
                       | Inr declaredMeanings \<Rightarrow> Inr (s, declaredWords, declaredMeanings)))
      | _ \<Rightarrow> Inl NotANoituDb)"

text \<open>Each load runs its query and folds the rows into the store, or fails where the query does.\<close>

definition with_rows :: "'a rows \<Rightarrow> ('a \<Rightarrow> store \<Rightarrow> store) \<Rightarrow> store \<Rightarrow> store_error + store" where
  "with_rows rs f s =
     (case rs of
        QueryFailed \<Rightarrow> Inl LoadFailed
      | ReadFailed \<Rightarrow> Inl ScanRowFailed
      | Rows xs \<Rightarrow> Inr (fold f xs s))"

definition add_syllable :: "str \<times> int \<Rightarrow> store \<Rightarrow> store" where
  "add_syllable r s = (case r of (syllable, degree) \<Rightarrow>
     s\<lparr>outDegree := AList.update syllable degree (outDegree s)\<rparr>)"

definition loadSyllables :: "database \<Rightarrow> store \<Rightarrow> store_error + store" where
  "loadSyllables db s = with_rows (db_syllables db) add_syllable s"

definition add_word :: "str \<times> str \<times> str \<Rightarrow> store \<Rightarrow> store" where
  "add_word r s = (case r of (word, firstSyl, lastSyl) \<Rightarrow>
     (let s1 = s\<lparr>words := AList.update word \<lparr>wi_first = firstSyl, wi_last = lastSyl\<rparr> (words s),
                 byFirst := append_to firstSyl word (byFirst s)\<rparr>;
          degree = get_int (outDegree s1) lastSyl
      in if degree > 0
         then s1\<lparr>openers := openers s1 @ [\<lparr>op_word = word, lastOutDegree = degree\<rparr>]\<rparr>
         else s1))"

definition loadWords :: "database \<Rightarrow> store \<Rightarrow> store_error + store" where
  "loadWords db s = with_rows (db_words db) add_word s"

definition add_alias :: "str \<times> str \<Rightarrow> store \<Rightarrow> store" where
  "add_alias r s = (case r of (variant, canonical) \<Rightarrow>
     s\<lparr>aliases := AList.update variant canonical (aliases s)\<rparr>)"

definition loadAliases :: "database \<Rightarrow> store \<Rightarrow> store_error + store" where
  "loadAliases db s = with_rows (db_aliases db) add_alias s"

definition add_meaning :: "str \<times> sense \<Rightarrow> store \<Rightarrow> store" where
  "add_meaning r s = (case r of (word, sense) \<Rightarrow>
     s\<lparr>meanings := append_to word sense (meanings s), meaningCount := meaningCount s + 1\<rparr>)"

definition loadMeanings :: "database \<Rightarrow> store \<Rightarrow> store_error + store" where
  "loadMeanings db s = with_rows (db_meanings db) add_meaning s"

subsection \<open>Validation\<close>

text \<open>The first entry, in the order the map is ranged over, that fails a check.\<close>

fun first_error :: "('k \<Rightarrow> 'e option) \<Rightarrow> 'k list \<Rightarrow> 'e option" where
  "first_error f [] = None"
| "first_error f (k # ks) = (case f k of Some e \<Rightarrow> Some e | None \<Rightarrow> first_error f ks)"

lemma first_error_None: "first_error f ks = None \<longleftrightarrow> (\<forall>k \<in> set ks. f k = None)"
  by (induction ks) (auto split: option.splits)

definition meaning_error :: "store \<Rightarrow> str \<Rightarrow> store_error option" where
  "meaning_error s word =
     (if map_of (words s) word = None then Some (MeaningForMissingWord word) else None)"

definition degree_error :: "store \<Rightarrow> str \<Rightarrow> store_error option" where
  "degree_error s syllable =
     (let actual = length (get_list (byFirst s) syllable); degree = get_int (outDegree s) syllable
      in if int actual \<noteq> degree then Some (WrongOutDegree syllable degree actual) else None)"

definition alias_error :: "store \<Rightarrow> str \<Rightarrow> store_error option" where
  "alias_error s variant =
     (case map_of (aliases s) variant of
        None \<Rightarrow> None
      | Some canonical \<Rightarrow>
          if map_of (words s) canonical = None then Some (AliasToMissingWord variant canonical)
          else None)"

definition validate :: "(str list \<Rightarrow> str list) \<Rightarrow> int \<Rightarrow> int \<Rightarrow> store \<Rightarrow> store_error option" where
  "validate ord declaredWords declaredMeanings s =
     (if int (length (words s)) \<noteq> declaredWords
      then Some (WordsIncomplete declaredWords (length (words s)))
      else if length (words s) = 0 then Some NoWords
      else if int (meaningCount s) \<noteq> declaredMeanings
      then Some (MeaningsIncomplete declaredMeanings (meaningCount s))
      else case first_error (meaning_error s) (ord (map fst (meanings s))) of
        Some e \<Rightarrow> Some e
      | None \<Rightarrow>
          case first_error (degree_error s) (ord (map fst (outDegree s))) of
            Some e \<Rightarrow> Some e
          | None \<Rightarrow> first_error (alias_error s) (ord (map fst (aliases s))))"

subsection \<open>The near-miss index\<close>

text \<open>
  NFD, without the combining marks, \<open>d\<close> for the letter with a stroke (0x111, capital 0x110), in
  lower case.
\<close>

fun strip_runes :: "unicode \<Rightarrow> str \<Rightarrow> str" where
  "strip_runes u [] = []"
| "strip_runes u (r # rs) =
     (if is_mn u r then strip_runes u rs
      else (if r = 0x111 then 100 else if r = 0x110 then 68 else r) # strip_runes u rs)"

definition stripDiacritics :: "unicode \<Rightarrow> str \<Rightarrow> str" where
  "stripDiacritics u word = to_lower u (strip_runes u (nfd u word))"

definition buildStrippedIndex :: "unicode \<Rightarrow> (str list \<Rightarrow> str list) \<Rightarrow> store \<Rightarrow> store" where
  "buildStrippedIndex u ord s =
     s\<lparr>stripped := fold (\<lambda>word. append_to (stripDiacritics u word) word)
         (ord (map fst (words s))) []\<rparr>"

definition NearMiss :: "unicode \<Rightarrow> store \<Rightarrow> str \<Rightarrow> str option" where
  "NearMiss u s normalized =
     (let (match, n) = foldl (\<lambda>(match, n) w. if w = normalized then (match, n) else (w, n + 1))
            ([], 0 :: nat) (get_list (stripped s) (stripDiacritics u normalized))
      in if n \<noteq> 1 then None else Some match)"

subsection \<open>Open\<close>

definition empty_store :: store where
  "empty_store = \<lparr>words = [], aliases = [], byFirst = [], outDegree = [], openers = [],
     meanings = [], meaningCount = 0, stripped = [], license = []\<rparr>"

text \<open>\<open>sort.SliceStable\<close> by degree, highest first.\<close>

definition sort_openers :: "opener list \<Rightarrow> opener list" where
  "sort_openers os = sort_key (\<lambda>o1. - lastOutDegree o1) os"

definition Open ::
  "unicode \<Rightarrow> (str list \<Rightarrow> str list) \<Rightarrow> db_file \<Rightarrow> store_error + store" where
  "Open u ord file =
     (case file of
        FileMissing \<Rightarrow> Inl FileNotFound
      | FileUnopenable \<Rightarrow> Inl CannotOpen
      | FileOpens db \<Rightarrow>
          sum_bind (loadMeta db empty_store) (\<lambda>(s, declaredWords, declaredMeanings).
          sum_bind (loadSyllables db s) (\<lambda>s.
          sum_bind (loadWords db s) (\<lambda>s.
          sum_bind (loadAliases db s) (\<lambda>s.
          sum_bind (loadMeanings db s) (\<lambda>s.
            case validate ord declaredWords declaredMeanings s of
              Some e \<Rightarrow> Inl e
            | None \<Rightarrow>
                let s = buildStrippedIndex u ord s
                in Inr (s\<lparr>openers := sort_openers (openers s)\<rparr>)))))))"

subsection \<open>Lookups\<close>

definition Store_Meanings :: "store \<Rightarrow> str \<Rightarrow> sense list" where
  "Store_Meanings s word = get_list (meanings s) word"

definition Store_Resolve :: "store \<Rightarrow> str \<Rightarrow> str option" where
  "Store_Resolve s word =
     (case map_of (words s) word of
        Some _ \<Rightarrow> Some word
      | None \<Rightarrow> map_of (aliases s) word)"

definition Store_FirstSyllable :: "store \<Rightarrow> str \<Rightarrow> str option" where
  "Store_FirstSyllable s word = map_option wi_first (map_of (words s) word)"

definition Store_LastSyllable :: "store \<Rightarrow> str \<Rightarrow> str option" where
  "Store_LastSyllable s word = map_option wi_last (map_of (words s) word)"

definition Store_WordsStartingWith :: "store \<Rightarrow> str \<Rightarrow> str list" where
  "Store_WordsStartingWith s syllable = get_list (byFirst s) syllable"

text \<open>\<open>ErrNotFound\<close> is \<open>None\<close>: a syllable the table has never seen.\<close>

definition Store_OutDegree :: "store \<Rightarrow> str \<Rightarrow> int option" where
  "Store_OutDegree s syllable = map_of (outDegree s) syllable"

definition WordCount :: "store \<Rightarrow> nat" where "WordCount s = length (words s)"
definition AliasCount :: "store \<Rightarrow> nat" where "AliasCount s = length (aliases s)"
definition MeaningCount :: "store \<Rightarrow> nat" where "MeaningCount s = meaningCount s"

text \<open>The store as the engine sees it.\<close>

definition store_dictionary :: "store \<Rightarrow> dictionary" where
  "store_dictionary s =
     \<lparr>Resolve = Store_Resolve s, FirstSyllable = Store_FirstSyllable s,
      LastSyllable = Store_LastSyllable s, WordsStartingWith = Store_WordsStartingWith s,
      OutDegree = Store_OutDegree s\<rparr>"

subsection \<open>An opening word\<close>

text \<open>\<open>sort.Search\<close>: the binary search of the standard library, between \<open>i\<close> and \<open>j\<close>.\<close>

function search_loop :: "(nat \<Rightarrow> bool) \<Rightarrow> nat \<Rightarrow> nat \<Rightarrow> nat" where
  "search_loop f i j =
     (if i < j
      then let h = (i + j) div 2 in if \<not> f h then search_loop f (h + 1) j else search_loop f i h
      else i)"
  by pat_completeness auto
termination
  by (relation "measure (\<lambda>(f, i, j). j - i)") auto

declare search_loop.simps [simp del]

definition sort_Search :: "nat \<Rightarrow> (nat \<Rightarrow> bool) \<Rightarrow> nat" where
  "sort_Search n f = search_loop f 0 n"

text \<open>\<open>intN n\<close> is a random number below \<open>n\<close>; no error carries more than its minimum.\<close>

definition pickOpeningWord :: "store \<Rightarrow> int \<Rightarrow> (nat \<Rightarrow> nat) \<Rightarrow> int + str" where
  "pickOpeningWord s minOutDegree intN =
     (let n = sort_Search (length (openers s))
            (\<lambda>i. lastOutDegree (openers s ! i) < minOutDegree)
      in if n = 0 then Inl minOutDegree else Inr (op_word (openers s ! intN n)))"

subsection \<open>Binary search finds the prefix\<close>

lemma search_loop_spec:
  assumes "i \<le> j" and "\<And>k. k < i \<Longrightarrow> \<not> f k" and "\<And>k. j \<le> k \<Longrightarrow> k < n \<Longrightarrow> f k" and "j \<le> n"
    and mono: "\<And>a b. a \<le> b \<Longrightarrow> b < n \<Longrightarrow> f a \<Longrightarrow> f b"
  shows "search_loop f i j \<le> n \<and> (\<forall>k < search_loop f i j. \<not> f k) \<and>
    (\<forall>k. search_loop f i j \<le> k \<and> k < n \<longrightarrow> f k)"
  using assms
proof (induction f i j rule: search_loop.induct)
  case (1 f i j)
  show ?case
  proof (cases "i < j")
    case False
    then have "search_loop f i j = i" by (subst search_loop.simps) simp
    with False 1(3-6) show ?thesis by auto
  next
    case True
    let ?h = "(i + j) div 2"
    have h: "i \<le> ?h" "?h < j" using True by auto
    show ?thesis
    proof (cases "f ?h")
      case t: True
      have eq: "search_loop f i j = search_loop f i ?h"
        using True t by (subst search_loop.simps) simp
      have up: "f k" if "?h \<le> k" "k < n" for k using 1(7) [OF that t] .
      have "\<not> \<not> f ?h" "?h \<le> n" using t h 1(6) by auto
      from 1(2) [OF True refl this(1) h(1) 1(4) up this(2) 1(7)] show ?thesis unfolding eq .
    next
      case f: False
      have eq: "search_loop f i j = search_loop f (?h + 1) j"
        using True f by (subst search_loop.simps) simp
      have down: "\<not> f k" if "k < ?h + 1" for k
      proof
        assume "f k"
        moreover have "k \<le> ?h" "?h < n" using that h 1(6) by auto
        ultimately show False using 1(7) f by blast
      qed
      have "?h + 1 \<le> j" using h by simp
      from 1(1) [OF True refl f this down 1(5,6,7)] show ?thesis unfolding eq .
    qed
  qed
qed

lemma sort_Search_spec:
  assumes "\<And>a b. a \<le> b \<Longrightarrow> b < n \<Longrightarrow> f a \<Longrightarrow> f b"
  shows "sort_Search n f \<le> n" and "k < sort_Search n f \<Longrightarrow> \<not> f k"
    and "sort_Search n f \<le> k \<Longrightarrow> k < n \<Longrightarrow> f k"
  using search_loop_spec [of 0 n f n] assms unfolding sort_Search_def by auto

end
