(* ===== verification/Dictionary_Facts.thy ===== *)
theory Dictionary_Facts
  imports Dictionary_Store "HOL-Library.Multiset"
begin

text \<open>
  What a store that opened promises: the invariant \<open>store_inv\<close>, that \<open>Open\<close> establishes it from any
  database whose word table has a primary key, the contract \<open>word_graph\<close> it provides to the rest of
  the program, and what the near-miss index and the opening words answer.
\<close>

subsection \<open>The invariant\<close>

definition words_part :: "store \<Rightarrow> bool" where
  "words_part s \<longleftrightarrow>
     distinct (map fst (words s)) \<and>
     (\<forall>f w. w \<in> set (get_list (byFirst s) f) \<longleftrightarrow>
        (\<exists>i. map_of (words s) w = Some i \<and> wi_first i = f)) \<and>
     (\<forall>f. distinct (get_list (byFirst s) f)) \<and>
     distinct (map op_word (openers s)) \<and>
     (\<forall>o1. o1 \<in> set (openers s) \<longleftrightarrow>
        (\<exists>i. map_of (words s) (op_word o1) = Some i \<and>
           lastOutDegree o1 = get_int (outDegree s) (wi_last i) \<and> 0 < lastOutDegree o1))"

definition checked_part :: "store \<Rightarrow> bool" where
  "checked_part s \<longleftrightarrow>
     (\<forall>f n. map_of (outDegree s) f = Some n \<longrightarrow> n = int (length (get_list (byFirst s) f))) \<and>
     (\<forall>v c. map_of (aliases s) v = Some c \<longrightarrow> map_of (words s) c \<noteq> None) \<and>
     (\<forall>w. map_of (meanings s) w \<noteq> None \<longrightarrow> map_of (words s) w \<noteq> None) \<and> words s \<noteq> []"

definition store_inv :: "store \<Rightarrow> bool" where
  "store_inv s \<longleftrightarrow> words_part s \<and> checked_part s \<and> sorted (map (\<lambda>o1. - lastOutDegree o1) (openers s))"

definition indexed :: "unicode \<Rightarrow> store \<Rightarrow> bool" where
  "indexed u s \<longleftrightarrow>
     (\<forall>k. distinct (get_list (stripped s) k) \<and>
        set (get_list (stripped s) k) = {w. map_of (words s) w \<noteq> None \<and> stripDiacritics u w = k})"

subsection \<open>Loading keeps it\<close>

lemma add_word_fields:
  "words (add_word (w, f, l) s) = AList.update w \<lparr>wi_first = f, wi_last = l\<rparr> (words s)"
  "byFirst (add_word (w, f, l) s) = append_to f w (byFirst s)"
  "outDegree (add_word (w, f, l) s) = outDegree s"
  "openers (add_word (w, f, l) s) = openers s @
     (if get_int (outDegree s) l > 0
      then [\<lparr>op_word = w, lastOutDegree = get_int (outDegree s) l\<rparr>] else [])"
  by (simp_all add: add_word_def Let_def)

lemma words_part_add:
  assumes inv: "words_part s" and new: "map_of (words s) w = None"
  shows "words_part (add_word (w, f, l) s)"
proof -
  have fresh: "w \<notin> set (get_list (byFirst s) g)" for g
    using inv new by (simp add: words_part_def)
  have "op_word o1 \<noteq> w" if "o1 \<in> set (openers s)" for o1
    using that inv new unfolding words_part_def by (metis option.distinct(1))
  then have noop: "w \<notin> op_word ` set (openers s)" by blast
  have keys: "distinct (map fst (AList.update w \<lparr>wi_first = f, wi_last = l\<rparr> (words s)))"
    using inv by (simp add: words_part_def distinct_update)
  have buckets: "w' \<in> set (get_list (append_to f w (byFirst s)) g) \<longleftrightarrow>
      (\<exists>i. ((map_of (words s))(w \<mapsto> \<lparr>wi_first = f, wi_last = l\<rparr>)) w' = Some i \<and> wi_first i = g)"
    for g w'
    using inv fresh by (auto simp: words_part_def)
  have dist: "distinct (get_list (append_to f w (byFirst s)) g)" for g
    using inv fresh by (simp add: words_part_def)
  have ops: "o1 \<in> set (openers (add_word (w, f, l) s)) \<longleftrightarrow>
      (\<exists>i. ((map_of (words s))(w \<mapsto> \<lparr>wi_first = f, wi_last = l\<rparr>)) (op_word o1) = Some i \<and>
         lastOutDegree o1 = get_int (outDegree s) (wi_last i) \<and> 0 < lastOutDegree o1)" for o1
  proof (cases "op_word o1 = w")
    case True
    then have "o1 \<notin> set (openers s)" using noop by blast
    with True show ?thesis by (cases o1) (auto simp: add_word_fields)
  next
    case False
    with inv show ?thesis by (auto simp: add_word_fields words_part_def)
  qed
  have opd: "distinct (map op_word (openers (add_word (w, f, l) s)))"
    using inv noop by (simp add: add_word_fields words_part_def)
  show ?thesis
    unfolding words_part_def
    using keys buckets dist ops opd by (simp add: add_word_fields(1-3))
qed

lemma words_part_rows:
  assumes "words_part s" and "distinct (map fst rs)" and "\<forall>r \<in> set rs. map_of (words s) (fst r) = None"
  shows "words_part (fold add_word rs s)"
  using assms
proof (induction rs arbitrary: s)
  case Nil
  then show ?case by simp
next
  case (Cons r rs)
  obtain w f l where r: "r = (w, f, l)" by (metis prod_cases3)
  have "words_part (add_word r s)" using Cons.prems r by (simp add: words_part_add)
  moreover have "\<forall>r' \<in> set rs. map_of (words (add_word r s)) (fst r') = None"
    using Cons.prems r by (auto simp: add_word_fields)
  ultimately show ?case using Cons by simp
qed

text \<open>The fields the other loads leave alone.\<close>

lemma fold_frame: "(\<And>x s. g (f x s) = g s) \<Longrightarrow> g (fold f xs s) = g s"
  by (induction xs arbitrary: s) simp_all

lemma with_rows_Inr: "with_rows rs f s = Inr s' \<longleftrightarrow> (\<exists>xs. rs = Rows xs \<and> s' = fold f xs s)"
  by (cases rs) (auto simp: with_rows_def)

lemma loadMeta_frame:
  assumes "loadMeta db s = Inr (s', a, b)"
  shows "s' = s\<lparr>license := license s'\<rparr>"
  using assms by (auto simp: loadMeta_def Let_def split: scan.splits if_splits sum.splits)

text \<open>The database's own guarantee the store relies on: \<open>word\<close> is the key of the word table.\<close>

definition rows_ok :: "database \<Rightarrow> bool" where
  "rows_ok db \<longleftrightarrow> (\<forall>rs. db_words db = Rows rs \<longrightarrow> distinct (map fst rs))"

text \<open>What ranging over a map may do with its keys: visit each once, in any order.\<close>

definition range_order :: "(str list \<Rightarrow> str list) \<Rightarrow> bool" where
  "range_order ord \<longleftrightarrow> (\<forall>ks. mset (ord ks) = mset ks)"

lemma range_order_set: "range_order ord \<Longrightarrow> set (ord ks) = set ks"
  unfolding range_order_def by (metis mset_eq_setD)

lemma range_order_distinct: "range_order ord \<Longrightarrow> distinct (ord ks) = distinct ks"
  unfolding range_order_def by (metis mset_eq_imp_distinct_iff)

lemma validate_checked:
  assumes ord: "range_order ord" and v: "validate ord n m s = None"
  shows "checked_part s" and "int (length (words s)) = n" and "int (meaningCount s) = m"
proof -
  show n: "int (length (words s)) = n" and m: "int (meaningCount s) = m"
    using v by (auto simp: validate_def split: if_splits)
  have ne: "words s \<noteq> []" using v by (auto simp: validate_def split: if_splits)
  have none: "\<forall>k \<in> set (map fst (meanings s)). meaning_error s k = None"
    "\<forall>k \<in> set (map fst (outDegree s)). degree_error s k = None"
    "\<forall>k \<in> set (map fst (aliases s)). alias_error s k = None"
    using v by (auto simp: validate_def first_error_None range_order_set [OF ord]
        split: if_splits option.splits)
  have "int (length (get_list (byFirst s) f)) = n" if "map_of (outDegree s) f = Some n" for f n
  proof -
    have "f \<in> set (map fst (outDegree s))" using that by (force dest: map_of_SomeD)
    with none(2) that show ?thesis
      by (auto simp: degree_error_def get_int_def Let_def split: if_splits)
  qed
  moreover have "map_of (words s) c \<noteq> None" if "map_of (aliases s) v = Some c" for v c
  proof -
    have "v \<in> set (map fst (aliases s))" using that by (force dest: map_of_SomeD)
    with none(3) that show ?thesis by (auto simp: alias_error_def split: if_splits)
  qed
  moreover have "map_of (words s) w \<noteq> None" if "map_of (meanings s) w \<noteq> None" for w
  proof -
    have "w \<in> set (map fst (meanings s))" using that by (force dest: map_of_SomeD)
    with none(1) show ?thesis by (auto simp: meaning_error_def split: if_splits)
  qed
  ultimately show "checked_part s" using ne by (auto simp: checked_part_def)
qed


subsection \<open>Open establishes the invariant\<close>

lemma empty_words_part: "words s = [] \<Longrightarrow> byFirst s = [] \<Longrightarrow> openers s = [] \<Longrightarrow> words_part s"
  by (simp add: words_part_def get_list_def)

lemma words_part_cong:
  "words s' = words s \<Longrightarrow> byFirst s' = byFirst s \<Longrightarrow> openers s' = openers s \<Longrightarrow>
   outDegree s' = outDegree s \<Longrightarrow> words_part s' = words_part s"
  by (simp add: words_part_def)

lemma add_frames:
  "words (add_syllable r s) = words s" "byFirst (add_syllable r s) = byFirst s"
  "openers (add_syllable r s) = openers s"
  "words (add_alias q s) = words s" "byFirst (add_alias q s) = byFirst s"
  "openers (add_alias q s) = openers s" "outDegree (add_alias q s) = outDegree s"
  "words (add_meaning p s) = words s" "byFirst (add_meaning p s) = byFirst s"
  "openers (add_meaning p s) = openers s" "outDegree (add_meaning p s) = outDegree s"
  by (simp_all add: add_syllable_def add_alias_def add_meaning_def split_def)

lemma load_frames:
  "loadSyllables db s = Inr s' \<Longrightarrow> words s' = words s \<and> byFirst s' = byFirst s \<and> openers s' = openers s"
  "loadAliases db s = Inr s' \<Longrightarrow> words s' = words s \<and> byFirst s' = byFirst s \<and>
     openers s' = openers s \<and> outDegree s' = outDegree s"
  "loadMeanings db s = Inr s' \<Longrightarrow> words s' = words s \<and> byFirst s' = byFirst s \<and>
     openers s' = openers s \<and> outDegree s' = outDegree s"
  by (auto simp: loadSyllables_def loadAliases_def loadMeanings_def with_rows_Inr add_frames
      intro: fold_frame)

lemma Open_stages:
  assumes "Open u ord (FileOpens db) = Inr s"
  obtains s0 n m s1 s2 s3 s4 where "loadMeta db empty_store = Inr (s0, n, m)"
    "loadSyllables db s0 = Inr s1" "loadWords db s1 = Inr s2" "loadAliases db s2 = Inr s3"
    "loadMeanings db s3 = Inr s4" "validate ord n m s4 = None"
    "s = (buildStrippedIndex u ord s4)\<lparr>openers := sort_openers (openers s4)\<rparr>"
  using assms
  by (force simp: Open_def sum_bind_Inr_iff Let_def buildStrippedIndex_def split: option.splits prod.splits)

lemma loaded_words_part:
  assumes "rows_ok db" and "loadMeta db empty_store = Inr (s0, n, m)"
    and "loadSyllables db s0 = Inr s1" and "loadWords db s1 = Inr s2" and "loadAliases db s2 = Inr s3"
    and "loadMeanings db s3 = Inr s4"
  shows "words_part s4"
proof -
  have "words s0 = []" "byFirst s0 = []" "openers s0 = []"
    by (subst loadMeta_frame [OF assms(2)], simp add: empty_store_def)+
  then have s1: "words s1 = []" "byFirst s1 = []" "openers s1 = []"
    using load_frames(1) [OF assms(3)] by simp_all
  obtain rs where rs: "db_words db = Rows rs" "s2 = fold add_word rs s1"
    using assms(4) by (auto simp: loadWords_def with_rows_Inr)
  have "words_part s2"
    unfolding rs(2) using s1 rs(1) assms(1)
    by (intro words_part_rows empty_words_part) (auto simp: rows_ok_def)
  moreover have "words s3 = words s2" "byFirst s3 = byFirst s2" "openers s3 = openers s2"
    "outDegree s3 = outDegree s2"
    using load_frames(2) [OF assms(5)] by simp_all
  moreover have "words s4 = words s3" "byFirst s4 = byFirst s3" "openers s4 = openers s3"
    "outDegree s4 = outDegree s3"
    using load_frames(3) [OF assms(6)] by simp_all
  ultimately show ?thesis by (simp add: words_part_cong [of s4 s2])
qed

lemma checked_part_cong:
  "words s' = words s \<Longrightarrow> byFirst s' = byFirst s \<Longrightarrow> outDegree s' = outDegree s \<Longrightarrow>
   aliases s' = aliases s \<Longrightarrow> meanings s' = meanings s \<Longrightarrow> checked_part s' = checked_part s"
  by (simp add: checked_part_def)

lemma words_part_openers:
  "words_part s \<Longrightarrow> words_part (s\<lparr>openers := sort_openers (openers s), stripped := i\<rparr>)"
proof -
  assume inv: "words_part s"
  have "mset (map op_word (sort_openers (openers s))) = mset (map op_word (openers s))"
    by (simp add: sort_openers_def)
  then have "distinct (map op_word (sort_openers (openers s))) = distinct (map op_word (openers s))"
    by (rule mset_eq_imp_distinct_iff)
  with inv show ?thesis by (simp add: words_part_def sort_openers_def)
qed

lemma Open_inv:
  assumes "rows_ok db" and "range_order ord" and "Open u ord (FileOpens db) = Inr s"
  shows "store_inv s"
  using assms(3)
proof (rule Open_stages)
  fix s0 n m s1 s2 s3 s4
  assume st: "loadMeta db empty_store = Inr (s0, n, m)" "loadSyllables db s0 = Inr s1"
    "loadWords db s1 = Inr s2" "loadAliases db s2 = Inr s3" "loadMeanings db s3 = Inr s4"
    and v: "validate ord n m s4 = None"
    and s: "s = (buildStrippedIndex u ord s4)\<lparr>openers := sort_openers (openers s4)\<rparr>"
  have w4: "words_part s4" by (rule loaded_words_part [OF assms(1) st])
  have s': "s = s4\<lparr>openers := sort_openers (openers s4), stripped := stripped s\<rparr>"
    by (simp add: s buildStrippedIndex_def)
  have "words_part s" by (subst s') (rule words_part_openers [OF w4])
  moreover have "checked_part s"
    using validate_checked(1) [OF assms(2) v]
    by (subst checked_part_cong [of _ s4]) (simp_all add: s buildStrippedIndex_def)
  moreover have "sorted (map (\<lambda>o1. - lastOutDegree o1) (openers s))"
    by (simp add: s sort_openers_def)
  ultimately show ?thesis by (simp add: store_inv_def)
qed

lemma fold_strip_index:
  "distinct ks \<Longrightarrow> \<forall>k. distinct (get_list m k) \<and> set ks \<inter> set (get_list m k) = {} \<Longrightarrow>
   distinct (get_list (fold (\<lambda>w. append_to (g w) w) ks m) k) \<and>
   set (get_list (fold (\<lambda>w. append_to (g w) w) ks m) k) = set (get_list m k) \<union> {w \<in> set ks. g w = k}"
proof (induction ks arbitrary: m)
  case Nil
  then show ?case by simp
next
  case (Cons w ks)
  have "\<forall>k. distinct (get_list (append_to (g w) w m) k) \<and>
      set ks \<inter> set (get_list (append_to (g w) w m) k) = {}"
    using Cons.prems by auto
  from Cons.IH [OF _ this] Cons.prems(1) show ?case by auto
qed

lemma Open_indexed:
  assumes "rows_ok db" and "range_order ord" and "Open u ord (FileOpens db) = Inr s"
  shows "indexed u s"
  using assms(3)
proof (rule Open_stages)
  fix s0 n m s1 s2 s3 s4
  assume st: "loadMeta db empty_store = Inr (s0, n, m)" "loadSyllables db s0 = Inr s1"
    "loadWords db s1 = Inr s2" "loadAliases db s2 = Inr s3" "loadMeanings db s3 = Inr s4"
    and s: "s = (buildStrippedIndex u ord s4)\<lparr>openers := sort_openers (openers s4)\<rparr>"
  have "words_part s4" by (rule loaded_words_part [OF assms(1) st])
  then have "distinct (ord (map fst (words s4)))"
    by (simp add: range_order_distinct [OF assms(2)] words_part_def)
  from fold_strip_index [OF this, of "[]" "stripDiacritics u"] show ?thesis
    by (auto simp: indexed_def s buildStrippedIndex_def get_list_def range_order_set [OF assms(2)]
        map_of_eq_None_iff)
qed


subsection \<open>The contract with the rest of the program\<close>

lemma store_dictionary_simps [simp]:
  "Resolve (store_dictionary s) = Store_Resolve s"
  "FirstSyllable (store_dictionary s) = Store_FirstSyllable s"
  "LastSyllable (store_dictionary s) = Store_LastSyllable s"
  "WordsStartingWith (store_dictionary s) = Store_WordsStartingWith s"
  "OutDegree (store_dictionary s) = Store_OutDegree s"
  by (simp_all add: store_dictionary_def)

lemmas store_defs = Store_Resolve_def Store_FirstSyllable_def Store_LastSyllable_def
  Store_WordsStartingWith_def Store_OutDegree_def

interpretation store: word_graph store_dictionary store_inv
proof
  fix d w c f s n
  assume inv: "store_inv d"
  then have wp: "words_part d" and cp: "checked_part d" by (simp_all add: store_inv_def)
  show "FirstSyllable (store_dictionary d) c \<noteq> None \<and> LastSyllable (store_dictionary d) c \<noteq> None"
    if "Resolve (store_dictionary d) w = Some c"
    using that cp by (auto simp: store_defs checked_part_def split: option.splits)
  show "Resolve (store_dictionary d) w = Some w" if "FirstSyllable (store_dictionary d) w = Some f"
    using that by (auto simp: store_defs)
  show "w \<in> set (WordsStartingWith (store_dictionary d) s) \<longleftrightarrow>
      FirstSyllable (store_dictionary d) w = Some s"
    using wp by (auto simp: store_defs words_part_def)
  show "distinct (WordsStartingWith (store_dictionary d) s)"
    using wp by (simp add: store_defs words_part_def)
  show "n = int (length (WordsStartingWith (store_dictionary d) s))"
    if "OutDegree (store_dictionary d) s = Some n"
    using that cp by (simp add: store_defs checked_part_def)
  have "{w. FirstSyllable (store_dictionary d) w \<noteq> None} = dom (map_of (words d))"
    by (auto simp: store_defs dom_def)
  then show "finite {w. FirstSyllable (store_dictionary d) w \<noteq> None}"
    by (simp add: finite_dom_map_of)
qed

subsection \<open>Near misses\<close>

lemma near_miss_fold:
  "foldl (\<lambda>(match, n) w. if w = nw then (match, n) else (w, n + 1)) (m0, n0 :: nat) ws =
     (let vs = filter (\<lambda>w. w \<noteq> nw) ws in (if vs = [] then m0 else last vs, n0 + length vs))"
  by (induction ws arbitrary: m0 n0) (auto simp: Let_def)

lemma NearMiss_filter:
  "NearMiss u s nw = Some w \<longleftrightarrow>
     filter (\<lambda>v. v \<noteq> nw) (get_list (stripped s) (stripDiacritics u nw)) = [w]"
  by (auto simp: NearMiss_def near_miss_fold Let_def length_Suc_conv)

lemma NearMiss_iff:
  assumes "indexed u s"
  shows "NearMiss u s nw = Some w \<longleftrightarrow>
    {v. map_of (words s) v \<noteq> None \<and> stripDiacritics u v = stripDiacritics u nw \<and> v \<noteq> nw} = {w}"
proof -
  let ?vs = "filter (\<lambda>v. v \<noteq> nw) (get_list (stripped s) (stripDiacritics u nw))"
  have "distinct ?vs" using assms by (simp add: indexed_def)
  moreover have "set ?vs =
      {v. map_of (words s) v \<noteq> None \<and> stripDiacritics u v = stripDiacritics u nw \<and> v \<noteq> nw}"
    using assms by (auto simp: indexed_def)
  moreover have "?vs = [w] \<longleftrightarrow> set ?vs = {w}" if "distinct ?vs" for w
  proof
    assume "set ?vs = {w}"
    with that have "length ?vs = 1" using distinct_card [of ?vs] by simp
    then obtain v where v: "?vs = [v]" by (auto simp: length_Suc_conv)
    with \<open>set ?vs = {w}\<close> show "?vs = [w]" by simp
  qed simp
  ultimately show ?thesis by (simp add: NearMiss_filter)
qed

subsection \<open>Opening words\<close>

lemma opening_prefix:
  assumes inv: "store_inv s" and
    n: "n = sort_Search (length (openers s)) (\<lambda>i. lastOutDegree (openers s ! i) < k)"
  shows "n \<le> length (openers s)" and "i < n \<Longrightarrow> k \<le> lastOutDegree (openers s ! i)"
    and "n \<le> i \<Longrightarrow> i < length (openers s) \<Longrightarrow> lastOutDegree (openers s ! i) < k"
proof -
  have sorted: "lastOutDegree (openers s ! b) \<le> lastOutDegree (openers s ! a)"
    if "a \<le> b" "b < length (openers s)" for a b
    using inv that sorted_nth_mono [of "map (\<lambda>o1. - lastOutDegree o1) (openers s)" a b]
    by (simp add: store_inv_def)
  have mono: "lastOutDegree (openers s ! b) < k"
    if "a \<le> b" "b < length (openers s)" "lastOutDegree (openers s ! a) < k" for a b
    using sorted [OF that(1,2)] that(3) by linarith
  show "n \<le> length (openers s)" unfolding n by (rule sort_Search_spec(1)) (rule mono)
  show "k \<le> lastOutDegree (openers s ! i)" if "i < n"
  proof -
    have "\<not> lastOutDegree (openers s ! i) < k"
      by (rule sort_Search_spec(2) [where n = "length (openers s)"]) (use mono that n in blast)+
    then show ?thesis by simp
  qed
  show "lastOutDegree (openers s ! i) < k" if "n \<le> i" "i < length (openers s)"
    by (rule sort_Search_spec(3) [where n = "length (openers s)" and k = i]) (use mono that n in blast)+
qed

definition opener_word :: "store \<Rightarrow> int \<Rightarrow> str \<Rightarrow> bool" where
  "opener_word s k w \<longleftrightarrow>
     (\<exists>l n. Store_LastSyllable s w = Some l \<and> Store_OutDegree s l = Some n \<and> 0 < n \<and> k \<le> n)"

lemma opener_word_iff:
  assumes inv: "store_inv s"
  shows "opener_word s k w \<longleftrightarrow> (\<exists>o1 \<in> set (openers s). op_word o1 = w \<and> k \<le> lastOutDegree o1)"
proof
  assume "opener_word s k w"
  then obtain i n where "map_of (words s) w = Some i" "map_of (outDegree s) (wi_last i) = Some n"
    "0 < n" "k \<le> n" by (auto simp: opener_word_def store_defs)
  with inv have "\<lparr>op_word = w, lastOutDegree = n\<rparr> \<in> set (openers s)"
    by (simp add: store_inv_def words_part_def get_int_def)
  with \<open>k \<le> n\<close> show "\<exists>o1 \<in> set (openers s). op_word o1 = w \<and> k \<le> lastOutDegree o1"
    by (intro bexI [of _ "\<lparr>op_word = w, lastOutDegree = n\<rparr>"]) simp_all
next
  assume "\<exists>o1 \<in> set (openers s). op_word o1 = w \<and> k \<le> lastOutDegree o1"
  then obtain o1 where o1: "o1 \<in> set (openers s)" "op_word o1 = w" "k \<le> lastOutDegree o1" by blast
  then obtain i where "map_of (words s) w = Some i"
    "lastOutDegree o1 = get_int (outDegree s) (wi_last i)" "0 < lastOutDegree o1"
    using inv by (auto simp: store_inv_def words_part_def)
  with o1(3) show "opener_word s k w"
    by (auto simp: opener_word_def store_defs get_int_def split: option.splits)
qed

lemma pickOpeningWord_cases:
  assumes inv: "store_inv s" and rng: "\<And>n. 0 < n \<Longrightarrow> intN n < n"
  shows "pickOpeningWord s k intN = Inr w \<Longrightarrow> opener_word s k w"
    and "pickOpeningWord s k intN = Inl e \<Longrightarrow> \<not> opener_word s k w"
proof -
  define n where "n = sort_Search (length (openers s)) (\<lambda>i. lastOutDegree (openers s ! i) < k)"
  note pre = opening_prefix [OF inv n_def]
  have pick: "pickOpeningWord s k intN = (if n = 0 then Inl k else Inr (op_word (openers s ! intN n)))"
    by (simp add: pickOpeningWord_def n_def Let_def)
  show "opener_word s k w" if "pickOpeningWord s k intN = Inr w"
  proof -
    have "n \<noteq> 0" "w = op_word (openers s ! intN n)" using that pick by (auto split: if_splits)
    with pre(1) pre(2) [OF rng] rng [of n] show ?thesis
      unfolding opener_word_iff [OF inv] by (intro bexI [of _ "openers s ! intN n"]) auto
  qed
  show "\<not> opener_word s k w" if "pickOpeningWord s k intN = Inl e"
  proof -
    have "n = 0" using that pick by (auto split: if_splits)
    with pre(3) show ?thesis unfolding opener_word_iff [OF inv] by (force simp: in_set_conv_nth)
  qed
qed

lemma pickOpeningWord_all:
  assumes inv: "store_inv s" and w: "opener_word s k w"
  shows "\<exists>intN. (\<forall>n > 0. intN n < n) \<and> pickOpeningWord s k intN = Inr w"
proof -
  define n where "n = sort_Search (length (openers s)) (\<lambda>i. lastOutDegree (openers s ! i) < k)"
  note pre = opening_prefix [OF inv n_def]
  obtain i where i: "i < length (openers s)" "op_word (openers s ! i) = w" "k \<le> lastOutDegree (openers s ! i)"
    using w unfolding opener_word_iff [OF inv] by (auto simp: in_set_conv_nth)
  then have "i < n" using pre(3) [of i] by force
  then have "pickOpeningWord s k (\<lambda>m. if m = n then i else 0) = Inr w"
    using i(2) by (simp add: pickOpeningWord_def n_def Let_def)
  then show ?thesis using \<open>i < n\<close> by (intro exI [of _ "\<lambda>m. if m = n then i else 0"]) auto
qed

end
