(* ===== verification/Dictionary_Props.thy ===== *)
theory Dictionary_Props
  imports Dictionary_Facts Fixtures
begin

text \<open>
  The properties of the dictionary (\<open>server/internal/dictionary/store.go\<close>), with witnesses on a small
  database.
\<close>

subsection \<open>A small database\<close>

text \<open>\<open>a b\<close>, \<open>a c\<close>, \<open>a d\<close> with the stroked letter, \<open>c d\<close>, \<open>d a\<close>, \<open>e a\<close>; \<open>ay b\<close> is a spelling of \<open>a b\<close>.\<close>

definition demo_db :: database where
  "demo_db = \<lparr>
     db_meta = (\<lambda>k. if k = lit ''source_license'' then Scanned (lit ''CC'')
        else if k = lit ''builder_version'' then Scanned (lit ''5'')
        else if k = lit ''word_count'' then Scanned (lit ''6'')
        else if k = lit ''meaning_count'' then Scanned (lit ''1'') else NoRows),
     db_syllables = Rows [([97], 3), ([98], 0), ([99], 1), ([100], 1), ([101], 1), ([0x111], 0)],
     db_words = Rows [([97, 32, 98], [97], [98]), ([97, 32, 99], [97], [99]),
        ([97, 32, 0x111], [97], [0x111]), ([99, 32, 100], [99], [100]), ([100, 32, 97], [100], [97]),
        ([101, 32, 97], [101], [97])],
     db_aliases = Rows [([97, 121, 32, 98], [97, 32, 98])],
     db_meanings = Rows [([97, 32, 98], \<lparr>Pos = [], Gloss = [120]\<rparr>)]\<rparr>"

text \<open>The store it loads, and the same with the near-miss index and the sorted openers.\<close>

definition demo_words :: "(str \<times> wordInfo) list" where
  "demo_words = [([97, 32, 98], \<lparr>wi_first = [97], wi_last = [98]\<rparr>),
     ([97, 32, 99], \<lparr>wi_first = [97], wi_last = [99]\<rparr>),
     ([97, 32, 0x111], \<lparr>wi_first = [97], wi_last = [0x111]\<rparr>),
     ([99, 32, 100], \<lparr>wi_first = [99], wi_last = [100]\<rparr>),
     ([100, 32, 97], \<lparr>wi_first = [100], wi_last = [97]\<rparr>),
     ([101, 32, 97], \<lparr>wi_first = [101], wi_last = [97]\<rparr>)]"

definition demo_loaded :: store where
  "demo_loaded = \<lparr>words = demo_words, aliases = [([97, 121, 32, 98], [97, 32, 98])],
     byFirst = [([97], [[97, 32, 98], [97, 32, 99], [97, 32, 0x111]]), ([99], [[99, 32, 100]]),
        ([100], [[100, 32, 97]]), ([101], [[101, 32, 97]])],
     outDegree = [([97], 3), ([98], 0), ([99], 1), ([100], 1), ([101], 1), ([0x111], 0)],
     openers = [\<lparr>op_word = [97, 32, 99], lastOutDegree = 1\<rparr>, \<lparr>op_word = [99, 32, 100], lastOutDegree = 1\<rparr>,
        \<lparr>op_word = [100, 32, 97], lastOutDegree = 3\<rparr>, \<lparr>op_word = [101, 32, 97], lastOutDegree = 3\<rparr>],
     meanings = [([97, 32, 98], [\<lparr>Pos = [], Gloss = [120]\<rparr>])], meaningCount = 1, stripped = [],
     license = [67, 67]\<rparr>"

definition demo_store :: store where
  "demo_store = demo_loaded\<lparr>
     stripped := [([101, 32, 97], [[101, 32, 97]]), ([100, 32, 97], [[100, 32, 97]]),
        ([99, 32, 100], [[99, 32, 100]]), ([97, 32, 100], [[97, 32, 0x111]]),
        ([97, 32, 99], [[97, 32, 99]]), ([97, 32, 98], [[97, 32, 98]])],
     openers := [\<lparr>op_word = [100, 32, 97], lastOutDegree = 3\<rparr>, \<lparr>op_word = [101, 32, 97], lastOutDegree = 3\<rparr>,
        \<lparr>op_word = [97, 32, 99], lastOutDegree = 1\<rparr>, \<lparr>op_word = [99, 32, 100], lastOutDegree = 1\<rparr>]\<rparr>"

lemma demo_loads:
  "loadMeta demo_db empty_store = Inr (empty_store\<lparr>license := [67, 67]\<rparr>, 6, 1)"
  "loadSyllables demo_db (empty_store\<lparr>license := [67, 67]\<rparr>) =
     Inr (empty_store\<lparr>license := [67, 67], outDegree := outDegree demo_loaded\<rparr>)"
  "loadWords demo_db (empty_store\<lparr>license := [67, 67], outDegree := outDegree demo_loaded\<rparr>) =
     Inr (demo_loaded\<lparr>aliases := [], meanings := [], meaningCount := 0\<rparr>)"
  "loadAliases demo_db (demo_loaded\<lparr>aliases := [], meanings := [], meaningCount := 0\<rparr>) =
     Inr (demo_loaded\<lparr>meanings := [], meaningCount := 0\<rparr>)"
  "loadMeanings demo_db (demo_loaded\<lparr>meanings := [], meaningCount := 0\<rparr>) = Inr demo_loaded"
  "validate rev 6 1 demo_loaded = None"
  "(buildStrippedIndex demo_unicode rev demo_loaded)\<lparr>openers := sort_openers (openers demo_loaded)\<rparr> =
     demo_store"
  by code_simp+

lemma demo_open: "Open demo_unicode rev (FileOpens demo_db) = Inr demo_store"
  using demo_loads by (simp add: Open_def buildStrippedIndex_def)

lemma demo_rows_ok: "rows_ok demo_db"
  by (simp add: rows_ok_def demo_db_def)

lemma demo_range_order: "range_order rev"
  by (simp add: range_order_def)

lemma demo_store_inv: "store_inv demo_store"
  by (rule Open_inv [OF demo_rows_ok demo_range_order demo_open])

subsection \<open>Opening the database\<close>

text \<open>
  Claim (C7). A database whose word table is keyed by the word, and that opens, answers the game
  consistently: resolving a spelling gives a word that resolves to itself and has both end syllables;
  the words listed under a syllable are exactly those that start with it, each once; a known
  out-degree is how many there are; and there is at least one word.
\<close>

theorem open_contract:
  assumes "rows_ok db" and "range_order ord" and "Open u ord (FileOpens db) = Inr s"
  shows "(\<forall>w c. Store_Resolve s w = Some c \<longrightarrow> Store_Resolve s c = Some c \<and>
        Store_FirstSyllable s c \<noteq> None \<and> Store_LastSyllable s c \<noteq> None) \<and>
    (\<forall>w f. w \<in> set (Store_WordsStartingWith s f) \<longleftrightarrow> Store_FirstSyllable s w = Some f) \<and>
    (\<forall>f. distinct (Store_WordsStartingWith s f)) \<and>
    (\<forall>f n. Store_OutDegree s f = Some n \<longrightarrow> n = int (length (Store_WordsStartingWith s f))) \<and>
    0 < WordCount s"
proof -
  have inv: "store_inv s" by (rule Open_inv [OF assms])
  then have "0 < WordCount s" by (simp add: store_inv_def checked_part_def WordCount_def)
  with store.resolve_idem [OF inv] store.resolve_ends [OF inv] store.starting_iff [OF inv]
    store.starting_distinct [OF inv] store.degree_counts [OF inv]
  show ?thesis by simp
qed

theorem open_contract_witness: "Store_Resolve demo_store [97, 121, 32, 98] = Some [97, 32, 98] \<and>
   Store_FirstSyllable demo_store [97, 32, 98] \<noteq> None"
proof -
  have "Store_Resolve demo_store [97, 121, 32, 98] = Some [97, 32, 98]" by code_simp
  then show ?thesis using open_contract [OF demo_rows_ok demo_range_order demo_open] by blast
qed

lemma validate_order:
  assumes "range_order ord" and "range_order ord'" and "validate ord n m s = None"
  shows "validate ord' n m s = None"
  using assms(3)
  by (auto simp: validate_def first_error_None range_order_set [OF assms(1)] range_order_set [OF assms(2)]
      split: if_splits option.splits)

lemma near_miss_same:
  assumes "indexed u s" and "indexed u s'" and "words s' = words s"
  shows "NearMiss u s' = NearMiss u s"
proof
  fix nw
  have "NearMiss u s' nw = Some w \<longleftrightarrow> NearMiss u s nw = Some w" for w
    unfolding NearMiss_iff [OF assms(1)] NearMiss_iff [OF assms(2)] assms(3) ..
  then show "NearMiss u s' nw = NearMiss u s nw" by (metis option.exhaust)
qed

text \<open>
  Go ranges over a map in an order of its own. Neither whether a database opens nor any
  answer the store then gives depends on it: opened in any two orders, the two stores hold the same
  words, spellings, degrees, openers and meanings, and correct the same near misses.
\<close>

lemma open_order_irrelevant:
  assumes "rows_ok db" and "range_order ord" and "range_order ord'"
    and "Open u ord (FileOpens db) = Inr s"
  shows "\<exists>s'. Open u ord' (FileOpens db) = Inr s' \<and> s' = s\<lparr>stripped := stripped s'\<rparr> \<and>
    NearMiss u s' = NearMiss u s"
proof (rule Open_stages [OF assms(4)])
  fix s0 n m s1 s2 s3 s4
  assume st: "loadMeta db empty_store = Inr (s0, n, m)" "loadSyllables db s0 = Inr s1"
    "loadWords db s1 = Inr s2" "loadAliases db s2 = Inr s3" "loadMeanings db s3 = Inr s4"
    and v: "validate ord n m s4 = None"
    and s: "s = (buildStrippedIndex u ord s4)\<lparr>openers := sort_openers (openers s4)\<rparr>"
  define s' where "s' = (buildStrippedIndex u ord' s4)\<lparr>openers := sort_openers (openers s4)\<rparr>"
  have open': "Open u ord' (FileOpens db) = Inr s'"
    using st validate_order [OF assms(2,3) v]
    by (simp add: Open_def s'_def buildStrippedIndex_def Let_def)
  moreover have "s' = s\<lparr>stripped := stripped s'\<rparr>" by (simp add: s s'_def buildStrippedIndex_def)
  moreover have "words s' = words s" by (simp add: s s'_def buildStrippedIndex_def)
  then have "NearMiss u s' = NearMiss u s"
    by (rule near_miss_same [OF Open_indexed [OF assms(1,2,4)] Open_indexed [OF assms(1,3) open']])
  ultimately show ?thesis by blast
qed

subsection \<open>Near misses\<close>

text \<open>
  A refused spelling is corrected to a word exactly when that word is the only one in the
  dictionary, the spelling itself aside, that is the same once tones and marks are taken off; where
  two words qualify nothing is offered.
\<close>

lemma near_miss_unique:
  assumes "rows_ok db" and "range_order ord" and "Open u ord (FileOpens db) = Inr s"
  shows "NearMiss u s typed = Some w \<longleftrightarrow>
    {v. Store_LastSyllable s v \<noteq> None \<and> stripDiacritics u v = stripDiacritics u typed \<and> v \<noteq> typed} = {w}"
  using NearMiss_iff [OF Open_indexed [OF assms]] by (simp add: Store_LastSyllable_def)

subsection \<open>Opening words\<close>

text \<open>
  Claim (C8). The binary search over the sorted openers is right: the word drawn to open a game ends
  in a syllable at least as many words continue as was asked, every word like that is drawn by some
  draw within the bound it is given, and the search gives up only when there is none.
\<close>

theorem opening_word_sound:
  assumes "rows_ok db" and "range_order ord" and "Open u ord (FileOpens db) = Inr s" and "1 \<le> k"
    and "\<forall>n > 0. intN n < n"
  shows "(\<forall>w. pickOpeningWord s k intN = Inr w \<longrightarrow>
       (\<exists>l n. Store_LastSyllable s w = Some l \<and> Store_OutDegree s l = Some n \<and> k \<le> n)) \<and>
    (\<forall>w l n. Store_LastSyllable s w = Some l \<longrightarrow> Store_OutDegree s l = Some n \<longrightarrow> k \<le> n \<longrightarrow>
       (\<exists>draw. (\<forall>m > 0. draw m < m) \<and> pickOpeningWord s k draw = Inr w)) \<and>
    (\<forall>e w l n. pickOpeningWord s k intN = Inl e \<longrightarrow> Store_LastSyllable s w = Some l \<longrightarrow>
       Store_OutDegree s l = Some n \<longrightarrow> n < k)"
proof -
  have inv: "store_inv s" by (rule Open_inv [OF assms(1-3)])
  note pick = pickOpeningWord_cases [OF inv, of intN k]
  have "\<exists>l n. Store_LastSyllable s w = Some l \<and> Store_OutDegree s l = Some n \<and> k \<le> n"
    if "pickOpeningWord s k intN = Inr w" for w
    using pick(1) [OF _ that] assms(5) unfolding opener_word_def by blast
  moreover have "n < k" if "pickOpeningWord s k intN = Inl e" "Store_LastSyllable s w = Some l"
    "Store_OutDegree s l = Some n" for e w l n
  proof (rule ccontr)
    assume "\<not> n < k"
    with assms(4) that have "opener_word s k w" by (auto simp: opener_word_def)
    with pick(2) [OF _ that(1)] assms(5) show False by blast
  qed
  moreover have "\<exists>draw. (\<forall>m > 0. draw m < m) \<and> pickOpeningWord s k draw = Inr w"
    if "Store_LastSyllable s w = Some l" "Store_OutDegree s l = Some n" "k \<le> n" for w l n
    by (rule pickOpeningWord_all [OF inv]) (use that assms(4) in \<open>auto simp: opener_word_def\<close>)
  ultimately show ?thesis by blast
qed

theorem opening_word_sound_witness:
  "pickOpeningWord demo_store 2 (\<lambda>n. n - 1) = Inr [101, 32, 97] \<and>
   (\<exists>l n. Store_LastSyllable demo_store [101, 32, 97] = Some l \<and> Store_OutDegree demo_store l = Some n \<and> 2 \<le> n)"
proof -
  have "pickOpeningWord demo_store 2 (\<lambda>n. n - 1) = Inr [101, 32, 97]" by code_simp
  then show ?thesis
    using opening_word_sound [OF demo_rows_ok demo_range_order demo_open, of 2 "\<lambda>n. n - 1"] by auto
qed

end
