(* ===== verification/Bot.thy ===== *)
theory Bot
  imports Engine Complex_Main
begin

text \<open>
  \<open>server/internal/bot\<close>: what a strategy sees of a position, and how the three strategies choose. A
  random draw is an argument: \<open>intN n\<close> is the number drawn below \<open>n\<close>, \<open>float64\<close> the number drawn
  from the unit interval. The error \<open>ErrNoMove\<close> is \<open>None\<close>.
\<close>

subsection \<open>The board\<close>

datatype difficulty = Easy | Medium | Hard

fun difficulty_string :: "difficulty \<Rightarrow> string" where
  "difficulty_string Easy = ''easy''"
| "difficulty_string Medium = ''medium''"
| "difficulty_string Hard = ''hard''"

record board =
  b_legal :: "str list"
  b_used :: "str set"
  b_starting :: "str \<Rightarrow> str list"
  b_last :: "str \<Rightarrow> str option"

record draws =
  intN :: "nat \<Rightarrow> nat"
  float64 :: rat

text \<open>\<open>wsapi/bot_board.go\<close>: the position frozen off the engine before the worker starts.\<close>

definition freezeBoard :: "engine \<Rightarrow> board" where
  "freezeBoard e = \<lparr>b_legal = LegalMoves e, b_used = used e,
     b_starting = WordsStartingWith (dict e), b_last = LastSyllable (dict e)\<rparr>"

definition remainingOutDegree :: "board \<Rightarrow> str \<Rightarrow> str \<Rightarrow> nat" where
  "remainingOutDegree b syllable excluding =
     foldl (\<lambda>n word. if word \<noteq> excluding \<and> word \<notin> b_used b then n + 1 else n) 0
       (b_starting b syllable)"

definition thinkingDelay :: "(int \<Rightarrow> int) \<Rightarrow> duration \<Rightarrow> duration \<Rightarrow> duration" where
  "thinkingDelay int64N lo hi = (if hi \<le> lo then lo else lo + int64N (hi - lo))"

definition ThinkingDelay :: "(int \<Rightarrow> int) \<Rightarrow> difficulty \<Rightarrow> duration" where
  "ThinkingDelay int64N d =
     (case d of
        Easy \<Rightarrow> thinkingDelay int64N 400000000 900000000
      | Medium \<Rightarrow> thinkingDelay int64N 500000000 1200000000
      | Hard \<Rightarrow> thinkingDelay int64N 600000000 1500000000)"

subsection \<open>Easy and medium\<close>

definition easy_Choose :: "draws \<Rightarrow> board \<Rightarrow> str option" where
  "easy_Choose rng b =
     (let moves = b_legal b
      in if moves = [] then None else Some (moves ! intN rng (length moves)))"

record scoredMove =
  sm_word :: str
  handsOver :: nat

fun scoreMoves :: "board \<Rightarrow> str list \<Rightarrow> scoredMove list" where
  "scoreMoves b [] = []"
| "scoreMoves b (word # moves) =
     (case b_last b word of
        None \<Rightarrow> scoreMoves b moves
      | Some lastSyl \<Rightarrow>
          \<lparr>sm_word = word, handsOver = remainingOutDegree b lastSyl word\<rparr> # scoreMoves b moves)"

definition medium_Choose :: "draws \<Rightarrow> board \<Rightarrow> str option" where
  "medium_Choose rng b =
     (let moves = b_legal b
      in if moves = [] then None
         else let scored = scoreMoves b moves
              in if scored = [] then Some (moves ! intN rng (length moves))
                 else let scored = sort_key handsOver scored
                      in if handsOver (scored ! 0) = 0 then Some (sm_word (scored ! 0))
                         else let cut = max (length scored div 4) 1
                              in Some (sm_word (scored ! intN rng cut)))"

subsection \<open>Hard: search\<close>

text \<open>
  The values a search compares: the rationals (every finite \<open>float64\<close> is one) between the two
  infinities. \<open>math.Log\<close> is an argument, the function \<open>logf\<close> from the number of replies to the
  \<open>float64\<close> value of its logarithm.
\<close>

datatype score = NegInf | Fin rat | PosInf

fun score_le :: "score \<Rightarrow> score \<Rightarrow> bool" where
  "score_le NegInf y = True"
| "score_le (Fin x) NegInf = False"
| "score_le (Fin x) (Fin y) = (x \<le> y)"
| "score_le (Fin x) PosInf = True"
| "score_le PosInf y = (y = PosInf)"

instantiation score :: linorder
begin

definition less_eq_score :: "score \<Rightarrow> score \<Rightarrow> bool" where
  "less_eq_score a b = score_le a b"

definition less_score :: "score \<Rightarrow> score \<Rightarrow> bool" where
  "less_score a b = (score_le a b \<and> \<not> score_le b a)"

instance
proof
  fix x y z :: score
  show "(x < y) = (x \<le> y \<and> \<not> y \<le> x)" by (simp add: less_score_def less_eq_score_def)
  show "x \<le> x" by (cases x) (simp_all add: less_eq_score_def)
  show "x \<le> y \<Longrightarrow> y \<le> z \<Longrightarrow> x \<le> z"
    by (cases x; cases y; cases z) (simp_all add: less_eq_score_def)
  show "x \<le> y \<Longrightarrow> y \<le> x \<Longrightarrow> x = y"
    by (cases x; cases y) (simp_all add: less_eq_score_def)
  show "x \<le> y \<or> y \<le> x"
    by (cases x; cases y) (auto simp: less_eq_score_def)
qed

end

fun neg_score :: "score \<Rightarrow> score" where
  "neg_score NegInf = PosInf"
| "neg_score (Fin x) = Fin (- x)"
| "neg_score PosInf = NegInf"

lemma neg_neg [simp]: "neg_score (neg_score x) = x"
  by (cases x) simp_all

lemma neg_le_iff [simp]: "neg_score x \<le> neg_score y \<longleftrightarrow> y \<le> x"
  by (cases x; cases y) (simp_all add: less_eq_score_def)

lemma neg_less_iff [simp]: "neg_score x < neg_score y \<longleftrightarrow> y < x"
  by (simp add: less_le_not_le)

definition hardKillRate :: rat where "hardKillRate = 85 / 100"
definition searchDepth :: nat where "searchDepth = 4"
definition nodeCap :: nat where "nodeCap = 20000"
definition branchCap :: nat where "branchCap = 12"
definition loseScore :: rat where "loseScore = - 1000"

definition spent :: "board \<Rightarrow> str list \<Rightarrow> str \<Rightarrow> bool" where
  "spent b line word \<longleftrightarrow> word \<in> set line \<or> word \<in> b_used b"

record cand =
  c_word :: str
  c_last :: str
  c_handsOver :: nat

text \<open>
  The candidates at a node, tightest first. The words of the line searched are a list: the map
  \<open>used\<close> gains a word before a recursive call and loses it after, and a candidate was never in it.
\<close>

definition candidates :: "board \<Rightarrow> str list \<Rightarrow> str \<Rightarrow> str list" where
  "candidates b line cur = filter (\<lambda>w. \<not> spent b line w) (b_starting b cur)"

definition cand_of :: "board \<Rightarrow> str list \<Rightarrow> str \<Rightarrow> cand option" where
  "cand_of b line w =
     (case b_last b w of
        None \<Rightarrow> None
      | Some l \<Rightarrow> Some \<lparr>c_word = w, c_last = l,
          c_handsOver = length (filter (\<lambda>reply. reply \<noteq> w \<and> \<not> spent b line reply) (b_starting b l))\<rparr>)"

definition ordered :: "board \<Rightarrow> str list \<Rightarrow> str \<Rightarrow> cand list" where
  "ordered b line cur =
     sort_key c_handsOver (List.map_filter (cand_of b line) (candidates b line cur))"

text \<open>
  The loop over the candidates, with the recursive call as an argument; it threads the best value,
  the lower bound and the budget, and stops when the window closes.
\<close>

fun nega_loop :: "(cand \<Rightarrow> score \<Rightarrow> score \<Rightarrow> nat \<Rightarrow> score \<times> nat) \<Rightarrow> score \<Rightarrow>
    cand list \<Rightarrow> score \<Rightarrow> score \<Rightarrow> nat \<Rightarrow> score \<times> nat" where
  "nega_loop child \<beta> [] best \<alpha> budget = (best, budget)"
| "nega_loop child \<beta> (c # cs) best \<alpha> budget =
     (let (v, budget) = child c (neg_score \<beta>) (neg_score \<alpha>) budget;
          score = neg_score v;
          best = (if best < score then score else best);
          \<alpha> = (if \<alpha> < best then best else \<alpha>)
      in if \<beta> \<le> \<alpha> then (best, budget) else nega_loop child \<beta> cs best \<alpha> budget)"

primrec negamax :: "nat \<Rightarrow> board \<Rightarrow> (nat \<Rightarrow> rat) \<Rightarrow> str list \<Rightarrow> str \<Rightarrow> score \<Rightarrow> score \<Rightarrow> nat \<Rightarrow> score \<times> nat" where
  "negamax 0 b logf line cur \<alpha> \<beta> budget =
     (if budget = 0 then (\<alpha>, budget)
      else let n = length (candidates b line cur)
           in (Fin (if n = 0 then loseScore else logf n), budget - 1))"
| "negamax (Suc depth) b logf line cur \<alpha> \<beta> budget =
     (if budget = 0 then (\<alpha>, budget)
      else if candidates b line cur = [] then (Fin (loseScore - of_nat (Suc depth)), budget - 1)
      else nega_loop (\<lambda>c. negamax depth b logf (c_word c # line) (c_last c)) \<beta>
             (take branchCap (ordered b line cur)) (Fin loseScore) \<alpha> (budget - 1))"

text \<open>The loop at the root: the best word so far, the lower bound and the budget.\<close>

fun root_loop :: "board \<Rightarrow> (nat \<Rightarrow> rat) \<Rightarrow> scoredMove list \<Rightarrow> nat \<Rightarrow> str \<Rightarrow> score \<Rightarrow> nat \<Rightarrow> str \<times> nat" where
  "root_loop b logf [] i best \<alpha> budget = (best, budget)"
| "root_loop b logf (m # ms) i best \<alpha> budget =
     (if branchCap \<le> i \<or> budget = 0 then (best, budget)
      else case b_last b (sm_word m) of
        None \<Rightarrow> root_loop b logf ms (i + 1) best \<alpha> budget
      | Some lastSyl \<Rightarrow>
          (let (v, budget) = negamax (searchDepth - 1) b logf [sm_word m] lastSyl NegInf (neg_score \<alpha>) budget;
               score = neg_score v
           in if \<alpha> < score then root_loop b logf ms (i + 1) (sm_word m) score budget
              else root_loop b logf ms (i + 1) best \<alpha> budget))"

definition hard_Choose :: "(nat \<Rightarrow> rat) \<Rightarrow> draws \<Rightarrow> board \<Rightarrow> str option" where
  "hard_Choose logf rng b =
     (let moves = b_legal b
      in if moves = [] then None
         else let scored = scoreMoves b moves
              in if scored = [] then Some (moves ! intN rng (length moves))
                 else let kills = map sm_word (filter (\<lambda>m. handsOver m = 0) scored)
                      in if kills \<noteq> [] \<and> float64 rng < hardKillRate
                         then Some (kills ! intN rng (length kills))
                         else let spared = filter (\<lambda>m. handsOver m > 0) scored;
                                  scored = (if kills \<noteq> [] \<and> spared \<noteq> [] then spared else scored);
                                  scored = sort_key handsOver scored;
                                  (best, _) = root_loop b logf scored 0 [] NegInf nodeCap
                              in if best = [] then Some (sm_word (scored ! 0)) else Some best)"

definition Choose :: "difficulty \<Rightarrow> (nat \<Rightarrow> rat) \<Rightarrow> draws \<Rightarrow> board \<Rightarrow> str option" where
  "Choose d logf rng b =
     (case d of
        Easy \<Rightarrow> easy_Choose rng b
      | Medium \<Rightarrow> medium_Choose rng b
      | Hard \<Rightarrow> hard_Choose logf rng b)"

end
