(* ===== verification/Wire.thy ===== *)
theory Wire
  imports Bot Dictionary_Store
begin

text \<open>
  The messages of the protocol as the server builds them: \<open>wsapi/errcodes.go\<close>, \<open>wsapi/convert.go\<close> and
  the message constructors of \<open>wsapi/codec.go\<close>. The generated protobuf types are outside the
  source; a message is the datatype of what it carries, and its enumerations are datatypes of their own,
  with the conversions from the engine's.
\<close>

subsection \<open>Error codes\<close>

datatype errCode =
    codeAlreadyGreeted | codeAlreadyInAGame | codeAlreadyInARoom | codeAlreadyQueued
  | codeBadFrame | codeBusy | codeCannotJoinOwnRoom | codeCannotKickSelf | codeGameAlreadyOver
  | codeGameInProgress | codeGameNotStarted | codeGameStartFailed | codeHandshakeRequired
  | codeKicked | codeMustUnreadyFirst | codeNeedMorePlayers | codeNoOneToKick
  | codeNotADeadEnd | codeNotEveryoneReady | codeNotInAGame | codeNotInARoom | codeNotTheOwner
  | codeNotYourSeat | codeNotYourTurn | codeOwnerNeedsNoReady | codePlayerIsReady
  | codePlayerOffline | codeProtocolVersionMismatch | codeRoomFull | codeRoomIdleClosed
  | codeRoomNotFound | codeRoomStartFailed | codeServerFull | codeServerRestarting
  | codeSessionNotResumable | codeTooFast | codeTooManyAttempts | codeTooManyRooms
  | codeUnknownMessage | codeUnknownDifficulty | codeWordReportLimit | codeWordReportRefused

fun code_string :: "errCode \<Rightarrow> string" where
  "code_string codeAlreadyGreeted = ''already_greeted''"
| "code_string codeAlreadyInAGame = ''already_in_a_game''"
| "code_string codeAlreadyInARoom = ''already_in_a_room''"
| "code_string codeAlreadyQueued = ''already_queued''"
| "code_string codeBadFrame = ''bad_frame''"
| "code_string codeBusy = ''busy''"
| "code_string codeCannotJoinOwnRoom = ''cannot_join_own_room''"
| "code_string codeCannotKickSelf = ''cannot_kick_self''"
| "code_string codeGameAlreadyOver = ''game_already_over''"
| "code_string codeGameInProgress = ''game_in_progress''"
| "code_string codeGameNotStarted = ''game_not_started''"
| "code_string codeGameStartFailed = ''game_start_failed''"
| "code_string codeHandshakeRequired = ''handshake_required''"
| "code_string codeKicked = ''kicked''"
| "code_string codeMustUnreadyFirst = ''must_unready_first''"
| "code_string codeNeedMorePlayers = ''need_more_players''"
| "code_string codeNoOneToKick = ''no_one_to_kick''"
| "code_string codeNotADeadEnd = ''not_a_dead_end''"
| "code_string codeNotEveryoneReady = ''not_everyone_ready''"
| "code_string codeNotInAGame = ''not_in_a_game''"
| "code_string codeNotInARoom = ''not_in_a_room''"
| "code_string codeNotTheOwner = ''not_the_owner''"
| "code_string codeNotYourSeat = ''not_your_seat''"
| "code_string codeNotYourTurn = ''not_your_turn''"
| "code_string codeOwnerNeedsNoReady = ''owner_needs_no_ready''"
| "code_string codePlayerIsReady = ''player_is_ready''"
| "code_string codePlayerOffline = ''player_offline''"
| "code_string codeProtocolVersionMismatch = ''protocol_version_mismatch''"
| "code_string codeRoomFull = ''room_full''"
| "code_string codeRoomIdleClosed = ''room_idle_closed''"
| "code_string codeRoomNotFound = ''room_not_found''"
| "code_string codeRoomStartFailed = ''room_start_failed''"
| "code_string codeServerFull = ''server_full''"
| "code_string codeServerRestarting = ''server_restarting''"
| "code_string codeSessionNotResumable = ''session_not_resumable''"
| "code_string codeTooFast = ''too_fast''"
| "code_string codeTooManyAttempts = ''too_many_attempts''"
| "code_string codeTooManyRooms = ''too_many_rooms''"
| "code_string codeUnknownMessage = ''unknown_message''"
| "code_string codeUnknownDifficulty = ''unknown_difficulty''"
| "code_string codeWordReportLimit = ''word_report_limit''"
| "code_string codeWordReportRefused = ''word_report_refused''"

subsection \<open>Enumerations of the wire\<close>

datatype wire_reject =
    REJECT_REASON_UNSPECIFIED | REJECT_REASON_NOT_YOUR_TURN | REJECT_REASON_TOO_FEW_SYLLABLES
  | REJECT_REASON_NOT_IN_DICTIONARY | REJECT_REASON_WRONG_LINK | REJECT_REASON_ALREADY_USED
  | REJECT_REASON_TIMEOUT | REJECT_REASON_GAME_OVER

datatype wire_end =
    GAME_END_REASON_UNSPECIFIED | GAME_END_REASON_TIMEOUT | GAME_END_REASON_NO_LEGAL_MOVE
  | GAME_END_REASON_RESIGNED | GAME_END_REASON_OPPONENT_LEFT

datatype wire_kind =
    POINT_KIND_UNSPECIFIED | POINT_KIND_BASE | POINT_KIND_CHAIN | POINT_KIND_SYLLABLES
  | POINT_KIND_SPEED | POINT_KIND_RARITY

text \<open>A difficulty comes from the client: any other number than the three is possible.\<close>

datatype wire_difficulty =
    DIFFICULTY_EASY | DIFFICULTY_MEDIUM | DIFFICULTY_HARD | DIFFICULTY_OTHER int

fun RejectReason :: "reject_reason \<Rightarrow> wire_reject" where
  "RejectReason ReasonNone = REJECT_REASON_UNSPECIFIED"
| "RejectReason ReasonNotYourTurn = REJECT_REASON_NOT_YOUR_TURN"
| "RejectReason ReasonTooFewSyllables = REJECT_REASON_TOO_FEW_SYLLABLES"
| "RejectReason ReasonNotInDictionary = REJECT_REASON_NOT_IN_DICTIONARY"
| "RejectReason ReasonWrongLink = REJECT_REASON_WRONG_LINK"
| "RejectReason ReasonAlreadyUsed = REJECT_REASON_ALREADY_USED"
| "RejectReason ReasonTimeout = REJECT_REASON_TIMEOUT"
| "RejectReason ReasonGameOver = REJECT_REASON_GAME_OVER"

fun EndReason :: "end_reason \<Rightarrow> wire_end" where
  "EndReason EndNone = GAME_END_REASON_UNSPECIFIED"
| "EndReason EndTimeout = GAME_END_REASON_TIMEOUT"
| "EndReason EndNoLegalMove = GAME_END_REASON_NO_LEGAL_MOVE"
| "EndReason EndResigned = GAME_END_REASON_RESIGNED"

fun PointKind :: "point_kind \<Rightarrow> wire_kind" where
  "PointKind PointKindNone = POINT_KIND_UNSPECIFIED"
| "PointKind PointKindBase = POINT_KIND_BASE"
| "PointKind PointKindChain = POINT_KIND_CHAIN"
| "PointKind PointKindSyllables = POINT_KIND_SYLLABLES"
| "PointKind PointKindSpeed = POINT_KIND_SPEED"
| "PointKind PointKindRarity = POINT_KIND_RARITY"

fun Difficulty :: "wire_difficulty \<Rightarrow> difficulty option" where
  "Difficulty DIFFICULTY_EASY = Some Easy"
| "Difficulty DIFFICULTY_MEDIUM = Some Medium"
| "Difficulty DIFFICULTY_HARD = Some Hard"
| "Difficulty (DIFFICULTY_OTHER n) = None"

lemma RejectReason_inj: "RejectReason a = RejectReason b \<Longrightarrow> a = b"
  by (cases a; cases b) simp_all

lemma EndReason_inj: "EndReason a = EndReason b \<Longrightarrow> a = b"
  by (cases a; cases b) simp_all

lemma PointKind_inj: "PointKind a = PointKind b \<Longrightarrow> a = b"
  by (cases a; cases b) simp_all

lemma EndReason_not_left: "EndReason a \<noteq> GAME_END_REASON_OPPONENT_LEFT"
  by (cases a) simp_all

subsection \<open>Messages\<close>

record wire_part =
  wp_kind :: wire_kind
  wp_value :: u32

definition PointParts :: "point_part list \<Rightarrow> wire_part list" where
  "PointParts parts = map (\<lambda>p. \<lparr>wp_kind = PointKind (pp_kind p), wp_value = of_int (pp_value p)\<rparr>) parts"

record played_word =
  pw_word :: str
  pw_typed :: str
  pw_byMe :: bool
  pw_playerId :: player
  pw_points :: u32
  pw_syllables :: u32
  pw_meanings :: "sense list"
  pw_parts :: "wire_part list"

definition PlayedWord :: "move \<Rightarrow> bool \<Rightarrow> sense list \<Rightarrow> played_word" where
  "PlayedWord m byMe senses =
     \<lparr>pw_word = mv_word m, pw_typed = mv_typed m, pw_byMe = byMe, pw_playerId = mv_player m,
      pw_points = of_int (mv_points m), pw_syllables = of_nat (mv_syllables m),
      pw_meanings = senses, pw_parts = PointParts (mv_parts m)\<rparr>"

record player_score =
  ps_playerId :: player
  ps_isMe :: bool
  ps_score :: u32
  ps_eliminated :: bool
  ps_connected :: bool
  ps_rank :: u32
  ps_name :: str

record player_slot =
  sl_playerId :: player
  sl_name :: str
  sl_isMe :: bool
  sl_isOwner :: bool
  sl_ready :: bool
  sl_connected :: bool
  sl_wins :: u32

record room_state =
  rs_roomCode :: str
  rs_canStart :: bool
  rs_players :: "player_slot list"
  rs_maxPlayers :: nat
  rs_minPlayers :: nat
  rs_graceMs :: u32

record game_started =
  sg_openingWord :: str
  sg_openingMeanings :: "sense list"
  sg_currentSyllable :: str
  sg_myTurn :: bool
  sg_deadlineMs :: int
  sg_turnSeq :: u32
  sg_turnLimitMs :: u32
  sg_players :: "player_score list"
  sg_turnPlayerId :: player

record turn_update =
  tu_currentSyllable :: str
  tu_myTurn :: bool
  tu_deadlineMs :: int
  tu_turnSeq :: u32
  tu_chainLength :: u32
  tu_players :: "player_score list"
  tu_turnPlayerId :: player
  tu_played :: "played_word option"

record player_eliminated =
  pe_playerId :: player
  pe_name :: str
  pe_isMe :: bool
  pe_reason :: wire_end
  pe_suggestions :: "str list"

record game_over =
  go_iWon :: bool
  go_reason :: wire_end
  go_chainLength :: u32
  go_standings :: "player_score list"

record chat_message =
  cm_fromMe :: bool
  cm_playerId :: player
  cm_author :: str
  cm_text :: str
  cm_sentMs :: int

datatype smsg =
    Welcome str str u32 str
  | RoomState room_state
  | GameStarted game_started
  | TurnUpdate turn_update
  | MoveRejected wire_reject str u32 str
  | PlayerEliminated player_eliminated
  | GameOver game_over
  | ServerError errCode
  | ChatMessage chat_message
  | ChatHistory "chat_message list"
  | WordReported str
  | Pong int int
  | QuickMatchStatus bool

definition ProtocolVersion :: u32 where "ProtocolVersion = 2"

definition welcomeMsg :: "str \<Rightarrow> str \<Rightarrow> str \<Rightarrow> smsg" where
  "welcomeMsg sessionId resumeToken nickname = Welcome sessionId resumeToken ProtocolVersion nickname"

definition moveRejectedMsg :: "wire_reject \<Rightarrow> str \<Rightarrow> u32 \<Rightarrow> str \<Rightarrow> smsg" where
  "moveRejectedMsg reason word seq suggestion = MoveRejected reason word seq suggestion"

definition wordReportedMsg :: "str \<Rightarrow> smsg" where
  "wordReportedMsg word = WordReported word"

definition errorMsg :: "errCode \<Rightarrow> smsg" where
  "errorMsg code = ServerError code"

definition pongMsg :: "int \<Rightarrow> int \<Rightarrow> smsg" where
  "pongMsg clientMs serverMs = Pong clientMs serverMs"

definition quickMatchStatusMsg :: "bool \<Rightarrow> smsg" where
  "quickMatchStatusMsg queued = QuickMatchStatus queued"

text \<open>\<open>Time.UnixMilli\<close> rounds down; \<open>Duration.Milliseconds\<close> truncates towards zero.\<close>

definition unix_milli :: "instant \<Rightarrow> int" where
  "unix_milli t = t div 1000000"

definition milliseconds :: "duration \<Rightarrow> int" where
  "milliseconds d = go_div d 1000000"

end
