(* ===== verification/Nickname.thy ===== *)
theory Nickname
  imports Go_Strings
begin

text \<open>
  \<open>server/internal/wsapi/nickname.go\<close>: the filter every piece of text passes before a stranger sees it,
  and the names that keep two players of a room apart.
\<close>

definition maxNicknameRunes :: nat where "maxNicknameRunes = 20"
definition maxNicknameMarks :: nat where "maxNicknameMarks = 2"

definition blankLetters :: "rune set" where
  "blankLetters = {0x115F, 0x1160, 0x17B4, 0x17B5, 0x2800, 0x3164, 0xFFA0}"

text \<open>The callback of \<open>strings.Map\<close>: \<open>None\<close> drops the rune.\<close>

definition map_rune :: "unicode \<Rightarrow> rune \<Rightarrow> rune option" where
  "map_rune u r =
     (if is_space r then Some 32
      else if is_control r \<or> is_cf u r then None
      else if r \<in> blankLetters then None
      else if \<not> is_print u r then None
      else Some r)"

fun capMarks :: "unicode \<Rightarrow> nat \<Rightarrow> nat \<Rightarrow> str \<Rightarrow> str" where
  "capMarks u maxMarks marks [] = []"
| "capMarks u maxMarks marks (r # rs) =
     (if is_mn u r \<or> is_me u r
      then if maxMarks \<le> marks then capMarks u maxMarks marks rs
           else r # capMarks u maxMarks (marks + 1) rs
      else r # capMarks u maxMarks 0 rs)"

text \<open>\<open>strings.TrimSpace\<close>.\<close>

definition trim_space :: "str \<Rightarrow> str" where
  "trim_space s = rev (dropWhile is_space (rev (dropWhile is_space s)))"

definition sanitizeText :: "unicode \<Rightarrow> str \<Rightarrow> nat \<Rightarrow> nat \<Rightarrow> str" where
  "sanitizeText u raw maxRunes maxMarks =
     (let s = nfc u raw;
          s = List.map_filter (map_rune u) s;
          s = capMarks u maxMarks 0 s;
          s = join_sp (fields s)
      in if length s > maxRunes then trim_space (take maxRunes s) else s)"

definition defaultNickname :: str where
  "defaultNickname = [78, 103, 432, 7901, 105, 32, 99, 104, 417, 105]"

text \<open>The deny list is a hook the code leaves empty.\<close>

definition denylisted :: "str \<Rightarrow> bool" where
  "denylisted s = False"

definition sanitizeNickname :: "unicode \<Rightarrow> str \<Rightarrow> str" where
  "sanitizeNickname u raw =
     (let s = sanitizeText u raw maxNicknameRunes maxNicknameMarks
      in if s = [] \<or> denylisted s then defaultNickname else s)"

subsection \<open>What survives the filter\<close>

definition visible :: "unicode \<Rightarrow> rune \<Rightarrow> bool" where
  "visible u r \<longleftrightarrow> r = 32 \<or>
     (\<not> is_space r \<and> \<not> is_control r \<and> \<not> is_cf u r \<and> r \<notin> blankLetters \<and> is_print u r)"

text \<open>How many marks stand in a row, at most \<open>k\<close> after \<open>n\<close> already seen.\<close>

fun marks_ok :: "unicode \<Rightarrow> nat \<Rightarrow> nat \<Rightarrow> str \<Rightarrow> bool" where
  "marks_ok u k n [] = (n \<le> k)"
| "marks_ok u k n (r # rs) =
     (n \<le> k \<and> (if is_mn u r \<or> is_me u r then marks_ok u k (n + 1) rs else marks_ok u k 0 rs))"

lemma marks_ok_mono: "marks_ok u k n s \<Longrightarrow> m \<le> n \<Longrightarrow> marks_ok u k m s"
  by (induction u k n s arbitrary: m rule: marks_ok.induct) (auto split: if_splits)

lemma capMarks_ok: "n \<le> k \<Longrightarrow> marks_ok u k n (capMarks u k n s)"
  by (induction u k n s rule: capMarks.induct) auto

lemma capMarks_set: "set (capMarks u k n s) \<subseteq> set s"
  by (induction u k n s rule: capMarks.induct) auto

lemma marks_ok_take: "marks_ok u k n s \<Longrightarrow> marks_ok u k n (take m s)"
  by (induction u k n s arbitrary: m rule: marks_ok.induct) (auto simp: take_Cons split: nat.splits if_splits)

lemma marks_ok_append: "marks_ok u k n (s @ t) \<Longrightarrow> marks_ok u k n s"
  by (metis append_eq_conv_conj marks_ok_take)

lemma marks_ok_start: "marks_ok u k n s \<Longrightarrow> n \<le> k"
  by (cases s) auto

text \<open>Dropping a prefix only forgets marks already counted.\<close>

lemma marks_ok_drop: "marks_ok u k n (s @ t) \<Longrightarrow> marks_ok u k 0 t"
proof (induction u k n s rule: marks_ok.induct)
  case (1 u k n)
  then show ?case using marks_ok_mono [of u k n t 0] by simp
next
  case (2 u k n r rs)
  then show ?case by (auto split: if_splits)
qed

text \<open>The Unicode fact this rests on: a space is not a combining mark.\<close>

definition text_laws :: "unicode \<Rightarrow> bool" where
  "text_laws u \<longleftrightarrow> (\<forall>r. is_space r \<longrightarrow> \<not> is_mn u r \<and> \<not> is_me u r)"

lemma marks_ok_split:
  assumes "\<not> is_mn u r" and "\<not> is_me u r"
  shows "marks_ok u k n (a @ r # t) \<longleftrightarrow> marks_ok u k n a \<and> marks_ok u k 0 t"
  using assms by (induction u k n a rule: marks_ok.induct) (auto dest: marks_ok_start)

lemma marks_ok_fields_acc:
  assumes laws: "text_laws u" and "marks_ok u k 0 (acc @ s)"
  shows "marks_ok u k 0 (join_sp (fields_acc acc s))"
  using assms(2)
proof (induction acc s rule: fields_acc.induct)
  case (1 acc)
  then show ?case by auto
next
  case (2 acc r rs)
  show ?case
  proof (cases "is_space r")
    case False
    with 2 show ?thesis by simp
  next
    case sp: True
    then have nm: "\<not> is_mn u r" "\<not> is_me u r" "\<not> is_mn u 32" "\<not> is_me u 32"
      using laws by (auto simp: text_laws_def)
    have parts: "marks_ok u k 0 acc" "marks_ok u k 0 rs"
      using 2(4) marks_ok_split [OF nm(1,2)] by simp_all
    show ?thesis
    proof (cases "acc = []")
      case True
      with 2(1) sp parts show ?thesis by simp
    next
      case False
      have rest: "marks_ok u k 0 (join_sp (fields_acc [] rs))" using 2(2) sp False parts by simp
      with parts False sp show ?thesis
        by (cases "fields_acc [] rs = []") (simp_all add: join_Cons marks_ok_split [OF nm(3,4)])
    qed
  qed
qed

text \<open>White space: single plain spaces, none at either end. The flag is \<open>the last rune was a space\<close>.\<close>

fun spaced :: "bool \<Rightarrow> str \<Rightarrow> bool" where
  "spaced b [] = (\<not> b)"
| "spaced b (r # rs) = (if is_space r then r = 32 \<and> \<not> b \<and> spaced True rs else spaced False rs)"

definition tidy :: "str \<Rightarrow> bool" where
  "tidy s \<longleftrightarrow> s = [] \<or> spaced True s"

fun half_spaced :: "bool \<Rightarrow> str \<Rightarrow> bool" where
  "half_spaced b [] = True"
| "half_spaced b (r # rs) =
     (if is_space r then r = 32 \<and> \<not> b \<and> half_spaced True rs else half_spaced False rs)"

lemma spaced_half: "spaced b s \<Longrightarrow> half_spaced b s"
  by (induction b s rule: spaced.induct) (auto split: if_splits)

lemma half_take: "half_spaced b s \<Longrightarrow> half_spaced b (take m s)"
  by (induction b s arbitrary: m rule: half_spaced.induct) (auto simp: take_Cons split: nat.splits if_splits)

lemma spaced_append_field:
  "no_space f \<Longrightarrow> spaced b (f @ t) = spaced False t"
proof -
  have step: "\<forall>r \<in> set f. \<not> is_space r \<Longrightarrow> spaced False (f @ t) = spaced False t" for f
    by (induction f) auto
  assume "no_space f"
  then show "spaced b (f @ t) = spaced False t"
    by (cases f) (auto simp: no_space_def step)
qed

lemma spaced_join: "list_all no_space fs \<Longrightarrow> fs \<noteq> [] \<Longrightarrow> spaced b (join_sp fs)"
proof (induction fs arbitrary: b)
  case (Cons f fs)
  then show ?case
    using spaced_append_field [of f b "[]"]
    by (cases "fs = []") (simp_all add: join_Cons spaced_append_field)
qed simp

lemma tidy_join: "list_all no_space fs \<Longrightarrow> tidy (join_sp fs)"
  by (cases "fs = []") (simp_all add: tidy_def spaced_join)

lemma half_snoc:
  "half_spaced b (s @ [r]) \<Longrightarrow> \<not> is_space r \<Longrightarrow> spaced b (s @ [r])"
  by (induction b s rule: half_spaced.induct) (auto split: if_splits)

lemma half_snoc_space:
  "half_spaced b (s @ [r]) \<Longrightarrow> is_space r \<Longrightarrow> half_spaced b s \<and> (s = [] \<longrightarrow> \<not> b) \<and> (s \<noteq> [] \<longrightarrow> \<not> is_space (last s))"
  by (induction b s rule: half_spaced.induct) (auto split: if_splits)

lemma half_trim:
  assumes "half_spaced True s"
  shows "tidy (trim_space s)" and "\<exists>m. trim_space s = take m s"
proof -
  have lead: "dropWhile is_space s = s"
    using assms by (cases s) (auto split: if_splits)
  show "tidy (trim_space s)"
  proof (cases s rule: rev_cases)
    case Nil
    then show ?thesis by (simp add: trim_space_def tidy_def)
  next
    case (snoc t r)
    show ?thesis
    proof (cases "is_space r")
      case False
      with snoc assms half_snoc show ?thesis unfolding trim_space_def lead by (simp add: tidy_def)
    next
      case True
      have t: "half_spaced True t" "t \<noteq> []" "\<not> is_space (last t)"
        using half_snoc_space [of True t r] assms snoc True by auto
      then obtain t' q where q: "t = t' @ [q]" "\<not> is_space q" by (cases t rule: rev_cases) auto
      with t(1) half_snoc have "spaced True t" by blast
      with snoc True q show ?thesis unfolding trim_space_def lead by (simp add: tidy_def)
    qed
  qed
  have "\<exists>m. rev (dropWhile is_space (rev s)) = take m s"
    by (metis rev_swap rev_rev_ident dropWhile_eq_drop rev_drop)
  then show "\<exists>m. trim_space s = take m s" unfolding trim_space_def lead .
qed

lemma map_rune_visible: "map_rune u r = Some q \<Longrightarrow> visible u q"
  by (auto simp: map_rune_def visible_def split: if_splits)

lemma map_filter_visible: "\<forall>r \<in> set (List.map_filter (map_rune u) s). visible u r"
proof (induction s)
  case (Cons r s)
  then show ?case
    by (cases "map_rune u r") (auto simp: List.map_filter_def dest: map_rune_visible)
qed (simp add: List.map_filter_def)

lemma visible_fields: "\<forall>r \<in> set s. visible u r \<Longrightarrow> \<forall>r \<in> set (join_sp (fields s)). visible u r"
  using set_join [of "[32]" "fields s"] fields_set by (fastforce simp: visible_def)

lemma sanitize_safe:
  assumes laws: "text_laws u"
  shows "length (sanitizeText u raw n k) \<le> n" and "tidy (sanitizeText u raw n k)"
    and "\<forall>r \<in> set (sanitizeText u raw n k). visible u r"
    and "marks_ok u k 0 (sanitizeText u raw n k)"
proof -
  define c where "c = capMarks u k 0 (List.map_filter (map_rune u) (nfc u raw))"
  define s where "s = join_sp (fields c)"
  have san: "sanitizeText u raw n k = (if length s > n then trim_space (take n s) else s)"
    by (simp add: sanitizeText_def Let_def s_def c_def)
  have vis_c: "\<forall>r \<in> set c. visible u r"
    using capMarks_set [of u k 0 "List.map_filter (map_rune u) (nfc u raw)"]
    using map_filter_visible [of u "nfc u raw"] by (auto simp: c_def)
  have vis: "\<forall>r \<in> set s. visible u r" unfolding s_def by (rule visible_fields [OF vis_c])
  have tidy: "tidy s" unfolding s_def by (rule tidy_join) (simp add: list_all_iff fields_no_space)
  have marks: "marks_ok u k 0 s"
    unfolding s_def fields_def by (rule marks_ok_fields_acc [OF laws]) (simp add: c_def capMarks_ok)
  have half: "half_spaced True (take n s)"
    using tidy by (cases "s = []") (auto simp: tidy_def intro: half_take spaced_half)
  obtain m where m: "trim_space (take n s) = take m (take n s)" using half_trim(2) [OF half] by blast
  show "length (sanitizeText u raw n k) \<le> n" by (simp add: san m)
  show "tidy (sanitizeText u raw n k)" using tidy half_trim(1) [OF half] by (simp add: san)
  show "\<forall>r \<in> set (sanitizeText u raw n k). visible u r"
    using vis by (auto simp: san m dest: in_set_takeD)
  show "marks_ok u k 0 (sanitizeText u raw n k)"
    using marks by (simp add: san m marks_ok_take)
qed


subsection \<open>Names that differ\<close>

text \<open>\<open>fmt.Sprintf\<close> of a counter: a space and the decimal digits.\<close>

fun decimal_digits :: "nat \<Rightarrow> str" where
  "decimal_digits n = (if n < 10 then [48 + n] else decimal_digits (n div 10) @ [48 + n mod 10])"

declare decimal_digits.simps [simp del]

definition suffixed :: "str \<Rightarrow> nat \<Rightarrow> str" where
  "suffixed name n =
     (let suffix = 32 # decimal_digits n;
          trimmed = (if length name + length suffix > maxNicknameRunes
            then trim_space (take (maxNicknameRunes - length suffix) name) else name)
      in trimmed @ suffix)"

lemma decimal_digits_set: "r \<in> set (decimal_digits n) \<Longrightarrow> 48 \<le> r \<and> r \<le> 57"
proof (induction n rule: decimal_digits.induct)
  case (1 n)
  show ?case
  proof (cases "n < 10")
    case True
    with 1(2) show ?thesis by (subst (asm) decimal_digits.simps) auto
  next
    case False
    with 1(2) have "r \<in> set (decimal_digits (n div 10)) \<or> r = 48 + n mod 10"
      by (subst (asm) decimal_digits.simps) auto
    then show ?thesis using 1(1) [OF False] by auto
  qed
qed

lemma decimal_digits_value: "foldl (\<lambda>v r. 10 * v + (r - 48)) 0 (decimal_digits n) = n"
proof (induction n rule: decimal_digits.induct)
  case (1 n)
  show ?case
  proof (cases "n < 10")
    case False
    then show ?thesis using 1 [OF False] by (subst decimal_digits.simps) (simp add: mult.commute)
  qed (subst decimal_digits.simps, simp)
qed

lemma suffixed_inj:
  assumes "suffixed name m = suffixed name n"
  shows "m = n"
proof -
  have tail: "takeWhile (\<lambda>r. r \<noteq> 32) (rev (suffixed name k)) = rev (decimal_digits k)" for k
  proof -
    obtain t where t: "suffixed name k = t @ 32 # decimal_digits k"
      by (simp add: suffixed_def Let_def)
    have tw: "takeWhile (\<lambda>r. r \<noteq> 32) (xs @ 32 # ys) = xs" if "\<forall>r \<in> set xs. r \<noteq> 32" for xs ys :: str
      using that by (induction xs) auto
    have "\<forall>r \<in> set (rev (decimal_digits k)). r \<noteq> 32" using decimal_digits_set by force
    from tw [OF this, of "rev t"] show ?thesis unfolding t by simp
  qed
  have "rev (decimal_digits m) = rev (decimal_digits n)"
    unfolding tail [symmetric] assms ..
  then show ?thesis using decimal_digits_value by (metis rev_rev_ident)
qed

text \<open>
  The loop counts up until a name is free. It ends because the counters give different names, so each
  try that fails uses up one of the names taken.
\<close>

function distinguish_from :: "str \<Rightarrow> str list \<Rightarrow> nat \<Rightarrow> str" where
  "distinguish_from name taken n =
     (if suffixed name n \<notin> set taken then suffixed name n
      else distinguish_from name taken (n + 1))"
  by pat_completeness auto

definition still_taken :: "str \<Rightarrow> str list \<Rightarrow> nat \<Rightarrow> str set" where
  "still_taken name taken n = {c \<in> set taken. \<exists>m \<ge> n. c = suffixed name m}"

lemma still_taken_less:
  assumes "suffixed name n \<in> set taken"
  shows "card (still_taken name taken (n + 1)) < card (still_taken name taken n)"
proof (rule psubset_card_mono)
  show "finite (still_taken name taken n)" by (simp add: still_taken_def)
  have "suffixed name n \<in> still_taken name taken n"
    using assms by (auto simp: still_taken_def)
  moreover have "suffixed name n \<notin> still_taken name taken (n + 1)"
    by (auto simp: still_taken_def dest: suffixed_inj)
  moreover have "still_taken name taken (n + 1) \<subseteq> still_taken name taken n"
    unfolding still_taken_def using Suc_leD by fastforce
  ultimately show "still_taken name taken (n + 1) \<subset> still_taken name taken n" by blast
qed

termination distinguish_from
  by (relation "measure (\<lambda>(name, taken, n). card (still_taken name taken n))")
     (simp_all add: still_taken_less [simplified])

declare distinguish_from.simps [simp del]

definition distinguish :: "str \<Rightarrow> str list \<Rightarrow> str" where
  "distinguish name taken = (if name \<notin> set taken then name else distinguish_from name taken 2)"

lemma distinguish_from_free:
  "distinguish_from name taken n \<notin> set taken \<and>
   (\<exists>m. n \<le> m \<and> m \<le> n + card (still_taken name taken n) \<and>
      distinguish_from name taken n = suffixed name m)"
proof (induction name taken n rule: distinguish_from.induct)
  case (1 name taken n)
  show ?case
  proof (cases "suffixed name n \<in> set taken")
    case False
    then show ?thesis by (auto simp: distinguish_from.simps [of name taken n])
  next
    case True
    have eq: "distinguish_from name taken n = distinguish_from name taken (n + 1)"
      using True by (simp add: distinguish_from.simps [of name taken n])
    have less: "card (still_taken name taken (n + 1)) < card (still_taken name taken n)"
      by (rule still_taken_less [OF True])
    obtain m where "n + 1 \<le> m" "m \<le> n + 1 + card (still_taken name taken (n + 1))"
      "distinguish_from name taken (n + 1) = suffixed name m"
      "distinguish_from name taken (n + 1) \<notin> set taken"
      using 1 True by auto
    with less show ?thesis unfolding eq by (intro conjI exI [of _ m]) auto
  qed
qed

lemma decimal_digits_length: "n < 10 ^ k \<Longrightarrow> 0 < k \<Longrightarrow> length (decimal_digits n) \<le> k"
proof (induction k arbitrary: n)
  case (Suc k)
  show ?case
  proof (cases "n < 10")
    case True
    then show ?thesis by (subst decimal_digits.simps) simp
  next
    case False
    with Suc.prems have "0 < k" "n div 10 < 10 ^ k" by (cases k; simp add: less_mult_imp_div_less mult.commute)+
    with Suc.IH [of "n div 10"] False show ?thesis by (subst decimal_digits.simps) simp
  qed
qed simp

lemma trim_space_length: "length (trim_space s) \<le> length s"
  unfolding trim_space_def by (metis length_dropWhile_le length_rev order_trans)

lemma suffixed_length:
  assumes "length name \<le> maxNicknameRunes" and "m < 1000"
  shows "length (suffixed name m) \<le> maxNicknameRunes"
proof -
  have "length (decimal_digits m) \<le> 3" using decimal_digits_length [of m 3] assms(2) by simp
  then show ?thesis
    using trim_space_length [of "take (maxNicknameRunes - Suc (length (decimal_digits m))) name"] assms(1)
    by (auto simp: suffixed_def Let_def maxNicknameRunes_def)
qed

lemma distinguish_facts:
  assumes "length name \<le> maxNicknameRunes" and "length taken < 900"
  shows "distinguish name taken \<notin> set taken" and "length (distinguish name taken) \<le> maxNicknameRunes"
proof -
  have "card (still_taken name taken 2) \<le> card (set taken)"
    by (intro card_mono) (auto simp: still_taken_def)
  then have "card (still_taken name taken 2) \<le> length taken"
    using card_length [of taken] by linarith
  moreover obtain m where "m \<le> 2 + card (still_taken name taken 2)"
    "distinguish_from name taken 2 = suffixed name m" "distinguish_from name taken 2 \<notin> set taken"
    using distinguish_from_free [of name taken 2] by blast
  ultimately have m: "m < 1000" "distinguish_from name taken 2 = suffixed name m"
    "distinguish_from name taken 2 \<notin> set taken" using assms(2) by linarith+
  show "distinguish name taken \<notin> set taken" using m by (simp add: distinguish_def)
  show "length (distinguish name taken) \<le> maxNicknameRunes"
    using m suffixed_length [OF assms(1) m(1)] assms(1) by (simp add: distinguish_def)
qed

end
