(* ===== verification/Room_State.thy ===== *)
theory Room_State
  imports Wire Nickname
begin

text \<open>
  The state of a room and its small helpers (\<open>server/internal/wsapi/room.go\<close>), with the inputs of
  \<open>room_inputs.go\<close> and the lines of \<open>room_chat.go\<close>.

  A connection is a number, standing for the identity of a \<open>*session\<close>. A handler takes the room and
  returns it changed; what it does to the world outside, in order, is appended to the list
  \<open>rm_out\<close>: frames sent, sessions attached and released, calls on the hub, the bot's worker, the
  counters and the corpus log. What a handler reads from outside is the record \<open>env\<close>: the clock, the
  connections that have closed, their nicknames, the hub's drain flag, the random draws.
\<close>

type_synonym conn = nat

datatype room_mode = roomModeBot | roomModePvP

definition botPlayerID :: player where "botPlayerID = lit ''bot''"
definition maxPlayers :: nat where "maxPlayers = 4"
definition minPlayers :: nat where "minPlayers = 2"
definition seatIDs :: "player list" where
  "seatIDs = [lit ''p1'', lit ''p2'', lit ''p3'', lit ''p4'']"
definition minOpeningOutDegree :: int where "minOpeningOutDegree = 20"
definition maxSuggestions :: int where "maxSuggestions = 3"
definition chatHistoryLimit :: nat where "chatHistoryLimit = 20"
definition maxChatRunes :: nat where "maxChatRunes = 200"
definition maxWordRunes :: nat where "maxWordRunes = 64"
definition maxChatMarks :: nat where "maxChatMarks = 2"
definition defaultIdleWindow :: duration where "defaultIdleWindow = 600000000000"

text \<open>The bot's name in the source, with its diacritic.\<close>

definition botName :: str where "botName = [77, 225, 121]"

subsection \<open>Effects\<close>

datatype counter =
    gamesStarted | gamesFinished | wordsSubmitted | wordsAccepted | wordsRejected reject_reason
  | botMoves difficulty | deadEndClaims bool | eliminations wire_end | chatLines
  | joinsRefusedFull | resumesSucceeded | wordsReported

datatype effect =
    Send conn smsg
  | TrySend conn smsg
  | Attach conn player
  | Release conn
  | CancelQuickMatch conn
  | Unregister conn
  | CloseSession conn
  | HubGameStarted
  | HubGameFinished
  | ThinkBot board u32
  | Count counter
  | LogRejected reject_reason str str
  | LogReported str str
  | Evict

subsection \<open>State\<close>

record seat =
  se_id :: player
  se_nickname :: str
  se_sess :: "conn option"
  se_ready :: bool
  se_chatFrom :: nat
  se_wins :: u32
  se_graceUntil :: "instant option"
  se_heldFor :: "conn option"
  se_missedResult :: "smsg option"

record chatEntry =
  ce_seq :: nat
  ce_author :: player
  ce_name :: str
  ce_text :: str
  ce_at :: instant

text \<open>What the room asks of the wordlist besides the engine's own contract.\<close>

record room_dictionary =
  rd_game :: dictionary
  rd_Meanings :: "str \<Rightarrow> sense list"
  rd_NearMiss :: "str \<Rightarrow> str option"

record room =
  rm_code :: str
  rm_cancelled :: bool
  rm_dict :: room_dictionary
  rm_engine :: "engine option"
  rm_opening :: str
  rm_strategy :: "difficulty option"
  rm_turnLimit :: duration
  rm_graceFor :: duration
  rm_idleFor :: duration
  rm_mode :: room_mode
  rm_liveCounted :: bool
  rm_autoStart :: bool
  rm_seats :: "seat option list"
  rm_owner :: player
  rm_turnSeq :: u32
  rm_outWire :: "player \<rightharpoonup> wire_end"
  rm_chat :: "chatEntry list"
  rm_chatSeq :: nat
  rm_lobbyChanged :: bool
  rm_resumeReplays :: "nat list"
  rm_out :: "effect list"

record env =
  ev_now :: instant
  ev_closed :: "conn \<Rightarrow> bool"
  ev_nickname :: "conn \<Rightarrow> str"
  ev_draining :: bool
  ev_opening :: "str option"
  ev_lead :: "nat \<Rightarrow> nat"
  ev_unicode :: unicode

definition newRoom ::
  "room_dictionary \<Rightarrow> str \<Rightarrow> duration \<Rightarrow> duration \<Rightarrow> duration \<Rightarrow> room_mode \<Rightarrow> room" where
  "newRoom d code limit grace idle mode =
     \<lparr>rm_code = code, rm_cancelled = False, rm_dict = d, rm_engine = None, rm_opening = [],
      rm_strategy = None, rm_turnLimit = limit, rm_graceFor = grace,
      rm_idleFor = (if idle \<le> 0 then defaultIdleWindow else idle), rm_mode = mode,
      rm_liveCounted = False, rm_autoStart = False, rm_seats = replicate maxPlayers None,
      rm_owner = [], rm_turnSeq = 0, rm_outWire = Map.empty, rm_chat = [], rm_chatSeq = 0,
      rm_lobbyChanged = False, rm_resumeReplays = [], rm_out = []\<rparr>"

subsection \<open>Inputs\<close>

datatype lobbyAction = lobbyReady bool | lobbyStart | lobbyKick player | lobbyLeave

datatype room_input =
    createInput conn bool
  | startBotInput conn difficulty
  | joinInput conn
  | submitInput conn player str u32
  | botMoveInput "str option" u32
  | lobbyInput conn player lobbyAction
  | chatInput conn player str
  | resignInput conn player
  | claimDeadEndInput conn player
  | reportWordInput conn str
  | disconnectInput player conn
  | resumeInput player conn conn

subsection \<open>Seats\<close>

definition emit :: "effect \<Rightarrow> room \<Rightarrow> room" where
  "emit x r = r\<lparr>rm_out := rm_out r @ [x]\<rparr>"

definition emits :: "effect list \<Rightarrow> room \<Rightarrow> room" where
  "emits xs r = r\<lparr>rm_out := rm_out r @ xs\<rparr>"

definition reply :: "conn \<Rightarrow> errCode \<Rightarrow> room \<Rightarrow> room" where
  "reply c code r = emit (Send c (errorMsg code)) r"

text \<open>A pointer to a seat is its index; the seats in order, the empty ones left out.\<close>

definition seated :: "room \<Rightarrow> seat list" where
  "seated r = List.map_filter (\<lambda>s. s) (rm_seats r)"

definition connected :: "room \<Rightarrow> (conn \<times> seat) list" where
  "connected r = List.map_filter (\<lambda>s. map_option (\<lambda>c. (c, s)) (se_sess s)) (seated r)"

fun find_seat :: "nat \<Rightarrow> seat option list \<Rightarrow> player \<Rightarrow> nat option" where
  "find_seat i [] p = None"
| "find_seat i (None # ss) p = find_seat (i + 1) ss p"
| "find_seat i (Some s # ss) p = (if se_id s = p then Some i else find_seat (i + 1) ss p)"

definition seatOf :: "room \<Rightarrow> player \<Rightarrow> nat option" where
  "seatOf r p = find_seat 0 (rm_seats r) p"

definition seat_at :: "room \<Rightarrow> nat \<Rightarrow> seat" where
  "seat_at r i = the (rm_seats r ! i)"

definition upd_seat :: "nat \<Rightarrow> (seat \<Rightarrow> seat) \<Rightarrow> room \<Rightarrow> room" where
  "upd_seat i f r = r\<lparr>rm_seats := (rm_seats r)[i := map_option f (rm_seats r ! i)]\<rparr>"

definition upd_seats :: "(seat \<Rightarrow> seat) \<Rightarrow> room \<Rightarrow> room" where
  "upd_seats f r = r\<lparr>rm_seats := map (map_option f) (rm_seats r)\<rparr>"

definition occupies :: "room \<Rightarrow> conn \<Rightarrow> player \<Rightarrow> bool" where
  "occupies r c p =
     (case seatOf r p of None \<Rightarrow> False | Some i \<Rightarrow> se_sess (seat_at r i) = Some c)"

definition inLobby :: "room \<Rightarrow> bool" where
  "inLobby r = (case rm_engine r of None \<Rightarrow> True | Some e \<Rightarrow> over e)"

definition seatedCount :: "room \<Rightarrow> nat" where
  "seatedCount r = length (seated r)"

definition occupied :: "room \<Rightarrow> bool" where
  "occupied r \<longleftrightarrow> 0 < seatedCount r"

fun free_from :: "nat \<Rightarrow> seat option list \<Rightarrow> nat option" where
  "free_from i [] = None"
| "free_from i (None # ss) = Some i"
| "free_from i (Some s # ss) = free_from (i + 1) ss"

text \<open>The index a joiner would take; \<open>-1\<close> in the source is \<open>None\<close>.\<close>

definition freeSeat :: "room \<Rightarrow> nat option" where
  "freeSeat r = free_from 0 (rm_seats r)"

definition allConnected :: "room \<Rightarrow> bool" where
  "allConnected r = list_all (\<lambda>s. se_sess s \<noteq> None) (seated r)"

definition broadcastError :: "errCode \<Rightarrow> room \<Rightarrow> room" where
  "broadcastError code r = emits (map (\<lambda>(c, s). Send c (errorMsg code)) (connected r)) r"

definition takeSeat :: "nat \<Rightarrow> str \<Rightarrow> conn \<Rightarrow> room \<Rightarrow> room" where
  "takeSeat i nickname c r =
     (let s = \<lparr>se_id = seatIDs ! i, se_nickname = nickname, se_sess = Some c, se_ready = False,
               se_chatFrom = rm_chatSeq r, se_wins = 0, se_graceUntil = None, se_heldFor = None,
               se_missedResult = None\<rparr>
      in emits [Attach c (se_id s), CancelQuickMatch c] (r\<lparr>rm_seats := (rm_seats r)[i := Some s]\<rparr>))"

definition stopCountingLive :: "room \<Rightarrow> room" where
  "stopCountingLive r =
     (if rm_liveCounted r then emit HubGameFinished (r\<lparr>rm_liveCounted := False\<rparr>) else r)"

definition guestsReady :: "room \<Rightarrow> bool" where
  "guestsReady r = list_all (\<lambda>s. se_id s = rm_owner r \<or> se_ready s) (seated r)"

definition takenNicknames :: "room \<Rightarrow> str list" where
  "takenNicknames r = map se_nickname (seated r)"

definition canStart :: "room \<Rightarrow> bool" where
  "canStart r =
     (if rm_strategy r \<noteq> None \<or> \<not> inLobby r then False
      else minPlayers \<le> seatedCount r \<and> allConnected r \<and> guestsReady r)"

subsection \<open>The lobby as it is shown\<close>

definition playerSlots :: "room \<Rightarrow> player \<Rightarrow> player_slot list" where
  "playerSlots r me =
     map (\<lambda>s. \<lparr>sl_playerId = se_id s, sl_name = se_nickname s, sl_isMe = (se_id s = me),
                sl_isOwner = (se_id s = rm_owner r), sl_ready = se_ready s,
                sl_connected = (se_sess s \<noteq> None), sl_wins = se_wins s\<rparr>) (seated r)"

definition broadcastRoomState :: "room \<Rightarrow> room" where
  "broadcastRoomState r =
     emits (map (\<lambda>(c, s). Send c (RoomState
       \<lparr>rs_roomCode = rm_code r, rs_canStart = canStart r, rs_players = playerSlots r (se_id s),
        rs_maxPlayers = maxPlayers, rs_minPlayers = minPlayers,
        rs_graceMs = of_int (milliseconds (rm_graceFor r))\<rparr>)) (connected r)) r"

subsection \<open>Chat\<close>

definition chatMessageFor :: "chatEntry \<Rightarrow> player \<Rightarrow> chat_message" where
  "chatMessageFor entry p =
     \<lparr>cm_fromMe = (ce_author entry \<noteq> [] \<and> ce_author entry = p), cm_playerId = ce_author entry,
      cm_author = ce_name entry, cm_text = ce_text entry, cm_sentMs = unix_milli (ce_at entry)\<rparr>"

text \<open>Called with a pointer that may be nil: an empty or disconnected seat gets nothing.\<close>

definition sendChatHistory :: "seat option \<Rightarrow> room \<Rightarrow> room" where
  "sendChatHistory so r =
     (case so of
        None \<Rightarrow> r
      | Some s \<Rightarrow>
          (case se_sess s of
             None \<Rightarrow> r
           | Some c \<Rightarrow>
               if rm_strategy r \<noteq> None then r
               else emit (Send c (ChatHistory (map (\<lambda>entry. chatMessageFor entry (se_id s))
                      (filter (\<lambda>entry. \<not> ce_seq entry \<le> se_chatFrom s) (rm_chat r))))) r))"

definition handleChat :: "env \<Rightarrow> conn \<Rightarrow> player \<Rightarrow> str \<Rightarrow> room \<Rightarrow> room" where
  "handleChat ev c p raw r =
     (if \<not> occupies r c p then reply c codeNotYourSeat r
      else if rm_strategy r \<noteq> None then reply c codeNotInARoom r
      else let text = sanitizeText (ev_unicode ev) raw maxChatRunes maxChatMarks
           in if text = [] then r
              else let from_seat = seat_at r (the (seatOf r p));
                       entry = \<lparr>ce_seq = rm_chatSeq r + 1, ce_author = se_id from_seat,
                                ce_name = se_nickname from_seat, ce_text = text, ce_at = ev_now ev\<rparr>;
                       lines = rm_chat r @ [entry];
                       lines = (if length lines > chatHistoryLimit
                              then drop (length lines - chatHistoryLimit) lines else lines);
                       r = r\<lparr>rm_chatSeq := rm_chatSeq r + 1, rm_chat := lines\<rparr>
                   in emits (Count chatLines #
                        map (\<lambda>(d, s). TrySend d (ChatMessage (chatMessageFor entry (se_id s))))
                          (connected r)) r)"

end
