(* ===== verification/Room_Game.thy ===== *)
theory Room_Game
  imports Room_State
begin

text \<open>
  \<open>server/internal/wsapi/room_game.go\<close>: starting a game, a submitted word, the bot's move, a
  resignation, a claimed dead end, and what the room tells each seat about an elimination and about the
  end of a game. The handlers that may run with no engine have the source's guards; the helpers they
  call take the engine they work on.
\<close>

subsection \<open>Rendering a position\<close>

definition scoreRows ::
  "room \<Rightarrow> player list \<Rightarrow> game_state \<Rightarrow> player \<Rightarrow> (player \<rightharpoonup> nat) \<Rightarrow> player_score list" where
  "scoreRows r order st me ranks =
     map (\<lambda>p. let so = map_option (seat_at r) (seatOf r p)
              in \<lparr>ps_playerId = p, ps_isMe = (p = me),
                  ps_score = of_int (case gs_scores st p of None \<Rightarrow> 0 | Some v \<Rightarrow> v),
                  ps_eliminated = (gs_alive st p \<noteq> Some True),
                  ps_connected = (p = botPlayerID \<or>
                     (case so of None \<Rightarrow> False | Some s \<Rightarrow> se_sess s \<noteq> None)),
                  ps_rank = of_nat (case ranks p of None \<Rightarrow> 0 | Some k \<Rightarrow> k),
                  ps_name = (case so of None \<Rightarrow> [] | Some s \<Rightarrow> se_nickname s)\<rparr>) order"

definition game_started_for :: "room \<Rightarrow> engine \<Rightarrow> game_state \<Rightarrow> player \<Rightarrow> game_started" where
  "game_started_for r e st me =
     \<lparr>sg_openingWord = rm_opening r, sg_openingMeanings = rd_Meanings (rm_dict r) (rm_opening r),
      sg_currentSyllable = gs_current st, sg_myTurn = (gs_turn st = me),
      sg_deadlineMs = unix_milli (gs_deadline st), sg_turnSeq = rm_turnSeq r,
      sg_turnLimitMs = of_int (milliseconds (rm_turnLimit r)),
      sg_players = scoreRows r (players e) st me Map.empty, sg_turnPlayerId = gs_turn st\<rparr>"

definition sendGameStarted :: "engine \<Rightarrow> game_state \<Rightarrow> conn \<times> seat \<Rightarrow> room \<Rightarrow> effect" where
  "sendGameStarted e st cs r = Send (fst cs) (GameStarted (game_started_for r e st (se_id (snd cs))))"

definition moveMeanings :: "room \<Rightarrow> move option \<Rightarrow> sense list" where
  "moveMeanings r mo = (case mo of None \<Rightarrow> [] | Some m \<Rightarrow> rd_Meanings (rm_dict r) (mv_word m))"

definition turn_update_for ::
  "room \<Rightarrow> engine \<Rightarrow> game_state \<Rightarrow> move option \<Rightarrow> sense list \<Rightarrow> player \<Rightarrow> turn_update" where
  "turn_update_for r e st mo senses me =
     \<lparr>tu_currentSyllable = gs_current st, tu_myTurn = (gs_turn st = me),
      tu_deadlineMs = unix_milli (gs_deadline st), tu_turnSeq = rm_turnSeq r,
      tu_chainLength = of_nat (gs_chainLength st),
      tu_players = scoreRows r (players e) st me Map.empty, tu_turnPlayerId = gs_turn st,
      tu_played = map_option (\<lambda>m. PlayedWord m (mv_player m = me) senses) mo\<rparr>"

definition sendTurnUpdate ::
  "engine \<Rightarrow> game_state \<Rightarrow> move option \<Rightarrow> sense list \<Rightarrow> conn \<times> seat \<Rightarrow> room \<Rightarrow> effect" where
  "sendTurnUpdate e st mo senses cs r =
     Send (fst cs) (TurnUpdate (turn_update_for r e st mo senses (se_id (snd cs))))"

definition broadcastTurn :: "engine \<Rightarrow> move option \<Rightarrow> room \<Rightarrow> room" where
  "broadcastTurn e mo r =
     (let st = Snapshot e; senses = moveMeanings r mo
      in emits (map (\<lambda>cs. sendTurnUpdate e st mo senses cs r) (connected r)) r)"

subsection \<open>Eliminations and the end of a game\<close>

definition wireEndReason :: "room \<Rightarrow> engine \<Rightarrow> player \<Rightarrow> wire_end" where
  "wireEndReason r e p =
     (case rm_outWire r p of Some code \<Rightarrow> code | None \<Rightarrow> EndReason (OutReason e p))"

definition broadcastElimination :: "engine \<Rightarrow> player \<Rightarrow> str list \<Rightarrow> room \<Rightarrow> room" where
  "broadcastElimination e p suggestions r =
     (let name = (case seatOf r p of None \<Rightarrow> [] | Some i \<Rightarrow> se_nickname (seat_at r i));
          reason = wireEndReason r e p
      in emits (Count (eliminations reason) #
           map (\<lambda>(c, s). Send c (PlayerEliminated
             \<lparr>pe_playerId = p, pe_name = name, pe_isMe = (se_id s = p), pe_reason = reason,
              pe_suggestions = (if se_id s = p then suggestions else [])\<rparr>)) (connected r)) r)"

definition game_over_for ::
  "room \<Rightarrow> engine \<Rightarrow> game_state \<Rightarrow> wire_end \<Rightarrow> player \<Rightarrow> smsg" where
  "game_over_for r e st reason me =
     GameOver \<lparr>go_iWon = (gs_winner st = me), go_reason = reason,
       go_chainLength = of_nat (gs_chainLength st),
       go_standings = scoreRows r (map st_player (gs_standings st)) st me
         (map_of (rev (map (\<lambda>x. (st_player x, st_rank x)) (gs_standings st))))\<rparr>"

text \<open>One seat hears the result, or keeps it for the connection that comes back.\<close>

definition give_result :: "(player \<Rightarrow> smsg) \<Rightarrow> nat \<Rightarrow> room \<Rightarrow> room" where
  "give_result msg i r =
     (case rm_seats r ! i of
        None \<Rightarrow> r
      | Some s \<Rightarrow>
          if se_id s = botPlayerID then r
          else case se_sess s of
            None \<Rightarrow> upd_seat i (\<lambda>s. s\<lparr>se_missedResult := Some (msg (se_id s))\<rparr>) r
          | Some c \<Rightarrow> emit (Send c (msg (se_id s))) (upd_seat i (\<lambda>s. s\<lparr>se_missedResult := None\<rparr>) r))"

definition credit_win :: "player \<Rightarrow> room \<Rightarrow> room" where
  "credit_win p r =
     (case seatOf r p of None \<Rightarrow> r | Some i \<Rightarrow> upd_seat i (\<lambda>s. s\<lparr>se_wins := se_wins s + 1\<rparr>) r)"

definition broadcastGameOver :: "engine \<Rightarrow> game_state \<Rightarrow> room \<Rightarrow> room" where
  "broadcastGameOver e st r =
     (let r = stopCountingLive (emit (Count gamesFinished) r);
          reason = (if gs_eliminated st \<noteq> [] then wireEndReason r e (last (gs_eliminated st))
                    else GAME_END_REASON_UNSPECIFIED);
          r = credit_win (gs_winner st) r;
          r = fold (give_result (game_over_for r e st reason)) [0..<length (rm_seats r)] r
      in r\<lparr>rm_lobbyChanged := True\<rparr>)"

text \<open>What the game looked like before an input: how many were out, and who was to act.\<close>

definition mark :: "room \<Rightarrow> nat \<times> player" where
  "mark r = (case rm_engine r of None \<Rightarrow> (0, []) | Some e \<Rightarrow> (EliminatedCount e, Turn e))"

definition applyEliminations :: "nat \<times> player \<Rightarrow> room \<Rightarrow> room" where
  "applyEliminations before r =
     (case rm_engine r of
        None \<Rightarrow> r
      | Some e \<Rightarrow>
          (let st = Snapshot e
           in if length (gs_eliminated st) = fst before then r
              else let suggestions = Suggestions e maxSuggestions;
                       r = fold (\<lambda>p. broadcastElimination e p suggestions)
                             (drop (fst before) (gs_eliminated st)) r
                   in if over e then broadcastGameOver e st r
                      else let r = (if gs_turn st \<noteq> snd before
                                    then r\<lparr>rm_turnSeq := rm_turnSeq r + 1\<rparr> else r)
                           in broadcastTurn e None r))"

subsection \<open>Starting a game\<close>

definition maybeScheduleBot :: "engine \<Rightarrow> room \<Rightarrow> room" where
  "maybeScheduleBot e r =
     (if rm_strategy r = None \<or> over e \<or> Turn e \<noteq> botPlayerID then r
      else emit (ThinkBot (freezeBoard e) (rm_turnSeq r)) r)"

definition turn_order :: "env \<Rightarrow> room \<Rightarrow> player list" where
  "turn_order ev r =
     (let ids = map se_id (seated r)
      in if rm_strategy r = None
         then let lead = ev_lead ev (length ids) in drop lead ids @ take lead ids
         else ids)"

text \<open>The flag is whether a game began; on an error the room is as it was.\<close>

definition beginGame :: "env \<Rightarrow> room \<Rightarrow> bool \<times> room" where
  "beginGame ev r =
     (case ev_opening ev of
        None \<Rightarrow> (False, r)
      | Some opening \<Rightarrow>
          (case New (Some (rd_game (rm_dict r))) (turn_order ev r) opening (rm_turnLimit r) (ev_now ev) of
             Inl _ \<Rightarrow> (False, r)
           | Inr e \<Rightarrow>
               (let r = upd_seats (\<lambda>s. s\<lparr>se_ready := False, se_missedResult := None\<rparr>)
                      (r\<lparr>rm_engine := Some e, rm_opening := opening, rm_outWire := Map.empty,
                         rm_turnSeq := rm_turnSeq r + 1\<rparr>);
                    r = (emits [Count gamesStarted, HubGameStarted] r)\<lparr>rm_liveCounted := True\<rparr>;
                    st = Snapshot e;
                    r = emits (map (\<lambda>cs. sendGameStarted e st cs r) (connected r)) r
                in (True, maybeScheduleBot e r))))"

definition handleStartBot :: "env \<Rightarrow> conn \<Rightarrow> difficulty \<Rightarrow> room \<Rightarrow> room" where
  "handleStartBot ev c d r =
     (let r = takeSeat 0 (ev_nickname ev c) c (r\<lparr>rm_strategy := Some d\<rparr>);
          bot = \<lparr>se_id = botPlayerID, se_nickname = botName, se_sess = None, se_ready = False,
                 se_chatFrom = 0, se_wins = 0, se_graceUntil = None, se_heldFor = None,
                 se_missedResult = None\<rparr>;
          r = r\<lparr>rm_seats := (rm_seats r)[1 := Some bot], rm_owner := seatIDs ! 0\<rparr>
      in if ev_closed ev c then r\<lparr>rm_cancelled := True\<rparr>
         else let (ok, r) = beginGame ev r
              in if ok then r else (reply c codeGameStartFailed r)\<lparr>rm_cancelled := True\<rparr>)"

subsection \<open>Words\<close>

definition nearMissFor :: "env \<Rightarrow> engine \<Rightarrow> reject_reason \<Rightarrow> str \<Rightarrow> room \<Rightarrow> str" where
  "nearMissFor ev e reason raw r =
     (if reason \<noteq> ReasonNotInDictionary then []
      else case Normalize (ev_unicode ev) raw of
        None \<Rightarrow> []
      | Some (normalized, _) \<Rightarrow>
          (case rd_NearMiss (rm_dict r) normalized of
             None \<Rightarrow> []
           | Some suggestion \<Rightarrow>
               if FirstSyllable (rd_game (rm_dict r)) suggestion \<noteq> Some (current e) \<or> Used e suggestion
               then [] else suggestion))"

definition recordRejection :: "env \<Rightarrow> engine \<Rightarrow> reject_reason \<Rightarrow> str \<Rightarrow> room \<Rightarrow> room" where
  "recordRejection ev e reason raw r =
     (let word = (case Normalize (ev_unicode ev)
                        (sanitizeText (ev_unicode ev) raw maxWordRunes maxNicknameMarks) of
                    None \<Rightarrow> [] | Some (w, _) \<Rightarrow> w);
          word = (if length word > maxWordRunes then take maxWordRunes word else word)
      in emits [Count (wordsRejected reason), LogRejected reason word (current e)] r)"

definition handleSubmit :: "env \<Rightarrow> conn \<Rightarrow> player \<Rightarrow> str \<Rightarrow> u32 \<Rightarrow> room \<Rightarrow> room" where
  "handleSubmit ev c p raw seq r =
     (if \<not> occupies r c p then reply c codeNotYourSeat r
      else case rm_engine r of
        None \<Rightarrow> reply c codeGameNotStarted r
      | Some e \<Rightarrow>
          (let r = emit (Count wordsSubmitted) r
           in if seq \<noteq> rm_turnSeq r
              then emit (Send c (moveRejectedMsg REJECT_REASON_NOT_YOUR_TURN raw (rm_turnSeq r) []))
                     (recordRejection ev e ReasonNotYourTurn raw r)
              else let word = sanitizeText (ev_unicode ev) raw maxWordRunes maxNicknameMarks;
                       before = mark r;
                       (e', mo, reason) = Submit (ev_unicode ev) p word (ev_now ev) e;
                       r = r\<lparr>rm_engine := Some e'\<rparr>
                   in if reason \<noteq> ReasonNone
                      then let r = recordRejection ev e' reason word r;
                               r = emit (Send c (moveRejectedMsg (RejectReason reason) word seq
                                     (nearMissFor ev e' reason word r))) r
                           in applyEliminations before r
                      else let r = emit (Count wordsAccepted) r;
                               r = r\<lparr>rm_turnSeq := rm_turnSeq r + 1\<rparr>;
                               r = broadcastTurn e' mo r
                           in maybeScheduleBot e' r))"

definition handleReportWord :: "conn \<Rightarrow> str \<Rightarrow> room \<Rightarrow> room" where
  "handleReportWord c word r =
     (let link = (case rm_engine r of None \<Rightarrow> [] | Some e \<Rightarrow> current e)
      in emits [Count wordsReported, LogReported word link, Send c (wordReportedMsg word)] r)"

subsection \<open>Giving up\<close>

definition handleResign :: "env \<Rightarrow> conn \<Rightarrow> player \<Rightarrow> room \<Rightarrow> room" where
  "handleResign ev c p r =
     (if \<not> occupies r c p then reply c codeNotYourSeat r
      else case rm_engine r of
        None \<Rightarrow> reply c codeGameNotStarted r
      | Some e \<Rightarrow>
          if over e then r
          else if Turn e \<noteq> p then reply c codeNotYourTurn r
          else let before = mark r; (changed, e') = Resign p (ev_now ev) e;
                   r = r\<lparr>rm_engine := Some e'\<rparr>
               in if changed then applyEliminations before r else r)"

definition handleClaimDeadEnd :: "env \<Rightarrow> conn \<Rightarrow> player \<Rightarrow> room \<Rightarrow> room" where
  "handleClaimDeadEnd ev c p r =
     (if \<not> occupies r c p then reply c codeNotYourSeat r
      else case rm_engine r of
        None \<Rightarrow> reply c codeGameNotStarted r
      | Some e \<Rightarrow>
          if over e then r
          else if Turn e \<noteq> p then reply c codeNotYourTurn r
          else if HasLegalMove e then reply c codeNotADeadEnd (emit (Count (deadEndClaims False)) r)
          else let r = emit (Count (deadEndClaims True)) r; before = mark r;
                   (changed, e') = NoMove (ev_now ev) e; r = r\<lparr>rm_engine := Some e'\<rparr>
               in if changed then applyEliminations before r else r)"

subsection \<open>The bot's move\<close>

definition handleBotMove :: "env \<Rightarrow> str option \<Rightarrow> u32 \<Rightarrow> room \<Rightarrow> room" where
  "handleBotMove ev chosen seq r =
     (case rm_engine r of
        None \<Rightarrow> r
      | Some e \<Rightarrow>
          if over e then r
          else if seq \<noteq> rm_turnSeq r \<or> Turn e \<noteq> botPlayerID then r
          else let r = (case rm_strategy r of None \<Rightarrow> r | Some d \<Rightarrow> emit (Count (botMoves d)) r);
                   before = mark r
               in case chosen of
                 None \<Rightarrow>
                   (let (changed, e') = NoMove (ev_now ev) e;
                        e' = (if changed then e' else snd (Resign botPlayerID (ev_now ev) e'))
                    in applyEliminations before (r\<lparr>rm_engine := Some e'\<rparr>))
               | Some word \<Rightarrow>
                   (let (e', mo, reason) = Submit (ev_unicode ev) botPlayerID word (ev_now ev) e
                    in if reason \<noteq> ReasonNone
                       then applyEliminations before
                              (r\<lparr>rm_engine := Some (snd (Resign botPlayerID (ev_now ev) e'))\<rparr>)
                       else broadcastTurn e' mo
                              (r\<lparr>rm_engine := Some e', rm_turnSeq := rm_turnSeq r + 1\<rparr>)))"

end
