(* ===== verification/Room_Lobby.thy ===== *)
theory Room_Lobby
  imports Room_Game
begin

text \<open>
  \<open>server/internal/wsapi/room_lobby.go\<close> and \<open>room_presence.go\<close>: who is in the room, who owns it, the
  reconnect windows, and how a seat is given back.
\<close>

subsection \<open>Freeing a seat\<close>

text \<open>The first seat still taken gets the room, and is never ready in it.\<close>

fun promote_from :: "nat \<Rightarrow> seat option list \<Rightarrow> nat option" where
  "promote_from i [] = None"
| "promote_from i (None # ss) = promote_from (i + 1) ss"
| "promote_from i (Some s # ss) = Some i"

definition promote :: "room \<Rightarrow> room" where
  "promote r =
     (case promote_from 0 (rm_seats r) of
        Some i \<Rightarrow> upd_seat i (\<lambda>s. s\<lparr>se_ready := False\<rparr>) (r\<lparr>rm_owner := se_id (seat_at r i)\<rparr>)
      | None \<Rightarrow> r\<lparr>rm_owner := []\<rparr>)"

definition scrub :: "player \<Rightarrow> chatEntry \<Rightarrow> chatEntry" where
  "scrub p entry = (if ce_author entry = p then entry\<lparr>ce_author := [], ce_name := []\<rparr> else entry)"

definition vacate :: "nat \<Rightarrow> room \<Rightarrow> room" where
  "vacate i r =
     (case rm_seats r ! i of
        None \<Rightarrow> r
      | Some s \<Rightarrow>
          (let r = (case se_sess s of None \<Rightarrow> r | Some c \<Rightarrow> emit (Release c) r);
               r = r\<lparr>rm_seats := (rm_seats r)[i := None]\<rparr>;
               scrubbed = list_ex (\<lambda>entry. ce_author entry = se_id s) (rm_chat r);
               r = r\<lparr>rm_chat := map (scrub (se_id s)) (rm_chat r)\<rparr>;
               r = (if scrubbed then fold sendChatHistory (rm_seats r) r else r)
           in if rm_owner r = se_id s then promote r else r))"

subsection \<open>Reconnect windows\<close>

definition holdSeat :: "env \<Rightarrow> nat \<Rightarrow> room \<Rightarrow> room" where
  "holdSeat ev i r =
     (upd_seat i (\<lambda>s. s\<lparr>se_heldFor := se_sess s, se_sess := None,
        se_graceUntil := Some (ev_now ev + rm_graceFor r)\<rparr>) r)\<lparr>rm_lobbyChanged := True\<rparr>"

definition handleDisconnect :: "env \<Rightarrow> player \<Rightarrow> conn \<Rightarrow> room \<Rightarrow> room" where
  "handleDisconnect ev p c r =
     (case seatOf r p of
        None \<Rightarrow> r
      | Some i \<Rightarrow> if se_sess (seat_at r i) \<noteq> Some c then r else holdSeat ev i r)"

text \<open>The earliest window still open.\<close>

definition waiting_until :: "seat \<Rightarrow> instant option" where
  "waiting_until s = (if se_sess s \<noteq> None then None else se_graceUntil s)"

definition nextGraceExpiry :: "room \<Rightarrow> instant option" where
  "nextGraceExpiry r =
     foldl (\<lambda>next s. case waiting_until s of
              None \<Rightarrow> next
            | Some t \<Rightarrow> (case next of None \<Rightarrow> Some t | Some n \<Rightarrow> if t < n then Some t else Some n))
       None (seated r)"

definition eliminateAbsent :: "env \<Rightarrow> player \<Rightarrow> room \<Rightarrow> room" where
  "eliminateAbsent ev p r =
     (case rm_engine r of
        None \<Rightarrow> r
      | Some e \<Rightarrow>
          if over e \<or> \<not> Alive e p then r
          else r\<lparr>rm_outWire := (rm_outWire r)(p \<mapsto> GAME_END_REASON_OPPONENT_LEFT),
                 rm_engine := Some (snd (Resign p (ev_now ev) e))\<rparr>)"

definition expired_seats :: "env \<Rightarrow> room \<Rightarrow> nat list" where
  "expired_seats ev r =
     filter (\<lambda>i. case rm_seats r ! i of
         None \<Rightarrow> False
       | Some s \<Rightarrow> (case waiting_until s of None \<Rightarrow> False | Some t \<Rightarrow> \<not> ev_now ev < t))
       [0..<length (rm_seats r)]"

definition handleGraceExpiry :: "env \<Rightarrow> room \<Rightarrow> room" where
  "handleGraceExpiry ev r =
     (let expired = expired_seats ev r
      in if expired = [] then r
         else let before = mark r;
                  r = fold (\<lambda>i. eliminateAbsent ev (se_id (seat_at r i))) expired r;
                  r = applyEliminations before r;
                  r = fold vacate expired r
              in r\<lparr>rm_lobbyChanged := True\<rparr>)"

definition handleResume :: "env \<Rightarrow> player \<Rightarrow> conn \<Rightarrow> conn \<Rightarrow> room \<Rightarrow> room" where
  "handleResume ev p c prior r =
     (case seatOf r p of
        None \<Rightarrow> reply c codeSessionNotResumable r
      | Some i \<Rightarrow>
          (let s = seat_at r i
           in if se_sess s \<noteq> Some prior \<and> (se_sess s \<noteq> None \<or> se_heldFor s \<noteq> Some prior)
              then reply c codeSessionNotResumable r
              else let r = emits [Count resumesSucceeded, Attach c p, CancelQuickMatch c,
                                  Unregister prior, CloseSession prior] r;
                       r = upd_seat i (\<lambda>s. s\<lparr>se_sess := Some c, se_heldFor := None,
                             se_graceUntil := None\<rparr>) r;
                       r = r\<lparr>rm_lobbyChanged := True\<rparr>
                   in if ev_closed ev c then holdSeat ev i r
                      else let r = sendChatHistory (rm_seats r ! i) r
                           in if inLobby r
                              then if se_missedResult (seat_at r i) \<noteq> None
                                   then r\<lparr>rm_resumeReplays := rm_resumeReplays r @ [i]\<rparr> else r
                              else case rm_engine r of
                                None \<Rightarrow> r
                              | Some e \<Rightarrow>
                                  (let st = Snapshot e; cs = (c, seat_at r i);
                                       r = emit (sendGameStarted e st cs r) r
                                   in case LastMove e of
                                        None \<Rightarrow> r
                                      | Some m \<Rightarrow>
                                          emit (sendTurnUpdate e st (Some m) (moveMeanings r (Some m)) cs r) r)))"

definition flush_one :: "nat \<Rightarrow> room \<Rightarrow> room" where
  "flush_one i r =
     (case rm_seats r ! i of
        None \<Rightarrow> r
      | Some s \<Rightarrow>
          (case (se_sess s, se_missedResult s) of
             (Some c, Some msg) \<Rightarrow>
               upd_seat i (\<lambda>s. s\<lparr>se_missedResult := None\<rparr>) (emit (Send c msg) r)
           | _ \<Rightarrow> r))"

definition flushResumeReplays :: "room \<Rightarrow> room" where
  "flushResumeReplays r = (fold flush_one (rm_resumeReplays r) r)\<lparr>rm_resumeReplays := []\<rparr>"

definition detachAll :: "room \<Rightarrow> room" where
  "detachAll r = emits (map (\<lambda>(c, s). Release c) (connected r)) r"

subsection \<open>Coming in\<close>

definition handleCreate :: "env \<Rightarrow> conn \<Rightarrow> bool \<Rightarrow> room \<Rightarrow> room" where
  "handleCreate ev c auto r =
     (let r = takeSeat 0 (ev_nickname ev c) c r;
          r = r\<lparr>rm_owner := seatIDs ! 0, rm_autoStart := auto, rm_lobbyChanged := True\<rparr>
      in if ev_closed ev c then holdSeat ev 0 r else sendChatHistory (rm_seats r ! 0) r)"

definition handleJoin :: "env \<Rightarrow> conn \<Rightarrow> room \<Rightarrow> room" where
  "handleJoin ev c r =
     (let auto = rm_autoStart r; r = r\<lparr>rm_autoStart := False\<rparr>
      in case (if occupied r then freeSeat r else None) of
           None \<Rightarrow> reply c codeRoomFull (emit (Count joinsRefusedFull) r)
         | Some free \<Rightarrow>
             if \<not> inLobby r then reply c codeGameInProgress r
             else if c \<in> fst ` set (connected r) then reply c codeCannotJoinOwnRoom r
             else let r = takeSeat free (distinguish (ev_nickname ev c) (takenNicknames r)) c r;
                      r = r\<lparr>rm_lobbyChanged := True\<rparr>
                  in if ev_closed ev c then holdSeat ev free r
                     else let r = sendChatHistory (rm_seats r ! free) r
                          in if auto \<and> minPlayers \<le> seatedCount r \<and> allConnected r
                             then if ev_draining ev then broadcastError codeServerRestarting r
                                  else let r = broadcastRoomState (r\<lparr>rm_lobbyChanged := False\<rparr>);
                                           (ok, r) = beginGame ev r
                                       in if ok then r else broadcastError codeGameStartFailed r
                             else r)"

subsection \<open>Lobby actions\<close>

definition lobby_ready :: "conn \<Rightarrow> nat \<Rightarrow> bool \<Rightarrow> bool \<Rightarrow> room \<Rightarrow> room" where
  "lobby_ready c mine isOwner ready r =
     (if isOwner then reply c codeOwnerNeedsNoReady r
      else (upd_seat mine (\<lambda>s. s\<lparr>se_ready := ready\<rparr>) r)\<lparr>rm_lobbyChanged := True\<rparr>)"

definition lobby_start :: "env \<Rightarrow> conn \<Rightarrow> bool \<Rightarrow> room \<Rightarrow> room" where
  "lobby_start ev c isOwner r =
     (if \<not> isOwner then reply c codeNotTheOwner r
      else if ev_draining ev then reply c codeServerRestarting r
      else if seatedCount r < minPlayers then reply c codeNeedMorePlayers r
      else if \<not> allConnected r then reply c codePlayerOffline r
      else if \<not> guestsReady r then reply c codeNotEveryoneReady r
      else let (ok, r) = beginGame ev r
           in if ok then r else broadcastError codeGameStartFailed r)"

definition lobby_kick :: "conn \<Rightarrow> nat \<Rightarrow> bool \<Rightarrow> player \<Rightarrow> room \<Rightarrow> room" where
  "lobby_kick c mine isOwner victim r =
     (if \<not> isOwner then reply c codeNotTheOwner r
      else case seatOf r victim of
        None \<Rightarrow> reply c codeNoOneToKick r
      | Some t \<Rightarrow>
          if t = mine then reply c codeCannotKickSelf r
          else if se_ready (seat_at r t) then reply c codePlayerIsReady r
          else let kicked = se_sess (seat_at r t); r = vacate t r;
                   r = (case kicked of None \<Rightarrow> r | Some k \<Rightarrow> reply k codeKicked r)
               in r\<lparr>rm_lobbyChanged := True\<rparr>)"

definition lobby_leave :: "env \<Rightarrow> conn \<Rightarrow> nat \<Rightarrow> room \<Rightarrow> room" where
  "lobby_leave ev c mine r =
     (if inLobby r
      then if se_ready (seat_at r mine) then reply c codeMustUnreadyFirst r
           else (vacate mine r)\<lparr>rm_lobbyChanged := True\<rparr>
      else let before = mark r;
               r = eliminateAbsent ev (se_id (seat_at r mine)) r;
               r = applyEliminations before r
           in (vacate mine r)\<lparr>rm_lobbyChanged := True\<rparr>)"

definition handleLobby :: "env \<Rightarrow> conn \<Rightarrow> player \<Rightarrow> lobbyAction \<Rightarrow> room \<Rightarrow> room" where
  "handleLobby ev c p act r =
     (if \<not> occupies r c p then reply c codeNotYourSeat r
      else if rm_strategy r \<noteq> None then reply c codeNotInARoom r
      else if \<not> inLobby r \<and> act \<noteq> lobbyLeave then reply c codeGameInProgress r
      else let mine = the (seatOf r p); isOwner = (p = rm_owner r)
           in case act of
                lobbyReady ready \<Rightarrow> lobby_ready c mine isOwner ready r
              | lobbyStart \<Rightarrow> lobby_start ev c isOwner r
              | lobbyKick victim \<Rightarrow> lobby_kick c mine isOwner victim r
              | lobbyLeave \<Rightarrow> lobby_leave ev c mine r)"

end
