(* ===== verification/Room_Run.thy ===== *)
theory Room_Run
  imports Room_Lobby
begin

text \<open>
  \<open>room.run\<close> in \<open>server/internal/wsapi/room.go\<close>: one turn of the room's loop - an input or a timer,
  then the broadcast, then the decision to close - and what the room does as it closes.

  The timers are part of the loop's state: when each is due, if it is armed. A timer may fire at any
  instant from then on.
\<close>

record loop =
  lp_room :: room
  lp_turnTimer :: "instant option"
  lp_graceTimer :: "instant option"
  lp_idleTimer :: "instant option"
  lp_done :: bool

datatype event = Input room_input | TurnFires | GraceFires | IdleFires | ContextDone

definition handle :: "env \<Rightarrow> room_input \<Rightarrow> room \<Rightarrow> room" where
  "handle ev m r =
     (case m of
        createInput c auto \<Rightarrow> handleCreate ev c auto r
      | startBotInput c d \<Rightarrow> handleStartBot ev c d r
      | joinInput c \<Rightarrow> handleJoin ev c r
      | submitInput c p word seq \<Rightarrow> handleSubmit ev c p word seq r
      | botMoveInput word seq \<Rightarrow> handleBotMove ev word seq r
      | lobbyInput c p act \<Rightarrow> handleLobby ev c p act r
      | chatInput c p text \<Rightarrow> handleChat ev c p text r
      | resignInput c p \<Rightarrow> handleResign ev c p r
      | claimDeadEndInput c p \<Rightarrow> handleClaimDeadEnd ev c p r
      | reportWordInput c word \<Rightarrow> handleReportWord c word r
      | disconnectInput p c \<Rightarrow> handleDisconnect ev p c r
      | resumeInput p c prior \<Rightarrow> handleResume ev p c prior r)"

text \<open>The turn timer's own arm.\<close>

definition turn_expired :: "env \<Rightarrow> room \<Rightarrow> room" where
  "turn_expired ev r =
     (case rm_engine r of
        None \<Rightarrow> r
      | Some e \<Rightarrow>
          (let before = mark r; (changed, e') = Timeout (ev_now ev) e; r = r\<lparr>rm_engine := Some e'\<rparr>
           in if changed then applyEliminations before r else r))"

definition resetTurnTimer :: "loop \<Rightarrow> loop" where
  "resetTurnTimer l =
     l\<lparr>lp_turnTimer := (case rm_engine (lp_room l) of
         None \<Rightarrow> None | Some e \<Rightarrow> if over e then None else Some (deadline e))\<rparr>"

definition resetGraceTimer :: "loop \<Rightarrow> loop" where
  "resetGraceTimer l = l\<lparr>lp_graceTimer := nextGraceExpiry (lp_room l)\<rparr>"

definition resetIdleTimer :: "env \<Rightarrow> loop \<Rightarrow> loop" where
  "resetIdleTimer ev l =
     l\<lparr>lp_idleTimer := (if rm_strategy (lp_room l) \<noteq> None \<or> \<not> inLobby (lp_room l) then None
        else Some (ev_now ev + rm_idleFor (lp_room l)))\<rparr>"

text \<open>The deferred calls, in the order they run: cancel, detach, uncount, evict.\<close>

definition teardown :: "loop \<Rightarrow> loop" where
  "teardown l =
     l\<lparr>lp_room := emit Evict (stopCountingLive (detachAll ((lp_room l)\<lparr>rm_cancelled := True\<rparr>))),
       lp_turnTimer := None, lp_graceTimer := None, lp_idleTimer := None, lp_done := True\<rparr>"

text \<open>What follows the arm, whichever it was.\<close>

definition flush_lobby :: "room \<Rightarrow> room" where
  "flush_lobby r =
     (if rm_strategy r = None \<and> rm_lobbyChanged r
      then flushResumeReplays (broadcastRoomState (r\<lparr>rm_lobbyChanged := False\<rparr>)) else r)"

definition after_arm :: "env \<Rightarrow> loop \<Rightarrow> loop" where
  "after_arm ev l =
     (let changed = rm_lobbyChanged (lp_room l);
          r = flush_lobby (lp_room l);
          l = l\<lparr>lp_room := r\<rparr>
      in if rm_strategy r \<noteq> None \<and> (case rm_engine r of None \<Rightarrow> False | Some e \<Rightarrow> over e) then teardown l
         else if \<not> occupied r then teardown l
         else let wantIdle = (rm_strategy r = None \<and> inLobby r)
              in if changed \<or> wantIdle \<noteq> (lp_idleTimer l \<noteq> None) then resetIdleTimer ev l else l)"

definition run_step :: "env \<Rightarrow> event \<Rightarrow> loop \<Rightarrow> loop" where
  "run_step ev x l =
     (if lp_done l then l
      else case x of
        ContextDone \<Rightarrow> teardown l
      | Input m \<Rightarrow>
          after_arm ev (resetGraceTimer (resetTurnTimer (l\<lparr>lp_room := handle ev m (lp_room l)\<rparr>)))
      | TurnFires \<Rightarrow>
          after_arm ev (resetTurnTimer (l\<lparr>lp_room := turn_expired ev (lp_room l)\<rparr>))
      | GraceFires \<Rightarrow>
          after_arm ev (resetGraceTimer (resetTurnTimer
            (l\<lparr>lp_graceTimer := None, lp_room := handleGraceExpiry ev (lp_room l)\<rparr>)))
      | IdleFires \<Rightarrow> teardown (l\<lparr>lp_room := broadcastError codeRoomIdleClosed (lp_room l)\<rparr>))"

text \<open>What is still queued when the room is done is answered; nothing waits for ever.\<close>

fun refusal :: "room_input \<Rightarrow> (conn \<times> errCode) option" where
  "refusal (createInput c auto) = Some (c, codeRoomStartFailed)"
| "refusal (startBotInput c d) = Some (c, codeRoomStartFailed)"
| "refusal (joinInput c) = Some (c, codeRoomNotFound)"
| "refusal (resumeInput p c prior) = Some (c, codeSessionNotResumable)"
| "refusal (submitInput c p word seq) = Some (c, codeNotInAGame)"
| "refusal (resignInput c p) = Some (c, codeNotInAGame)"
| "refusal (claimDeadEndInput c p) = Some (c, codeNotInAGame)"
| "refusal (lobbyInput c p act) = Some (c, codeNotInARoom)"
| "refusal (chatInput c p text) = Some (c, codeNotInARoom)"
| "refusal (reportWordInput c word) = Some (c, codeNotInARoom)"
| "refusal (botMoveInput word seq) = None"
| "refusal (disconnectInput p c) = None"

definition refusePending :: "room_input list \<Rightarrow> room \<Rightarrow> room" where
  "refusePending pending r =
     fold (\<lambda>m r. case refusal m of None \<Rightarrow> r | Some (c, code) \<Rightarrow> reply c code r) pending r"

definition start_loop :: "room \<Rightarrow> loop" where
  "start_loop r = \<lparr>lp_room = r, lp_turnTimer = None, lp_graceTimer = None, lp_idleTimer = None,
     lp_done = False\<rparr>"

text \<open>A timer fires when it is armed and due.\<close>

fun due :: "env \<Rightarrow> loop \<Rightarrow> event \<Rightarrow> bool" where
  "due ev l (Input m) = True"
| "due ev l ContextDone = True"
| "due ev l TurnFires = (case lp_turnTimer l of None \<Rightarrow> False | Some t \<Rightarrow> t \<le> ev_now ev)"
| "due ev l GraceFires = (case lp_graceTimer l of None \<Rightarrow> False | Some t \<Rightarrow> t \<le> ev_now ev)"
| "due ev l IdleFires = (case lp_idleTimer l of None \<Rightarrow> False | Some t \<Rightarrow> t \<le> ev_now ev)"

inductive room_step :: "loop \<Rightarrow> loop \<Rightarrow> bool" where
  step: "\<not> lp_done l \<Longrightarrow> due ev l x \<Longrightarrow> room_step l (run_step ev x l)"

inductive_cases room_stepE: "room_step l l'"

end
