(* ===== verification/Room_Frames.thy ===== *)
theory Room_Frames
  imports Room_Run Engine_Props
begin

text \<open>
  What the operations of a room leave alone. Most of what a handler does is talk: append frames and
  counters to \<open>rm_out\<close>. The lemmas here say so once, so that the invariants only look at the few
  operations that change the room.
\<close>

subsection \<open>Talk\<close>

text \<open>Effects that neither open nor close the hub's count of running games.\<close>

definition talk :: "effect list \<Rightarrow> bool" where
  "talk xs \<longleftrightarrow> HubGameStarted \<notin> set xs \<and> HubGameFinished \<notin> set xs"

lemma talk_simps [simp]:
  "talk []" "talk (x # xs) \<longleftrightarrow> x \<noteq> HubGameStarted \<and> x \<noteq> HubGameFinished \<and> talk xs"
  "talk (xs @ ys) \<longleftrightarrow> talk xs \<and> talk ys"
  by (auto simp: talk_def)

lemma talk_map [simp]: "talk (map f xs) \<longleftrightarrow> (\<forall>x \<in> set xs. f x \<noteq> HubGameStarted \<and> f x \<noteq> HubGameFinished)"
  unfolding talk_def by (simp add: image_iff) metis

lemma emit_emits: "emit x r = emits [x] r"
  by (simp add: emit_def emits_def)

lemma emits_Nil [simp]: "emits [] r = r"
  by (simp add: emits_def)

lemma emits_emits [simp]: "emits ys (emits xs r) = emits (xs @ ys) r"
  by (simp add: emits_def)

lemma emits_fields [simp]:
  "rm_cancelled (emits xs r) = rm_cancelled r"
  "rm_dict (emits xs r) = rm_dict r" "rm_engine (emits xs r) = rm_engine r"
  "rm_strategy (emits xs r) = rm_strategy r"
  "rm_turnLimit (emits xs r) = rm_turnLimit r" "rm_graceFor (emits xs r) = rm_graceFor r"
  "rm_liveCounted (emits xs r) = rm_liveCounted r" "rm_seats (emits xs r) = rm_seats r"
  "rm_owner (emits xs r) = rm_owner r" "rm_turnSeq (emits xs r) = rm_turnSeq r"
  "rm_outWire (emits xs r) = rm_outWire r" "rm_chat (emits xs r) = rm_chat r"
  "rm_chatSeq (emits xs r) = rm_chatSeq r" "rm_lobbyChanged (emits xs r) = rm_lobbyChanged r"
  "rm_resumeReplays (emits xs r) = rm_resumeReplays r" "rm_out (emits xs r) = rm_out r @ xs"
  "rm_autoStart (emits xs r) = rm_autoStart r" "rm_code (emits xs r) = rm_code r"
  "rm_opening (emits xs r) = rm_opening r" "rm_idleFor (emits xs r) = rm_idleFor r"
  "rm_mode (emits xs r) = rm_mode r"
  by (simp_all add: emits_def)

lemma emit_fields [simp]:
  "rm_engine (emit x r) = rm_engine r" "rm_strategy (emit x r) = rm_strategy r"
  "rm_liveCounted (emit x r) = rm_liveCounted r" "rm_seats (emit x r) = rm_seats r"
  "rm_owner (emit x r) = rm_owner r" "rm_turnSeq (emit x r) = rm_turnSeq r"
  "rm_chat (emit x r) = rm_chat r" "rm_chatSeq (emit x r) = rm_chatSeq r"
  "rm_out (emit x r) = rm_out r @ [x]" "rm_outWire (emit x r) = rm_outWire r"
  "rm_dict (emit x r) = rm_dict r"
  by (simp_all add: emit_emits)

text \<open>An operation that only talks.\<close>

definition chatter :: "room \<Rightarrow> room \<Rightarrow> bool" where
  "chatter r r' \<longleftrightarrow> (\<exists>xs. talk xs \<and> r' = emits xs r)"

lemma chatterI: "talk xs \<Longrightarrow> chatter r (emits xs r)"
  by (auto simp: chatter_def)

lemma chatter_refl [simp]: "chatter r r"
  unfolding chatter_def by (rule exI [of _ "[]"]) simp

lemma chatter_trans: "chatter a b \<Longrightarrow> chatter b c \<Longrightarrow> chatter a c"
  unfolding chatter_def by (metis emits_emits talk_simps(3))

lemma chatter_fold:
  assumes "\<And>x r. chatter r (f x r)"
  shows "chatter r (fold f xs r)"
proof (induction xs arbitrary: r)
  case (Cons x xs)
  show ?case using chatter_trans [OF assms Cons.IH] by simp
qed simp

lemma chatter_emit: "x \<noteq> HubGameStarted \<Longrightarrow> x \<noteq> HubGameFinished \<Longrightarrow> chatter r (emit x r)"
  unfolding emit_emits by (rule chatterI) simp

lemma chatter_reply [simp]: "chatter r (reply c code r)"
  unfolding reply_def by (rule chatter_emit) simp_all

lemma chatter_broadcastError [simp]: "chatter r (broadcastError code r)"
  unfolding broadcastError_def by (rule chatterI) auto

lemma chatter_broadcastTurn [simp]: "chatter r (broadcastTurn e mo r)"
  unfolding broadcastTurn_def Let_def by (rule chatterI) (auto simp: sendTurnUpdate_def)

lemma chatter_broadcastElimination [simp]: "chatter r (broadcastElimination e p sug r)"
  unfolding broadcastElimination_def Let_def by (rule chatterI) auto

lemma chatter_sendChatHistory [simp]: "chatter r (sendChatHistory so r)"
  by (auto simp: sendChatHistory_def intro: chatter_emit split: option.splits)

lemma chatter_maybeScheduleBot [simp]: "chatter r (maybeScheduleBot e r)"
  by (auto simp: maybeScheduleBot_def intro: chatter_emit)

lemma chatter_recordRejection [simp]: "chatter r (recordRejection ev e reason w r)"
  unfolding recordRejection_def Let_def by (rule chatterI) simp

lemma chatter_reportWord [simp]: "chatter r (handleReportWord c w r)"
  unfolding handleReportWord_def Let_def by (rule chatterI) simp

lemma chatter_broadcastRoomState [simp]: "chatter r (broadcastRoomState r)"
  unfolding broadcastRoomState_def by (rule chatterI) auto

lemma chatter_detachAll [simp]: "chatter r (detachAll r)"
  unfolding detachAll_def by (rule chatterI) auto

subsection \<open>Seats\<close>

lemma seated_iff: "s \<in> set (seated r) \<longleftrightarrow> Some s \<in> set (rm_seats r)"
  by (force simp: seated_def List.map_filter_def)

lemma seated_eq: "rm_seats r' = rm_seats r \<Longrightarrow> seated r' = seated r"
  by (simp add: seated_def)

lemma seated_cong [simp]: "seated (emits xs r) = seated r" "seated (emit x r) = seated r"
  by (simp_all add: seated_def)

lemma connected_iff: "(c, s) \<in> set (connected r) \<longleftrightarrow> Some s \<in> set (rm_seats r) \<and> se_sess s = Some c"
  by (force simp: connected_def List.map_filter_def seated_iff)

lemma find_seat_Some:
  "find_seat k ss p = Some i \<Longrightarrow>
   k \<le> i \<and> i < k + length ss \<and> (\<exists>s. ss ! (i - k) = Some s \<and> se_id s = p)"
proof (induction k ss p rule: find_seat.induct)
  case (2 k ss p)
  then have "k + 1 \<le> i" "i < k + 1 + length ss" "\<exists>s. ss ! (i - (k + 1)) = Some s \<and> se_id s = p"
    by auto
  moreover from this have "i - k = Suc (i - (k + 1))" by simp
  ultimately show ?case by simp
next
  case (3 k s ss p)
  show ?case
  proof (cases "se_id s = p")
    case True
    with 3(2) show ?thesis by simp
  next
    case False
    with 3 have "k + 1 \<le> i" "i < k + 1 + length ss" "\<exists>s. ss ! (i - (k + 1)) = Some s \<and> se_id s = p"
      by auto
    moreover from this have "i - k = Suc (i - (k + 1))" by simp
    ultimately show ?thesis by simp
  qed
qed simp

lemma find_seat_None: "find_seat k ss p = None \<longleftrightarrow> (\<forall>s. Some s \<in> set ss \<longrightarrow> se_id s \<noteq> p)"
  by (induction k ss p rule: find_seat.induct) auto

lemma seatOf_Some:
  assumes "seatOf r p = Some i"
  shows "i < length (rm_seats r)" and "rm_seats r ! i = Some (seat_at r i)" and "se_id (seat_at r i) = p"
  using find_seat_Some [of 0 "rm_seats r" p i] assms by (auto simp: seatOf_def seat_at_def)

lemma seatOf_None: "seatOf r p = None \<longleftrightarrow> (\<forall>s. Some s \<in> set (rm_seats r) \<longrightarrow> se_id s \<noteq> p)"
  by (simp add: seatOf_def find_seat_None)

lemma occupiesD:
  assumes "occupies r c p"
  shows "\<exists>i. seatOf r p = Some i \<and> i < length (rm_seats r) \<and> rm_seats r ! i = Some (seat_at r i) \<and>
    se_id (seat_at r i) = p \<and> se_sess (seat_at r i) = Some c"
  using assms seatOf_Some [of r p] by (auto simp: occupies_def split: option.splits)

text \<open>
  What the invariants look at in a seat: who sits there, on which connection, ready or not, and since
  which line of the chat.
\<close>

definition seat_core :: "seat \<Rightarrow> player \<times> conn option \<times> bool \<times> nat" where
  "seat_core s = (se_id s, se_sess s, se_ready s, se_chatFrom s)"

definition cores :: "room \<Rightarrow> (player \<times> conn option \<times> bool \<times> nat) option list" where
  "cores r = map (map_option seat_core) (rm_seats r)"

lemma cores_emits [simp]: "cores (emits xs r) = cores r" "cores (emit x r) = cores r"
  by (simp_all add: cores_def)

lemma cores_upd_seat:
  assumes "\<And>s. seat_core (f s) = seat_core s"
  shows "cores (upd_seat i f r) = cores r"
proof (cases "i < length (rm_seats r)")
  case True
  then have "map_option seat_core (map_option f (rm_seats r ! i)) = map (map_option seat_core) (rm_seats r) ! i"
    using assms by (cases "rm_seats r ! i") simp_all
  then show ?thesis by (simp add: cores_def upd_seat_def map_update list_update_same_conv True)
qed (simp add: cores_def upd_seat_def list_update_beyond not_less)

text \<open>Two rooms that agree on everything the invariants look at, the hub's count aside.\<close>

definition same_seating :: "room \<Rightarrow> room \<Rightarrow> bool" where
  "same_seating r r' \<longleftrightarrow> cores r' = cores r \<and> rm_strategy r' = rm_strategy r \<and>
     rm_owner r' = rm_owner r \<and> rm_chat r' = rm_chat r \<and> rm_chatSeq r' = rm_chatSeq r"

lemma same_seating_refl [simp]: "same_seating r r"
  by (simp add: same_seating_def)

lemma same_seating_trans: "same_seating a b \<Longrightarrow> same_seating b c \<Longrightarrow> same_seating a c"
  by (simp add: same_seating_def)

lemma chatter_same: "chatter r r' \<Longrightarrow> same_seating r r'"
  by (auto simp: chatter_def same_seating_def)

subsection \<open>The hub's count of running games\<close>

definition balance :: "effect list \<Rightarrow> int" where
  "balance xs = int (length (filter (\<lambda>x. x = HubGameStarted) xs))
     - int (length (filter (\<lambda>x. x = HubGameFinished) xs))"

lemma balance_append [simp]: "balance (xs @ ys) = balance xs + balance ys"
  by (simp add: balance_def)

lemma balance_talk: "talk xs \<Longrightarrow> balance xs = 0"
  by (induction xs) (auto simp: balance_def)

definition live_num :: "room \<Rightarrow> int" where
  "live_num r = (if rm_liveCounted r then 1 else 0)"

text \<open>The amount by which what the room told the hub differs from what it believes.\<close>

definition drift :: "room \<Rightarrow> int" where
  "drift r = balance (rm_out r) - live_num r"

lemma drift_chatter: "chatter r r' \<Longrightarrow> drift r' = drift r"
  by (auto simp: chatter_def drift_def live_num_def balance_talk)

lemma drift_cong: "rm_out r' = rm_out r \<Longrightarrow> rm_liveCounted r' = rm_liveCounted r \<Longrightarrow> drift r' = drift r"
  by (simp add: drift_def live_num_def)

lemma drift_stop [simp]: "drift (stopCountingLive r) = drift r"
  by (simp add: stopCountingLive_def drift_def live_num_def balance_def)


subsection \<open>The end of a game\<close>

lemma upd_seat_fields [simp]:
  "rm_engine (upd_seat i f r) = rm_engine r" "rm_strategy (upd_seat i f r) = rm_strategy r"
  "rm_liveCounted (upd_seat i f r) = rm_liveCounted r" "rm_owner (upd_seat i f r) = rm_owner r"
  "rm_turnSeq (upd_seat i f r) = rm_turnSeq r" "rm_chat (upd_seat i f r) = rm_chat r"
  "rm_chatSeq (upd_seat i f r) = rm_chatSeq r" "rm_out (upd_seat i f r) = rm_out r"
  "rm_outWire (upd_seat i f r) = rm_outWire r" "rm_dict (upd_seat i f r) = rm_dict r"
  "length (rm_seats (upd_seat i f r)) = length (rm_seats r)"
  by (simp_all add: upd_seat_def)

lemma same_upd: "(\<And>s. seat_core (f s) = seat_core s) \<Longrightarrow> same_seating r (upd_seat i f r)"
  by (simp add: same_seating_def cores_upd_seat)

lemma turnSeq_fields [simp]:
  "cores (r\<lparr>rm_turnSeq := n\<rparr>) = cores r" "drift (r\<lparr>rm_turnSeq := n\<rparr>) = drift r"
  "cores (r\<lparr>rm_engine := eo\<rparr>) = cores r" "drift (r\<lparr>rm_engine := eo\<rparr>) = drift r"
  "cores (r\<lparr>rm_lobbyChanged := b\<rparr>) = cores r" "drift (r\<lparr>rm_lobbyChanged := b\<rparr>) = drift r"
  "cores (r\<lparr>rm_outWire := w\<rparr>) = cores r" "drift (r\<lparr>rm_outWire := w\<rparr>) = drift r"
  "cores (r\<lparr>rm_autoStart := b\<rparr>) = cores r" "drift (r\<lparr>rm_autoStart := b\<rparr>) = drift r"
  "cores (r\<lparr>rm_resumeReplays := xs\<rparr>) = cores r" "drift (r\<lparr>rm_resumeReplays := xs\<rparr>) = drift r"
  by (simp_all add: cores_def drift_def live_num_def)

text \<open>Besides the seating: the game, the turn sequence and the hub's count.\<close>

definition same_game :: "room \<Rightarrow> room \<Rightarrow> bool" where
  "same_game r r' \<longleftrightarrow> rm_engine r' = rm_engine r \<and> rm_turnSeq r' = rm_turnSeq r \<and>
     rm_liveCounted r' = rm_liveCounted r \<and> drift r' = drift r"

lemma same_game_refl [simp]: "same_game r r"
  by (simp add: same_game_def)

lemma same_game_trans: "same_game a b \<Longrightarrow> same_game b c \<Longrightarrow> same_game a c"
  by (simp add: same_game_def)

lemma chatter_game: "chatter r r' \<Longrightarrow> same_game r r'"
  using drift_chatter [of r r'] by (auto simp: chatter_def same_game_def)

lemma same_game_upd: "same_game r (upd_seat i f r)"
  by (simp add: same_game_def drift_def live_num_def)

definition steady :: "room \<Rightarrow> room \<Rightarrow> bool" where
  "steady r r' \<longleftrightarrow> same_seating r r' \<and> same_game r r'"

lemma steady_refl [simp]: "steady r r"
  by (simp add: steady_def)

lemma steady_trans: "steady a b \<Longrightarrow> steady b c \<Longrightarrow> steady a c"
  using same_seating_trans [of a b c] same_game_trans [of a b c] unfolding steady_def by blast

lemma chatter_steady: "chatter r r' \<Longrightarrow> steady r r'"
  by (simp add: steady_def chatter_same chatter_game)

lemma steady_upd: "(\<And>s. seat_core (f s) = seat_core s) \<Longrightarrow> steady r (upd_seat i f r)"
  by (simp add: steady_def same_upd same_game_upd)

lemma steady_fold:
  assumes "\<And>x r. steady r (f x r)"
  shows "steady r (fold f xs r)"
proof (induction xs arbitrary: r)
  case (Cons x xs)
  show ?case using steady_trans [OF assms Cons.IH] by simp
qed simp

lemma steady_lobby: "steady r r' \<Longrightarrow> steady r (r'\<lparr>rm_lobbyChanged := b\<rparr>)"
  by (simp add: steady_def same_seating_def same_game_def)

lemma steady_lobby_left: "steady r r' \<Longrightarrow> steady (r\<lparr>rm_lobbyChanged := b\<rparr>) r'"
  by (simp add: steady_def same_seating_def same_game_def)

lemma steady_replays: "steady r r' \<Longrightarrow> steady r (r'\<lparr>rm_resumeReplays := xs\<rparr>)"
  by (simp add: steady_def same_seating_def same_game_def)

lemma give_result_steady: "steady r (give_result msg i r)"
proof (cases "rm_seats r ! i")
  case None
  then show ?thesis by (simp add: give_result_def)
next
  case (Some s)
  have u: "steady r (upd_seat i (\<lambda>s. s\<lparr>se_missedResult := g s\<rparr>) r)" for g
    by (rule steady_upd) (simp add: seat_core_def)
  have "steady r (emit (Send c m) (upd_seat i (\<lambda>s. s\<lparr>se_missedResult := None\<rparr>) r))" for c m
    using u [of "\<lambda>_. None"] chatter_steady [OF chatter_emit] steady_trans by blast
  with Some u show ?thesis by (simp add: give_result_def split: option.split)
qed

lemma credit_win_steady: "steady r (credit_win p r)"
  by (auto simp: credit_win_def seat_core_def intro: steady_upd split: option.split)

text \<open>Ending a game stops it being counted, once, and changes nothing else.\<close>

lemma broadcastGameOver_facts:
  "same_seating r (broadcastGameOver e st r)" "rm_engine (broadcastGameOver e st r) = rm_engine r"
  "rm_turnSeq (broadcastGameOver e st r) = rm_turnSeq r"
  "\<not> rm_liveCounted (broadcastGameOver e st r)" "drift (broadcastGameOver e st r) = drift r"
proof -
  define a where "a = stopCountingLive (emit (Count gamesFinished) r)"
  define b where "b = broadcastGameOver e st r"
  have "same_seating r a" "rm_engine a = rm_engine r" "rm_turnSeq a = rm_turnSeq r" "\<not> rm_liveCounted a"
    by (auto simp: a_def stopCountingLive_def same_seating_def emit_def cores_def)
  moreover have "drift a = drift r"
    unfolding a_def drift_stop by (rule drift_chatter) (simp add: chatter_emit)
  moreover have "steady a b"
    unfolding b_def broadcastGameOver_def Let_def a_def [symmetric]
    by (rule steady_lobby, rule steady_trans [OF credit_win_steady], rule steady_fold,
        rule give_result_steady)
  ultimately show "same_seating r (broadcastGameOver e st r)"
    "rm_engine (broadcastGameOver e st r) = rm_engine r"
    "rm_turnSeq (broadcastGameOver e st r) = rm_turnSeq r"
    "\<not> rm_liveCounted (broadcastGameOver e st r)" "drift (broadcastGameOver e st r) = drift r"
    unfolding b_def [symmetric] steady_def same_game_def using same_seating_trans by auto
qed

lemma Snapshot_fields [simp]:
  "gs_eliminated (Snapshot e) = outOrder e" "gs_turn (Snapshot e) = Turn e" "gs_over (Snapshot e) = over e"
  "gs_current (Snapshot e) = current e" "gs_winner (Snapshot e) = winner e"
  by (simp_all add: Snapshot_def)

text \<open>
  What the room does about eliminations: nothing when there were none; otherwise the game ends and is
  no longer counted, or the sequence moves exactly if the turn did.
\<close>

lemma applyEliminations_facts:
  fixes r :: room and b :: "nat \<times> player"
  assumes eng: "rm_engine r = Some e"
  defines "r' \<equiv> applyEliminations b r"
  shows "same_seating r r'" and "rm_engine r' = Some e" and "drift r' = drift r"
    and "rm_liveCounted r' = (rm_liveCounted r \<and> (length (outOrder e) = fst b \<or> \<not> over e))"
    and "rm_turnSeq r' = (if length (outOrder e) \<noteq> fst b \<and> \<not> over e \<and> Turn e \<noteq> snd b
      then rm_turnSeq r + 1 else rm_turnSeq r)"
proof -
  define k where "k = fold (\<lambda>p. broadcastElimination e p (Suggestions e maxSuggestions))
      (drop (fst b) (outOrder e)) r"
  have "chatter r k" unfolding k_def by (rule chatter_fold) simp
  then have k: "same_seating r k" "rm_engine k = Some e" "rm_turnSeq k = rm_turnSeq r"
    "rm_liveCounted k = rm_liveCounted r" "drift k = drift r"
    using chatter_steady [of r k] eng by (simp_all add: steady_def same_game_def)
  have r': "r' = (if length (outOrder e) = fst b then r
      else if over e then broadcastGameOver e (Snapshot e) k
      else broadcastTurn e None (if Turn e \<noteq> snd b then k\<lparr>rm_turnSeq := rm_turnSeq k + 1\<rparr> else k))"
    by (simp add: r'_def applyEliminations_def eng Let_def k_def)
  define t where "t = (if Turn e \<noteq> snd b then k\<lparr>rm_turnSeq := rm_turnSeq k + 1\<rparr> else k)"
  note r'' = r' [folded t_def]
  have t: "same_seating r t" "rm_engine t = Some e" "rm_liveCounted t = rm_liveCounted r" "drift t = drift r"
    "rm_turnSeq t = (if Turn e \<noteq> snd b then rm_turnSeq r + 1 else rm_turnSeq r)"
    using k by (auto simp: t_def same_seating_def)
  have bt: "steady t (broadcastTurn e None t)" by (rule chatter_steady) simp
  note over = broadcastGameOver_facts [where r = k and e = e and st = "Snapshot e"]
  have bt': "same_seating t (broadcastTurn e None t)" "rm_engine (broadcastTurn e None t) = rm_engine t"
    "rm_turnSeq (broadcastTurn e None t) = rm_turnSeq t"
    "rm_liveCounted (broadcastTurn e None t) = rm_liveCounted t" "drift (broadcastTurn e None t) = drift t"
    using bt by (simp_all add: steady_def same_game_def)
  show "same_seating r r'"
    using same_seating_trans [OF k(1) over(1)] same_seating_trans [OF t(1) bt'(1)]
    by (simp add: r'')
  show "rm_engine r' = Some e" using eng k(2) over(2) bt'(2) t(2) by (simp add: r'')
  show "drift r' = drift r" using k(5) over(5) bt'(5) t(4) by (simp add: r'')
  show "rm_liveCounted r' = (rm_liveCounted r \<and> (length (outOrder e) = fst b \<or> \<not> over e))"
    using over(4) bt'(4) t(3) by (simp add: r'')
  show "rm_turnSeq r' = (if length (outOrder e) \<noteq> fst b \<and> \<not> over e \<and> Turn e \<noteq> snd b
      then rm_turnSeq r + 1 else rm_turnSeq r)"
    using over(3) k(3) bt'(3) t(5) by (simp add: r'')
qed

end
