(* ===== verification/Room_Inv.thy ===== *)
theory Room_Inv
  imports Room_Frames
begin

text \<open>
  The invariant of a room, and that every input, every timer and every way of closing keeps it.
\<close>

subsection \<open>The engine loses players\<close>

text \<open>What every operation that takes players out does to the engine, if it does anything.\<close>

definition losses :: "engine \<Rightarrow> engine \<Rightarrow> bool" where
  "losses e e' \<longleftrightarrow> seats_inv e' \<and> same_position e e' \<and>
     (e' = e \<or> (\<not> over e \<and> (\<exists>q qs. outOrder e' = outOrder e @ q # qs)))"

lemma losses_refl: "seats_inv e \<Longrightarrow> losses e e"
  by (simp add: losses_def)

lemma losses_expire: "seats_inv e \<Longrightarrow> \<not> over e \<Longrightarrow> losses e (expire now e)"
  using expire_facts(1,2,4) [of e now] by (auto simp: losses_def)

lemma losses_Timeout: "seats_inv e \<Longrightarrow> losses e (snd (Timeout now e))"
  by (simp add: Timeout_def losses_refl losses_expire)

lemma losses_NoMove: "seats_inv e \<Longrightarrow> losses e (snd (NoMove now e))"
  by (simp add: NoMove_def losses_refl losses_expire)

lemma losses_Resign:
  assumes inv: "seats_inv e"
  shows "losses e (snd (Resign p now e))"
proof (cases "over e \<or> \<not> Alive e p")
  case True
  then have "snd (Resign p now e) = e"
    using eliminate_gone_iff [OF inv, of p EndResigned] eliminate_noop [of p EndResigned e]
    by (auto simp: Resign_def Let_def split: prod.splits)
  with inv show ?thesis by (simp add: losses_refl)
next
  case False
  then obtain a where el: "eliminate p EndResigned e = (True, a)"
    using eliminate_gone_iff [OF inv, of p EndResigned] by (cases "eliminate p EndResigned e") auto
  then have out: "outOrder a = outOrder e @ [p]"
    using False eliminate_alive(3) [OF inv, of p EndResigned] by simp
  have "seats_inv a" using False inv el eliminate_inv [of e EndResigned p] by simp
  then obtain qs where "outOrder (settle a) = outOrder a @ qs" using settle_outOrder by blast
  with out False have "\<exists>qs. outOrder (snd (Resign p now e)) = outOrder e @ p # qs"
    by (auto simp: Resign_def Let_def el)
  with False Resign_inv [OF inv] Resign_position [OF inv] show ?thesis by (auto simp: losses_def)
qed

lemma losses_Submit:
  assumes "seats_inv e" and "Submit u p w now e = (e', mo, r)" and "r \<noteq> ReasonNone"
  shows "losses e e'"
  using Submit_cases [of u p w now e] assms losses_refl losses_expire by (metis prod.inject)

lemma losses_trans: "losses a b \<Longrightarrow> losses b c \<Longrightarrow> losses a c"
proof -
  assume ab: "losses a b" and bc: "losses b c"
  then have "seats_inv c" "same_position a c"
    using same_position_trans [of a b c] by (simp_all add: losses_def)
  moreover have "c = a \<or> (\<not> over a \<and> (\<exists>q qs. outOrder c = outOrder a @ q # qs))"
    using ab bc unfolding losses_def by (elim conjE disjE exE) simp_all
  ultimately show "losses a c" by (simp add: losses_def)
qed

lemma losses_Alive:
  assumes "seats_inv e" and "losses e e'" and "Alive e' p"
  shows "Alive e p"
proof -
  have "p \<in> set (players e')" "p \<notin> set (outOrder e')"
    using assms outOrder_iff [of e' p] Alive_iff [of e' p] alive_seats_less
    by (auto simp: losses_def)
  moreover have "set (outOrder e) \<subseteq> set (outOrder e')" "players e' = players e"
    using assms(2) by (auto simp: losses_def same_position_def)
  ultimately show ?thesis using outOrder_iff [OF assms(1), of p] by auto
qed

lemma losses_same: "losses e e' \<Longrightarrow> length (outOrder e') = length (outOrder e) \<Longrightarrow> e' = e"
  by (auto simp: losses_def)

subsection \<open>The invariant\<close>

definition holds :: "room \<Rightarrow> nat \<Rightarrow> player \<Rightarrow> conn option \<Rightarrow> bool \<Rightarrow> nat \<Rightarrow> bool" where
  "holds r i p c rd k \<longleftrightarrow> i < length (cores r) \<and> cores r ! i = Some (p, c, rd, k)"

definition ids :: "room \<Rightarrow> player set" where
  "ids r = {p. \<exists>i c rd k. holds r i p c rd k}"

text \<open>Four seats; a seat's player is its place; a connection sits once; the owner sits and is not ready.\<close>

definition seat_inv :: "room \<Rightarrow> bool" where
  "seat_inv r \<longleftrightarrow> length (cores r) = maxPlayers \<and>
     (\<forall>i p c rd k. holds r i p c rd k \<longrightarrow>
        (p = seatIDs ! i \<or> rm_strategy r \<noteq> None \<and> i = 1 \<and> p = botPlayerID) \<and> k \<le> rm_chatSeq r) \<and>
     (\<forall>i j p q c rd rd' k k'. holds r i p (Some c) rd k \<and> holds r j q (Some c) rd' k' \<longrightarrow> i = j) \<and>
     (if ids r = {} then rm_owner r = [] else \<exists>i c k. holds r i (rm_owner r) c False k)"

text \<open>
  The conversation is short and in order, and whoever a line is attributed to has sat there since
  before it was said.
\<close>

definition chat_inv :: "room \<Rightarrow> bool" where
  "chat_inv r \<longleftrightarrow> length (rm_chat r) \<le> chatHistoryLimit \<and> sorted_wrt (<) (map ce_seq (rm_chat r)) \<and>
     (\<forall>x \<in> set (rm_chat r). ce_seq x \<le> rm_chatSeq r \<and>
        (ce_author x = [] \<longrightarrow> ce_name x = []) \<and>
        (ce_author x \<noteq> [] \<longrightarrow> (\<exists>i c rd k. holds r i (ce_author x) c rd k \<and> k < ce_seq x)))"

text \<open>The game is counted while it runs, and everybody still in it has a seat.\<close>

definition game_inv :: "room \<Rightarrow> bool" where
  "game_inv r \<longleftrightarrow>
     (case rm_engine r of
        None \<Rightarrow> \<not> rm_liveCounted r
      | Some e \<Rightarrow> seats_inv e \<and> rm_liveCounted r = (\<not> over e) \<and>
          (\<not> over e \<longrightarrow> (\<forall>p. Alive e p \<longrightarrow> p \<in> ids r)))"

definition room_inv :: "room \<Rightarrow> bool" where
  "room_inv r \<longleftrightarrow> seat_inv r \<and> chat_inv r \<and> game_inv r \<and> drift r = 0"

lemmas room_inv_defs = seat_inv_def chat_inv_def game_inv_def room_inv_def

lemma holds_same: "same_seating r r' \<Longrightarrow> holds r' = holds r"
  by (intro ext) (simp add: holds_def same_seating_def)

lemma ids_same: "same_seating r r' \<Longrightarrow> ids r' = ids r"
  by (simp add: ids_def holds_same)

lemma seat_inv_same: "same_seating r r' \<Longrightarrow> seat_inv r' = seat_inv r"
  using holds_same [of r r'] ids_same [of r r'] by (simp add: seat_inv_def same_seating_def)

lemma chat_inv_same: "same_seating r r' \<Longrightarrow> chat_inv r' = chat_inv r"
  using holds_same [of r r'] by (simp add: chat_inv_def same_seating_def)

lemma room_inv_steady:
  assumes "steady r r'" and "room_inv r"
  shows "room_inv r'"
proof -
  have s: "same_seating r r'" "same_game r r'" using assms(1) by (simp_all add: steady_def)
  then show ?thesis
    using assms(2) seat_inv_same [OF s(1)] chat_inv_same [OF s(1)] ids_same [OF s(1)]
    by (cases "rm_engine r") (simp_all add: room_inv_def game_inv_def same_game_def)
qed

lemma room_inv_chatter: "chatter r r' \<Longrightarrow> room_inv r \<Longrightarrow> room_inv r'"
  using room_inv_steady chatter_steady by blast

lemma holds_iff: "holds r i p c rd k \<longleftrightarrow> i < length (rm_seats r) \<and>
  (\<exists>s. rm_seats r ! i = Some s \<and> seat_core s = (p, c, rd, k))"
  by (auto simp: holds_def cores_def)

lemma ids_iff: "p \<in> ids r \<longleftrightarrow> (\<exists>s. Some s \<in> set (rm_seats r) \<and> se_id s = p)"
proof
  assume "p \<in> ids r"
  then show "\<exists>s. Some s \<in> set (rm_seats r) \<and> se_id s = p"
    by (auto simp: ids_def holds_iff seat_core_def) (metis nth_mem)
next
  assume "\<exists>s. Some s \<in> set (rm_seats r) \<and> se_id s = p"
  then obtain i s where "i < length (rm_seats r)" "rm_seats r ! i = Some s" "se_id s = p"
    by (metis in_set_conv_nth)
  then show "p \<in> ids r" by (auto simp: ids_def holds_iff seat_core_def)
qed

lemma empty_iff: "ids r = {} \<longleftrightarrow> \<not> occupied r"
proof -
  have "occupied r \<longleftrightarrow> seated r \<noteq> []" by (simp add: occupied_def seatedCount_def)
  also have "\<dots> \<longleftrightarrow> (\<exists>s. Some s \<in> set (rm_seats r))"
    using seated_iff [of _ r] by (metis ex_in_conv set_empty)
  also have "\<dots> \<longleftrightarrow> ids r \<noteq> {}" using ids_iff [of _ r] by blast
  finally show ?thesis by blast
qed

subsection \<open>Taking players out of a running game\<close>

lemma game_op:
  assumes inv: "room_inv r" and eng: "rm_engine r = Some e" and l: "losses e e'"
    and r1: "steady (r\<lparr>rm_engine := Some e'\<rparr>) r1" and m: "fst b = length (outOrder e)"
  shows "room_inv (applyEliminations b r1)" and "rm_engine (applyEliminations b r1) = Some e'"
    and "same_seating r (applyEliminations b r1)"
proof -
  have se: "seats_inv e" "rm_liveCounted r = (\<not> over e)" "\<not> over e \<longrightarrow> (\<forall>p. Alive e p \<longrightarrow> p \<in> ids r)"
    using inv eng by (simp_all add: room_inv_def game_inv_def)
  have r1': "same_seating r r1" "rm_engine r1 = Some e'" "rm_liveCounted r1 = rm_liveCounted r"
    "drift r1 = drift r"
    using r1 by (auto simp: steady_def same_seating_def same_game_def)
  note ap = applyEliminations_facts [OF r1'(2), of b]
  show same: "same_seating r (applyEliminations b r1)" using same_seating_trans [OF r1'(1) ap(1)] .
  show eng': "rm_engine (applyEliminations b r1) = Some e'" by (rule ap(2))
  have live: "rm_liveCounted (applyEliminations b r1) = (\<not> over e')"
    using ap(4) r1'(3) se(2) l m losses_same [OF l] by (auto simp: losses_def)
  have al: "\<forall>p. Alive e' p \<longrightarrow> p \<in> ids r" if "\<not> over e'"
  proof (cases "e' = e")
    case True
    with se that show ?thesis by blast
  next
    case False
    then have "\<not> over e" using l by (auto simp: losses_def)
    with se losses_Alive [OF se(1) l] show ?thesis by blast
  qed
  show "room_inv (applyEliminations b r1)"
    using inv live eng' al l ap(3) r1'(4) seat_inv_same [OF same] chat_inv_same [OF same] ids_same [OF same]
    by (simp add: room_inv_def game_inv_def losses_def)
qed


subsection \<open>The turn sequence\<close>

text \<open>
  What a client may conclude from an unchanged sequence number: the same game is running, the same
  player is to act, on the same syllable, with the same words used.
\<close>

definition seq_ok :: "room \<Rightarrow> room \<Rightarrow> bool" where
  "seq_ok r r' \<longleftrightarrow> (rm_turnSeq r' = rm_turnSeq r \<longrightarrow>
     (\<forall>e'. rm_engine r' = Some e' \<and> \<not> over e' \<longrightarrow>
        (\<exists>e. rm_engine r = Some e \<and> \<not> over e \<and> Turn e' = Turn e \<and> current e' = current e \<and>
           used e' = used e \<and> history e' = history e)))"

definition good :: "room \<Rightarrow> room \<Rightarrow> bool" where
  "good r r' \<longleftrightarrow> room_inv r' \<and> seq_ok r r'"

lemma word_Suc_neq [simp]: "(x :: u32) + 1 \<noteq> x"
  by simp

lemma seq_ok_same: "rm_engine r' = rm_engine r \<Longrightarrow> seq_ok r r'"
  by (simp add: seq_ok_def)

lemma seq_ok_next: "rm_turnSeq r' = rm_turnSeq r + 1 \<Longrightarrow> seq_ok r r'"
  by (simp add: seq_ok_def)

lemma good_steady: "room_inv r \<Longrightarrow> steady r r' \<Longrightarrow> good r r'"
  by (auto simp: good_def room_inv_steady seq_ok_same steady_def same_game_def)

lemma good_chatter: "room_inv r \<Longrightarrow> chatter r r' \<Longrightarrow> good r r'"
  by (simp add: good_steady chatter_steady)

lemma good_op:
  assumes inv: "room_inv r" and eng: "rm_engine r = Some e" and l: "losses e e'"
    and r1: "steady (r\<lparr>rm_engine := Some e'\<rparr>) r1"
  shows "good r (applyEliminations (mark r) r1)"
proof -
  have b: "mark r = (length (outOrder e), Turn e)"
    using eng by (simp add: mark_def EliminatedCount_def)
  have "rm_turnSeq r1 = rm_turnSeq r" "rm_engine r1 = Some e'"
    using r1 by (simp_all add: steady_def same_game_def)
  then have "seq_ok r (applyEliminations (mark r) r1)"
    using applyEliminations_facts(2,5) [of r1 e' "mark r"] l eng losses_same [OF l]
    by (auto simp: seq_ok_def b losses_def same_position_def)
  with game_op(1) [OF inv eng l r1, of "mark r"] show ?thesis by (simp add: good_def b)
qed

lemma steady_engine:
  "steady (r\<lparr>rm_engine := Some e\<rparr>) ((emits xs r)\<lparr>rm_engine := Some e\<rparr>)" if "talk xs"
proof -
  have "(emits xs r)\<lparr>rm_engine := Some e\<rparr> = emits xs (r\<lparr>rm_engine := Some e\<rparr>)"
    by (simp add: emits_def)
  then show ?thesis by (simp only:) (rule chatter_steady [OF chatterI [OF that]])
qed

lemma mark_emits [simp]: "mark (emits xs r) = mark r" "mark (emit x r) = mark r"
  by (simp_all add: mark_def)

subsection \<open>A word played\<close>

lemma Alive_accepted [simp]: "Alive (accepted e m now) = Alive e"
  by (intro ext) (simp add: Alive_def indexOf_def split: option.split)

lemma good_played:
  assumes inv: "room_inv r" and eng: "rm_engine r = Some e" and "\<not> over e"
    and "Submit u p w now e = (e', mo, ReasonNone)"
    and r1: "steady (r\<lparr>rm_engine := Some e', rm_turnSeq := rm_turnSeq r + 1\<rparr>) r1"
  shows "good r r1"
proof -
  obtain m where e': "e' = accepted e m now"
    by (rule Submit_cases [of u p w now e]) (use assms(4) in simp_all)
  have se: "seats_inv e" "rm_liveCounted r" "\<forall>p. Alive e p \<longrightarrow> p \<in> ids r"
    using inv eng assms(3) by (simp_all add: room_inv_def game_inv_def)
  have e'': "seats_inv e'" "\<not> over e'" "Alive e' = Alive e"
    using se assms(3) by (auto simp: e' accepted_inv)
  have r1': "same_seating r r1" "rm_engine r1 = Some e'" "rm_liveCounted r1 = rm_liveCounted r"
    "drift r1 = drift r" "rm_turnSeq r1 = rm_turnSeq r + 1"
    using r1 by (simp_all add: steady_def same_seating_def same_game_def)
  have "room_inv r1"
    using inv r1' se e'' seat_inv_same [OF r1'(1)] chat_inv_same [OF r1'(1)] ids_same [OF r1'(1)]
    by (simp add: room_inv_def game_inv_def)
  with r1'(5) show ?thesis by (simp add: good_def seq_ok_next)
qed

subsection \<open>The handlers of a running game\<close>

lemma handleResign_good: "room_inv r \<Longrightarrow> good r (handleResign ev c p r)"
proof -
  assume inv: "room_inv r"
  have triv: "good r r" "good r (reply c code r)" for code
    using inv by (simp_all add: good_chatter)
  show ?thesis
  proof (cases "\<not> occupies r c p \<or> rm_engine r = None")
    case True
    then show ?thesis using triv by (auto simp: handleResign_def)
  next
    case False
    then obtain e where e: "occupies r c p" "rm_engine r = Some e" by auto
    then have se: "seats_inv e" using inv by (simp add: room_inv_def game_inv_def)
    obtain g e' where R: "Resign p (ev_now ev) e = (g, e')" by fastforce
    have l: "losses e e'" using losses_Resign [OF se, of p "ev_now ev"] R by simp
    have ap: "good r (applyEliminations (mark r) (r\<lparr>rm_engine := Some e'\<rparr>))"
      using good_op [OF inv e(2) l] by simp
    have noop: "good r (r\<lparr>rm_engine := Some e'\<rparr>)" if "\<not> g"
    proof -
      have "e' = e" using R that eliminate_noop [of p EndResigned e]
        by (auto simp: Resign_def Let_def split: if_splits prod.splits)
      with e(2) have "r\<lparr>rm_engine := Some e'\<rparr> = r" by simp
      with triv(1) show ?thesis by simp
    qed
    show ?thesis using e triv ap noop by (simp add: handleResign_def R Let_def)
  qed
qed

lemma handleClaimDeadEnd_good: "room_inv r \<Longrightarrow> good r (handleClaimDeadEnd ev c p r)"
proof -
  assume inv: "room_inv r"
  have triv: "good r r" "good r (reply c code r)" for code
    using inv by (simp_all add: good_chatter)
  show ?thesis
  proof (cases "\<not> occupies r c p \<or> rm_engine r = None")
    case True
    then show ?thesis using triv by (auto simp: handleClaimDeadEnd_def)
  next
    case False
    then obtain e where e: "occupies r c p" "rm_engine r = Some e" by auto
    then have se: "seats_inv e" using inv by (simp add: room_inv_def game_inv_def)
    obtain g e' where R: "NoMove (ev_now ev) e = (g, e')" by fastforce
    have l: "losses e e'" using losses_NoMove [OF se, of "ev_now ev"] R by simp
    have ap: "good r (applyEliminations (mark r) ((emit (Count (deadEndClaims True)) r)\<lparr>rm_engine := Some e'\<rparr>))"
      unfolding emit_emits by (rule good_op [OF inv e(2) l steady_engine]) simp
    have false: "good r (reply c codeNotADeadEnd (emit (Count (deadEndClaims False)) r))"
      using inv chatter_trans [OF chatter_emit chatter_reply] by (simp add: good_chatter)
    have "g" if "\<not> over e" "\<not> HasLegalMove e" using R that by (auto simp: NoMove_def)
    then show ?thesis using e triv ap false by (simp add: handleClaimDeadEnd_def R Let_def)
  qed
qed

lemma handleSubmit_good: "room_inv r \<Longrightarrow> good r (handleSubmit ev c p raw seq r)"
proof -
  assume inv: "room_inv r"
  have triv: "good r r" "good r (reply c code r)" for code
    using inv by (simp_all add: good_chatter)
  show ?thesis
  proof (cases "\<not> occupies r c p \<or> rm_engine r = None")
    case True
    then show ?thesis using triv by (auto simp: handleSubmit_def)
  next
    case False
    then obtain e where e: "occupies r c p" "rm_engine r = Some e" by auto
    then have se: "seats_inv e" using inv by (simp add: room_inv_def game_inv_def)
    let ?r = "emit (Count wordsSubmitted) r"
    let ?w = "sanitizeText (ev_unicode ev) raw maxWordRunes maxNicknameMarks"
    obtain e' mo reason where S: "Submit (ev_unicode ev) p ?w (ev_now ev) e = (e', mo, reason)"
      by (metis prod_cases3)
    have stale: "good r (emit (Send c m) (recordRejection ev e ReasonNotYourTurn raw ?r))" for m
      using inv by (intro good_chatter chatter_trans [OF chatter_emit chatter_trans [OF chatter_recordRejection chatter_emit]]) simp_all
    have st: "steady (r\<lparr>rm_engine := Some e'\<rparr>) (?r\<lparr>rm_engine := Some e'\<rparr>)"
      unfolding emit_emits by (rule steady_engine) simp
    have rej: "good r (applyEliminations (mark r) (emit (Send c m)
        (recordRejection ev e' reason ?w (?r\<lparr>rm_engine := Some e'\<rparr>))))" if "reason \<noteq> ReasonNone" for m
      by (rule good_op [OF inv e(2) losses_Submit [OF se S that]], rule steady_trans [OF st],
          rule chatter_steady, rule chatter_trans [OF chatter_recordRejection chatter_emit]) simp_all
    have acc: "good r (maybeScheduleBot e' (broadcastTurn e' mo ((emit (Count wordsAccepted)
        (?r\<lparr>rm_engine := Some e'\<rparr>))\<lparr>rm_turnSeq := rm_turnSeq r + 1\<rparr>)))" (is "good r ?a")
      if "reason = ReasonNone"
    proof (rule good_played [OF inv e(2)])
      show "\<not> over e" using S that by (auto simp: Submit_def)
      show "Submit (ev_unicode ev) p ?w (ev_now ev) e = (e', mo, ReasonNone)" using S that by simp
      have "(emit (Count wordsAccepted) (?r\<lparr>rm_engine := Some e'\<rparr>))\<lparr>rm_turnSeq := rm_turnSeq r + 1\<rparr> =
          emits [Count wordsSubmitted, Count wordsAccepted] (r\<lparr>rm_engine := Some e', rm_turnSeq := rm_turnSeq r + 1\<rparr>)"
        by (simp add: emit_def emits_def)
      then have "chatter (r\<lparr>rm_engine := Some e', rm_turnSeq := rm_turnSeq r + 1\<rparr>) ?a"
        by (simp only:) (rule chatter_trans [OF chatterI chatter_trans [OF chatter_broadcastTurn
            chatter_maybeScheduleBot]], simp)
      then show "steady (r\<lparr>rm_engine := Some e', rm_turnSeq := rm_turnSeq r + 1\<rparr>) ?a"
        by (rule chatter_steady)
    qed
    show ?thesis using e S triv stale rej acc by (simp add: handleSubmit_def Let_def)
  qed
qed


lemma handleBotMove_good: "room_inv r \<Longrightarrow> good r (handleBotMove ev chosen seq r)"
proof -
  assume inv: "room_inv r"
  have triv: "good r r" using inv by (simp add: good_chatter)
  show ?thesis
  proof (cases "rm_engine r")
    case None
    with triv show ?thesis by (simp add: handleBotMove_def)
  next
    case (Some e)
    then have se: "seats_inv e" using inv by (simp add: room_inv_def game_inv_def)
    show ?thesis
    proof (cases "over e \<or> seq \<noteq> rm_turnSeq r \<or> Turn e \<noteq> botPlayerID")
      case True
      with Some triv show ?thesis by (auto simp: handleBotMove_def)
    next
      case False
      define xs where "xs = (case rm_strategy r of None \<Rightarrow> [] | Some d \<Rightarrow> [Count (botMoves d)])"
      have xs: "talk xs" by (simp add: xs_def split: option.split)
      have rr: "(case rm_strategy r of None \<Rightarrow> r | Some d \<Rightarrow> emit (Count (botMoves d)) r) = emits xs r"
        by (simp add: xs_def emit_emits split: option.split)
      have lose: "good r (applyEliminations (mark r) ((emits xs r)\<lparr>rm_engine := Some a\<rparr>))"
        if "losses e a" for a
        by (rule good_op [OF inv Some that steady_engine [OF xs]])
      show ?thesis
      proof (cases chosen)
        case None
        obtain g a where N: "NoMove (ev_now ev) e = (g, a)" by fastforce
        have la: "losses e a" using losses_NoMove [OF se, of "ev_now ev"] N by simp
        then have "seats_inv a" by (simp add: losses_def)
        then have "losses e (snd (Resign botPlayerID (ev_now ev) a))"
          using losses_trans [OF la losses_Resign] by blast
        with la lose False Some None show ?thesis
          unfolding handleBotMove_def Let_def by (simp add: rr N)
      next
        case (Some word)
        obtain a mo reason where S: "Submit (ev_unicode ev) botPlayerID word (ev_now ev) e = (a, mo, reason)"
          by (metis prod_cases3)
        have rej: "losses e (snd (Resign botPlayerID (ev_now ev) a))" if "reason \<noteq> ReasonNone"
        proof -
          have la: "losses e a" by (rule losses_Submit [OF se S that])
          then have "seats_inv a" by (simp add: losses_def)
          then show ?thesis using losses_trans [OF la losses_Resign] by blast
        qed
        have acc: "good r (broadcastTurn a mo ((emits xs r)\<lparr>rm_engine := Some a,
            rm_turnSeq := rm_turnSeq r + 1\<rparr>))" (is "good r ?z") if "reason = ReasonNone"
        proof (rule good_played [OF inv \<open>rm_engine r = Some e\<close>])
          show "\<not> over e" using False by blast
          show "Submit (ev_unicode ev) botPlayerID word (ev_now ev) e = (a, mo, ReasonNone)"
            using S that by simp
          have "(emits xs r)\<lparr>rm_engine := Some a, rm_turnSeq := rm_turnSeq r + 1\<rparr> =
              emits xs (r\<lparr>rm_engine := Some a, rm_turnSeq := rm_turnSeq r + 1\<rparr>)"
            by (simp add: emits_def)
          then have "chatter (r\<lparr>rm_engine := Some a, rm_turnSeq := rm_turnSeq r + 1\<rparr>) ?z"
            by (simp only:) (rule chatter_trans [OF chatterI [OF xs] chatter_broadcastTurn])
          then show "steady (r\<lparr>rm_engine := Some a, rm_turnSeq := rm_turnSeq r + 1\<rparr>) ?z"
            by (rule chatter_steady)
        qed
        show ?thesis
          using lose rej acc False \<open>rm_engine r = Some e\<close> Some S
          unfolding handleBotMove_def Let_def by (simp add: rr)
      qed
    qed
  qed
qed

lemma turn_expired_good: "room_inv r \<Longrightarrow> good r (turn_expired ev r)"
proof -
  assume inv: "room_inv r"
  show ?thesis
  proof (cases "rm_engine r")
    case None
    with inv show ?thesis by (simp add: turn_expired_def good_chatter)
  next
    case (Some e)
    then have se: "seats_inv e" using inv by (simp add: room_inv_def game_inv_def)
    obtain g e' where T: "Timeout (ev_now ev) e = (g, e')" by fastforce
    have l: "losses e e'" using losses_Timeout [OF se, of "ev_now ev"] T by simp
    have "good r (applyEliminations (mark r) (r\<lparr>rm_engine := Some e'\<rparr>))"
      using good_op [OF inv Some l] by simp
    moreover have "r\<lparr>rm_engine := Some e'\<rparr> = r" if "\<not> g"
      using T that Some by (auto simp: Timeout_def split: if_splits)
    ultimately show ?thesis
      using T Some inv by (simp add: turn_expired_def Let_def good_chatter)
  qed
qed

end
