(* ===== verification/Room_Lobby_Inv.thy ===== *)
theory Room_Lobby_Inv
  imports Room_Inv
begin

text \<open>
  The operations that change who sits where, and the start of a game: each keeps the room's invariant.
\<close>

subsection \<open>General lemmas\<close>

lemma seat_names: "distinct seatIDs" "botPlayerID \<notin> set seatIDs" "[] \<notin> set seatIDs"
    "length seatIDs = maxPlayers" "botPlayerID \<noteq> []"
  by code_simp+

lemma seat_invD:
  assumes "seat_inv r"
  shows "length (rm_seats r) = maxPlayers"
    and "holds r i p c rd k \<Longrightarrow> i < maxPlayers"
    and "holds r i p c rd k \<Longrightarrow> p = seatIDs ! i \<or> rm_strategy r \<noteq> None \<and> i = 1 \<and> p = botPlayerID"
    and "holds r i p c rd k \<Longrightarrow> k \<le> rm_chatSeq r"
    and "holds r i p (Some d) rd k \<Longrightarrow> holds r j q (Some d) rd' k' \<Longrightarrow> i = j"
    and "ids r \<noteq> {} \<Longrightarrow> \<exists>i c k. holds r i (rm_owner r) c False k"
    and "ids r = {} \<Longrightarrow> rm_owner r = []"
  using assms by (auto simp: seat_inv_def holds_def cores_def split: if_splits)

lemma holds_fun: "holds r i p c rd k \<Longrightarrow> holds r i p' c' rd' k' \<Longrightarrow> p' = p \<and> c' = c \<and> rd' = rd \<and> k' = k"
  by (simp add: holds_def)

lemma holds_inj:
  assumes inv: "seat_inv r" and a: "holds r i p c rd k" and b: "holds r j p c' rd' k'"
  shows "i = j"
proof -
  have i: "i < length seatIDs" and j: "j < length seatIDs"
    using seat_invD(2) [OF inv a] seat_invD(2) [OF inv b] seat_names(4) by simp_all
  then have "seatIDs ! i \<noteq> botPlayerID" "seatIDs ! j \<noteq> botPlayerID"
    using seat_names(2) nth_mem by metis+
  with seat_invD(3) [OF inv a] seat_invD(3) [OF inv b] i j nth_eq_iff_index_eq [OF seat_names(1)]
  show ?thesis by metis
qed

lemma holds_nonempty:
  assumes inv: "seat_inv r" and "holds r i p c rd k"
  shows "p \<noteq> []"
proof -
  have "i < length seatIDs" using seat_invD(2) [OF assms] seat_names(4) by simp
  then have "seatIDs ! i \<noteq> []" using seat_names(3) nth_mem by metis
  with seat_invD(3) [OF assms] seat_names(5) show ?thesis by auto
qed

lemma holds_seatOf:
  assumes inv: "seat_inv r" and "seatOf r p = Some i"
  shows "holds r i p (se_sess (seat_at r i)) (se_ready (seat_at r i)) (se_chatFrom (seat_at r i))"
  using seatOf_Some [OF assms(2)] by (simp add: holds_iff seat_core_def)

lemma holds_upd:
  "holds (upd_seat i f r) j p c rd k \<longleftrightarrow>
     (if j = i then i < length (rm_seats r) \<and> (\<exists>s. rm_seats r ! i = Some s \<and> seat_core (f s) = (p, c, rd, k))
      else holds r j p c rd k)"
  by (cases "rm_seats r ! i") (auto simp: holds_iff upd_seat_def)

lemma holds_cong: "rm_seats r' = rm_seats r \<Longrightarrow> holds r' = holds r"
  by (intro ext) (simp add: holds_iff)

lemma ids_cong: "rm_seats r' = rm_seats r \<Longrightarrow> ids r' = ids r"
  using holds_cong [of r' r] by (simp add: ids_def)

lemma ids_map: "ids r = {p. Some p \<in> set (map (map_option se_id) (rm_seats r))}"
proof -
  have "Some p \<in> map_option se_id ` A \<longleftrightarrow> (\<exists>s. Some s \<in> A \<and> se_id s = p)" for p A
  proof
    assume "Some p \<in> map_option se_id ` A"
    then obtain x where "x \<in> A" "map_option se_id x = Some p" by (metis imageE)
    then show "\<exists>s. Some s \<in> A \<and> se_id s = p" by (cases x) auto
  next
    assume "\<exists>s. Some s \<in> A \<and> se_id s = p"
    then obtain s where "Some s \<in> A" "map_option se_id (Some s) = Some p" by auto
    then show "Some p \<in> map_option se_id ` A" by (metis imageI)
  qed
  then show ?thesis using ids_iff [of _ r] by (auto simp only: set_map)
qed

lemma ids_upd:
  assumes "\<And>s. se_id (f s) = se_id s"
  shows "ids (upd_seat i f r) = ids r"
proof -
  have "map (map_option se_id) (rm_seats (upd_seat i f r)) = map (map_option se_id) (rm_seats r)"
  proof (rule nth_equalityI)
    fix j
    assume "j < length (map (map_option se_id) (rm_seats (upd_seat i f r)))"
    then have "j < length (rm_seats r)" by simp
    then show "map (map_option se_id) (rm_seats (upd_seat i f r)) ! j = map (map_option se_id) (rm_seats r) ! j"
      using assms by (cases "rm_seats r ! j"; cases "j = i") (simp_all add: upd_seat_def)
  qed simp
  then show ?thesis unfolding ids_map by simp
qed

lemma chat_inv_keep:
  assumes "chat_inv r" and "\<And>i p c rd k. holds r i p c rd k \<Longrightarrow> \<exists>c' rd'. holds r' i p c' rd' k"
    and "rm_chat r' = rm_chat r" and "rm_chatSeq r' = rm_chatSeq r"
  shows "chat_inv r'"
  using assms unfolding chat_inv_def by metis

lemma game_inv_keep:
  assumes "game_inv r" and "rm_engine r' = rm_engine r" and "rm_liveCounted r' = rm_liveCounted r"
    and "ids r \<subseteq> ids r'"
  shows "game_inv r'"
  using assms by (cases "rm_engine r") (auto simp: game_inv_def)

lemma good_seat:
  assumes "room_inv r" and "rm_engine r' = rm_engine r" and "rm_liveCounted r' = rm_liveCounted r"
    and "drift r' = drift r" and "ids r \<subseteq> ids r'" and "seat_inv r'" and "chat_inv r'"
  shows "good r r'"
  using assms game_inv_keep [of r r'] by (simp add: good_def room_inv_def seq_ok_same)

lemma good_trans_steady: "good r a \<Longrightarrow> steady a b \<Longrightarrow> good r b"
  by (auto simp: good_def room_inv_steady seq_ok_def steady_def same_game_def)

lemma good_chatter_after: "good r a \<Longrightarrow> chatter a b \<Longrightarrow> good r b"
  using good_trans_steady chatter_steady by blast

subsection \<open>Changing one seat\<close>

text \<open>The invariant of the seats, with the owner's part of it apart.\<close>

definition seat_base :: "room \<Rightarrow> bool" where
  "seat_base r \<longleftrightarrow> length (rm_seats r) = maxPlayers \<and>
     (\<forall>i p c rd k. holds r i p c rd k \<longrightarrow>
        (p = seatIDs ! i \<or> rm_strategy r \<noteq> None \<and> i = 1 \<and> p = botPlayerID) \<and> k \<le> rm_chatSeq r) \<and>
     (\<forall>i j p q c rd rd' k k'. holds r i p (Some c) rd k \<and> holds r j q (Some c) rd' k' \<longrightarrow> i = j)"

definition owner_ok :: "room \<Rightarrow> bool" where
  "owner_ok r \<longleftrightarrow>
     (if ids r = {} then rm_owner r = [] else \<exists>i c k. holds r i (rm_owner r) c False k)"

lemma seat_inv_split: "seat_inv r \<longleftrightarrow> seat_base r \<and> owner_ok r"
  by (simp add: seat_inv_def seat_base_def owner_ok_def cores_def)

lemma seat_base_uniq:
  "seat_base r \<Longrightarrow> holds r i p (Some c) rd k \<Longrightarrow> holds r j q (Some c) rd' k' \<Longrightarrow> i = j"
  unfolding seat_base_def by blast

lemma holds_upd_keep:
  assumes f: "\<And>s. se_id (f s) = se_id s \<and> se_chatFrom (f s) = se_chatFrom s" and h: "holds r j p c rd k"
  shows "\<exists>c' rd'. holds (upd_seat i f r) j p c' rd' k"
proof -
  obtain s where "j < length (rm_seats r)" "rm_seats r ! j = Some s" "se_id s = p" "se_chatFrom s = k"
    using h by (auto simp: holds_iff seat_core_def)
  with h f have "holds (upd_seat i f r) j p (if j = i then se_sess (f s) else c)
      (if j = i then se_ready (f s) else rd) k"
    unfolding holds_upd by (cases "j = i") (auto simp: seat_core_def)
  then show ?thesis by blast
qed

text \<open>A change that keeps the player and the chat mark, takes no second seat, and readies no owner.\<close>

lemma seat_base_upd:
  assumes inv: "seat_base r"
    and f: "\<And>s. se_id (f s) = se_id s \<and> se_chatFrom (f s) = se_chatFrom s"
    and sess: "\<And>s d j q rd k. rm_seats r ! i = Some s \<Longrightarrow> se_sess (f s) = Some d \<Longrightarrow>
      holds r j q (Some d) rd k \<Longrightarrow> j = i"
  shows "seat_base (upd_seat i f r)"
proof -
  let ?r = "upd_seat i f r"
  have old: "\<exists>c' rd'. holds r j p c' rd' k" if "holds ?r j p c rd k" for j p c rd k
    using that f unfolding holds_upd by (auto simp: holds_iff seat_core_def split: if_splits)
  have len: "length (rm_seats ?r) = maxPlayers" using inv by (simp add: seat_base_def)
  have names: "(p = seatIDs ! j \<or> rm_strategy ?r \<noteq> None \<and> j = 1 \<and> p = botPlayerID) \<and> k \<le> rm_chatSeq ?r"
    if new: "holds ?r j p c rd k" for j p c rd k
  proof -
    obtain c' rd' where h: "holds r j p c' rd' k" using old [OF new] by blast
    show ?thesis using inv h unfolding seat_base_def upd_seat_fields by blast
  qed
  have uniq: "j = l" if a: "holds ?r j p (Some d) rd k" and b: "holds ?r l q (Some d) rd' k'"
    for j l p q d rd rd' k k'
  proof (cases "j = i"; cases "l = i")
    assume "j \<noteq> i" "l \<noteq> i"
    with a b have "holds r j p (Some d) rd k" "holds r l q (Some d) rd' k'" by (simp_all add: holds_upd)
    then show ?thesis by (rule seat_base_uniq [OF inv])
  next
    assume "j = i" "l \<noteq> i"
    with a b sess show ?thesis unfolding holds_upd by (auto simp: seat_core_def)
  next
    assume "j \<noteq> i" "l = i"
    with a b sess show ?thesis unfolding holds_upd by (auto simp: seat_core_def)
  qed simp
  show ?thesis unfolding seat_base_def using len names uniq by (intro conjI) blast+
qed

lemma seat_inv_upd:
  assumes inv: "seat_inv r"
    and f: "\<And>s. se_id (f s) = se_id s \<and> se_chatFrom (f s) = se_chatFrom s"
    and sess: "\<And>s d j q rd k. rm_seats r ! i = Some s \<Longrightarrow> se_sess (f s) = Some d \<Longrightarrow>
      holds r j q (Some d) rd k \<Longrightarrow> j = i"
    and ready: "\<And>s. rm_seats r ! i = Some s \<Longrightarrow> se_id s = rm_owner r \<Longrightarrow> \<not> se_ready s \<Longrightarrow> \<not> se_ready (f s)"
  shows "seat_inv (upd_seat i f r)"
proof -
  let ?r = "upd_seat i f r"
  have idr: "ids ?r = ids r" using f by (intro ids_upd) blast
  have own: "\<exists>j c k. holds ?r j (rm_owner ?r) c False k" if some: "ids r \<noteq> {}"
  proof -
    obtain j c k where h: "holds r j (rm_owner r) c False k" using seat_invD(6) [OF inv some] by blast
    show ?thesis
    proof (cases "j = i")
      case True
      with h ready f have "\<exists>c. holds ?r i (rm_owner r) c False k"
        unfolding holds_upd by (auto simp: holds_iff seat_core_def)
      then show ?thesis by auto
    next
      case False
      then have "holds ?r j (rm_owner r) c False k" using h by (simp add: holds_upd)
      then show ?thesis by auto
    qed
  qed
  then have "owner_ok ?r" unfolding owner_ok_def idr using seat_invD(7) [OF inv] by simp
  moreover have "seat_base r" using inv by (simp add: seat_inv_split)
  then have "seat_base ?r" by (rule seat_base_upd [OF _ f sess])
  ultimately show ?thesis by (simp add: seat_inv_split)
qed

lemma good_upd:
  assumes inv: "room_inv r"
    and f: "\<And>s. se_id (f s) = se_id s \<and> se_chatFrom (f s) = se_chatFrom s"
    and sess: "\<And>s d j q rd k. rm_seats r ! i = Some s \<Longrightarrow> se_sess (f s) = Some d \<Longrightarrow>
      holds r j q (Some d) rd k \<Longrightarrow> j = i"
    and ready: "\<And>s. rm_seats r ! i = Some s \<Longrightarrow> se_id s = rm_owner r \<Longrightarrow> \<not> se_ready s \<Longrightarrow> \<not> se_ready (f s)"
  shows "good r (upd_seat i f r)"
proof (rule good_seat [OF inv])
  have si: "seat_inv r" and ci: "chat_inv r" using inv by (simp_all add: room_inv_def)
  show "seat_inv (upd_seat i f r)" by (rule seat_inv_upd [OF si f sess ready])
  show "chat_inv (upd_seat i f r)"
  proof (rule chat_inv_keep [OF ci])
    fix j p c rd k
    assume "holds r j p c rd k"
    then show "\<exists>c' rd'. holds (upd_seat i f r) j p c' rd' k" by (rule holds_upd_keep [OF f])
  qed simp_all
  have "ids (upd_seat i f r) = ids r" using f by (intro ids_upd) blast
  then show "ids r \<subseteq> ids (upd_seat i f r)" by simp
qed (simp_all add: drift_def live_num_def)

lemma holdSeat_good:
  assumes inv: "room_inv r"
  shows "good r (holdSeat ev i r)"
proof -
  have "good r (upd_seat i (\<lambda>s. s\<lparr>se_heldFor := se_sess s, se_sess := None,
        se_graceUntil := Some (ev_now ev + rm_graceFor r)\<rparr>) r)"
    by (rule good_upd [OF inv]) simp_all
  then show ?thesis
    unfolding holdSeat_def using good_trans_steady steady_lobby [OF steady_refl] by blast
qed

lemma handleDisconnect_good: "room_inv r \<Longrightarrow> good r (handleDisconnect ev p c r)"
  by (auto simp: handleDisconnect_def good_chatter holdSeat_good split: option.split)


subsection \<open>Freeing a seat\<close>

lemma promote_from_Some:
  "promote_from k ss = Some i \<Longrightarrow> k \<le> i \<and> i < k + length ss \<and> (\<exists>s. ss ! (i - k) = Some s)"
proof (induction k ss rule: promote_from.induct)
  case (2 k ss)
  then have "k + 1 \<le> i" "i < k + 1 + length ss" "\<exists>s. ss ! (i - (k + 1)) = Some s" by auto
  moreover from this have "i - k = Suc (i - (k + 1))" by simp
  ultimately show ?case by simp
qed auto

lemma promote_from_None: "promote_from k ss = None \<longleftrightarrow> (\<forall>s. Some s \<notin> set ss)"
  by (induction k ss rule: promote_from.induct) auto

lemma promote_seat_inv:
  assumes base: "seat_base r"
  shows "seat_inv (promote r)" and "ids (promote r) = ids r"
    and "rm_chat (promote r) = rm_chat r" and "rm_chatSeq (promote r) = rm_chatSeq r"
    and "rm_engine (promote r) = rm_engine r" and "rm_liveCounted (promote r) = rm_liveCounted r"
    and "drift (promote r) = drift r" and "rm_turnSeq (promote r) = rm_turnSeq r"
    and "holds r j q c rd k \<Longrightarrow> \<exists>c' rd'. holds (promote r) j q c' rd' k"
proof -
  have "seat_inv (promote r) \<and> ids (promote r) = ids r \<and> rm_chat (promote r) = rm_chat r \<and>
    rm_chatSeq (promote r) = rm_chatSeq r \<and> rm_engine (promote r) = rm_engine r \<and>
    rm_liveCounted (promote r) = rm_liveCounted r \<and> drift (promote r) = drift r \<and>
    rm_turnSeq (promote r) = rm_turnSeq r \<and>
    (holds r j q c rd k \<longrightarrow> (\<exists>c' rd'. holds (promote r) j q c' rd' k))"
  proof (cases "promote_from 0 (rm_seats r)")
    case None
    have "promote r = r\<lparr>rm_owner := []\<rparr>" using None by (simp add: promote_def)
    moreover have "ids r = {}" using None promote_from_None [of 0 "rm_seats r"] ids_iff [of _ r] by blast
    moreover have "holds (r\<lparr>rm_owner := []\<rparr>) = holds r" "ids (r\<lparr>rm_owner := []\<rparr>) = ids r"
      by (rule holds_cong ids_cong, simp)+
    ultimately show ?thesis
      using base by (simp add: seat_inv_split seat_base_def owner_ok_def drift_def live_num_def) blast
  next
    case (Some i)
    then obtain s where s: "i < length (rm_seats r)" "rm_seats r ! i = Some s"
      using promote_from_Some [of 0 "rm_seats r" i] by auto
    define a where "a = r\<lparr>rm_owner := se_id s\<rparr>"
    have a: "holds a = holds r" "ids a = ids r" by (rule holds_cong ids_cong, simp add: a_def)+
    have ab: "seat_base a" using base unfolding seat_base_def a(1) by (simp add: a_def)
    let ?f = "\<lambda>s. s\<lparr>se_ready := False\<rparr>"
    have pr: "promote r = upd_seat i ?f a" using Some s by (simp add: promote_def a_def seat_at_def)
    have b: "seat_base (upd_seat i ?f a)"
    proof (rule seat_base_upd [OF ab])
      fix t d j q rd k
      assume "rm_seats a ! i = Some t" "se_sess (?f t) = Some d" "holds a j q (Some d) rd k"
      moreover from this s have "holds a i (se_id t) (Some d) (se_ready t) (se_chatFrom t)"
        by (simp add: holds_iff a_def seat_core_def)
      ultimately show "j = i" using seat_base_uniq [OF ab] by blast
    qed simp
    have own: "holds (upd_seat i ?f a) i (rm_owner (upd_seat i ?f a)) (se_sess s) False (se_chatFrom s)"
      unfolding holds_upd using s by (simp add: a_def seat_core_def)
    then have "owner_ok (upd_seat i ?f a)" unfolding owner_ok_def ids_def by auto
    moreover have "holds r j q c rd k \<longrightarrow> (\<exists>c' rd'. holds (upd_seat i ?f a) j q c' rd' k)"
      using holds_upd_keep [of ?f a j q c rd k i] a(1) by auto
    moreover have "ids (upd_seat i ?f a) = ids r" using ids_upd [of ?f i a] a(2) by simp
    moreover have "drift (upd_seat i ?f a) = drift r" by (simp add: a_def drift_def live_num_def)
    ultimately show ?thesis unfolding pr seat_inv_split using b by (simp add: a_def)
  qed
  then show "seat_inv (promote r)" and "ids (promote r) = ids r"
    and "rm_chat (promote r) = rm_chat r" and "rm_chatSeq (promote r) = rm_chatSeq r"
    and "rm_engine (promote r) = rm_engine r" and "rm_liveCounted (promote r) = rm_liveCounted r"
    and "drift (promote r) = drift r" and "rm_turnSeq (promote r) = rm_turnSeq r"
    and "holds r j q c rd k \<Longrightarrow> \<exists>c' rd'. holds (promote r) j q c' rd' k"
    by blast+
qed


text \<open>The seat emptied and the chat scrubbed, before the room is handed on.\<close>

definition emptied :: "nat \<Rightarrow> player \<Rightarrow> room \<Rightarrow> room" where
  "emptied i p r = r\<lparr>rm_seats := (rm_seats r)[i := None], rm_chat := map (scrub p) (rm_chat r)\<rparr>"

lemma vacate_released:
  assumes "rm_seats r ! i = Some s"
  shows "\<exists>a. chatter (emits (case se_sess s of None \<Rightarrow> [] | Some c \<Rightarrow> [Release c]) (emptied i (se_id s) r)) a \<and>
    vacate i r = (if rm_owner r = se_id s then promote a else a)"
proof -
  define xs where "xs = (case se_sess s of None \<Rightarrow> [] | Some c \<Rightarrow> [Release c])"
  define a where "a = emits xs (emptied i (se_id s) r)"
  define b where "b = (if list_ex (\<lambda>entry. ce_author entry = se_id s) (rm_chat r)
      then fold sendChatHistory (rm_seats a) a else a)"
  have "chatter a b" by (simp add: b_def chatter_fold)
  moreover have "rm_owner b = rm_owner r"
    using \<open>chatter a b\<close> by (auto simp: chatter_def a_def emptied_def)
  moreover have "vacate i r = (if rm_owner b = se_id s then promote b else b)"
  proof -
    have rel: "(case se_sess s of None \<Rightarrow> r | Some c \<Rightarrow> emit (Release c) r) = emits xs r"
      by (simp add: xs_def emit_emits split: option.split)
    have aeq: "(emits xs r)\<lparr>rm_seats := (rm_seats r)[i := None], rm_chat := map (scrub (se_id s)) (rm_chat r)\<rparr> = a"
      by (cases r) (simp add: a_def emptied_def emits_def)
    have chat: "rm_chat (emits xs r) = rm_chat r" "rm_seats (emits xs r) = rm_seats r" by simp_all
    show ?thesis
      unfolding vacate_def assms option.case Let_def rel chat
      by (simp add: aeq b_def)
  qed
  ultimately show ?thesis unfolding xs_def [symmetric] a_def [symmetric] by auto
qed

lemma vacate_emptied:
  assumes "rm_seats r ! i = Some s"
  shows "\<exists>a. chatter (emptied i (se_id s) r) a \<and>
    vacate i r = (if rm_owner r = se_id s then promote a else a)"
proof -
  have "talk (case se_sess s of None \<Rightarrow> [] | Some c \<Rightarrow> [Release c])" by (simp split: option.split)
  then show ?thesis using vacate_released [OF assms] chatter_trans [OF chatterI] by blast
qed


lemma holds_emptied: "holds (emptied i p r) j q c rd k \<longleftrightarrow> j \<noteq> i \<and> holds r j q c rd k"
  by (cases "j = i") (auto simp: holds_iff emptied_def)

lemma emptied_fields [simp]:
  "rm_strategy (emptied i p r) = rm_strategy r" "rm_chatSeq (emptied i p r) = rm_chatSeq r"
  "rm_owner (emptied i p r) = rm_owner r" "rm_engine (emptied i p r) = rm_engine r"
  "rm_liveCounted (emptied i p r) = rm_liveCounted r" "rm_turnSeq (emptied i p r) = rm_turnSeq r"
  "drift (emptied i p r) = drift r" "length (rm_seats (emptied i p r)) = length (rm_seats r)"
  by (simp_all add: emptied_def drift_def live_num_def)

lemma emptied_base: "seat_base r \<Longrightarrow> seat_base (emptied i p r)"
  unfolding seat_base_def holds_emptied emptied_fields by blast

lemma emptied_chat:
  assumes inv: "chat_inv r" and s: "rm_seats r ! i = Some s"
  shows "chat_inv (emptied i (se_id s) r)"
proof -
  let ?r = "emptied i (se_id s) r"
  have chat: "rm_chat ?r = map (scrub (se_id s)) (rm_chat r)" "rm_chatSeq ?r = rm_chatSeq r"
    by (simp_all add: emptied_def)
  have seqs: "map ce_seq (map (scrub (se_id s)) (rm_chat r)) = map ce_seq (rm_chat r)"
    by (simp add: scrub_def)
  have "ce_seq x \<le> rm_chatSeq r \<and> (ce_author x = [] \<longrightarrow> ce_name x = []) \<and>
      (ce_author x \<noteq> [] \<longrightarrow> (\<exists>j c rd k. holds ?r j (ce_author x) c rd k \<and> k < ce_seq x))"
    if x: "x \<in> set (rm_chat ?r)" for x
  proof -
    obtain y where y: "y \<in> set (rm_chat r)" "x = scrub (se_id s) y" using x chat(1) by auto
    have y': "ce_seq y \<le> rm_chatSeq r" "ce_author y = [] \<longrightarrow> ce_name y = []"
      "ce_author y \<noteq> [] \<longrightarrow> (\<exists>j c rd k. holds r j (ce_author y) c rd k \<and> k < ce_seq y)"
      using inv y(1) by (auto simp: chat_inv_def)
    show ?thesis
    proof (cases "ce_author y = se_id s")
      case True
      with y y' show ?thesis by (simp add: scrub_def)
    next
      case False
      have "\<exists>j c rd k. holds ?r j (ce_author y) c rd k \<and> k < ce_seq y" if ne: "ce_author y \<noteq> []"
      proof -
        obtain j c rd k where h: "holds r j (ce_author y) c rd k" "k < ce_seq y"
          using y'(3) ne by blast
        then have "j \<noteq> i" using s False by (auto simp: holds_iff seat_core_def)
        with h have "holds ?r j (ce_author y) c rd k" by (simp add: holds_emptied)
        with h(2) show ?thesis by blast
      qed
      with False y y' show ?thesis by (simp add: scrub_def)
    qed
  qed
  then show ?thesis
    using inv unfolding chat_inv_def chat(2) by (simp add: chat(1) seqs del: map_map)
qed

lemma seat_base_same: "same_seating r r' \<Longrightarrow> seat_base r' = seat_base r"
proof -
  assume s: "same_seating r r'"
  then have "cores r' = cores r" by (simp add: same_seating_def)
  then have "length (rm_seats r') = length (rm_seats r)" unfolding cores_def by (metis length_map)
  with s holds_same [OF s] show ?thesis by (simp add: seat_base_def same_seating_def)
qed

lemma vacate_good:
  assumes inv: "room_inv r" and len: "i < length (rm_seats r)"
    and gone: "\<And>s e. rm_seats r ! i = Some s \<Longrightarrow> rm_engine r = Some e \<Longrightarrow> \<not> over e \<Longrightarrow> \<not> Alive e (se_id s)"
  shows "good r (vacate i r)"
proof (cases "rm_seats r ! i")
  case None
  with inv show ?thesis by (simp add: vacate_def good_chatter)
next
  case (Some s)
  let ?m = "emptied i (se_id s) r"
  have si: "seat_inv r" "seat_base r" "chat_inv r" "game_inv r" "drift r = 0"
    using inv by (simp_all add: room_inv_def seat_inv_split)
  obtain a where a: "chatter ?m a" "vacate i r = (if rm_owner r = se_id s then promote a else a)"
    using vacate_emptied [OF Some] by blast
  have sa: "same_seating ?m a" "rm_engine a = rm_engine r" "rm_liveCounted a = rm_liveCounted r"
    "drift a = drift r" "rm_turnSeq a = rm_turnSeq r" "rm_owner a = rm_owner r"
    using chatter_steady [OF a(1)]
    by (simp_all add: steady_def same_game_def same_seating_def)
  have ha: "holds a = holds ?m" "ids a = ids ?m" using holds_same [OF sa(1)] ids_same [OF sa(1)] by blast+
  have base: "seat_base a"
    using emptied_base [OF si(2), of i "se_id s"] seat_base_same [OF sa(1)] by simp
  have chat: "chat_inv a" using emptied_chat [OF si(3) Some] chat_inv_same [OF sa(1)] by simp
  have left: "p \<in> ids a" if p: "p \<in> ids r" "p \<noteq> se_id s" for p
  proof -
    obtain j c rd k where h: "holds r j p c rd k" using p(1) by (auto simp: ids_def)
    then have "j \<noteq> i" using Some p(2) by (auto simp: holds_iff seat_core_def)
    with h show ?thesis unfolding ids_def ha(1) holds_emptied by blast
  qed
  have game: "game_inv a"
    using si(4) sa(2,3) left gone [OF Some] by (cases "rm_engine r") (auto simp: game_inv_def)
  show ?thesis
  proof (cases "rm_owner r = se_id s")
    case True
    note pr = promote_seat_inv [OF base]
    have "chat_inv (promote a)" by (rule chat_inv_keep [OF chat pr(9) pr(3,4)])
    moreover have "game_inv (promote a)" using game_inv_keep [OF game pr(5,6)] pr(2) by simp
    ultimately show ?thesis
      using True a(2) pr(1) pr(5,7) sa si(5) by (simp add: good_def room_inv_def seq_ok_same)
  next
    case False
    have "owner_ok a"
    proof -
      have "holds r i (se_id s) (se_sess s) (se_ready s) (se_chatFrom s)"
        using Some len by (simp add: holds_iff seat_core_def)
      then have "se_id s \<in> ids r" unfolding ids_def by blast
      then have "ids r \<noteq> {}" by blast
      then obtain j c k where h: "holds r j (rm_owner r) c False k" using seat_invD(6) [OF si(1)] by blast
      then have "j \<noteq> i" using Some False by (auto simp: holds_iff seat_core_def)
      with h have "holds a j (rm_owner a) c False k" unfolding ha(1) holds_emptied sa(6) by blast
      then show ?thesis unfolding owner_ok_def ids_def by auto
    qed
    with False a(2) base chat game sa si(5) show ?thesis
      by (simp add: good_def room_inv_def seat_inv_split seq_ok_same)
  qed
qed


subsection \<open>Taking a seat\<close>

definition sat :: "nat \<Rightarrow> str \<Rightarrow> conn \<Rightarrow> room \<Rightarrow> room" where
  "sat i n c r = r\<lparr>rm_seats := (rm_seats r)[i := Some \<lparr>se_id = seatIDs ! i, se_nickname = n,
     se_sess = Some c, se_ready = False, se_chatFrom = rm_chatSeq r, se_wins = 0,
     se_graceUntil = None, se_heldFor = None, se_missedResult = None\<rparr>]\<rparr>"

lemma takeSeat_sat: "takeSeat i n c r = emits [Attach c (seatIDs ! i), CancelQuickMatch c] (sat i n c r)"
  by (simp add: takeSeat_def sat_def)

lemma holds_sat: "i < length (rm_seats r) \<Longrightarrow> holds (sat i n c r) j p d rd k \<longleftrightarrow>
    (if j = i then (p, d, rd, k) = (seatIDs ! i, Some c, False, rm_chatSeq r) else holds r j p d rd k)"
  by (cases "j = i") (auto simp: holds_iff sat_def seat_core_def)

lemma sat_fields [simp]:
  "rm_strategy (sat i n c r) = rm_strategy r" "rm_chatSeq (sat i n c r) = rm_chatSeq r"
  "rm_owner (sat i n c r) = rm_owner r" "rm_engine (sat i n c r) = rm_engine r"
  "rm_liveCounted (sat i n c r) = rm_liveCounted r" "rm_turnSeq (sat i n c r) = rm_turnSeq r"
  "drift (sat i n c r) = drift r" "length (rm_seats (sat i n c r)) = length (rm_seats r)"
  "rm_chat (sat i n c r) = rm_chat r"
  by (simp_all add: sat_def drift_def live_num_def)

definition unseated :: "room \<Rightarrow> conn \<Rightarrow> bool" where
  "unseated r c \<longleftrightarrow> (\<forall>i p rd k. \<not> holds r i p (Some c) rd k)"

lemma sat_base:
  assumes base: "seat_base r" and i: "i < maxPlayers" and new: "unseated r c"
  shows "seat_base (sat i n c r)"
proof -
  have len: "i < length (rm_seats r)" using base i by (simp add: seat_base_def)
  note h = holds_sat [OF len]
  have old: "(p = seatIDs ! j \<or> rm_strategy r \<noteq> None \<and> j = 1 \<and> p = botPlayerID) \<and> k \<le> rm_chatSeq r"
    if "holds r j p d rd k" for j p d rd k
    using base that unfolding seat_base_def by blast
  have names: "(p = seatIDs ! j \<or> rm_strategy r \<noteq> None \<and> j = 1 \<and> p = botPlayerID) \<and> k \<le> rm_chatSeq r"
    if "holds (sat i n c r) j p d rd k" for j p d rd k
    using that old unfolding h by (cases "j = i") auto
  have uniq: "j = l" if a: "holds (sat i n c r) j p (Some d) rd k" and b: "holds (sat i n c r) l q (Some d) rd' k'"
    for j l p q d rd rd' k k'
  proof (cases "j = i"; cases "l = i")
    assume "j \<noteq> i" "l \<noteq> i"
    with a b have "holds r j p (Some d) rd k" "holds r l q (Some d) rd' k'" by (simp_all add: h)
    then show ?thesis by (rule seat_base_uniq [OF base])
  next
    assume "j = i" "l \<noteq> i"
    with a b new show ?thesis by (simp add: h unseated_def)
  next
    assume "j \<noteq> i" "l = i"
    with a b new show ?thesis by (simp add: h unseated_def)
  qed simp
  have "length (rm_seats (sat i n c r)) = maxPlayers" using base by (simp add: seat_base_def)
  with names uniq show ?thesis unfolding seat_base_def sat_fields by (intro conjI) blast+
qed

lemma sat_good:
  assumes inv: "room_inv r" and i: "i < maxPlayers" and free: "rm_seats r ! i = None"
    and new: "unseated r c" and "ids r \<noteq> {}"
  shows "good r (sat i n c r)"
proof (rule good_seat [OF inv])
  have si: "seat_inv r" and ci: "chat_inv r" using inv by (simp_all add: room_inv_def)
  have len: "i < length (rm_seats r)" using seat_invD(1) [OF si] i by simp
  note h = holds_sat [OF len]
  have old: "j \<noteq> i" if "holds r j p d rd k" for j p d rd k using that free by (auto simp: holds_iff)
  have keep: "holds (sat i n c r) j p d rd k" if "holds r j p d rd k" for j p d rd k
    using that old [OF that] by (simp add: h)
  obtain j d k where "holds r j (rm_owner r) d False k" using seat_invD(6) [OF si assms(5)] by blast
  then have own: "holds (sat i n c r) j (rm_owner (sat i n c r)) d False k" using keep by simp
  then have "owner_ok (sat i n c r)" unfolding owner_ok_def ids_def by auto
  moreover have "seat_base (sat i n c r)" using si sat_base [OF _ i new] by (simp add: seat_inv_split)
  ultimately show "seat_inv (sat i n c r)" by (simp add: seat_inv_split)
  show "chat_inv (sat i n c r)" by (rule chat_inv_keep [OF ci]) (use keep in \<open>blast | simp\<close>)+
  show "ids r \<subseteq> ids (sat i n c r)" unfolding ids_def using keep by blast
qed simp_all

lemma takeSeat_good:
  "room_inv r \<Longrightarrow> i < maxPlayers \<Longrightarrow> rm_seats r ! i = None \<Longrightarrow> unseated r c \<Longrightarrow> ids r \<noteq> {} \<Longrightarrow>
   good r (takeSeat i n c r)"
  unfolding takeSeat_sat using good_chatter_after [OF sat_good chatterI] by simp

subsection \<open>Starting a game\<close>

lemma cores_upd_seats: "cores (upd_seats f r) = map (map_option (\<lambda>s. seat_core (f s))) (rm_seats r)"
  by (simp add: cores_def upd_seats_def option.map_comp comp_def)

lemma holds_unready:
  assumes "\<And>s. seat_core (f s) = (se_id s, se_sess s, False, se_chatFrom s)"
  shows "holds (upd_seats f r) i p c rd k \<longleftrightarrow> \<not> rd \<and> (\<exists>rd'. holds r i p c rd' k)"
  unfolding holds_def cores_upd_seats using assms
  by (cases "rm_seats r ! i") (auto simp: cores_def seat_core_def)

lemma turn_order_ids:
  assumes "p \<in> set (turn_order ev r)"
  shows "p \<in> ids r"
proof -
  have "p \<in> se_id ` set (seated r)"
    using assms by (auto simp: turn_order_def Let_def dest: in_set_dropD in_set_takeD split: if_splits)
  then show ?thesis using ids_iff seated_iff by blast
qed

lemma beginGame_good:
  assumes inv: "room_inv r" and lobby: "inLobby r" and eq: "beginGame ev r = (ok, r')"
  shows "good r r'" and "\<not> ok \<Longrightarrow> r' = r"
proof -
  have "good r r' \<and> (\<not> ok \<longrightarrow> r' = r)"
  proof (cases "\<exists>w e. ev_opening ev = Some w \<and>
      New (Some (rd_game (rm_dict r))) (turn_order ev r) w (rm_turnLimit r) (ev_now ev) = Inr e")
    case False
    then have "r' = r" using eq by (auto simp: beginGame_def split: option.splits sum.splits)
    with inv show ?thesis by (simp add: good_chatter)
  next
    case True
    then obtain w e where w: "ev_opening ev = Some w"
      and e: "New (Some (rd_game (rm_dict r))) (turn_order ev r) w (rm_turnLimit r) (ev_now ev) = Inr e"
      by blast
    have se: "seats_inv e" "\<not> over e" "players e = turn_order ev r"
      by (rule New_ok [OF e], simp add: initial_engine_inv)+
    define f :: "seat \<Rightarrow> seat" where "f = (\<lambda>s. s\<lparr>se_ready := False, se_missedResult := None\<rparr>)"
    define b where "b = upd_seats f (r\<lparr>rm_engine := Some e, rm_opening := w, rm_outWire := Map.empty,
        rm_turnSeq := rm_turnSeq r + 1\<rparr>)"
    define c where "c = (emits [Count gamesStarted, HubGameStarted] b)\<lparr>rm_liveCounted := True\<rparr>"
    have r': "r' = maybeScheduleBot e (emits (map (\<lambda>cs. sendGameStarted e (Snapshot e) cs c) (connected c)) c)"
      "ok" using eq by (simp_all add: beginGame_def w e b_def c_def f_def Let_def)
    have chat: "chatter c r'"
      unfolding r' by (rule chatter_trans [OF chatterI chatter_maybeScheduleBot])
        (auto simp: sendGameStarted_def)
    have fc: "seat_core (f s) = (se_id s, se_sess s, False, se_chatFrom s)" for s
      by (simp add: f_def seat_core_def)
    have h: "holds c i p d rd k \<longleftrightarrow> \<not> rd \<and> (\<exists>rd'. holds r i p d rd' k)" for i p d rd k
    proof -
      have "holds c = holds b" by (rule holds_cong) (simp add: c_def)
      moreover have "holds (r\<lparr>rm_engine := Some e, rm_opening := w, rm_outWire := Map.empty,
        rm_turnSeq := rm_turnSeq r + 1\<rparr>) = holds r" by (rule holds_cong) simp
      ultimately show ?thesis unfolding b_def using holds_unready [OF fc] by simp
    qed
    have ids: "ids c = ids r" unfolding ids_def h by blast
    have cf: "rm_strategy c = rm_strategy r" "rm_chatSeq c = rm_chatSeq r" "rm_owner c = rm_owner r"
      "rm_chat c = rm_chat r" "rm_engine c = Some e" "rm_liveCounted c"
      "length (rm_seats c) = length (rm_seats r)" "rm_turnSeq c = rm_turnSeq r + 1"
      by (simp_all add: c_def b_def upd_seats_def)
    have si: "seat_base r" "owner_ok r" "chat_inv r" "game_inv r" "drift r = 0"
      using inv by (simp_all add: room_inv_def seat_inv_split)
    have "\<not> rm_liveCounted r" using si(4) lobby by (auto simp: game_inv_def inLobby_def split: option.splits)
    then have "drift c = 0"
      using si(5) by (simp add: c_def b_def drift_def live_num_def upd_seats_def balance_def)
    moreover have "seat_base c" using si(1) unfolding seat_base_def h cf by blast
    moreover have "owner_ok c" using si(2) unfolding owner_ok_def ids h cf by (simp split: if_splits) blast
    moreover have "chat_inv c" by (rule chat_inv_keep [OF si(3)]) (use h cf in auto)
    moreover have "game_inv c"
    proof -
      have "p \<in> ids r" if "Alive e p" for p
      proof -
        obtain i where i: "i \<in> alive_seats e" "players e ! i = p" using \<open>Alive e p\<close> Alive_iff [OF se(1)] by auto
        then have "i < length (players e)" using alive_seats_less [OF se(1)] by blast
        then have "p \<in> set (turn_order ev r)" using i(2) se(3) nth_mem by metis
        then show ?thesis by (rule turn_order_ids)
      qed
      with se cf(5,6) ids show ?thesis by (simp add: game_inv_def)
    qed
    ultimately have "room_inv c" by (simp add: room_inv_def seat_inv_split)
    then have "room_inv r'" using room_inv_chatter [OF chat] by simp
    moreover have "rm_turnSeq r' = rm_turnSeq r + 1"
      using chatter_steady [OF chat] cf(8) by (simp add: steady_def same_game_def)
    ultimately show ?thesis using r'(2) by (simp add: good_def seq_ok_next)
  qed
  then show "good r r'" and "\<not> ok \<Longrightarrow> r' = r" by blast+
qed

end
