(* ===== verification/Room_Steps.thy ===== *)
theory Room_Steps
  imports Room_Lobby_Inv
begin

text \<open>
  Every input keeps the room's invariant: joining and creating, the lobby's actions, lost and resumed
  connections, chat, the timers and the closing of the room.
\<close>

subsection \<open>Composing steps\<close>

lemma good_after:
  "rm_engine a = rm_engine r \<Longrightarrow> rm_turnSeq a = rm_turnSeq r \<Longrightarrow> good a b \<Longrightarrow> good r b"
  by (simp add: good_def seq_ok_def)

lemma good_before:
  "good r a \<Longrightarrow> room_inv b \<Longrightarrow> rm_engine b = rm_engine a \<Longrightarrow> rm_turnSeq b = rm_turnSeq a \<Longrightarrow> good r b"
  by (simp add: good_def seq_ok_def)

lemma goodD: "good r a \<Longrightarrow> room_inv a"
  by (simp add: good_def)

lemma good_lobby: "good r a \<Longrightarrow> good r (a\<lparr>rm_lobbyChanged := b\<rparr>)"
  by (rule good_trans_steady [OF _ steady_lobby [OF steady_refl]])

lemma good_replays: "good r a \<Longrightarrow> good r (a\<lparr>rm_resumeReplays := xs\<rparr>)"
  by (rule good_trans_steady [OF _ steady_replays [OF steady_refl]])

lemma steady_auto: "steady r (r\<lparr>rm_autoStart := b\<rparr>)" "steady r (r\<lparr>rm_cancelled := b\<rparr>)"
  by (auto simp: steady_def same_seating_def same_game_def cores_def drift_def live_num_def)

lemma good_cancelled: "good r a \<Longrightarrow> good r (a\<lparr>rm_cancelled := b\<rparr>)"
  by (rule good_trans_steady [OF _ steady_auto(2)])

lemma takeSeat_fields [simp]:
  "rm_engine (takeSeat i n c r) = rm_engine r" "rm_turnSeq (takeSeat i n c r) = rm_turnSeq r"
  "rm_strategy (takeSeat i n c r) = rm_strategy r"
  by (simp_all add: takeSeat_sat)

lemma holdSeat_fields [simp]:
  "rm_engine (holdSeat ev i r) = rm_engine r" "rm_turnSeq (holdSeat ev i r) = rm_turnSeq r"
  by (simp_all add: holdSeat_def)

lemma inLobby_engine: "rm_engine r' = rm_engine r \<Longrightarrow> inLobby r' = inLobby r"
  by (simp add: inLobby_def)

lemma chatter_fields:
  assumes "chatter r r'"
  shows "rm_engine r' = rm_engine r" "rm_turnSeq r' = rm_turnSeq r" "rm_seats r' = rm_seats r"
  using assms by (auto simp: chatter_def)

subsection \<open>Coming in\<close>

lemma unseated_connected: "c \<notin> fst ` set (connected r) \<Longrightarrow> unseated r c"
proof -
  assume c: "c \<notin> fst ` set (connected r)"
  have False if h: "holds r i p (Some c) rd k" for i p rd k
  proof -
    obtain s where s: "i < length (rm_seats r)" "rm_seats r ! i = Some s" "se_sess s = Some c"
      using h by (auto simp: holds_iff seat_core_def)
    then have "Some s \<in> set (rm_seats r)" using nth_mem by metis
    with s(3) have "(c, s) \<in> set (connected r)" by (simp add: connected_iff)
    with c show False by force
  qed
  then show ?thesis unfolding unseated_def by blast
qed

lemma occupied_iff: "occupied r \<longleftrightarrow> ids r \<noteq> {}"
proof -
  have "occupied r \<longleftrightarrow> (\<exists>s. Some s \<in> set (rm_seats r))"
    using seated_iff [of _ r] by (cases "seated r") (auto simp: occupied_def seatedCount_def)
  also have "\<dots> \<longleftrightarrow> ids r \<noteq> {}" using ids_iff [of _ r] by blast
  finally show ?thesis .
qed

lemma free_from_Some:
  "free_from k ss = Some i \<Longrightarrow> k \<le> i \<and> i < k + length ss \<and> ss ! (i - k) = None"
proof (induction k ss rule: free_from.induct)
  case (3 k s ss)
  then have "k + 1 \<le> i" "i < k + 1 + length ss" "ss ! (i - (k + 1)) = None" by auto
  moreover from this have "i - k = Suc (i - (k + 1))" by simp
  ultimately show ?case by simp
qed auto

lemma freeSeat_Some: "freeSeat r = Some i \<Longrightarrow> i < length (rm_seats r) \<and> rm_seats r ! i = None"
  using free_from_Some [of 0 "rm_seats r" i] by (simp add: freeSeat_def)

lemma begin_good:
  assumes "room_inv a" and "inLobby a"
  shows "good a (let (ok, r) = beginGame ev a in if ok then r else broadcastError code r)"
proof -
  obtain ok b where b: "beginGame ev a = (ok, b)" by fastforce
  have "good a b" by (rule beginGame_good(1) [OF assms b])
  moreover from this have "good a (broadcastError code b)" by (rule good_chatter_after) simp
  ultimately show ?thesis by (simp add: b)
qed

lemma handleJoin_good:
  assumes "room_inv r"
  shows "good r (handleJoin ev c r)"
proof -
  define z where "z = r\<lparr>rm_autoStart := False\<rparr>"
  have z: "steady r z" "rm_engine z = rm_engine r" "rm_turnSeq z = rm_turnSeq r"
    unfolding z_def by (simp_all add: steady_auto)
  have inv: "room_inv z" using room_inv_steady [OF z(1) assms] .
  have triv: "good z (reply c code z)" "good z (reply c code (emit (Count joinsRefusedFull) z))" for code
    using inv chatter_trans [OF chatter_emit chatter_reply] by (simp_all add: good_chatter)
  have "good z (handleJoin ev c r)"
  proof (cases "if occupied z then freeSeat z else None")
    case None
    then show ?thesis using triv unfolding handleJoin_def Let_def z_def [symmetric] by simp
  next
    case (Some i)
    then have occ: "occupied z" and fr: "freeSeat z = Some i" by (simp_all split: if_splits)
    show ?thesis
    proof (cases "\<not> inLobby z \<or> c \<in> fst ` set (connected z)")
      case True
      then show ?thesis using triv Some unfolding handleJoin_def Let_def z_def [symmetric] by auto
    next
      case False
      define a where "a = (takeSeat i (distinguish (ev_nickname ev c) (takenNicknames z)) c z)
          \<lparr>rm_lobbyChanged := True\<rparr>"
      have len: "i < maxPlayers" "rm_seats z ! i = None"
        using freeSeat_Some [OF fr] inv seat_invD(1) [of z] by (simp_all add: room_inv_def)
      have un: "unseated z c" using False unseated_connected by blast
      have "good z (takeSeat i (distinguish (ev_nickname ev c) (takenNicknames z)) c z)"
        by (rule takeSeat_good [OF inv len un]) (use occ in \<open>simp add: occupied_iff\<close>)
      then have ga: "good z a" unfolding a_def by (rule good_lobby)
      have ea: "rm_engine a = rm_engine z" "rm_turnSeq a = rm_turnSeq z" by (simp_all add: a_def)
      have held: "good z (holdSeat ev i a)" by (rule good_after [OF ea holdSeat_good [OF goodD [OF ga]]])
      define b where "b = sendChatHistory (rm_seats a ! i) a"
      have cb: "chatter a b" by (simp add: b_def)
      have gb: "good z b" by (rule good_chatter_after [OF ga cb])
      have eb: "rm_engine b = rm_engine z" "rm_turnSeq b = rm_turnSeq z"
        using chatter_fields [OF cb] ea by simp_all
      define d where "d = broadcastRoomState (b\<lparr>rm_lobbyChanged := False\<rparr>)"
      have cd: "chatter (b\<lparr>rm_lobbyChanged := False\<rparr>) d" by (simp add: d_def)
      have gd: "good z d" by (rule good_chatter_after [OF good_lobby [OF gb] cd])
      have ed: "rm_engine d = rm_engine z" "rm_turnSeq d = rm_turnSeq z"
        using chatter_fields [OF cd] eb by simp_all
      have "inLobby d" using False inLobby_engine [OF ed(1)] by simp
      then have start: "good z (let (ok, r) = beginGame ev d in if ok then r else broadcastError codeGameStartFailed r)"
        by (rule good_after [OF ed begin_good [OF goodD [OF gd]]])
      have drain: "good z (broadcastError codeServerRestarting b)"
        by (rule good_chatter_after [OF gb]) simp
      show ?thesis
        using held gb start drain False
        unfolding handleJoin_def Let_def z_def [symmetric] Some option.case a_def [symmetric]
          b_def [symmetric] d_def [symmetric]
        by simp
    qed
  qed
  then show ?thesis by (rule good_after [OF z(2,3)])
qed


subsection \<open>Opening a room\<close>

lemma vacant_holds: "ids r = {} \<Longrightarrow> \<not> holds r i p c rd k"
  by (auto simp: ids_def)

lemma vacant_unseated: "ids r = {} \<Longrightarrow> unseated r c"
  by (simp add: unseated_def vacant_holds)

lemma opened_inv:
  assumes inv: "room_inv r" and vac: "ids r = {}" and base: "seat_base z"
    and own: "holds z 0 (rm_owner z) c False k"
    and same: "rm_chat z = rm_chat r" "rm_chatSeq z = rm_chatSeq r" "rm_engine z = rm_engine r"
      "rm_liveCounted z = rm_liveCounted r" "drift z = drift r"
  shows "room_inv z"
proof -
  have "owner_ok z" unfolding owner_ok_def ids_def using own by auto
  moreover have "chat_inv z"
    by (rule chat_inv_keep [OF _ _ same(1,2)]) (use inv vacant_holds [OF vac] in \<open>auto simp: room_inv_def\<close>)
  moreover have "game_inv z"
    by (rule game_inv_keep [OF _ same(3,4)]) (use inv vac in \<open>auto simp: room_inv_def\<close>)
  ultimately show ?thesis using base same(5) inv by (simp add: room_inv_def seat_inv_split)
qed

lemma vacant_inLobby:
  assumes "room_inv r" and "ids r = {}"
  shows "inLobby r"
proof (cases "rm_engine r")
  case (Some e)
  have "over e"
  proof (rule ccontr)
    assume going: "\<not> over e"
    then have e: "seats_inv e" "\<forall>p. \<not> Alive e p" using assms Some by (auto simp: room_inv_def game_inv_def)
    then show False using going seats_invD [of e] Alive_iff [OF e(1)] by (auto simp: Turn_def)
  qed
  with Some show ?thesis by (simp add: inLobby_def)
qed (simp add: inLobby_def)

lemma owner_upd_base: "seat_base r \<Longrightarrow> seat_base (r\<lparr>rm_owner := p\<rparr>)"
  using holds_cong [of "r\<lparr>rm_owner := p\<rparr>" r] by (simp add: seat_base_def)

lemma handleCreate_good:
  assumes inv: "room_inv r" and vac: "ids r = {}"
  shows "good r (handleCreate ev c b r)"
proof -
  have base: "seat_base r" using inv by (simp add: room_inv_def seat_inv_split)
  have len: "0 < length (rm_seats r)" using base by (simp add: seat_base_def maxPlayers_def)
  define s where "s = sat 0 (ev_nickname ev c) c r"
  define z where "z = s\<lparr>rm_owner := seatIDs ! 0\<rparr>"
  have hz: "holds z = holds s" by (rule holds_cong) (simp add: z_def)
  have "seat_base s" unfolding s_def
    by (rule sat_base [OF base]) (simp_all add: maxPlayers_def vacant_unseated [OF vac])
  then have "seat_base z" unfolding z_def by (rule owner_upd_base)
  then have "room_inv z"
  proof (rule opened_inv [OF inv vac])
    show "holds z 0 (rm_owner z) (Some c) False (rm_chatSeq r)"
      unfolding hz s_def holds_sat [OF len] by (simp add: z_def)
  qed (simp_all add: z_def s_def sat_def drift_def live_num_def)
  define a where "a = emits [Attach c (seatIDs ! 0), CancelQuickMatch c] z"
  have "chatter z a" unfolding a_def by (rule chatterI) simp
  then have "room_inv a" using room_inv_steady [OF chatter_steady] \<open>room_inv z\<close> by blast
  define y where "y = a\<lparr>rm_autoStart := b, rm_lobbyChanged := True\<rparr>"
  have y: "(takeSeat 0 (ev_nickname ev c) c r)\<lparr>rm_owner := seatIDs ! 0, rm_autoStart := b,
      rm_lobbyChanged := True\<rparr> = y"
    by (simp add: y_def a_def z_def s_def takeSeat_sat emits_def)
  have "steady a y" unfolding y_def by (rule steady_lobby [OF steady_auto(1)])
  then have yi: "room_inv y" using room_inv_steady \<open>room_inv a\<close> by blast
  have ey: "rm_engine y = rm_engine r" "rm_turnSeq y = rm_turnSeq r"
    by (simp_all add: y_def a_def z_def s_def)
  have "good y (holdSeat ev 0 y)" by (rule holdSeat_good [OF yi])
  moreover have "good y (sendChatHistory (rm_seats y ! 0) y)" using yi by (simp add: good_chatter)
  ultimately show ?thesis
    using good_after [OF ey] unfolding handleCreate_def Let_def y by simp
qed

lemma handleStartBot_good:
  assumes inv: "room_inv r" and vac: "ids r = {}"
  shows "good r (handleStartBot ev c d r)"
proof -
  have base: "seat_base r" using inv by (simp add: room_inv_def seat_inv_split)
  have len: "length (rm_seats r) = maxPlayers" using base by (simp add: seat_base_def)
  define bot where "bot = \<lparr>se_id = botPlayerID, se_nickname = botName, se_sess = None, se_ready = False,
     se_chatFrom = 0, se_wins = 0, se_graceUntil = None, se_heldFor = None, se_missedResult = None\<rparr>"
  define y where "y = takeSeat 0 (ev_nickname ev c) c (r\<lparr>rm_strategy := Some d\<rparr>)"
  define z where "z = y\<lparr>rm_seats := (rm_seats y)[1 := Some bot], rm_owner := seatIDs ! 0\<rparr>"
  have none: "rm_seats r ! j = None" if "j < maxPlayers" for j
    using vacant_holds [OF vac, of j] that len by (cases "rm_seats r ! j") (auto simp: holds_iff seat_core_def)
  have hz: "holds z j p e rd k \<longleftrightarrow>
      j = 0 \<and> (p, e, rd, k) = (seatIDs ! 0, Some c, False, rm_chatSeq r) \<or>
      j = 1 \<and> (p, e, rd, k) = (botPlayerID, None, False, 0)" for j p e rd k
    using none [of j] len
    by (auto simp: holds_iff z_def y_def takeSeat_def bot_def seat_core_def nth_list_update maxPlayers_def)
  have zf: "rm_strategy z = Some d" "rm_chat z = rm_chat r" "rm_chatSeq z = rm_chatSeq r"
    "rm_engine z = rm_engine r" "rm_liveCounted z = rm_liveCounted r" "rm_turnSeq z = rm_turnSeq r"
    "length (rm_seats z) = maxPlayers" "rm_owner z = seatIDs ! 0"
    using len by (simp_all add: z_def y_def takeSeat_sat sat_def)
  have dz: "drift z = drift r"
    by (simp add: z_def y_def takeSeat_sat sat_def drift_def live_num_def balance_def)
  have "seat_base z" unfolding seat_base_def hz zf by auto
  then have iz: "room_inv z"
  proof (rule opened_inv [OF inv vac])
    show "holds z 0 (rm_owner z) (Some c) False (rm_chatSeq r)" unfolding hz zf by simp
  qed (simp_all add: zf dz)
  have "inLobby z" using vacant_inLobby [OF inv vac] inLobby_engine [OF zf(4)] by simp
  obtain ok a where b: "beginGame ev z = (ok, a)" by fastforce
  have ga: "good z a" by (rule beginGame_good(1) [OF iz \<open>inLobby z\<close> b])
  have "good z ((reply c codeGameStartFailed a)\<lparr>rm_cancelled := True\<rparr>)"
    by (rule good_cancelled [OF good_chatter_after [OF ga]]) simp
  moreover have "good z (z\<lparr>rm_cancelled := True\<rparr>)"
    by (rule good_cancelled) (use iz in \<open>simp add: good_chatter\<close>)
  ultimately show ?thesis
    using good_after [OF zf(4,6)] ga
    unfolding handleStartBot_def Let_def y_def [symmetric] bot_def [symmetric] z_def [symmetric] b
    by simp
qed


subsection \<open>The lobby\<close>

lemma same_sess:
  assumes "seat_inv r" and "rm_seats r ! i = Some s" and "i < length (rm_seats r)"
    and "se_sess s = Some d" and "holds r j q (Some d) rd k"
  shows "j = i"
proof -
  have "holds r i (se_id s) (Some d) (se_ready s) (se_chatFrom s)"
    using assms(2,3,4) by (simp add: holds_iff seat_core_def)
  then show ?thesis by (rule seat_invD(5) [OF assms(1) assms(5)])
qed

lemma lobby_ready_good:
  assumes inv: "room_inv r" and i: "seatOf r p = Some i"
  shows "good r (lobby_ready c i (p = rm_owner r) ready r)"
proof (cases "p = rm_owner r")
  case False
  note s = seatOf_Some [OF i]
  have si: "seat_inv r" using inv by (simp add: room_inv_def)
  have "good r (upd_seat i (\<lambda>s. s\<lparr>se_ready := ready\<rparr>) r)"
  proof (rule good_upd [OF inv])
    fix t d j q rd k
    assume "rm_seats r ! i = Some t" "se_sess (t\<lparr>se_ready := ready\<rparr>) = Some d" "holds r j q (Some d) rd k"
    then show "j = i" using same_sess [OF si _ s(1)] by simp
  next
    fix t
    assume "rm_seats r ! i = Some t" "se_id t = rm_owner r"
    then show "\<not> se_ready (t\<lparr>se_ready := ready\<rparr>)" using s False by simp
  qed simp
  then show ?thesis using False good_lobby by (simp add: lobby_ready_def)
qed (use inv in \<open>simp add: lobby_ready_def good_chatter\<close>)

lemma lobby_start_good:
  assumes inv: "room_inv r" and "inLobby r"
  shows "good r (lobby_start ev c own r)"
  using good_chatter [OF inv chatter_reply] begin_good [OF assms] by (simp add: lobby_start_def)

lemma vacate_lobby_good:
  assumes "room_inv r" and "i < length (rm_seats r)" and "inLobby r"
  shows "good r (vacate i r)"
  by (rule vacate_good [OF assms(1,2)]) (use assms(3) in \<open>auto simp: inLobby_def\<close>)

lemma lobby_kick_good:
  assumes inv: "room_inv r" and lobby: "inLobby r"
  shows "good r (lobby_kick c mine own victim r)"
proof (cases "seatOf r victim")
  case None
  with inv show ?thesis by (simp add: lobby_kick_def good_chatter)
next
  case (Some t)
  have v: "good r (vacate t r)" by (rule vacate_lobby_good [OF inv seatOf_Some(1) [OF Some] lobby])
  have "good r ((case k of None \<Rightarrow> vacate t r | Some d \<Rightarrow> reply d codeKicked (vacate t r))
      \<lparr>rm_lobbyChanged := True\<rparr>)" for k
    using good_lobby [OF v] good_lobby [OF good_chatter_after [OF v chatter_reply]] by (cases k) simp_all
  with Some inv show ?thesis by (simp add: lobby_kick_def good_chatter Let_def)
qed

subsection \<open>Leaving a running game\<close>

text \<open>A seat keeps its player while anything happens to the others.\<close>

lemma promote_holds:
  "holds (promote r) j q c rd k \<Longrightarrow> \<exists>c' rd'. holds r j q c' rd' k"
proof -
  assume h: "holds (promote r) j q c rd k"
  have o: "holds (r\<lparr>rm_owner := p\<rparr>) = holds r" for p by (rule holds_cong) simp
  show ?thesis
  proof (cases "promote_from 0 (rm_seats r)")
    case None
    with h o show ?thesis by (auto simp: promote_def)
  next
    case (Some i)
    have "holds (upd_seat i (\<lambda>s. s\<lparr>se_ready := False\<rparr>) (r\<lparr>rm_owner := se_id (seat_at r i)\<rparr>)) j q c rd k"
      using h Some by (simp add: promote_def)
    then show ?thesis unfolding holds_upd o by (auto simp: holds_iff seat_core_def split: if_splits)
  qed
qed

lemma vacate_holds:
  assumes "holds (vacate i r) j q c rd k"
  shows "\<exists>c' rd'. holds r j q c' rd' k"
proof (cases "rm_seats r ! i")
  case None
  with assms show ?thesis by (auto simp: vacate_def)
next
  case (Some s)
  obtain a where a: "chatter (emptied i (se_id s) r) a"
      "vacate i r = (if rm_owner r = se_id s then promote a else a)"
    using vacate_emptied [OF Some] by blast
  have "holds a = holds (emptied i (se_id s) r)" using holds_same [OF chatter_same [OF a(1)]] .
  then show ?thesis using assms promote_holds [of a j q c rd k] unfolding a(2)
    by (auto simp: holds_emptied split: if_splits)
qed

lemma promote_fields [simp]: "rm_engine (promote r) = rm_engine r" "rm_turnSeq (promote r) = rm_turnSeq r"
  "length (rm_seats (promote r)) = length (rm_seats r)"
  by (simp_all add: promote_def split: option.split)

lemma vacate_fields [simp]: "rm_engine (vacate i r) = rm_engine r" "rm_turnSeq (vacate i r) = rm_turnSeq r"
  "length (rm_seats (vacate i r)) = length (rm_seats r)"
proof -
  have "rm_engine (vacate i r) = rm_engine r \<and> rm_turnSeq (vacate i r) = rm_turnSeq r \<and>
    length (rm_seats (vacate i r)) = length (rm_seats r)"
  proof (cases "rm_seats r ! i")
    case None
    then show ?thesis by (simp add: vacate_def)
  next
    case (Some s)
    obtain a where a: "chatter (emptied i (se_id s) r) a"
        "vacate i r = (if rm_owner r = se_id s then promote a else a)"
      using vacate_emptied [OF Some] by blast
    then show ?thesis using chatter_fields [OF a(1)] by simp
  qed
  then show "rm_engine (vacate i r) = rm_engine r" "rm_turnSeq (vacate i r) = rm_turnSeq r"
    "length (rm_seats (vacate i r)) = length (rm_seats r)" by blast+
qed

text \<open>Nobody who still has a move to make is sitting at one of these places.\<close>

definition out_of_game :: "room \<Rightarrow> nat list \<Rightarrow> bool" where
  "out_of_game r is \<longleftrightarrow> (\<forall>i \<in> set is. \<forall>p c rd k e.
     holds r i p c rd k \<and> rm_engine r = Some e \<and> \<not> over e \<longrightarrow> \<not> Alive e p)"

lemma vacate_all_good:
  assumes "room_inv r" and "\<forall>i \<in> set is. i < length (rm_seats r)" and "out_of_game r is"
  shows "room_inv (fold vacate is r) \<and> rm_engine (fold vacate is r) = rm_engine r \<and>
    rm_turnSeq (fold vacate is r) = rm_turnSeq r"
  using assms
proof (induction "is" arbitrary: r)
  case (Cons i "is")
  have len: "i < length (rm_seats r)" using Cons.prems(2) by simp
  have "room_inv (vacate i r)"
  proof (rule goodD [OF vacate_good [OF Cons.prems(1) len]])
    fix s e
    assume "rm_seats r ! i = Some s" "rm_engine r = Some e" "\<not> over e"
    moreover from this len have "holds r i (se_id s) (se_sess s) (se_ready s) (se_chatFrom s)"
      by (simp add: holds_iff seat_core_def)
    ultimately show "\<not> Alive e (se_id s)" using Cons.prems(3) by (auto simp: out_of_game_def)
  qed
  moreover have "out_of_game (vacate i r) is"
    unfolding out_of_game_def vacate_fields
  proof (intro ballI allI impI)
    fix j p c rd k e
    assume j: "j \<in> set is" and h: "holds (vacate i r) j p c rd k \<and> rm_engine r = Some e \<and> \<not> over e"
    then obtain c' rd' where "holds r j p c' rd' k" using vacate_holds by blast
    with j h Cons.prems(3) show "\<not> Alive e p" unfolding out_of_game_def by (metis list.set_intros(2))
  qed
  moreover have "\<forall>i \<in> set is. i < length (rm_seats (vacate i r))" using Cons.prems(2) by simp
  moreover have "\<forall>j \<in> set is. j < length (rm_seats (vacate i r))" using Cons.prems(2) by simp
  ultimately have "room_inv (fold vacate is (vacate i r)) \<and>
      rm_engine (fold vacate is (vacate i r)) = rm_engine (vacate i r) \<and>
      rm_turnSeq (fold vacate is (vacate i r)) = rm_turnSeq (vacate i r)"
    using Cons.IH by blast
  then show ?case by simp
qed simp

end
