(* ===== verification/Room_Presence_Inv.thy ===== *)
theory Room_Presence_Inv
  imports Room_Steps
begin

text \<open>
  Absence and return: reconnect windows that run out, players who leave a running game, connections
  that come back, and the conversation.
\<close>

subsection \<open>Out of the game\<close>

lemma eliminateAbsent_facts:
  assumes eng: "rm_engine r = Some e" and inv: "seats_inv e"
  shows "\<exists>e' w. eliminateAbsent ev p r = r\<lparr>rm_outWire := w, rm_engine := Some e'\<rparr> \<and> losses e e' \<and>
    (over e' \<or> \<not> Alive e' p)"
proof (cases "over e \<or> \<not> Alive e p")
  case True
  have "eliminateAbsent ev p r = r\<lparr>rm_outWire := rm_outWire r, rm_engine := Some e\<rparr>"
    using True eng by (simp add: eliminateAbsent_def)
  with True losses_refl [OF inv] show ?thesis by blast
next
  case False
  let ?e = "snd (Resign p (ev_now ev) e)"
  have l: "losses e ?e" by (rule losses_Resign [OF inv])
  obtain a where el: "eliminate p EndResigned e = (True, a)"
    using False eliminate_gone_iff [OF inv, of p EndResigned] by (cases "eliminate p EndResigned e") auto
  have out: "outOrder a = outOrder e @ [p]"
    using False eliminate_alive(3) [OF inv, of p EndResigned] el by simp
  have "seats_inv a" using False inv el eliminate_inv [of e EndResigned p] by simp
  then obtain qs where "outOrder (settle a) = outOrder a @ qs" using settle_outOrder by blast
  then have "p \<in> set (outOrder ?e)" using out by (cases "over e") (use False in \<open>simp_all add: Resign_def el Let_def\<close>)
  moreover have "seats_inv ?e" using l by (simp add: losses_def)
  ultimately have "\<not> Alive ?e p" using outOrder_iff [of ?e p] by blast
  with l False eng show ?thesis by (auto simp: eliminateAbsent_def)
qed

lemma losses_gone:
  assumes "seats_inv a" and "losses a b" and "over a \<or> \<not> Alive a p"
  shows "over b \<or> \<not> Alive b p"
  using losses_Alive [OF assms(1,2)] assms(2,3) by (auto simp: losses_def)

lemma eliminateAbsent_all:
  assumes "rm_engine r = Some e" and "seats_inv e"
  shows "\<exists>e' w. fold (\<lambda>i. eliminateAbsent ev (f i)) xs r = r\<lparr>rm_outWire := w, rm_engine := Some e'\<rparr> \<and>
    losses e e' \<and> (\<forall>i \<in> set xs. over e' \<or> \<not> Alive e' (f i))"
  using assms
proof (induction xs arbitrary: r e)
  case Nil
  then have "r = r\<lparr>rm_outWire := rm_outWire r, rm_engine := Some e\<rparr>" by simp
  with losses_refl [OF Nil(2)] show ?case by (intro exI [of _ e] exI [of _ "rm_outWire r"]) simp
next
  case (Cons i xs)
  obtain a w where a: "eliminateAbsent ev (f i) r = r\<lparr>rm_outWire := w, rm_engine := Some a\<rparr>"
      "losses e a" "over a \<or> \<not> Alive a (f i)"
    using eliminateAbsent_facts [OF Cons.prems, of ev "f i"] by blast
  have sa: "seats_inv a" using a(2) by (simp add: losses_def)
  let ?r = "r\<lparr>rm_outWire := w, rm_engine := Some a\<rparr>"
  have "rm_engine ?r = Some a" by simp
  then obtain b v where b: "fold (\<lambda>i. eliminateAbsent ev (f i)) xs ?r = ?r\<lparr>rm_outWire := v, rm_engine := Some b\<rparr>"
      "losses a b" "\<forall>i \<in> set xs. over b \<or> \<not> Alive b (f i)"
    using Cons.IH [of ?r a] sa by blast
  have "losses e b" by (rule losses_trans [OF a(2) b(2)])
  moreover have "over b \<or> \<not> Alive b (f i)" by (rule losses_gone [OF sa b(2) a(3)])
  moreover have "fold (\<lambda>i. eliminateAbsent ev (f i)) (i # xs) r = r\<lparr>rm_outWire := v, rm_engine := Some b\<rparr>"
    using b(1) by (simp add: a(1))
  ultimately show ?case using b(3) by (intro exI conjI) auto
qed

lemma steady_outWire:
  "steady (r\<lparr>rm_engine := Some e\<rparr>) (r\<lparr>rm_outWire := w, rm_engine := Some e\<rparr>)"
  by (simp add: steady_def same_seating_def same_game_def cores_def drift_def live_num_def)

text \<open>Players out for good, then their seats given back.\<close>

lemma removed_good:
  assumes inv: "room_inv r" and len: "\<forall>i \<in> set xs. i < length (rm_seats r)"
    and sat: "\<forall>i \<in> set xs. rm_seats r ! i \<noteq> None"
  shows "good r (fold vacate xs (applyEliminations (mark r)
    (fold (\<lambda>i. eliminateAbsent ev (se_id (seat_at r i))) xs r)))" (is "good r (fold vacate xs ?b)")
proof -
  have gb: "good r ?b \<and> same_seating r ?b \<and> out_of_game ?b xs"
  proof (cases "rm_engine r")
    case None
    have "fold (\<lambda>i. eliminateAbsent ev (se_id (seat_at r i))) xs r = r"
      using None by (induction xs) (simp_all add: eliminateAbsent_def)
    then have "?b = r" using None by (simp add: applyEliminations_def)
    with inv None show ?thesis by (simp add: good_chatter out_of_game_def)
  next
    case (Some e)
    then have se: "seats_inv e" using inv by (simp add: room_inv_def game_inv_def)
    obtain e' w where e': "fold (\<lambda>i. eliminateAbsent ev (se_id (seat_at r i))) xs r =
        r\<lparr>rm_outWire := w, rm_engine := Some e'\<rparr>" "losses e e'"
        "\<forall>i \<in> set xs. over e' \<or> \<not> Alive e' (se_id (seat_at r i))"
      using eliminateAbsent_all [OF Some se, of ev "\<lambda>i. se_id (seat_at r i)" xs] by blast
    let ?a = "r\<lparr>rm_outWire := w, rm_engine := Some e'\<rparr>"
    have eb: "rm_engine ?a = Some e'" by simp
    have b: "?b = applyEliminations (mark r) ?a" unfolding e'(1) ..
    have "same_seating r ?a" by (simp add: same_seating_def cores_def)
    then have same: "same_seating r ?b"
      unfolding b using applyEliminations_facts(1) [OF eb] same_seating_trans by blast
    have "out_of_game ?b xs" unfolding out_of_game_def
    proof (intro ballI allI impI)
      fix i p c rd k d
      assume i: "i \<in> set xs" and h: "holds ?b i p c rd k \<and> rm_engine ?b = Some d \<and> \<not> over d"
      then have "holds r i p c rd k" using holds_same [OF same] by simp
      then have "p = se_id (seat_at r i)" by (auto simp: holds_iff seat_core_def seat_at_def)
      moreover have "d = e'" using h applyEliminations_facts(2) [OF eb, of "mark r"] unfolding b by simp
      ultimately show "\<not> Alive d p" using e'(3) i h by blast
    qed
    moreover have "good r ?b" unfolding b by (rule good_op [OF inv Some e'(2) steady_outWire])
    ultimately show ?thesis using same by blast
  qed
  then have "length (rm_seats ?b) = length (rm_seats r)"
    unfolding same_seating_def cores_def by (metis length_map)
  then have "room_inv (fold vacate xs ?b) \<and> rm_engine (fold vacate xs ?b) = rm_engine ?b \<and>
      rm_turnSeq (fold vacate xs ?b) = rm_turnSeq ?b"
    using gb len by (intro vacate_all_good) (auto simp: good_def)
  with gb show ?thesis using good_before by blast
qed

lemma handleGraceExpiry_good:
  assumes inv: "room_inv r"
  shows "good r (handleGraceExpiry ev r)"
proof (cases "expired_seats ev r = []")
  case True
  with inv show ?thesis by (simp add: handleGraceExpiry_def good_chatter)
next
  case False
  have "\<forall>i \<in> set (expired_seats ev r). i < length (rm_seats r)"
    "\<forall>i \<in> set (expired_seats ev r). rm_seats r ! i \<noteq> None"
    by (auto simp: expired_seats_def split: option.splits)
  from good_lobby [OF removed_good [OF inv this]] False show ?thesis
    by (simp add: handleGraceExpiry_def Let_def)
qed

lemma lobby_leave_good:
  assumes inv: "room_inv r" and i: "seatOf r p = Some i"
  shows "good r (lobby_leave ev c i r)"
proof (cases "inLobby r")
  case True
  with good_chatter [OF inv chatter_reply] good_lobby [OF vacate_lobby_good [OF inv seatOf_Some(1) [OF i]]]
  show ?thesis by (simp add: lobby_leave_def)
next
  case False
  have "good r (fold vacate [i] (applyEliminations (mark r)
      (fold (\<lambda>i. eliminateAbsent ev (se_id (seat_at r i))) [i] r)))"
    by (rule removed_good [OF inv]) (use seatOf_Some [OF i] in simp_all)
  then show ?thesis using False good_lobby by (simp add: lobby_leave_def Let_def)
qed

lemma handleLobby_good:
  assumes inv: "room_inv r"
  shows "good r (handleLobby ev c p act r)"
proof (cases "occupies r c p \<and> rm_strategy r = None \<and> (inLobby r \<or> act = lobbyLeave)")
  case True
  then obtain i where i: "seatOf r p = Some i" using occupiesD by blast
  show ?thesis
  proof (cases act)
    case (lobbyReady b)
    with True i lobby_ready_good [OF inv i] show ?thesis by (simp add: handleLobby_def)
  next
    case lobbyStart
    with True i lobby_start_good [OF inv] show ?thesis by (simp add: handleLobby_def)
  next
    case (lobbyKick victim)
    with True i lobby_kick_good [OF inv] show ?thesis by (simp add: handleLobby_def)
  next
    case lobbyLeave
    with True i lobby_leave_good [OF inv i] show ?thesis by (simp add: handleLobby_def)
  qed
next
  case False
  with good_chatter [OF inv chatter_reply] show ?thesis by (auto simp: handleLobby_def)
qed


subsection \<open>Coming back\<close>

lemma unseated_emits: "unseated (emits xs r) c = unseated r c"
  using holds_cong [of "emits xs r" r] by (simp add: unseated_def)

lemma handleResume_good:
  assumes inv: "room_inv r" and new: "unseated r c"
  shows "good r (handleResume ev p c prior r)"
proof (cases "seatOf r p")
  case None
  with inv show ?thesis by (simp add: handleResume_def good_chatter)
next
  case (Some i)
  define a where "a = emits [Count resumesSucceeded, Attach c p, CancelQuickMatch c, Unregister prior,
      CloseSession prior] r"
  define b where "b = (upd_seat i (\<lambda>s. s\<lparr>se_sess := Some c, se_heldFor := None, se_graceUntil := None\<rparr>) a)
      \<lparr>rm_lobbyChanged := True\<rparr>"
  have ca: "chatter r a" unfolding a_def by (rule chatterI) simp
  have ia: "room_inv a" using room_inv_steady [OF chatter_steady [OF ca] inv] .
  have ua: "unseated a c" using new by (simp add: a_def unseated_emits)
  have "good a (upd_seat i (\<lambda>s. s\<lparr>se_sess := Some c, se_heldFor := None, se_graceUntil := None\<rparr>) a)"
    by (rule good_upd [OF ia]) (use ua in \<open>auto simp: unseated_def\<close>)
  then have gb: "good a b" unfolding b_def by (rule good_lobby)
  have ea: "rm_engine a = rm_engine r" "rm_turnSeq a = rm_turnSeq r" by (simp_all add: a_def)
  have eb: "rm_engine b = rm_engine a" "rm_turnSeq b = rm_turnSeq a" by (simp_all add: b_def)
  have held: "good a (holdSeat ev i b)" by (rule good_after [OF eb holdSeat_good [OF goodD [OF gb]]])
  define d where "d = sendChatHistory (rm_seats b ! i) b"
  have gd: "good a d" by (rule good_chatter_after [OF gb]) (simp add: d_def)
  define start where "start = (\<lambda>e. emit (sendGameStarted e (Snapshot e) (c, seat_at d i) d) d)"
  have cs: "chatter d (start e)" for e
    unfolding start_def by (rule chatter_emit) (simp_all add: sendGameStarted_def)
  have gs: "good a (start e)" for e by (rule good_chatter_after [OF gd cs])
  have turn: "good a (emit (sendTurnUpdate e st mo ms cs (start e)) (start e))" for e st mo ms cs
    by (rule good_chatter_after [OF gs chatter_emit]) (simp_all add: sendTurnUpdate_def)
  have "good a (d\<lparr>rm_resumeReplays := xs\<rparr>)" for xs using gd by (rule good_replays)
  then have "good a (if inLobby d
      then if se_missedResult (seat_at d i) \<noteq> None
           then d\<lparr>rm_resumeReplays := rm_resumeReplays d @ [i]\<rparr> else d
      else case rm_engine d of None \<Rightarrow> d
        | Some e \<Rightarrow> (case LastMove e of None \<Rightarrow> start e
            | Some m \<Rightarrow> emit (sendTurnUpdate e (Snapshot e) (Some m) (moveMeanings (start e) (Some m))
                (c, seat_at d i) (start e)) (start e)))"
    using gd gs turn by (auto split: option.split)
  then have "good r (handleResume ev p c prior r)" if ok: "se_sess (seat_at r i) = Some prior \<or>
      se_sess (seat_at r i) = None \<and> se_heldFor (seat_at r i) = Some prior"
    using good_after [OF ea] held ok
    unfolding handleResume_def Some option.case Let_def a_def [symmetric] b_def [symmetric]
      d_def [symmetric] start_def
    by (auto cong: if_cong)
  moreover have "good r (handleResume ev p c prior r)" if no: "\<not> (se_sess (seat_at r i) = Some prior \<or>
      se_sess (seat_at r i) = None \<and> se_heldFor (seat_at r i) = Some prior)"
    using no good_chatter [OF inv chatter_reply]
    unfolding handleResume_def Some option.case Let_def by simp
  ultimately show ?thesis by blast
qed

subsection \<open>Conversation\<close>

text \<open>One more line, of somebody seated, at the end of the list, which is kept short.\<close>

lemma chat_line:
  assumes inv: "chat_inv r" and h: "holds r i (ce_author x) c rd k" and k: "k \<le> rm_chatSeq r"
    and x: "ce_seq x = rm_chatSeq r + 1" "ce_author x \<noteq> []"
    and n: "length (rm_chat r) + 1 \<le> n + chatHistoryLimit"
  shows "chat_inv (r\<lparr>rm_chatSeq := rm_chatSeq r + 1, rm_chat := drop n (rm_chat r @ [x])\<rparr>)"
proof -
  let ?r = "r\<lparr>rm_chatSeq := rm_chatSeq r + 1, rm_chat := drop n (rm_chat r @ [x])\<rparr>"
  have hr: "holds ?r = holds r" by (rule holds_cong) simp
  have "sorted_wrt (<) (map ce_seq (rm_chat r @ [x]))"
    using inv x(1) unfolding chat_inv_def by (fastforce simp: sorted_wrt_append)
  then have srt: "sorted_wrt (<) (map ce_seq (drop n (rm_chat r @ [x])))"
    unfolding drop_map [symmetric] by (rule sorted_wrt_drop)
  have line: "ce_seq y \<le> rm_chatSeq r + 1 \<and> (ce_author y = [] \<longrightarrow> ce_name y = []) \<and>
      (ce_author y \<noteq> [] \<longrightarrow> (\<exists>i c rd k. holds r i (ce_author y) c rd k \<and> k < ce_seq y))"
    if y: "y \<in> set (drop n (rm_chat r @ [x]))" for y
  proof (cases "y = x")
    case True
    have "k < ce_seq x" using k x(1) by simp
    with h have "\<exists>i c rd k. holds r i (ce_author x) c rd k \<and> k < ce_seq x" by blast
    with True x show ?thesis by simp
  next
    case False
    then have "y \<in> set (rm_chat r)" using y in_set_dropD by fastforce
    with inv show ?thesis unfolding chat_inv_def by fastforce
  qed
  show ?thesis unfolding chat_inv_def hr using srt line n by simp
qed

lemma handleChat_good:
  assumes inv: "room_inv r"
  shows "good r (handleChat ev c p raw r)"
proof (cases "occupies r c p \<and> rm_strategy r = None \<and>
    sanitizeText (ev_unicode ev) raw maxChatRunes maxChatMarks \<noteq> []")
  case False
  with good_chatter [OF inv chatter_reply] good_chatter [OF inv chatter_refl] show ?thesis
    by (auto simp: handleChat_def Let_def)
next
  case True
  then obtain i where i: "seatOf r p = Some i" using occupiesD by blast
  define x where "x = \<lparr>ce_seq = rm_chatSeq r + 1, ce_author = se_id (seat_at r i),
    ce_name = se_nickname (seat_at r i), ce_text = sanitizeText (ev_unicode ev) raw maxChatRunes maxChatMarks,
    ce_at = ev_now ev\<rparr>"
  define n where "n = length (rm_chat r @ [x]) - chatHistoryLimit"
  have lines: "(if chatHistoryLimit < length (rm_chat r @ [x]) then drop n (rm_chat r @ [x])
      else rm_chat r @ [x]) = drop n (rm_chat r @ [x])" by (simp add: n_def)
  define a where "a = r\<lparr>rm_chatSeq := rm_chatSeq r + 1, rm_chat := drop n (rm_chat r @ [x])\<rparr>"
  have si: "seat_inv r" "chat_inv r" using inv by (simp_all add: room_inv_def)
  have h: "holds r i (se_id (seat_at r i)) (se_sess (seat_at r i)) (se_ready (seat_at r i)) (se_chatFrom (seat_at r i))"
    using holds_seatOf [OF si(1) i] seatOf_Some(3) [OF i] by simp
  have ha: "holds a = holds r" "ids a = ids r" by (rule holds_cong ids_cong, simp add: a_def)+
  have "good r a"
  proof (rule good_seat [OF inv])
    have "seat_base a" using si(1) unfolding seat_inv_split seat_base_def ha(1)
      by (auto simp: a_def intro: le_SucI)
    moreover have "owner_ok a" using si(1) unfolding seat_inv_split owner_ok_def ha by (simp add: a_def)
    ultimately show "seat_inv a" by (simp add: seat_inv_split)
    show "chat_inv a" unfolding a_def
      by (rule chat_line [OF si(2), of i x])
        (use h seat_invD(4) [OF si(1) h] holds_nonempty [OF si(1) h] in \<open>auto simp: x_def n_def\<close>)
    show "ids r \<subseteq> ids a" using ha(2) by simp
  qed (simp_all add: a_def drift_def live_num_def)
  then have "good r (emits (Count chatLines # map (\<lambda>(d, s). TrySend d (ChatMessage
      (chatMessageFor x (se_id s)))) (connected a)) a)"
    by (rule good_chatter_after [OF _ chatterI]) auto
  then show ?thesis using True i
    unfolding handleChat_def Let_def i option.sel x_def [symmetric] n_def [symmetric] lines a_def [symmetric]
    by simp
qed

end
