(* ===== verification/Room_Loop_Inv.thy ===== *)
theory Room_Loop_Inv
  imports Room_Presence_Inv
begin

text \<open>
  The loop of a room: what holds after every turn of it, from the moment the room is made to the moment
  it is closed.
\<close>

subsection \<open>One turn of the loop\<close>

text \<open>
  What the hub posts: a room is opened once, and a connection that resumes a seat has none. Everything
  else may come at any time, in any order.
\<close>

fun admissible :: "event \<Rightarrow> room \<Rightarrow> bool" where
  "admissible (Input (createInput c b)) r = (\<not> occupied r)"
| "admissible (Input (startBotInput c d)) r = (\<not> occupied r)"
| "admissible (Input (resumeInput p c prior)) r = (c \<notin> fst ` set (connected r))"
| "admissible x r = True"

text \<open>The states a room's loop can be in, from the room it was made with.\<close>

inductive room_reach :: "room \<Rightarrow> loop \<Rightarrow> bool" for r where
  opened: "room_reach r (start_loop r)"
| stepped: "room_reach r l \<Longrightarrow> \<not> lp_done l \<Longrightarrow> due ev l x \<Longrightarrow> admissible x (lp_room l) \<Longrightarrow>
    room_reach r (run_step ev x l)"

lemma handle_good:
  assumes inv: "room_inv r" and adm: "admissible (Input m) r"
  shows "good r (handle ev m r)"
proof (cases m)
  case (createInput c b)
  with adm inv show ?thesis by (simp add: handle_def handleCreate_good occupied_iff)
next
  case (startBotInput c d)
  with adm inv show ?thesis by (simp add: handle_def handleStartBot_good occupied_iff)
next
  case (resumeInput p c prior)
  with adm inv show ?thesis by (simp add: handle_def handleResume_good unseated_connected)
qed (use inv in \<open>simp_all add: handle_def handleJoin_good handleSubmit_good handleBotMove_good
    handleLobby_good handleChat_good handleResign_good handleClaimDeadEnd_good good_chatter
    handleDisconnect_good\<close>)

lemma flush_one_steady: "steady r (flush_one i r)"
proof (cases "rm_seats r ! i")
  case (Some s)
  have "steady r (upd_seat i (\<lambda>s. s\<lparr>se_missedResult := None\<rparr>) (emit (Send c m) r))" for c m
    by (rule steady_trans [OF chatter_steady [OF chatter_emit] steady_upd]) (simp_all add: seat_core_def)
  with Some show ?thesis by (simp add: flush_one_def split: option.split)
qed (simp add: flush_one_def)

lemma flush_lobby_steady: "steady r (flush_lobby r)"
proof -
  have a: "steady r (r\<lparr>rm_lobbyChanged := False\<rparr>)" by (rule steady_lobby [OF steady_refl])
  have b: "steady z (broadcastRoomState z)" for z by (simp add: chatter_steady)
  have c: "steady z (flushResumeReplays z)" for z
    unfolding flushResumeReplays_def by (rule steady_replays [OF steady_fold]) (rule flush_one_steady)
  show ?thesis unfolding flush_lobby_def using steady_trans [OF a steady_trans [OF b c]] by simp
qed

subsection \<open>Closing\<close>

lemma teardown_fields [simp]: "lp_done (teardown l)" "rm_engine (lp_room (teardown l)) = rm_engine (lp_room l)"
  "rm_turnSeq (lp_room (teardown l)) = rm_turnSeq (lp_room l)"
  "\<not> rm_liveCounted (lp_room (teardown l))"
  by (simp_all add: teardown_def stopCountingLive_def detachAll_def)

lemma drift_teardown: "drift (lp_room (teardown l)) = drift (lp_room l)"
proof -
  have "drift (lp_room (teardown l)) = drift (stopCountingLive (detachAll ((lp_room l)\<lparr>rm_cancelled := True\<rparr>)))"
    unfolding teardown_def by (simp add: drift_chatter [OF chatter_emit])
  also have "\<dots> = drift ((lp_room l)\<lparr>rm_cancelled := True\<rparr>)"
    unfolding drift_stop by (rule drift_chatter) simp
  finally show ?thesis by (simp add: drift_def live_num_def)
qed

text \<open>A room that is running keeps its invariant; one that is done is no longer counted.\<close>

definition loop_inv :: "loop \<Rightarrow> bool" where
  "loop_inv l \<longleftrightarrow> drift (lp_room l) = 0 \<and>
     (if lp_done l then \<not> rm_liveCounted (lp_room l) else room_inv (lp_room l))"

lemma teardown_inv: "drift (lp_room l) = 0 \<Longrightarrow> loop_inv (teardown l)"
  by (simp add: loop_inv_def drift_teardown)

lemma after_arm_cases:
  assumes "\<not> lp_done l"
  shows "after_arm ev l = teardown (l\<lparr>lp_room := flush_lobby (lp_room l)\<rparr>) \<or>
    (\<not> lp_done (after_arm ev l) \<and> lp_room (after_arm ev l) = flush_lobby (lp_room l) \<and>
     occupied (lp_room (after_arm ev l)))"
  using assms by (simp add: after_arm_def Let_def resetIdleTimer_def)

lemma seq_ok_engine: "rm_engine b = rm_engine a \<Longrightarrow> rm_turnSeq b = rm_turnSeq a \<Longrightarrow> seq_ok r a \<Longrightarrow> seq_ok r b"
  by (simp add: seq_ok_def)

lemma after_arm_good:
  assumes "good r (lp_room l)" and "\<not> lp_done l"
  shows "loop_inv (after_arm ev l) \<and> seq_ok r (lp_room (after_arm ev l))"
proof -
  have st: "steady (lp_room l) (flush_lobby (lp_room l))" by (rule flush_lobby_steady)
  have g: "good r (flush_lobby (lp_room l))" by (rule good_trans_steady [OF assms(1) st])
  show ?thesis
  proof (cases "after_arm ev l = teardown (l\<lparr>lp_room := flush_lobby (lp_room l)\<rparr>)")
    case True
    have "drift (flush_lobby (lp_room l)) = 0" using g by (simp add: good_def room_inv_def)
    then have "loop_inv (after_arm ev l)" unfolding True by (intro teardown_inv) simp
    moreover have "seq_ok r (lp_room (after_arm ev l))" unfolding True
      by (rule seq_ok_engine [OF _ _ conjunct2 [OF g [unfolded good_def]]]) simp_all
    ultimately show ?thesis ..
  next
    case False
    with after_arm_cases [OF assms(2), of ev] g show ?thesis
      by (simp add: loop_inv_def good_def) (simp add: room_inv_def)
  qed
qed

lemma run_step_good:
  assumes inv: "loop_inv l" and go: "\<not> lp_done l" and adm: "admissible x (lp_room l)"
  shows "loop_inv (run_step ev x l) \<and> seq_ok (lp_room l) (lp_room (run_step ev x l))"
proof -
  have ri: "room_inv (lp_room l)" "drift (lp_room l) = 0" using inv go by (simp_all add: loop_inv_def)
  have tear: "loop_inv (teardown l) \<and> seq_ok (lp_room l) (lp_room (teardown l))"
    using teardown_inv [OF ri(2)] by (simp add: seq_ok_same)
  show ?thesis
  proof (cases x)
    case (Input m)
    have "good (lp_room l) (handle ev m (lp_room l))" using handle_good [OF ri(1)] adm Input by simp
    then show ?thesis using Input go
      by (simp add: run_step_def resetTurnTimer_def resetGraceTimer_def after_arm_good [of "lp_room l"])
  next
    case TurnFires
    with go turn_expired_good [OF ri(1)] show ?thesis
      by (simp add: run_step_def resetTurnTimer_def after_arm_good [of "lp_room l"])
  next
    case GraceFires
    with go handleGraceExpiry_good [OF ri(1)] show ?thesis
      by (simp add: run_step_def resetTurnTimer_def resetGraceTimer_def after_arm_good [of "lp_room l"])
  next
    case IdleFires
    have ch: "chatter (lp_room l) (broadcastError codeRoomIdleClosed (lp_room l))" by simp
    have "loop_inv (teardown (l\<lparr>lp_room := broadcastError codeRoomIdleClosed (lp_room l)\<rparr>))"
      by (rule teardown_inv) (use drift_chatter [OF ch] ri(2) in simp)
    with IdleFires go chatter_fields [OF ch] show ?thesis by (simp add: run_step_def seq_ok_same)
  next
    case ContextDone
    with go tear show ?thesis by (simp add: run_step_def)
  qed
qed

subsection \<open>From the beginning\<close>

lemma newRoom_inv: "room_inv (newRoom d code limit grace idle mode)"
proof -
  let ?r = "newRoom d code limit grace idle mode"
  have h: "\<not> holds ?r i p c rd k" for i p c rd k
    by (auto simp: holds_iff newRoom_def)
  then have "ids ?r = {}" by (simp add: ids_def)
  with h show ?thesis
    by (simp add: room_inv_def seat_inv_split seat_base_def owner_ok_def chat_inv_def game_inv_def
        drift_def live_num_def balance_def) (simp add: newRoom_def)
qed

lemma reach_inv:
  assumes "room_reach (newRoom d code limit grace idle mode) l"
  shows "loop_inv l"
  using assms
proof induction
  case opened
  with newRoom_inv show ?case by (simp add: start_loop_def loop_inv_def) (simp add: room_inv_def newRoom_inv [unfolded room_inv_def])
next
  case (stepped l ev x)
  then show ?case using run_step_good by blast
qed


subsection \<open>The timers\<close>

text \<open>The reconnect windows open in a room, by place.\<close>

definition waits :: "room \<Rightarrow> instant option list" where
  "waits r = map (\<lambda>so. Option.bind so waiting_until) (rm_seats r)"

lemma waiting_seated:
  "foldl (\<lambda>next s. case waiting_until s of None \<Rightarrow> next
       | Some t \<Rightarrow> (case next of None \<Rightarrow> Some t | Some n \<Rightarrow> if t < n then Some t else Some n)) z
     (List.map_filter (\<lambda>s. s) ss) =
   foldl (\<lambda>next w. case w of None \<Rightarrow> next
       | Some t \<Rightarrow> (case next of None \<Rightarrow> Some t | Some n \<Rightarrow> if t < n then Some t else Some n)) z
     (map (\<lambda>so. Option.bind so waiting_until) ss)"
  by (induction ss arbitrary: z) (auto simp: map_filter_simps split: option.split)

lemma nextGraceExpiry_waits: "waits r' = waits r \<Longrightarrow> nextGraceExpiry r' = nextGraceExpiry r"
  unfolding nextGraceExpiry_def seated_def waiting_seated waits_def by simp

lemma waits_emits [simp]: "waits (emits xs r) = waits r" "waits (emit x r) = waits r"
  by (simp_all add: waits_def)

lemma waits_upd:
  assumes "\<And>s. waiting_until (f s) = waiting_until s"
  shows "waits (upd_seat i f r) = waits r"
proof (rule nth_equalityI)
  fix j
  assume "j < length (waits (upd_seat i f r))"
  then have "j < length (rm_seats r)" by (simp add: waits_def)
  then show "waits (upd_seat i f r) ! j = waits r ! j"
    using assms by (cases "j = i"; cases "rm_seats r ! j") (simp_all add: waits_def upd_seat_def)
qed (simp add: waits_def)

lemma waits_cong: "rm_seats r' = rm_seats r \<Longrightarrow> waits r' = waits r"
  by (simp add: waits_def)

lemma waits_fold:
  assumes "\<And>x r. waits (f x r) = waits r"
  shows "waits (fold f xs r) = waits r"
  by (induction xs arbitrary: r) (simp_all add: assms)

lemma waits_missed [simp]: "waits (upd_seat i (\<lambda>s. s\<lparr>se_missedResult := g s\<rparr>) r) = waits r"
  by (rule waits_upd) (simp add: waiting_until_def)

lemma waits_wins [simp]: "waits (upd_seat i (\<lambda>s. s\<lparr>se_wins := g s\<rparr>) r) = waits r"
  by (rule waits_upd) (simp add: waiting_until_def)

lemma waits_give_result: "waits (give_result msg i r) = waits r"
  by (simp add: give_result_def split: option.split)

lemma waits_credit_win: "waits (credit_win p r) = waits r"
  by (simp add: credit_win_def split: option.split)

lemma waits_chatter: "chatter r r' \<Longrightarrow> waits r' = waits r"
  by (rule waits_cong) (simp add: chatter_fields)

lemma waits_stopCountingLive: "waits (stopCountingLive r) = waits r"
  by (simp add: stopCountingLive_def waits_def)

lemma waits_broadcastGameOver: "waits (broadcastGameOver e st r) = waits r"
proof -
  have "waits (r\<lparr>rm_lobbyChanged := b\<rparr>) = waits r" for r b by (simp add: waits_def)
  then show ?thesis
    unfolding broadcastGameOver_def Let_def
    using waits_fold [where f = "give_result m" for m] waits_give_result waits_credit_win
      waits_stopCountingLive by simp
qed

lemma waits_applyEliminations: "waits (applyEliminations b r) = waits r"
proof (cases "rm_engine r")
  case None
  then show ?thesis by (simp add: applyEliminations_def)
next
  case (Some e)
  have "waits (fold (\<lambda>p. broadcastElimination e p sug) xs r) = waits r" for sug xs
    by (rule waits_chatter, rule chatter_fold) simp
  moreover have "waits (broadcastTurn e None z) = waits z" for z by (rule waits_chatter) simp
  moreover have "waits (z\<lparr>rm_turnSeq := n\<rparr>) = waits z" for z n by (simp add: waits_def)
  ultimately show ?thesis using Some by (simp add: applyEliminations_def Let_def waits_broadcastGameOver)
qed

lemma waits_turn_expired: "waits (turn_expired ev r) = waits r"
proof -
  have "waits (r\<lparr>rm_engine := eo\<rparr>) = waits r" for eo by (simp add: waits_def)
  then show ?thesis
    by (simp add: turn_expired_def waits_applyEliminations Let_def split: option.split prod.split)
qed

lemma waits_flush_lobby: "waits (flush_lobby r) = waits r"
proof -
  have a: "waits (z\<lparr>rm_lobbyChanged := b\<rparr>) = waits z" "waits (z\<lparr>rm_resumeReplays := xs\<rparr>) = waits z"
    for z b xs by (simp_all add: waits_def)
  have b: "waits (broadcastRoomState z) = waits z" for z by (rule waits_chatter) simp
  have c: "waits (flush_one i z) = waits z" for i z
    by (simp add: flush_one_def split: option.split)
  have "waits (flushResumeReplays z) = waits z" for z
    unfolding flushResumeReplays_def using waits_fold [of flush_one, OF c] a(2) by simp
  then show ?thesis by (simp add: flush_lobby_def a b)
qed

definition turn_due :: "room \<Rightarrow> instant option" where
  "turn_due r = (case rm_engine r of None \<Rightarrow> None | Some e \<Rightarrow> if over e then None else Some (deadline e))"

definition idle_room :: "room \<Rightarrow> bool" where
  "idle_room r \<longleftrightarrow> rm_strategy r = None \<and> inLobby r"

text \<open>
  The reconnect windows open in a room, from the seats alone: an empty chair held for somebody until then. A
  timer is set for the first of them when it is at the least of these times, and off when there is none.
\<close>

definition open_windows :: "room \<Rightarrow> instant set" where
  "open_windows r = {t. \<exists>s. Some s \<in> set (rm_seats r) \<and> se_sess s = None \<and> se_graceUntil s = Some t}"

definition set_for_first :: "instant option \<Rightarrow> instant set \<Rightarrow> bool" where
  "set_for_first timer T \<longleftrightarrow> (case timer of None \<Rightarrow> T = {} | Some t \<Rightarrow> t \<in> T \<and> (\<forall>u \<in> T. t \<le> u))"

lemma earliest_wait:
  "(case z of None \<Rightarrow> True | Some a \<Rightarrow> a \<in> A) \<Longrightarrow> (\<forall>u \<in> A. case z of None \<Rightarrow> False | Some a \<Rightarrow> a \<le> u) \<Longrightarrow>
   set_for_first
     (foldl (\<lambda>next w. case w of None \<Rightarrow> next
        | Some t \<Rightarrow> (case next of None \<Rightarrow> Some t | Some n \<Rightarrow> if t < n then Some t else Some n)) z ws)
     (A \<union> {t. Some t \<in> set ws})"
proof (induction ws arbitrary: z A)
  case Nil
  then show ?case by (auto simp: set_for_first_def split: option.splits)
next
  case (Cons w ws)
  show ?case
  proof (cases w)
    case None
    then show ?thesis using Cons by simp
  next
    case (Some t)
    let ?z = "case z of None \<Rightarrow> Some t | Some n \<Rightarrow> if t < n then Some t else Some n"
    have "A \<union> {u. Some u \<in> set (w # ws)} = insert t A \<union> {u. Some u \<in> set ws}" using Some by auto
    moreover have "set_for_first (foldl (\<lambda>next w. case w of None \<Rightarrow> next
        | Some t \<Rightarrow> (case next of None \<Rightarrow> Some t | Some n \<Rightarrow> if t < n then Some t else Some n)) ?z ws)
      (insert t A \<union> {u. Some u \<in> set ws})"
      by (rule Cons.IH) (use Cons.prems in \<open>auto split: option.splits intro: order.trans less_imp_le\<close>)
    ultimately show ?thesis using Some by simp
  qed
qed

lemma nextGraceExpiry_first: "set_for_first (nextGraceExpiry r) (open_windows r)"
proof -
  have "Some t \<in> set (waits r) \<longleftrightarrow> (\<exists>s. Some s \<in> set (rm_seats r) \<and> waiting_until s = Some t)" for t
    by (auto simp: waits_def image_iff eq_commute [of "Some t"] Option.bind_eq_Some_conv intro: bexI)
  then have "open_windows r = {t. Some t \<in> set (waits r)}"
    by (auto simp: open_windows_def waiting_until_def split: if_splits)
  then show ?thesis
    using earliest_wait [where z = None and A = "{}" and ws = "waits r"]
    unfolding nextGraceExpiry_def seated_def waiting_seated waits_def by simp
qed

text \<open>What must be armed is armed, and nothing else.\<close>

definition armed :: "loop \<Rightarrow> bool" where
  "armed l \<longleftrightarrow> lp_turnTimer l = turn_due (lp_room l) \<and> lp_graceTimer l = nextGraceExpiry (lp_room l) \<and>
     (lp_idleTimer l \<noteq> None) = idle_room (lp_room l)"

lemma after_arm_armed:
  assumes "\<not> lp_done (after_arm ev l)" and "lp_turnTimer l = turn_due (lp_room l)"
    and "lp_graceTimer l = nextGraceExpiry (lp_room l)"
  shows "armed (after_arm ev l)"
proof -
  let ?r = "flush_lobby (lp_room l)"
  have st: "steady (lp_room l) ?r" by (rule flush_lobby_steady)
  then have "turn_due ?r = turn_due (lp_room l)" by (simp add: turn_due_def steady_def same_game_def)
  moreover have "nextGraceExpiry ?r = nextGraceExpiry (lp_room l)"
    by (rule nextGraceExpiry_waits) (rule waits_flush_lobby)
  moreover have "lp_idleTimer (resetIdleTimer ev z) = None \<longleftrightarrow> \<not> idle_room (lp_room z)" for z
    by (simp add: resetIdleTimer_def idle_room_def)
  moreover have "lp_room (resetIdleTimer ev z) = lp_room z" "lp_turnTimer (resetIdleTimer ev z) = lp_turnTimer z"
    "lp_graceTimer (resetIdleTimer ev z) = lp_graceTimer z" for z
    by (simp_all add: resetIdleTimer_def)
  moreover define z where "z = l\<lparr>lp_room := ?r\<rparr>"
  moreover define changed where "changed = (rm_lobbyChanged (lp_room l) \<or> idle_room ?r \<noteq> (lp_idleTimer z \<noteq> None))"
  moreover have "after_arm ev l = (if changed then resetIdleTimer ev z else z)"
    using assms(1) unfolding after_arm_def Let_def changed_def z_def idle_room_def
    by (auto simp only: teardown_fields(1) split: if_splits)
  ultimately show ?thesis
    using assms(2,3) unfolding armed_def by (cases changed) auto
qed

lemma run_step_armed:
  assumes "\<not> lp_done l" and "\<not> lp_done (run_step ev x l)"
    and "lp_graceTimer l = nextGraceExpiry (lp_room l)"
  shows "armed (run_step ev x l)"
proof (cases x)
  case (Input m)
  have "\<not> lp_done (after_arm ev (resetGraceTimer (resetTurnTimer (l\<lparr>lp_room := handle ev m (lp_room l)\<rparr>))))"
    using assms(1,2) Input by (simp add: run_step_def)
  then have "armed (after_arm ev (resetGraceTimer (resetTurnTimer (l\<lparr>lp_room := handle ev m (lp_room l)\<rparr>))))"
    by (rule after_arm_armed) (simp_all add: resetGraceTimer_def resetTurnTimer_def turn_due_def)
  then show ?thesis using assms(1) Input by (simp add: run_step_def)
next
  case TurnFires
  have "\<not> lp_done (after_arm ev (resetTurnTimer (l\<lparr>lp_room := turn_expired ev (lp_room l)\<rparr>)))"
    using assms(1,2) TurnFires by (simp add: run_step_def)
  then have "armed (after_arm ev (resetTurnTimer (l\<lparr>lp_room := turn_expired ev (lp_room l)\<rparr>)))"
    by (rule after_arm_armed)
      (simp_all add: resetTurnTimer_def turn_due_def assms(3) nextGraceExpiry_waits [OF waits_turn_expired])
  then show ?thesis using assms(1) TurnFires by (simp add: run_step_def)
next
  case GraceFires
  let ?l = "resetGraceTimer (resetTurnTimer (l\<lparr>lp_graceTimer := None, lp_room := handleGraceExpiry ev (lp_room l)\<rparr>))"
  have "\<not> lp_done (after_arm ev ?l)" using assms(1,2) GraceFires by (simp add: run_step_def)
  then have "armed (after_arm ev ?l)"
    by (rule after_arm_armed) (simp_all add: resetGraceTimer_def resetTurnTimer_def turn_due_def)
  then show ?thesis using assms(1) GraceFires by (simp add: run_step_def)
qed (use assms in \<open>simp_all add: run_step_def teardown_def\<close>)

lemma newRoom_waits: "nextGraceExpiry (newRoom d code limit grace idle mode) = None"
proof -
  have "seated (newRoom d code limit grace idle mode) = []"
    unfolding seated_def newRoom_def by (simp add: maxPlayers_def numeral_eq_Suc map_filter_simps)
  then show ?thesis by (simp add: nextGraceExpiry_def)
qed

lemma reach_grace:
  assumes "room_reach (newRoom d code limit grace idle mode) l" and "\<not> lp_done l"
  shows "lp_graceTimer l = nextGraceExpiry (lp_room l)"
  using assms
proof induction
  case opened
  then show ?case by (simp add: start_loop_def newRoom_waits)
next
  case (stepped l ev x)
  then show ?case using run_step_armed [of l ev x] by (simp add: armed_def)
qed

end
