(* ===== verification/Demo_Room.thy ===== *)
theory Demo_Room
  imports Room_Loop_Inv Demo_Game
begin

text \<open>
  Concrete rooms, each reached from a new one: a lobby of two players, and a game against the bot. The
  witnesses of the room's properties stand on them.
\<close>

definition demo_words :: room_dictionary where
  "demo_words = \<lparr>rd_game = demo_dict, rd_Meanings = (\<lambda>_. []), rd_NearMiss = (\<lambda>_. None)\<rparr>"

definition demo_env :: env where
  "demo_env = \<lparr>ev_now = 0, ev_closed = (\<lambda>_. False), ev_nickname = (\<lambda>_. [65]), ev_draining = False,
     ev_opening = Some [101, 32, 97], ev_lead = (\<lambda>_. 0), ev_unicode = demo_unicode\<rparr>"

definition fresh_room :: room where
  "fresh_room = newRoom demo_words [55] 15000000000 30000000000 0 roomModePvP"

definition demo_seat :: "player \<Rightarrow> str \<Rightarrow> conn \<Rightarrow> seat" where
  "demo_seat p n c = \<lparr>se_id = p, se_nickname = n, se_sess = Some c, se_ready = False, se_chatFrom = 0,
     se_wins = 0, se_graceUntil = None, se_heldFor = None, se_missedResult = None\<rparr>"

definition demo_slot :: "player \<Rightarrow> str \<Rightarrow> bool \<Rightarrow> player_slot" where
  "demo_slot p n me = \<lparr>sl_playerId = p, sl_name = n, sl_isMe = me, sl_isOwner = (p = P1), sl_ready = False,
     sl_connected = True, sl_wins = 0\<rparr>"

definition demo_state :: "player_slot list \<Rightarrow> smsg" where
  "demo_state ps = RoomState \<lparr>rs_roomCode = [55], rs_canStart = False, rs_players = ps,
     rs_maxPlayers = 4, rs_minPlayers = 2, rs_graceMs = 30000\<rparr>"

definition lobby1 :: loop where
  "lobby1 = \<lparr>lp_room = fresh_room\<lparr>rm_seats := [Some (demo_seat P1 [65] 1), None, None, None], rm_owner := P1,
       rm_out := [Attach 1 P1, CancelQuickMatch 1, Send 1 (ChatHistory []),
         Send 1 (demo_state [demo_slot P1 [65] True])]\<rparr>,
     lp_turnTimer = None, lp_graceTimer = None, lp_idleTimer = Some 600000000000, lp_done = False\<rparr>"

lemma demo_seatIDs: "seatIDs ! 0 = P1" "seatIDs ! Suc 0 = P2" by code_simp+

lemma demo_grace_ms: "go_div 30000000000 1000000 = 30000" by code_simp

lemma lobby1_run: "lobby1 = run_step demo_env (Input (createInput 1 False)) (start_loop fresh_room)"
  by (simp add: run_step_def start_loop_def handle_def handleCreate_def takeSeat_def fresh_room_def newRoom_def
      Let_def emits_def emit_def demo_env_def demo_seatIDs sendChatHistory_def maxPlayers_def numeral_eq_Suc
      resetTurnTimer_def resetGraceTimer_def nextGraceExpiry_def seated_def map_filter_simps waiting_until_def
      after_arm_def flush_lobby_def broadcastRoomState_def connected_def playerSlots_def occupied_def
      seatedCount_def inLobby_def resetIdleTimer_def flushResumeReplays_def canStart_def minPlayers_def
      demo_seat_def demo_slot_def demo_state_def lobby1_def defaultIdleWindow_def milliseconds_def demo_grace_ms)

definition lobby2 :: loop where "lobby2 = run_step demo_env (Input (joinInput 2)) lobby1"

definition play1 :: loop where
  "play1 = run_step demo_env (Input (startBotInput 1 Easy)) (start_loop fresh_room)"


definition play2 :: loop where
  "play2 = run_step demo_env (Input (submitInput 1 P1 [97, 32, 99] 1)) play1"

lemma fresh_reach: "room_reach fresh_room (start_loop fresh_room)"
  by (rule room_reach.opened)

lemma demo_lobby1: "room_reach fresh_room lobby1"
  unfolding lobby1_run by (rule room_reach.stepped [OF fresh_reach]) code_simp+

lemma demo_lobby2: "room_reach fresh_room lobby2"
  unfolding lobby2_def by (rule room_reach.stepped [OF demo_lobby1]) code_simp+

lemma demo_play1: "room_reach fresh_room play1"
  unfolding play1_def by (rule room_reach.stepped [OF fresh_reach]) code_simp+

lemma demo_done: "\<not> lp_done lobby1" "\<not> lp_done lobby2" "\<not> lp_done play1"
  by code_simp+

lemma demo_play2: "room_reach fresh_room play2"
  unfolding play2_def by (rule room_reach.stepped [OF demo_play1 demo_done(3)]) simp_all

text \<open>A line said in the lobby.\<close>

definition lobby3 :: loop where
  "lobby3 = run_step demo_env (Input (chatInput 1 P1 [104, 105])) lobby1"

lemma demo_lobby3: "room_reach fresh_room lobby3"
  unfolding lobby3_def by (rule room_reach.stepped [OF demo_lobby1 demo_done(1)]) simp_all

definition demo_line :: chatEntry where
  "demo_line = \<lparr>ce_seq = 1, ce_author = P1, ce_name = [65], ce_text = [104, 105], ce_at = 0\<rparr>"

lemma demo_sanitized: "sanitizeText demo_unicode [104, 105] maxChatRunes maxChatMarks = [104, 105]"
  by (simp add: sanitizeText_def demo_unicode_def map_filter_simps map_rune_def is_space_def is_control_def
      blankLetters_def Go_Strings.fields_def Let_def maxChatRunes_def maxChatMarks_def)

lemma demo_lobby3_facts: "\<not> lp_done lobby3" "rm_chat (lp_room lobby3) = [demo_line]"
  by (simp_all add: lobby3_def run_step_def lobby1_def handle_def handleChat_def occupies_def seatOf_def
      seat_at_def demo_seat_def fresh_room_def newRoom_def demo_env_def demo_sanitized Let_def emits_def
      resetTurnTimer_def resetGraceTimer_def after_arm_def flush_lobby_def occupied_def seatedCount_def
      seated_def map_filter_simps resetIdleTimer_def inLobby_def chatHistoryLimit_def demo_line_def)

end
