(* ===== verification/Room_Props.thy ===== *)
theory Room_Props
  imports Demo_Room
begin

text \<open>
  The properties of a room: its invariant in every reachable state, the hub's count, who may move the
  game on, the turn sequence, the timers, the conversation, and what joining, kicking, losing a
  connection and coming back do.
\<close>

subsection \<open>The invariant\<close>

text \<open>
  Claim (C9). In every state a room reaches, until it is closed: there are four places and a place's
  player is the one the place names (the bot sits only in a bot room); no connection sits twice; the
  owner is seated and not marked ready, and there is none in an empty room; the engine's own invariant
  holds, everybody still in a running game has a seat, and at most twenty lines of chat are kept, in
  order.
\<close>

theorem room_invariant:
  assumes "room_reach (newRoom d code limit grace idle mode) l" and "\<not> lp_done l"
  shows "seat_inv (lp_room l) \<and> chat_inv (lp_room l) \<and> game_inv (lp_room l)"
  using reach_inv [OF assms(1)] assms(2) by (simp add: loop_inv_def room_inv_def)

theorem room_invariant_witness: "seat_inv (lp_room play1) \<and> game_inv (lp_room play1)"
  using room_invariant [OF demo_play1 [unfolded fresh_room_def] demo_done(3)] by blast

subsection \<open>The hub's count\<close>

text \<open>
  Claim (C10). A room tells the hub that a game started exactly once per game and that it finished
  exactly once, however it ends: in every reachable state the starts reported exceed the finishes
  reported by one while a game runs, and by none otherwise - also once the room is closed, with a game
  running or not.
\<close>

theorem games_counted:
  assumes "room_reach (newRoom d code limit grace idle mode) l"
  shows "balance (rm_out (lp_room l)) = (if \<not> lp_done l \<and> \<not> inLobby (lp_room l) then 1 else 0)"
proof -
  have inv: "loop_inv l" by (rule reach_inv [OF assms])
  then have "balance (rm_out (lp_room l)) = live_num (lp_room l)" by (simp add: loop_inv_def drift_def)
  with inv show ?thesis
    by (cases "rm_engine (lp_room l)")
      (auto simp: loop_inv_def room_inv_def game_inv_def live_num_def inLobby_def split: if_splits)
qed

theorem games_counted_witness: "balance (rm_out (lp_room (run_step demo_env ContextDone play1))) = 0"
proof -
  have "room_reach fresh_room (run_step demo_env ContextDone play1)"
    by (rule room_reach.stepped [OF demo_play1 demo_done(3)]) simp_all
  moreover have "lp_done (run_step demo_env ContextDone play1)" by (simp add: run_step_def demo_done)
  ultimately show ?thesis using games_counted unfolding fresh_room_def by auto
qed

subsection \<open>Who may move the game on\<close>

text \<open>What an input needs to be able to change a running game.\<close>

fun may_change :: "room_input \<Rightarrow> engine \<Rightarrow> room \<Rightarrow> bool" where
  "may_change (submitInput c p w s) e r = (occupies r c p \<and> Turn e = p \<and> s = rm_turnSeq r)"
| "may_change (botMoveInput w s) e r = (Turn e = botPlayerID \<and> s = rm_turnSeq r)"
| "may_change (resignInput c p) e r = (occupies r c p \<and> Turn e = p)"
| "may_change (claimDeadEndInput c p) e r = (occupies r c p \<and> Turn e = p \<and> \<not> HasLegalMove e)"
| "may_change (lobbyInput c p act) e r = (occupies r c p \<and> act = lobbyLeave \<and> rm_strategy r = None)"
| "may_change m e r = False"

lemma applyEliminations_engine [simp]: "rm_engine (applyEliminations b r) = rm_engine r"
proof (cases "rm_engine r")
  case None
  then show ?thesis by (simp add: applyEliminations_def)
next
  case (Some e)
  then show ?thesis using applyEliminations_facts(2) [OF Some] by simp
qed

lemma chatter_engine: "chatter r r' \<Longrightarrow> rm_engine r' = rm_engine r"
  by (rule chatter_fields)

lemma quiet_room_fields [simp]:
  "rm_engine (reply c code r) = rm_engine r" "rm_engine (broadcastError code r) = rm_engine r"
  "rm_engine (sendChatHistory so r) = rm_engine r" "rm_engine (recordRejection ev e reason w r) = rm_engine r"
  "rm_engine (handleReportWord c w r) = rm_engine r"
  by (rule chatter_engine, simp)+

lemma submit_authority:
  assumes "rm_engine r = Some e" and "\<not> over e" and "\<not> may_change (submitInput c p w s) e r"
  shows "rm_engine (handleSubmit ev c p w s r) = Some e"
proof -
  have "Submit (ev_unicode ev) p x (ev_now ev) e = (e, None, ReasonNotYourTurn)" if "Turn e \<noteq> p" for x
    using that assms(2) by (auto simp: Submit_def)
  with assms show ?thesis by (auto simp: handleSubmit_def Let_def)
qed

lemma begin_in_game: "rm_engine r = Some e \<Longrightarrow> \<not> over e \<Longrightarrow> \<not> inLobby r"
  by (simp add: inLobby_def)

lemma handle_authority:
  assumes e: "rm_engine r = Some e" and go: "\<not> over e" and occ: "occupied r"
    and adm: "admissible (Input m) r" and no: "\<not> may_change m e r"
  shows "rm_engine (handle ev m r) = Some e"
proof (cases m)
  case (submitInput c p w s)
  with submit_authority [OF e go] no show ?thesis by (simp add: handle_def)
next
  case (joinInput c)
  with e begin_in_game [OF e go] show ?thesis
    by (auto simp: handle_def handleJoin_def Let_def inLobby_def occupied_def seatedCount_def split: option.split)
next
  case (lobbyInput c p act)
  with e no begin_in_game [OF e go] show ?thesis
    by (auto simp: handle_def handleLobby_def inLobby_def)
next
  case (chatInput c p w)
  with e show ?thesis by (simp add: handle_def handleChat_def Let_def)
next
  case (resumeInput p c prior)
  with e begin_in_game [OF e go] show ?thesis
    by (auto simp: handle_def handleResume_def Let_def inLobby_def split: option.split)
qed (use assms in \<open>auto simp: handle_def handleBotMove_def handleResign_def handleClaimDeadEnd_def
    handleDisconnect_def split: option.split\<close>)

text \<open>
  Claim (C11). Only the player to act can move a running game on, on the connection that holds the seat
  and, for a word, with the number of the present turn; the bot's worker only on the bot's turn with
  that number; the rest only by leaving. Whatever else is sent to the room, in any reachable state,
  leaves the game as it was.
\<close>

theorem only_the_player_to_act:
  assumes "room_reach (newRoom d code limit grace idle mode) l" and "\<not> lp_done l"
    and "rm_engine (lp_room l) = Some e" and "\<not> over e"
    and "admissible (Input m) (lp_room l)" and "\<not> may_change m e (lp_room l)"
  shows "rm_engine (handle ev m (lp_room l)) = Some e"
proof -
  have inv: "room_inv (lp_room l)" using reach_inv [OF assms(1)] assms(2) by (simp add: loop_inv_def)
  have "occupied (lp_room l)"
    using vacant_inLobby [OF inv] assms(3,4) unfolding occupied_iff by (auto simp: inLobby_def)
  then show ?thesis using handle_authority assms by blast
qed

text \<open>A second connection sends the right word at the right time, and is not the player.\<close>

theorem only_the_player_to_act_witness:
  "\<exists>e. rm_engine (handle demo_env (submitInput 9 P1 [97, 32, 99] 1) (lp_room play1)) = Some e \<and> history e = []"
proof -
  have "map_option (\<lambda>e. (over e, history e)) (rm_engine (lp_room play1)) = Some (False, [])" by code_simp
  then obtain e where e: "rm_engine (lp_room play1) = Some e" "\<not> over e" "history e = []" by auto
  have "\<not> occupies (lp_room play1) 9 P1" by code_simp
  then have "\<not> may_change (submitInput 9 P1 [97, 32, 99] 1) e (lp_room play1)" by simp
  moreover have "admissible (Input (submitInput 9 P1 [97, 32, 99] 1)) (lp_room play1)" by simp
  ultimately show ?thesis
    using only_the_player_to_act [OF demo_play1 [unfolded fresh_room_def] demo_done(3) e(1,2)] e(3) by blast
qed


subsection \<open>The turn sequence\<close>

text \<open>
  The number clients quote back is sound: if a step of the loop leaves it as it was and a
  game is running afterwards, then that game was running before, it is the same player's turn, on the
  same syllable, with the same words used.
\<close>

lemma turn_sequence:
  assumes "room_reach (newRoom d code limit grace idle mode) l" and "\<not> lp_done l"
    and "admissible x (lp_room l)"
    and "rm_turnSeq (lp_room (run_step ev x l)) = rm_turnSeq (lp_room l)"
    and "rm_engine (lp_room (run_step ev x l)) = Some e'" and "\<not> over e'"
  shows "\<exists>e. rm_engine (lp_room l) = Some e \<and> \<not> over e \<and> Turn e' = Turn e \<and> current e' = current e \<and>
    used e' = used e \<and> history e' = history e"
proof -
  have "seq_ok (lp_room l) (lp_room (run_step ev x l))"
    using run_step_good [OF reach_inv [OF assms(1)] assms(2,3)] by blast
  with assms(4-6) show ?thesis unfolding seq_ok_def by blast
qed

subsection \<open>Timers\<close>

text \<open>
  Claim (C12). After every step that does not close the room, whatever must be waited for is waited for
  and nothing else: a running game has the turn timer armed at the engine's deadline, the earliest open
  reconnect window has its timer, and an idle lobby, and only that, has the idle timer. No turn and no
  seat can be held for ever.
\<close>

theorem timers_armed:
  assumes "room_reach (newRoom d code limit grace idle mode) l" and "\<not> lp_done l"
    and "\<not> lp_done (run_step ev x l)"
  shows "case run_step ev x l of l' \<Rightarrow>
    (\<forall>t. lp_turnTimer l' = Some t \<longleftrightarrow> (\<exists>e. rm_engine (lp_room l') = Some e \<and> \<not> over e \<and> deadline e = t)) \<and>
    set_for_first (lp_graceTimer l') (open_windows (lp_room l')) \<and>
    (lp_idleTimer l' \<noteq> None \<longleftrightarrow> rm_strategy (lp_room l') = None \<and> inLobby (lp_room l'))"
  using run_step_armed [OF assms(2,3) reach_grace [OF assms(1,2)]] nextGraceExpiry_first
  by (auto simp: armed_def turn_due_def idle_room_def split: option.splits)

theorem timers_armed_witness: "lp_idleTimer lobby1 \<noteq> None \<and> lp_turnTimer play1 \<noteq> None"
proof -
  note fr = fresh_reach [unfolded fresh_room_def]
  have d: "\<not> lp_done (start_loop fresh_room)" by (simp add: start_loop_def)
  note ta = timers_armed [OF fr d [unfolded fresh_room_def], folded fresh_room_def]
  have "lp_idleTimer lobby1 \<noteq> None \<longleftrightarrow> rm_strategy (lp_room lobby1) = None \<and> inLobby (lp_room lobby1)"
    using ta demo_done(1) unfolding lobby1_run by blast
  moreover have "lp_turnTimer play1 = Some t \<longleftrightarrow> (\<exists>e. rm_engine (lp_room play1) = Some e \<and> \<not> over e \<and> deadline e = t)" for t
    using ta demo_done(3) unfolding play1_def by blast
  moreover have "rm_strategy (lp_room lobby1) = None" "inLobby (lp_room lobby1)"
    "map_option over (rm_engine (lp_room play1)) = Some False" by code_simp+
  ultimately show ?thesis by auto
qed

subsection \<open>The conversation\<close>

text \<open>
  In every reachable state, a line shown to a player as their own was said since they sat
  down, so nobody inherits the words of whoever sat there before; a line that still carries a name is
  by somebody still seated, and one whose author has left carries none.
\<close>

lemma chat_attribution:
  assumes "room_reach (newRoom d code limit grace idle mode) l" and "\<not> lp_done l"
    and "x \<in> set (rm_chat (lp_room l))"
  shows "(\<forall>s \<in> set (seated (lp_room l)). cm_fromMe (chatMessageFor x (se_id s)) \<longrightarrow> se_chatFrom s < ce_seq x) \<and>
    (ce_author x \<noteq> [] \<longrightarrow> ce_author x \<in> se_id ` set (seated (lp_room l))) \<and>
    (ce_author x = [] \<longrightarrow> ce_name x = [])"
proof -
  let ?r = "lp_room l"
  have inv: "seat_inv ?r" "chat_inv ?r"
    using reach_inv [OF assms(1)] assms(2) by (simp_all add: loop_inv_def room_inv_def)
  then have x: "ce_author x = [] \<longrightarrow> ce_name x = []"
    "ce_author x \<noteq> [] \<longrightarrow> (\<exists>i c rd k. holds ?r i (ce_author x) c rd k \<and> k < ce_seq x)"
    using assms(3) by (auto simp: chat_inv_def)
  have "se_chatFrom s < ce_seq x"
    if s: "s \<in> set (seated ?r)" and me: "cm_fromMe (chatMessageFor x (se_id s))" for s
  proof -
    have me': "ce_author x \<noteq> []" "ce_author x = se_id s" using me by (auto simp: chatMessageFor_def)
    then obtain i c rd k where h: "holds ?r i (se_id s) c rd k" "k < ce_seq x" using x(2) by auto
    obtain j where j: "j < length (rm_seats ?r)" "rm_seats ?r ! j = Some s"
      using s seated_iff in_set_conv_nth by metis
    then have hs: "holds ?r j (se_id s) (se_sess s) (se_ready s) (se_chatFrom s)"
      by (simp add: holds_iff seat_core_def)
    then have "i = j" using holds_inj [OF inv(1) h(1)] by blast
    with holds_fun [OF h(1)] hs have "se_chatFrom s = k" by blast
    with h(2) show ?thesis by simp
  qed
  moreover have "ce_author x \<in> se_id ` set (seated ?r)" if "ce_author x \<noteq> []"
  proof -
    have "ce_author x \<in> ids ?r" using x(2) that by (auto simp: ids_def)
    then obtain s where "s \<in> set (seated ?r)" "se_id s = ce_author x" using ids_iff seated_iff by metis
    then show ?thesis by force
  qed
  ultimately show ?thesis using x(1) by blast
qed

end
