(* ===== verification/Room_Seat_Props.thy ===== *)
theory Room_Seat_Props
  imports Demo_Room
begin

text \<open>
  What the operations on seats do: joining, kicking, losing a connection and coming back, and seats
  that are given up for good.
\<close>

subsection \<open>Joining\<close>

text \<open>What a seat means to its player, readiness and a result not yet seen left out.\<close>

definition seat_keep :: "seat \<Rightarrow> player \<times> conn option \<times> str \<times> u32 \<times> nat" where
  "seat_keep s = (se_id s, se_sess s, se_nickname s, se_wins s, se_chatFrom s)"

definition kept :: "room \<Rightarrow> (player \<times> conn option \<times> str \<times> u32 \<times> nat) option list" where
  "kept r = map (map_option seat_keep) (rm_seats r)"

lemma kept_cong: "rm_seats r' = rm_seats r \<Longrightarrow> kept r' = kept r"
  by (simp add: kept_def)

lemma kept_chatter: "chatter r r' \<Longrightarrow> kept r' = kept r"
  by (rule kept_cong) (rule chatter_fields)

lemma kept_beginGame: "kept (snd (beginGame ev r)) = kept r"
proof (cases "\<exists>w e. ev_opening ev = Some w \<and>
    New (Some (rd_game (rm_dict r))) (turn_order ev r) w (rm_turnLimit r) (ev_now ev) = Inr e")
  case False
  then show ?thesis by (auto simp: beginGame_def split: option.splits sum.splits)
next
  case True
  then obtain w e where w: "ev_opening ev = Some w"
    "New (Some (rd_game (rm_dict r))) (turn_order ev r) w (rm_turnLimit r) (ev_now ev) = Inr e" by blast
  have bot: "kept (maybeScheduleBot e z) = kept z" for z by (rule kept_chatter) simp
  have f: "seat_keep (s\<lparr>se_ready := False, se_missedResult := None\<rparr>) = seat_keep s" for s
    by (simp add: seat_keep_def)
  show ?thesis
    by (simp add: beginGame_def w Let_def bot) (simp add: kept_def upd_seats_def option.map_comp comp_def f)
qed

lemma distinguish_fresh: "distinguish name taken \<notin> set taken"
  using distinguish_from_free [of name taken 2] by (auto simp: distinguish_def)

text \<open>
  Claim (C13). Joining seats exactly one newcomer or nobody: a room that is empty, full or playing, or
  already holds the connection, stays as it was and the newcomer is told which of these it was: room
  full (or deserted), a game in progress, or their own room, in this order; otherwise the first free
  place is theirs, under a name nobody in the room has, with the conversation so far not theirs to read,
  and every other seat keeps its player, connection, name and wins.
\<close>

theorem join_outcome:
  "let r' = handleJoin ev c r in
    if \<not> occupied r \<or> freeSeat r = None \<or> \<not> inLobby r \<or> c \<in> fst ` set (connected r)
    then rm_seats r' = rm_seats r \<and> rm_engine r' = rm_engine r \<and>
      last (rm_out r') = Send c (errorMsg
        (if \<not> occupied r \<or> freeSeat r = None then codeRoomFull
         else if \<not> inLobby r then codeGameInProgress else codeCannotJoinOwnRoom))
    else \<exists>i n. freeSeat r = Some i \<and> n \<notin> set (takenNicknames r) \<and>
      kept r' = (kept r)[i := Some (seatIDs ! i, if ev_closed ev c then None else Some c, n, 0, rm_chatSeq r)]"
proof -
  define r' where "r' = handleJoin ev c r"
  define z where "z = r\<lparr>rm_autoStart := False\<rparr>"
  have z: "occupied z = occupied r" "freeSeat z = freeSeat r" "inLobby z = inLobby r"
    "connected z = connected r" "rm_seats z = rm_seats r" "rm_engine z = rm_engine r"
    "takenNicknames z = takenNicknames r" "rm_chatSeq z = rm_chatSeq r"
    by (simp_all add: z_def occupied_def seatedCount_def freeSeat_def inLobby_def connected_def seated_def
        takenNicknames_def)
  show ?thesis
  proof (cases "\<not> occupied r \<or> freeSeat r = None \<or> \<not> inLobby r \<or> c \<in> fst ` set (connected r)")
    case True
    then show ?thesis unfolding handleJoin_def Let_def z_def [symmetric] using z
      by (auto simp: reply_def split: option.split)
  next
    case False
    then obtain i where i: "freeSeat r = Some i" by auto
    have len: "i < length (rm_seats r)" using freeSeat_Some [OF i] by simp
    define n where "n = distinguish (ev_nickname ev c) (takenNicknames r)"
    define a where "a = (takeSeat i n c z)\<lparr>rm_lobbyChanged := True\<rparr>"
    have ka: "kept a = (kept r)[i := Some (seatIDs ! i, Some c, n, 0, rm_chatSeq r)]"
      using z by (simp add: a_def takeSeat_sat kept_def sat_def map_update seat_keep_def)
    define b where "b = sendChatHistory (rm_seats a ! i) a"
    have kb: "kept b = kept a" unfolding b_def by (rule kept_chatter) simp
    define d where "d = broadcastRoomState (b\<lparr>rm_lobbyChanged := False\<rparr>)"
    have kd: "kept d = kept b"
    proof -
      have "kept d = kept (b\<lparr>rm_lobbyChanged := False\<rparr>)" unfolding d_def by (rule kept_chatter) simp
      then show ?thesis by (simp add: kept_def)
    qed
    have ke: "kept (broadcastError code y) = kept y" for code y by (rule kept_chatter) simp
    have hold: "kept (holdSeat ev i a) = (kept r)[i := Some (seatIDs ! i, None, n, 0, rm_chatSeq r)]"
      using len z by (simp add: holdSeat_def upd_seat_def a_def takeSeat_sat kept_def sat_def map_update seat_keep_def)
    have start: "kept (let (ok, y) = beginGame ev d in if ok then y else broadcastError code y) = kept d" for code
      using kept_beginGame [of ev d] ke by (cases "beginGame ev d") simp
    have r': "r' = (if ev_closed ev c then holdSeat ev i a
        else if rm_autoStart r \<and> minPlayers \<le> seatedCount b \<and> allConnected b
          then if ev_draining ev then broadcastError codeServerRestarting b
               else (let (ok, y) = beginGame ev d in if ok then y else broadcastError codeGameStartFailed y)
          else b)"
    proof -
      have free: "(if occupied z then freeSeat z else None) = Some i" using False i z(1,2) by simp
      have auto: "rm_autoStart z = False" by (simp add: z_def)
      show ?thesis
        using False unfolding r'_def handleJoin_def Let_def z_def [symmetric] free option.case z(3,4,7)
          n_def [symmetric] a_def [symmetric] b_def [symmetric] d_def [symmetric]
        by auto
    qed
    have "kept r' = (kept r)[i := Some (seatIDs ! i, if ev_closed ev c then None else Some c, n, 0, rm_chatSeq r)]"
      unfolding r' using hold start ka kb kd ke by simp
    moreover have "n \<notin> set (takenNicknames r)" unfolding n_def by (rule distinguish_fresh)
    ultimately show ?thesis using False i unfolding Let_def r'_def [symmetric] by auto
  qed
qed

theorem join_outcome_witness:
  "\<exists>n. n \<noteq> [65] \<and> kept (handleJoin demo_env 2 (lp_room lobby1)) =
     (kept (lp_room lobby1))[1 := Some (seatIDs ! 1, Some 2, n, 0, 0)]"
proof -
  have "occupied (lp_room lobby1)" "freeSeat (lp_room lobby1) = Some 1" "inLobby (lp_room lobby1)"
    "2 \<notin> fst ` set (connected (lp_room lobby1))" "takenNicknames (lp_room lobby1) = [[65]]"
    "\<not> ev_closed demo_env 2" "rm_chatSeq (lp_room lobby1) = 0"
    by code_simp+
  then show ?thesis using join_outcome [of demo_env 2 "lp_room lobby1"] by (auto simp: Let_def)
qed

subsection \<open>Kicking\<close>

definition may_kick :: "room \<Rightarrow> conn \<Rightarrow> player \<Rightarrow> player \<Rightarrow> bool" where
  "may_kick r c p v \<longleftrightarrow> occupies r c p \<and> rm_strategy r = None \<and> inLobby r \<and> p = rm_owner r \<and> v \<noteq> p \<and>
     (case seatOf r v of None \<Rightarrow> False | Some t \<Rightarrow> \<not> se_ready (seat_at r t))"

lemma vacate_other:
  assumes s: "rm_seats r ! i = Some s" and "rm_owner r \<noteq> se_id s"
  shows "rm_seats (vacate i r) = (rm_seats r)[i := None]" and "rm_owner (vacate i r) = rm_owner r"
    and "rm_chat (vacate i r) = map (scrub (se_id s)) (rm_chat r)"
    and "\<exists>xs. rm_out (vacate i r) = rm_out r @ (case se_sess s of None \<Rightarrow> [] | Some c \<Rightarrow> [Release c]) @ xs"
proof -
  let ?z = "emits (case se_sess s of None \<Rightarrow> [] | Some c \<Rightarrow> [Release c]) (emptied i (se_id s) r)"
  obtain a where "chatter ?z a" "vacate i r = a" using vacate_released [OF s] assms(2) by auto
  then obtain xs where "vacate i r = emits xs ?z" unfolding chatter_def by blast
  then show "rm_seats (vacate i r) = (rm_seats r)[i := None]" and "rm_owner (vacate i r) = rm_owner r"
    and "rm_chat (vacate i r) = map (scrub (se_id s)) (rm_chat r)"
    and "\<exists>xs. rm_out (vacate i r) = rm_out r @ (case se_sess s of None \<Rightarrow> [] | Some c \<Rightarrow> [Release c]) @ xs"
    by (auto simp: emptied_def)
qed

text \<open>
  A kick takes out exactly the player named, and only if the sender sits there, owns the
  room, no game is running, and the player named is somebody else and not ready: their seat becomes
  empty, their connection is released and told, their name leaves the conversation, and the sender still
  owns the room. In every other case the seats and the conversation stay as they were.
\<close>

lemma kick_outcome:
  "let r' = handleLobby ev c p (lobbyKick v) r in
    if may_kick r c p v
    then \<exists>t s. seatOf r v = Some t \<and> rm_seats r ! t = Some s \<and> rm_seats r' = (rm_seats r)[t := None] \<and>
      rm_owner r' = p \<and> rm_chat r' = map (scrub v) (rm_chat r) \<and>
      {x. \<exists>k. se_sess s = Some k \<and> (x = Release k \<or> x = Send k (errorMsg codeKicked))} \<subseteq> set (rm_out r')
    else rm_seats r' = rm_seats r \<and> rm_chat r' = rm_chat r"
proof (cases "may_kick r c p v")
  case False
  then show ?thesis
    by (auto simp: Let_def may_kick_def handleLobby_def lobby_kick_def reply_def seatOf_Some(3)
        split: option.split)
next
  case True
  then obtain t where t: "seatOf r v = Some t" "\<not> se_ready (seat_at r t)" "v \<noteq> p" "p = rm_owner r"
    "occupies r c p" "rm_strategy r = None" "inLobby r"
    by (auto simp: may_kick_def split: option.splits)
  note s = seatOf_Some [OF t(1)]
  have other: "rm_owner r \<noteq> se_id (seat_at r t)" using s(3) t(3,4) by simp
  note va = vacate_other [OF s(2) other]
  obtain m where m: "seatOf r p = Some m" using t(5) occupiesD by blast
  have "m \<noteq> t" using seatOf_Some(3) [OF m] s(3) t(3) by auto
  then have r': "handleLobby ev c p (lobbyKick v) r =
      (case se_sess (seat_at r t) of None \<Rightarrow> vacate t r | Some k \<Rightarrow> reply k codeKicked (vacate t r))
        \<lparr>rm_lobbyChanged := True\<rparr>"
    using t m by (simp add: handleLobby_def lobby_kick_def Let_def)
  show ?thesis
    unfolding Let_def r' if_P [OF True]
  proof (intro exI conjI)
    show "seatOf r v = Some t" "rm_seats r ! t = Some (seat_at r t)" by (fact t(1) s(2))+
  qed (use va t(4) s(3) in \<open>auto simp: reply_def split: option.splits\<close>)
qed

subsection \<open>Losing the connection and coming back\<close>

text \<open>
  Claim (C14). A lost connection costs nothing if its player is back in time: the seat is held for
  exactly the reconnect window; a resume that names the lost connection puts the new one in its place
  and changes nothing else about the seats, the game, the turn, the owner or the conversation; a resume
  that names any other connection is refused and changes no seat.
\<close>

theorem resume_restores:
  assumes i: "seatOf r p = Some i" and c: "se_sess (seat_at r i) = Some c" and "\<not> ev_closed ev' d"
    and r1: "r1 = handleDisconnect ev p c r" and r2: "r2 = handleResume ev' p d c r1"
    and r3: "r3 = handleResume ev' p d other r1" and "other \<noteq> c"
  shows "(i \<in> set (expired_seats ev' r1) \<longleftrightarrow> ev_now ev + rm_graceFor r \<le> ev_now ev') \<and>
    rm_seats r2 = (rm_seats r)[i := Some ((seat_at r i)\<lparr>se_sess := Some d, se_heldFor := None,
      se_graceUntil := None\<rparr>)] \<and>
    (rm_engine r2, rm_turnSeq r2, rm_owner r2, rm_chat r2) = (rm_engine r, rm_turnSeq r, rm_owner r, rm_chat r) \<and>
    rm_seats r3 = rm_seats r1 \<and> last (rm_out r3) = Send d (errorMsg codeSessionNotResumable)"
proof -
  note s = seatOf_Some [OF i]
  have r1': "r1 = holdSeat ev i r" using i c by (simp add: r1 handleDisconnect_def)
  let ?held = "(seat_at r i)\<lparr>se_heldFor := Some c, se_sess := None,
      se_graceUntil := Some (ev_now ev + rm_graceFor r)\<rparr>"
  have seats1: "rm_seats r1 = (rm_seats r)[i := Some ?held]"
    using s c by (simp add: r1' holdSeat_def upd_seat_def)
  have at1: "seat_at r1 i = ?held" "rm_seats r1 ! i = Some ?held"
    using s(1) by (simp_all add: seat_at_def seats1)
  have find: "find_seat k ((ss)[j := Some x]) p = find_seat k ss p"
    if "j < length ss" "ss ! j = Some y" "se_id x = se_id y" for ss j k and x y :: seat
    using that
  proof (induction k ss p arbitrary: j rule: find_seat.induct)
    case (2 k ss p)
    then show ?case by (cases j) simp_all
  next
    case (3 k t ss p)
    then show ?case by (cases j) simp_all
  qed simp
  have i1: "seatOf r1 p = Some i"
    unfolding seatOf_def seats1 using find [OF s(1,2), of ?held] i by (simp add: seatOf_def)
  have expire: "i \<in> set (expired_seats ev' r1) \<longleftrightarrow> ev_now ev + rm_graceFor r \<le> ev_now ev'"
    using s(1) at1(2) by (auto simp: expired_seats_def seats1 waiting_until_def)
  define ret where "ret = (upd_seat i (\<lambda>s. s\<lparr>se_sess := Some d, se_heldFor := None, se_graceUntil := None\<rparr>)
    (emits [Count resumesSucceeded, Attach d p, CancelQuickMatch d, Unregister c, CloseSession c] r1))
    \<lparr>rm_lobbyChanged := True\<rparr>"
  have seats_ret: "rm_seats ret = (rm_seats r)[i := Some ((seat_at r i)\<lparr>se_sess := Some d,
      se_heldFor := None, se_graceUntil := None\<rparr>)]"
    using s(1) at1(2) by (simp add: ret_def upd_seat_def seats1)
  have game_ret: "rm_engine ret = rm_engine r" "rm_turnSeq ret = rm_turnSeq r" "rm_owner ret = rm_owner r"
    "rm_chat ret = rm_chat r" by (simp_all add: ret_def r1' holdSeat_def)
  define hist where "hist = sendChatHistory (rm_seats ret ! i) ret"
  have ch: "chatter ret hist" by (simp add: hist_def)
  have "rm_seats r2 = rm_seats hist \<and> rm_engine r2 = rm_engine hist \<and> rm_turnSeq r2 = rm_turnSeq hist \<and>
      rm_owner r2 = rm_owner hist \<and> rm_chat r2 = rm_chat hist"
    using at1(1) assms(3)
    unfolding r2 handleResume_def i1 option.case Let_def ret_def [symmetric] hist_def [symmetric]
    by (auto split: option.split)
  moreover have "rm_seats hist = rm_seats ret" "rm_engine hist = rm_engine ret"
    "rm_turnSeq hist = rm_turnSeq ret" "rm_owner hist = rm_owner ret" "rm_chat hist = rm_chat ret"
    using ch by (auto simp: chatter_def)
  moreover have "r3 = reply d codeSessionNotResumable r1"
    using at1(1) assms(7) by (simp add: r3 handleResume_def i1)
  ultimately show ?thesis using expire seats_ret game_ret by (simp add: reply_def)
qed

theorem resume_restores_witness:
  "map_option se_sess (rm_seats (handleResume demo_env P1 3 1 (handleDisconnect demo_env P1 1 (lp_room lobby1))) ! 0) =
   Some (Some 3)"
proof -
  have "seatOf (lp_room lobby1) P1 = Some 0" "se_sess (seat_at (lp_room lobby1) 0) = Some 1"
    "\<not> ev_closed demo_env 3" "0 < length (rm_seats (lp_room lobby1))" by code_simp+
  with resume_restores [of "lp_room lobby1" P1 0 1 demo_env 3 _ demo_env _ _ 9, OF _ _ _ refl refl refl]
  show ?thesis by simp
qed

subsection \<open>Seats given up\<close>

text \<open>Who sits where, on which connection, since which line of the chat.\<close>

definition places :: "room \<Rightarrow> (player \<times> conn option \<times> nat) option list" where
  "places r = map (map_option (\<lambda>s. (se_id s, se_sess s, se_chatFrom s))) (rm_seats r)"

lemma places_cong: "rm_seats r' = rm_seats r \<Longrightarrow> places r' = places r"
  by (simp add: places_def)

lemma places_cores: "cores r' = cores r \<Longrightarrow> places r' = places r"
proof -
  have "places r = map (map_option (\<lambda>(p, c, rd, k). (p, c, k))) (cores r)" for r
    by (simp add: places_def cores_def option.map_comp comp_def seat_core_def)
  then show "cores r' = cores r \<Longrightarrow> places r' = places r" by simp
qed

lemma places_chatter: "chatter r r' \<Longrightarrow> places r' = places r"
  by (rule places_cong) (rule chatter_fields)

lemma places_promote: "places (promote r) = places r"
proof (cases "promote_from 0 (rm_seats r)")
  case None
  then show ?thesis by (simp add: promote_def places_def)
next
  case (Some i)
  then obtain s where "i < length (rm_seats r)" "rm_seats r ! i = Some s"
    using promote_from_Some [of 0 "rm_seats r" i] by auto
  with Some show ?thesis
    by (auto simp: promote_def places_def upd_seat_def map_update list_update_same_conv)
qed

lemma places_vacate: "places (vacate i r) = (places r)[i := None]"
proof (cases "rm_seats r ! i")
  case None
  then have "(places r)[i := None] = places r"
  proof (cases "i < length (rm_seats r)")
    case True
    with None have "places r ! i = None" by (simp add: places_def)
    then show ?thesis using list_update_id [of "places r" i] by simp
  qed (simp add: places_def list_update_beyond)
  with None show ?thesis by (simp add: vacate_def)
next
  case (Some s)
  obtain a where a: "chatter (emptied i (se_id s) r) a"
      "vacate i r = (if rm_owner r = se_id s then promote a else a)"
    using vacate_emptied [OF Some] by blast
  have "places a = (places r)[i := None]"
    unfolding places_chatter [OF a(1)] by (simp add: places_def emptied_def map_update)
  with a(2) places_promote show ?thesis by simp
qed

lemma places_vacate_all: "places (fold vacate xs r) = map (\<lambda>(j, x). if j \<in> set xs then None else x) (List.enumerate 0 (places r))"
proof (induction xs arbitrary: r)
  case Nil
  then show ?case by (simp add: nth_equalityI nth_enumerate_eq)
next
  case (Cons i xs)
  show ?case
    by (rule nth_equalityI) (auto simp: Cons.IH places_vacate nth_enumerate_eq nth_list_update)
qed

definition emptied_places :: "nat list \<Rightarrow> room \<Rightarrow> (player \<times> conn option \<times> nat) option list" where
  "emptied_places xs r = map (\<lambda>(j, x). if j \<in> set xs then None else x) (List.enumerate 0 (places r))"

lemma removed_places:
  assumes inv: "room_inv r"
  shows "places (fold vacate xs (applyEliminations (mark r)
    (fold (\<lambda>i. eliminateAbsent ev (se_id (seat_at r i))) xs r))) = emptied_places xs r"
proof -
  have keep: "rm_seats (eliminateAbsent ev p z) = rm_seats z" for p z
    by (simp add: eliminateAbsent_def split: option.split)
  have "rm_seats (fold (\<lambda>i. eliminateAbsent ev (f i)) ys z) = rm_seats z" for f ys z
    by (induction ys arbitrary: z) (simp_all add: keep)
  then have a: "places (fold (\<lambda>i. eliminateAbsent ev (se_id (seat_at r i))) xs r) = places r"
    by (rule places_cong)
  have b: "places (applyEliminations (mark r) z) = places z" for z
  proof (cases "rm_engine z")
    case None
    then show ?thesis by (simp add: applyEliminations_def)
  next
    case (Some e)
    then show ?thesis using applyEliminations_facts(1) [OF Some] by (intro places_cores) (simp add: same_seating_def)
  qed
  show ?thesis unfolding places_vacate_all b a emptied_places_def ..
qed

text \<open>
  Written down from the seats alone: a chair is given up when nobody sits on it and the time it is held until has
  come.
\<close>

definition given_up :: "instant \<Rightarrow> seat \<Rightarrow> bool" where
  "given_up now s \<longleftrightarrow> se_sess s = None \<and> (\<exists>t. se_graceUntil s = Some t \<and> t \<le> now)"

definition places_left :: "instant \<Rightarrow> room \<Rightarrow> (player \<times> conn option \<times> nat) option list" where
  "places_left now r = map (\<lambda>so. case so of None \<Rightarrow> None
     | Some s \<Rightarrow> if given_up now s then None else Some (se_id s, se_sess s, se_chatFrom s)) (rm_seats r)"

lemma expired_given_up:
  "i < length (rm_seats r) \<Longrightarrow> rm_seats r ! i = Some s \<Longrightarrow> i \<in> set (expired_seats ev r) \<longleftrightarrow> given_up (ev_now ev) s"
  by (auto simp: expired_seats_def given_up_def waiting_until_def not_less split: option.splits)

lemma emptied_left: "emptied_places (expired_seats ev r) r = places_left (ev_now ev) r"
proof (rule nth_equalityI)
  fix i assume "i < length (emptied_places (expired_seats ev r) r)"
  then have i: "i < length (rm_seats r)" by (simp add: emptied_places_def places_def)
  then show "emptied_places (expired_seats ev r) r ! i = places_left (ev_now ev) r ! i"
    using expired_given_up [OF i]
    by (cases "rm_seats r ! i") (simp_all add: emptied_places_def places_left_def places_def nth_enumerate_eq)
qed (simp add: emptied_places_def places_left_def places_def)

text \<open>
  Claim (C15). When reconnect windows run out, exactly the seats whose window has ended are emptied,
  every other player keeps place and connection, and nobody whose seat was emptied is still in a running
  game; a player who leaves during a game is treated in the same way.
\<close>

theorem seats_given_up:
  assumes "room_reach (newRoom d code limit grace idle mode) l" and "\<not> lp_done l"
  shows "places (handleGraceExpiry ev (lp_room l)) = places_left (ev_now ev) (lp_room l) \<and>
    room_inv (handleGraceExpiry ev (lp_room l)) \<and>
    (occupies (lp_room l) c p \<and> rm_strategy (lp_room l) = None \<and> \<not> inLobby (lp_room l) \<longrightarrow>
       places (handleLobby ev c p lobbyLeave (lp_room l)) = emptied_places [the (seatOf (lp_room l) p)] (lp_room l) \<and>
       room_inv (handleLobby ev c p lobbyLeave (lp_room l)))"
proof -
  let ?r = "lp_room l"
  have inv: "room_inv ?r" using reach_inv [OF assms(1)] assms(2) by (simp add: loop_inv_def)
  have grace: "places (handleGraceExpiry ev ?r) = emptied_places (expired_seats ev ?r) ?r"
  proof (cases "expired_seats ev ?r = []")
    case True
    then show ?thesis by (simp add: handleGraceExpiry_def emptied_places_def nth_equalityI nth_enumerate_eq)
  next
    case False
    have "places (z\<lparr>rm_lobbyChanged := True\<rparr>) = places z" for z by (simp add: places_def)
    then show ?thesis using False removed_places [OF inv, of "expired_seats ev ?r" ev]
      by (simp add: handleGraceExpiry_def Let_def)
  qed
  have leave: "places (handleLobby ev c p lobbyLeave ?r) = emptied_places [the (seatOf ?r p)] ?r"
    if h: "occupies ?r c p" "rm_strategy ?r = None" "\<not> inLobby ?r"
  proof -
    obtain i where i: "seatOf ?r p = Some i" using h(1) occupiesD by blast
    have "places (z\<lparr>rm_lobbyChanged := True\<rparr>) = places z" for z by (simp add: places_def)
    then show ?thesis using h i removed_places [OF inv, of "[i]" ev]
      by (simp add: handleLobby_def lobby_leave_def Let_def)
  qed
  show ?thesis
    using grace [unfolded emptied_left] leave goodD [OF handleGraceExpiry_good [OF inv]] goodD [OF handleLobby_good [OF inv]] by blast
qed

text \<open>The first player of the lobby above drops; at the end of the window the room is empty.\<close>

definition lobby4 :: loop where
  "lobby4 = run_step demo_env (Input (disconnectInput P1 1)) lobby1"

definition demo_later :: env where "demo_later = demo_env\<lparr>ev_now := 30000000000\<rparr>"

lemma demo_lobby4: "room_reach fresh_room lobby4" "\<not> lp_done lobby4"
  "map (\<lambda>so. case so of None \<Rightarrow> False | Some s \<Rightarrow> se_sess s = None \<and> se_graceUntil s = Some 30000000000) (rm_seats (lp_room lobby4)) =
     [True, False, False, False]"
proof -
  show "room_reach fresh_room lobby4"
    unfolding lobby4_def by (rule room_reach.stepped [OF demo_lobby1 demo_done(1)]) simp_all
  show "\<not> lp_done lobby4" by code_simp
  show "map (\<lambda>so. case so of None \<Rightarrow> False | Some s \<Rightarrow> se_sess s = None \<and> se_graceUntil s = Some 30000000000) (rm_seats (lp_room lobby4)) =
     [True, False, False, False]" by code_simp
qed

theorem seats_given_up_witness: "places (handleGraceExpiry demo_later (lp_room lobby4)) ! 0 = None"
proof -
  obtain s rest where "rm_seats (lp_room lobby4) = Some s # rest" "se_sess s = None" "se_graceUntil s = Some 30000000000"
    using demo_lobby4(3) by (auto split: option.splits)
  then show ?thesis
    using seats_given_up [OF demo_lobby4(1) [unfolded fresh_room_def] demo_lobby4(2), of demo_later]
    by (simp add: places_left_def given_up_def demo_later_def)
qed

end
