(* ===== verification/Bot_Facts.thy ===== *)
theory Bot_Facts
  imports Bot Dictionary_Facts
begin

text \<open>
  What the strategies have in common, as a contract, and the search of the hard one against plain
  minimax.
\<close>

subsection \<open>The contract of a strategy\<close>

text \<open>A draw below \<open>n\<close> is below \<open>n\<close>.\<close>

definition draws_ok :: "draws \<Rightarrow> bool" where
  "draws_ok rng \<longleftrightarrow> (\<forall>n > 0. intN rng n < n)"

text \<open>It plays a legal move, or says there is none exactly when there is none.\<close>

locale strategy =
  fixes pick :: "draws \<Rightarrow> board \<Rightarrow> str option"
  assumes choose_legal: "draws_ok rng \<Longrightarrow> pick rng b = Some w \<Longrightarrow> w \<in> set (b_legal b)"
    and choose_none: "pick rng b = None \<longleftrightarrow> b_legal b = []"
begin

lemma choose_some: "b_legal b \<noteq> [] \<Longrightarrow> \<exists>w. pick rng b = Some w"
  using choose_none [of rng b] by auto

lemma choose_move: "draws_ok rng \<Longrightarrow> pick rng (freezeBoard e) = Some w \<Longrightarrow> w \<in> set (LegalMoves e)"
  using choose_legal [of rng "freezeBoard e" w] by (simp add: freezeBoard_def)

end

lemma draw_nth: "draws_ok rng \<Longrightarrow> xs \<noteq> [] \<Longrightarrow> xs ! intN rng (length xs) \<in> set xs"
  by (simp add: draws_ok_def)

lemma sort_key_Nil [simp]: "sort_key f xs = [] \<longleftrightarrow> xs = []"
  by (metis length_0_conv length_sort)

lemma scoreMoves_set:
  "m \<in> set (scoreMoves b ws) \<Longrightarrow>
   sm_word m \<in> set ws \<and> (\<exists>l. b_last b (sm_word m) = Some l \<and> handsOver m = remainingOutDegree b l (sm_word m))"
  by (induction b ws rule: scoreMoves.induct) (auto split: option.splits)

lemma scoreMoves_complete:
  "w \<in> set ws \<Longrightarrow> b_last b w = Some l \<Longrightarrow>
   \<lparr>sm_word = w, handsOver = remainingOutDegree b l w\<rparr> \<in> set (scoreMoves b ws)"
  by (induction b ws rule: scoreMoves.induct) (auto split: option.splits)

interpretation easy: strategy easy_Choose
proof
  show "easy_Choose rng b = Some w \<Longrightarrow> w \<in> set (b_legal b)" if "draws_ok rng" for rng b w
    using draw_nth [OF that] by (auto simp: easy_Choose_def Let_def split: if_splits)
  show "easy_Choose rng b = None \<longleftrightarrow> b_legal b = []" for rng b
    by (simp add: easy_Choose_def Let_def)
qed

interpretation medium: strategy medium_Choose
proof
  fix rng b w
  assume ok: "draws_ok rng" and c: "medium_Choose rng b = Some w"
  let ?ms = "b_legal b" and ?sc = "sort_key handsOver (scoreMoves b (b_legal b))"
  have ne: "?ms \<noteq> []" using c by (auto simp: medium_Choose_def Let_def)
  have in_legal: "sm_word (?sc ! i) \<in> set ?ms" if "i < length ?sc" for i
    using scoreMoves_set [of "?sc ! i" b ?ms] nth_mem [OF that] by simp
  have cut: "intN rng (max (length ?sc div 4) 1) < length ?sc" if "?sc \<noteq> []"
  proof -
    have "intN rng (max (length ?sc div 4) 1) < max (length ?sc div 4) 1"
      using ok unfolding draws_ok_def by (metis less_max_iff_disj zero_less_one)
    moreover have "max (length ?sc div 4) 1 \<le> length ?sc" using that by (cases ?sc) auto
    ultimately show ?thesis by linarith
  qed
  show "w \<in> set ?ms"
  proof (cases "scoreMoves b ?ms = []")
    case True
    with c ne draw_nth [OF ok ne] show ?thesis by (auto simp: medium_Choose_def Let_def)
  next
    case False
    then have "?sc \<noteq> []" "0 < length ?sc" by simp_all
    with c ne False in_legal cut show ?thesis
      by (auto simp: medium_Choose_def Let_def split: if_splits)
  qed
qed (simp add: medium_Choose_def Let_def)

text \<open>The word the root settles on is one of those it looked at.\<close>

lemma root_loop_word:
  "fst (root_loop b logf ms i best \<alpha> budget) = best \<or> fst (root_loop b logf ms i best \<alpha> budget) \<in> sm_word ` set ms"
proof (induction ms arbitrary: i best \<alpha> budget)
  case (Cons m ms)
  show ?case
  proof (cases "branchCap \<le> i \<or> budget = 0 \<or> b_last b (sm_word m) = None")
    case True
    then show ?thesis using Cons.IH [of "i + 1" best \<alpha> budget] by auto
  next
    case False
    then obtain l where l: "b_last b (sm_word m) = Some l" by auto
    obtain v n where "negamax (searchDepth - 1) b logf [sm_word m] l NegInf (neg_score \<alpha>) budget = (v, n)"
      by fastforce
    then show ?thesis
      using False l Cons.IH [of "i + 1" best \<alpha> n] Cons.IH [of "i + 1" "sm_word m" "neg_score v" n]
      by (auto simp: Let_def)
  qed
qed simp

text \<open>The moves the search ranks: all of them, or those that do not win at once when a kill was declined.\<close>

definition ranked :: "board \<Rightarrow> scoredMove list" where
  "ranked b = (let scored = scoreMoves b (b_legal b); spared = filter (\<lambda>m. handsOver m > 0) scored
     in sort_key handsOver (if list_ex (\<lambda>m. handsOver m = 0) scored \<and> spared \<noteq> [] then spared else scored))"

lemma ranked_set: "set (ranked b) \<subseteq> set (scoreMoves b (b_legal b))"
  by (auto simp: ranked_def Let_def)

lemma ranked_Nil: "ranked b = [] \<longleftrightarrow> scoreMoves b (b_legal b) = []"
  by (auto simp: ranked_def Let_def)

lemma hard_Choose_eq:
  "hard_Choose logf rng b =
     (if b_legal b = [] then None
      else if scoreMoves b (b_legal b) = [] then Some (b_legal b ! intN rng (length (b_legal b)))
      else let kills = map sm_word (filter (\<lambda>m. handsOver m = 0) (scoreMoves b (b_legal b)))
           in if kills \<noteq> [] \<and> float64 rng < hardKillRate then Some (kills ! intN rng (length kills))
              else let best = fst (root_loop b logf (ranked b) 0 [] NegInf nodeCap)
                   in Some (if best = [] then sm_word (ranked b ! 0) else best))"
proof -
  have kills: "map sm_word (filter (\<lambda>m. handsOver m = 0) xs) \<noteq> [] \<longleftrightarrow> list_ex (\<lambda>m. handsOver m = 0) xs" for xs
    by (simp add: list_ex_iff filter_empty_conv)
  show ?thesis
    unfolding hard_Choose_def ranked_def Let_def kills prod.case_distrib [of Some] case_prod_beta by simp
qed

interpretation hard: strategy "hard_Choose logf" for logf
proof
  fix rng b w
  assume ok: "draws_ok rng" and c: "hard_Choose logf rng b = Some w"
  let ?ms = "b_legal b" and ?sc = "scoreMoves b (b_legal b)"
  let ?kills = "map sm_word (filter (\<lambda>m. handsOver m = 0) ?sc)"
  let ?best = "fst (root_loop b logf (ranked b) 0 [] NegInf nodeCap)"
  have legal: "sm_word m \<in> set ?ms" if "m \<in> set ?sc" for m using scoreMoves_set [OF that] by blast
  have kill: "?kills ! intN rng (length ?kills) \<in> set ?ms" if "?kills \<noteq> []"
    using draw_nth [OF ok that] legal by auto
  have first: "sm_word (ranked b ! 0) \<in> set ?ms" if "?sc \<noteq> []"
    using that ranked_Nil [of b] ranked_set [of b] nth_mem [of 0 "ranked b"] legal by (meson length_greater_0_conv subsetD)
  have best: "?best \<in> set ?ms" if "?best \<noteq> []"
    using that root_loop_word [of b logf "ranked b" 0 "[]" NegInf nodeCap] ranked_set [of b] legal by auto
  show "w \<in> set ?ms"
    using c kill first best draw_nth [OF ok, of ?ms]
    unfolding hard_Choose_eq Let_def by (auto split: if_splits)
next
  show "hard_Choose logf rng b = None \<longleftrightarrow> b_legal b = []" for rng b
    by (simp add: hard_Choose_eq Let_def)
qed

interpretation any_level: strategy "Choose d logf" for d logf
proof
  show "Choose d logf rng b = Some w \<Longrightarrow> w \<in> set (b_legal b)" if "draws_ok rng" for rng b w
    using easy.choose_legal [OF that] medium.choose_legal [OF that] hard.choose_legal [OF that]
    by (cases d) (auto simp: Choose_def)
  show "Choose d logf rng b = None \<longleftrightarrow> b_legal b = []" for rng b
    using easy.choose_none medium.choose_none hard.choose_none by (cases d) (auto simp: Choose_def)
qed

subsection \<open>The search against plain minimax\<close>

text \<open>The value of a position with every line looked at: the same depth, order and width, no window.\<close>

primrec minimax :: "nat \<Rightarrow> board \<Rightarrow> (nat \<Rightarrow> rat) \<Rightarrow> str list \<Rightarrow> str \<Rightarrow> score" where
  "minimax 0 b logf line cur =
     (let n = length (candidates b line cur) in Fin (if n = 0 then loseScore else logf n))"
| "minimax (Suc depth) b logf line cur =
     (if candidates b line cur = [] then Fin (loseScore - of_nat (Suc depth))
      else foldl max (Fin loseScore) (map (\<lambda>c. neg_score (minimax depth b logf (c_word c # line) (c_last c)))
             (take branchCap (ordered b line cur))))"

text \<open>
  What a value found with a window says about the true one: below the window, above it, or exact
  within it.
\<close>

definition agrees :: "score \<Rightarrow> score \<Rightarrow> score \<Rightarrow> score \<Rightarrow> bool" where
  "agrees \<alpha> \<beta> v r \<longleftrightarrow> (v \<le> \<alpha> \<longrightarrow> r \<le> \<alpha>) \<and> (\<alpha> < v \<and> v < \<beta> \<longrightarrow> r = v) \<and> (\<beta> \<le> v \<longrightarrow> \<beta> \<le> r)"

lemma agrees_refl [simp]: "agrees \<alpha> \<beta> v v"
  by (simp add: agrees_def)

lemma agrees_above:
  assumes "\<alpha> < \<beta>" and "\<beta> \<le> v" and "\<beta> \<le> r"
  shows "agrees \<alpha> \<beta> v r"
proof -
  have "\<not> v \<le> \<alpha>" "\<not> v < \<beta>" using assms by (auto dest: order_trans)
  with assms(3) show ?thesis by (simp add: agrees_def)
qed

lemma le_neg: "x \<le> neg_score y \<longleftrightarrow> y \<le> neg_score x"
  by (cases x; cases y) (auto simp: less_eq_score_def)

lemma neg_le: "neg_score x \<le> y \<longleftrightarrow> neg_score y \<le> x"
  by (cases x; cases y) (auto simp: less_eq_score_def)

lemma less_neg: "x < neg_score y \<longleftrightarrow> y < neg_score x"
  by (simp add: less_le_not_le le_neg neg_le)

lemma neg_less: "neg_score x < y \<longleftrightarrow> neg_score y < x"
  by (simp add: less_le_not_le le_neg neg_le)

lemma agrees_neg: "agrees (neg_score \<beta>) (neg_score \<alpha>) v r \<Longrightarrow> agrees \<alpha> \<beta> (neg_score v) (neg_score r)"
  by (auto simp: agrees_def le_neg neg_le less_neg neg_less)

lemma foldl_max: "foldl max (a :: score) xs = max a (foldl max NegInf xs)"
proof (induction xs arbitrary: a)
  case Nil
  then show ?case by (cases a) (simp_all add: max_def less_eq_score_def)
next
  case (Cons x xs)
  have "max NegInf x = x" by (cases x) (simp_all add: max_def less_eq_score_def)
  then show ?case using Cons.IH [of "max a x"] Cons.IH [of x] by (simp add: max.assoc)
qed

subsection \<open>Budget\<close>

lemma nega_loop_budget:
  assumes "\<And>c \<alpha> \<beta> n. snd (child c \<alpha> \<beta> n) \<le> n"
  shows "snd (nega_loop child \<beta> cs best \<alpha> n) \<le> n"
proof (induction cs arbitrary: best \<alpha> n)
  case (Cons c cs)
  obtain v m where v: "child c (neg_score \<beta>) (neg_score \<alpha>) n = (v, m)" by fastforce
  with assms [of c "neg_score \<beta>" "neg_score \<alpha>" n] have "m \<le> n" by simp
  then have "snd (nega_loop child \<beta> cs b' a' m) \<le> n" for b' a'
    using Cons.IH [of b' a' m] by (rule order_trans [rotated])
  with \<open>m \<le> n\<close> show ?case by (simp add: v Let_def)
qed simp

lemma negamax_budget: "snd (negamax d b logf line cur \<alpha> \<beta> n) \<le> n"
proof (induction d arbitrary: line cur \<alpha> \<beta> n)
  case (Suc d)
  have "snd (nega_loop (\<lambda>c. negamax d b logf (c_word c # line) (c_last c)) \<beta> cs best \<alpha> (n - 1)) \<le> n - 1"
    for cs best by (rule nega_loop_budget) (rule Suc.IH)
  then have "snd (nega_loop (\<lambda>c. negamax d b logf (c_word c # line) (c_last c)) \<beta> cs best \<alpha> (n - 1)) \<le> n"
    for cs best using diff_le_self by (rule order_trans)
  then show ?case by simp
qed (simp add: Let_def)

lemma nega_loop_ge: "best \<le> fst (nega_loop child \<beta> cs best \<alpha> n)"
proof (induction cs arbitrary: best \<alpha> n)
  case (Cons c cs)
  obtain v m where v: "child c (neg_score \<beta>) (neg_score \<alpha>) n = (v, m)" by fastforce
  define b' where "b' = (if best < neg_score v then neg_score v else best)"
  have "best \<le> b'" by (simp add: b'_def less_imp_le)
  moreover from this have "best \<le> fst (nega_loop child \<beta> cs b' a' m)" for a'
    using Cons.IH [of b' a' m] by (rule order_trans)
  ultimately show ?case unfolding nega_loop.simps(2) v Let_def prod.case b'_def [symmetric] by simp
qed simp

subsection \<open>Pruning loses nothing\<close>

lemma nega_loop_agrees:
  assumes child: "\<And>c \<alpha> \<beta> n. c \<in> set cs \<Longrightarrow> \<alpha> < \<beta> \<Longrightarrow> 0 < snd (child c \<alpha> \<beta> n) \<Longrightarrow>
      agrees \<alpha> \<beta> (f c) (fst (child c \<alpha> \<beta> n))"
    and mono: "\<And>c \<alpha> \<beta> n. snd (child c \<alpha> \<beta> n) \<le> n"
    and "\<alpha> < \<beta>" and "0 < snd (nega_loop child \<beta> cs best \<alpha> n)"
  shows "agrees \<alpha> \<beta> (foldl max best (map (\<lambda>c. neg_score (f c)) cs)) (fst (nega_loop child \<beta> cs best \<alpha> n))"
  using assms(1,3,4)
proof (induction cs arbitrary: best \<alpha> n)
  case (Cons c cs)
  obtain v m where v: "child c (neg_score \<beta>) (neg_score \<alpha>) n = (v, m)" by fastforce
  define s where "s = neg_score v"
  define best' where "best' = (if best < s then s else best)"
  define \<alpha>' where "\<alpha>' = (if \<alpha> < best' then best' else \<alpha>)"
  have loop: "nega_loop child \<beta> (c # cs) best \<alpha> n =
      (if \<beta> \<le> \<alpha>' then (best', m) else nega_loop child \<beta> cs best' \<alpha>' m)"
    by (simp add: v Let_def s_def best'_def \<alpha>'_def)
  have m: "0 < m"
    using Cons.prems(3) nega_loop_budget [where child = child, OF mono, of \<beta> cs best' \<alpha>' m] unfolding loop by (auto split: if_splits)
  have "neg_score \<beta> < neg_score \<alpha>" using Cons.prems(2) by simp
  then have "agrees (neg_score \<beta>) (neg_score \<alpha>) (f c) v"
    using Cons.prems(1) [of c "neg_score \<beta>" "neg_score \<alpha>" n] v m by simp
  then have w: "agrees \<alpha> \<beta> (neg_score (f c)) s" unfolding s_def by (rule agrees_neg)
  define rest where "rest = foldl max NegInf (map (\<lambda>c. neg_score (f c)) cs)"
  have V: "foldl max best (map (\<lambda>c. neg_score (f c)) (c # cs)) = max (max best (neg_score (f c))) rest"
    unfolding rest_def using foldl_max [of "max best (neg_score (f c))"] by simp
  have b': "best' = max best s" by (auto simp: best'_def max_def)
  show ?case
  proof (cases "\<beta> \<le> \<alpha>'")
    case True
    then have "\<beta> \<le> best'" using Cons.prems(2) by (auto simp: \<alpha>'_def split: if_splits)
    then have "\<beta> \<le> best \<or> \<beta> \<le> s" by (auto simp: b' le_max_iff_disj)
    then have "\<beta> \<le> best \<or> \<beta> \<le> neg_score (f c)"
      using w Cons.prems(2) unfolding agrees_def by (meson leD leI order_trans)
    then have "\<beta> \<le> max (max best (neg_score (f c))) rest" by (auto simp: le_max_iff_disj)
    with \<open>\<beta> \<le> best'\<close> Cons.prems(2) show ?thesis
      unfolding loop V using True by (simp add: agrees_above del: max_less_iff_conj le_max_iff_disj)
  next
    case False
    let ?r = "nega_loop child \<beta> cs best' \<alpha>' m"
    have "agrees \<alpha>' \<beta> (foldl max best' (map (\<lambda>c. neg_score (f c)) cs)) (fst ?r)"
      using Cons.IH [of \<alpha>' best' m] Cons.prems False unfolding loop by auto
    then have ih: "agrees \<alpha>' \<beta> (max best' rest) (fst ?r)"
      unfolding rest_def using foldl_max [of best'] by simp
    have ge: "best' \<le> fst ?r" by (rule nega_loop_ge)
    have a': "\<alpha>' = max \<alpha> best'" by (auto simp add: \<alpha>'_def max_def)
    have "best' < \<beta>" using False unfolding a' not_le by (simp only: max_less_iff_conj)
    then have s_less: "best' < \<beta>" "s < \<beta>" unfolding b' by (simp_all only: max_less_iff_conj)
    have "agrees \<alpha> \<beta> (max (max best (neg_score (f c))) rest) (fst ?r)"
    proof (cases "\<alpha> < neg_score (f c)")
      case True
      then have "s = neg_score (f c)" using w s_less by (auto simp: agrees_def not_le [symmetric])
      with ih ge s_less show ?thesis unfolding agrees_def a' b'
        by (auto simp: le_max_iff_disj max_def split: if_splits)
    next
      case False
      then have low: "neg_score (f c) \<le> \<alpha>" "s \<le> \<alpha>" using w by (simp_all add: agrees_def)
      then have "neg_score (f c) < \<beta>" using Cons.prems(2) le_less_trans by blast
      with low ih ge s_less show ?thesis unfolding agrees_def a' b'
        by (auto simp: le_max_iff_disj max_def split: if_splits)
    qed
    then show ?thesis unfolding loop V using False by simp
  qed
qed simp

lemma negamax_agrees:
  assumes "\<alpha> < \<beta>" and "0 < snd (negamax d b logf line cur \<alpha> \<beta> n)"
  shows "agrees \<alpha> \<beta> (minimax d b logf line cur) (fst (negamax d b logf line cur \<alpha> \<beta> n))"
  using assms
proof (induction d arbitrary: line cur \<alpha> \<beta> n)
  case 0
  then show ?case by (auto simp: Let_def split: if_splits)
next
  case (Suc d)
  have n: "n \<noteq> 0" using Suc.prems(2) by (auto split: if_splits)
  show ?case
  proof (cases "candidates b line cur = []")
    case True
    with n show ?thesis by simp
  next
    case False
    let ?child = "\<lambda>c. negamax d b logf (c_word c # line) (c_last c)"
    let ?f = "\<lambda>c. minimax d b logf (c_word c # line) (c_last c)"
    let ?cs = "take branchCap (ordered b line cur)"
    have pos: "0 < snd (nega_loop ?child \<beta> ?cs (Fin loseScore) \<alpha> (n - 1))"
      using Suc.prems(2) n False by simp
    have "agrees \<alpha> \<beta> (foldl max (Fin loseScore) (map (\<lambda>c. neg_score (?f c)) ?cs))
        (fst (nega_loop ?child \<beta> ?cs (Fin loseScore) \<alpha> (n - 1)))"
    proof (rule nega_loop_agrees [where child = ?child and f = ?f, OF _ _ Suc.prems(1) pos])
      fix c \<alpha> \<beta> n
      show "\<alpha> < \<beta> \<Longrightarrow> 0 < snd (?child c \<alpha> \<beta> n) \<Longrightarrow> agrees \<alpha> \<beta> (?f c) (fst (?child c \<alpha> \<beta> n))"
        by (rule Suc.IH)
      show "snd (?child c \<alpha> \<beta> n) \<le> n" by (rule negamax_budget)
    qed
    with n False show ?thesis by simp
  qed
qed

subsection \<open>The root\<close>

lemma foldl_max_Fin: "\<forall>x \<in> set xs. \<exists>q. x = Fin q \<Longrightarrow> \<exists>q. foldl max (Fin p) xs = Fin q"
proof (induction xs arbitrary: p)
  case (Cons x xs)
  then obtain q where "x = Fin q" by auto
  then have "max (Fin p) x = Fin p \<or> max (Fin p) x = Fin q" by (simp add: max_def)
  with Cons show ?case by auto
qed simp

lemma minimax_Fin: "\<exists>q. minimax d b logf line cur = Fin q"
proof (induction d arbitrary: line cur)
  case (Suc d)
  have "\<exists>q. foldl max (Fin loseScore) (map (\<lambda>c. neg_score (minimax d b logf (c_word c # line) (c_last c))) cs) = Fin q"
    for cs :: "cand list"
  proof (rule foldl_max_Fin, clarsimp)
    fix c :: cand
    obtain q where "minimax d b logf (c_word c # line) (c_last c) = Fin q" using Suc.IH by blast
    then show "\<exists>q. neg_score (minimax d b logf (c_word c # line) (c_last c)) = Fin q" by simp
  qed
  then show ?case by simp
qed (simp add: Let_def)

text \<open>What a move of the root is worth to the bot.\<close>

definition worth :: "board \<Rightarrow> (nat \<Rightarrow> rat) \<Rightarrow> scoredMove \<Rightarrow> score" where
  "worth b logf m =
     neg_score (minimax (searchDepth - 1) b logf [sm_word m] (the (b_last b (sm_word m))))"

lemma worth_Fin: "\<exists>q. worth b logf m = Fin q"
  using minimax_Fin [of "searchDepth - 1" b logf "[sm_word m]" "the (b_last b (sm_word m))"]
  by (auto simp: worth_def)

definition better :: "board \<Rightarrow> (nat \<Rightarrow> rat) \<Rightarrow> scoredMove \<Rightarrow> str \<times> score \<Rightarrow> str \<times> score" where
  "better b logf m = (\<lambda>(best, \<alpha>). if \<alpha> < worth b logf m then (sm_word m, worth b logf m) else (best, \<alpha>))"

lemma better_fold:
  "\<exists>w a. fold (better b logf) ms (best, \<alpha>) = (w, a) \<and> \<alpha> \<le> a \<and> (\<forall>m \<in> set ms. worth b logf m \<le> a) \<and>
     (w = best \<and> a = \<alpha> \<or> (\<exists>m \<in> set ms. w = sm_word m \<and> a = worth b logf m))"
proof (induction ms arbitrary: best \<alpha>)
  case (Cons m ms)
  define s where "s = better b logf m (best, \<alpha>)"
  have s: "\<alpha> \<le> snd s" "worth b logf m \<le> snd s"
    "s = (best, \<alpha>) \<or> s = (sm_word m, worth b logf m)"
    by (auto simp: s_def better_def)
  obtain w a where w: "fold (better b logf) ms (fst s, snd s) = (w, a)" "snd s \<le> a"
    "\<forall>m \<in> set ms. worth b logf m \<le> a"
    "w = fst s \<and> a = snd s \<or> (\<exists>m \<in> set ms. w = sm_word m \<and> a = worth b logf m)"
    using Cons.IH [of "fst s" "snd s"] by blast
  have "\<alpha> \<le> a" "worth b logf m \<le> a" using s w(2) order_trans by blast+
  with w s(3) show ?case by (simp add: s_def [symmetric]) (metis fst_conv snd_conv)
qed simp

lemma root_loop_budget: "snd (root_loop b logf ms i best \<alpha> n) \<le> n"
proof (induction ms arbitrary: i best \<alpha> n)
  case (Cons m ms)
  show ?case
  proof (cases "branchCap \<le> i \<or> n = 0 \<or> b_last b (sm_word m) = None")
    case True
    then show ?thesis using Cons.IH [of "i + 1" best \<alpha> n] by auto
  next
    case False
    then obtain l where l: "b_last b (sm_word m) = Some l" by auto
    obtain v k where v: "negamax (searchDepth - 1) b logf [sm_word m] l NegInf (neg_score \<alpha>) n = (v, k)"
      by fastforce
    then have "k \<le> n" using negamax_budget [of "searchDepth - 1" b logf "[sm_word m]" l NegInf "neg_score \<alpha>" n]
      by simp
    then have "snd (root_loop b logf ms (i + 1) w a k) \<le> n" for w a
      using Cons.IH [of "i + 1" w a k] by (rule order_trans [rotated])
    then show ?thesis using False l v by (simp add: Let_def)
  qed
qed simp

text \<open>With budget left, the pruned loop of the root keeps exactly what the exact values would.\<close>

lemma root_loop_exact:
  assumes "0 < snd (root_loop b logf ms i best \<alpha> n)" and "\<alpha> < PosInf"
    and "\<forall>m \<in> set ms. b_last b (sm_word m) \<noteq> None"
  shows "fst (root_loop b logf ms i best \<alpha> n) = fst (fold (better b logf) (take (branchCap - i) ms) (best, \<alpha>))"
  using assms
proof (induction ms arbitrary: i best \<alpha> n)
  case (Cons m ms)
  obtain l where l: "b_last b (sm_word m) = Some l" using Cons.prems(3) by auto
  have n: "n \<noteq> 0" using Cons.prems(1) by (auto split: if_splits)
  show ?case
  proof (cases "branchCap \<le> i")
    case True
    then show ?thesis by simp
  next
    case False
    then have tk: "take (branchCap - i) (m # ms) = m # take (branchCap - (i + 1)) ms"
      by (metis Suc_diff_Suc Suc_eq_plus1 not_le take_Suc_Cons)
    obtain v k where v: "negamax (searchDepth - 1) b logf [sm_word m] l NegInf (neg_score \<alpha>) n = (v, k)"
      by fastforce
    define s where "s = neg_score v"
    have loop: "root_loop b logf (m # ms) i best \<alpha> n =
        (if \<alpha> < s then root_loop b logf ms (i + 1) (sm_word m) s k
         else root_loop b logf ms (i + 1) best \<alpha> k)"
      using False n v l by (simp add: Let_def s_def)
    have "0 < k" using Cons.prems(1) root_loop_budget [of b logf ms "i + 1" _ _ k]
      unfolding loop by (auto split: if_splits intro: less_le_trans)
    moreover have "NegInf < neg_score \<alpha>" using Cons.prems(2) by (cases \<alpha>) (simp_all add: less_score_def)
    ultimately have w: "agrees NegInf (neg_score \<alpha>) (minimax (searchDepth - 1) b logf [sm_word m] l) v"
      using negamax_agrees [of NegInf "neg_score \<alpha>" "searchDepth - 1" b logf "[sm_word m]" l n] v by simp
    have wm: "worth b logf m = neg_score (minimax (searchDepth - 1) b logf [sm_word m] l)"
      using l by (simp add: worth_def)
    obtain q where q: "minimax (searchDepth - 1) b logf [sm_word m] l = Fin q" using minimax_Fin by blast
    have wq: "worth b logf m = neg_score (Fin q)" unfolding wm q ..
    have step: "better b logf m (best, \<alpha>) = (if \<alpha> < s then (sm_word m, s) else (best, \<alpha>))"
    proof (cases "Fin q < neg_score \<alpha>")
      case True
      then have "v = Fin q" using w q by (simp add: agrees_def less_score_def)
      then show ?thesis by (simp add: better_def wq s_def)
    next
      case False
      then have "neg_score \<alpha> \<le> v" using w q by (simp add: agrees_def)
      then have "\<not> v < neg_score \<alpha>" by (simp add: not_less)
      then have "\<not> \<alpha> < s" unfolding s_def less_neg [of \<alpha>] .
      moreover have "\<not> \<alpha> < worth b logf m" using False unfolding wq less_neg [of \<alpha>] .
      ultimately show ?thesis by (simp add: better_def)
    qed
    have s_fin: "s < PosInf" if "\<alpha> < s"
    proof -
      have "worth b logf m = s" using step that by (simp add: better_def split: if_splits)
      then show ?thesis using worth_Fin [of b logf m] by (auto simp: less_score_def)
    qed
    show ?thesis
    proof (cases "\<alpha> < s")
      case True
      then show ?thesis using Cons.IH [of "i + 1" "sm_word m" s k] Cons.prems s_fin loop step tk by simp
    next
      case False
      then show ?thesis using Cons.IH [of "i + 1" best \<alpha> k] Cons.prems loop step tk by simp
    qed
  qed
qed simp

end
