(* ===== verification/Bot_Props.thy ===== *)
theory Bot_Props
  imports Bot_Facts Dictionary_Props Engine_Moves
begin

text \<open>
  The rules and the dictionary together, and the properties of the bot: it only ever plays what the
  engine accepts, the medium level plays tight moves, the hard level plays what plain minimax would.
\<close>

subsection \<open>A legal move is an accepted word\<close>

context word_graph
begin

lemma legal_accepted:
  assumes wf: "wf d" and dict: "dict e = dict_of d" and going: "\<not> over e" "\<not> IsExpired e now"
    and norm: "Normalize u raw = Some (w, ss)" "HasEnoughSyllables ss"
  shows "(\<exists>e' m. Submit u (Turn e) raw now e = (e', Some m, ReasonNone)) \<longleftrightarrow>
    (\<exists>c. Resolve (dict e) w = Some c \<and> c \<in> set (LegalMoves e))"
proof
  assume "\<exists>c. Resolve (dict e) w = Some c \<and> c \<in> set (LegalMoves e)"
  then obtain c where c: "Resolve (dict e) w = Some c" "c \<notin> used e"
      "c \<in> set (WordsStartingWith (dict e) (current e))"
    by (auto simp: LegalMoves_def)
  then have f: "FirstSyllable (dict e) c = Some (current e)"
    using starting_iff [OF wf] dict by simp
  obtain l where l: "LastSyllable (dict e) c = Some l"
    using starting_last [OF wf] c(3) dict by force
  obtain ps pts where p: "pointsFor e (length ss) (current e) now = (pts, ps)" by fastforce
  let ?m = "\<lparr>mv_player = Turn e, mv_word = c, mv_typed = raw, mv_first = current e, mv_last = l,
      mv_syllables = length ss, mv_points = pts, mv_parts = ps, mv_at = now\<rparr>"
  have "Submit u (Turn e) raw now e = (accepted e ?m now, Some ?m, ReasonNone)"
    by (rule Submit_accepts) (use going norm c f l p in \<open>simp_all add: IsExpired_def\<close>)
  then show "\<exists>e' m. Submit u (Turn e) raw now e = (e', Some m, ReasonNone)" by blast
next
  assume "\<exists>e' m. Submit u (Turn e) raw now e = (e', Some m, ReasonNone)"
  then obtain c where "Resolve (dict e) w = Some c" "FirstSyllable (dict e) c = Some (current e)" "c \<notin> used e"
    using going norm by (auto simp: Submit_def split: option.splits if_splits prod.splits)
  moreover from this have "c \<in> set (WordsStartingWith (dict e) (current e))"
    using starting_iff [OF wf] dict by simp
  ultimately show "\<exists>c. Resolve (dict e) w = Some c \<and> c \<in> set (LegalMoves e)" by (simp add: LegalMoves_def)
qed

end

text \<open>
  On a dictionary that opened, in time and on one's turn, a text is accepted exactly when
  its normal form resolves to one of the legal moves: what the engine counts as possible is what it
  lets a player do, spelling variants included.
\<close>

lemma submit_accepts_legal:
  assumes "store_inv s" and "dict e = store_dictionary s" and "\<not> over e" and "\<not> IsExpired e now"
    and "Normalize u raw = Some (w, ss)" and "HasEnoughSyllables ss"
  shows "(\<exists>e' m. Submit u (Turn e) raw now e = (e', Some m, ReasonNone)) \<longleftrightarrow>
    (\<exists>c. Resolve (dict e) w = Some c \<and> c \<in> set (LegalMoves e))"
  by (rule store.legal_accepted [OF assms])

definition store_game :: engine where
  "store_game = initial_engine (store_dictionary demo_store) [P1, P2] [101, 32, 97] [97] 15000000000 0"

lemma store_game_facts: "dict store_game = store_dictionary demo_store" "\<not> over store_game"
  "\<not> IsExpired store_game 0" "Turn store_game = P1"
  by (simp_all add: store_game_def initial_engine_def IsExpired_def Turn_def)

lemmas demo_normal = Normalize_def demo_unicode_def to_lower_def Go_Strings.fields_def is_space_def

subsection \<open>The bot plays by the rules\<close>

text \<open>Words are stored as they are normalised, with at least two syllables.\<close>

definition canonical :: "unicode \<Rightarrow> dictionary \<Rightarrow> bool" where
  "canonical u d \<longleftrightarrow> (\<forall>w. FirstSyllable d w \<noteq> None \<longrightarrow>
     (\<exists>ss. Normalize u w = Some (w, ss) \<and> HasEnoughSyllables ss))"

text \<open>
  Claim (C16). On every level, on a dictionary that opened and whose words are stored in normal form:
  the bot finds no move exactly when there is none, and whatever it plays in time the engine accepts.
\<close>

theorem bot_plays_by_the_rules:
  assumes "store_inv s" and "dict e = store_dictionary s" and "canonical u (dict e)"
    and "\<not> over e" and "\<not> IsExpired e now" and "draws_ok rng"
  shows "(Choose d logf rng (freezeBoard e) = None \<longleftrightarrow> \<not> HasLegalMove e) \<and>
    (\<forall>w. Choose d logf rng (freezeBoard e) = Some w \<longrightarrow>
       (\<exists>e' m. Submit u (Turn e) w now e = (e', Some m, ReasonNone)))"
proof (intro conjI allI impI)
  show "Choose d logf rng (freezeBoard e) = None \<longleftrightarrow> \<not> HasLegalMove e"
    using any_level.choose_none HasLegalMove_iff [of e] by (auto simp: freezeBoard_def)
next
  fix w
  assume "Choose d logf rng (freezeBoard e) = Some w"
  then have w: "w \<in> set (LegalMoves e)" by (rule any_level.choose_move [OF assms(6)])
  then have in_bucket: "w \<in> set (WordsStartingWith (store_dictionary s) (current e))"
    using assms(2) by (simp add: LegalMoves_def)
  then have "FirstSyllable (dict e) w \<noteq> None" using store.starting_iff [OF assms(1)] assms(2) by simp
  then obtain ss where "Normalize u w = Some (w, ss)" "HasEnoughSyllables ss"
    using assms(3) by (auto simp: canonical_def)
  from store.legal_accepted [OF assms(1,2,4,5) this] w
  show "\<exists>e' m. Submit u (Turn e) w now e = (e', Some m, ReasonNone)"
    using store.starting_resolves [OF assms(1) in_bucket] assms(2) by auto
qed

lemma demo_canonical: "canonical demo_unicode (dict store_game)"
proof -
  have "w \<in> set (map fst demo_words)" if "FirstSyllable (store_dictionary demo_store) w \<noteq> None" for w
  proof -
    have "map_of demo_words w \<noteq> None"
      using that by (simp add: demo_store_def demo_loaded_def store_defs split: option.splits)
    then show ?thesis using map_of_eq_None_iff [of demo_words w] by (simp add: image_iff)
  qed
  moreover have "\<exists>ss. Normalize demo_unicode w = Some (w, ss) \<and> HasEnoughSyllables ss"
    if "w \<in> set (map fst demo_words)" for w
  proof -
    have n: "Normalize demo_unicode [97, 32, 98] = Some ([97, 32, 98], [[97], [98]])"
      "Normalize demo_unicode [97, 32, 99] = Some ([97, 32, 99], [[97], [99]])"
      "Normalize demo_unicode [97, 32, 0x111] = Some ([97, 32, 0x111], [[97], [0x111]])"
      "Normalize demo_unicode [99, 32, 100] = Some ([99, 32, 100], [[99], [100]])"
      "Normalize demo_unicode [100, 32, 97] = Some ([100, 32, 97], [[100], [97]])"
      "Normalize demo_unicode [101, 32, 97] = Some ([101, 32, 97], [[101], [97]])"
      by (simp_all add: demo_normal)
    have two: "HasEnoughSyllables [x, y]" for x y by (simp add: HasEnoughSyllables_def MinSyllables_def)
    have "w \<in> {[97, 32, 98], [97, 32, 99], [97, 32, 0x111], [99, 32, 100], [100, 32, 97], [101, 32, 97]}"
      using that by (simp add: demo_words_def)
    then show ?thesis using n two by (elim insertE) auto
  qed
  ultimately show ?thesis unfolding canonical_def store_game_facts(1) by blast
qed

definition demo_draws :: draws where
  "demo_draws = \<lparr>intN = (\<lambda>n. 0), float64 = 1 / 2\<rparr>"

lemma demo_draws_ok: "draws_ok demo_draws"
  by (simp add: draws_ok_def demo_draws_def)

theorem bot_plays_by_the_rules_witness:
  "\<exists>w. Choose Medium (\<lambda>n. 0) demo_draws (freezeBoard store_game) = Some w"
proof -
  have "HasLegalMove store_game" by code_simp
  then show ?thesis
    using bot_plays_by_the_rules [OF demo_store_inv store_game_facts(1) demo_canonical store_game_facts(2,3)
        demo_draws_ok, of Medium "\<lambda>n. 0"] by blast
qed

subsection \<open>Medium: tight moves\<close>

lemma smaller_before:
  assumes "sorted (map f xs)" and "i < length xs"
  shows "length (filter (\<lambda>x. f x < f (xs ! i)) xs) \<le> i"
proof -
  have "filter (\<lambda>x. f x < f (xs ! i)) (drop i xs) = []"
  proof (rule filter_False, rule ballI)
    fix x
    assume "x \<in> set (drop i xs)"
    then obtain j where "j < length (drop i xs)" "x = drop i xs ! j" by (metis in_set_conv_nth)
    then have "i + j < length xs" "x = xs ! (i + j)" by simp_all
    then show "\<not> f x < f (xs ! i)"
      using sorted_nth_mono [OF assms(1), of i "i + j"] by (simp add: not_less)
  qed
  then have "filter (\<lambda>x. f x < f (xs ! i)) xs = filter (\<lambda>x. f x < f (xs ! i)) (take i xs)"
    by (metis append_Nil2 append_take_drop_id filter_append)
  then show ?thesis by (metis length_filter_le length_take min.bounded_iff)
qed

text \<open>How many replies a word leaves.\<close>

definition leaves :: "board \<Rightarrow> str \<Rightarrow> nat" where
  "leaves b w = remainingOutDegree b (the (b_last b w)) w"

lemma scored_leaves: "m \<in> set (scoreMoves b ws) \<Longrightarrow> handsOver m = leaves b (sm_word m)"
  using scoreMoves_set [of m b ws] by (auto simp: leaves_def)

text \<open>
  The medium level plays a tight move: fewer than a quarter of the ranked moves (or none)
  leave the opponent strictly fewer replies than the one it plays; and when some move leaves none, it
  plays a move that leaves none.
\<close>

lemma medium_tight:
  assumes "draws_ok rng" and "medium_Choose rng b = Some w" and "scoreMoves b (b_legal b) \<noteq> []"
  shows "length (filter (\<lambda>m. handsOver m < leaves b w) (scoreMoves b (b_legal b)))
      < max (length (scoreMoves b (b_legal b)) div 4) 1 \<and>
    ((\<exists>m \<in> set (scoreMoves b (b_legal b)). handsOver m = 0) \<longrightarrow> leaves b w = 0)"
proof -
  let ?sc = "scoreMoves b (b_legal b)" and ?so = "sort_key handsOver (scoreMoves b (b_legal b))"
  define i where "i = (if handsOver (?so ! 0) = 0 then 0 else intN rng (max (length ?sc div 4) 1))"
  have cut: "0 < max (length ?sc div 4) 1" "max (length ?sc div 4) 1 \<le> length ?sc"
    using assms(3) by (cases ?sc; simp)+
  then have i: "i < max (length ?sc div 4) 1" using assms(1) by (simp add: i_def draws_ok_def)
  then have len: "i < length ?so" using cut by simp
  have ne: "b_legal b \<noteq> []" using assms(3) by auto
  have w: "w = sm_word (?so ! i)"
    using assms(2,3) ne unfolding medium_Choose_def Let_def i_def by (auto split: if_splits)
  have "?so ! i \<in> set ?sc" using nth_mem [OF len] by simp
  then have lv: "leaves b w = handsOver (?so ! i)" using scored_leaves w by simp
  have "length (filter (\<lambda>m. handsOver m < handsOver (?so ! i)) ?so) \<le> i"
    by (rule smaller_before [OF _ len]) simp
  moreover have "length (filter P ?so) = length (filter P ?sc)" for P
    by (metis filter_sort length_sort)
  ultimately have "length (filter (\<lambda>m. handsOver m < leaves b w) ?sc) < max (length ?sc div 4) 1"
    using i lv by simp
  moreover have "leaves b w = 0" if "m \<in> set ?sc" "handsOver m = 0" for m
  proof -
    have "m \<in> set ?so" using that by simp
    then obtain j where "j < length ?so" "?so ! j = m" by (metis in_set_conv_nth)
    then have "handsOver (?so ! 0) = 0"
      using sorted_nth_mono [of "map handsOver ?so" 0 j] nth_map [of 0 ?so handsOver]
        nth_map [of j ?so handsOver] that(2) assms(3) by (simp del: length_sort)
    then show ?thesis using lv by (simp add: i_def)
  qed
  ultimately show ?thesis by blast
qed

subsection \<open>Hard: minimax\<close>

text \<open>
  Claim (C17). Unless it takes one of the moves that win at once, the hard level plays, among the moves
  it ranks, one of the best by plain minimax of the same depth and width, provided the search did not use up
  its budget: the pruning, the window carried from move to move and the early exits change nothing.
\<close>

theorem hard_plays_minimax:
  assumes "scoreMoves b (b_legal b) \<noteq> []" and "[] \<notin> set (b_legal b)"
    and "(\<forall>m \<in> set (scoreMoves b (b_legal b)). handsOver m \<noteq> 0) \<or> \<not> float64 rng < hardKillRate"
    and "0 < snd (root_loop b logf (ranked b) 0 [] NegInf nodeCap)"
  shows "\<exists>m \<in> set (take branchCap (ranked b)). hard_Choose logf rng b = Some (sm_word m) \<and>
    (\<forall>m' \<in> set (take branchCap (ranked b)). worth b logf m' \<le> worth b logf m)"
proof -
  let ?ms = "take branchCap (ranked b)"
  have lasts: "\<forall>m \<in> set (ranked b). b_last b (sm_word m) \<noteq> None \<and> sm_word m \<in> set (b_legal b)"
    using ranked_set [of b] scoreMoves_set [of _ b "b_legal b"] by fastforce
  obtain w a where w: "fold (better b logf) ?ms ([], NegInf) = (w, a)" "\<forall>m \<in> set ?ms. worth b logf m \<le> a"
    "w = [] \<and> a = NegInf \<or> (\<exists>m \<in> set ?ms. w = sm_word m \<and> a = worth b logf m)"
    using better_fold [of b logf ?ms "[]" NegInf] by blast
  have "?ms \<noteq> []" using assms(1) ranked_Nil [of b] by (simp add: branchCap_def)
  then obtain m0 where m0: "m0 \<in> set ?ms" by (cases ?ms) auto
  have "a \<noteq> NegInf"
  proof
    assume "a = NegInf"
    obtain q where "worth b logf m0 = Fin q" using worth_Fin by blast
    with w(2) m0 \<open>a = NegInf\<close> show False by (auto simp: less_eq_score_def)
  qed
  then obtain m where m: "m \<in> set ?ms" "w = sm_word m" "a = worth b logf m" using w(3) by blast
  have "fst (root_loop b logf (ranked b) 0 [] NegInf nodeCap) = w"
    using root_loop_exact [OF assms(4)] lasts w(1) by (simp add: less_score_def)
  moreover have "w \<noteq> []" using m(1,2) lasts assms(2) in_set_takeD by metis
  moreover have "b_legal b \<noteq> []" using assms(1) by auto
  moreover have "map sm_word (filter (\<lambda>m. handsOver m = 0) (scoreMoves b (b_legal b))) = [] \<or>
      \<not> float64 rng < hardKillRate"
    using assms(3) by (auto simp: filter_empty_conv)
  ultimately have "hard_Choose logf rng b = Some w"
    using assms(1) unfolding hard_Choose_eq Let_def by auto
  with m w(2) show ?thesis by blast
qed

definition demo_declines :: draws where
  "demo_declines = \<lparr>intN = (\<lambda>n. 0), float64 = 9 / 10\<rparr>"

lemma demo_search:
  "0 < snd (root_loop (freezeBoard store_game) (\<lambda>n. of_nat n) (ranked (freezeBoard store_game)) 0 [] NegInf nodeCap)"
  by code_simp

theorem hard_plays_minimax_witness:
  "\<exists>w. hard_Choose (\<lambda>n. of_nat n) demo_declines (freezeBoard store_game) = Some w"
proof -
  have k: "\<lparr>sm_word = [97, 32, 98], handsOver = 0\<rparr> \<in> set (scoreMoves (freezeBoard store_game) (b_legal (freezeBoard store_game)))"
    by code_simp
  then have ne: "scoreMoves (freezeBoard store_game) (b_legal (freezeBoard store_game)) \<noteq> []" by auto
  have "[] \<notin> set (b_legal (freezeBoard store_game))" by code_simp
  moreover have "\<not> float64 demo_declines < hardKillRate" by (simp add: demo_declines_def hardKillRate_def)
  ultimately show ?thesis
    using hard_plays_minimax [OF ne _ _ demo_search, of demo_declines] by blast
qed

subsection \<open>Thinking time\<close>

text \<open>
  With draws below their bound, every level waits at least its minimum and less than its
  maximum; both grow with the level.
\<close>

lemma thinking_time:
  assumes "\<And>n. 0 < n \<Longrightarrow> 0 \<le> draw n \<and> draw n < n"
  shows "(case d of Easy \<Rightarrow> 400000000 | Medium \<Rightarrow> 500000000 | Hard \<Rightarrow> 600000000) \<le> ThinkingDelay draw d \<and>
    ThinkingDelay draw d < (case d of Easy \<Rightarrow> 900000000 | Medium \<Rightarrow> 1200000000 | Hard \<Rightarrow> 1500000000)"
  using assms [of 500000000] assms [of 700000000] assms [of 900000000]
  by (cases d) (simp_all add: ThinkingDelay_def thinkingDelay_def)

end
