(* ===== verification/Text_Props.thy ===== *)
theory Text_Props
  imports Nickname Vietnamese Fixtures
begin

text \<open>
  The properties of the text every player sees or types: the filter, the names in a room, and the
  normal form of words.
\<close>

text \<open>
  Claim (C18). Whatever a client sends, the filtered text is at most as long as asked for, holds only
  visible runes and single spaces between words with none at either end, and stacks at most the allowed
  number of marks on a letter; and a nickname is never empty and never longer than twenty runes.
\<close>

theorem filtered_text:
  assumes "text_laws u"
  shows "length (sanitizeText u raw n k) \<le> n \<and> tidy (sanitizeText u raw n k) \<and>
    (\<forall>r \<in> set (sanitizeText u raw n k). visible u r) \<and> marks_ok u k 0 (sanitizeText u raw n k) \<and>
    sanitizeNickname u raw \<noteq> [] \<and> length (sanitizeNickname u raw) \<le> maxNicknameRunes"
proof -
  note s = sanitize_safe [OF assms]
  have "length (sanitizeNickname u raw) \<le> maxNicknameRunes"
    using s(1) [of raw maxNicknameRunes maxNicknameMarks]
    by (simp add: sanitizeNickname_def Let_def defaultNickname_def maxNicknameRunes_def)
  moreover have "sanitizeNickname u raw \<noteq> []" by (simp add: sanitizeNickname_def Let_def defaultNickname_def)
  ultimately show ?thesis using s by blast
qed

lemma demo_text_laws: "text_laws demo_unicode"
  by (auto simp: text_laws_def demo_unicode_def is_space_def)

theorem filtered_text_witness: "length (sanitizeText demo_unicode [104, 0x200B, 105] 1 0) \<le> 1"
  using filtered_text [OF demo_text_laws] by blast

text \<open>
  The name a joiner is given is one nobody in the room has, and with a filtered nickname
  it is never longer than a nickname may be.
\<close>

lemma distinguished_name:
  assumes "length name \<le> maxNicknameRunes" and "length taken < 900"
  shows "distinguish name taken \<notin> set taken \<and> length (distinguish name taken) \<le> maxNicknameRunes \<and>
    (name \<notin> set taken \<longrightarrow> distinguish name taken = name)"
  using distinguish_facts [OF assms] by (simp add: distinguish_def)

text \<open>
  Normalisation is a normal form: its result normalises to itself with the same syllables,
  its syllables are the fields of the result, and none is empty - so the word the builder stores, the
  one the engine looks up and the one it shows are the same string.
\<close>

lemma normal_form:
  assumes "unicode_laws u" and "Normalize u raw = Some (w, ss)"
  shows "Normalize u w = Some (w, ss) \<and> Go_Strings.fields w = ss \<and> ss \<noteq> [] \<and> [] \<notin> set ss"
proof -
  have "Go_Strings.fields w = ss \<and> ss \<noteq> []" using Normalize_syllables [OF assms(2)] by blast
  moreover from this have "[] \<notin> set ss" using fields_no_space [of "[]" w] by (auto simp: no_space_def)
  ultimately show ?thesis using Normalize_idem [OF assms] by blast
qed

end
