(* ===== verification/Rate_Limit.thy ===== *)
theory Rate_Limit
  imports Game_State Complex_Main
begin

text \<open>
  \<open>server/internal/wsapi/ratelimit.go\<close>: a token bucket, and a bucket per key with its sweep, and the
  budgets \<open>session.go\<close> sets. A \<open>float64\<close> is the rational it stands for; the rounding of its
  arithmetic is not modelled.
\<close>

subsection \<open>One bucket\<close>

record bucket =
  bk_tokens :: rat
  bk_capacity :: rat
  bk_perSec :: rat
  bk_last :: instant

definition newBucket :: "rat \<Rightarrow> nat \<Rightarrow> instant \<Rightarrow> bucket" where
  "newBucket perSec capacity now =
     \<lparr>bk_tokens = of_nat capacity, bk_capacity = of_nat capacity, bk_perSec = perSec, bk_last = now\<rparr>"

definition seconds :: "duration \<Rightarrow> rat" where
  "seconds d = of_int d / 1000000000"

definition bucket_allow :: "instant \<Rightarrow> bucket \<Rightarrow> bool \<times> bucket" where
  "bucket_allow now b =
     (let elapsed = now - bk_last b;
          b = (if elapsed > 0
               then b\<lparr>bk_tokens := min (bk_capacity b) (bk_tokens b + seconds elapsed * bk_perSec b),
                      bk_last := now\<rparr>
               else b)
      in if bk_tokens b < 1 then (False, b) else (True, b\<lparr>bk_tokens := bk_tokens b - 1\<rparr>))"

subsection \<open>One bucket per key\<close>

record keyedLimiter =
  kl_buckets :: "str \<rightharpoonup> bucket"
  kl_perSec :: rat
  kl_capacity :: nat
  kl_idleFor :: duration

definition newKeyedLimiter :: "rat \<Rightarrow> nat \<Rightarrow> duration \<Rightarrow> keyedLimiter" where
  "newKeyedLimiter perSec capacity idleFor =
     \<lparr>kl_buckets = Map.empty, kl_perSec = perSec, kl_capacity = capacity, kl_idleFor = idleFor\<rparr>"

definition keyed_allow :: "str \<Rightarrow> instant \<Rightarrow> keyedLimiter \<Rightarrow> bool \<times> keyedLimiter" where
  "keyed_allow key now l =
     (let b = (case kl_buckets l key of
                 None \<Rightarrow> newBucket (kl_perSec l) (kl_capacity l) now | Some b \<Rightarrow> b);
          (ok, b) = bucket_allow now b
      in (ok, l\<lparr>kl_buckets := (kl_buckets l)(key \<mapsto> b)\<rparr>))"

definition sweep :: "instant \<Rightarrow> keyedLimiter \<Rightarrow> keyedLimiter" where
  "sweep now l =
     l\<lparr>kl_buckets := (\<lambda>key. case kl_buckets l key of
         None \<Rightarrow> None
       | Some b \<Rightarrow> if now - bk_last b > kl_idleFor l then None else Some b)\<rparr>"

subsection \<open>The budgets\<close>

definition submitsPerSecond :: rat where "submitsPerSecond = 5"
definition submitBurst :: nat where "submitBurst = 10"
definition chatsPerSecond :: rat where "chatsPerSecond = 2"
definition chatBurst :: nat where "chatBurst = 5"
definition joinsPerSecond :: rat where "joinsPerSecond = 5"
definition joinBurst :: nat where "joinBurst = 20"
definition roomsPerSecond :: rat where "roomsPerSecond = 1 / 5"
definition roomBurst :: nat where "roomBurst = 5"
definition limiterIdleFor :: duration where "limiterIdleFor = 300000000000"
definition addressRoomsPerSecond :: rat where "addressRoomsPerSecond = 1 / 2"
definition addressRoomBurst :: nat where "addressRoomBurst = 30"
definition framesPerSecond :: rat where "framesPerSecond = 20"
definition frameBurst :: nat where "frameBurst = 40"

subsection \<open>What a bucket lets through\<close>

definition bucket_ok :: "bucket \<Rightarrow> bool" where
  "bucket_ok b \<longleftrightarrow> 0 \<le> bk_tokens b \<and> bk_tokens b \<le> bk_capacity b \<and> 0 \<le> bk_perSec b"

lemma newBucket_ok: "0 \<le> perSec \<Longrightarrow> bucket_ok (newBucket perSec n now)"
  by (simp add: bucket_ok_def newBucket_def)

lemma seconds_nonneg: "0 \<le> d \<Longrightarrow> 0 \<le> seconds d"
  by (simp add: seconds_def)

text \<open>A call spends at most what the time since the last one earned.\<close>

lemma bucket_allow_step:
  assumes inv: "bucket_ok b" and eq: "bucket_allow now b = (ok, b')"
  shows "bucket_ok b'" and "bk_capacity b' = bk_capacity b" and "bk_perSec b' = bk_perSec b"
    and "bk_last b' = max (bk_last b) now"
    and "bk_tokens b' + of_bool ok \<le> bk_tokens b + seconds (bk_last b' - bk_last b) * bk_perSec b"
proof -
  let ?e = "now - bk_last b"
  let ?t = "if 0 < ?e then min (bk_capacity b) (bk_tokens b + seconds ?e * bk_perSec b) else bk_tokens b"
  have earn: "0 \<le> seconds ?e * bk_perSec b" if "0 < ?e"
    using inv that seconds_nonneg [of ?e] by (simp add: bucket_ok_def)
  have t: "0 \<le> ?t" "?t \<le> bk_capacity b" using inv earn by (auto simp: bucket_ok_def)
  have b': "bk_tokens b' = ?t - of_bool ok" "ok = (1 \<le> ?t)" "bk_capacity b' = bk_capacity b"
    "bk_perSec b' = bk_perSec b" "bk_last b' = max (bk_last b) now"
    using eq by (auto simp: bucket_allow_def Let_def max_def split: if_splits)
  show "bk_capacity b' = bk_capacity b" "bk_perSec b' = bk_perSec b" "bk_last b' = max (bk_last b) now"
    by (fact b')+
  show "bucket_ok b'" using t b' inv by (auto simp: bucket_ok_def)
  show "bk_tokens b' + of_bool ok \<le> bk_tokens b + seconds (bk_last b' - bk_last b) * bk_perSec b"
    using b' earn by (auto simp: max_def seconds_def min_def)
qed

text \<open>A sequence of calls at the given times: how many were let through, and the bucket after.\<close>

fun bucket_run :: "instant list \<Rightarrow> bucket \<Rightarrow> nat \<times> bucket" where
  "bucket_run [] b = (0, b)"
| "bucket_run (t # ts) b =
     (let (ok, b) = bucket_allow t b; (n, b) = bucket_run ts b in (if ok then n + 1 else n, b))"

lemma bucket_run_bound:
  assumes "bucket_ok b" and "bucket_run ts b = (n, b')"
  shows "bucket_ok b' \<and> bk_perSec b' = bk_perSec b \<and> bk_capacity b' = bk_capacity b \<and> bk_last b' = foldl max (bk_last b) ts \<and>
    of_nat n + bk_tokens b' \<le> bk_tokens b + seconds (bk_last b' - bk_last b) * bk_perSec b"
  using assms
proof (induction ts arbitrary: b n)
  case Nil
  then show ?case by (simp add: seconds_def)
next
  case (Cons t ts)
  obtain ok c where c: "bucket_allow t b = (ok, c)" by fastforce
  obtain m where m: "bucket_run ts c = (m, b')" and n: "n = (if ok then m + 1 else m)"
    using Cons.prems(2) c by (auto simp: Let_def split: prod.splits)
  note s = bucket_allow_step [OF Cons.prems(1) c]
  have ih: "bucket_ok b' \<and> bk_perSec b' = bk_perSec c \<and> bk_capacity b' = bk_capacity c \<and> bk_last b' = foldl max (bk_last c) ts \<and>
      of_nat m + bk_tokens b' \<le> bk_tokens c + seconds (bk_last b' - bk_last c) * bk_perSec c"
    by (rule Cons.IH [OF s(1) m])
  have "seconds (bk_last b' - bk_last b) = seconds (bk_last b' - bk_last c) + seconds (bk_last c - bk_last b)"
    by (simp add: seconds_def diff_divide_distrib)
  then have "of_nat n + bk_tokens b' \<le> bk_tokens b + seconds (bk_last b' - bk_last b) * bk_perSec b"
    using ih s(3,5) n by (cases ok) (auto simp: distrib_right)
  with ih s(2,3,4) show ?case by simp
qed

subsection \<open>Sweeping\<close>

text \<open>A limiter whose buckets are full again by the time they are swept.\<close>

definition limiter_ok :: "keyedLimiter \<Rightarrow> bool" where
  "limiter_ok l \<longleftrightarrow> 0 \<le> kl_perSec l \<and> of_nat (kl_capacity l) \<le> seconds (kl_idleFor l) * kl_perSec l \<and>
     0 \<le> kl_idleFor l \<and>
     (\<forall>b \<in> ran (kl_buckets l). bucket_ok b \<and> bk_capacity b = of_nat (kl_capacity l) \<and> bk_perSec b = kl_perSec l)"

lemma newKeyedLimiter_ok:
  "0 \<le> perSec \<Longrightarrow> 0 \<le> idle \<Longrightarrow> of_nat n \<le> seconds idle * perSec \<Longrightarrow> limiter_ok (newKeyedLimiter perSec n idle)"
  by (simp add: limiter_ok_def newKeyedLimiter_def)

lemma keyed_allow_ok:
  assumes inv: "limiter_ok l"
  shows "limiter_ok (snd (keyed_allow key now l))"
proof -
  define b where "b = (case kl_buckets l key of None \<Rightarrow> newBucket (kl_perSec l) (kl_capacity l) now | Some b \<Rightarrow> b)"
  have b: "bucket_ok b \<and> bk_capacity b = of_nat (kl_capacity l) \<and> bk_perSec b = kl_perSec l"
  proof (cases "kl_buckets l key")
    case None
    then show ?thesis using inv newBucket_ok by (simp add: b_def limiter_ok_def newBucket_def bucket_ok_def)
  next
    case (Some c)
    then show ?thesis using inv by (simp add: b_def limiter_ok_def ranI)
  qed
  obtain ok c where c: "bucket_allow now b = (ok, c)" by fastforce
  have "bucket_ok c \<and> bk_capacity c = of_nat (kl_capacity l) \<and> bk_perSec c = kl_perSec l"
    using bucket_allow_step(1-3) [OF _ c] b by simp
  moreover have "ran ((kl_buckets l)(key \<mapsto> c)) \<subseteq> insert c (ran (kl_buckets l))"
    by (auto simp: ran_def split: if_splits)
  ultimately show ?thesis
    using inv unfolding limiter_ok_def keyed_allow_def b_def [symmetric] c Let_def by auto
qed

text \<open>The two limiters of the relation differ only in buckets idle since before \<open>t\<close>.\<close>

definition swept :: "instant \<Rightarrow> keyedLimiter \<Rightarrow> keyedLimiter \<Rightarrow> bool" where
  "swept t l l' \<longleftrightarrow> kl_perSec l' = kl_perSec l \<and> kl_capacity l' = kl_capacity l \<and> kl_idleFor l' = kl_idleFor l \<and>
     (\<forall>k. kl_buckets l' k = kl_buckets l k \<or>
       (kl_buckets l' k = None \<and> (\<exists>b. kl_buckets l k = Some b \<and> t - bk_last b > kl_idleFor l)))"

lemma swept_sweep: "swept now l (sweep now l)"
  by (auto simp: swept_def sweep_def split: option.split)

lemma full_again:
  assumes "limiter_ok l" and "kl_buckets l k = Some b" and "t - bk_last b > kl_idleFor l" and "t \<le> now"
  shows "bucket_allow now b = bucket_allow now (newBucket (kl_perSec l) (kl_capacity l) now)"
proof -
  have b: "bucket_ok b" "bk_capacity b = of_nat (kl_capacity l)" "bk_perSec b = kl_perSec l"
    using assms(1,2) by (auto simp: limiter_ok_def ran_def)
  have "seconds (kl_idleFor l) \<le> seconds (now - bk_last b)" using assms(3,4) by (simp add: seconds_def divide_right_mono)
  then have "seconds (kl_idleFor l) * kl_perSec l \<le> seconds (now - bk_last b) * kl_perSec l"
    using assms(1) by (intro mult_right_mono) (simp_all add: limiter_ok_def)
  then have "of_nat (kl_capacity l) \<le> bk_tokens b + seconds (now - bk_last b) * kl_perSec l"
    using assms(1) b(1) by (simp add: limiter_ok_def bucket_ok_def)
  then have "min (bk_capacity b) (bk_tokens b + seconds (now - bk_last b) * bk_perSec b) = of_nat (kl_capacity l)"
    using b by simp
  moreover have "0 < now - bk_last b" using assms by (simp add: limiter_ok_def)
  ultimately show ?thesis using b
    by (cases b) (auto simp: bucket_allow_def newBucket_def Let_def)
qed

lemma swept_allow:
  assumes "swept t l l'" and "limiter_ok l" and "t \<le> now"
  shows "fst (keyed_allow k now l') = fst (keyed_allow k now l) \<and>
    swept t (snd (keyed_allow k now l)) (snd (keyed_allow k now l'))"
proof -
  let ?b = "case kl_buckets l k of None \<Rightarrow> newBucket (kl_perSec l) (kl_capacity l) now | Some b \<Rightarrow> b"
  let ?b' = "case kl_buckets l' k of None \<Rightarrow> newBucket (kl_perSec l') (kl_capacity l') now | Some b \<Rightarrow> b"
  have "bucket_allow now ?b' = bucket_allow now ?b"
    using assms(1) full_again [OF assms(2) _ _ assms(3)] unfolding swept_def by (auto split: option.splits) (metis option.case option.distinct(1))+
  then show ?thesis using assms(1) unfolding keyed_allow_def Let_def swept_def
    by (auto split: prod.split)
qed

text \<open>
  A limiter as the server uses it: calls to \<open>allow\<close>, and the sweep the server runs every so often.
  \<open>limiter_run\<close> gives the answers of the calls.
\<close>

datatype limiter_event = Ask str instant | Sweep instant

fun event_time :: "limiter_event \<Rightarrow> instant" where
  "event_time (Ask _ t) = t"
| "event_time (Sweep t) = t"

fun limiter_run :: "limiter_event list \<Rightarrow> keyedLimiter \<Rightarrow> bool list" where
  "limiter_run [] l = []"
| "limiter_run (Ask k t # es) l = (let (ok, l) = keyed_allow k t l in ok # limiter_run es l)"
| "limiter_run (Sweep t # es) l = limiter_run es (sweep t l)"

definition asks :: "limiter_event list \<Rightarrow> limiter_event list" where
  "asks = filter (\<lambda>e. \<exists>k t. e = Ask k t)"

lemma asks_simps [simp]: "asks [] = []" "asks (Ask k t # es) = Ask k t # asks es" "asks (Sweep t # es) = asks es"
  by (simp_all add: asks_def)

lemma swept_later: "swept t l l' \<Longrightarrow> t \<le> t' \<Longrightarrow> swept t' l l'"
  unfolding swept_def by (meson diff_right_mono less_le_trans)

lemma swept_again: "swept t l l' \<Longrightarrow> swept t l (sweep t l')"
  unfolding swept_def sweep_def by (simp split: option.split) (metis option.distinct(1) option.inject)

lemma limiter_run_asks:
  assumes "swept t l l'" and "limiter_ok l" and "sorted (t # map event_time es)"
  shows "limiter_run es l' = limiter_run (asks es) l"
  using assms
proof (induction es arbitrary: t l l')
  case (Cons e es)
  have le: "t \<le> event_time e" and rest: "sorted (event_time e # map event_time es)"
    using Cons.prems(3) by auto
  note l' = swept_later [OF Cons.prems(1) le]
  show ?case
  proof (cases e)
    case (Ask k now)
    note s = swept_allow [OF l' Cons.prems(2), of now k]
    have "limiter_run es (snd (keyed_allow k now l')) = limiter_run (asks es) (snd (keyed_allow k now l))"
      by (rule Cons.IH [of now]) (use s keyed_allow_ok [OF Cons.prems(2)] rest Ask in auto)
    then show ?thesis using s Ask by (simp add: Let_def case_prod_beta)
  next
    case (Sweep now)
    have "limiter_run es (sweep now l') = limiter_run (asks es) l"
      by (rule Cons.IH [of now]) (use swept_again [OF l'] Cons.prems(2) rest Sweep in auto)
    then show ?thesis using Sweep by simp
  qed
qed simp

end
