(* ===== verification/Rate_Props.thy ===== *)
theory Rate_Props
  imports Rate_Limit
begin

text \<open>
  What the limiters promise: a bucket never lets more through than its burst and its rate allow and never
  locks a caller out, and collecting idle buckets cannot be observed.
\<close>

text \<open>
  Claim (C19). Of any sequence of calls, at times that may even run backwards, a bucket lets through at most its
  capacity plus its rate times the time that passed; and whatever was spent before, a call that comes a
  full token's worth of time after the latest one is let through, given room for one token.
\<close>

theorem bucket_rate:
  assumes "0 < perSec" and "0 < capacity"
  shows "of_nat (fst (bucket_run ts (newBucket perSec capacity start)))
      \<le> of_nat capacity + seconds (foldl max start ts - start) * perSec \<and>
    (\<forall>now. 1 \<le> seconds (now - foldl max start ts) * perSec \<longrightarrow>
      fst (bucket_allow now (snd (bucket_run ts (newBucket perSec capacity start)))))"
proof -
  obtain n b where run: "bucket_run ts (newBucket perSec capacity start) = (n, b)" by fastforce
  have ok: "bucket_ok (newBucket perSec capacity start)" using assms(1) by (simp add: newBucket_ok)
  note r = bucket_run_bound [OF ok run]
  have "0 \<le> bk_tokens b" and "bk_last b = foldl max start ts" and
      "of_nat n + bk_tokens b \<le> of_nat capacity + seconds (bk_last b - start) * perSec"
    using r by (auto simp: newBucket_def bucket_ok_def)
  then have first: "of_nat n \<le> of_nat capacity + seconds (foldl max start ts - start) * perSec"
    by simp
  have later: "fst (bucket_allow now b)" if t: "1 \<le> seconds (now - foldl max start ts) * perSec" for now
  proof -
    have last: "bk_last b = foldl max start ts" "bk_perSec b = perSec" "bk_capacity b = of_nat capacity" "0 \<le> bk_tokens b"
      using r by (auto simp: newBucket_def bucket_ok_def)
    have "0 < seconds (now - bk_last b)" using less_le_trans [OF zero_less_one t] assms(1) last(1)
      by (simp add: zero_less_mult_iff)
    then have "0 < now - bk_last b" by (simp add: seconds_def zero_less_divide_iff)
    moreover have "1 \<le> min (bk_capacity b) (bk_tokens b + seconds (now - bk_last b) * bk_perSec b)"
      using t last assms(2) by simp
    ultimately show ?thesis by (simp add: bucket_allow_def Let_def not_less)
  qed
  show ?thesis using first later run by simp
qed

lemma bucket_rate_witness:
  "fst (bucket_run [0, 0, 1000000000, 1000000001] (newBucket roomsPerSecond 2 0)) = 2 \<and>
   fst (bucket_allow 6000000001 (snd (bucket_run [0, 0, 1000000000, 1000000001] (newBucket roomsPerSecond 2 0))))"
proof -
  have "0 < roomsPerSecond" by (simp add: roomsPerSecond_def)
  note r = bucket_rate [OF this, of 2 "[0, 0, 1000000000, 1000000001]" 0]
  have "fst (bucket_run [0, 0, 1000000000, 1000000001] (newBucket roomsPerSecond 2 0)) = 2" by code_simp
  moreover have "1 \<le> seconds (6000000001 - foldl max 0 [0, 0, 1000000000, 1000000001]) * roomsPerSecond"
    by (simp add: seconds_def roomsPerSecond_def)
  then have "fst (bucket_allow 6000000001 (snd (bucket_run [0, 0, 1000000000, 1000000001] (newBucket roomsPerSecond 2 0))))"
    using r by simp
  ultimately show ?thesis by simp
qed




end
