(* ===== verification/Server_State.thy ===== *)
theory Server_State
  imports Room_Run Rate_Limit "HOL-Library.AList"
begin

text \<open>
  The state outside the rooms: a connection (\<open>server/internal/wsapi/session.go\<close>), the hub's registries
  (\<open>hub.go\<close>), and the rooms as everybody else sees them, an inbox in front of the loop.

  Pointers are numbers: a connection (\<open>conn\<close>) stands for a \<open>*session\<close>, a \<open>rid\<close> for a \<open>*room\<close>; the record
  \<open>world\<close> is the store they point into. A registry is an association list with one entry per key. What an
  operation reads from outside is the record \<open>outside\<close>: the clock, the codes \<open>randomCode\<close> draws one after the
  other, the Unicode tables, and how \<open>select\<close> decides when a closed connection still has room in its outbox.
  The counters and log lines of these two files are not modelled; frames always encode.
\<close>

type_synonym rid = nat

definition outboxCap :: nat where "outboxCap = 32"
definition roomInputCap :: nat where "roomInputCap = 32"
definition maxWordReportsPerSession :: nat where "maxWordReportsPerSession = 20"
definition defaultMaxRooms :: int where "defaultMaxRooms = 1000"

record outside =
  ox_now :: instant
  ox_codes :: "nat \<Rightarrow> str"
  ox_unicode :: unicode
  ox_coin :: "conn \<Rightarrow> bool"

subsection \<open>A connection\<close>

text \<open>
  A call of the hub that opens or joins up rooms is not one step: the drain flag is an atomic read before the hub's
  lock is taken, and the lock is given up in between. What such a call does next: enter the critical section that
  registers its room, for a game against the bot or an empty one, enter the one that looks through the queue, tell the
  caller it waits, look at the flag again once a partner is out of the queue, and register the room of the two.
\<close>

datatype hub_call = OpenBot difficulty | OpenRoom | Match | Tell | Pair conn | PairOpen conn

text \<open>Where \<open>run\<close> is: not called yet, reading frames, inside a call of the hub, done reading, through its deferred calls.\<close>

datatype phase = Fresh | Reading | InCall hub_call | Closing | Ended

record session =
  ss_id :: str
  ss_resumeToken :: str
  ss_remoteIP :: str
  ss_closed :: bool
  ss_outbox :: "smsg list"
  ss_nick :: str
  ss_room :: "rid option"
  ss_playerID :: player
  ss_submitLimiter :: bucket
  ss_roomLimiter :: bucket
  ss_chatLimiter :: bucket
  ss_frameLimiter :: bucket
  ss_reportedWords :: "str list"
  ss_greeted :: bool
  ss_helloTimer :: bool
  ss_phase :: phase

text \<open>The id and the resume token are drawn by \<open>randomToken\<close>.\<close>

definition newSession :: "str \<Rightarrow> str \<Rightarrow> str \<Rightarrow> instant \<Rightarrow> session" where
  "newSession sid token ip now =
     \<lparr>ss_id = sid, ss_resumeToken = token, ss_remoteIP = ip, ss_closed = False, ss_outbox = [],
      ss_nick = [], ss_room = None, ss_playerID = [],
      ss_submitLimiter = newBucket submitsPerSecond submitBurst now,
      ss_roomLimiter = newBucket roomsPerSecond roomBurst now,
      ss_chatLimiter = newBucket chatsPerSecond chatBurst now,
      ss_frameLimiter = newBucket framesPerSecond frameBurst now,
      ss_reportedWords = [], ss_greeted = False, ss_helloTimer = False,
      ss_phase = Fresh\<rparr>"

datatype enqueue_error = errOutboxFull | errSessionClosed

text \<open>\<open>select\<close> takes a ready case, either of them when both are, and the default only when none is.\<close>

definition enqueue :: "bool \<Rightarrow> smsg \<Rightarrow> session \<Rightarrow> enqueue_error option \<times> session" where
  "enqueue coin m s =
     (if length (ss_outbox s) < outboxCap \<and> (ss_closed s \<longrightarrow> coin)
      then (None, s\<lparr>ss_outbox := ss_outbox s @ [m]\<rparr>)
      else if ss_closed s then (Some errSessionClosed, s) else (Some errOutboxFull, s))"

definition session_send :: "bool \<Rightarrow> smsg \<Rightarrow> session \<Rightarrow> session" where
  "session_send coin m s =
     (let (err, s) = enqueue coin m s in if err = Some errOutboxFull then s\<lparr>ss_closed := True\<rparr> else s)"

definition session_trySend :: "bool \<Rightarrow> smsg \<Rightarrow> session \<Rightarrow> bool \<times> session" where
  "session_trySend coin m s = (let (err, s) = enqueue coin m s in (err = None, s))"

subsection \<open>The hub\<close>

record hub =
  h_dict :: room_dictionary
  h_turnLimit :: duration
  h_graceFor :: duration
  h_idleFor :: duration
  h_maxRooms :: int
  h_rooms :: "(str \<times> rid) list"
  h_sessions :: "(str \<times> conn) list"
  h_waiting :: "conn list"
  h_joinLimiter :: keyedLimiter
  h_roomLimiter :: keyedLimiter
  h_draining :: bool
  h_liveGames :: int

definition newHub :: "room_dictionary \<Rightarrow> duration \<Rightarrow> duration \<Rightarrow> duration \<Rightarrow> int \<Rightarrow> hub" where
  "newHub d limit grace idle maxRooms =
     \<lparr>h_dict = d, h_turnLimit = limit, h_graceFor = grace, h_idleFor = idle,
      h_maxRooms = (if maxRooms \<le> 0 then defaultMaxRooms else maxRooms), h_rooms = [], h_sessions = [],
      h_waiting = [], h_joinLimiter = newKeyedLimiter joinsPerSecond joinBurst limiterIdleFor,
      h_roomLimiter = newKeyedLimiter addressRoomsPerSecond addressRoomBurst limiterIdleFor,
      h_draining = False, h_liveGames = 0\<rparr>"

definition hub_register :: "str \<Rightarrow> conn \<Rightarrow> hub \<Rightarrow> hub" where
  "hub_register token c h = h\<lparr>h_sessions := AList.update token c (h_sessions h)\<rparr>"

definition hub_unregister :: "str \<Rightarrow> hub \<Rightarrow> hub" where
  "hub_unregister token h = h\<lparr>h_sessions := AList.delete token (h_sessions h)\<rparr>"

definition resumable :: "str \<Rightarrow> hub \<Rightarrow> conn option" where
  "resumable token h = (if token = [] then None else map_of (h_sessions h) token)"

definition cancelQuickMatch :: "conn \<Rightarrow> hub \<Rightarrow> hub" where
  "cancelQuickMatch c h = h\<lparr>h_waiting := remove1 c (h_waiting h)\<rparr>"

definition roomCount :: "hub \<Rightarrow> nat" where
  "roomCount h = length (h_rooms h)"

definition startDraining :: "hub \<Rightarrow> hub" where
  "startDraining h = h\<lparr>h_draining := True\<rparr>"

definition gameStarted :: "hub \<Rightarrow> hub" where
  "gameStarted h = h\<lparr>h_liveGames := h_liveGames h + 1\<rparr>"

definition gameFinished :: "hub \<Rightarrow> hub" where
  "gameFinished h = h\<lparr>h_liveGames := h_liveGames h - 1\<rparr>"

definition evict :: "str \<Rightarrow> hub \<Rightarrow> hub" where
  "evict code h = h\<lparr>h_rooms := AList.delete code (h_rooms h)\<rparr>"

subsection \<open>The store\<close>

text \<open>
  A room seen from outside: the loop, the inputs it has still to read, the notices whose senders wait until
  they are taken (\<open>sendReliably\<close>), and the turns its bot is thinking about.
\<close>

record room_proc =
  rp_loop :: loop
  rp_inputs :: "room_input list"
  rp_notices :: "room_input list"
  rp_thinking :: "u32 list"

definition start_room :: "room \<Rightarrow> room_proc" where
  "start_room r = \<lparr>rp_loop = start_loop r, rp_inputs = [], rp_notices = [], rp_thinking = []\<rparr>"

text \<open>The context of a room is done.\<close>

definition rp_over :: "room_proc \<Rightarrow> bool" where
  "rp_over p = rm_cancelled (lp_room (rp_loop p))"

record world =
  w_hub :: hub
  w_sess :: "conn \<Rightarrow> session"
  w_conns :: nat
  w_room :: "rid \<Rightarrow> room_proc"
  w_rooms :: nat

definition upd_hub :: "(hub \<Rightarrow> hub) \<Rightarrow> world \<Rightarrow> world" where
  "upd_hub f w = w\<lparr>w_hub := f (w_hub w)\<rparr>"

definition upd_sess :: "conn \<Rightarrow> (session \<Rightarrow> session) \<Rightarrow> world \<Rightarrow> world" where
  "upd_sess c f w = w\<lparr>w_sess := (w_sess w)(c := f (w_sess w c))\<rparr>"

definition upd_room :: "rid \<Rightarrow> (room_proc \<Rightarrow> room_proc) \<Rightarrow> world \<Rightarrow> world" where
  "upd_room i f w = w\<lparr>w_room := (w_room w)(i := f (w_room w i))\<rparr>"

definition send_to :: "outside \<Rightarrow> conn \<Rightarrow> smsg \<Rightarrow> world \<Rightarrow> world" where
  "send_to ox c m w = upd_sess c (session_send (ox_coin ox c) m) w"

definition answer :: "outside \<Rightarrow> conn \<Rightarrow> errCode \<Rightarrow> world \<Rightarrow> world" where
  "answer ox c code w = send_to ox c (errorMsg code) w"

definition room_send :: "rid \<Rightarrow> room_input \<Rightarrow> world \<Rightarrow> bool \<times> world" where
  "room_send i m w =
     (if rp_over (w_room w i) then (False, w)
      else if length (rp_inputs (w_room w i)) < roomInputCap
      then (True, upd_room i (\<lambda>p. p\<lparr>rp_inputs := rp_inputs p @ [m]\<rparr>) w)
      else (False, w))"

text \<open>The sender waits; \<open>Deliver\<close> in the run of the server below is the moment it is through.\<close>

definition sendReliably :: "rid \<Rightarrow> room_input \<Rightarrow> world \<Rightarrow> world" where
  "sendReliably i m w = upd_room i (\<lambda>p. p\<lparr>rp_notices := rp_notices p @ [m]\<rparr>) w"

definition currentRoom :: "conn \<Rightarrow> world \<Rightarrow> rid option \<times> player" where
  "currentRoom c w = (ss_room (w_sess w c), ss_playerID (w_sess w c))"

definition attach :: "conn \<Rightarrow> rid \<Rightarrow> player \<Rightarrow> world \<Rightarrow> world" where
  "attach c i p w =
     (let (previous, previousID) = currentRoom c w;
          w = upd_sess c (\<lambda>s. s\<lparr>ss_room := Some i, ss_playerID := p\<rparr>) w
      in case previous of
           None \<Rightarrow> w
         | Some j \<Rightarrow> if j \<noteq> i then sendReliably j (disconnectInput previousID c) w else w)"

definition release :: "conn \<Rightarrow> rid \<Rightarrow> world \<Rightarrow> world" where
  "release c i w =
     upd_sess c (\<lambda>s. if ss_room s = Some i then s\<lparr>ss_room := None, ss_playerID := []\<rparr> else s) w"

definition close_session :: "conn \<Rightarrow> world \<Rightarrow> world" where
  "close_session c w = upd_sess c (\<lambda>s. s\<lparr>ss_closed := True\<rparr>) w"

definition leaveRoom :: "conn \<Rightarrow> world \<Rightarrow> world" where
  "leaveRoom c w =
     (let (r, p) = currentRoom c w
      in case r of None \<Rightarrow> w | Some i \<Rightarrow> sendReliably i (disconnectInput p c) w)"

end
