(* ===== verification/Hub.thy ===== *)
theory Hub
  imports Server_State
begin

text \<open>
  The hub's operations (\<open>server/internal/wsapi/hub.go\<close>): room codes, opening a room, the quick-match queue,
  joining by code, and the shutdown.
\<close>

datatype hub_error = errRoomNotFound | errNoRoomCode | errServerFull | errDraining | errAlreadyQueued

subsection \<open>Room codes\<close>

definition roomCodeAlphabet :: str where
  "roomCodeAlphabet = lit ''23456789ABCDEFGHJKMNPQRSTUVWXYZ''"

definition roomCodeLen :: nat where "roomCodeLen = 6"
definition codeAttempts :: nat where "codeAttempts = 10"

definition code_limit :: nat where
  "code_limit = 256 - 256 mod length roomCodeAlphabet"

text \<open>The letters one buffer of random bytes adds: bytes past the limit are thrown away.\<close>

fun code_letters :: "8 word list \<Rightarrow> str \<Rightarrow> str" where
  "code_letters [] out = out"
| "code_letters (b # buf) out =
     (if unat b \<ge> code_limit then code_letters buf out
      else let out = out @ [roomCodeAlphabet ! (unat b mod length roomCodeAlphabet)]
           in if length out = roomCodeLen then out else code_letters buf out)"

text \<open>
  The source's loop reads buffer after buffer from \<open>crypto/rand\<close>; \<open>None\<close> is not returning. The number is
  how many buffers were read.
\<close>

partial_function (option) code_loop :: "(nat \<Rightarrow> 8 word list) \<Rightarrow> nat \<Rightarrow> str \<Rightarrow> (str \<times> nat) option" where
  "code_loop rand i out =
     (if length out < roomCodeLen then code_loop rand (i + 1) (code_letters (rand i) out)
      else Some (out, i))"

definition randomCode :: "(nat \<Rightarrow> 8 word list) \<Rightarrow> (str \<times> nat) option" where
  "randomCode rand = code_loop rand 0 []"

text \<open>A code nobody holds, from the codes drawn one after the other.\<close>

definition unusedCode :: "(nat \<Rightarrow> str) \<Rightarrow> hub \<Rightarrow> str option" where
  "unusedCode draw h =
     List.find (\<lambda>code. map_of (h_rooms h) code = None) (map draw [0..<codeAttempts])"

subsection \<open>Opening a room\<close>

text \<open>
  The operations below are the calls with nothing in between: the drain flag and what follows it, run to the end. The
  run of the server takes them apart at the places where others may come in between.
\<close>

text \<open>The critical section of \<open>newRegisteredRoom\<close>.\<close>

definition register_room :: "outside \<Rightarrow> room_mode \<Rightarrow> world \<Rightarrow> (hub_error + rid) \<times> world" where
  "register_room ox mode w =
     (let h = w_hub w
      in if int (length (h_rooms h)) \<ge> h_maxRooms h then (Inl errServerFull, w)
         else case unusedCode (ox_codes ox) h of
           None \<Rightarrow> (Inl errNoRoomCode, w)
         | Some code \<Rightarrow>
             (let i = w_rooms w;
                  r = newRoom (h_dict h) code (h_turnLimit h) (h_graceFor h) (h_idleFor h) mode
              in (Inr i, w\<lparr>w_hub := h\<lparr>h_rooms := AList.update code i (h_rooms h)\<rparr>,
                           w_room := (w_room w)(i := start_room r), w_rooms := i + 1\<rparr>)))"

definition newRegisteredRoom :: "outside \<Rightarrow> room_mode \<Rightarrow> world \<Rightarrow> (hub_error + rid) \<times> world" where
  "newRegisteredRoom ox mode w =
     (if h_draining (w_hub w) then (Inl errDraining, w) else register_room ox mode w)"

text \<open>What \<open>startBotRoom\<close> and \<open>createRoom\<close> do with the room: its first input.\<close>

definition first_input :: "room_input \<Rightarrow> (hub_error + rid) \<times> world \<Rightarrow> hub_error option \<times> world" where
  "first_input m r =
     (case r of
        (Inl err, w) \<Rightarrow> (Some err, w)
      | (Inr i, w) \<Rightarrow> (None, snd (room_send i m w)))"

definition startBotRoom :: "outside \<Rightarrow> conn \<Rightarrow> difficulty \<Rightarrow> world \<Rightarrow> hub_error option \<times> world" where
  "startBotRoom ox c d w = first_input (startBotInput c d) (newRegisteredRoom ox roomModeBot w)"

definition createRoom :: "outside \<Rightarrow> conn \<Rightarrow> world \<Rightarrow> hub_error option \<times> world" where
  "createRoom ox c w = first_input (createInput c False) (newRegisteredRoom ox roomModePvP w)"

definition roomCreateError :: "hub_error \<Rightarrow> smsg" where
  "roomCreateError err =
     (if err = errServerFull then errorMsg codeServerFull
      else if err = errDraining then errorMsg codeServerRestarting
      else errorMsg codeRoomStartFailed)"

subsection \<open>Quick match\<close>

text \<open>The first waiter still connected, and the queue behind it.\<close>

fun next_waiter :: "(conn \<Rightarrow> bool) \<Rightarrow> conn list \<Rightarrow> conn option \<times> conn list" where
  "next_waiter gone [] = (None, [])"
| "next_waiter gone (c # cs) = (if \<not> gone c then (Some c, cs) else next_waiter gone cs)"

text \<open>The first critical section: the caller waits there already, or now, or has a partner, who is out of the queue.\<close>

datatype pairing = AlreadyWaits | Waits | Partner conn

definition take_waiter :: "conn \<Rightarrow> world \<Rightarrow> pairing \<times> world" where
  "take_waiter c w =
     (if c \<in> set (h_waiting (w_hub w)) then (AlreadyWaits, w)
      else let (waiter, rest) = next_waiter (\<lambda>d. ss_closed (w_sess w d)) (h_waiting (w_hub w));
               w = upd_hub (\<lambda>h. h\<lparr>h_waiting := rest\<rparr>) w
           in case waiter of
                None \<Rightarrow> (Waits, upd_hub (\<lambda>h. h\<lparr>h_waiting := h_waiting h @ [c]\<rparr>) w)
              | Some d \<Rightarrow> (Partner d, w))"

text \<open>What follows \<open>newRegisteredRoom\<close>.\<close>

definition pair_up :: "outside \<Rightarrow> conn \<Rightarrow> conn \<Rightarrow> (hub_error + rid) \<times> world \<Rightarrow> hub_error option \<times> world" where
  "pair_up ox c d r =
     (case r of
        (Inl err, w) \<Rightarrow> (Some err, send_to ox d (roomCreateError err) w)
      | (Inr i, w) \<Rightarrow>
          (let w = send_to ox d (quickMatchStatusMsg False) w;
               w = send_to ox c (quickMatchStatusMsg False) w;
               w = snd (room_send i (createInput d True) w);
               w = snd (room_send i (joinInput c) w)
           in (None, w)))"

definition quickMatch :: "outside \<Rightarrow> conn \<Rightarrow> world \<Rightarrow> hub_error option \<times> world" where
  "quickMatch ox c w =
     (if h_draining (w_hub w) then (Some errDraining, w)
      else case take_waiter c w of
        (AlreadyWaits, w) \<Rightarrow> (Some errAlreadyQueued, w)
      | (Waits, w) \<Rightarrow> (None, send_to ox c (quickMatchStatusMsg True) w)
      | (Partner d, w) \<Rightarrow> pair_up ox c d (newRegisteredRoom ox roomModePvP w))"

subsection \<open>Joining\<close>

definition joinRoom :: "str \<Rightarrow> conn \<Rightarrow> world \<Rightarrow> hub_error option \<times> world" where
  "joinRoom code c w =
     (case map_of (h_rooms (w_hub w)) code of
        None \<Rightarrow> (Some errRoomNotFound, w)
      | Some i \<Rightarrow>
          (let (ok, w) = room_send i (joinInput c) w
           in (if ok then None else Some errRoomNotFound, w)))"

subsection \<open>Shutting down\<close>

definition cancel_room :: "rid \<Rightarrow> world \<Rightarrow> world" where
  "cancel_room i w =
     upd_room i (\<lambda>p. p\<lparr>rp_loop := (rp_loop p)\<lparr>lp_room := (lp_room (rp_loop p))\<lparr>rm_cancelled := True\<rparr>\<rparr>\<rparr>) w"

definition shutdown :: "outside \<Rightarrow> world \<Rightarrow> world" where
  "shutdown ox w =
     (let rooms = map snd (h_rooms (w_hub w));
          conns = map snd (h_sessions (w_hub w));
          w = upd_hub (\<lambda>h. h\<lparr>h_waiting := []\<rparr>) w;
          w = fold (\<lambda>c. send_to ox c (errorMsg codeServerRestarting)) conns w
      in fold cancel_room rooms w)"

end
