(* ===== verification/Dispatch.thy ===== *)
theory Dispatch
  imports Hub
begin

text \<open>
  \<open>server/internal/wsapi/dispatch.go\<close>: the handshake, and the routing of one decoded client message to the
  hub or to the room the connection sits in. Every operation takes the world and returns it changed;
  an error returned to \<open>readLoop\<close> ends the connection.
\<close>

text \<open>The client's messages: the datatype of what each carries. The last is a payload the server does not know.\<close>

datatype cmsg =
    ClientMessage_Hello u32 str str
  | ClientMessage_StartBotGame wire_difficulty
  | ClientMessage_CreateRoom
  | ClientMessage_JoinRoom str
  | ClientMessage_QuickMatch
  | ClientMessage_CancelQuickMatch
  | ClientMessage_SubmitWord str u32
  | ClientMessage_Resign
  | ClientMessage_ClaimDeadEnd
  | ClientMessage_ReportWord str
  | ClientMessage_SetReady bool
  | ClientMessage_StartGame
  | ClientMessage_KickPlayer player
  | ClientMessage_LeaveRoom
  | ClientMessage_SendChat str
  | ClientMessage_Ping int
  | ClientMessage_Unknown

datatype dispatch_error = errHandshake | errProtocolVersion | errRepeatedHello

subsection \<open>Budgets\<close>

datatype budget = submitLimiter | chatLimiter | roomLimiter | frameLimiter

fun ss_bucket :: "budget \<Rightarrow> session \<Rightarrow> bucket" where
  "ss_bucket submitLimiter s = ss_submitLimiter s"
| "ss_bucket chatLimiter s = ss_chatLimiter s"
| "ss_bucket roomLimiter s = ss_roomLimiter s"
| "ss_bucket frameLimiter s = ss_frameLimiter s"

fun set_bucket :: "budget \<Rightarrow> bucket \<Rightarrow> session \<Rightarrow> session" where
  "set_bucket submitLimiter b s = s\<lparr>ss_submitLimiter := b\<rparr>"
| "set_bucket chatLimiter b s = s\<lparr>ss_chatLimiter := b\<rparr>"
| "set_bucket roomLimiter b s = s\<lparr>ss_roomLimiter := b\<rparr>"
| "set_bucket frameLimiter b s = s\<lparr>ss_frameLimiter := b\<rparr>"

definition charge :: "outside \<Rightarrow> budget \<Rightarrow> conn \<Rightarrow> world \<Rightarrow> bool \<times> world" where
  "charge ox which c w =
     (let (ok, b) = bucket_allow (ox_now ox) (ss_bucket which (w_sess w c))
      in (ok, upd_sess c (set_bucket which b) w))"

definition allowRoom :: "outside \<Rightarrow> conn \<Rightarrow> world \<Rightarrow> bool \<times> world" where
  "allowRoom ox c w =
     (let (own, w) = charge ox roomLimiter c w
      in if \<not> own then (False, answer ox c codeTooManyRooms w)
         else let (addr, l) = keyed_allow (ss_remoteIP (w_sess w c)) (ox_now ox) (h_roomLimiter (w_hub w));
                  w = upd_hub (\<lambda>h. h\<lparr>h_roomLimiter := l\<rparr>) w
              in if addr then (True, w) else (False, answer ox c codeTooManyRooms w))"

definition mid_game :: "conn \<Rightarrow> world \<Rightarrow> bool" where
  "mid_game c w =
     (case fst (currentRoom c w) of
        None \<Rightarrow> False | Some i \<Rightarrow> rm_liveCounted (lp_room (rp_loop (w_room w i))))"

definition refuseMidGame :: "outside \<Rightarrow> conn \<Rightarrow> world \<Rightarrow> bool \<times> world" where
  "refuseMidGame ox c w =
     (if mid_game c w then (True, answer ox c codeAlreadyInAGame w) else (False, w))"

subsection \<open>To the room\<close>

definition toRoom ::
  "outside \<Rightarrow> conn \<Rightarrow> budget option \<Rightarrow> errCode \<Rightarrow> errCode \<Rightarrow> (player \<Rightarrow> room_input) \<Rightarrow> world \<Rightarrow> world" where
  "toRoom ox c limiter notIn dropped build w =
     (let (ok, w) = (case limiter of None \<Rightarrow> (True, w) | Some b \<Rightarrow> charge ox b c w)
      in if \<not> ok then answer ox c codeTooFast w
         else case currentRoom c w of
                (None, p) \<Rightarrow> answer ox c notIn w
              | (Some i, p) \<Rightarrow>
                  (let (sent, w) = room_send i (build p) w
                   in if sent then w else answer ox c dropped w))"

definition toLobby :: "outside \<Rightarrow> conn \<Rightarrow> lobbyAction \<Rightarrow> world \<Rightarrow> world" where
  "toLobby ox c act w =
     toRoom ox c (Some submitLimiter) codeNotInARoom codeNotInARoom (\<lambda>p. lobbyInput c p act) w"

subsection \<open>The handshake\<close>

definition resumeFrom :: "outside \<Rightarrow> conn \<Rightarrow> conn \<Rightarrow> world \<Rightarrow> world" where
  "resumeFrom ox c prior w =
     (case currentRoom prior w of
        (None, p) \<Rightarrow> answer ox c codeGameAlreadyOver w
      | (Some i, p) \<Rightarrow>
          (let (sent, w) = room_send i (resumeInput p c prior) w
           in if sent then w
              else if rp_over (w_room w i) then answer ox c codeGameAlreadyOver w
              else answer ox c codeBusy w))"

definition handleHello :: "outside \<Rightarrow> conn \<Rightarrow> u32 \<Rightarrow> str \<Rightarrow> str \<Rightarrow> world \<Rightarrow> dispatch_error option \<times> world" where
  "handleHello ox c version nickname token w =
     (if version \<noteq> ProtocolVersion then (Some errProtocolVersion, answer ox c codeProtocolVersionMismatch w)
      else if ss_greeted (w_sess w c) then (Some errRepeatedHello, answer ox c codeAlreadyGreeted w)
      else let w = upd_sess c (\<lambda>s. s\<lparr>ss_greeted := True, ss_helloTimer := False,
                     ss_nick := sanitizeNickname (ox_unicode ox) nickname\<rparr>) w;
               s = w_sess w c;
               w = upd_hub (hub_register (ss_resumeToken s) c) w;
               w = send_to ox c (welcomeMsg (ss_id s) (ss_resumeToken s) (ss_nick s)) w
           in (None, case resumable token (w_hub w) of
                Some prior \<Rightarrow> if prior \<noteq> c then resumeFrom ox c prior w else w
              | None \<Rightarrow> if token \<noteq> [] then answer ox c codeSessionNotResumable w else w))"

subsection \<open>Word reports\<close>

definition handleReportWord :: "outside \<Rightarrow> conn \<Rightarrow> str \<Rightarrow> world \<Rightarrow> world" where
  "handleReportWord ox c raw w =
     (let (ok, w) = charge ox chatLimiter c w
      in if \<not> ok then answer ox c codeTooFast w
         else case Normalize (ox_unicode ox) (sanitizeText (ox_unicode ox) raw maxWordRunes maxNicknameMarks) of
           None \<Rightarrow> answer ox c codeWordReportRefused w
         | Some (word, ss) \<Rightarrow>
             if \<not> HasEnoughSyllables ss then answer ox c codeWordReportRefused w
             else let reported = ss_reportedWords (w_sess w c)
                  in if word \<notin> set reported \<and> length reported \<ge> maxWordReportsPerSession
                     then answer ox c codeWordReportLimit w
                     else let w = upd_sess c (\<lambda>s. s\<lparr>ss_reportedWords := List.insert word (ss_reportedWords s)\<rparr>) w
                          in case fst (currentRoom c w) of
                               Some i \<Rightarrow>
                                 (let (sent, w) = room_send i (reportWordInput c word) w
                                  in if sent then w else answer ox c codeBusy w)
                             | None \<Rightarrow> send_to ox c (wordReportedMsg word) w)"

subsection \<open>Routing\<close>

definition answer_error :: "outside \<Rightarrow> conn \<Rightarrow> hub_error option \<times> world \<Rightarrow> world" where
  "answer_error ox c r = (case r of (None, w) \<Rightarrow> w | (Some err, w) \<Rightarrow> send_to ox c (roomCreateError err) w)"

text \<open>The messages that open or look for a room: what comes before the call of the hub, and the call, an argument.\<close>

definition startBot_case :: "(difficulty \<Rightarrow> world \<Rightarrow> world) \<Rightarrow> outside \<Rightarrow> conn \<Rightarrow> wire_difficulty \<Rightarrow> world \<Rightarrow> world" where
  "startBot_case call ox c d w =
     (let (refused, w) = refuseMidGame ox c w
      in if refused then w
         else let (ok, w) = allowRoom ox c w
              in if \<not> ok then w
                 else case Difficulty d of
                   None \<Rightarrow> answer ox c codeUnknownDifficulty w
                 | Some level \<Rightarrow> call level w)"

definition createRoom_case :: "(world \<Rightarrow> world) \<Rightarrow> outside \<Rightarrow> conn \<Rightarrow> world \<Rightarrow> world" where
  "createRoom_case call ox c w =
     (let (refused, w) = refuseMidGame ox c w
      in if refused then w
         else let (ok, w) = allowRoom ox c w
              in if \<not> ok then w else call w)"

definition quickMatch_case :: "(world \<Rightarrow> world) \<Rightarrow> outside \<Rightarrow> conn \<Rightarrow> world \<Rightarrow> world" where
  "quickMatch_case call ox c w =
     (let (refused, w) = refuseMidGame ox c w
      in if refused then w
         else if fst (currentRoom c w) \<noteq> None then answer ox c codeAlreadyInARoom w
         else let (ok, w) = allowRoom ox c w
              in if \<not> ok then w else call w)"

definition answer_match :: "outside \<Rightarrow> conn \<Rightarrow> hub_error option \<times> world \<Rightarrow> world" where
  "answer_match ox c r =
     (case r of
        (None, w) \<Rightarrow> w
      | (Some err, w) \<Rightarrow>
          if err = errAlreadyQueued then answer ox c codeAlreadyQueued w
          else send_to ox c (roomCreateError err) w)"

definition dispatch_startBot :: "outside \<Rightarrow> conn \<Rightarrow> wire_difficulty \<Rightarrow> world \<Rightarrow> world" where
  "dispatch_startBot ox c = startBot_case (\<lambda>level w. answer_error ox c (startBotRoom ox c level w)) ox c"

definition dispatch_createRoom :: "outside \<Rightarrow> conn \<Rightarrow> world \<Rightarrow> world" where
  "dispatch_createRoom ox c = createRoom_case (\<lambda>w. answer_error ox c (createRoom ox c w)) ox c"

definition dispatch_quickMatch :: "outside \<Rightarrow> conn \<Rightarrow> world \<Rightarrow> world" where
  "dispatch_quickMatch ox c = quickMatch_case (\<lambda>w. answer_match ox c (quickMatch ox c w)) ox c"

definition dispatch_joinRoom :: "outside \<Rightarrow> conn \<Rightarrow> str \<Rightarrow> world \<Rightarrow> world" where
  "dispatch_joinRoom ox c code w =
     (let (refused, w) = refuseMidGame ox c w
      in if refused then w
         else let (ok, l) = keyed_allow (ss_remoteIP (w_sess w c)) (ox_now ox) (h_joinLimiter (w_hub w));
                  w = upd_hub (\<lambda>h. h\<lparr>h_joinLimiter := l\<rparr>) w
              in if \<not> ok then answer ox c codeTooManyAttempts w
                 else case joinRoom code c w of
                   (None, w) \<Rightarrow> w
                 | (Some err, w) \<Rightarrow> answer ox c codeRoomNotFound w)"

definition dispatch :: "outside \<Rightarrow> conn \<Rightarrow> cmsg \<Rightarrow> world \<Rightarrow> dispatch_error option \<times> world" where
  "dispatch ox c msg w =
     (case msg of
        ClientMessage_Hello version nickname token \<Rightarrow> handleHello ox c version nickname token w
      | _ \<Rightarrow>
        if \<not> ss_greeted (w_sess w c) then (Some errHandshake, answer ox c codeHandshakeRequired w)
        else (None, case msg of
            ClientMessage_StartBotGame d \<Rightarrow> dispatch_startBot ox c d w
          | ClientMessage_CreateRoom \<Rightarrow> dispatch_createRoom ox c w
          | ClientMessage_JoinRoom code \<Rightarrow> dispatch_joinRoom ox c code w
          | ClientMessage_QuickMatch \<Rightarrow> dispatch_quickMatch ox c w
          | ClientMessage_CancelQuickMatch \<Rightarrow>
              send_to ox c (quickMatchStatusMsg False) (upd_hub (cancelQuickMatch c) w)
          | ClientMessage_SubmitWord word seq \<Rightarrow>
              toRoom ox c (Some submitLimiter) codeNotInAGame codeBusy (\<lambda>p. submitInput c p word seq) w
          | ClientMessage_Resign \<Rightarrow>
              toRoom ox c (Some submitLimiter) codeNotInAGame codeGameAlreadyOver (\<lambda>p. resignInput c p) w
          | ClientMessage_ClaimDeadEnd \<Rightarrow>
              toRoom ox c (Some submitLimiter) codeNotInAGame codeBusy (\<lambda>p. claimDeadEndInput c p) w
          | ClientMessage_ReportWord word \<Rightarrow> handleReportWord ox c word w
          | ClientMessage_SetReady ready \<Rightarrow> toLobby ox c (lobbyReady ready) w
          | ClientMessage_StartGame \<Rightarrow> toLobby ox c lobbyStart w
          | ClientMessage_KickPlayer p \<Rightarrow> toLobby ox c (lobbyKick p) w
          | ClientMessage_LeaveRoom \<Rightarrow> toLobby ox c lobbyLeave w
          | ClientMessage_SendChat text \<Rightarrow>
              toRoom ox c (Some chatLimiter) codeNotInARoom codeBusy (\<lambda>p. chatInput c p text) w
          | ClientMessage_Ping clientMs \<Rightarrow> send_to ox c (pongMsg clientMs (unix_milli (ox_now ox))) w
          | _ \<Rightarrow> answer ox c codeUnknownMessage w))"

text \<open>One frame as \<open>readLoop\<close> takes it off the socket; a frame that does not decode is \<open>None\<close>.\<close>

datatype read_error = errFlood | errDecode | errDispatch dispatch_error

definition read_frame_by ::
  "(cmsg \<Rightarrow> world \<Rightarrow> dispatch_error option \<times> world) \<Rightarrow> outside \<Rightarrow> conn \<Rightarrow> cmsg option \<Rightarrow> world \<Rightarrow> read_error option \<times> world" where
  "read_frame_by route ox c frame w =
     (let (ok, w) = charge ox frameLimiter c w
      in if \<not> ok then (Some errFlood, answer ox c codeTooFast w)
         else case frame of
           None \<Rightarrow> (Some errDecode, answer ox c codeBadFrame w)
         | Some msg \<Rightarrow> (case route msg w of
               (None, w) \<Rightarrow> (None, w)
             | (Some err, w) \<Rightarrow> (Some (errDispatch err), w)))"

definition read_frame :: "outside \<Rightarrow> conn \<Rightarrow> cmsg option \<Rightarrow> world \<Rightarrow> read_error option \<times> world" where
  "read_frame ox c = read_frame_by (dispatch ox c) ox c"

subsection \<open>The calls of the hub, step by step\<close>

definition enter :: "conn \<Rightarrow> hub_call \<Rightarrow> world \<Rightarrow> world" where
  "enter c k w = upd_sess c (\<lambda>s. s\<lparr>ss_phase := InCall k\<rparr>) w"

definition returns :: "conn \<Rightarrow> world \<Rightarrow> world" where
  "returns c w = upd_sess c (\<lambda>s. s\<lparr>ss_phase := Reading\<rparr>) w"

text \<open>The atomic read of the drain flag a call begins with; what the flag says later no longer matters to it.\<close>

definition passes_check :: "outside \<Rightarrow> conn \<Rightarrow> hub_call \<Rightarrow> world \<Rightarrow> world" where
  "passes_check ox c k w =
     (if h_draining (w_hub w) then send_to ox c (roomCreateError errDraining) w else enter c k w)"

definition ask_startBot :: "outside \<Rightarrow> conn \<Rightarrow> wire_difficulty \<Rightarrow> world \<Rightarrow> world" where
  "ask_startBot ox c = startBot_case (\<lambda>level. passes_check ox c (OpenBot level)) ox c"

definition ask_createRoom :: "outside \<Rightarrow> conn \<Rightarrow> world \<Rightarrow> world" where
  "ask_createRoom ox c = createRoom_case (passes_check ox c OpenRoom) ox c"

definition ask_quickMatch :: "outside \<Rightarrow> conn \<Rightarrow> world \<Rightarrow> world" where
  "ask_quickMatch ox c = quickMatch_case (passes_check ox c Match) ox c"

text \<open>The routing of a message up to there; every other message is handled in one go.\<close>

definition ask :: "outside \<Rightarrow> conn \<Rightarrow> cmsg \<Rightarrow> world \<Rightarrow> dispatch_error option \<times> world" where
  "ask ox c msg w =
     (if \<not> ss_greeted (w_sess w c) then dispatch ox c msg w
      else case msg of
        ClientMessage_StartBotGame d \<Rightarrow> (None, ask_startBot ox c d w)
      | ClientMessage_CreateRoom \<Rightarrow> (None, ask_createRoom ox c w)
      | ClientMessage_QuickMatch \<Rightarrow> (None, ask_quickMatch ox c w)
      | _ \<Rightarrow> dispatch ox c msg w)"

text \<open>
  One further step of a call. A room and its first input are one step: until the room has taken it, nobody has been told
  its code.
\<close>

definition hub_turn :: "outside \<Rightarrow> conn \<Rightarrow> hub_call \<Rightarrow> world \<Rightarrow> world" where
  "hub_turn ox c k w =
     (case k of
        OpenBot level \<Rightarrow>
          returns c (answer_error ox c (first_input (startBotInput c level) (register_room ox roomModeBot w)))
      | OpenRoom \<Rightarrow>
          returns c (answer_error ox c (first_input (createInput c False) (register_room ox roomModePvP w)))
      | Match \<Rightarrow>
          (case take_waiter c w of
             (AlreadyWaits, w) \<Rightarrow> returns c (answer_match ox c (Some errAlreadyQueued, w))
           | (Waits, w) \<Rightarrow> enter c Tell w
           | (Partner d, w) \<Rightarrow> enter c (Pair d) w)
      | Tell \<Rightarrow> returns c (send_to ox c (quickMatchStatusMsg True) w)
      | Pair d \<Rightarrow>
          if h_draining (w_hub w) then returns c (answer_match ox c (pair_up ox c d (Inl errDraining, w)))
          else enter c (PairOpen d) w
      | PairOpen d \<Rightarrow> returns c (answer_match ox c (pair_up ox c d (register_room ox roomModePvP w))))"

end
