(* ===== verification/Server_Run.thy ===== *)
theory Server_Run
  imports Dispatch
begin

text \<open>
  The server as a whole: connections that come, talk and go (\<open>session.run\<close>, \<open>Server.handleWS\<close>), rooms that
  run (\<open>room.run\<close>), the hub between them, and the timers. \<open>server_step\<close> is one step of any of them; in a run
  the steps come in any order. One step is what one goroutine does for one frame, input or timer; inside a step
  the handlers of the earlier theories run to their end, and what a room's handler did to the world outside is
  performed, in its order, when it returns. A message that asks the hub for a room takes several steps, with anything
  in between: one up to the read of the drain flag, then one for each critical section and each further read.
\<close>

subsection \<open>What a room does to the world\<close>

text \<open>The effects a room's loop appended to its list are performed one by one; counters and logs are not modelled.\<close>

definition perform :: "outside \<Rightarrow> rid \<Rightarrow> effect \<Rightarrow> world \<Rightarrow> world" where
  "perform ox i x w =
     (case x of
        Send c m \<Rightarrow> send_to ox c m w
      | TrySend c m \<Rightarrow> upd_sess c (\<lambda>s. snd (session_trySend (ox_coin ox c) m s)) w
      | Attach c p \<Rightarrow> attach c i p w
      | Release c \<Rightarrow> release c i w
      | effect.CancelQuickMatch c \<Rightarrow> upd_hub (cancelQuickMatch c) w
      | Unregister c \<Rightarrow> upd_hub (hub_unregister (ss_resumeToken (w_sess w c))) w
      | CloseSession c \<Rightarrow> close_session c w
      | HubGameStarted \<Rightarrow> upd_hub gameStarted w
      | HubGameFinished \<Rightarrow> upd_hub gameFinished w
      | ThinkBot b seq \<Rightarrow> upd_room i (\<lambda>p. p\<lparr>rp_thinking := rp_thinking p @ [seq]\<rparr>) w
      | Evict \<Rightarrow> upd_hub (evict (rm_code (lp_room (rp_loop (w_room w i))))) w
      | _ \<Rightarrow> w)"

text \<open>What a room reads of the world when it handles an input.\<close>

definition room_env :: "outside \<Rightarrow> str option \<Rightarrow> (nat \<Rightarrow> nat) \<Rightarrow> world \<Rightarrow> env" where
  "room_env ox opening lead w =
     \<lparr>ev_now = ox_now ox, ev_closed = (\<lambda>c. ss_closed (w_sess w c)), ev_nickname = (\<lambda>c. ss_nick (w_sess w c)),
      ev_draining = h_draining (w_hub w), ev_opening = opening, ev_lead = lead, ev_unicode = ox_unicode ox\<rparr>"

text \<open>
  One turn of a room's loop, and, if it was the last one, the answers to what is still queued; notices that
  wait for space are dropped by then.
\<close>

definition fresh_out :: "loop \<Rightarrow> loop \<Rightarrow> effect list" where
  "fresh_out l l' = drop (length (rm_out (lp_room l))) (rm_out (lp_room l'))"

definition refuse_rest :: "room_input list \<Rightarrow> loop \<Rightarrow> loop" where
  "refuse_rest pending l = l\<lparr>lp_room := refusePending pending (lp_room l)\<rparr>"

definition room_turn :: "outside \<Rightarrow> env \<Rightarrow> rid \<Rightarrow> event \<Rightarrow> room_input list \<Rightarrow> world \<Rightarrow> world" where
  "room_turn ox ev i x rest w =
     (let l = rp_loop (w_room w i);
          l' = run_step ev x l;
          l' = (if lp_done l' then refuse_rest rest l' else l');
          w = upd_room i (\<lambda>p. p\<lparr>rp_loop := l',
                rp_inputs := (if lp_done l' then [] else rest),
                rp_notices := (if lp_done l' then [] else rp_notices p)\<rparr>) w
      in fold (perform ox i) (fresh_out l l') w)"

subsection \<open>Connections\<close>

text \<open>\<open>run\<close> up to its first read: the timer for the handshake is armed.\<close>

definition connect :: "str \<Rightarrow> str \<Rightarrow> str \<Rightarrow> instant \<Rightarrow> world \<Rightarrow> world" where
  "connect sid token ip now w =
     w\<lparr>w_sess := (w_sess w)(w_conns w := (newSession sid token ip now)\<lparr>ss_phase := Reading, ss_helloTimer := True\<rparr>),
       w_conns := w_conns w + 1\<rparr>"

text \<open>
  A frame is read and routed, up to the drain flag when it asks the hub for a room; an error ends the reading, and
  closes the connection.
\<close>

definition stop_reading :: "conn \<Rightarrow> world \<Rightarrow> world" where
  "stop_reading c w = upd_sess c (\<lambda>s. s\<lparr>ss_phase := Closing, ss_closed := True\<rparr>) w"

definition take_frame :: "outside \<Rightarrow> conn \<Rightarrow> cmsg option \<Rightarrow> world \<Rightarrow> world" where
  "take_frame ox c frame w =
     (case read_frame_by (ask ox c) ox c frame w of
        (None, w) \<Rightarrow> w
      | (Some err, w) \<Rightarrow> stop_reading c w)"

text \<open>The handshake did not come in time.\<close>

definition hello_expired :: "outside \<Rightarrow> conn \<Rightarrow> world \<Rightarrow> world" where
  "hello_expired ox c w =
     close_session c (answer ox c codeHandshakeRequired (upd_sess c (\<lambda>s. s\<lparr>ss_helloTimer := False\<rparr>) w))"

text \<open>The deferred calls of \<open>run\<close>, in the order they run.\<close>

definition end_session :: "conn \<Rightarrow> world \<Rightarrow> world" where
  "end_session c w =
     (let w = upd_sess c (\<lambda>s. s\<lparr>ss_helloTimer := False\<rparr>) w;
          w = upd_hub (cancelQuickMatch c) w;
          w = leaveRoom c w
      in upd_sess c (\<lambda>s. s\<lparr>ss_closed := True, ss_phase := Ended\<rparr>) w)"

definition written :: "conn \<Rightarrow> world \<Rightarrow> world" where
  "written c w = upd_sess c (\<lambda>s. s\<lparr>ss_outbox := tl (ss_outbox s)\<rparr>) w"

text \<open>A notice that waited goes in as soon as there is space; a finished room drops it.\<close>

definition deliver :: "rid \<Rightarrow> nat \<Rightarrow> world \<Rightarrow> world" where
  "deliver i k w =
     upd_room i (\<lambda>p. p\<lparr>rp_inputs := rp_inputs p @ [rp_notices p ! k],
       rp_notices := take k (rp_notices p) @ drop (Suc k) (rp_notices p)\<rparr>) w"

definition bot_answers :: "rid \<Rightarrow> nat \<Rightarrow> str option \<Rightarrow> world \<Rightarrow> world" where
  "bot_answers i k word w =
     (let seq = rp_thinking (w_room w i) ! k;
          w = upd_room i (\<lambda>p. p\<lparr>rp_thinking := take k (rp_thinking p) @ drop (Suc k) (rp_thinking p)\<rparr>) w
      in snd (room_send i (botMoveInput word seq) w))"

definition sweepLimiters :: "instant \<Rightarrow> world \<Rightarrow> world" where
  "sweepLimiters now w =
     upd_hub (\<lambda>h. h\<lparr>h_joinLimiter := sweep now (h_joinLimiter h),
                    h_roomLimiter := sweep now (h_roomLimiter h)\<rparr>) w"

subsection \<open>Steps\<close>

text \<open>A session token is drawn at random; that it is new is the one thing asked of the draw.\<close>

definition token_new :: "str \<Rightarrow> world \<Rightarrow> bool" where
  "token_new token w \<longleftrightarrow> token \<noteq> [] \<and> (\<forall>c < w_conns w. ss_resumeToken (w_sess w c) \<noteq> token)"

inductive server_step :: "world \<Rightarrow> world \<Rightarrow> bool" where
  connects: "token_new token w \<Longrightarrow> server_step w (connect sid token ip now w)"
| frame: "c < w_conns w \<Longrightarrow> ss_phase (w_sess w c) = Reading \<Longrightarrow> server_step w (take_frame ox c f w)"
| calls: "c < w_conns w \<Longrightarrow> ss_phase (w_sess w c) = InCall k \<Longrightarrow> server_step w (hub_turn ox c k w)"
| hello_timer: "c < w_conns w \<Longrightarrow> ss_helloTimer (w_sess w c) \<Longrightarrow> server_step w (hello_expired ox c w)"
| closes: "c < w_conns w \<Longrightarrow> server_step w (close_session c w)"
| hangs_up: "c < w_conns w \<Longrightarrow> ss_phase (w_sess w c) = Reading \<Longrightarrow> server_step w (stop_reading c w)"
| ends: "c < w_conns w \<Longrightarrow> ss_phase (w_sess w c) = Closing \<Longrightarrow> server_step w (end_session c w)"
| writes: "c < w_conns w \<Longrightarrow> server_step w (written c w)"
| input: "i < w_rooms w \<Longrightarrow> \<not> lp_done (rp_loop (w_room w i)) \<Longrightarrow> rp_inputs (w_room w i) = m # rest \<Longrightarrow>
    server_step w (room_turn ox (room_env ox opening lead w) i (Input m) rest w)"
| timer: "i < w_rooms w \<Longrightarrow> \<not> lp_done (rp_loop (w_room w i)) \<Longrightarrow> x \<in> {TurnFires, GraceFires, IdleFires} \<Longrightarrow>
    due (room_env ox opening lead w) (rp_loop (w_room w i)) x \<Longrightarrow>
    server_step w (room_turn ox (room_env ox opening lead w) i x (rp_inputs (w_room w i)) w)"
| cancelled: "i < w_rooms w \<Longrightarrow> \<not> lp_done (rp_loop (w_room w i)) \<Longrightarrow> rp_over (w_room w i) \<Longrightarrow>
    server_step w (room_turn ox (room_env ox opening lead w) i ContextDone (rp_inputs (w_room w i)) w)"
| delivers: "i < w_rooms w \<Longrightarrow> \<not> lp_done (rp_loop (w_room w i)) \<Longrightarrow> k < length (rp_notices (w_room w i)) \<Longrightarrow>
    length (rp_inputs (w_room w i)) < roomInputCap \<Longrightarrow> server_step w (deliver i k w)"
| bot: "i < w_rooms w \<Longrightarrow> k < length (rp_thinking (w_room w i)) \<Longrightarrow> server_step w (bot_answers i k word w)"
| expires: "c < w_conns w \<Longrightarrow> ss_phase (w_sess w c) = Ended \<Longrightarrow>
    server_step w (upd_hub (hub_unregister (ss_resumeToken (w_sess w c))) w)"
| sweeps: "server_step w (sweepLimiters now w)"
| drains: "server_step w (upd_hub startDraining w)"
| shuts_down: "server_step w (shutdown ox w)"

text \<open>The server as it starts, and the worlds it can reach.\<close>

definition start_world :: "hub \<Rightarrow> world" where
  "start_world h = \<lparr>w_hub = h, w_sess = (\<lambda>_. newSession [] [] [] 0), w_conns = 0,
     w_room = (\<lambda>_. start_room (newRoom (h_dict h) [] 0 0 0 roomModePvP)), w_rooms = 0\<rparr>"

inductive server_reach :: "world \<Rightarrow> world \<Rightarrow> bool" for w0 where
  started: "server_reach w0 w0"
| stepped: "server_reach w0 w \<Longrightarrow> server_step w w' \<Longrightarrow> server_reach w0 w'"

end
