(* ===== verification/Room_Moves.thy ===== *)
theory Room_Moves
  imports Room_Loop_Inv
begin

text \<open>
  What the operations of a room do to seats and connections, and what they tell the connections about it:
  every new place comes with an \<open>Attach\<close>, every one taken back with a \<open>Release\<close> unless the connection itself is
  gone. The server needs this of its rooms; nothing here looks at the game.
\<close>

subsection \<open>Who sits where\<close>

definition sits :: "room \<Rightarrow> (player \<times> conn option) option list" where
  "sits r = map (map_option (\<lambda>s. (se_id s, se_sess s))) (rm_seats r)"

definition pairs :: "room \<Rightarrow> (conn \<times> player) set" where
  "pairs r = {(c, p). Some (p, Some c) \<in> set (sits r)}"

text \<open>A connection sits on one seat.\<close>

definition once :: "room \<Rightarrow> bool" where
  "once r \<longleftrightarrow> (\<forall>i j p q c. i < length (sits r) \<and> j < length (sits r) \<and>
     sits r ! i = Some (p, Some c) \<and> sits r ! j = Some (q, Some c) \<longrightarrow> i = j)"

lemma sits_nth: "i < length (rm_seats r) \<Longrightarrow> sits r ! i = map_option (\<lambda>s. (se_id s, se_sess s)) (rm_seats r ! i)"
  by (simp add: sits_def)

lemma sits_cong: "rm_seats r' = rm_seats r \<Longrightarrow> sits r' = sits r"
  by (simp add: sits_def)

lemma pairs_cong: "sits r' = sits r \<Longrightarrow> pairs r' = pairs r"
  by (simp add: pairs_def)

lemma once_cong: "sits r' = sits r \<Longrightarrow> once r' = once r"
  by (simp add: once_def)

lemma sits_cores: "sits r = map (map_option (\<lambda>(p, c, _, _). (p, c))) (cores r)"
  by (simp add: sits_def cores_def seat_core_def option.map_comp o_def)

lemma occupied_sits: "occupied r \<longleftrightarrow> (\<exists>x. Some x \<in> set (sits r))"
proof -
  have "occupied r \<longleftrightarrow> (\<exists>s. Some s \<in> set (rm_seats r))"
    unfolding seated_iff [symmetric] by (cases "seated r") (auto simp: occupied_def seatedCount_def)
  also have "\<dots> \<longleftrightarrow> (\<exists>x. Some x \<in> set (sits r))" by (force simp: sits_def map_option_case split: option.splits)
  finally show ?thesis .
qed

lemma pairs_connected: "pairs r = (\<lambda>(c, s). (c, se_id s)) ` set (connected r)"
proof (rule set_eqI)
  fix x
  obtain c p where x: "x = (c :: conn, p :: player)" by (cases x)
  have "(c, p) \<in> pairs r \<longleftrightarrow> (\<exists>s. Some s \<in> set (rm_seats r) \<and> se_id s = p \<and> se_sess s = Some c)"
  proof
    assume "(c, p) \<in> pairs r"
    then have "Some (p, Some c) \<in> map_option (\<lambda>s. (se_id s, se_sess s)) ` set (rm_seats r)"
      by (simp add: pairs_def sits_def)
    then obtain so where "so \<in> set (rm_seats r)" "Some (p, Some c) = map_option (\<lambda>s. (se_id s, se_sess s)) so"
      by (rule imageE)
    moreover from this(2) obtain s where "so = Some s" "se_id s = p" "se_sess s = Some c" by (cases so) auto
    ultimately show "\<exists>s. Some s \<in> set (rm_seats r) \<and> se_id s = p \<and> se_sess s = Some c" by blast
  next
    assume "\<exists>s. Some s \<in> set (rm_seats r) \<and> se_id s = p \<and> se_sess s = Some c"
    then obtain s where "Some s \<in> set (rm_seats r)" "se_id s = p" "se_sess s = Some c" by blast
    then have "map_option (\<lambda>s. (se_id s, se_sess s)) (Some s) \<in> set (sits r)" unfolding sits_def set_map by blast
    then show "(c, p) \<in> pairs r" using \<open>se_id s = p\<close> \<open>se_sess s = Some c\<close> by (simp add: pairs_def)
  qed
  also have "\<dots> \<longleftrightarrow> (\<exists>s. (c, s) \<in> set (connected r) \<and> se_id s = p)" unfolding connected_iff by auto
  finally show "x \<in> pairs r \<longleftrightarrow> x \<in> (\<lambda>(c, s). (c, se_id s)) ` set (connected r)"
    unfolding x by force
qed

subsection \<open>What the connections are told\<close>

fun quiet_effect :: "effect \<Rightarrow> bool" where
  "quiet_effect (Attach c p) = False"
| "quiet_effect (Release c) = False"
| "quiet_effect Evict = False"
| "quiet_effect _ = True"

text \<open>Where a connection believes it sits in this room.\<close>

fun move_of :: "effect \<Rightarrow> (conn \<rightharpoonup> player) \<Rightarrow> (conn \<rightharpoonup> player)" where
  "move_of (Attach c p) b = b(c \<mapsto> p)"
| "move_of (Release c) b = b(c := None)"
| "move_of _ b = b"

lemma move_quiet: "quiet_effect x \<Longrightarrow> move_of x b = b"
  by (cases x) simp_all

lemma moves_quiet: "\<forall>x \<in> set xs. quiet_effect x \<Longrightarrow> fold move_of xs b = b"
  by (induction xs) (simp_all add: move_quiet)

text \<open>
  From \<open>r\<close> to \<open>r'\<close> the effects \<open>xs\<close> were emitted. Whoever sits in \<open>r'\<close> knows where, if everybody in \<open>r\<close> did, the
  places in \<open>D\<close> excepted; only connections of \<open>A\<close> are new; whoever is attached leaves the quick-match queue.
\<close>

definition knows :: "(conn \<rightharpoonup> player) \<Rightarrow> (conn \<times> player) set \<Rightarrow> room \<Rightarrow> bool" where
  "knows b D r \<longleftrightarrow> (\<forall>(c, p) \<in> pairs r. (c, p) \<in> D \<or> b c = Some p)"

definition told :: "effect list \<Rightarrow> conn set \<Rightarrow> room \<Rightarrow> room \<Rightarrow> bool" where
  "told xs A r r' \<longleftrightarrow> rm_out r' = rm_out r @ xs \<and> rm_code r' = rm_code r \<and>
     (rm_cancelled r \<longrightarrow> rm_cancelled r') \<and>
     (\<forall>c p. Attach c p \<in> set xs \<longrightarrow> CancelQuickMatch c \<in> set xs) \<and> Evict \<notin> set xs \<and>
     (once r \<longrightarrow> once r' \<and> pairs r' \<subseteq> pairs r \<union> A \<times> UNIV \<and>
       (\<forall>b D. knows b D r \<longrightarrow> knows (fold move_of xs b) D r'))"

definition tracks :: "conn set \<Rightarrow> room \<Rightarrow> room \<Rightarrow> bool" where
  "tracks A r r' \<longleftrightarrow> (\<exists>xs. told xs A r r')"

lemma told_trans: "told xs A r a \<Longrightarrow> told ys A a r' \<Longrightarrow> told (xs @ ys) A r r'"
  unfolding told_def by (simp add: Un_assoc subset_iff) blast

lemma tracks_trans: "tracks A r a \<Longrightarrow> tracks A a r' \<Longrightarrow> tracks A r r'"
  unfolding tracks_def using told_trans by blast

lemma tracks_mono: "tracks A r r' \<Longrightarrow> A \<subseteq> B \<Longrightarrow> tracks B r r'"
proof -
  assume "tracks A r r'" and "A \<subseteq> B"
  moreover have "pairs r \<union> A \<times> UNIV \<subseteq> pairs r \<union> B \<times> (UNIV :: player set)" using \<open>A \<subseteq> B\<close> by blast
  ultimately show ?thesis unfolding tracks_def told_def by (metis (no_types, lifting) subset_trans)
qed

subsection \<open>Operations that leave the places alone\<close>

definition quiet :: "room \<Rightarrow> room \<Rightarrow> bool" where
  "quiet r r' \<longleftrightarrow> sits r' = sits r \<and> rm_code r' = rm_code r \<and> (rm_cancelled r \<longrightarrow> rm_cancelled r') \<and>
     (\<exists>xs. rm_out r' = rm_out r @ xs \<and> (\<forall>x \<in> set xs. quiet_effect x))"

lemma quiet_refl [simp]: "quiet r r"
  by (simp add: quiet_def)

lemma quiet_trans: "quiet a b \<Longrightarrow> quiet b c \<Longrightarrow> quiet a c"
  unfolding quiet_def by (auto; metis UnE append_assoc set_append)

lemma quiet_tracks: "quiet r r' \<Longrightarrow> tracks A r r'"
proof -
  assume q: "quiet r r'"
  then obtain xs where "rm_out r' = rm_out r @ xs" "\<forall>x \<in> set xs. quiet_effect x" unfolding quiet_def by blast
  moreover have "pairs r' = pairs r" "once r' = once r"
    using q by (simp_all add: quiet_def pairs_def once_def)
  moreover have "knows b D r' = knows b D r" for b D using \<open>pairs r' = pairs r\<close> by (simp add: knows_def)
  moreover have "Attach c p \<notin> set xs" "Evict \<notin> set xs" for c p using \<open>\<forall>x \<in> set xs. quiet_effect x\<close> by auto
  ultimately have "told xs A r r'" using q by (simp add: told_def quiet_def moves_quiet)
  then show ?thesis unfolding tracks_def by blast
qed

lemma quiet_emits: "(\<forall>x \<in> set xs. quiet_effect x) \<Longrightarrow> quiet r (emits xs r)"
  by (simp add: quiet_def sits_def)

lemma quiet_emit [simp]: "quiet r (emit x r) \<longleftrightarrow> quiet_effect x"
  by (auto simp: quiet_def sits_def emit_emits)

lemma quiet_emit_then: "quiet r a \<Longrightarrow> quiet_effect x \<Longrightarrow> quiet r (emit x a)"
  using quiet_trans quiet_emit by blast

lemma quiet_emits_then: "quiet r a \<Longrightarrow> (\<forall>x \<in> set xs. quiet_effect x) \<Longrightarrow> quiet r (emits xs a)"
  using quiet_trans quiet_emits by blast

lemma quiet_fold: "(\<And>x r. quiet r (f x r)) \<Longrightarrow> quiet r (fold f xs r)"
  by (induction xs arbitrary: r) (auto intro: quiet_trans)

lemma sits_fields [simp]:
  "sits (r\<lparr>rm_engine := eo\<rparr>) = sits r" "sits (r\<lparr>rm_turnSeq := n\<rparr>) = sits r"
  "sits (r\<lparr>rm_lobbyChanged := b\<rparr>) = sits r" "sits (r\<lparr>rm_outWire := m\<rparr>) = sits r"
  "sits (r\<lparr>rm_autoStart := b\<rparr>) = sits r" "sits (r\<lparr>rm_resumeReplays := js\<rparr>) = sits r"
  "sits (r\<lparr>rm_owner := p\<rparr>) = sits r" "sits (r\<lparr>rm_cancelled := b\<rparr>) = sits r"
  "sits (r\<lparr>rm_chat := xs\<rparr>) = sits r" "sits (r\<lparr>rm_chatSeq := k\<rparr>) = sits r"
  "sits (r\<lparr>rm_liveCounted := b\<rparr>) = sits r" "sits (r\<lparr>rm_strategy := d\<rparr>) = sits r"
  "sits (r\<lparr>rm_opening := w\<rparr>) = sits r" "sits (emits ys r) = sits r" "sits (emit y r) = sits r"
  by (simp_all add: sits_def)

lemma quiet_fields [simp]:
  "quiet r (a\<lparr>rm_engine := eo\<rparr>) = quiet r a" "quiet r (a\<lparr>rm_turnSeq := n\<rparr>) = quiet r a"
  "quiet r (a\<lparr>rm_lobbyChanged := b\<rparr>) = quiet r a" "quiet r (a\<lparr>rm_outWire := m\<rparr>) = quiet r a"
  "quiet r (a\<lparr>rm_autoStart := b\<rparr>) = quiet r a" "quiet r (a\<lparr>rm_resumeReplays := js\<rparr>) = quiet r a"
  "quiet r (a\<lparr>rm_owner := p\<rparr>) = quiet r a" "quiet r a \<Longrightarrow> quiet r (a\<lparr>rm_cancelled := True\<rparr>)"
  "quiet r (a\<lparr>rm_chat := xs\<rparr>) = quiet r a" "quiet r (a\<lparr>rm_chatSeq := k\<rparr>) = quiet r a"
  "quiet r (a\<lparr>rm_liveCounted := b\<rparr>) = quiet r a" "quiet r (a\<lparr>rm_opening := w\<rparr>) = quiet r a"
  by (simp_all add: quiet_def)

lemma quiet_fields_left [simp]:
  "quiet (a\<lparr>rm_engine := eo\<rparr>) r = quiet a r" "quiet (a\<lparr>rm_lobbyChanged := b\<rparr>) r = quiet a r"
  "quiet (a\<lparr>rm_turnSeq := n\<rparr>) r = quiet a r" "quiet (a\<lparr>rm_autoStart := b\<rparr>) r = quiet a r"
  by (simp_all add: quiet_def)

lemma sits_upd_seat:
  assumes "\<And>s. se_id (f s) = se_id s \<and> se_sess (f s) = se_sess s"
  shows "sits (upd_seat i f r) = sits r"
proof (cases "i < length (rm_seats r)")
  case True
  then show ?thesis using assms
    by (cases "rm_seats r ! i") (auto simp: upd_seat_def sits_def map_update list_update_same_conv)
qed (simp add: sits_def upd_seat_def list_update_beyond not_less)

lemma rm_code_upd [simp]: "rm_code (upd_seat i f r) = rm_code r" "rm_code (upd_seats g r) = rm_code r"
  "rm_out (upd_seats g r) = rm_out r"
  "rm_cancelled (upd_seat i f r) = rm_cancelled r" "rm_cancelled (upd_seats g r) = rm_cancelled r"
  by (simp_all add: upd_seat_def upd_seats_def)

lemma quiet_upd: "(\<And>s. se_id (f s) = se_id s \<and> se_sess (f s) = se_sess s) \<Longrightarrow> quiet r (upd_seat i f r)"
  by (simp add: quiet_def sits_upd_seat)

lemma quiet_upds: "(\<And>s. se_id (f s) = se_id s \<and> se_sess (f s) = se_sess s) \<Longrightarrow> quiet r (upd_seats f r)"
  by (simp add: quiet_def sits_def upd_seats_def option.map_comp o_def)


subsection \<open>Talking\<close>

lemma quiet_reply [simp]: "quiet r (reply c code r)"
  by (simp add: reply_def)

lemma quiet_broadcastError [simp]: "quiet r (broadcastError code r)"
  unfolding broadcastError_def by (rule quiet_emits) auto

lemma quiet_broadcastTurn [simp]: "quiet r (broadcastTurn e mo r)"
  unfolding broadcastTurn_def Let_def by (rule quiet_emits) (auto simp: sendTurnUpdate_def)

lemma quiet_broadcastElimination [simp]: "quiet r (broadcastElimination e p sug r)"
  unfolding broadcastElimination_def Let_def by (rule quiet_emits) auto

lemma quiet_sendChatHistory [simp]: "quiet r (sendChatHistory so r)"
  by (simp add: sendChatHistory_def split: option.splits)

lemma quiet_maybeScheduleBot [simp]: "quiet r (maybeScheduleBot e r)"
  by (simp add: maybeScheduleBot_def)

lemma quiet_recordRejection [simp]: "quiet r (recordRejection ev e reason w r)"
  unfolding recordRejection_def Let_def by (rule quiet_emits) simp

lemma quiet_reportWord [simp]: "quiet r (handleReportWord c w r)"
  unfolding handleReportWord_def Let_def by (rule quiet_emits) simp

lemma quiet_broadcastRoomState [simp]: "quiet r (broadcastRoomState r)"
  unfolding broadcastRoomState_def by (rule quiet_emits) auto

lemma quiet_stopCountingLive [simp]: "quiet r (stopCountingLive r)"
  by (simp add: stopCountingLive_def quiet_def sits_def emit_emits)

lemma quiet_give_result: "quiet r (give_result msg i r)"
proof (cases "rm_seats r ! i")
  case (Some s)
  have "quiet r (upd_seat i (\<lambda>s. s\<lparr>se_missedResult := g s\<rparr>) r)" for g by (rule quiet_upd) simp
  then have "quiet r (emit (Send c m) (upd_seat i (\<lambda>s. s\<lparr>se_missedResult := None\<rparr>) r))" for c m
    using quiet_trans [OF _ quiet_emit [THEN iffD2]] by simp
  with Some \<open>\<And>g. quiet r (upd_seat i (\<lambda>s. s\<lparr>se_missedResult := g s\<rparr>) r)\<close> show ?thesis
    by (simp add: give_result_def split: option.split)
qed (simp add: give_result_def)

lemma quiet_credit_win: "quiet r (credit_win p r)"
  by (auto simp: credit_win_def intro: quiet_upd split: option.split)

lemma quiet_broadcastGameOver [simp]: "quiet r (broadcastGameOver e st r)"
proof -
  have "quiet r (stopCountingLive (emit (Count gamesFinished) r))"
    by (rule quiet_trans [OF _ quiet_stopCountingLive]) simp
  then have "quiet r (fold (give_result m) js (credit_win p (stopCountingLive (emit (Count gamesFinished) r))))" for m js p
    using quiet_trans quiet_credit_win quiet_fold [of "give_result m", OF quiet_give_result] by blast
  then show ?thesis by (simp add: broadcastGameOver_def Let_def)
qed

lemma quiet_applyEliminations [simp]: "quiet r (applyEliminations before r)"
proof (cases "rm_engine r")
  case (Some e)
  have f: "quiet r (fold (\<lambda>p. broadcastElimination e p sug) ps r)" for sug ps by (rule quiet_fold) simp
  have t: "quiet r a \<Longrightarrow> quiet r (broadcastTurn e None a)" and o: "quiet r a \<Longrightarrow> quiet r (broadcastGameOver e st a)" for a st
    using quiet_trans by (blast intro: quiet_broadcastTurn, blast intro: quiet_broadcastGameOver)
  show ?thesis using f by (simp add: applyEliminations_def Some Let_def t o)
qed (simp add: applyEliminations_def)

lemma quiet_beginGame [simp]: "quiet r (snd (beginGame ev r))"
proof -
  have "quiet r (maybeScheduleBot e' (emits (map (\<lambda>cs. sendGameStarted e' st cs z) ys)
      ((emits [Count gamesStarted, HubGameStarted] (upd_seats (\<lambda>s. s\<lparr>se_ready := False, se_missedResult := None\<rparr>)
        (r\<lparr>rm_engine := Some e', rm_opening := w, rm_outWire := Map.empty, rm_turnSeq := n\<rparr>)))\<lparr>rm_liveCounted := True\<rparr>)))"
    for e' st z ys w n
    by (rule quiet_trans [OF quiet_trans [OF _ quiet_emits] quiet_maybeScheduleBot], simp_all)
      (auto simp: sendGameStarted_def intro!: quiet_trans [OF quiet_trans [OF _ quiet_upds] quiet_emits])
  then show ?thesis by (simp add: beginGame_def Let_def split: option.split sum.split)
qed


subsection \<open>Moving\<close>

lemma once_update:
  assumes "once r" and "sits r' = (sits r)[i := x]" and "\<And>p c. x = Some (p, Some c) \<Longrightarrow> c \<notin> fst ` pairs r"
  shows "once r'"
  unfolding once_def
proof (intro allI impI)
  fix j k p q c
  assume h: "j < length (sits r') \<and> k < length (sits r') \<and> sits r' ! j = Some (p, Some c) \<and> sits r' ! k = Some (q, Some c)"
  have new: "sits r ! m \<noteq> Some (q', Some c)" if "x = Some (p', Some c)" "m < length (sits r)" for m p' q'
    using assms(3) [OF that(1)] that(2) nth_mem [OF that(2)] by (force simp: pairs_def)
  have old: "j = k" if "sits r ! j = Some (p, Some c)" "sits r ! k = Some (q, Some c)"
    using assms(1,2) h that unfolding once_def by simp
  show "j = k"
  proof (cases "j = i \<or> k = i")
    case True
    then show ?thesis using h new [of p k q] new [of q j p] unfolding assms(2)
      by (auto simp: nth_list_update split: if_splits)
  next
    case False
    then show ?thesis using h old unfolding assms(2) by simp
  qed
qed

lemma pairs_update:
  assumes "sits r' = (sits r)[i := x]"
  shows "pairs r' \<subseteq> pairs r \<union> {(c, p). x = Some (p, Some c)}"
  using set_update_subset_insert [of "sits r" i x] unfolding pairs_def assms by auto

text \<open>A seat is emptied, and its connection released.\<close>

lemma pairs_cleared:
  assumes "once r" and "i < length (sits r)" and "sits r ! i = Some (p, Some c)"
    and "sits r' = (sits r)[i := x]" and "\<And>q. x \<noteq> Some (q, Some c)"
  shows "c \<notin> fst ` pairs r'"
proof
  assume "c \<in> fst ` pairs r'"
  then obtain q where "Some (q, Some c) \<in> set ((sits r)[i := x])" by (auto simp: pairs_def assms(4))
  then obtain j where j: "j < length (sits r)" "(sits r)[i := x] ! j = Some (q, Some c)"
    by (auto simp: in_set_conv_nth)
  with assms(5) have "j \<noteq> i" by auto
  with j have "sits r ! j = Some (q, Some c)" by simp
  with assms(1-3) j(1) have "j = i" unfolding once_def by blast
  with \<open>j \<noteq> i\<close> show False ..
qed

lemma tracks_clear:
  assumes "i < length (sits r)" and "sits r' = (sits r)[i := x]" and "x = None \<or> x = Some (p, None)"
    and "rm_out r' = rm_out r @ xs" and "rm_code r' = rm_code r \<and> rm_cancelled r' = rm_cancelled r"
    and xs: "xs = [] \<or> (\<exists>c q. xs = [Release c] \<and> sits r ! i = Some (q, Some c))"
  shows "tracks {} r r'"
proof -
  have sub: "pairs r' \<subseteq> pairs r" using pairs_update [OF assms(2)] assms(3) by auto
  have once: "once r \<Longrightarrow> once r'" by (rule once_update [OF _ assms(2)]) (use assms(3) in auto)
  have "knows (fold move_of xs b) D r'" if "once r" "knows b D r" for b D
    using xs
  proof
    assume "xs = []"
    then show ?thesis using that(2) sub by (auto simp: knows_def)
  next
    assume "\<exists>c q. xs = [Release c] \<and> sits r ! i = Some (q, Some c)"
    then obtain c q where c: "xs = [Release c]" "sits r ! i = Some (q, Some c)" by blast
    have "c \<notin> fst ` pairs r'"
      by (rule pairs_cleared [OF that(1) assms(1) c(2) assms(2)]) (use assms(3) in auto)
    then have ne: "d \<noteq> c" if "(d, q) \<in> pairs r'" for d q using that by force
    have "(d, q) \<in> D \<or> fold move_of xs b d = Some q" if m: "(d, q) \<in> pairs r'" for d q
      using \<open>knows b D r\<close> subsetD [OF sub m] ne [OF m] by (auto simp: knows_def c(1))
    then show ?thesis by (auto simp: knows_def)
  qed
  then have "told xs {} r r'" using sub once xs assms(4,5) by (auto simp: told_def)
  then show ?thesis unfolding tracks_def by blast
qed

text \<open>A connection that sits nowhere in the room takes a seat.\<close>

lemma tracks_seat:
  assumes "c \<notin> fst ` pairs r" and "sits r' = (sits r)[i := x]"
    and "x = Some (p, if gone then None else Some c)"
    and "rm_out r' = rm_out r @ xs @ [Attach c p, CancelQuickMatch c] @ ys" and "rm_code r' = rm_code r \<and> rm_cancelled r' = rm_cancelled r"
    and "\<forall>y \<in> set (xs @ ys). quiet_effect y"
  shows "tracks (if gone then {} else {c}) r r'"
proof -
  let ?zs = "xs @ [Attach c p, CancelQuickMatch c] @ ys"
  have sub: "pairs r' \<subseteq> pairs r \<union> (if gone then {} else {(c, p)})"
    using pairs_update [OF assms(2)] assms(3) by (auto split: if_splits)
  have once: "once r \<Longrightarrow> once r'"
    by (rule once_update [OF _ assms(2)]) (use assms(1,3) in \<open>auto split: if_splits\<close>)
  have moves: "fold move_of ?zs b = b(c \<mapsto> p)" for b using assms(6) by (simp add: moves_quiet)
  have ne: "d \<noteq> c" if "(d, q) \<in> pairs r" for d q using assms(1) that by force
  have "(d, q) \<in> D \<or> (b(c \<mapsto> p)) d = Some q" if k: "knows b D r" and m: "(d, q) \<in> pairs r'" for b D d q
  proof (cases "(d, q) \<in> pairs r")
    case True
    then show ?thesis using k ne [OF True] by (auto simp: knows_def)
  next
    case False
    then show ?thesis using m sub by (auto split: if_splits)
  qed
  then have "knows (b(c \<mapsto> p)) D r'" if "knows b D r" for b D using that unfolding knows_def by blast
  moreover have "Attach d q \<notin> set xs" "Attach d q \<notin> set ys" for d q
    using assms(6) quiet_effect.simps(1) [of d q] by (metis UnI1 set_append, metis UnI2 set_append)
  moreover have "Evict \<notin> set xs" "Evict \<notin> set ys" using assms(6) quiet_effect.simps(3) by (metis UnI1 set_append, metis UnI2 set_append)
  ultimately have "told ?zs (if gone then {} else {c}) r r'"
    using sub once assms(4,5) unfolding told_def moves by (auto split: if_splits)
  then show ?thesis unfolding tracks_def by blast
qed


subsection \<open>The handlers\<close>

lemma quiet_handleSubmit: "quiet r (handleSubmit ev c p raw seq r)"
proof -
  have e: "quiet r (applyEliminations before (emit (Send c m) (recordRejection ev e' reason w (a\<lparr>rm_engine := eo\<rparr>))))"
    if "quiet r a" for before m e' reason w a eo
    by (rule quiet_trans [OF _ quiet_applyEliminations], rule quiet_trans [OF _ quiet_emit [THEN iffD2]],
        rule quiet_trans [OF _ quiet_recordRejection]) (use that in simp_all)
  have b: "quiet r (maybeScheduleBot e' (broadcastTurn e' mo a))" if "quiet r a" for e' mo a
    by (rule quiet_trans [OF quiet_trans [OF that quiet_broadcastTurn] quiet_maybeScheduleBot])
  have s: "quiet r (emit (Send c m) (recordRejection ev e' reason w (emit (Count k) r)))" for m e' reason w k
    by (rule quiet_trans [OF _ quiet_emit [THEN iffD2]], rule quiet_trans [OF _ quiet_recordRejection]) simp_all
  have w: "quiet r (emit (Count k) ((emit (Count l) r)\<lparr>rm_engine := eo\<rparr>))" for k l eo
    by (intro quiet_emit_then) simp_all
  show ?thesis
    unfolding handleSubmit_def Let_def
    by (simp add: s split: option.split prod.split) (auto intro!: e b w)
qed


lemma quiet_eliminations_then: "quiet r a \<Longrightarrow> quiet r (applyEliminations before a)"
  using quiet_trans quiet_applyEliminations by blast

lemma quiet_handleBotMove: "quiet r (handleBotMove ev chosen seq r)"
proof -
  define a where "a = (case rm_strategy r of None \<Rightarrow> r | Some d \<Rightarrow> emit (Count (botMoves d)) r)"
  have a: "quiet r a" by (simp add: a_def split: option.split)
  have t: "quiet r b \<Longrightarrow> quiet r (broadcastTurn e mo b)" for b e mo
    using quiet_trans quiet_broadcastTurn by blast
  show ?thesis
    unfolding handleBotMove_def Let_def a_def [symmetric]
    by (auto intro!: t quiet_eliminations_then simp: a split: option.split prod.split)
qed

lemma quiet_handleResign: "quiet r (handleResign ev c p r)"
  by (auto simp: handleResign_def Let_def intro!: quiet_eliminations_then split: option.split prod.split)

lemma quiet_handleClaimDeadEnd: "quiet r (handleClaimDeadEnd ev c p r)"
proof -
  have w: "quiet r ((emit (Count k) r)\<lparr>rm_engine := eo\<rparr>)" for k eo by simp
  show ?thesis
    by (auto simp: handleClaimDeadEnd_def Let_def intro!: quiet_eliminations_then
        quiet_trans [OF quiet_emit [THEN iffD2] quiet_reply] split: option.split prod.split)
qed

lemma quiet_turn_expired: "quiet r (turn_expired ev r)"
  by (auto simp: turn_expired_def Let_def intro!: quiet_eliminations_then split: option.split prod.split)

lemma quiet_handleChat: "quiet r (handleChat ev c p raw r)"
  by (auto simp: handleChat_def Let_def intro!: quiet_emits_then)

lemma quiet_eliminateAbsent: "quiet r (eliminateAbsent ev p r)"
  by (simp add: eliminateAbsent_def split: option.split)

lemma quiet_promote: "quiet r (promote r)"
  by (auto simp: promote_def intro!: quiet_trans [OF _ quiet_upd] split: option.split)

text \<open>The operations that give and take places.\<close>

lemma sits_emptied: "sits (emptied i p r) = (sits r)[i := None]"
  by (simp add: sits_def emptied_def map_update)

lemma vacate_form:
  assumes "rm_seats r ! i = Some s"
  shows "\<exists>b. vacate i r = (if rm_owner b = se_id s then promote b else b) \<and>
    quiet (emits (case se_sess s of None \<Rightarrow> [] | Some c \<Rightarrow> [Release c]) (emptied i (se_id s) r)) b"
proof -
  define xs where "xs = (case se_sess s of None \<Rightarrow> [] | Some c \<Rightarrow> [Release c])"
  define a where "a = emits xs (emptied i (se_id s) r)"
  define b where "b = (if list_ex (\<lambda>entry. ce_author entry = se_id s) (rm_chat r)
      then fold sendChatHistory (rm_seats a) a else a)"
  have rel: "(case se_sess s of None \<Rightarrow> r | Some c \<Rightarrow> emit (Release c) r) = emits xs r"
    by (simp add: xs_def emit_emits split: option.split)
  have aeq: "(emits xs r)\<lparr>rm_seats := (rm_seats r)[i := None], rm_chat := map (scrub (se_id s)) (rm_chat r)\<rparr> = a"
    by (cases r) (simp add: a_def emptied_def emits_def)
  have "vacate i r = (if rm_owner b = se_id s then promote b else b)"
    unfolding vacate_def assms option.case Let_def rel emits_fields by (simp add: aeq b_def)
  moreover have "quiet a b" by (simp add: b_def quiet_fold)
  ultimately show ?thesis unfolding xs_def [symmetric] a_def [symmetric] by blast
qed

lemma tracks_vacate:
  assumes i: "i < length (rm_seats r)"
  shows "tracks {} r (vacate i r)"
proof (cases "rm_seats r ! i")
  case (Some s)
  define xs where "xs = (case se_sess s of None \<Rightarrow> [] | Some c \<Rightarrow> [Release c])"
  obtain b where b: "vacate i r = (if rm_owner b = se_id s then promote b else b)"
      "quiet (emits xs (emptied i (se_id s) r)) b"
    using vacate_form [OF Some] unfolding xs_def by blast
  have "tracks {} r (emits xs (emptied i (se_id s) r))"
  proof (rule tracks_clear)
    show "sits (emits xs (emptied i (se_id s) r)) = (sits r)[i := None]" by (simp add: sits_emptied)
    show "xs = [] \<or> (\<exists>c q. xs = [Release c] \<and> sits r ! i = Some (q, Some c))"
      using i Some by (auto simp: xs_def sits_nth split: option.split)
  qed (use i in \<open>simp_all add: emptied_def sits_def\<close>)
  moreover have "quiet b (vacate i r)" unfolding b(1) by (simp add: quiet_promote)
  ultimately show ?thesis using b(2) quiet_tracks tracks_trans by blast
qed (simp add: vacate_def quiet_tracks)

lemma length_vacate [simp]: "length (rm_seats (vacate i r)) = length (rm_seats r)"
proof (cases "rm_seats r ! i")
  case (Some s)
  obtain b where b: "vacate i r = (if rm_owner b = se_id s then promote b else b)"
      "quiet (emits (case se_sess s of None \<Rightarrow> [] | Some c \<Rightarrow> [Release c]) (emptied i (se_id s) r)) b"
    using vacate_form [OF Some] by blast
  have "sits (vacate i r) = (sits r)[i := None]"
    using b quiet_promote [of b] by (auto simp: quiet_def sits_emptied)
  then have "length (sits (vacate i r)) = length (sits r)" by simp
  then show ?thesis by (simp add: sits_def)
qed (simp add: vacate_def)

lemma tracks_vacate_all: "\<forall>i \<in> set js. i < length (rm_seats r) \<Longrightarrow> tracks {} r (fold vacate js r)"
proof (induction js arbitrary: r)
  case (Cons j js)
  then show ?case using tracks_trans [OF tracks_vacate Cons.IH] by simp
qed (simp add: quiet_tracks)

text \<open>A seat is held: it stays, its connection does not.\<close>

lemma sits_holdSeat:
  "i < length (rm_seats r) \<Longrightarrow> rm_seats r ! i = Some s \<Longrightarrow> sits (holdSeat ev i r) = (sits r)[i := Some (se_id s, None)]"
  by (simp add: holdSeat_def upd_seat_def sits_def map_update)

lemma tracks_holdSeat:
  assumes "i < length (rm_seats r)" and "rm_seats r ! i = Some s"
  shows "tracks {} r (holdSeat ev i r)"
  by (rule tracks_clear [OF _ sits_holdSeat [OF assms], where xs = "[]"])
    (use assms in \<open>simp_all add: sits_def holdSeat_def\<close>)

lemma tracks_handleDisconnect: "tracks {} r (handleDisconnect ev p c r)"
  using seatOf_Some [of r p] tracks_holdSeat [of _ r] quiet_tracks [OF quiet_refl]
  by (auto simp: handleDisconnect_def split: option.split)

text \<open>After its notice a connection does not sit where it was.\<close>

lemma sits_holds: "i < length (sits r) \<and> sits r ! i = Some (p, co) \<longleftrightarrow> (\<exists>rd k. holds r i p co rd k)"
proof -
  have "i < length (sits r) \<and> sits r ! i = Some (p, co) \<longleftrightarrow>
      i < length (cores r) \<and> map_option (\<lambda>(p, c, _, _). (p, c)) (cores r ! i) = Some (p, co)"
    by (auto simp: sits_cores)
  also have "\<dots> \<longleftrightarrow> (\<exists>rd k. holds r i p co rd k)" by (cases "cores r ! i") (auto simp: holds_def)
  finally show ?thesis .
qed

lemma pairs_holds: "(c, p) \<in> pairs r \<longleftrightarrow> (\<exists>i rd k. holds r i p (Some c) rd k)"
  unfolding sits_holds [symmetric] by (auto simp: pairs_def in_set_conv_nth)

lemma once_base: "seat_base r \<Longrightarrow> once r"
proof -
  assume "seat_base r"
  then have u: "holds r i p (Some c) rd k \<Longrightarrow> holds r j q (Some c) rd' k' \<Longrightarrow> i = j" for i j p q c rd rd' k k'
    unfolding seat_base_def by blast
  show ?thesis unfolding once_def
  proof (intro allI impI)
    fix i j p q c
    assume h: "i < length (sits r) \<and> j < length (sits r) \<and> sits r ! i = Some (p, Some c) \<and> sits r ! j = Some (q, Some c)"
    with sits_holds [of i r p "Some c"] sits_holds [of j r q "Some c"] show "i = j" using u by blast
  qed
qed

text \<open>After its notice a connection does not sit where it was.\<close>

lemma handleDisconnect_clears:
  assumes inv: "seat_inv r"
  shows "(c, p) \<notin> pairs (handleDisconnect ev p c r)"
proof
  assume m: "(c, p) \<in> pairs (handleDisconnect ev p c r)"
  have base: "seat_base r" using inv by (simp add: seat_inv_split)
  have "tracks {} r (handleDisconnect ev p c r)" by (rule tracks_handleDisconnect)
  then have "(c, p) \<in> pairs r" using m once_base [OF base] by (auto simp: tracks_def told_def)
  then obtain j rd k where j: "holds r j p (Some c) rd k" by (auto simp: pairs_holds)
  then obtain i where i: "seatOf r p = Some i"
    using seatOf_None [of r p] by (cases "seatOf r p") (force simp: holds_iff seat_core_def dest: nth_mem)+
  have "i = j" by (rule holds_inj [OF inv holds_seatOf [OF inv i] j])
  with j holds_fun [OF j holds_seatOf [OF inv i, unfolded \<open>i = j\<close>]] have c: "se_sess (seat_at r i) = Some c" by simp
  note si = seatOf_Some [OF i]
  have h: "handleDisconnect ev p c r = holdSeat ev i r" by (simp add: handleDisconnect_def i c)
  have "i < length (sits r)" "sits r ! i = Some (p, Some c)" using si c by (simp_all add: sits_nth) (simp add: sits_def)
  then have "c \<notin> fst ` pairs (holdSeat ev i r)"
    by (rule pairs_cleared [OF once_base [OF base] _ _ sits_holdSeat [OF si(1,2)]]) simp
  with m h show False by force
qed


subsection \<open>Coming, going, coming back\<close>

lemma sits_sat: "i < length (rm_seats r) \<Longrightarrow> sits (sat i n c r) = (sits r)[i := Some (seatIDs ! i, Some c)]"
  by (simp add: sits_def sat_def map_update)

lemma sat_code [simp]: "rm_code (sat i n c r) = rm_code r" "rm_out (sat i n c r) = rm_out r"
  "rm_cancelled (sat i n c r) = rm_cancelled r"
  by (simp_all add: sat_def)

lemma tracks_takeSeat:
  assumes "c \<notin> fst ` pairs r" and "i < length (rm_seats r)"
  shows "tracks {c} r (takeSeat i n c r)"
proof -
  have "tracks (if False then {} else {c}) r (takeSeat i n c r)"
    by (rule tracks_seat [OF assms(1) _ refl, where i = i and xs = "[]" and ys = "[]" and p = "seatIDs ! i"])
      (simp_all add: takeSeat_sat sits_sat assms(2))
  then show ?thesis by simp
qed

lemma tracks_takeSeat_hold:
  assumes "c \<notin> fst ` pairs r" and "i < length (rm_seats r)"
  shows "tracks {} r (holdSeat ev i ((takeSeat i n c r)\<lparr>rm_owner := p, rm_autoStart := b, rm_lobbyChanged := b'\<rparr>))"
proof -
  define a where "a = (takeSeat i n c r)\<lparr>rm_owner := p, rm_autoStart := b, rm_lobbyChanged := b'\<rparr>"
  have a: "rm_seats a = (rm_seats r)[i := Some (the (rm_seats (sat i n c r) ! i))]" "rm_code a = rm_code r" "rm_cancelled a = rm_cancelled r"
    "rm_out a = rm_out r @ [Attach c (seatIDs ! i), CancelQuickMatch c]"
    using assms(2) by (simp_all add: a_def takeSeat_sat) (simp_all add: sat_def emits_def)
  have id: "se_id (the (rm_seats (sat i n c r) ! i)) = seatIDs ! i" using assms(2) by (simp add: sat_def)
  have "sits (holdSeat ev i a) = (sits a)[i := Some (seatIDs ! i, None)]"
    using sits_holdSeat [of i a] a(1) assms(2) id by simp
  moreover have "(sits a)[i := y] = (sits r)[i := y]" for y by (simp add: sits_def a(1) map_update)
  ultimately have si: "sits (holdSeat ev i a) = (sits r)[i := Some (seatIDs ! i, None)]" by simp
  have out: "rm_out (holdSeat ev i a) = rm_out a" "rm_code (holdSeat ev i a) = rm_code a"
      "rm_cancelled (holdSeat ev i a) = rm_cancelled a"
    by (simp_all add: holdSeat_def)
  have "tracks (if True then {} else {c}) r (holdSeat ev i a)"
    by (rule tracks_seat [OF assms(1) _ refl, where i = i and xs = "[]" and ys = "[]" and p = "seatIDs ! i"])
      (simp_all add: si a out)
  then show ?thesis unfolding a_def by simp
qed

lemma tracks_handleCreate:
  assumes "\<not> occupied r" and "0 < length (rm_seats r)"
  shows "tracks (if ev_closed ev c then {} else {c}) r (handleCreate ev c auto r)"
proof -
  have new: "c \<notin> fst ` pairs r" using assms(1) by (auto simp: occupied_sits pairs_def)
  define a where "a = (takeSeat 0 (ev_nickname ev c) c r)\<lparr>rm_owner := seatIDs ! 0, rm_autoStart := auto, rm_lobbyChanged := True\<rparr>"
  have "quiet (takeSeat 0 (ev_nickname ev c) c r) a" by (simp add: a_def)
  then have "tracks {c} r (sendChatHistory so a)" for so
    by (intro tracks_trans [OF tracks_takeSeat [OF new assms(2)] quiet_tracks] quiet_trans [OF _ quiet_sendChatHistory])
  then show ?thesis using tracks_takeSeat_hold [OF new assms(2)] by (simp add: handleCreate_def Let_def a_def)
qed

lemma quiet_begin: "quiet a (let (ok, r) = beginGame ev a in if ok then r else broadcastError code r)"
  using quiet_beginGame [of a ev] quiet_trans [OF _ quiet_broadcastError] by (cases "beginGame ev a") auto

lemma tracks_handleStartBot:
  assumes "\<not> occupied r" and "1 < length (rm_seats r)"
  shows "tracks {c} r (handleStartBot ev c d r)"
proof -
  define bot where "bot = \<lparr>se_id = botPlayerID, se_nickname = botName, se_sess = None, se_ready = False,
    se_chatFrom = 0, se_wins = 0, se_graceUntil = None, se_heldFor = None, se_missedResult = None\<rparr>"
  define z where "z = r\<lparr>rm_strategy := Some d\<rparr>"
  define a where "a = takeSeat 0 (ev_nickname ev c) c z"
  define b where "b = a\<lparr>rm_seats := (rm_seats a)[1 := Some bot], rm_owner := seatIDs ! 0\<rparr>"
  have "quiet r z" by (simp add: z_def quiet_def)
  moreover have "tracks {c} z a"
    unfolding a_def by (rule tracks_takeSeat) (use assms in \<open>auto simp: occupied_sits pairs_def z_def\<close>)
  moreover have "tracks {} a b"
    by (rule tracks_clear [where i = 1 and x = "Some (botPlayerID, None)" and xs = "[]"])
      (use assms in \<open>simp_all add: b_def a_def z_def sits_def map_update bot_def takeSeat_def emits_def Let_def\<close>)
  ultimately have rb: "tracks {c} r b" using quiet_tracks tracks_trans tracks_mono [of "{}" a b "{c}"] by blast
  have h: "handleStartBot ev c d r = (if ev_closed ev c then b\<lparr>rm_cancelled := True\<rparr>
      else let (ok, r) = beginGame ev b in if ok then r else (reply c codeGameStartFailed r)\<lparr>rm_cancelled := True\<rparr>)"
    by (simp add: handleStartBot_def Let_def z_def a_def b_def bot_def)
  have "quiet b (handleStartBot ev c d r)"
    unfolding h using quiet_beginGame [of b ev] quiet_trans [OF _ quiet_reply] by (cases "beginGame ev b") auto
  then show ?thesis using rb quiet_tracks tracks_trans by blast
qed

lemma tracks_handleJoin:
  "tracks (if ev_closed ev c then {} else {c}) r (handleJoin ev c r)"
proof -
  define z where "z = r\<lparr>rm_autoStart := False\<rparr>"
  have rz: "quiet r z" by (simp add: z_def)
  have rep: "tracks A r (reply c code b)" if "quiet r b" for A code b
    by (rule quiet_tracks [OF quiet_trans [OF that quiet_reply]])
  show ?thesis
  proof (cases "occupied z \<and> freeSeat z \<noteq> None \<and> inLobby z \<and> c \<notin> fst ` set (connected z)")
    case False
    have "quiet r (emit (Count joinsRefusedFull) z)" by (rule quiet_emit_then [OF rz]) simp
    then show ?thesis using False rz
      by (auto simp: handleJoin_def Let_def z_def [symmetric] intro!: rep split: option.split)
  next
    case True
    then obtain i where i: "freeSeat z = Some i" by auto
    have new: "c \<notin> fst ` pairs z" using True by (simp add: pairs_connected image_image case_prod_beta)
    note len = freeSeat_Some [OF i, THEN conjunct1]
    define n where "n = distinguish (ev_nickname ev c) (takenNicknames z)"
    define a where "a = (takeSeat i n c z)\<lparr>rm_lobbyChanged := True\<rparr>"
    define b where "b = sendChatHistory (rm_seats a ! i) a"
    have held: "tracks {} z (holdSeat ev i a)"
      using tracks_takeSeat_hold [OF new len, where ev = ev and n = n and p = "rm_owner (takeSeat i n c z)"
          and b = "rm_autoStart (takeSeat i n c z)" and b' = True]
      by (simp add: a_def)
    have "quiet (takeSeat i n c z) b" unfolding b_def by (rule quiet_trans [OF _ quiet_sendChatHistory]) (simp add: a_def)
    then have zb: "tracks {c} z b" using tracks_takeSeat [OF new len] quiet_tracks tracks_trans by blast
    have bc: "quiet b (let (ok, y) = beginGame ev (broadcastRoomState (b\<lparr>rm_lobbyChanged := False\<rparr>))
        in if ok then y else broadcastError code y)" for code
      by (rule quiet_trans [OF _ quiet_begin], rule quiet_trans [OF _ quiet_broadcastRoomState]) simp
    have free: "(if occupied z then freeSeat z else None) = Some i" using True i by simp
    define r' where "r' = (\<lambda>auto. if auto then if ev_draining ev then broadcastError codeServerRestarting b
        else let (ok, y) = beginGame ev (broadcastRoomState (b\<lparr>rm_lobbyChanged := False\<rparr>))
          in if ok then y else broadcastError codeGameStartFailed y else b)" for auto
    have h: "handleJoin ev c r = (if ev_closed ev c then holdSeat ev i a
        else r' (rm_autoStart r \<and> minPlayers \<le> seatedCount b \<and> allConnected b))"
      unfolding handleJoin_def Let_def z_def [symmetric] free option.case using True
      by (simp add: n_def [symmetric] a_def [symmetric] b_def [symmetric] r'_def Let_def)
    have "quiet b (r' auto)" for auto using bc by (simp add: r'_def)
    then have "tracks {c} z (r' auto)" for auto using zb quiet_tracks tracks_trans by blast
    then show ?thesis unfolding h using held tracks_trans [OF quiet_tracks [OF rz]] by simp
  qed
qed


lemma tracks_handleResume:
  assumes new: "c \<notin> fst ` pairs r"
  shows "tracks (if ev_closed ev c then {} else {c}) r (handleResume ev p c prior r)"
proof (cases "seatOf r p")
  case None
  then show ?thesis by (simp add: handleResume_def quiet_tracks)
next
  case (Some i)
  note si = seatOf_Some [OF Some]
  show ?thesis
  proof (cases "se_sess (seat_at r i) \<noteq> Some prior \<and> (se_sess (seat_at r i) \<noteq> None \<or> se_heldFor (seat_at r i) \<noteq> Some prior)")
    case True
    then show ?thesis using Some by (simp add: handleResume_def quiet_tracks)
  next
    case False
    define xs where "xs = [Count resumesSucceeded, Attach c p, CancelQuickMatch c, Unregister prior, CloseSession prior]"
    define a where "a = (upd_seat i (\<lambda>s. s\<lparr>se_sess := Some c, se_heldFor := None, se_graceUntil := None\<rparr>)
        (emits xs r))\<lparr>rm_lobbyChanged := True\<rparr>"
    have seat: "i < length (rm_seats a)" "rm_seats a ! i = Some ((seat_at r i)\<lparr>se_sess := Some c, se_heldFor := None, se_graceUntil := None\<rparr>)"
      using si by (simp_all add: a_def upd_seat_def)
    have sa: "sits a = (sits r)[i := Some (p, Some c)]" "rm_out a = rm_out r @ xs" "rm_code a = rm_code r"
      "rm_cancelled a = rm_cancelled r"
      using si by (simp_all add: a_def upd_seat_def sits_def map_update)
    have sh: "sits (holdSeat ev i a) = (sits r)[i := Some (p, None)]"
      using sits_holdSeat [OF seat] sa(1) si(3) by simp
    have out: "rm_out (holdSeat ev i a) = rm_out a" "rm_code (holdSeat ev i a) = rm_code a"
      "rm_cancelled (holdSeat ev i a) = rm_cancelled a"
      by (simp_all add: holdSeat_def)
    have xs: "xs = [Count resumesSucceeded] @ [Attach c p, CancelQuickMatch c] @ [Unregister prior, CloseSession prior]"
      by (simp add: xs_def)
    have held: "tracks (if True then {} else {c}) r (holdSeat ev i a)"
      by (rule tracks_seat [OF new _ refl, where i = i and p = p]) (simp_all only: if_True sh out sa xs, simp_all)
    have seated: "tracks (if False then {} else {c}) r a"
      by (rule tracks_seat [OF new _ refl, where i = i and p = p]) (simp_all only: if_False sa xs, simp_all)
    define b where "b = sendChatHistory (rm_seats a ! i) a"
    have ab: "quiet a b" by (simp add: b_def)
    define g where "g = (case rm_engine b of None \<Rightarrow> b
      | Some e \<Rightarrow> (let st = Snapshot e; cs = (c, seat_at b i); r = emit (sendGameStarted e st cs b) b
           in case LastMove e of None \<Rightarrow> r
              | Some m \<Rightarrow> emit (sendTurnUpdate e st (Some m) (moveMeanings r (Some m)) cs r) r))"
    have bg: "quiet b g"
      by (auto simp: g_def Let_def sendGameStarted_def sendTurnUpdate_def intro!: quiet_emit_then split: option.split)
    have h: "handleResume ev p c prior r = (if ev_closed ev c then holdSeat ev i a
        else if inLobby b then if se_missedResult (seat_at b i) \<noteq> None
           then b\<lparr>rm_resumeReplays := rm_resumeReplays b @ [i]\<rparr> else b else g)"
      unfolding handleResume_def Some option.case Let_def if_not_P [OF False] xs_def [symmetric] a_def [symmetric]
        b_def [symmetric] g_def by simp
    have "quiet a (if inLobby b then if se_missedResult (seat_at b i) \<noteq> None
           then b\<lparr>rm_resumeReplays := rm_resumeReplays b @ [i]\<rparr> else b else g)"
      using ab quiet_trans [OF ab bg] by simp
    then have "tracks {c} a (if inLobby b then if se_missedResult (seat_at b i) \<noteq> None
           then b\<lparr>rm_resumeReplays := rm_resumeReplays b @ [i]\<rparr> else b else g)" by (rule quiet_tracks)
    then show ?thesis unfolding h using held tracks_trans [OF seated [unfolded if_False]] by simp
  qed
qed


subsection \<open>Leaving\<close>

lemma quiet_length: "quiet r r' \<Longrightarrow> length (rm_seats r') = length (rm_seats r)"
  unfolding quiet_def sits_def by (auto dest: map_eq_imp_length_eq)

lemma tracks_handleGraceExpiry: "tracks {} r (handleGraceExpiry ev r)"
proof -
  define js where "js = expired_seats ev r"
  have lt: "\<forall>i \<in> set js. i < length (rm_seats r)" by (simp add: js_def expired_seats_def)
  define a where "a = applyEliminations (mark r) (fold (\<lambda>i. eliminateAbsent ev (se_id (seat_at r i))) js r)"
  have ra: "quiet r a" unfolding a_def
    by (rule quiet_eliminations_then)
      (rule quiet_fold [of "\<lambda>i. eliminateAbsent ev (se_id (seat_at r i))", OF quiet_eliminateAbsent])
  have "tracks {} a (fold vacate js a)" by (rule tracks_vacate_all) (simp add: lt quiet_length [OF ra])
  then have "tracks {} r (fold vacate js a)" using ra quiet_tracks tracks_trans by blast
  moreover have "quiet (fold vacate js a) ((fold vacate js a)\<lparr>rm_lobbyChanged := True\<rparr>)" by simp
  ultimately have t: "tracks {} r ((fold vacate js a)\<lparr>rm_lobbyChanged := True\<rparr>)" using quiet_tracks tracks_trans by blast
  show ?thesis
  proof (cases "js = []")
    case True
    then show ?thesis by (simp add: handleGraceExpiry_def js_def quiet_tracks)
  next
    case False
    then have "handleGraceExpiry ev r = (fold vacate js a)\<lparr>rm_lobbyChanged := True\<rparr>"
      unfolding handleGraceExpiry_def Let_def js_def [symmetric] a_def by simp
    with t show ?thesis by simp
  qed
qed

lemma tracks_vacate_then:
  assumes "quiet r a" and "i < length (rm_seats r)" and "quiet (vacate i a) b"
  shows "tracks {} r b"
  using assms tracks_vacate [of i a] quiet_length [OF assms(1)] quiet_tracks tracks_trans by metis

lemma tracks_handleLobby: "tracks {} r (handleLobby ev c p act r)"
proof (cases "occupies r c p")
  case False
  then show ?thesis by (simp add: handleLobby_def quiet_tracks)
next
  case True
  then obtain m where m: "seatOf r p = Some m" "m < length (rm_seats r)" using occupiesD by blast
  have ready: "tracks {} r (lobby_ready c m o' b r)" for o' b
    by (rule quiet_tracks) (auto simp: lobby_ready_def intro: quiet_upd)
  have start: "tracks {} r (lobby_start ev c o' r)" for o'
    by (rule quiet_tracks) (simp add: lobby_start_def quiet_begin [unfolded Let_def])
  have kick: "tracks {} r (lobby_kick c m o' v r)" for o' v
    using seatOf_Some(1) [of r v]
    by (auto simp: lobby_kick_def Let_def quiet_tracks intro!: tracks_vacate_then [OF quiet_refl] split: option.split)
  have leave: "tracks {} r (lobby_leave ev c m r)"
  proof -
    have "tracks {} r ((vacate m a)\<lparr>rm_lobbyChanged := True\<rparr>)" if "quiet r a" for a
      by (rule tracks_vacate_then [OF that m(2)]) simp
    then show ?thesis unfolding lobby_leave_def Let_def
      by (simp add: quiet_tracks quiet_eliminations_then [OF quiet_eliminateAbsent])
  qed
  show ?thesis using ready start kick leave
    by (simp add: handleLobby_def m Let_def quiet_tracks split: lobbyAction.split)
qed

subsection \<open>A turn of the loop\<close>

text \<open>Who may be sitting in the room after an input that was not before.\<close>

fun newcomers :: "env \<Rightarrow> room_input \<Rightarrow> conn set" where
  "newcomers ev (createInput c auto) = (if ev_closed ev c then {} else {c})"
| "newcomers ev (startBotInput c d) = {c}"
| "newcomers ev (joinInput c) = (if ev_closed ev c then {} else {c})"
| "newcomers ev (resumeInput p c prior) = (if ev_closed ev c then {} else {c})"
| "newcomers ev m = {}"

lemma tracks_handle:
  assumes "admissible (Input m) r" and "length (rm_seats r) = maxPlayers"
  shows "tracks (newcomers ev m) r (handle ev m r)"
proof -
  have "0 < length (rm_seats r)" "1 < length (rm_seats r)" using assms(2) by (simp_all add: maxPlayers_def)
  then show ?thesis
    using assms(1) tracks_handleCreate [of r ev] tracks_handleStartBot [of r]
    by (cases m) (simp_all add: handle_def tracks_handleJoin tracks_handleLobby tracks_handleDisconnect
        tracks_handleResume pairs_connected image_image case_prod_beta quiet_tracks quiet_handleSubmit quiet_handleBotMove
        quiet_handleChat quiet_handleResign quiet_handleClaimDeadEnd)
qed


lemma quiet_flush_lobby: "quiet r (flush_lobby r)"
proof -
  have one: "quiet a (flush_one i a)" for i a
  proof (cases "rm_seats a ! i")
    case (Some s)
    have "quiet a (upd_seat i (\<lambda>s. s\<lparr>se_missedResult := None\<rparr>) (emit (Send c m) a))" for c m
      by (rule quiet_trans [OF quiet_emit [THEN iffD2] quiet_upd]) simp_all
    with Some show ?thesis by (simp add: flush_one_def split: option.split)
  qed (simp add: flush_one_def)
  have "quiet a (flushResumeReplays a)" for a
    by (simp add: flushResumeReplays_def quiet_fold [of flush_one, OF one])
  moreover have "quiet r (broadcastRoomState (r\<lparr>rm_lobbyChanged := False\<rparr>))"
    by (rule quiet_trans [OF _ quiet_broadcastRoomState]) simp
  ultimately show ?thesis using quiet_trans by (simp add: flush_lobby_def)
qed

text \<open>A turn either leaves everybody informed, or is the room's last, and then the room is evicted.\<close>

definition speaks :: "bool \<Rightarrow> room \<Rightarrow> room \<Rightarrow> bool" where
  "speaks fin r r' \<longleftrightarrow> rm_code r' = rm_code r \<and>
     (\<exists>xs. rm_out r' = rm_out r @ xs \<and> (\<forall>c p. Attach c p \<in> set xs \<longrightarrow> CancelQuickMatch c \<in> set xs) \<and>
        (Evict \<in> set xs \<longleftrightarrow> fin))"

lemma tracks_speaks: "tracks A r r' \<Longrightarrow> speaks False r r'"
  by (auto simp: tracks_def told_def speaks_def)

lemma speaks_then: "speaks False r a \<Longrightarrow> rm_code b = rm_code a \<Longrightarrow> rm_out b = rm_out a @ ys \<Longrightarrow>
    (\<And>c p. Attach c p \<notin> set ys) \<Longrightarrow> Evict \<in> set ys \<Longrightarrow> speaks True r b"
  by (auto simp: speaks_def)

lemma teardown_speaks: "speaks False r (lp_room l) \<Longrightarrow> speaks True r (lp_room (teardown l))"
proof -
  let ?ys = "map (\<lambda>(c, s). Release c) (connected (lp_room l)) @ (if rm_liveCounted (lp_room l) then [HubGameFinished] else []) @ [Evict]"
  assume "speaks False r (lp_room l)"
  then show ?thesis
    by (rule speaks_then [where ys = ?ys])
      (auto simp: teardown_def stopCountingLive_def detachAll_def emit_emits, simp_all add: connected_def seated_def)
qed

fun event_newcomers :: "env \<Rightarrow> event \<Rightarrow> conn set" where
  "event_newcomers ev (Input m) = newcomers ev m"
| "event_newcomers ev x = {}"

lemma after_arm_tracks:
  assumes "tracks A r (lp_room l)" and "\<not> lp_done l"
  shows "speaks (lp_done (after_arm ev l)) r (lp_room (after_arm ev l)) \<and>
    (\<not> lp_done (after_arm ev l) \<longrightarrow> tracks A r (lp_room (after_arm ev l)))"
proof -
  have t: "tracks A r (flush_lobby (lp_room l))"
    using assms(1) quiet_tracks [OF quiet_flush_lobby] tracks_trans by blast
  then have "speaks True r (lp_room (teardown (l\<lparr>lp_room := flush_lobby (lp_room l)\<rparr>)))"
    by (intro teardown_speaks) (simp add: tracks_speaks)
  with t tracks_speaks [OF t] after_arm_cases [OF assms(2), of ev] show ?thesis by auto
qed

lemma run_step_tracks:
  assumes "\<not> lp_done l" and "admissible x (lp_room l)" and "length (rm_seats (lp_room l)) = maxPlayers"
  shows "speaks (lp_done (run_step ev x l)) (lp_room l) (lp_room (run_step ev x l)) \<and>
    (\<not> lp_done (run_step ev x l) \<longrightarrow> tracks (event_newcomers ev x) (lp_room l) (lp_room (run_step ev x l)))"
proof (cases x)
  case (Input m)
  have "tracks (newcomers ev m) (lp_room l) (handle ev m (lp_room l))"
    by (rule tracks_handle) (use assms Input in simp_all)
  then show ?thesis using Input assms(1)
    by (simp add: run_step_def resetTurnTimer_def resetGraceTimer_def after_arm_tracks)
next
  case TurnFires
  then show ?thesis using assms(1) quiet_tracks [OF quiet_turn_expired]
    by (simp add: run_step_def resetTurnTimer_def after_arm_tracks)
next
  case GraceFires
  then show ?thesis using assms(1) tracks_handleGraceExpiry
    by (simp add: run_step_def resetTurnTimer_def resetGraceTimer_def after_arm_tracks [where A = "{}"])
next
  case IdleFires
  have "speaks False (lp_room l) (broadcastError codeRoomIdleClosed (lp_room l))"
    by (rule tracks_speaks [OF quiet_tracks]) simp
  then show ?thesis using IdleFires assms(1) teardown_speaks by (simp add: run_step_def)
next
  case ContextDone
  have "speaks False (lp_room l) (lp_room l)" by (rule tracks_speaks [OF quiet_tracks]) simp
  then show ?thesis using ContextDone assms(1) teardown_speaks by (simp add: run_step_def)
qed


text \<open>Nobody sits there: a timer closes the room.\<close>

lemma vacant_timer:
  assumes "\<not> lp_done l" and "\<not> occupied (lp_room l)" and "\<nexists>m. x = Input m"
  shows "lp_done (run_step ev x l)"
proof -
  have fl: "\<not> occupied (flush_lobby r)" if "\<not> occupied r" for r
    using that quiet_flush_lobby [of r] by (simp add: occupied_sits quiet_def)
  have arm: "lp_done (after_arm ev l')" if "\<not> occupied (lp_room l')" for l'
    using fl [OF that] by (simp add: after_arm_def Let_def)
  have t: "\<not> occupied (turn_expired ev (lp_room l))"
    using assms(2) quiet_turn_expired [of "lp_room l" ev] by (simp add: occupied_sits quiet_def)
  have "expired_seats ev (lp_room l) = []"
  proof -
    have "rm_seats (lp_room l) ! i = None" if "i < length (rm_seats (lp_room l))" for i
      using assms(2) nth_mem [OF that] ids_iff [of _ "lp_room l"] unfolding occupied_iff
      by (cases "rm_seats (lp_room l) ! i") auto
    then show ?thesis by (auto simp: expired_seats_def filter_empty_conv)
  qed
  then have g: "\<not> occupied (handleGraceExpiry ev (lp_room l))" using assms(2) by (simp add: handleGraceExpiry_def)
  show ?thesis using assms(1,3) t g
    by (cases x) (simp_all add: run_step_def resetTurnTimer_def resetGraceTimer_def arm)
qed

lemma emits_cancelled: "rm_cancelled (emit x r) = rm_cancelled r"
  by (simp add: emit_emits)

lemma teardown_cancelled [simp]: "rm_cancelled (lp_room (teardown l))"
  by (simp add: teardown_def stopCountingLive_def detachAll_def emit_emits)

text \<open>A bot game asked for by a connection that is gone is called off.\<close>

lemma startBot_gone:
  assumes "\<not> lp_done l" and "ev_closed ev c"
  shows "rm_cancelled (lp_room (run_step ev (Input (startBotInput c d)) l))"
proof -
  define r where "r = handleStartBot ev c d (lp_room l)"
  have r: "rm_cancelled r" using assms(2) by (simp add: r_def handleStartBot_def Let_def)
  have f: "rm_cancelled (flush_lobby r)" using r quiet_flush_lobby [of r] by (simp add: quiet_def)
  have "rm_cancelled (lp_room (after_arm ev l'))" if "lp_room l' = r" "\<not> lp_done l'" for l'
    using after_arm_cases [OF that(2), of ev] f that(1) by auto
  then show ?thesis using assms(1) by (simp add: run_step_def handle_def resetTurnTimer_def resetGraceTimer_def r_def)
qed

lemma done_cancelled:
  assumes "\<not> lp_done l" and "lp_done (run_step ev x l)"
  shows "rm_cancelled (lp_room (run_step ev x l))"
proof -
  have arm: "rm_cancelled (lp_room (after_arm ev l'))" if "lp_done (after_arm ev l')" "\<not> lp_done l'" for l'
    using after_arm_cases [OF that(2), of ev] that(1) by auto
  show ?thesis using assms
    by (cases x) (simp_all add: run_step_def resetTurnTimer_def resetGraceTimer_def arm)
qed

lemma disconnect_clears:
  assumes "\<not> lp_done l" and "seat_inv (lp_room l)"
    and "\<not> lp_done (run_step ev (Input (disconnectInput p c)) l)"
  shows "(c, p) \<notin> pairs (lp_room (run_step ev (Input (disconnectInput p c)) l))"
proof -
  define r where "r = handleDisconnect ev p c (lp_room l)"
  define l' where "l' = resetGraceTimer (resetTurnTimer (l\<lparr>lp_room := r\<rparr>))"
  have l': "lp_room l' = r" "\<not> lp_done l'" using assms(1) by (simp_all add: l'_def resetTurnTimer_def resetGraceTimer_def)
  have st: "run_step ev (Input (disconnectInput p c)) l = after_arm ev l'"
    using assms(1) by (simp add: run_step_def handle_def r_def l'_def)
  have "pairs (flush_lobby r) = pairs r" using quiet_flush_lobby [of r] unfolding quiet_def by (intro pairs_cong) simp
  moreover have "lp_room (after_arm ev l') = flush_lobby r"
    using after_arm_cases [OF l'(2), of ev] assms(3) l'(1) unfolding st by auto
  ultimately show ?thesis using handleDisconnect_clears [OF assms(2)] by (simp add: st r_def)
qed

end
