(* ===== verification/Server_Inv.thy ===== *)
theory Server_Inv
  imports Server_Run Room_Moves
begin

text \<open>
  The invariant of the whole server: every room is sound and gets only inputs it is made for, whoever sits
  in a room knows it or has notice of leaving under way, the queue holds connections that have said hello and not ended, the
  registry lists the open rooms, and the count of running games is right.
\<close>

subsection \<open>Inboxes\<close>

fun opens :: "room_input \<Rightarrow> bool" where
  "opens (createInput c auto) = True"
| "opens (startBotInput c d) = True"
| "opens m = False"

text \<open>The connection an input may seat.\<close>

fun seater :: "room_input \<Rightarrow> conn set" where
  "seater (createInput c auto) = {c}"
| "seater (startBotInput c d) = {c}"
| "seater (joinInput c) = {c}"
| "seater (resumeInput p c prior) = {c}"
| "seater m = {}"

fun resumes :: "room_input \<Rightarrow> conn set" where
  "resumes (resumeInput p c prior) = {c}"
| "resumes m = {}"

lemma newcomers_seater: "newcomers ev m \<subseteq> seater m"
  by (cases m) simp_all

text \<open>A resume is never behind anything that seats its connection.\<close>

fun inbox_ok :: "conn set \<Rightarrow> room_input list \<Rightarrow> bool" where
  "inbox_ok S [] = True"
| "inbox_ok S (m # ms) \<longleftrightarrow> resumes m \<inter> S = {} \<and> inbox_ok (S \<union> seater m) ms"

lemma inbox_ok_mono: "inbox_ok S ms \<Longrightarrow> T \<subseteq> S \<Longrightarrow> inbox_ok T ms"
proof (induction ms arbitrary: S T)
  case (Cons m ms)
  have "inbox_ok (S \<union> seater m) ms" and "resumes m \<inter> S = {}" using Cons.prems(1) by simp_all
  then have "inbox_ok (T \<union> seater m) ms" using Cons.IH [OF _ Un_mono [OF Cons.prems(2) order_refl]] by blast
  moreover have "resumes m \<inter> T = {}" using \<open>resumes m \<inter> S = {}\<close> Cons.prems(2) by blast
  ultimately show ?case by simp
qed simp

lemma inbox_ok_append: "inbox_ok S (ms @ [m]) \<longleftrightarrow> inbox_ok S ms \<and> resumes m \<inter> (S \<union> \<Union> (seater ` set ms)) = {}"
  by (induction ms arbitrary: S) (auto simp: Un_assoc)

subsection \<open>One room\<close>

abbreviation rp_room :: "room_proc \<Rightarrow> room" where "rp_room p \<equiv> lp_room (rp_loop p)"
abbreviation rp_done :: "room_proc \<Rightarrow> bool" where "rp_done p \<equiv> lp_done (rp_loop p)"

definition notices :: "room_proc \<Rightarrow> (conn \<times> player) set" where
  "notices p = {(c, q). disconnectInput q c \<in> set (rp_inputs p) \<union> set (rp_notices p)}"

definition proc_ok :: "conn set \<Rightarrow> room_proc \<Rightarrow> bool" where
  "proc_ok G p \<longleftrightarrow> loop_inv (rp_loop p) \<and> (rp_done p \<longrightarrow> rp_over p) \<and>
     (\<not> rp_done p \<longrightarrow>
        (\<forall>m \<in> set (tl (rp_inputs p)). \<not> opens m) \<and>
        (\<forall>m ms. rp_inputs p = m # ms \<longrightarrow> opens m \<longrightarrow> \<not> occupied (rp_room p)) \<and>
        inbox_ok (fst ` pairs (rp_room p)) (rp_inputs p) \<and>
        (\<forall>m \<in> set (rp_notices p). \<exists>q c. m = disconnectInput q c) \<and>
        fst ` pairs (rp_room p) \<union> \<Union> (seater ` set (rp_inputs p)) \<subseteq> G)"

lemma proc_ok_mono: "proc_ok G p \<Longrightarrow> G \<subseteq> H \<Longrightarrow> proc_ok H p"
  unfolding proc_ok_def by blast

text \<open>Whoever sits there believes so, or notice is on its way; once the connection is through, it is.\<close>

definition seats_ok :: "(conn \<rightharpoonup> player) \<Rightarrow> conn set \<Rightarrow> room_proc \<Rightarrow> bool" where
  "seats_ok b E p \<longleftrightarrow> knows b (notices p) (rp_room p) \<and>
     (\<not> rp_over p \<longrightarrow> (\<forall>(c, q) \<in> pairs (rp_room p). c \<in> E \<longrightarrow> (c, q) \<in> notices p))"

subsection \<open>The server\<close>

definition greeted :: "world \<Rightarrow> conn set" where
  "greeted w = {c. c < w_conns w \<and> ss_greeted (w_sess w c)}"

definition ended :: "world \<Rightarrow> conn set" where
  "ended w = {c. ss_phase (w_sess w c) = Ended}"

definition bound :: "world \<Rightarrow> rid \<Rightarrow> conn \<rightharpoonup> player" where
  "bound w i c = (if ss_room (w_sess w c) = Some i then Some (ss_playerID (w_sess w c)) else None)"

definition rooms_ok :: "world \<Rightarrow> bool" where
  "rooms_ok w \<longleftrightarrow> (\<forall>i < w_rooms w. proc_ok (greeted w) (w_room w i) \<and>
     (\<not> rp_done (w_room w i) \<longrightarrow> seats_ok (bound w i) (ended w) (w_room w i)))"

text \<open>Whom a call of the hub has taken out of the queue.\<close>

fun partner :: "hub_call \<Rightarrow> conn set" where
  "partner (Pair d) = {d}"
| "partner (PairOpen d) = {d}"
| "partner k = {}"

definition conns_ok :: "world \<Rightarrow> bool" where
  "conns_ok w \<longleftrightarrow> (\<forall>c. ss_phase (w_sess w c) = Ended \<longrightarrow> ss_closed (w_sess w c)) \<and>
     (\<forall>c i. ss_room (w_sess w c) = Some i \<longrightarrow> i < w_rooms w) \<and>
     (\<forall>c k. ss_phase (w_sess w c) = InCall k \<longrightarrow> insert c (partner k) \<subseteq> greeted w)"

definition queue_ok :: "world \<Rightarrow> bool" where
  "queue_ok w \<longleftrightarrow> distinct (h_waiting (w_hub w)) \<and>
     set (h_waiting (w_hub w)) \<subseteq> greeted w - ended w"

definition registry_ok :: "world \<Rightarrow> bool" where
  "registry_ok w \<longleftrightarrow> distinct (map fst (h_rooms (w_hub w))) \<and>
     (\<forall>code i. (code, i) \<in> set (h_rooms (w_hub w)) \<longleftrightarrow>
        i < w_rooms w \<and> \<not> rp_done (w_room w i) \<and> rm_code (rp_room (w_room w i)) = code) \<and>
     int (length (h_rooms (w_hub w))) \<le> h_maxRooms (w_hub w)"

definition live_ok :: "world \<Rightarrow> bool" where
  "live_ok w \<longleftrightarrow> h_liveGames (w_hub w) = (\<Sum>i < w_rooms w. balance (rm_out (rp_room (w_room w i))))"

definition server_inv :: "world \<Rightarrow> bool" where
  "server_inv w \<longleftrightarrow> rooms_ok w \<and> conns_ok w \<and> queue_ok w \<and> registry_ok w \<and> live_ok w"

lemma start_inv: "0 \<le> h_maxRooms h \<Longrightarrow> h_rooms h = [] \<Longrightarrow> h_waiting h = [] \<Longrightarrow> h_liveGames h = 0 \<Longrightarrow>
    server_inv (start_world h)"
  by (simp add: server_inv_def rooms_ok_def conns_ok_def queue_ok_def registry_ok_def live_ok_def start_world_def
      newSession_def)

subsection \<open>Steps that leave all of that alone\<close>

text \<open>Outboxes, budgets, names, tokens, the drain flag: nothing the invariant looks at; closing only closes.\<close>

definition mild :: "world \<Rightarrow> world \<Rightarrow> bool" where
  "mild w w' \<longleftrightarrow> w_rooms w' = w_rooms w \<and> w_conns w' = w_conns w \<and> w_room w' = w_room w \<and>
     (\<forall>c. ss_greeted (w_sess w' c) = ss_greeted (w_sess w c) \<and>
        (ss_phase (w_sess w' c) = Ended) = (ss_phase (w_sess w c) = Ended) \<and>
        (\<forall>k. ss_phase (w_sess w' c) = InCall k \<longrightarrow> ss_phase (w_sess w c) = InCall k) \<and>
        ss_room (w_sess w' c) = ss_room (w_sess w c) \<and> ss_playerID (w_sess w' c) = ss_playerID (w_sess w c) \<and>
        (ss_closed (w_sess w c) \<longrightarrow> ss_closed (w_sess w' c))) \<and>
     h_rooms (w_hub w') = h_rooms (w_hub w) \<and> h_waiting (w_hub w') = h_waiting (w_hub w) \<and>
     h_liveGames (w_hub w') = h_liveGames (w_hub w) \<and> h_maxRooms (w_hub w') = h_maxRooms (w_hub w)"

lemma mild_refl [simp]: "mild w w"
  by (simp add: mild_def)

lemma mild_trans: "mild a b \<Longrightarrow> mild b c \<Longrightarrow> mild a c"
  by (simp add: mild_def)

lemma mild_sets: "mild w w' \<Longrightarrow> greeted w' = greeted w" "mild w w' \<Longrightarrow> ended w' = ended w" "mild w w' \<Longrightarrow> bound w' = bound w"
  by (auto simp: mild_def greeted_def ended_def bound_def fun_eq_iff)

lemma mild_calls: "mild w w' \<Longrightarrow> ss_phase (w_sess w' c) = InCall k \<Longrightarrow> ss_phase (w_sess w c) = InCall k"
  by (simp add: mild_def)

lemma mild_inv:
  assumes m: "mild w w'" and inv: "server_inv w"
  shows "server_inv w'"
proof -
  have "conns_ok w'" unfolding conns_ok_def mild_sets [OF m]
  proof (intro conjI allI impI)
    show "insert c (partner k) \<subseteq> greeted w" if "ss_phase (w_sess w' c) = InCall k" for c k
      using inv mild_calls [OF m that] unfolding server_inv_def conns_ok_def by blast
  qed (use m inv in \<open>auto simp: mild_def server_inv_def conns_ok_def\<close>)
  then show ?thesis using m inv unfolding server_inv_def rooms_ok_def queue_ok_def registry_ok_def live_ok_def mild_sets [OF m]
    by (auto simp: mild_def)
qed

lemma mild_sess:
  assumes "\<And>s. ss_greeted (f s) = ss_greeted s \<and> ss_room (f s) = ss_room s \<and>
    ss_playerID (f s) = ss_playerID s \<and> (ss_closed s \<longrightarrow> ss_closed (f s))"
    and "(ss_phase (f (w_sess w c)) = Ended) = (ss_phase (w_sess w c) = Ended)"
    and "\<And>k. ss_phase (f (w_sess w c)) = InCall k \<Longrightarrow> ss_phase (w_sess w c) = InCall k"
  shows "mild w (upd_sess c f w)"
  using assms by (simp add: mild_def upd_sess_def)

lemma mild_hub:
  assumes "\<And>h. h_rooms (f h) = h_rooms h \<and> h_waiting (f h) = h_waiting h \<and> h_liveGames (f h) = h_liveGames h \<and>
    h_maxRooms (f h) = h_maxRooms h"
  shows "mild w (upd_hub f w)"
  using assms by (simp add: mild_def upd_hub_def)

lemma send_phase [simp]: "ss_phase (session_send coin m s) = ss_phase s" "ss_phase (snd (session_trySend coin m s)) = ss_phase s"
  by (simp_all add: session_send_def session_trySend_def enqueue_def)

lemma mild_send [simp]: "mild w (send_to ox c m w)"
  unfolding send_to_def by (rule mild_sess) (simp_all, simp_all add: session_send_def enqueue_def)

lemma mild_answer [simp]: "mild w (answer ox c code w)"
  by (simp add: answer_def)

lemma mild_charge [simp]: "mild w (snd (charge ox b c w))"
proof -
  have "mild w (upd_sess c (set_bucket b k) w)" for k by (rule mild_sess) (cases b; simp)+
  then show ?thesis by (simp add: charge_def case_prod_beta)
qed

lemma mild_close [simp]: "mild w (close_session c w)"
  unfolding close_session_def by (rule mild_sess) simp_all

lemma mild_send_then: "mild w a \<Longrightarrow> mild w (send_to ox c m a)"
  using mild_trans mild_send by blast

lemma mild_answer_then: "mild w a \<Longrightarrow> mild w (answer ox c code a)"
  using mild_trans mild_answer by blast


subsection \<open>What a room's effects do to the rest\<close>

definition more_notices :: "room_proc \<Rightarrow> room_proc \<Rightarrow> bool" where
  "more_notices p p' \<longleftrightarrow> rp_loop p' = rp_loop p \<and> rp_inputs p' = rp_inputs p \<and>
     (\<exists>ns. rp_notices p' = rp_notices p @ ns \<and> (\<forall>m \<in> set ns. \<exists>q c. m = disconnectInput q c))"

lemma more_notices_refl [simp]: "more_notices p p"
  by (simp add: more_notices_def)

lemma more_notices_trans: "more_notices a b \<Longrightarrow> more_notices b c \<Longrightarrow> more_notices a c"
  unfolding more_notices_def by auto

lemma more_notices_mono: "more_notices p p' \<Longrightarrow> notices p \<subseteq> notices p'"
  by (auto simp: more_notices_def notices_def)

definition moved :: "rid \<Rightarrow> effect list \<Rightarrow> world \<Rightarrow> world \<Rightarrow> bool" where
  "moved i xs w w' \<longleftrightarrow> w_rooms w' = w_rooms w \<and> w_conns w' = w_conns w \<and>
     (\<forall>j. more_notices (w_room w j) (w_room w' j)) \<and>
     (\<forall>c. ss_greeted (w_sess w' c) = ss_greeted (w_sess w c) \<and>
        (ss_phase (w_sess w' c) = Ended) = (ss_phase (w_sess w c) = Ended) \<and>
        (\<forall>k. ss_phase (w_sess w' c) = InCall k \<longrightarrow> ss_phase (w_sess w c) = InCall k) \<and>
        (ss_closed (w_sess w c) \<longrightarrow> ss_closed (w_sess w' c)) \<and>
        (ss_room (w_sess w' c) = ss_room (w_sess w c) \<or> ss_room (w_sess w' c) = None \<or>
         ss_room (w_sess w' c) = Some i \<and> (\<exists>p. Attach c p \<in> set xs))) \<and>
     bound w' i = fold move_of xs (bound w i) \<and>
     (\<forall>j c q. j \<noteq> i \<longrightarrow> bound w j c = Some q \<longrightarrow> bound w' j c = Some q \<or> (c, q) \<in> notices (w_room w' j)) \<and>
     h_maxRooms (w_hub w') = h_maxRooms (w_hub w) \<and>
     h_liveGames (w_hub w') = h_liveGames (w_hub w) + balance xs \<and>
     h_rooms (w_hub w') = (if Evict \<in> set xs then AList.delete (rm_code (rp_room (w_room w i))) (h_rooms (w_hub w))
       else h_rooms (w_hub w)) \<and>
     (distinct (h_waiting (w_hub w)) \<longrightarrow> distinct (h_waiting (w_hub w')) \<and>
        set (h_waiting (w_hub w')) \<subseteq> set (h_waiting (w_hub w)) - {c. CancelQuickMatch c \<in> set xs})"

lemma moved_Nil: "moved i [] w w"
  by (simp add: moved_def balance_def)

lemma moved_Cons:
  assumes a: "moved i [x] w a" and b: "moved i xs a w'"
  shows "moved i (x # xs) w w'"
proof -
  have n: "more_notices (w_room w j) (w_room w' j)" for j
  proof (rule more_notices_trans)
    show "more_notices (w_room w j) (w_room a j)" using a by (simp add: moved_def)
    show "more_notices (w_room a j) (w_room w' j)" using b by (simp add: moved_def)
  qed
  have room: "rp_room (w_room a i) = rp_room (w_room w i)" using a by (simp add: moved_def more_notices_def)
  have notice: "bound w' j c = Some q \<or> (c, q) \<in> notices (w_room w' j)"
    if "j \<noteq> i" "bound w j c = Some q" for j c q
  proof -
    have "bound a j c = Some q \<or> (c, q) \<in> notices (w_room a j)" using a that unfolding moved_def by blast
    moreover have "notices (w_room a j) \<subseteq> notices (w_room w' j)"
      using b more_notices_mono unfolding moved_def by blast
    ultimately show ?thesis using b that(1) unfolding moved_def by blast
  qed
  have bal: "balance (x # xs) = balance [x] + balance xs" using balance_append [of "[x]" xs] by simp
  have rooms: "h_rooms (w_hub w') = (if Evict \<in> set (x # xs) then AList.delete (rm_code (rp_room (w_room w i)))
      (h_rooms (w_hub w)) else h_rooms (w_hub w))"
    using a b room unfolding moved_def by (auto simp: delete_idem)
  have room_of: "ss_room (w_sess w' c) = ss_room (w_sess w c) \<or> ss_room (w_sess w' c) = None \<or>
      ss_room (w_sess w' c) = Some i \<and> (\<exists>p. Attach c p \<in> set (x # xs))" for c
  proof -
    have "ss_room (w_sess a c) = ss_room (w_sess w c) \<or> ss_room (w_sess a c) = None \<or>
        ss_room (w_sess a c) = Some i \<and> (\<exists>p. Attach c p \<in> set [x])" using a unfolding moved_def by blast
    moreover have "ss_room (w_sess w' c) = ss_room (w_sess a c) \<or> ss_room (w_sess w' c) = None \<or>
        ss_room (w_sess w' c) = Some i \<and> (\<exists>p. Attach c p \<in> set xs)" using b unfolding moved_def by blast
    ultimately show ?thesis by auto
  qed
  have calls: "ss_phase (w_sess w' c) = InCall k \<Longrightarrow> ss_phase (w_sess w c) = InCall k" for c k
    using a b unfolding moved_def by blast
  show ?thesis
    unfolding moved_def
  proof (intro conjI allI impI)
    show "ss_phase (w_sess w' c) = InCall k \<Longrightarrow> ss_phase (w_sess w c) = InCall k" for c k by (rule calls)
    have ends: "(ss_phase (w_sess w' c) = Ended) = (ss_phase (w_sess w c) = Ended)" for c
      using a b unfolding moved_def by blast
    then show "(ss_phase (w_sess w' c) = Ended) = (ss_phase (w_sess w c) = Ended)" for c .
    show "bound w' i = fold move_of (x # xs) (bound w i)" using a b by (simp add: moved_def)
    show "h_liveGames (w_hub w') = h_liveGames (w_hub w) + balance (x # xs)"
      using a b unfolding bal by (simp add: moved_def)
    have queue: "distinct (h_waiting (w_hub w')) \<and>
        set (h_waiting (w_hub w')) \<subseteq> set (h_waiting (w_hub w)) - {c. CancelQuickMatch c \<in> set (x # xs)}"
      if d: "distinct (h_waiting (w_hub w))"
    proof -
      have "distinct (h_waiting (w_hub a)) \<and> set (h_waiting (w_hub a)) \<subseteq> set (h_waiting (w_hub w)) - {c. CancelQuickMatch c \<in> set [x]}"
        using a d by (simp add: moved_def)
      moreover from this have "distinct (h_waiting (w_hub w')) \<and>
          set (h_waiting (w_hub w')) \<subseteq> set (h_waiting (w_hub a)) - {c. CancelQuickMatch c \<in> set xs}"
        using b by (simp add: moved_def)
      ultimately show ?thesis by auto
    qed
    show "distinct (h_waiting (w_hub w'))" if "distinct (h_waiting (w_hub w))" using queue [OF that] by blast
    show "set (h_waiting (w_hub w')) \<subseteq> set (h_waiting (w_hub w)) - {c. CancelQuickMatch c \<in> set (x # xs)}"
      if "distinct (h_waiting (w_hub w))" using queue [OF that] by blast
    show "w_rooms w' = w_rooms w" "w_conns w' = w_conns w" "h_maxRooms (w_hub w') = h_maxRooms (w_hub w)"
      using a b by (simp_all add: moved_def)
    show "ss_greeted (w_sess w' c) = ss_greeted (w_sess w c)" "ss_closed (w_sess w c) \<Longrightarrow> ss_closed (w_sess w' c)" for c
      using a b by (simp_all add: moved_def)
  qed (use n notice rooms room_of in auto)
qed

lemma moved_mild: "mild w w' \<Longrightarrow> quiet_effect x \<Longrightarrow> balance [x] = 0 \<Longrightarrow> (\<forall>c. x \<noteq> CancelQuickMatch c) \<Longrightarrow>
    moved i [x] w w'"
  using mild_sets(3) [of w w'] by (auto simp: moved_def mild_def move_quiet)


lemma moved_attach: "moved i [Attach c p] w (attach c i p w)"
proof (cases "ss_room (w_sess w c)")
  case None
  then show ?thesis
    by (auto simp: moved_def attach_def currentRoom_def upd_sess_def bound_def balance_def)
next
  case (Some j)
  show ?thesis
  proof (cases "j = i")
    case True
    with Some show ?thesis
      by (auto simp: moved_def attach_def currentRoom_def upd_sess_def bound_def balance_def)
  next
    case False
    with Some show ?thesis
      by (auto simp: moved_def attach_def currentRoom_def upd_sess_def bound_def balance_def sendReliably_def
          upd_room_def notices_def more_notices_def)
  qed
qed

lemma moved_release: "moved i [Release c] w (release c i w)"
  by (auto simp: moved_def release_def upd_sess_def bound_def balance_def)

lemma moved_perform: "moved i [x] w (perform ox i x w)"
proof (cases x)
  case (Attach c p)
  then show ?thesis by (simp add: perform_def moved_attach)
next
  case (Release c)
  then show ?thesis by (simp add: perform_def moved_release)
next
  case (Send c m)
  then show ?thesis using moved_mild [OF mild_send [of w ox c m]] by (simp add: perform_def balance_def)
next
  case (TrySend c m)
  have "mild w (upd_sess c (\<lambda>s. snd (session_trySend (ox_coin ox c) m s)) w)"
    by (rule mild_sess) (simp_all, simp_all add: session_trySend_def enqueue_def)
  then show ?thesis using TrySend moved_mild by (simp add: perform_def balance_def)
next
  case (CancelQuickMatch c)
  then show ?thesis
    by (auto simp: perform_def moved_def upd_hub_def cancelQuickMatch_def balance_def bound_def)
next
  case (Unregister c)
  have "mild w (upd_hub (hub_unregister t) w)" for t by (rule mild_hub) (simp add: hub_unregister_def)
  then show ?thesis using Unregister moved_mild by (simp add: perform_def balance_def)
next
  case (CloseSession c)
  then show ?thesis using moved_mild [OF mild_close [of w c]] by (simp add: perform_def balance_def)
next
  case (ThinkBot b n)
  then show ?thesis by (auto simp: perform_def moved_def upd_room_def more_notices_def balance_def bound_def notices_def)
qed (simp_all add: perform_def moved_def upd_hub_def gameStarted_def gameFinished_def evict_def balance_def bound_def fun_eq_iff)

lemma moved_fold: "moved i xs w (fold (perform ox i) xs w)"
proof (induction xs arbitrary: w)
  case (Cons x xs)
  show ?case using moved_Cons [OF moved_perform Cons.IH] by simp
qed (simp add: moved_Nil)


subsection \<open>A room takes a turn\<close>

lemma refusePending_says: "quiet r (refusePending ms r) \<and> chatter r (refusePending ms r)"
proof -
  define f where "f = (\<lambda>m r. case refusal m of None \<Rightarrow> r | Some (c, code) \<Rightarrow> reply c code r)"
  have "quiet r (f m r)" "chatter r (f m r)" for m r by (simp_all add: f_def split: option.split)
  then show ?thesis unfolding refusePending_def f_def [symmetric] using quiet_fold [of f] chatter_fold [of f] by blast
qed

definition turned :: "env \<Rightarrow> event \<Rightarrow> room_input list \<Rightarrow> loop \<Rightarrow> loop" where
  "turned ev x rest l = (let l' = run_step ev x l in if lp_done l' then refuse_rest rest l' else l')"

lemma admissible_event:
  assumes "proc_ok G p" and "\<not> rp_done p" and "\<And>m. x = Input m \<Longrightarrow> \<exists>ms. rp_inputs p = m # ms"
  shows "admissible x (rp_room p)"
proof (cases x)
  case (Input m)
  then obtain ms where ms: "rp_inputs p = m # ms" using assms(3) by blast
  have "opens m \<longrightarrow> \<not> occupied (rp_room p)" "resumes m \<inter> fst ` pairs (rp_room p) = {}"
    using assms(1,2) ms by (simp_all add: proc_ok_def)
  then show ?thesis unfolding Input
    by (cases m) (simp_all add: pairs_connected image_image case_prod_beta)
qed simp_all

lemma seats_length: "room_inv r \<Longrightarrow> length (rm_seats r) = maxPlayers"
  by (simp add: room_inv_def seat_inv_split seat_base_def)

lemma turned_facts:
  fixes ev :: env and rest :: "room_input list"
  assumes inv: "loop_inv l" and go: "\<not> lp_done l" and adm: "admissible x (lp_room l)"
  defines "l' \<equiv> turned ev x rest l"
  shows "loop_inv l'" and "lp_done l' \<Longrightarrow> rm_cancelled (lp_room l')"
    and "rm_code (lp_room l') = rm_code (lp_room l)" and "rm_out (lp_room l') = rm_out (lp_room l) @ fresh_out l l'"
    and "Attach c q \<in> set (fresh_out l l') \<Longrightarrow> CancelQuickMatch c \<in> set (fresh_out l l')"
    and "Evict \<in> set (fresh_out l l') \<longleftrightarrow> lp_done l'"
    and "\<not> lp_done l' \<Longrightarrow> told (fresh_out l l') (event_newcomers ev x) (lp_room l) (lp_room l')"
    and "\<not> lp_done l' \<Longrightarrow> l' = run_step ev x l"
proof -
  have ri: "room_inv (lp_room l)" using inv go by (simp add: loop_inv_def)
  define a where "a = run_step ev x l"
  have la: "loop_inv a" unfolding a_def using run_step_good [OF inv go adm] by blast
  have sp: "speaks (lp_done a) (lp_room l) (lp_room a)"
    and tr: "\<not> lp_done a \<longrightarrow> tracks (event_newcomers ev x) (lp_room l) (lp_room a)"
    using run_step_tracks [OF go adm seats_length [OF ri]] by (auto simp: a_def)
  note rp = refusePending_says [of "lp_room a" rest]
  have l': "l' = (if lp_done a then refuse_rest rest a else a)" by (simp add: l'_def turned_def a_def)
  then have don: "lp_done l' = lp_done a" by (simp add: refuse_rest_def)
  then show "\<not> lp_done l' \<Longrightarrow> l' = run_step ev x l" using l' by (simp add: a_def)
  show "loop_inv l'"
    using la drift_chatter [OF rp [THEN conjunct2]] rp [THEN conjunct2]
    by (auto simp: l' loop_inv_def refuse_rest_def chatter_def)
  have c: "lp_done a \<Longrightarrow> rm_cancelled (lp_room a)" unfolding a_def by (rule done_cancelled [OF go])
  then show "lp_done l' \<Longrightarrow> rm_cancelled (lp_room l')"
    using rp unfolding don by (simp add: l' refuse_rest_def quiet_def)
  obtain xs where xs: "rm_out (lp_room a) = rm_out (lp_room l) @ xs" "rm_code (lp_room a) = rm_code (lp_room l)"
      "\<forall>c p. Attach c p \<in> set xs \<longrightarrow> CancelQuickMatch c \<in> set xs" "Evict \<in> set xs \<longleftrightarrow> lp_done a"
    using sp unfolding speaks_def by blast
  obtain ys where ys: "rm_out (refusePending rest (lp_room a)) = rm_out (lp_room a) @ ys" "\<forall>y \<in> set ys. quiet_effect y"
    using rp unfolding quiet_def by blast
  define zs where "zs = xs @ (if lp_done a then ys else [])"
  have out: "rm_out (lp_room l') = rm_out (lp_room l) @ zs" using xs(1) ys(1) by (simp add: l' refuse_rest_def zs_def)
  then have fresh: "fresh_out l l' = zs" by (simp add: fresh_out_def)
  show "rm_out (lp_room l') = rm_out (lp_room l) @ fresh_out l l'" using out fresh by simp
  show "rm_code (lp_room l') = rm_code (lp_room l)" using xs(2) rp by (simp add: l' refuse_rest_def quiet_def)
  have q: "Attach d p \<notin> set ys" "Evict \<notin> set ys" for d p
    using ys(2) quiet_effect.simps(1) [of d p] quiet_effect.simps(3) by blast+
  show "Attach c q \<in> set (fresh_out l l') \<Longrightarrow> CancelQuickMatch c \<in> set (fresh_out l l')"
    unfolding fresh zs_def using xs(3) q by (auto split: if_splits)
  show "Evict \<in> set (fresh_out l l') \<longleftrightarrow> lp_done l'" unfolding fresh zs_def don using xs(4) q by auto
  show "told (fresh_out l l') (event_newcomers ev x) (lp_room l) (lp_room l')" if "\<not> lp_done l'"
    using tr that unfolding don fresh by (auto simp: l' tracks_def zs_def told_def xs(1))
qed

end
