(* ===== verification/Server_Turn.thy ===== *)
theory Server_Turn
  imports Server_Inv
begin

text \<open>
  A turn of a room, with everything it does to the connections, the hub and the other rooms, keeps the
  invariant of the server.
\<close>

subsection \<open>A room's turn\<close>

lemma more_notices_proc: "proc_ok G p \<Longrightarrow> more_notices p p' \<Longrightarrow> proc_ok G p'"
  unfolding proc_ok_def rp_over_def more_notices_def by auto

lemma seats_ok_moved:
  assumes "seats_ok b E p" and n: "more_notices p p'"
    and "\<And>c q. b c = Some q \<Longrightarrow> b' c = Some q \<or> (c, q) \<in> notices p'"
  shows "seats_ok b' E p'"
proof -
  have r: "rp_loop p' = rp_loop p" "notices p \<subseteq> notices p'"
    using n more_notices_mono by (auto simp: more_notices_def)
  have "(c, q) \<in> notices p' \<or> b' c = Some q" if "(c, q) \<in> pairs (rp_room p')" for c q
  proof -
    have "(c, q) \<in> notices p \<or> b c = Some q" using that assms(1) r(1) unfolding seats_ok_def knows_def by auto
    then show ?thesis using assms(3) r(2) by blast
  qed
  then have "knows b' (notices p') (rp_room p')" by (auto simp: knows_def)
  moreover have "\<forall>(c, q) \<in> pairs (rp_room p'). c \<in> E \<longrightarrow> (c, q) \<in> notices p'" if "\<not> rp_over p'"
    using that assms(1) r(1) subsetD [OF r(2)] unfolding seats_ok_def rp_over_def by auto
  ultimately show ?thesis by (simp add: seats_ok_def)
qed

text \<open>The room itself, after its turn and before its effects are performed.\<close>

definition after_turn :: "loop \<Rightarrow> room_input list \<Rightarrow> room_proc \<Rightarrow> room_proc" where
  "after_turn l' rest p = p\<lparr>rp_loop := l', rp_inputs := (if lp_done l' then [] else rest),
     rp_notices := (if lp_done l' then [] else rp_notices p)\<rparr>"

text \<open>Which turns are taken: with the next input, or with none.\<close>

definition takes :: "event \<Rightarrow> room_input list \<Rightarrow> room_proc \<Rightarrow> bool" where
  "takes x rest p \<longleftrightarrow> (case x of Input m \<Rightarrow> rp_inputs p = m # rest | _ \<Rightarrow> rp_inputs p = rest)"

lemma takes_admissible:
  "proc_ok G p \<Longrightarrow> \<not> rp_done p \<Longrightarrow> takes x rest p \<Longrightarrow> admissible x (rp_room p)"
  by (rule admissible_event) (auto simp: takes_def)

lemma loop_room_inv: "loop_inv l \<Longrightarrow> \<not> lp_done l \<Longrightarrow> room_inv (lp_room l)"
  by (simp add: loop_inv_def)

lemma room_once: "room_inv r \<Longrightarrow> once r"
  by (simp add: room_inv_def seat_inv_split once_base)

lemma after_turn_ok:
  fixes ev :: env
  assumes p: "proc_ok G p" and go: "\<not> rp_done p" and t: "takes x rest p"
  shows "proc_ok G (after_turn (turned ev x rest (rp_loop p)) rest p)"
proof -
  define l' where "l' = turned ev x rest (rp_loop p)"
  define r where "r = rp_room p"
  have li: "loop_inv (rp_loop p)" using p by (simp add: proc_ok_def)
  note f = turned_facts [OF li go takes_admissible [OF p go t], where ev = ev and rest = rest, folded l'_def]
  have old: "\<forall>m \<in> set (tl (rp_inputs p)). \<not> opens m" "inbox_ok (fst ` pairs r) (rp_inputs p)"
    "\<forall>m \<in> set (rp_notices p). \<exists>q c. m = disconnectInput q c"
    "fst ` pairs r \<union> \<Union> (seater ` set (rp_inputs p)) \<subseteq> G"
    "\<And>m ms. rp_inputs p = m # ms \<Longrightarrow> opens m \<Longrightarrow> \<not> occupied r"
    using p go by (simp_all add: proc_ok_def r_def)
  show ?thesis
  proof (cases "lp_done l'")
    case True
    then show ?thesis using f(1,2) unfolding l'_def [symmetric] by (simp add: proc_ok_def after_turn_def rp_over_def)
  next
    case False
    have sub: "pairs (lp_room l') \<subseteq> pairs r \<union> event_newcomers ev x \<times> UNIV"
      using f(7) [OF False] room_once [OF loop_room_inv [OF li go]] by (simp add: told_def r_def)
    have timer: "rp_inputs p = rest \<and> event_newcomers ev x = {}" if "\<nexists>m. x = Input m"
      using t that by (cases x) (simp_all add: takes_def)
    have "rest \<noteq> [] \<longrightarrow> \<not> opens (hd rest)"
    proof (cases "\<exists>m. x = Input m")
      case True
      with t old(1) show ?thesis by (cases rest) (auto simp: takes_def)
    next
      case no_input: False
      then have "occupied r" using vacant_timer [OF go, of x ev] False f(8) by (auto simp: r_def)
      then show ?thesis using old(5) timer [OF no_input] by (cases rest) auto
    qed
    moreover have "\<forall>m \<in> set (tl rest). \<not> opens m"
      using t old(1) timer by (cases x; cases rest) (auto simp: takes_def)
    moreover have "inbox_ok (fst ` pairs (lp_room l')) rest \<and> fst ` pairs (lp_room l') \<union> \<Union> (seater ` set rest) \<subseteq> G"
    proof (cases "\<exists>m. x = Input m")
      case True
      then obtain m where x: "x = Input m" by blast
      then have i: "rp_inputs p = m # rest" using t by (simp add: takes_def)
      have s: "fst ` pairs (lp_room l') \<subseteq> fst ` pairs r \<union> seater m"
        using sub newcomers_seater [of ev m] x by fastforce
      have "inbox_ok (fst ` pairs r \<union> seater m) rest" using old(2) i by simp
      then have "inbox_ok (fst ` pairs (lp_room l')) rest" using s by (rule inbox_ok_mono)
      moreover have "fst ` pairs (lp_room l') \<union> \<Union> (seater ` set rest) \<subseteq> G" using s old(4) i by auto
      ultimately show ?thesis ..
    next
      case False
      have s: "fst ` pairs (lp_room l') \<subseteq> fst ` pairs r" using sub timer [OF False] by (intro image_mono) simp
      then show ?thesis using old(2,4) inbox_ok_mono [OF _ s] timer [OF False] subset_trans [OF s] by simp
    qed
    ultimately show ?thesis using False f(1) old(3) unfolding l'_def [symmetric]
      by (simp add: proc_ok_def after_turn_def) (auto intro: list.expand simp: neq_Nil_conv)
  qed
qed


lemma newcomers_gone:
  assumes "c \<in> newcomers ev m" and "ev_closed ev c"
  shows "\<exists>d. m = startBotInput c d"
  using assms by (cases m) (auto split: if_splits)

lemma after_turn_seats:
  fixes ev :: env
  assumes p: "proc_ok G p" and s: "seats_ok b E p" and go: "\<not> rp_done p" and t: "takes x rest p"
    and gone: "\<And>c. c \<in> E \<Longrightarrow> ev_closed ev c"
  defines "l' \<equiv> turned ev x rest (rp_loop p)"
  assumes live: "\<not> lp_done l'"
  shows "seats_ok (fold move_of (fresh_out (rp_loop p) l') b) E (after_turn l' rest p)"
proof -
  define r where "r = rp_room p"
  define r' where "r' = lp_room l'"
  define q where "q = after_turn l' rest p"
  have li: "loop_inv (rp_loop p)" using p by (simp add: proc_ok_def)
  note f = turned_facts [OF li go takes_admissible [OF p go t], where ev = ev and rest = rest, folded l'_def]
  have tell: "told (fresh_out (rp_loop p) l') (event_newcomers ev x) r r'" using f(7) [OF live] by (simp add: r_def r'_def)
  have once: "once r" unfolding r_def by (rule room_once [OF loop_room_inv [OF li go]])
  have rq: "rp_room q = r'" "rp_over q = rm_cancelled r'" by (simp_all add: q_def after_turn_def r'_def rp_over_def)
  have step: "l' = run_step ev x (rp_loop p)" by (rule f(8) [OF live])
  text \<open>A notice goes only by being handled.\<close>
  have kept: "(c, a) \<in> notices q" if m: "(c, a) \<in> notices p" "(c, a) \<in> pairs r'" for c a
  proof (cases "x = Input (disconnectInput a c)")
    case True
    have "seat_inv r" using loop_room_inv [OF li go] by (simp add: r_def room_inv_def)
    then have "(c, a) \<notin> pairs r'"
      using disconnect_clears [OF go, of ev a c] live unfolding r'_def step True r_def by blast
    with m(2) show ?thesis by contradiction
  next
    case False
    then show ?thesis using m(1) t live
      by (cases x) (auto simp: notices_def q_def after_turn_def takes_def)
  qed
  have "knows (fold move_of (fresh_out (rp_loop p) l') b) (notices p) r'"
    using s tell once unfolding seats_ok_def told_def r_def by blast
  then have "knows (fold move_of (fresh_out (rp_loop p) l') b) (notices q) r'"
    using kept unfolding knows_def by blast
  moreover have "(c, a) \<in> notices q" if over: "\<not> rm_cancelled r'" and m: "(c, a) \<in> pairs r'" and e: "c \<in> E" for c a
  proof -
    have "c \<notin> event_newcomers ev x"
    proof
      assume new: "c \<in> event_newcomers ev x"
      then obtain i where x: "x = Input i" by (cases x) auto
      with new newcomers_gone [OF _ gone [OF e], of i] obtain d where "i = startBotInput c d" by auto
      with startBot_gone [OF go gone [OF e]] step x over show False by (simp add: r'_def)
    qed
    then have "(c, a) \<in> pairs r" using tell once m unfolding told_def by blast
    moreover have "\<not> rp_over p" using tell over unfolding told_def rp_over_def r_def by blast
    ultimately have "(c, a) \<in> notices p" using s e unfolding seats_ok_def r_def by blast
    then show ?thesis using kept m by blast
  qed
  ultimately show ?thesis unfolding q_def [symmetric] seats_ok_def rq by blast
qed


lemma sum_room:
  fixes f g :: "rid \<Rightarrow> int"
  assumes "i < n" and "\<And>j. j < n \<Longrightarrow> j \<noteq> i \<Longrightarrow> g j = f j" and "g i = f i + d"
  shows "(\<Sum>j < n. g j) = (\<Sum>j < n. f j) + d"
proof -
  have "(\<Sum>j < n. g j) = g i + (\<Sum>j \<in> {..<n} - {i}. g j)" by (rule sum.remove) (use assms(1) in auto)
  also have "(\<Sum>j \<in> {..<n} - {i}. g j) = (\<Sum>j \<in> {..<n} - {i}. f j)" by (rule sum.cong) (use assms(2) in auto)
  also have "g i + (\<Sum>j \<in> {..<n} - {i}. f j) = f i + (\<Sum>j \<in> {..<n} - {i}. f j) + d" using assms(3) by simp
  also have "f i + (\<Sum>j \<in> {..<n} - {i}. f j) = (\<Sum>j < n. f j)" by (rule sum.remove [symmetric]) (use assms(1) in auto)
  finally show ?thesis .
qed

lemma delete_key_pairs:
  assumes "distinct (map fst xs)" and "(k, v) \<in> set xs"
  shows "(k', v') \<in> set (AList.delete k xs) \<longleftrightarrow> (k', v') \<in> set xs \<and> v' \<noteq> v \<or> (k', v') \<in> set xs \<and> k' \<noteq> k"
  using assms eq_key_imp_eq_value [OF assms(1)] by (auto simp: AList.delete_eq)

lemma room_turn_inv:
  assumes inv: "server_inv w" and i: "i < w_rooms w" and go: "\<not> rp_done (w_room w i)"
    and t: "takes x rest (w_room w i)" and ev: "ev_closed ev = (\<lambda>c. ss_closed (w_sess w c))"
  shows "server_inv (room_turn ox ev i x rest w)"
proof -
  define p where "p = w_room w i"
  define l' where "l' = turned ev x rest (rp_loop p)"
  define xs where "xs = fresh_out (rp_loop p) l'"
  define w1 where "w1 = upd_room i (\<lambda>_. after_turn l' rest p) w"
  define w' where "w' = fold (perform ox i) xs w1"
  have turn: "room_turn ox ev i x rest w = w'"
    unfolding room_turn_def w'_def xs_def w1_def l'_def turned_def p_def Let_def
    by (simp add: after_turn_def upd_room_def)
  have p: "proc_ok (greeted w) p" "seats_ok (bound w i) (ended w) p" "\<not> rp_done p"
    using inv i go by (simp_all add: server_inv_def rooms_ok_def p_def)
  have tp: "takes x rest p" using t by (simp add: p_def)
  have li: "loop_inv (rp_loop p)" using p(1) by (simp add: proc_ok_def)
  note f = turned_facts [OF li p(3) takes_admissible [OF p(1,3) tp], where ev = ev and rest = rest, folded l'_def, folded xs_def]
  have m: "moved i xs w1 w'" unfolding w'_def by (rule moved_fold)
  have w1: "w_rooms w1 = w_rooms w" "w_conns w1 = w_conns w" "w_sess w1 = w_sess w" "w_hub w1 = w_hub w"
    "w_room w1 i = after_turn l' rest p" "\<And>j. j \<noteq> i \<Longrightarrow> w_room w1 j = w_room w j" "bound w1 = bound w"
    by (auto simp: w1_def upd_room_def bound_def fun_eq_iff)
  have sets: "greeted w' = greeted w" "ended w' = ended w"
    using m w1 by (auto simp: moved_def greeted_def ended_def)
  have at: "rp_room (after_turn l' rest p) = lp_room l'" "rp_done (after_turn l' rest p) = lp_done l'"
    by (simp_all add: after_turn_def)
  have loops: "rp_loop (w_room w' j) = (if j = i then l' else rp_loop (w_room w j))" for j
    using m w1(5) w1(6) [of j] by (auto simp: moved_def more_notices_def after_turn_def)
  have rooms: "rooms_ok w'"
    unfolding rooms_ok_def sets
  proof (intro allI impI)
    fix j assume j: "j < w_rooms w'"
    have n: "more_notices (w_room w1 j) (w_room w' j)" using m by (simp add: moved_def)
    show "proc_ok (greeted w) (w_room w' j) \<and> (\<not> rp_done (w_room w' j) \<longrightarrow> seats_ok (bound w' j) (ended w) (w_room w' j))"
    proof (cases "j = i")
      case True
      have "proc_ok (greeted w) (w_room w' i)"
        using more_notices_proc [OF after_turn_ok [OF p(1,3) tp, of ev]] n w1(5) True by (simp add: l'_def)
      moreover have "seats_ok (bound w' i) (ended w) (w_room w' i)" if "\<not> rp_done (w_room w' i)"
      proof (rule seats_ok_moved)
        have gone: "ev_closed ev c" if "c \<in> ended w" for c
          using that inv ev by (simp add: server_inv_def conns_ok_def ended_def)
        show "seats_ok (fold move_of xs (bound w i)) (ended w) (after_turn l' rest p)"
          unfolding xs_def l'_def
          by (rule after_turn_seats [OF p tp gone]) (use that loops in \<open>auto simp: l'_def\<close>)
        show "more_notices (after_turn l' rest p) (w_room w' i)" using n w1(5) True by simp
      qed (use m w1(7) in \<open>simp add: moved_def\<close>)
      ultimately show ?thesis using True by simp
    next
      case False
      then have old: "proc_ok (greeted w) (w_room w j)" "\<not> rp_done (w_room w j) \<longrightarrow> seats_ok (bound w j) (ended w) (w_room w j)"
        using inv j m w1(1) by (auto simp: server_inv_def rooms_ok_def moved_def)
      have n': "more_notices (w_room w j) (w_room w' j)" using n w1(6) False by simp
      have "seats_ok (bound w' j) (ended w) (w_room w' j)" if "\<not> rp_done (w_room w' j)"
      proof (rule seats_ok_moved [OF _ n'])
        show "seats_ok (bound w j) (ended w) (w_room w j)" using old(2) that loops False by simp
        show "bound w' j c = Some q \<or> (c, q) \<in> notices (w_room w' j)" if "bound w j c = Some q" for c q
          using m that False w1(7) by (simp add: moved_def)
      qed
      then show ?thesis using more_notices_proc [OF old(1) n'] by blast
    qed
  qed
  have conns: "conns_ok w'"
    unfolding conns_ok_def sets
  proof (intro conjI allI impI)
    show "ss_closed (w_sess w' c)" if "ss_phase (w_sess w' c) = Ended" for c
      using that inv m w1(3) by (simp add: conns_ok_def server_inv_def moved_def)
    show "j < w_rooms w'" if "ss_room (w_sess w' c) = Some j" for c j
    proof -
      have "ss_room (w_sess w' c) = ss_room (w_sess w1 c) \<or> ss_room (w_sess w' c) = None \<or> ss_room (w_sess w' c) = Some i"
        using m unfolding moved_def by blast
      then have "ss_room (w_sess w c) = Some j \<or> j = i" using that w1(3) by auto
      moreover have "w_rooms w' = w_rooms w" using m w1(1) by (simp add: moved_def)
      ultimately show ?thesis using inv i by (auto simp: conns_ok_def server_inv_def)
    qed
    show "insert c (partner k) \<subseteq> greeted w" if "ss_phase (w_sess w' c) = InCall k" for c k
    proof -
      have "ss_phase (w_sess w c) = InCall k" using m that w1(3) by (simp add: moved_def)
      then show ?thesis using inv unfolding server_inv_def conns_ok_def by blast
    qed
  qed
  have queue: "queue_ok w'"
  proof -
    have "distinct (h_waiting (w_hub w1))" using inv w1 by (simp add: server_inv_def queue_ok_def)
    then have "distinct (h_waiting (w_hub w')) \<and> set (h_waiting (w_hub w')) \<subseteq> set (h_waiting (w_hub w))"
      using m w1 by (auto simp: moved_def)
    then show ?thesis using inv unfolding queue_ok_def sets server_inv_def by blast
  qed
  have code: "rm_code (lp_room l') = rm_code (rp_room p)" by (rule f(3))
  have reg: "registry_ok w'"
  proof -
    have old: "distinct (map fst (h_rooms (w_hub w)))"
      "\<And>c j. (c, j) \<in> set (h_rooms (w_hub w)) \<longleftrightarrow> j < w_rooms w \<and> \<not> rp_done (w_room w j) \<and> rm_code (rp_room (w_room w j)) = c"
      "int (length (h_rooms (w_hub w))) \<le> h_maxRooms (w_hub w)"
      using inv by (simp_all add: server_inv_def registry_ok_def)
    have mine: "(rm_code (rp_room p), i) \<in> set (h_rooms (w_hub w))" using old(2) i go by (simp add: p_def)
    have h: "h_rooms (w_hub w') = (if lp_done l' then AList.delete (rm_code (rp_room p)) (h_rooms (w_hub w)) else h_rooms (w_hub w))"
      using m w1 f(6) code at(1) by (simp add: moved_def)
    have mr: "h_maxRooms (w_hub w') = h_maxRooms (w_hub w)" "w_rooms w' = w_rooms w" using m w1 by (simp_all add: moved_def)
    show ?thesis
    proof (cases "lp_done l'")
      case True
      have "(c, j) \<in> set (h_rooms (w_hub w')) \<longleftrightarrow> (c, j) \<in> set (h_rooms (w_hub w)) \<and> j \<noteq> i" for c j
        using delete_key_pairs [OF old(1) mine] old(2) mine eq_key_imp_eq_value [OF old(1)] unfolding h
        by (auto simp: True p_def)
      then show ?thesis
        using old True length_delete_le [of "rm_code (rp_room p)" "h_rooms (w_hub w)"] unfolding registry_ok_def mr loops
        by (auto simp: h distinct_delete)
    next
      case False
      then show ?thesis using old go code unfolding registry_ok_def mr h loops by (auto simp: p_def)
    qed
  qed
  have live: "live_ok w'"
  proof -
    have "(\<Sum>j < w_rooms w. balance (rm_out (rp_room (w_room w' j)))) =
        (\<Sum>j < w_rooms w. balance (rm_out (rp_room (w_room w j)))) + balance xs"
      by (rule sum_room [OF i]) (simp_all add: loops f(4), simp add: p_def)
    then show ?thesis using inv m w1 by (simp add: live_ok_def server_inv_def moved_def)
  qed
  show ?thesis unfolding turn server_inv_def using rooms conns queue reg live by blast
qed

end
