(* ===== verification/Server_Steps.thy ===== *)
theory Server_Steps
  imports Server_Turn
begin

text \<open>
  Everything else that happens to the server keeps its invariant: inputs posted to rooms, rooms opened, the
  queue, the messages of the clients, connections that come and go, the shutdown.
\<close>

subsection \<open>Posting\<close>

definition postable :: "conn set \<Rightarrow> room_input \<Rightarrow> room_proc \<Rightarrow> bool" where
  "postable G m p \<longleftrightarrow> seater m \<subseteq> G \<and> (opens m \<longrightarrow> rp_inputs p = [] \<and> \<not> occupied (rp_room p)) \<and>
     resumes m \<inter> (fst ` pairs (rp_room p) \<union> \<Union> (seater ` set (rp_inputs p))) = {}"

lemma opens_append:
  assumes "\<forall>x \<in> set (tl xs). \<not> opens x" and "opens m \<longrightarrow> xs = []"
  shows "\<forall>x \<in> set (tl (xs @ [m])). \<not> opens x"
  using assms by (cases xs) auto

lemma proc_ok_post:
  assumes "proc_ok G p" and "\<not> rp_done p \<Longrightarrow> postable G m p"
  shows "proc_ok G (p\<lparr>rp_inputs := rp_inputs p @ [m]\<rparr>)"
proof (cases "rp_done p")
  case True
  with assms(1) show ?thesis by (simp add: proc_ok_def rp_over_def)
next
  case False
  define r where "r = rp_room p"
  define xs where "xs = rp_inputs p"
  have p: "loop_inv (rp_loop p)" "\<forall>x \<in> set (tl xs). \<not> opens x" "\<And>x ms. xs = x # ms \<Longrightarrow> opens x \<Longrightarrow> \<not> occupied r"
      "inbox_ok (fst ` pairs r) xs" "\<forall>x \<in> set (rp_notices p). \<exists>q c. x = disconnectInput q c"
      "fst ` pairs r \<union> \<Union> (seater ` set xs) \<subseteq> G"
    using assms(1) False unfolding proc_ok_def r_def xs_def by blast+
  have m: "seater m \<subseteq> G" "opens m \<longrightarrow> xs = [] \<and> \<not> occupied r"
      "resumes m \<inter> (fst ` pairs r \<union> \<Union> (seater ` set xs)) = {}"
    using assms(2) [OF False] unfolding postable_def r_def xs_def by blast+
  have "\<forall>x \<in> set (tl (xs @ [m])). \<not> opens x" by (rule opens_append) (use p(2) m(2) in auto)
  moreover have "\<not> occupied r" if "xs @ [m] = x # ms" "opens x" for x ms
  proof -
    have "xs = [] \<and> m = x \<or> (\<exists>ys. xs = x # ys)" using that(1) by (auto simp: append_eq_Cons_conv)
    then show ?thesis using p(3) m(2) that(2) by blast
  qed
  moreover have "inbox_ok (fst ` pairs r) (xs @ [m])" using p(4) m(3) by (simp only: inbox_ok_append)
  moreover have "fst ` pairs r \<union> \<Union> (seater ` set (xs @ [m])) \<subseteq> G" using p(6) m(1) by auto
  ultimately show ?thesis
    using p(1,5) False unfolding proc_ok_def r_def [symmetric] by (simp add: r_def [symmetric] xs_def [symmetric])
qed

lemma seats_ok_post: "seats_ok b E p \<Longrightarrow> seats_ok b E (p\<lparr>rp_inputs := rp_inputs p @ [m]\<rparr>)"
  unfolding seats_ok_def knows_def by (auto simp: notices_def rp_over_def)

text \<open>A step on one room that leaves its loop alone.\<close>

lemma room_update_inv:
  assumes inv: "server_inv w"
    and l: "\<And>p. rp_done (f p) = rp_done p \<and> rm_code (rp_room (f p)) = rm_code (rp_room p) \<and> rm_out (rp_room (f p)) = rm_out (rp_room p)"
    and p: "i < w_rooms w \<Longrightarrow> proc_ok (greeted w) (f (w_room w i))"
    and s: "i < w_rooms w \<Longrightarrow> \<not> rp_done (w_room w i) \<Longrightarrow> seats_ok (bound w i) (ended w) (f (w_room w i))"
  shows "server_inv (upd_room i f w)"
proof -
  have w: "w_rooms (upd_room i f w) = w_rooms w" "w_hub (upd_room i f w) = w_hub w" "w_sess (upd_room i f w) = w_sess w"
    "w_conns (upd_room i f w) = w_conns w" "\<And>j. w_room (upd_room i f w) j = (if j = i then f (w_room w i) else w_room w j)"
    by (simp_all add: upd_room_def)
  have g: "greeted (upd_room i f w) = greeted w" "ended (upd_room i f w) = ended w" "bound (upd_room i f w) = bound w"
    by (simp_all add: greeted_def ended_def bound_def w fun_eq_iff)
  have "rooms_ok (upd_room i f w)"
    unfolding rooms_ok_def g w using inv p s l by (auto simp: server_inv_def rooms_ok_def)
  moreover have "rp_done (w_room (upd_room i f w) j) = rp_done (w_room w j)"
      "rm_code (rp_room (w_room (upd_room i f w) j)) = rm_code (rp_room (w_room w j))"
      "rm_out (rp_room (w_room (upd_room i f w) j)) = rm_out (rp_room (w_room w j))" for j by (simp_all add: w l)
  ultimately show ?thesis
    using inv unfolding server_inv_def conns_ok_def queue_ok_def registry_ok_def live_ok_def g w(1-4) by simp
qed

lemma post_inv:
  assumes inv: "server_inv w" and m: "i < w_rooms w \<Longrightarrow> \<not> rp_done (w_room w i) \<Longrightarrow> postable (greeted w) m (w_room w i)"
  shows "server_inv (snd (room_send i m w))"
proof -
  have "server_inv (upd_room i (\<lambda>p. p\<lparr>rp_inputs := rp_inputs p @ [m]\<rparr>) w)"
    by (rule room_update_inv [OF inv])
      (use inv m in \<open>auto simp: server_inv_def rooms_ok_def intro!: proc_ok_post seats_ok_post\<close>)
  with inv show ?thesis by (simp add: room_send_def)
qed

text \<open>Most inputs neither open a room nor resume.\<close>

lemma post_plain_inv:
  "server_inv w \<Longrightarrow> \<not> opens m \<Longrightarrow> resumes m = {} \<Longrightarrow> seater m \<subseteq> greeted w \<Longrightarrow> server_inv (snd (room_send i m w))"
  by (rule post_inv) (simp_all add: postable_def)

lemma notice_inv:
  assumes "server_inv w"
  shows "server_inv (sendReliably i (disconnectInput q c) w)"
  unfolding sendReliably_def
  by (rule room_update_inv [OF assms])
    (use assms in \<open>auto simp: server_inv_def rooms_ok_def proc_ok_def seats_ok_def knows_def notices_def rp_over_def\<close>)

subsection \<open>The hub\<close>

lemma hub_inv:
  assumes inv: "server_inv w" and f: "h_rooms (f (w_hub w)) = h_rooms (w_hub w)" "h_liveGames (f (w_hub w)) = h_liveGames (w_hub w)"
      "h_maxRooms (f (w_hub w)) = h_maxRooms (w_hub w)"
    and q: "distinct (h_waiting (f (w_hub w)))"
      "\<And>c. c \<in> set (h_waiting (f (w_hub w))) \<Longrightarrow> c \<in> greeted w - ended w"
  shows "server_inv (upd_hub f w)"
proof -
  have g: "greeted (upd_hub f w) = greeted w" "ended (upd_hub f w) = ended w" "bound (upd_hub f w) = bound w"
    by (simp_all add: greeted_def ended_def bound_def upd_hub_def fun_eq_iff)
  show ?thesis using inv q subsetI [of "set (h_waiting (f (w_hub w)))" "greeted w - ended w"]
    unfolding server_inv_def rooms_ok_def conns_ok_def queue_ok_def registry_ok_def live_ok_def g
    by (simp add: upd_hub_def f)
qed

lemma queue_waiters:
  "server_inv w \<Longrightarrow> c \<in> set (h_waiting (w_hub w)) \<Longrightarrow> c \<in> greeted w - ended w"
  unfolding server_inv_def queue_ok_def by blast

lemma queue_distinct: "server_inv w \<Longrightarrow> distinct (h_waiting (w_hub w))"
  by (simp add: server_inv_def queue_ok_def)

lemma cancelQuickMatch_inv: "server_inv w \<Longrightarrow> server_inv (upd_hub (cancelQuickMatch c) w)"
  by (rule hub_inv) (auto simp: cancelQuickMatch_def queue_distinct dest: queue_waiters)

lemma update_new: "k \<notin> fst ` set xs \<Longrightarrow> AList.update k v xs = xs @ [(k, v)]"
  by (induction xs) auto

lemma unusedCode_new: "unusedCode draw h = Some code \<Longrightarrow> code \<notin> fst ` set (h_rooms h)"
  unfolding unusedCode_def find_Some_iff by (auto simp: map_of_eq_None_iff)

lemma register_room_error: "register_room ox mode w = (Inl err, w') \<Longrightarrow> w' = w"
  by (auto simp: register_room_def Let_def split: if_splits option.splits)

lemma register_room_ok:
  assumes inv: "server_inv w" and n: "register_room ox mode w = (Inr i, w')"
  shows "server_inv w' \<and> i < w_rooms w' \<and> rp_inputs (w_room w' i) = [] \<and> \<not> occupied (rp_room (w_room w' i)) \<and>
    greeted w' = greeted w \<and> ended w' = ended w \<and> w_conns w' = w_conns w \<and>
    w_sess w' = w_sess w \<and> h_waiting (w_hub w') = h_waiting (w_hub w)"
proof -
  define h where "h = w_hub w"
  obtain code where code: "unusedCode (ox_codes ox) h = Some code" "int (length (h_rooms h)) < h_maxRooms h"
      and i: "i = w_rooms w"
      and w': "w' = w\<lparr>w_hub := h\<lparr>h_rooms := AList.update code i (h_rooms h)\<rparr>,
        w_room := (w_room w)(i := start_room (newRoom (h_dict h) code (h_turnLimit h) (h_graceFor h) (h_idleFor h) mode)),
        w_rooms := i + 1\<rparr>"
    using n by (auto simp: register_room_def Let_def h_def split: if_splits option.splits)
  define r where "r = newRoom (h_dict h) code (h_turnLimit h) (h_graceFor h) (h_idleFor h) mode"
  have new: "code \<notin> fst ` set (h_rooms h)" by (rule unusedCode_new [OF code(1)])
  have upd: "AList.update code i (h_rooms h) = h_rooms h @ [(code, i)]" by (rule update_new [OF new])
  have sits: "sits r = replicate maxPlayers None" by (simp add: r_def newRoom_def sits_def)
  have empty: "\<not> occupied r" "pairs r = {}" unfolding occupied_sits pairs_def sits by simp_all
  have room: "w_room w' j = (if j = i then start_room r else w_room w j)" for j by (simp add: w' r_def)
  have g: "greeted w' = greeted w" "ended w' = ended w" "bound w' = bound w"
    by (simp_all add: greeted_def ended_def bound_def w' fun_eq_iff)
  have start: "loop_inv (start_loop r)"
    using newRoom_inv [of "h_dict h" code "h_turnLimit h" "h_graceFor h" "h_idleFor h" mode]
    by (simp add: loop_inv_def start_loop_def r_def) (simp add: room_inv_def)
  have "proc_ok G (start_room r)" for G using start empty by (simp add: proc_ok_def start_room_def) (simp add: start_loop_def empty)
  moreover have "seats_ok b E (start_room r)" for b E
    by (simp add: seats_ok_def knows_def start_room_def start_loop_def empty)
  ultimately have "rooms_ok w'" using inv unfolding rooms_ok_def g room
    by (simp add: server_inv_def rooms_ok_def w' i less_Suc_eq)
  moreover have "conns_ok w'" using inv unfolding server_inv_def conns_ok_def g by (auto simp: w' i intro: less_SucI)
  moreover have "queue_ok w'" using inv unfolding server_inv_def queue_ok_def g by (simp add: w' h_def)
  moreover have "registry_ok w'"
  proof -
    have old: "distinct (map fst (h_rooms h))"
      "\<And>c j. (c, j) \<in> set (h_rooms h) \<longleftrightarrow> j < w_rooms w \<and> \<not> rp_done (w_room w j) \<and> rm_code (rp_room (w_room w j)) = c"
      using inv by (simp_all add: server_inv_def registry_ok_def h_def)
    have rc: "rm_code r = code" by (simp add: r_def newRoom_def)
    have w1: "h_rooms (w_hub w') = h_rooms h @ [(code, w_rooms w)]" "h_maxRooms (w_hub w') = h_maxRooms h"
        "w_rooms w' = Suc (w_rooms w)"
      by (simp_all add: w' upd i [symmetric])
    have "(c, j) \<in> set (h_rooms h @ [(code, w_rooms w)]) \<longleftrightarrow> j < Suc (w_rooms w) \<and> \<not> rp_done (w_room w' j) \<and>
        rm_code (rp_room (w_room w' j)) = c" for c j
      using old(2) [of c j] rc unfolding room by (auto simp: i start_room_def start_loop_def less_Suc_eq)
    then show ?thesis using old(1) new code(2) unfolding registry_ok_def w1 by simp
  qed
  moreover have "live_ok w'"
  proof -
    have "(\<Sum>j < w_rooms w'. balance (rm_out (rp_room (w_room w' j)))) =
        (\<Sum>j < w_rooms w. balance (rm_out (rp_room (w_room w' j)))) + balance (rm_out r)"
      by (simp add: w' i start_room_def start_loop_def r_def)
    also have "(\<Sum>j < w_rooms w. balance (rm_out (rp_room (w_room w' j)))) =
        (\<Sum>j < w_rooms w. balance (rm_out (rp_room (w_room w j))))"
      by (rule sum.cong) (simp_all add: room i)
    finally show ?thesis using inv by (simp add: live_ok_def server_inv_def w' h_def r_def newRoom_def balance_def)
  qed
  ultimately have "server_inv w'" unfolding server_inv_def by blast
  moreover have "i < w_rooms w'" "w_conns w' = w_conns w" "w_sess w' = w_sess w"
      "h_waiting (w_hub w') = h_waiting (w_hub w)" by (simp_all add: w' i h_def)
  moreover have "rp_inputs (w_room w' i) = []" "rp_room (w_room w' i) = r"
    by (simp_all add: room start_room_def start_loop_def)
  ultimately show ?thesis using g empty by simp
qed

lemma open_inv:
  assumes "server_inv w" and "register_room ox mode w = (Inr i, w')" and "seater m \<subseteq> greeted w" and "resumes m = {}"
  shows "server_inv (snd (room_send i m w'))"
  by (rule post_inv) (use register_room_ok [OF assms(1,2)] assms(3,4) in \<open>simp_all add: postable_def\<close>)

lemma first_input_inv:
  assumes "server_inv w" and "seater m \<subseteq> greeted w" and "resumes m = {}"
  shows "server_inv (snd (first_input m (register_room ox mode w)))"
proof (cases "register_room ox mode w")
  case (Pair res w')
  then show ?thesis using assms register_room_error [of ox mode w] open_inv [of w ox mode _ w' m]
    by (cases res) (auto simp: first_input_def)
qed

lemma joinRoom_inv: "server_inv w \<Longrightarrow> c \<in> greeted w \<Longrightarrow> server_inv (snd (joinRoom code c w))"
  using post_plain_inv [of w "joinInput c"] by (simp add: joinRoom_def case_prod_beta split: option.split)

text \<open>The waiter taken out is the first one still connected; who waited before it is gone.\<close>

lemma next_waiter_None: "next_waiter gone cs = (None, rest) \<Longrightarrow> rest = [] \<and> (\<forall>d \<in> set cs. gone d)"
  by (induction cs) (auto split: if_splits)

lemma next_waiter_Some:
  "next_waiter gone cs = (Some d, rest) \<Longrightarrow> \<exists>before. cs = before @ d # rest \<and> (\<forall>b \<in> set before. gone b) \<and> \<not> gone d"
proof (induction cs)
  case (Cons a cs)
  show ?case
  proof (cases "gone a")
    case True
    with Cons obtain before where "cs = before @ d # rest" "\<forall>b \<in> set before. gone b" "\<not> gone d" by auto
    then show ?thesis using True by (intro exI [of _ "a # before"]) simp
  next
    case False
    with Cons.prems show ?thesis by (intro exI [of _ "[]"]) simp
  qed
qed simp

lemma mild_greeted: "mild w w' \<Longrightarrow> c \<in> greeted w \<Longrightarrow> c \<in> greeted w'"
  by (simp add: mild_sets)

lemma take_waiter_inv:
  assumes inv: "server_inv w" and c: "c \<in> greeted w - ended w"
  shows "server_inv (snd (take_waiter c w)) \<and> greeted (snd (take_waiter c w)) = greeted w \<and>
    w_sess (snd (take_waiter c w)) = w_sess w \<and> (\<forall>d. fst (take_waiter c w) = Partner d \<longrightarrow> d \<in> greeted w)"
proof (cases "c \<in> set (h_waiting (w_hub w))")
  case False
  obtain waiter rest where n: "next_waiter (\<lambda>d. ss_closed (w_sess w d)) (h_waiting (w_hub w)) = (waiter, rest)" by fastforce
  define w1 where "w1 = upd_hub (\<lambda>h. h\<lparr>h_waiting := rest\<rparr>) w"
  have "\<exists>before. h_waiting (w_hub w) = before @ rest \<and> set_option waiter \<subseteq> set before"
  proof (cases waiter)
    case None
    then show ?thesis using next_waiter_None n by fastforce
  next
    case (Some d)
    then obtain before where "h_waiting (w_hub w) = before @ d # rest" using next_waiter_Some n by blast
    then show ?thesis using Some by (intro exI [of _ "before @ [d]"]) simp
  qed
  then have sub: "set rest \<subseteq> set (h_waiting (w_hub w))" "distinct rest" "set_option waiter \<subseteq> set (h_waiting (w_hub w))"
    using queue_distinct [OF inv] by auto
  have w1: "server_inv w1" unfolding w1_def by (rule hub_inv [OF inv]) (use sub queue_waiters [OF inv] in auto)
  have g1: "greeted w1 = greeted w" "ended w1 = ended w" "w_sess w1 = w_sess w" "h_waiting (w_hub w1) = rest"
    by (simp_all add: greeted_def ended_def w1_def upd_hub_def)
  show ?thesis
  proof (cases waiter)
    case None
    have "server_inv (upd_hub (\<lambda>h. h\<lparr>h_waiting := h_waiting h @ [c]\<rparr>) w1)"
      by (rule hub_inv [OF w1]) (use sub False c queue_waiters [OF inv] in \<open>auto simp: g1\<close>)
    then show ?thesis using False n None unfolding take_waiter_def w1_def
      by (simp add: greeted_def upd_hub_def)
  next
    case (Some d)
    then have "d \<in> greeted w" using sub(3) queue_waiters [OF inv] by auto
    then show ?thesis using False n Some w1 g1 by (simp add: take_waiter_def w1_def)
  qed
qed (use inv in \<open>simp add: take_waiter_def\<close>)

lemma send_inv: "server_inv w \<Longrightarrow> server_inv (send_to ox c m w)"
  using mild_inv mild_send by blast

lemma pair_up_inv:
  assumes inv: "server_inv w" and cd: "c \<in> greeted w" "d \<in> greeted w"
  shows "server_inv (snd (pair_up ox c d (register_room ox' mode w)))"
proof (cases "register_room ox' mode w")
  case (Pair res w2)
  show ?thesis
  proof (cases res)
    case (Inl err)
    then show ?thesis using Pair register_room_error [of ox' mode w err w2] send_inv [OF inv]
      by (simp add: pair_up_def)
  next
    case (Inr i)
    note ok = register_room_ok [OF inv Pair [unfolded Inr]]
    define w3 where "w3 = send_to ox c (quickMatchStatusMsg False) (send_to ox d (quickMatchStatusMsg False) w2)"
    have m: "mild w2 w3" unfolding w3_def by (intro mild_send_then mild_refl)
    then have w3: "server_inv w3" "greeted w3 = greeted w" "w_room w3 = w_room w2"
      using mild_inv [OF m] mild_sets(1) [OF m] ok m by (simp_all add: mild_def)
    have w4: "server_inv (snd (room_send i (createInput d True) w3))"
      by (rule post_inv [OF w3(1)]) (use ok cd w3 in \<open>simp add: postable_def\<close>)
    have "greeted (snd (room_send i (createInput d True) w3)) = greeted w3"
      by (simp add: room_send_def greeted_def upd_room_def)
    then have "server_inv (snd (room_send i (joinInput c) (snd (room_send i (createInput d True) w3))))"
      by (intro post_plain_inv [OF w4]) (use cd w3 in simp_all)
    then show ?thesis by (simp add: pair_up_def Pair Inr w3_def)
  qed
qed

subsection \<open>The messages\<close>

lemma answer_inv: "server_inv w \<Longrightarrow> server_inv (answer ox c code w)"
  using mild_inv mild_answer by blast

lemma mild_allowRoom: "mild w (snd (allowRoom ox c w))"
proof -
  have h: "mild w (upd_hub (\<lambda>h. h\<lparr>h_roomLimiter := l\<rparr>) w)" for l w by (rule mild_hub) simp
  show ?thesis
    using mild_charge [of w ox roomLimiter c] mild_trans [OF _ h] mild_answer_then
    by (auto simp: allowRoom_def Let_def case_prod_beta)
qed

lemma mild_refuse: "mild w (snd (refuseMidGame ox c w))"
  by (simp add: refuseMidGame_def)

lemma post_answer_inv:
  assumes "server_inv w" and "\<not> opens m" and "resumes m = {}" and "seater m \<subseteq> greeted w"
  shows "server_inv (let (sent, w) = room_send i m w in if sent then w else answer ox c code w)"
  using post_plain_inv [OF assms, of i] by (simp add: case_prod_beta answer_inv)

text \<open>Inputs about a seat one already has.\<close>

fun seated_input :: "room_input \<Rightarrow> bool" where
  "seated_input m \<longleftrightarrow> \<not> opens m \<and> resumes m = {} \<and> seater m = {}"

lemma toRoom_inv:
  assumes inv: "server_inv w" and b: "\<And>p. seated_input (build p)"
  shows "server_inv (toRoom ox c limiter notIn dropped build w)"
proof -
  define res where "res = (case limiter of None \<Rightarrow> (True, w) | Some b \<Rightarrow> charge ox b c w)"
  have "mild w (snd res)" by (simp add: res_def split: option.split)
  then have r: "server_inv (snd res)" using inv by (rule mild_inv)
  have post: "server_inv (let (sent, w) = room_send i (build p) (snd res) in if sent then w else answer ox c dropped w)" for i p
    by (rule post_answer_inv [OF r]) (use b [of p] in simp_all)
  show ?thesis
    unfolding toRoom_def res_def [symmetric]
    using r post by (simp add: case_prod_beta answer_inv currentRoom_def split: option.split)
qed

lemma answer_error_inv: "server_inv (snd r) \<Longrightarrow> server_inv (answer_error ox c r)"
  by (cases r) (auto simp: answer_error_def send_inv split: option.split)

lemma answer_match_inv: "server_inv (snd r) \<Longrightarrow> server_inv (answer_match ox c r)"
  by (cases r) (auto simp: answer_match_def send_inv answer_inv split: option.split)

lemma resumeFrom_inv:
  assumes inv: "server_inv w" and c: "c \<in> greeted w"
    and new: "\<And>i. i < w_rooms w \<Longrightarrow> \<not> rp_done (w_room w i) \<Longrightarrow>
      c \<notin> fst ` pairs (rp_room (w_room w i)) \<union> \<Union> (seater ` set (rp_inputs (w_room w i)))"
  shows "server_inv (resumeFrom ox c prior w)"
proof -
  have "server_inv (snd (room_send i (resumeInput p c prior) w))" for i p
    by (rule post_inv [OF inv]) (use c new in \<open>simp add: postable_def\<close>)
  then show ?thesis
    by (auto simp: resumeFrom_def currentRoom_def case_prod_beta answer_inv inv split: option.split)
qed


text \<open>The handshake: from then on the connection is one of those that may sit.\<close>

lemma greet_inv:
  assumes inv: "server_inv w" and c: "c < w_conns w"
    and f: "\<And>s. ss_greeted (f s) \<and> ss_phase (f s) = ss_phase s \<and> ss_room (f s) = ss_room s \<and>
      ss_playerID (f s) = ss_playerID s \<and> ss_closed (f s) = ss_closed s"
  shows "server_inv (upd_sess c f w) \<and> greeted (upd_sess c f w) = insert c (greeted w)"
proof -
  have g: "greeted (upd_sess c f w) = insert c (greeted w)" "ended (upd_sess c f w) = ended w" "bound (upd_sess c f w) = bound w"
    using f c by (auto simp: greeted_def ended_def bound_def upd_sess_def fun_eq_iff)
  have "rooms_ok (upd_sess c f w)" unfolding rooms_ok_def g
    using inv proc_ok_mono [OF _ subset_insertI] by (simp add: server_inv_def rooms_ok_def upd_sess_def)
  moreover have "conns_ok (upd_sess c f w)" unfolding conns_ok_def g
  proof (intro conjI allI impI)
    show "insert d (partner k) \<subseteq> insert c (greeted w)" if "ss_phase (w_sess (upd_sess c f w) d) = InCall k" for d k
    proof -
      have "ss_phase (w_sess w d) = InCall k" using that f by (simp add: upd_sess_def split: if_splits)
      then show ?thesis using inv unfolding server_inv_def conns_ok_def by blast
    qed
  qed (use inv f in \<open>auto simp: server_inv_def conns_ok_def upd_sess_def split: if_splits\<close>)
  moreover have "queue_ok (upd_sess c f w)" using inv unfolding server_inv_def queue_ok_def g by (auto simp: upd_sess_def)
  ultimately show ?thesis using inv g(1) unfolding server_inv_def registry_ok_def live_ok_def by (simp add: upd_sess_def)
qed

lemma proc_seated:
  "server_inv w \<Longrightarrow> i < w_rooms w \<Longrightarrow> \<not> rp_done (w_room w i) \<Longrightarrow>
    fst ` pairs (rp_room (w_room w i)) \<union> \<Union> (seater ` set (rp_inputs (w_room w i))) \<subseteq> greeted w"
  by (simp add: server_inv_def rooms_ok_def proc_ok_def)

lemma handleHello_inv:
  assumes inv: "server_inv w" and c: "c < w_conns w"
  shows "server_inv (snd (handleHello ox c version nickname token w))"
proof (cases "version = ProtocolVersion \<and> \<not> ss_greeted (w_sess w c)")
  case False
  then show ?thesis using inv by (auto simp: handleHello_def answer_inv)
next
  case True
  define w1 where "w1 = upd_sess c (\<lambda>s. s\<lparr>ss_greeted := True, ss_helloTimer := False,
      ss_nick := sanitizeNickname (ox_unicode ox) nickname\<rparr>) w"
  define w2 where "w2 = upd_hub (hub_register (ss_resumeToken (w_sess w1 c)) c) w1"
  define w3 where "w3 = send_to ox c (welcomeMsg (ss_id (w_sess w1 c)) (ss_resumeToken (w_sess w1 c)) (ss_nick (w_sess w1 c))) w2"
  have g: "server_inv w1 \<and> greeted w1 = insert c (greeted w)"
    unfolding w1_def by (rule greet_inv [OF inv c]) simp
  have "mild w1 w2" unfolding w2_def by (rule mild_hub) (simp add: hub_register_def)
  then have m: "mild w1 w3" unfolding w3_def by (rule mild_send_then)
  then have w3: "server_inv w3" "c \<in> greeted w3" "w_room w3 = w_room w" "w_rooms w3 = w_rooms w"
    using mild_inv [OF m] mild_sets(1) [OF m] g by (simp_all add: mild_def) (simp_all add: w1_def upd_sess_def)
  have new: "c \<notin> greeted w" using True by (simp add: greeted_def)
  have "server_inv (resumeFrom ox c prior w3)" for prior
    by (rule resumeFrom_inv [OF w3(1,2)]) (use proc_seated [OF inv] new w3(3,4) in \<open>simp, blast\<close>)
  then show ?thesis
    using True w3(1) unfolding handleHello_def Let_def w1_def [symmetric] w2_def [symmetric] w3_def [symmetric]
    by (simp add: answer_inv split: option.split)
qed

lemma after_refuse:
  assumes "server_inv w" and "\<And>w'. mild w w' \<Longrightarrow> server_inv w' \<Longrightarrow> server_inv (f w')"
  shows "server_inv (let (refused, w) = refuseMidGame ox c w in if refused then w else f w)"
  using assms mild_inv [OF mild_refuse] mild_refuse [of w ox c] by (simp add: case_prod_beta Let_def)

lemma after_allow:
  assumes "server_inv w" and "\<And>w'. mild w w' \<Longrightarrow> server_inv w' \<Longrightarrow> server_inv (f w')"
  shows "server_inv (let (ok, w) = allowRoom ox c w in if \<not> ok then w else f w)"
  using assms mild_inv [OF mild_allowRoom] mild_allowRoom [of w ox c] by (simp add: case_prod_beta Let_def)

text \<open>A call of the hub: entered by a connection that has said hello, and left again.\<close>

lemma returns_inv: "server_inv w \<Longrightarrow> ss_phase (w_sess w c) \<noteq> Ended \<Longrightarrow> server_inv (returns c w)"
  unfolding returns_def by (rule mild_inv [OF mild_sess]) simp_all

lemma enter_inv:
  assumes inv: "server_inv w" and c: "c \<notin> ended w" and k: "insert c (partner k) \<subseteq> greeted w"
  shows "server_inv (enter c k w)"
proof -
  have g: "greeted (enter c k w) = greeted w" "ended (enter c k w) = ended w" "bound (enter c k w) = bound w"
    using c by (auto simp: greeted_def ended_def bound_def enter_def upd_sess_def fun_eq_iff)
  have "conns_ok (enter c k w)" unfolding conns_ok_def g
  proof (intro conjI allI impI)
    show "insert d (partner k') \<subseteq> greeted w" if "ss_phase (w_sess (enter c k w) d) = InCall k'" for d k'
    proof (cases "d = c")
      case True
      then show ?thesis using k that by (simp add: enter_def upd_sess_def)
    next
      case False
      then have "ss_phase (w_sess w d) = InCall k'" using that by (simp add: enter_def upd_sess_def)
      then show ?thesis using inv unfolding server_inv_def conns_ok_def by blast
    qed
  qed (use inv in \<open>auto simp: server_inv_def conns_ok_def enter_def upd_sess_def split: if_splits\<close>)
  then show ?thesis using inv unfolding server_inv_def rooms_ok_def queue_ok_def registry_ok_def live_ok_def g
    by (simp add: enter_def upd_sess_def)
qed

lemma passes_check_inv:
  "server_inv w \<Longrightarrow> c \<in> greeted w - ended w \<Longrightarrow> partner k = {} \<Longrightarrow> server_inv (passes_check ox c k w)"
  by (simp add: passes_check_def send_inv enter_inv)

lemma mild_seated: "mild w w' \<Longrightarrow> c \<in> greeted w - ended w \<Longrightarrow> c \<in> greeted w' - ended w'"
  by (simp add: mild_sets)

lemma ask_startBot_inv:
  "server_inv w \<Longrightarrow> c \<in> greeted w - ended w \<Longrightarrow> server_inv (ask_startBot ox c d w)"
  unfolding ask_startBot_def startBot_case_def
  by (intro after_refuse after_allow)
    (auto intro!: answer_inv passes_check_inv dest: mild_seated split: option.split)

lemma ask_createRoom_inv:
  "server_inv w \<Longrightarrow> c \<in> greeted w - ended w \<Longrightarrow> server_inv (ask_createRoom ox c w)"
  unfolding ask_createRoom_def createRoom_case_def
  by (intro after_refuse after_allow) (auto intro!: passes_check_inv dest: mild_seated)

lemma ask_quickMatch_inv:
  assumes "server_inv w" and "c \<in> greeted w - ended w"
  shows "server_inv (ask_quickMatch ox c w)"
  unfolding ask_quickMatch_def quickMatch_case_def
proof (rule after_refuse [OF assms(1)])
  fix w1 assume w1: "mild w w1" "server_inv w1"
  have "server_inv (let (ok, w) = allowRoom ox c w1 in if \<not> ok then w else passes_check ox c Match w)"
    using mild_seated [OF w1(1) assms(2)] mild_seated
    by (intro after_allow [OF w1(2)] passes_check_inv) auto
  then show "server_inv (if fst (currentRoom c w1) \<noteq> None then answer ox c codeAlreadyInARoom w1
      else let (ok, w) = allowRoom ox c w1 in if \<not> ok then w else passes_check ox c Match w)"
    using w1(2) by (simp add: answer_inv)
qed

text \<open>What a call does leaves the phases of all connections as they are, up to its own.\<close>

lemma phase_send [simp]: "ss_phase (w_sess (send_to ox d m w) c) = ss_phase (w_sess w c)"
  by (simp add: send_to_def upd_sess_def)

lemma phase_post [simp]: "w_sess (snd (room_send i m w)) = w_sess w"
  by (simp add: room_send_def upd_room_def)

lemma phase_register [simp]: "w_sess (snd (register_room ox mode w)) = w_sess w"
  by (simp add: register_room_def Let_def split: option.split)

lemma phase_first [simp]: "w_sess (snd (first_input m r)) = w_sess (snd r)"
  by (cases r) (simp add: first_input_def split: sum.split)

lemma phase_pair [simp]: "ss_phase (w_sess (snd (pair_up ox c d r)) e) = ss_phase (w_sess (snd r) e)"
  by (cases r) (simp add: pair_up_def Let_def split: sum.split)

lemma phase_answer [simp]: "ss_phase (w_sess (answer ox c code w) d) = ss_phase (w_sess w d)"
    "ss_phase (w_sess (answer_error ox c r) d) = ss_phase (w_sess (snd r) d)"
    "ss_phase (w_sess (answer_match ox c r) d) = ss_phase (w_sess (snd r) d)"
  by (simp_all add: answer_def answer_error_def answer_match_def case_prod_beta split: option.split)

lemma returns_error_inv:
  assumes "server_inv (snd r)" and "w_sess (snd r) = w_sess w" and "ss_phase (w_sess w c) = InCall k"
  shows "server_inv (returns c (answer_error ox c r))"
  by (rule returns_inv [OF answer_error_inv [OF assms(1)]]) (simp add: assms(2,3))

lemma returns_match_inv:
  assumes "server_inv (snd r)" and "ss_phase (w_sess (snd r) c) = InCall k"
  shows "server_inv (returns c (answer_match ox c r))"
  by (rule returns_inv [OF answer_match_inv [OF assms(1)]]) (simp add: assms(2))

lemma hub_turn_inv:
  assumes inv: "server_inv w" and k: "ss_phase (w_sess w c) = InCall k"
  shows "server_inv (hub_turn ox c k w)"
proof -
  have g: "insert c (partner k) \<subseteq> greeted w" using inv k unfolding server_inv_def conns_ok_def by blast
  then have c: "c \<in> greeted w" "c \<notin> ended w" using k by (simp_all add: ended_def)
  show ?thesis
  proof (cases k)
    case (OpenBot level)
    have "server_inv (snd (first_input (startBotInput c level) (register_room ox roomModeBot w)))"
      by (rule first_input_inv [OF inv]) (use c in simp_all)
    then show ?thesis unfolding OpenBot hub_turn_def hub_call.case by (rule returns_error_inv [OF _ _ k]) simp
  next
    case OpenRoom
    have "server_inv (snd (first_input (createInput c False) (register_room ox roomModePvP w)))"
      by (rule first_input_inv [OF inv]) (use c in simp_all)
    then show ?thesis unfolding OpenRoom hub_turn_def hub_call.case by (rule returns_error_inv [OF _ _ k]) simp
  next
    case Match
    obtain p w1 where t: "take_waiter c w = (p, w1)" by (cases "take_waiter c w")
    have f: "server_inv w1" "greeted w1 = greeted w" "w_sess w1 = w_sess w" "\<And>d. p = Partner d \<Longrightarrow> d \<in> greeted w"
      using take_waiter_inv [OF inv, of c] c t by auto
    then have e: "c \<notin> ended w1" using c by (simp add: ended_def)
    have k1: "ss_phase (w_sess w1 c) = InCall k" using f(3) k by simp
    show ?thesis
    proof (cases p)
      case AlreadyWaits
      show ?thesis unfolding Match hub_turn_def hub_call.case t prod.case AlreadyWaits pairing.case
        by (rule returns_match_inv) (use f(1) k1 in simp_all)
    next
      case Waits
      show ?thesis unfolding Match hub_turn_def hub_call.case t prod.case Waits pairing.case
        by (rule enter_inv [OF f(1) e]) (use f(2) c in simp)
    next
      case (Partner d)
      show ?thesis unfolding Match hub_turn_def hub_call.case t prod.case Partner pairing.case
        by (rule enter_inv [OF f(1) e]) (use f(2,4) c Partner in simp)
    qed
  next
    case Tell
    then show ?thesis unfolding Tell hub_turn_def hub_call.case by (intro returns_inv send_inv inv) (simp add: k)
  next
    case (Pair d)
    have "server_inv (snd (pair_up ox c d (Inl errDraining, w)))" by (simp add: pair_up_def send_inv inv)
    then have "server_inv (returns c (answer_match ox c (pair_up ox c d (Inl errDraining, w))))"
      by (rule returns_match_inv) (simp add: k)
    moreover have "server_inv (enter c (PairOpen d) w)" by (rule enter_inv [OF inv c(2)]) (use g Pair in simp)
    ultimately show ?thesis by (simp add: Pair hub_turn_def)
  next
    case (PairOpen d)
    have "server_inv (snd (pair_up ox c d (register_room ox roomModePvP w)))"
      by (rule pair_up_inv [OF inv]) (use g PairOpen in simp_all)
    then show ?thesis unfolding PairOpen hub_turn_def hub_call.case by (rule returns_match_inv) (simp add: k)
  qed
qed

lemma dispatch_joinRoom_inv:
  assumes "server_inv w" and "c \<in> greeted w"
  shows "server_inv (dispatch_joinRoom ox c code w)"
  unfolding dispatch_joinRoom_def
proof (rule after_refuse [OF assms(1)])
  fix w' assume w': "mild w w'" "server_inv w'"
  define w1 where "w1 l = upd_hub (\<lambda>h. h\<lparr>h_joinLimiter := l\<rparr>) w'" for l
  have m: "mild w' (w1 l)" for l unfolding w1_def by (rule mild_hub) simp
  have j: "server_inv (snd (joinRoom code c (w1 l)))" for l
    by (rule joinRoom_inv) (use mild_inv [OF m w'(2)] mild_greeted [OF m mild_greeted [OF w'(1) assms(2)]] in auto)
  show "server_inv (let (ok, l) = keyed_allow (ss_remoteIP (w_sess w' c)) (ox_now ox) (h_joinLimiter (w_hub w'));
          w = upd_hub (\<lambda>h. h\<lparr>h_joinLimiter := l\<rparr>) w'
      in if \<not> ok then answer ox c codeTooManyAttempts w
         else case joinRoom code c w of (None, w) \<Rightarrow> w | (Some err, w) \<Rightarrow> answer ox c codeRoomNotFound w)"
    using j mild_inv [OF m w'(2)] unfolding Let_def w1_def [symmetric]
    by (auto simp: answer_inv case_prod_beta split: option.split)
qed

lemma handleReportWord_inv:
  assumes inv: "server_inv w"
  shows "server_inv (handleReportWord ox c raw w)"
proof -
  obtain ok w1 where ch: "charge ox chatLimiter c w = (ok, w1)" by fastforce
  have w1: "server_inv w1" using mild_inv [OF mild_charge inv, of ox chatLimiter c] ch by simp
  define f :: "str \<Rightarrow> session \<Rightarrow> session" where "f word = (\<lambda>s. s\<lparr>ss_reportedWords := List.insert word (ss_reportedWords s)\<rparr>)" for word
  have w2: "server_inv (upd_sess c (f word) w1)" for word
    by (rule mild_inv [OF mild_sess w1]) (simp_all add: f_def)
  have post: "server_inv (let (sent, w) = room_send i (reportWordInput c word) (upd_sess c (f word) w1)
      in if sent then w else answer ox c codeBusy w)" for i word
    by (rule post_answer_inv [OF w2]) simp_all
  show ?thesis
    using w1 w2 post unfolding handleReportWord_def ch Let_def prod.case f_def [symmetric]
    by (simp add: answer_inv send_inv split: option.split prod.split)
qed

lemma ask_inv:
  assumes inv: "server_inv w" and c: "c < w_conns w" "ss_phase (w_sess w c) = Reading"
  shows "server_inv (snd (ask ox c msg w))"
proof (cases "ss_greeted (w_sess w c)")
  case True
  then have g: "c \<in> greeted w - ended w" using c by (simp add: greeted_def ended_def)
  have to_room: "(\<And>p. seated_input (build p)) \<Longrightarrow> server_inv (toRoom ox c limiter notIn dropped build w)"
    for limiter notIn dropped build by (rule toRoom_inv [OF inv])
  show ?thesis using g True inv
    by (cases msg) (simp_all add: ask_def dispatch_def handleHello_inv [OF inv c(1)] answer_inv send_inv cancelQuickMatch_inv
        ask_startBot_inv ask_createRoom_inv dispatch_joinRoom_inv ask_quickMatch_inv
        handleReportWord_inv toLobby_def to_room)
next
  case False
  then show ?thesis using inv handleHello_inv [OF inv c(1)]
    by (cases msg) (simp_all add: ask_def dispatch_def answer_inv)
qed

subsection \<open>Connections\<close>

lemma seats_ok_ended: "seats_ok b E p \<Longrightarrow> F \<subseteq> E \<Longrightarrow> seats_ok b F p"
  unfolding seats_ok_def by blast

text \<open>The end of reading, and of the connection: who ends has given notice first.\<close>

lemma phase_inv:
  assumes inv: "server_inv w"
    and f: "\<And>s. ss_greeted (f s) = ss_greeted s \<and> ss_room (f s) = ss_room s \<and> ss_playerID (f s) = ss_playerID s \<and> ss_closed (f s)"
    and k: "\<And>k. ss_phase (f (w_sess w c)) \<noteq> InCall k"
    and e: "ss_phase (f (w_sess w c)) = Ended \<Longrightarrow> c \<notin> set (h_waiting (w_hub w)) \<and>
      (\<forall>i q. i < w_rooms w \<and> (c, q) \<in> pairs (rp_room (w_room w i)) \<longrightarrow> \<not> rp_done (w_room w i) \<longrightarrow> (c, q) \<in> notices (w_room w i))"
  shows "server_inv (upd_sess c f w)"
proof -
  define w' where "w' = upd_sess c f w"
  have w: "w_rooms w' = w_rooms w" "w_room w' = w_room w" "w_hub w' = w_hub w" "w_conns w' = w_conns w"
    "\<And>d. w_sess w' d = (if d = c then f (w_sess w c) else w_sess w d)"
    by (simp_all add: w'_def upd_sess_def)
  have g: "greeted w' = greeted w" "bound w' = bound w" using f by (auto simp: greeted_def bound_def w fun_eq_iff)
  have en: "ended w' \<subseteq> ended w \<union> (if ss_phase (f (w_sess w c)) = Ended then {c} else {})"
    by (auto simp: ended_def w split: if_splits)
  have "seats_ok (bound w i) (ended w') (w_room w i)" if i: "i < w_rooms w" "\<not> rp_done (w_room w i)" for i
  proof -
    have s: "seats_ok (bound w i) (ended w) (w_room w i)" using inv i by (simp add: server_inv_def rooms_ok_def)
    have "(d, q) \<in> notices (w_room w i)" if "\<not> rp_over (w_room w i)" "(d, q) \<in> pairs (rp_room (w_room w i))" "d \<in> ended w'" for d q
    proof (cases "d \<in> ended w")
      case True
      with s that(1,2) show ?thesis unfolding seats_ok_def by blast
    next
      case False
      then have "d = c" "ss_phase (f (w_sess w c)) = Ended" using en that(3) by (auto split: if_splits)
      with e i that(2) show ?thesis by blast
    qed
    with s show ?thesis unfolding seats_ok_def by blast
  qed
  then have "rooms_ok w'" using inv unfolding rooms_ok_def g w by (simp add: server_inv_def rooms_ok_def)
  moreover have "conns_ok w'" unfolding conns_ok_def g
  proof (intro conjI allI impI)
    show "insert d (partner k') \<subseteq> greeted w" if "ss_phase (w_sess w' d) = InCall k'" for d k'
    proof -
      have "d \<noteq> c" using that k w(5) by auto
      then have "ss_phase (w_sess w d) = InCall k'" using that by (simp add: w(5))
      then show ?thesis using inv unfolding server_inv_def conns_ok_def by blast
    qed
  qed (use inv f in \<open>auto simp: server_inv_def conns_ok_def w split: if_splits\<close>)
  moreover have "queue_ok w'" unfolding queue_ok_def g w(3)
    using queue_distinct [OF inv] queue_waiters [OF inv] en e f by (auto simp: w split: if_splits)
  ultimately show ?thesis using inv unfolding w'_def [symmetric]
    by (simp add: server_inv_def registry_ok_def live_ok_def w)
qed

lemma stop_reading_inv: "server_inv w \<Longrightarrow> server_inv (stop_reading c w)"
  unfolding stop_reading_def by (rule phase_inv) simp_all

lemma take_frame_inv:
  assumes inv: "server_inv w" and c: "c < w_conns w" "ss_phase (w_sess w c) = Reading"
  shows "server_inv (take_frame ox c f w)"
proof -
  obtain ok w1 where ch: "charge ox frameLimiter c w = (ok, w1)" by fastforce
  have w1: "server_inv w1" using mild_inv [OF mild_charge inv, of ox frameLimiter c] ch by simp
  have "w_conns w1 = w_conns w" "ss_phase (w_sess w1 c) = ss_phase (w_sess w c)"
    using ch by (auto simp: charge_def case_prod_beta upd_sess_def)
  then have "server_inv (snd (ask ox c msg w1))" for msg by (intro ask_inv [OF w1]) (use c in simp_all)
  then have "server_inv (snd (read_frame_by (ask ox c) ox c f w))"
    using w1 unfolding read_frame_by_def ch by (auto simp: answer_inv case_prod_beta split: option.split)
  then show ?thesis
    by (cases "read_frame_by (ask ox c) ox c f w") (auto simp: take_frame_def stop_reading_inv split: option.split)
qed

lemma end_session_inv:
  assumes inv: "server_inv w"
  shows "server_inv (end_session c w)"
proof -
  define w1 where "w1 = upd_hub (cancelQuickMatch c) (upd_sess c (\<lambda>s. s\<lparr>ss_helloTimer := False\<rparr>) w)"
  have "server_inv (upd_sess c (\<lambda>s. s\<lparr>ss_helloTimer := False\<rparr>) w)"
    by (rule mild_inv [OF mild_sess inv]) simp_all
  then have w1: "server_inv w1" unfolding w1_def by (rule cancelQuickMatch_inv)
  have out: "c \<notin> set (h_waiting (w_hub w1))"
    using queue_distinct [OF inv] by (simp add: w1_def upd_hub_def cancelQuickMatch_def upd_sess_def)
  define w2 where "w2 = leaveRoom c w1"
  have w2: "server_inv w2" unfolding w2_def leaveRoom_def Let_def currentRoom_def
    using w1 notice_inv [OF w1] by (simp split: option.split)
  have hub: "w_hub w2 = w_hub w1" "w_rooms w2 = w_rooms w1"
    by (simp_all add: w2_def leaveRoom_def Let_def currentRoom_def sendReliably_def upd_room_def split: option.split)
  have "(c, q) \<in> notices (w_room w2 i)"
    if i: "i < w_rooms w2" "\<not> rp_done (w_room w2 i)" "(c, q) \<in> pairs (rp_room (w_room w2 i))" for i q
  proof -
    have "seats_ok (bound w2 i) (ended w2) (w_room w2 i)" using w2 i by (simp add: server_inv_def rooms_ok_def)
    then have "(c, q) \<in> notices (w_room w2 i) \<or> bound w2 i c = Some q" using i(3) unfolding seats_ok_def knows_def by auto
    moreover have "(c, q) \<in> notices (w_room w2 i)" if b: "bound w2 i c = Some q"
    proof -
      have "w_sess w2 = w_sess w1"
        by (simp add: w2_def leaveRoom_def Let_def currentRoom_def sendReliably_def upd_room_def split: option.split)
      then have "ss_room (w_sess w1 c) = Some i" "ss_playerID (w_sess w1 c) = q" using b by (auto simp: bound_def split: if_splits)
      then show ?thesis
        by (simp add: w2_def leaveRoom_def Let_def currentRoom_def sendReliably_def upd_room_def notices_def)
    qed
    ultimately show ?thesis by blast
  qed
  then have "server_inv (upd_sess c (\<lambda>s. s\<lparr>ss_closed := True, ss_phase := Ended\<rparr>) w2)"
    by (intro phase_inv [OF w2]) (use out hub in auto)
  then show ?thesis by (simp add: end_session_def Let_def w2_def w1_def)
qed

lemma connect_inv:
  assumes inv: "server_inv w"
  shows "server_inv (connect sid token ip now w)"
proof -
  define w' where "w' = connect sid token ip now w"
  have w: "w_rooms w' = w_rooms w" "w_room w' = w_room w" "w_hub w' = w_hub w" "w_conns w' = Suc (w_conns w)"
    "\<And>c. c < w_conns w \<Longrightarrow> w_sess w' c = w_sess w c" "\<And>c. c \<noteq> w_conns w \<Longrightarrow> w_sess w' c = w_sess w c"
    by (simp_all add: w'_def connect_def)
  have new: "\<not> ss_greeted (w_sess w' (w_conns w))" "ss_phase (w_sess w' (w_conns w)) = Reading"
      "ss_room (w_sess w' (w_conns w)) = None"
    by (simp_all add: w'_def connect_def newSession_def)
  have g: "greeted w' = greeted w" using new(1) by (auto simp: greeted_def w less_Suc_eq)
  have rooms: "proc_ok (greeted w) (w_room w i) \<and> (\<not> rp_done (w_room w i) \<longrightarrow> seats_ok (bound w' i) (ended w') (w_room w i))"
    if i: "i < w_rooms w" for i
  proof -
    have p: "proc_ok (greeted w) (w_room w i)" "\<not> rp_done (w_room w i) \<longrightarrow> seats_ok (bound w i) (ended w) (w_room w i)"
      using inv i by (simp_all add: server_inv_def rooms_ok_def)
    have "c < w_conns w" if "\<not> rp_done (w_room w i)" "(c, q) \<in> pairs (rp_room (w_room w i))" for c q
      using proc_seated [OF inv i that(1)] that(2) by (force simp: greeted_def)
    then have "bound w' i c = bound w i c" "c \<in> ended w' \<longleftrightarrow> c \<in> ended w"
      if "\<not> rp_done (w_room w i)" "(c, q) \<in> pairs (rp_room (w_room w i))" for c q
      using w(5) that by (fastforce simp: bound_def ended_def)+
    then show ?thesis using p unfolding seats_ok_def knows_def by fastforce
  qed
  have "conns_ok w'" unfolding conns_ok_def w(1) g
  proof (intro conjI allI impI)
    fix c
    have same: "c = w_conns w \<or> w_sess w' c = w_sess w c" using w(6) by blast
    show "ss_closed (w_sess w' c)" if "ss_phase (w_sess w' c) = Ended"
      using same that inv new(2) unfolding server_inv_def conns_ok_def by auto
    show "i < w_rooms w" if "ss_room (w_sess w' c) = Some i" for i
      using same that inv new(3) unfolding server_inv_def conns_ok_def by auto
    show "insert c (partner k) \<subseteq> greeted w" if "ss_phase (w_sess w' c) = InCall k" for k
    proof -
      have "ss_phase (w_sess w c) = InCall k" using same that new(2) by auto
      then show ?thesis using inv unfolding server_inv_def conns_ok_def by blast
    qed
  qed
  moreover have "queue_ok w'" unfolding queue_ok_def g w(3)
    using queue_distinct [OF inv] queue_waiters [OF inv] w(5) by (auto simp: greeted_def ended_def)
  ultimately show ?thesis using inv rooms unfolding w'_def [symmetric]
    by (simp add: server_inv_def rooms_ok_def registry_ok_def live_ok_def g w)
qed


lemma hello_expired_inv: "server_inv w \<Longrightarrow> server_inv (hello_expired ox c w)"
  unfolding hello_expired_def
  by (rule mild_inv [OF mild_close], rule answer_inv, rule mild_inv [OF mild_sess]) simp_all

lemma written_inv: "server_inv w \<Longrightarrow> server_inv (written c w)"
  unfolding written_def by (rule mild_inv [OF mild_sess]) simp_all

subsection \<open>The rest\<close>

lemma deliver_inv:
  assumes inv: "server_inv w" and k: "k < length (rp_notices (w_room w i))" and go: "\<not> rp_done (w_room w i)"
  shows "server_inv (deliver i k w)"
  unfolding deliver_def
proof (rule room_update_inv [OF inv])
  define p where "p = w_room w i"
  define m where "m = rp_notices p ! k"
  define ns where "ns = take k (rp_notices p) @ drop (Suc k) (rp_notices p)"
  have split: "rp_notices p = take k (rp_notices p) @ m # drop (Suc k) (rp_notices p)"
    using k id_take_nth_drop [of k "rp_notices p"] by (simp add: p_def m_def)
  have set: "set (rp_notices p) = insert m (set ns)" by (subst split) (simp add: ns_def)
  let ?p = "p\<lparr>rp_inputs := rp_inputs p @ [m], rp_notices := ns\<rparr>"
  show "proc_ok (greeted w) (w_room w i\<lparr>rp_inputs := rp_inputs (w_room w i) @ [rp_notices (w_room w i) ! k],
      rp_notices := take k (rp_notices (w_room w i)) @ drop (Suc k) (rp_notices (w_room w i))\<rparr>)" if "i < w_rooms w"
  proof -
    have ok: "proc_ok (greeted w) p" using inv that by (simp add: server_inv_def rooms_ok_def p_def)
    then obtain q c where m: "m = disconnectInput q c" using go set by (auto simp: proc_ok_def p_def)
    have "proc_ok (greeted w) (p\<lparr>rp_inputs := rp_inputs p @ [m]\<rparr>)"
      by (rule proc_ok_post [OF ok]) (simp add: postable_def m)
    then have "proc_ok (greeted w) ?p" using set by (simp add: proc_ok_def rp_over_def)
    then show ?thesis by (simp add: p_def m_def ns_def)
  qed
  show "seats_ok (bound w i) (ended w) (w_room w i\<lparr>rp_inputs := rp_inputs (w_room w i) @ [rp_notices (w_room w i) ! k],
      rp_notices := take k (rp_notices (w_room w i)) @ drop (Suc k) (rp_notices (w_room w i))\<rparr>)" if "i < w_rooms w"
  proof -
    have ok: "seats_ok (bound w i) (ended w) p" using inv that go by (simp add: server_inv_def rooms_ok_def p_def)
    have "notices ?p = notices p" using set by (auto simp: notices_def)
    then have "seats_ok (bound w i) (ended w) ?p" using ok by (simp add: seats_ok_def rp_over_def)
    then show ?thesis by (simp add: p_def m_def ns_def)
  qed
qed simp

lemma bot_answers_inv:
  assumes inv: "server_inv w"
  shows "server_inv (bot_answers i k word w)"
proof -
  have "server_inv (upd_room i (\<lambda>p. p\<lparr>rp_thinking := take k (rp_thinking p) @ drop (Suc k) (rp_thinking p)\<rparr>) w)"
    by (rule room_update_inv [OF inv]) (use inv in \<open>auto simp: server_inv_def rooms_ok_def proc_ok_def seats_ok_def
        notices_def rp_over_def\<close>)
  then show ?thesis unfolding bot_answers_def Let_def by (rule post_plain_inv) simp_all
qed

lemma cancel_room_inv:
  assumes inv: "server_inv w"
  shows "server_inv (cancel_room i w)"
proof -
  have same: "pairs (r\<lparr>rm_cancelled := True\<rparr>) = pairs r" "occupied (r\<lparr>rm_cancelled := True\<rparr>) = occupied r" for r
    by (simp_all add: pairs_def occupied_sits)
  have loop: "loop_inv (l\<lparr>lp_room := (lp_room l)\<lparr>rm_cancelled := True\<rparr>\<rparr>)" if "loop_inv l" for l
  proof -
    have d: "drift ((lp_room l)\<lparr>rm_cancelled := True\<rparr>) = drift (lp_room l)" by (simp add: drift_def live_num_def)
    have "room_inv ((lp_room l)\<lparr>rm_cancelled := True\<rparr>)" if "room_inv (lp_room l)"
      using good_cancelled [OF good_steady [OF that steady_refl]] by (rule goodD)
    then show ?thesis using that d by (simp add: loop_inv_def)
  qed
  show ?thesis unfolding cancel_room_def
    by (rule room_update_inv [OF inv]) (use inv loop in \<open>auto simp: server_inv_def rooms_ok_def proc_ok_def seats_ok_def
        notices_def rp_over_def knows_def same\<close>)
qed

lemma shutdown_inv:
  assumes inv: "server_inv w"
  shows "server_inv (shutdown ox w)"
proof -
  have send: "server_inv (fold (\<lambda>c. send_to ox c m) cs a)" if "server_inv a" for cs m a
    using that by (induction cs arbitrary: a) (simp_all add: send_inv)
  have cancel: "server_inv (fold cancel_room js a)" if "server_inv a" for js a
    using that by (induction js arbitrary: a) (simp_all add: cancel_room_inv)
  have "server_inv (upd_hub (\<lambda>h. h\<lparr>h_waiting := []\<rparr>) w)" by (rule hub_inv [OF inv]) simp_all
  then show ?thesis unfolding shutdown_def Let_def by (intro cancel send)
qed

lemma quiet_hub_inv:
  assumes "server_inv w" and "\<And>h. h_rooms (f h) = h_rooms h \<and> h_waiting (f h) = h_waiting h \<and> h_liveGames (f h) = h_liveGames h \<and>
    h_maxRooms (f h) = h_maxRooms h"
  shows "server_inv (upd_hub f w)"
  by (rule mild_inv [OF mild_hub [OF assms(2)] assms(1)])

lemma room_env_closed [simp]: "ev_closed (room_env ox start lead w) = (\<lambda>c. ss_closed (w_sess w c))"
  by (simp add: room_env_def)

theorem server_step_inv: "server_step w w' \<Longrightarrow> server_inv w \<Longrightarrow> server_inv w'"
proof (induction rule: server_step.induct)
  case (input i w m rest ox start lead)
  then show ?case by (intro room_turn_inv) (simp_all add: takes_def)
next
  case (timer i w x ox start lead)
  then show ?case by (intro room_turn_inv) (auto simp: takes_def)
next
  case (cancelled i w ox start lead)
  then show ?case by (intro room_turn_inv) (simp_all add: takes_def)
qed (simp_all add: connect_inv take_frame_inv hub_turn_inv hello_expired_inv mild_inv [OF mild_close] stop_reading_inv end_session_inv
    written_inv deliver_inv bot_answers_inv shutdown_inv quiet_hub_inv hub_unregister_def sweepLimiters_def startDraining_def)

lemma server_reach_inv: "server_reach w0 w \<Longrightarrow> server_inv w0 \<Longrightarrow> server_inv w"
  by (induction rule: server_reach.induct) (auto dest: server_step_inv)

end
