(* ===== verification/Demo_Server.thy ===== *)
theory Demo_Server
  imports Server_Steps Demo_Room
begin

text \<open>A concrete run of the server: a connection comes, says hello, and opens a room.\<close>

definition demo_hub :: hub where
  "demo_hub = newHub demo_words 15000000000 30000000000 0 0"

definition demo_outside :: outside where
  "demo_outside = \<lparr>ox_now = 0, ox_codes = (\<lambda>n. [50 + n]), ox_unicode = demo_unicode, ox_coin = (\<lambda>_. False)\<rparr>"

definition serve1 :: world where "serve1 = connect [115] [116] [105] 0 (start_world demo_hub)"
definition serve2 :: world where
  "serve2 = take_frame demo_outside 0 (Some (ClientMessage_Hello ProtocolVersion [] [])) serve1"
definition serve_asked :: world where
  "serve_asked = take_frame demo_outside 0 (Some ClientMessage_CreateRoom) serve2"
definition serve3 :: world where "serve3 = hub_turn demo_outside 0 OpenRoom serve_asked"

definition demo_room :: room where
  "demo_room = newRoom demo_words [50] 15000000000 30000000000 0 roomModePvP"

text \<open>The connection after its hello, with one frame of its budget used.\<close>

definition demo_session :: session where
  "demo_session = (newSession [115] [116] [105] 0)\<lparr>ss_phase := Reading, ss_greeted := True,
     ss_nick := defaultNickname, ss_frameLimiter := (newBucket framesPerSecond frameBurst 0)\<lparr>bk_tokens := 39\<rparr>,
     ss_outbox := [Welcome [115] [116] 2 defaultNickname]\<rparr>"

lemma demo_nickname: "sanitizeNickname demo_unicode [] = defaultNickname"
  by (simp add: sanitizeNickname_def sanitizeText_def Let_def Go_Strings.fields_def map_filter_simps demo_unicode_def
      maxNicknameRunes_def)

lemma serve2_eq: "serve2 = \<lparr>w_hub = demo_hub\<lparr>h_sessions := [([116], 0)]\<rparr>,
    w_sess = (\<lambda>_. newSession [] [] [] 0)(0 := demo_session), w_conns = 1,
    w_room = (\<lambda>_. start_room (newRoom demo_words [] 0 0 0 roomModePvP)), w_rooms = 0\<rparr>"
  by (simp add: serve2_def serve1_def connect_def start_world_def take_frame_def read_frame_by_def charge_def
      bucket_allow_def Let_def upd_sess_def newSession_def newBucket_def frameBurst_def framesPerSecond_def
      ask_def dispatch_def handleHello_def demo_outside_def demo_nickname upd_hub_def hub_register_def demo_hub_def newHub_def
      send_to_def session_send_def enqueue_def outboxCap_def welcomeMsg_def resumable_def demo_session_def
      ProtocolVersion_def)


text \<open>It has asked for a room and found the server not draining; then its room is open, the request to be seated in its inbox.\<close>

definition demo_spent :: session where
  "demo_spent = demo_session\<lparr>ss_frameLimiter := (newBucket framesPerSecond frameBurst 0)\<lparr>bk_tokens := 38\<rparr>,
     ss_roomLimiter := (newBucket roomsPerSecond roomBurst 0)\<lparr>bk_tokens := 4\<rparr>\<rparr>"

lemma serve_asked_eq: "serve_asked = \<lparr>w_hub = demo_hub\<lparr>h_sessions := [([116], 0)],
      h_roomLimiter := (h_roomLimiter demo_hub)\<lparr>kl_buckets := [[105] \<mapsto>
        (newBucket addressRoomsPerSecond addressRoomBurst 0)\<lparr>bk_tokens := 29\<rparr>]\<rparr>\<rparr>,
    w_sess = (\<lambda>_. newSession [] [] [] 0)(0 := demo_spent\<lparr>ss_phase := InCall OpenRoom\<rparr>), w_conns = 1,
    w_room = (\<lambda>_. start_room (newRoom demo_words [] 0 0 0 roomModePvP)), w_rooms = 0\<rparr>"
  by (simp add: serve_asked_def serve2_eq take_frame_def read_frame_by_def charge_def demo_session_def demo_spent_def
      bucket_allow_def Let_def upd_sess_def newSession_def newBucket_def frameBurst_def framesPerSecond_def
      ask_def ask_createRoom_def createRoom_case_def passes_check_def enter_def refuseMidGame_def mid_game_def currentRoom_def
      allowRoom_def keyed_allow_def roomsPerSecond_def roomBurst_def addressRoomBurst_def addressRoomsPerSecond_def
      newKeyedLimiter_def demo_outside_def upd_hub_def demo_hub_def newHub_def)

lemma demo_draw: "h_rooms h = [] \<Longrightarrow> unusedCode (\<lambda>n. [50 + n]) h = Some [50]"
  by (simp add: unusedCode_def codeAttempts_def numeral_eq_Suc upt_rec)

lemma serve3_eq: "serve3 = \<lparr>w_hub = demo_hub\<lparr>h_sessions := [([116], 0)], h_rooms := [([50], 0)],
      h_roomLimiter := (h_roomLimiter demo_hub)\<lparr>kl_buckets := [[105] \<mapsto>
        (newBucket addressRoomsPerSecond addressRoomBurst 0)\<lparr>bk_tokens := 29\<rparr>]\<rparr>\<rparr>,
    w_sess = (\<lambda>_. newSession [] [] [] 0)(0 := demo_spent), w_conns = 1,
    w_room = (\<lambda>_. start_room (newRoom demo_words [] 0 0 0 roomModePvP))
      (0 := (start_room demo_room)\<lparr>rp_inputs := [createInput 0 False]\<rparr>), w_rooms = 1\<rparr>"
  by (simp add: serve3_def serve_asked_eq hub_turn_def register_room_def Let_def demo_draw first_input_def room_send_def rp_over_def
      start_room_def start_loop_def newRoom_def demo_room_def roomInputCap_def upd_room_def answer_error_def returns_def upd_sess_def
      defaultMaxRooms_def demo_outside_def demo_hub_def newHub_def demo_spent_def demo_session_def newSession_def)

definition serve4 :: world where
  "serve4 = room_turn demo_outside (room_env demo_outside None (\<lambda>_. 0) serve3) 0 (Input (createInput 0 False)) [] serve3"

lemma demo_start: "server_reach (start_world demo_hub) (start_world demo_hub)"
  by (rule server_reach.started)

lemma demo_serve1: "server_reach (start_world demo_hub) serve1"
  unfolding serve1_def
  by (rule server_reach.stepped [OF demo_start server_step.connects]) (simp add: token_new_def start_world_def)

lemma demo_serve2: "server_reach (start_world demo_hub) serve2"
  unfolding serve2_def
  by (rule server_reach.stepped [OF demo_serve1 server_step.frame])
    (simp_all add: serve1_def connect_def start_world_def)

lemma demo_serve_asked: "server_reach (start_world demo_hub) serve_asked"
  unfolding serve_asked_def
  by (rule server_reach.stepped [OF demo_serve2 server_step.frame]) (simp_all add: serve2_eq demo_session_def)

lemma demo_serve3: "server_reach (start_world demo_hub) serve3"
  unfolding serve3_def
  by (rule server_reach.stepped [OF demo_serve_asked server_step.calls]) (simp_all add: serve_asked_eq)

lemma demo_serve4: "server_reach (start_world demo_hub) serve4"
  unfolding serve4_def
  by (rule server_reach.stepped [OF demo_serve3 server_step.input])
    (simp_all add: serve3_eq start_room_def start_loop_def)

text \<open>After the room's first turn the connection has the first seat.\<close>

lemma create_run:
  assumes "\<not> ev_closed ev c"
  defines "l \<equiv> run_step ev (Input (createInput c False)) (start_loop demo_room)"
  shows "\<not> lp_done l" and "map_option (\<lambda>s. (se_id s, se_sess s)) (rm_seats (lp_room l) ! 0) = Some (P1, Some c)"
    and "length (rm_seats (lp_room l)) = 4"
  by (simp_all add: l_def assms(1) run_step_def start_loop_def handle_def handleCreate_def takeSeat_def demo_room_def newRoom_def
      Let_def emits_def emit_def demo_seatIDs sendChatHistory_def maxPlayers_def numeral_eq_Suc
      resetTurnTimer_def resetGraceTimer_def seated_def map_filter_simps
      after_arm_def flush_lobby_def broadcastRoomState_def connected_def playerSlots_def occupied_def
      seatedCount_def inLobby_def resetIdleTimer_def flushResumeReplays_def)

lemma serve4_seat: "0 < w_rooms serve4" "\<not> rp_done (w_room serve4 0)" "(0, P1) \<in> pairs (rp_room (w_room serve4 0))"
proof -
  define ev where "ev = room_env demo_outside None (\<lambda>_. 0) serve3"
  define l where "l = run_step ev (Input (createInput 0 False)) (start_loop demo_room)"
  define w1 where "w1 = upd_room 0 (\<lambda>p. p\<lparr>rp_loop := l, rp_inputs := [], rp_notices := rp_notices p\<rparr>) serve3"
  have "\<not> ev_closed ev 0" by (simp add: ev_def serve3_eq demo_spent_def demo_session_def newSession_def)
  note l = create_run [OF this, folded l_def]
  have loop: "rp_loop (w_room serve3 0) = start_loop demo_room" by (simp add: serve3_eq start_room_def)
  have "serve4 = fold (perform demo_outside 0) (fresh_out (start_loop demo_room) l) w1"
    unfolding serve4_def room_turn_def Let_def loop ev_def [symmetric] l_def [symmetric] using l(1) by (simp add: w1_def)
  then have m: "moved 0 (fresh_out (start_loop demo_room) l) w1 serve4"
    using moved_fold [of 0 "fresh_out (start_loop demo_room) l" w1 demo_outside] by simp
  then have "w_rooms serve4 = w_rooms serve3" "rp_loop (w_room serve4 0) = l"
    by (simp_all add: moved_def more_notices_def w1_def upd_room_def)
  moreover have "(0, P1) \<in> pairs (lp_room l)"
    using l(2,3) nth_mem [of 0 "rm_seats (lp_room l)"] by (force simp: pairs_def sits_def)
  ultimately show "0 < w_rooms serve4" "\<not> rp_done (w_room serve4 0)" "(0, P1) \<in> pairs (rp_room (w_room serve4 0))"
    using l(1) by (simp_all add: serve3_eq)
qed

end
