(* ===== verification/Server_Props.thy ===== *)
theory Server_Props
  imports Demo_Server
begin

text \<open>
  What the server as a whole guarantees, in every world it can reach: connections, rooms and timers may
  take their steps in any order.
\<close>

lemma fresh_hub_inv: "server_inv (start_world (newHub d limit grace idle maxRooms))"
  by (rule start_inv) (simp_all add: newHub_def defaultMaxRooms_def)

lemma reached_inv: "server_reach (start_world (newHub d limit grace idle maxRooms)) w \<Longrightarrow> server_inv w"
  using server_reach_inv fresh_hub_inv by blast

lemma demo_reached: "server_reach (start_world (newHub demo_words 15000000000 30000000000 0 0)) serve4"
  using demo_serve4 by (simp add: demo_hub_def)

text \<open>
  Claim (C21). Every room that is still open satisfies the invariant of a room, and the input it handles next is one
  it is made for: a room is opened only while nobody sits in it, and nobody resumes into a room they
  already sit in. So everything proved of a room alone holds of the rooms of a running server.
\<close>

theorem rooms_sound:
  assumes "server_reach (start_world (newHub d limit grace idle maxRooms)) w"
    and "i < w_rooms w" and "\<not> rp_done (w_room w i)"
  shows "room_inv (rp_room (w_room w i)) \<and>
    (\<forall>m rest. rp_inputs (w_room w i) = m # rest \<longrightarrow> admissible (Input m) (rp_room (w_room w i)))"
proof -
  have p: "proc_ok (greeted w) (w_room w i)" using reached_inv [OF assms(1)] assms(2) by (simp add: server_inv_def rooms_ok_def)
  then have "room_inv (rp_room (w_room w i))" using assms(3) by (intro loop_room_inv) (simp_all add: proc_ok_def)
  moreover have "admissible (Input m) (rp_room (w_room w i))" if "rp_inputs (w_room w i) = m # rest" for m rest
    by (rule admissible_event [OF p assms(3)]) (use that in auto)
  ultimately show ?thesis by blast
qed

theorem rooms_sound_witness: "room_inv (rp_room (w_room serve4 0))"
  using rooms_sound [OF demo_reached serve4_seat(1,2)] by blast

lemma counted_inLobby: "game_inv r \<Longrightarrow> rm_liveCounted r \<longleftrightarrow> \<not> inLobby r"
  by (simp add: game_inv_def inLobby_def split: option.splits)

lemma sum_of_bool: "(\<Sum>i < (n::nat). of_bool (P i)) = int (card {i. i < n \<and> P i})"
proof (induction n)
  case (Suc n)
  have "{i. i < Suc n \<and> P i} = (if P n then insert n {i. i < n \<and> P i} else {i. i < n \<and> P i})"
    using less_Suc_eq by auto
  then show ?case using Suc.IH by simp
qed simp

text \<open>
  Claim (C22). The registry is exact: it lists precisely the open rooms, each under its own code, no code twice
  and never more of them than the ceiling; and the number the hub reports as running games is the number of open rooms
  whose game is not over, which is what a shutdown waits for.
\<close>

theorem registry_exact:
  assumes "server_reach (start_world (newHub d limit grace idle maxRooms)) w"
  shows "distinct (map fst (h_rooms (w_hub w))) \<and>
    set (map snd (h_rooms (w_hub w))) = {i. i < w_rooms w \<and> \<not> rp_done (w_room w i)} \<and>
    (\<forall>(code, i) \<in> set (h_rooms (w_hub w)). rm_code (rp_room (w_room w i)) = code) \<and>
    int (roomCount (w_hub w)) \<le> h_maxRooms (w_hub w) \<and>
    h_liveGames (w_hub w) = int (card {i. i < w_rooms w \<and> \<not> rp_done (w_room w i) \<and> \<not> inLobby (rp_room (w_room w i))})"
proof -
  have inv: "server_inv w" by (rule reached_inv [OF assms])
  then have reg: "distinct (map fst (h_rooms (w_hub w)))"
      "\<And>code i. (code, i) \<in> set (h_rooms (w_hub w)) \<longleftrightarrow>
        i < w_rooms w \<and> \<not> rp_done (w_room w i) \<and> rm_code (rp_room (w_room w i)) = code"
      "int (length (h_rooms (w_hub w))) \<le> h_maxRooms (w_hub w)"
    by (simp_all add: server_inv_def registry_ok_def)
  have snds: "i \<in> snd ` set (h_rooms (w_hub w)) \<longleftrightarrow> i < w_rooms w \<and> \<not> rp_done (w_room w i)" for i
  proof -
    have "i \<in> snd ` set (h_rooms (w_hub w)) \<longleftrightarrow> (\<exists>code. (code, i) \<in> set (h_rooms (w_hub w)))" by force
    then show ?thesis unfolding reg(2) by blast
  qed
  have live: "balance (rm_out (rp_room (w_room w i))) = of_bool (\<not> rp_done (w_room w i) \<and> \<not> inLobby (rp_room (w_room w i)))"
    if "i < w_rooms w" for i
  proof -
    have l: "loop_inv (rp_loop (w_room w i))" using inv that by (simp add: server_inv_def rooms_ok_def proc_ok_def)
    then have "balance (rm_out (rp_room (w_room w i))) = live_num (rp_room (w_room w i))" by (simp add: loop_inv_def drift_def)
    also have "rm_liveCounted (rp_room (w_room w i)) \<longleftrightarrow> \<not> rp_done (w_room w i) \<and> \<not> inLobby (rp_room (w_room w i))"
    proof (cases "rp_done (w_room w i)")
      case True
      then show ?thesis using l by (simp add: loop_inv_def)
    next
      case False
      then have "game_inv (rp_room (w_room w i))" using loop_room_inv [OF l] by (simp add: room_inv_def)
      then show ?thesis using False by (simp add: counted_inLobby)
    qed
    then have "live_num (rp_room (w_room w i)) = of_bool (\<not> rp_done (w_room w i) \<and> \<not> inLobby (rp_room (w_room w i)))"
      by (simp add: live_num_def)
    finally show ?thesis .
  qed
  have "h_liveGames (w_hub w) = (\<Sum>i < w_rooms w. of_bool (\<not> rp_done (w_room w i) \<and> \<not> inLobby (rp_room (w_room w i))))"
    using inv live by (simp add: server_inv_def live_ok_def)
  also have "\<dots> = int (card {i. i < w_rooms w \<and> \<not> rp_done (w_room w i) \<and> \<not> inLobby (rp_room (w_room w i))})"
    by (rule sum_of_bool)
  finally have games: "h_liveGames (w_hub w) =
    int (card {i. i < w_rooms w \<and> \<not> rp_done (w_room w i) \<and> \<not> inLobby (rp_room (w_room w i))})" .
  have listed: "set (map snd (h_rooms (w_hub w))) = {i. i < w_rooms w \<and> \<not> rp_done (w_room w i)}"
    using snds by (simp add: set_eq_iff)
  have codes: "\<forall>(code, i) \<in> set (h_rooms (w_hub w)). rm_code (rp_room (w_room w i)) = code" using reg(2) by blast
  show ?thesis unfolding roomCount_def using reg(1,3) listed codes games by blast
qed

theorem registry_exact_witness: "0 \<in> set (map snd (h_rooms (w_hub serve4)))"
  using registry_exact [OF demo_reached] serve4_seat(1,2) by auto

text \<open>
  Claim (C23). No ghost seats: whoever sits in an open room on a connection either is bound to that room and seat, or
  notice of the connection's leaving is queued for the room; and once the connection has ended, the
  notice is queued for sure, unless the room is being called off. A dead socket never holds a seat for good.
\<close>

theorem no_ghost_seats:
  assumes "server_reach (start_world (newHub d limit grace idle maxRooms)) w"
    and "i < w_rooms w" and "\<not> rp_done (w_room w i)" and "(c, q) \<in> pairs (rp_room (w_room w i))"
  shows "(currentRoom c w = (Some i, q) \<or> disconnectInput q c \<in> set (rp_inputs (w_room w i)) \<union> set (rp_notices (w_room w i))) \<and>
    (ss_phase (w_sess w c) = Ended \<and> \<not> rp_over (w_room w i) \<longrightarrow>
      disconnectInput q c \<in> set (rp_inputs (w_room w i)) \<union> set (rp_notices (w_room w i)))"
proof -
  have s: "seats_ok (bound w i) (ended w) (w_room w i)"
    using reached_inv [OF assms(1)] assms(2,3) by (simp add: server_inv_def rooms_ok_def)
  have "(c, q) \<in> notices (w_room w i) \<or> bound w i c = Some q" using s assms(4) unfolding seats_ok_def knows_def by auto
  moreover have "(c, q) \<in> notices (w_room w i)" if "c \<in> ended w" "\<not> rp_over (w_room w i)"
    using s that assms(4) unfolding seats_ok_def by blast
  ultimately show ?thesis by (auto simp: bound_def ended_def notices_def currentRoom_def split: if_splits)
qed

theorem no_ghost_seats_witness:
  "currentRoom 0 serve4 = (Some 0, P1) \<or>
   disconnectInput P1 0 \<in> set (rp_inputs (w_room serve4 0)) \<union> set (rp_notices (w_room serve4 0))"
  using no_ghost_seats [OF demo_reached serve4_seat] by blast

text \<open>
  The quick-match queue holds each connection once, and only connections that have said hello and have not ended.
  (Not that they sit in no room: whether the caller has one is looked up before the call of the hub, and a room may
  seat it in between.)
\<close>

lemma queue_sound:
  assumes "server_reach (start_world (newHub d limit grace idle maxRooms)) w"
  shows "distinct (h_waiting (w_hub w)) \<and>
    (\<forall>c \<in> set (h_waiting (w_hub w)). c < w_conns w \<and> ss_greeted (w_sess w c) \<and> ss_phase (w_sess w c) \<noteq> Ended)"
  using reached_inv [OF assms] by (auto simp: server_inv_def queue_ok_def greeted_def ended_def)

text \<open>
  Nor could it be said. A client that opens a room and asks for a quick match at once can find itself in both: the room
  seats it, and takes it out of the queue it is not in yet, after the look at its room and before the look
  through the queue.
\<close>

definition serve_asks :: world where
  "serve_asks = take_frame demo_outside 0 (Some ClientMessage_QuickMatch) serve3"
definition serve_seated :: world where
  "serve_seated = room_turn demo_outside (room_env demo_outside None (\<lambda>_. 0) serve_asks) 0 (Input (createInput 0 False)) [] serve_asks"
definition serve_both :: world where "serve_both = hub_turn demo_outside 0 Match serve_seated"

lemma create_says:
  assumes "\<not> ev_closed ev c"
  shows "\<exists>x y. fresh_out (start_loop demo_room) (run_step ev (Input (createInput c False)) (start_loop demo_room)) =
    [Attach c P1, CancelQuickMatch c, Send c x, Send c y]"
  by (simp add: assms run_step_def start_loop_def handle_def handleCreate_def takeSeat_def demo_room_def newRoom_def
      Let_def emits_def emit_def demo_seatIDs sendChatHistory_def maxPlayers_def numeral_eq_Suc
      resetTurnTimer_def resetGraceTimer_def seated_def map_filter_simps
      after_arm_def flush_lobby_def broadcastRoomState_def connected_def playerSlots_def occupied_def
      seatedCount_def inLobby_def resetIdleTimer_def flushResumeReplays_def fresh_out_def)

lemma serve_asks_facts:
  "w_conns serve_asks = 1" "ss_phase (w_sess serve_asks 0) = InCall Match" "ss_room (w_sess serve_asks 0) = None"
  "\<not> ss_closed (w_sess serve_asks 0)" "h_waiting (w_hub serve_asks) = []" "w_rooms serve_asks = 1"
  "w_room serve_asks 0 = (start_room demo_room)\<lparr>rp_inputs := [createInput 0 False]\<rparr>"
  by (simp_all add: serve_asks_def serve3_eq take_frame_def read_frame_by_def charge_def demo_session_def demo_spent_def
      bucket_allow_def Let_def upd_sess_def newSession_def newBucket_def frameBurst_def framesPerSecond_def
      ask_def ask_quickMatch_def quickMatch_case_def passes_check_def enter_def refuseMidGame_def mid_game_def currentRoom_def
      allowRoom_def keyed_allow_def roomsPerSecond_def roomBurst_def addressRoomBurst_def addressRoomsPerSecond_def
      newKeyedLimiter_def demo_outside_def upd_hub_def demo_hub_def newHub_def)

lemma serve_seated_facts:
  "w_conns serve_seated = 1" "ss_phase (w_sess serve_seated 0) = InCall Match" "ss_room (w_sess serve_seated 0) = Some 0"
  "h_waiting (w_hub serve_seated) = []"
proof -
  define ev where "ev = room_env demo_outside None (\<lambda>_. 0) serve_asks"
  define l where "l = run_step ev (Input (createInput 0 False)) (start_loop demo_room)"
  define w1 where "w1 = upd_room 0 (\<lambda>p. p\<lparr>rp_loop := l, rp_inputs := [], rp_notices := rp_notices p\<rparr>) serve_asks"
  have open': "\<not> ev_closed ev 0" by (simp add: ev_def serve_asks_facts)
  obtain x y where out: "fresh_out (start_loop demo_room) l = [Attach 0 P1, CancelQuickMatch 0, Send 0 x, Send 0 y]"
    using create_says [OF open'] unfolding l_def by blast
  have loop: "rp_loop (w_room serve_asks 0) = start_loop demo_room" by (simp add: serve_asks_facts start_room_def)
  have "serve_seated = fold (perform demo_outside 0) (fresh_out (start_loop demo_room) l) w1"
    unfolding serve_seated_def room_turn_def Let_def loop ev_def [symmetric] l_def [symmetric]
    using create_run(1) [OF open'] by (simp add: w1_def l_def)
  also have "\<dots> = send_to demo_outside 0 y (send_to demo_outside 0 x (upd_hub (cancelQuickMatch 0) (attach 0 0 P1 w1)))"
    by (simp add: out perform_def)
  finally have w: "serve_seated = \<dots>" .
  have a: "attach 0 0 P1 w1 = upd_sess 0 (\<lambda>s. s\<lparr>ss_room := Some 0, ss_playerID := P1\<rparr>) w1"
    by (simp add: attach_def currentRoom_def w1_def upd_room_def serve_asks_facts)
  have room: "ss_room (session_send coin m s) = ss_room s" for coin m s by (simp add: session_send_def enqueue_def)
  show "w_conns serve_seated = 1" "ss_phase (w_sess serve_seated 0) = InCall Match" "ss_room (w_sess serve_seated 0) = Some 0"
    "h_waiting (w_hub serve_seated) = []"
    unfolding w a
    by (simp_all add: send_to_def upd_sess_def upd_hub_def w1_def upd_room_def cancelQuickMatch_def room serve_asks_facts)
qed

lemma seated_in_queue:
  "server_reach (start_world demo_hub) serve_both" "0 \<in> set (h_waiting (w_hub serve_both))"
  "fst (currentRoom 0 serve_both) = Some 0"
proof -
  have "server_reach (start_world demo_hub) serve_asks" unfolding serve_asks_def
    by (rule server_reach.stepped [OF demo_serve3 server_step.frame]) (simp_all add: serve3_eq demo_spent_def demo_session_def)
  then have "server_reach (start_world demo_hub) serve_seated" unfolding serve_seated_def
    by (rule server_reach.stepped [OF _ server_step.input]) (simp_all add: serve_asks_facts start_room_def start_loop_def)
  then show "server_reach (start_world demo_hub) serve_both" unfolding serve_both_def
    by (rule server_reach.stepped [OF _ server_step.calls]) (simp_all add: serve_seated_facts)
  show "0 \<in> set (h_waiting (w_hub serve_both))" "fst (currentRoom 0 serve_both) = Some 0"
    by (simp_all add: serve_both_def hub_turn_def take_waiter_def serve_seated_facts enter_def upd_sess_def upd_hub_def currentRoom_def)
qed

end
