(* ===== verification/Hub_Props.thy ===== *)
theory Hub_Props
  imports Demo_Server
begin

text \<open>
  What the hub promises: the codes it draws, whom it pairs, and that a drain lets the calls under way run out and admits no other.
\<close>

subsection \<open>Room codes\<close>

text \<open>The bytes rejection sampling keeps, and the letter each stands for.\<close>

definition code_byte :: "8 word \<Rightarrow> bool" where
  "code_byte b \<longleftrightarrow> unat b < code_limit"

definition code_letter :: "8 word \<Rightarrow> nat" where
  "code_letter b = roomCodeAlphabet ! (unat b mod length roomCodeAlphabet)"

lemma alphabet_length: "length roomCodeAlphabet = 31"
  by (simp add: roomCodeAlphabet_def lit_def)

lemma code_letters_take:
  "length out < roomCodeLen \<Longrightarrow>
   code_letters buf out = take roomCodeLen (out @ map code_letter (filter code_byte buf))"
proof (induction buf arbitrary: out)
  case (Cons b buf)
  then show ?case by (auto simp: Let_def code_byte_def code_letter_def take_Cons')
qed simp

text \<open>The loop has stopped once enough bytes were kept, and the code is made of the first of them.\<close>

definition kept_bytes :: "(nat \<Rightarrow> 8 word list) \<Rightarrow> nat \<Rightarrow> 8 word list" where
  "kept_bytes rand n = filter code_byte (concat (map rand [0..<n]))"

lemma kept_Suc: "kept_bytes rand (Suc n) = kept_bytes rand n @ filter code_byte (rand n)"
  by (simp add: kept_bytes_def)

lemma kept_mono: "i \<le> n \<Longrightarrow> length (kept_bytes rand i) \<le> length (kept_bytes rand n)"
proof (induction n)
  case (Suc n)
  then show ?case by (cases "i = Suc n") (simp_all add: kept_Suc)
qed simp

lemma code_loop_result:
  assumes "roomCodeLen \<le> length (kept_bytes rand n)" and "i \<le> n"
    and "\<forall>j < i. length (kept_bytes rand j) < roomCodeLen"
    and "out = take roomCodeLen (map code_letter (kept_bytes rand i))"
  shows "\<exists>k \<le> n. code_loop rand i out = Some (map code_letter (take roomCodeLen (kept_bytes rand k)), k) \<and>
    roomCodeLen \<le> length (kept_bytes rand k) \<and> (\<forall>j < k. length (kept_bytes rand j) < roomCodeLen)"
  using assms
proof (induction "n - i" arbitrary: i out)
  case 0
  then have "i = n" by simp
  with 0 show ?case by (subst code_loop.simps) (simp add: take_map)
next
  case (Suc m)
  show ?case
  proof (cases "length (kept_bytes rand i) < roomCodeLen")
    case True
    then have out: "out = map code_letter (kept_bytes rand i)" using Suc.prems(4) by simp
    have "code_letters (rand i) out = take roomCodeLen (map code_letter (kept_bytes rand (i + 1)))"
      using code_letters_take [of out "rand i"] True by (simp add: out kept_Suc)
    moreover have "\<forall>j < i + 1. length (kept_bytes rand j) < roomCodeLen" using True Suc.prems(3) by (simp add: less_Suc_eq)
    moreover have "m = n - (i + 1)" "i + 1 \<le> n" using Suc.hyps(2) by simp_all
    ultimately have "\<exists>k \<le> n. code_loop rand (i + 1) (code_letters (rand i) out) =
        Some (map code_letter (take roomCodeLen (kept_bytes rand k)), k) \<and>
      roomCodeLen \<le> length (kept_bytes rand k) \<and> (\<forall>j < k. length (kept_bytes rand j) < roomCodeLen)"
      by (intro Suc.hyps(1) Suc.prems(1)) simp_all
    moreover have "code_loop rand i out = code_loop rand (i + 1) (code_letters (rand i) out)"
      using True by (subst code_loop.simps) (simp add: out)
    ultimately show ?thesis by simp
  next
    case False
    then show ?thesis using Suc.prems by (subst code_loop.simps) (auto simp: take_map)
  qed
qed

lemma uniform_letters: "x \<in> set roomCodeAlphabet \<Longrightarrow> card {b. code_byte b \<and> code_letter b = x} = 8"
proof -
  assume "x \<in> set roomCodeAlphabet"
  then obtain k where k: "k < 31" "x = roomCodeAlphabet ! k" by (auto simp: in_set_conv_nth alphabet_length)
  have "distinct roomCodeAlphabet" by (simp add: roomCodeAlphabet_def lit_def)
  then have eq: "code_letter b = x \<longleftrightarrow> unat b mod 31 = k" for b
    unfolding code_letter_def k(2) alphabet_length by (rule nth_eq_iff_index_eq) (simp_all add: alphabet_length k(1))
  have "{b. code_byte b \<and> code_letter b = x} = (\<lambda>j. of_nat (31 * j + k)) ` {..<8}"
  proof (intro set_eqI iffI)
    fix b :: "8 word" assume "b \<in> {b. code_byte b \<and> code_letter b = x}"
    then have b: "unat b < 248" "unat b mod 31 = k" by (simp_all add: eq code_byte_def code_limit_def alphabet_length)
    then have "unat b = 31 * (unat b div 31) + k" by (metis mult_div_mod_eq)
    then have "(of_nat (unat b) :: 8 word) = of_nat (31 * (unat b div 31) + k)" by (rule arg_cong)
    then have "b = of_nat (31 * (unat b div 31) + k)" by (simp del: of_nat_add of_nat_mult)
    then show "b \<in> (\<lambda>j. of_nat (31 * j + k)) ` {..<8}" using b(1) by (intro image_eqI [where x = "unat b div 31"]) simp_all
  next
    fix b :: "8 word" assume "b \<in> (\<lambda>j. of_nat (31 * j + k)) ` {..<8}"
    then obtain j where "b = of_nat (31 * j + k)" "j < 8" by blast
    then have "unat b = 31 * j + k" using k(1) by (simp add: unat_of_nat del: of_nat_add of_nat_mult)
    then show "b \<in> {b. code_byte b \<and> code_letter b = x}"
      using k(1) \<open>j < 8\<close> by (simp add: eq code_byte_def code_limit_def alphabet_length)
  qed
  moreover have "inj_on (\<lambda>j. of_nat (31 * j + k) :: 8 word) {..<8}"
  proof (rule inj_onI)
    fix i j :: nat assume ij: "i \<in> {..<8}" "j \<in> {..<8}" and "(of_nat (31 * i + k) :: 8 word) = of_nat (31 * j + k)"
    then have "unat (of_nat (31 * i + k) :: 8 word) = unat (of_nat (31 * j + k) :: 8 word)" by simp
    then show "i = j" using ij k(1) by (simp add: unat_of_nat del: of_nat_add of_nat_mult)
  qed
  ultimately show ?thesis by (simp add: card_image)
qed

text \<open>
  Claim (C24). A room code is fair and the loop that draws it ends: as soon as the random source has delivered six bytes
  below the limit, \<open>randomCode\<close> returns; it has read not one buffer too many; its code is six letters of the
  alphabet, those of the first six such bytes; and every letter stands for exactly eight bytes, so none is likelier
  than another.
\<close>

theorem room_code_fair:
  assumes "roomCodeLen \<le> length (kept_bytes rand n)"
  shows "\<exists>code k. randomCode rand = Some (code, k) \<and> k \<le> n \<and>
    code = map code_letter (take roomCodeLen (kept_bytes rand k)) \<and> length code = 6 \<and> set code \<subseteq> set roomCodeAlphabet \<and>
    (\<forall>j < k. length (kept_bytes rand j) < roomCodeLen) \<and>
    (\<forall>x \<in> set roomCodeAlphabet. card {b. code_byte b \<and> code_letter b = x} = 8)"
proof -
  obtain k where k: "k \<le> n" "randomCode rand = Some (map code_letter (take roomCodeLen (kept_bytes rand k)), k)"
      "roomCodeLen \<le> length (kept_bytes rand k)" "\<forall>j < k. length (kept_bytes rand j) < roomCodeLen"
    using code_loop_result [OF assms, of 0 "[]"] by (auto simp: randomCode_def kept_bytes_def)
  have "code_letter b \<in> set roomCodeAlphabet" for b by (simp add: code_letter_def alphabet_length)
  then have "set (map code_letter bs) \<subseteq> set roomCodeAlphabet" for bs by auto
  moreover have "length (map code_letter (take roomCodeLen (kept_bytes rand k))) = 6" using k(3) by (simp add: roomCodeLen_def)
  ultimately show ?thesis using k uniform_letters by blast
qed

theorem room_code_fair_witness:
  "\<exists>code k. randomCode (\<lambda>_. [0, 255, 30, 31]) = Some (code, k) \<and> k \<le> 2"
proof -
  have "roomCodeLen \<le> length (kept_bytes (\<lambda>_. [0, 255, 30, 31]) 2)"
    by (simp add: kept_bytes_def roomCodeLen_def code_byte_def code_limit_def alphabet_length upt_rec)
  from room_code_fair [OF this] show ?thesis by blast
qed

subsection \<open>Quick match\<close>

text \<open>A new room has an empty inbox, so what is posted there first is taken.\<close>

lemma newRegisteredRoom_new:
  assumes "newRegisteredRoom ox mode w = (Inr i, w')"
  shows "i = w_rooms w \<and> w_rooms w' = Suc i \<and> rp_inputs (w_room w' i) = [] \<and> \<not> rp_over (w_room w' i) \<and>
    w_sess w' = w_sess w \<and> h_waiting (w_hub w') = h_waiting (w_hub w)"
  using assms by (auto simp: newRegisteredRoom_def register_room_def Let_def start_room_def start_loop_def rp_over_def newRoom_def
      split: if_splits option.splits)

lemma newRegisteredRoom_error: "newRegisteredRoom ox mode w = (Inl err, w') \<Longrightarrow> w' = w"
  by (auto simp: newRegisteredRoom_def register_room_def Let_def split: if_splits option.splits)

lemma post_taken:
  assumes "\<not> rp_over (w_room w i)" and "length (rp_inputs (w_room w i)) < roomInputCap"
  shows "room_send i m w = (True, upd_room i (\<lambda>p. p\<lparr>rp_inputs := rp_inputs p @ [m]\<rparr>) w)"
  using assms by (simp add: room_send_def)

lemma next_waiter_split:
  assumes "\<forall>b \<in> set dead. gone b" and "\<not> gone d"
  shows "next_waiter gone (dead @ d # rest) = (Some d, rest)"
  using assms by (induction dead) simp_all

lemma quickMatch_partner:
  assumes "\<not> h_draining (w_hub w)" and "c \<notin> set (h_waiting (w_hub w))"
    and "next_waiter (\<lambda>d. ss_closed (w_sess w d)) (h_waiting (w_hub w)) = (Some d, rest)"
  shows "quickMatch ox c w = pair_up ox c d (newRegisteredRoom ox roomModePvP (upd_hub (\<lambda>h. h\<lparr>h_waiting := rest\<rparr>) w))"
  using assms by (simp add: quickMatch_def take_waiter_def Let_def)

lemma next_waiter_dead: "\<forall>b \<in> set cs. gone b \<Longrightarrow> next_waiter gone cs = (None, [])"
  by (induction cs) simp_all

text \<open>
  Claim (C25). Quick match is first come, first served among the living: when the queue is some closed connections, then a
  living one, then the rest, the caller is paired with that living one, who is not the caller; the closed ones and the
  partner leave the queue, the rest keep their places, and the caller does not enter it. The new room is told
  to seat the partner first and the caller second, before anything else reaches it; and both are told that
  they no longer wait. Nothing else is said to anybody, and no inbox but the new room's changes. (Said of the call with
  nothing in between; lemma \<open>ask_run_through\<close> relates it to the steps of the server.)
\<close>

theorem quick_match_pairs:
  assumes "\<not> h_draining (w_hub w)" and "c \<notin> set (h_waiting (w_hub w))"
    and "h_waiting (w_hub w) = dead @ d # rest"
    and "\<forall>b \<in> set dead. ss_closed (w_sess w b)" and "\<not> ss_closed (w_sess w d)"
    and "quickMatch ox c w = (None, w')"
  shows "d \<noteq> c \<and> h_waiting (w_hub w') = rest \<and> w_rooms w' = Suc (w_rooms w) \<and>
    rp_inputs (w_room w' (w_rooms w)) = [createInput d True, joinInput c] \<and>
    (\<forall>i < w_rooms w. rp_inputs (w_room w' i) = rp_inputs (w_room w i)) \<and>
    w_sess w' = (w_sess w)(d := session_send (ox_coin ox d) (quickMatchStatusMsg False) (w_sess w d),
                           c := session_send (ox_coin ox c) (quickMatchStatusMsg False) (w_sess w c))"
proof -
  define w1 where "w1 = upd_hub (\<lambda>h. h\<lparr>h_waiting := rest\<rparr>) w"
  have dc: "d \<noteq> c" using assms(2,3) by auto
  have n: "next_waiter (\<lambda>d. ss_closed (w_sess w d)) (h_waiting (w_hub w)) = (Some d, rest)"
    unfolding assms(3) by (rule next_waiter_split) (use assms(4,5) in simp_all)
  note q = quickMatch_partner [OF assms(1,2) n, of ox, folded w1_def]
  show ?thesis
  proof (cases "newRegisteredRoom ox roomModePvP w1")
    case (Pair res w2)
    then obtain i where room: "newRegisteredRoom ox roomModePvP w1 = (Inr i, w2)"
      using assms(6) by (cases res) (auto simp: q pair_up_def)
    define w3 where "w3 = send_to ox c (quickMatchStatusMsg False) (send_to ox d (quickMatchStatusMsg False) w2)"
    note new = newRegisteredRoom_new [OF room]
    then have i: "w_rooms w = i" by (simp add: w1_def upd_hub_def)
    have f: "w_rooms w2 = Suc i" "rp_inputs (w_room w2 i) = []" "\<not> rp_over (w_room w2 i)" using new by blast+
    have s2: "w_sess w2 = w_sess w" "h_waiting (w_hub w2) = rest" using new by (simp_all add: w1_def upd_hub_def)
    have r3: "w_room w3 = w_room w2" "w_rooms w3 = w_rooms w2" "w_hub w3 = w_hub w2" by (simp_all add: w3_def send_to_def upd_sess_def)
    have w': "w' = snd (room_send i (joinInput c) (snd (room_send i (createInput d True) w3)))"
      using assms(6) room by (simp add: q pair_up_def w3_def)
    define w4 where "w4 = upd_room i (\<lambda>p. p\<lparr>rp_inputs := rp_inputs p @ [createInput d True]\<rparr>) w3"
    have first: "room_send i (createInput d True) w3 = (True, w4)" unfolding w4_def
      by (rule post_taken) (use f in \<open>simp_all add: r3 roomInputCap_def\<close>)
    have second: "room_send i (joinInput c) w4 = (True, upd_room i (\<lambda>p. p\<lparr>rp_inputs := rp_inputs p @ [joinInput c]\<rparr>) w4)"
      by (rule post_taken) (use f in \<open>simp_all add: w4_def r3 roomInputCap_def upd_room_def rp_over_def\<close>)
    have w': "w' = upd_room i (\<lambda>p. p\<lparr>rp_inputs := rp_inputs p @ [joinInput c]\<rparr>) w4" by (simp add: w' first second)
    have "w_room w2 j = w_room w j" if "j < w_rooms w" for j
      using room that by (auto simp: newRegisteredRoom_def register_room_def Let_def w1_def upd_hub_def split: if_splits option.splits)
    then show ?thesis using f s2 dc by (simp add: i w' w4_def r3 upd_room_def) (simp add: w3_def send_to_def upd_sess_def fun_upd_def s2)
  qed
qed

definition pair_world :: world where
  "pair_world = (start_world (demo_hub\<lparr>h_waiting := [1]\<rparr>))\<lparr>w_conns := 2\<rparr>"

theorem quick_match_pairs_witness:
  "rp_inputs (w_room (snd (quickMatch demo_outside 0 pair_world)) 0) = [createInput 1 True, joinInput 0]"
proof -
  have draw: "unusedCode (\<lambda>n. [50 + n]) h = Some [50]" if "h_rooms h = []" for h
    using that by (simp add: unusedCode_def codeAttempts_def numeral_eq_Suc upt_rec)
  have s: "h_waiting (w_hub pair_world) = [] @ 1 # []" "\<not> h_draining (w_hub pair_world)"
      "\<not> ss_closed (w_sess pair_world d)" "w_rooms pair_world = 0" for d
    by (simp_all add: pair_world_def start_world_def demo_hub_def newHub_def newSession_def)
  have "fst (quickMatch demo_outside 0 pair_world) = None"
    by (simp add: quickMatch_def take_waiter_def pair_up_def s newRegisteredRoom_def register_room_def upd_hub_def Let_def demo_outside_def draw pair_world_def
        start_world_def demo_hub_def newHub_def defaultMaxRooms_def newSession_def)
  then show ?thesis
    using quick_match_pairs [OF s(2) _ s(1), of 0 demo_outside "snd (quickMatch demo_outside 0 pair_world)"]
    by (simp add: s prod_eq_iff)
qed

subsection \<open>Draining\<close>

text \<open>
  The calls of the hub under way: those that are past the last look at the drain flag and will open a room, and those
  past the first that may still enter the queue.
\<close>

fun opens_room :: "hub_call \<Rightarrow> bool" where
  "opens_room (OpenBot level) = True"
| "opens_room OpenRoom = True"
| "opens_room (PairOpen d) = True"
| "opens_room k = False"

definition calling :: "(hub_call \<Rightarrow> bool) \<Rightarrow> world \<Rightarrow> conn set" where
  "calling q w = {c. c < w_conns w \<and> (\<exists>k. ss_phase (w_sess w c) = InCall k \<and> q k)}"

abbreviation openers :: "world \<Rightarrow> conn set" where "openers \<equiv> calling opens_room"
abbreviation matchers :: "world \<Rightarrow> conn set" where "matchers \<equiv> calling (\<lambda>k. k = Match)"

lemma calling_finite [simp]: "finite (calling q w)"
  unfolding calling_def by simp

text \<open>What may still happen once the server drains: the calls under way come to their end, none is added.\<close>

definition drained :: "world \<Rightarrow> world \<Rightarrow> bool" where
  "drained w w' \<longleftrightarrow> h_draining (w_hub w') \<and> openers w' \<subseteq> openers w \<and> matchers w' \<subseteq> matchers w \<and>
     w_rooms w \<le> w_rooms w' \<and> w_rooms w' + card (openers w') \<le> w_rooms w + card (openers w) \<and>
     (\<forall>(code, i) \<in> set (h_rooms (w_hub w')). (code, i) \<in> set (h_rooms (w_hub w)) \<or> w_rooms w \<le> i \<and> i < w_rooms w') \<and>
     set (h_waiting (w_hub w')) \<subseteq> set (h_waiting (w_hub w)) \<union> matchers w"

lemma drained_refl [simp]: "drained w w \<longleftrightarrow> h_draining (w_hub w)"
  by (auto simp: drained_def)

lemma drained_trans:
  assumes a: "drained w0 w1" and b: "drained w1 w2"
  shows "drained w0 w2"
proof -
  have "(code, i) \<in> set (h_rooms (w_hub w0)) \<or> w_rooms w0 \<le> i \<and> i < w_rooms w2"
    if "(code, i) \<in> set (h_rooms (w_hub w2))" for code i
  proof -
    have "(code, i) \<in> set (h_rooms (w_hub w1)) \<or> w_rooms w1 \<le> i \<and> i < w_rooms w2" using b that unfolding drained_def by blast
    moreover have "(code, i) \<in> set (h_rooms (w_hub w0)) \<or> w_rooms w0 \<le> i \<and> i < w_rooms w1"
      if "(code, i) \<in> set (h_rooms (w_hub w1))" using a that unfolding drained_def by blast
    moreover have "w_rooms w0 \<le> w_rooms w1" "w_rooms w1 \<le> w_rooms w2" using a b by (simp_all add: drained_def)
    ultimately show ?thesis by auto
  qed
  moreover have "set (h_waiting (w_hub w2)) \<subseteq> set (h_waiting (w_hub w0)) \<union> matchers w0" using a b unfolding drained_def by blast
  ultimately show ?thesis using a b unfolding drained_def by auto
qed

text \<open>What a step that opens no room, enters no call and adds nothing to the lists of the hub looks like.\<close>

definition subdued :: "world \<Rightarrow> world \<Rightarrow> bool" where
  "subdued w a \<longleftrightarrow> h_draining (w_hub a) = h_draining (w_hub w) \<and> w_rooms a = w_rooms w \<and> w_conns a = w_conns w \<and>
     (\<forall>c k. ss_phase (w_sess a c) = InCall k \<longrightarrow> ss_phase (w_sess w c) = InCall k) \<and>
     set (h_rooms (w_hub a)) \<subseteq> set (h_rooms (w_hub w)) \<and> set (h_waiting (w_hub a)) \<subseteq> set (h_waiting (w_hub w))"

lemma subdued_refl [simp]: "subdued w w"
  by (simp add: subdued_def)

lemma calling_mono:
  assumes "w_conns a = w_conns w" and "\<And>c k. ss_phase (w_sess a c) = InCall k \<Longrightarrow> q k \<Longrightarrow> ss_phase (w_sess w c) = InCall k"
  shows "calling q a \<subseteq> calling q w"
  using assms by (auto simp: calling_def)

lemma subdued_drained:
  assumes "h_draining (w_hub w)" and s: "subdued w a"
  shows "drained w a"
proof -
  have sub: "calling q a \<subseteq> calling q w" for q by (rule calling_mono) (use s in \<open>auto simp: subdued_def\<close>)
  then have "card (openers a) \<le> card (openers w)" by (intro card_mono) simp_all
  then show ?thesis using assms sub [of opens_room] sub [of "\<lambda>k. k = Match"] by (auto simp: drained_def subdued_def)
qed

lemma subdued_sess:
  assumes "subdued w a" and "\<And>k. ss_phase (f (w_sess a c)) = InCall k \<Longrightarrow> ss_phase (w_sess a c) = InCall k"
  shows "subdued w (upd_sess c f a)"
  using assms by (auto simp: subdued_def upd_sess_def)

lemma subdued_same:
  "subdued w a \<Longrightarrow> ss_phase (f (w_sess a c)) = ss_phase (w_sess a c) \<Longrightarrow> subdued w (upd_sess c f a)"
  by (rule subdued_sess) simp_all

lemma subdued_room [simp]: "subdued w (upd_room i f a) \<longleftrightarrow> subdued w a"
  by (simp add: subdued_def upd_room_def)

lemma subdued_hub:
  assumes "subdued w a"
    and "h_draining (f (w_hub a)) = h_draining (w_hub a)" "set (h_rooms (f (w_hub a))) \<subseteq> set (h_rooms (w_hub a))"
      "set (h_waiting (f (w_hub a))) \<subseteq> set (h_waiting (w_hub a))"
  shows "subdued w (upd_hub f a)"
  using assms by (auto simp: subdued_def upd_hub_def)

lemma subdued_send [simp]: "subdued w a \<Longrightarrow> subdued w (send_to ox c m a)"
  unfolding send_to_def by (rule subdued_sess) simp_all

lemma subdued_answer [simp]: "subdued w a \<Longrightarrow> subdued w (answer ox c code a)"
  by (simp add: answer_def)

lemma subdued_close [simp]: "subdued w a \<Longrightarrow> subdued w (close_session c a)"
  unfolding close_session_def by (rule subdued_sess) simp_all

lemma subdued_stop [simp]: "subdued w a \<Longrightarrow> subdued w (stop_reading c a)"
  unfolding stop_reading_def by (rule subdued_sess) simp_all

lemma subdued_returns [simp]: "subdued w a \<Longrightarrow> subdued w (returns c a)"
  unfolding returns_def by (rule subdued_sess) simp_all

lemma subdued_post [simp]: "subdued w (snd (room_send i m a)) \<longleftrightarrow> subdued w a"
  by (simp add: room_send_def)

lemma subdued_notice [simp]: "subdued w (sendReliably i m a) \<longleftrightarrow> subdued w a"
  by (simp add: sendReliably_def)

lemma subdued_charge [simp]: "subdued w a \<Longrightarrow> subdued w (snd (charge ox b c a))"
  by (cases b) (auto simp: charge_def case_prod_beta intro!: subdued_sess)

lemma subdued_release [simp]: "subdued w a \<Longrightarrow> subdued w (release c i a)"
  unfolding release_def by (rule subdued_sess) (simp_all split: if_splits)

lemma subdued_attach [simp]: "subdued w a \<Longrightarrow> subdued w (attach c i p a)"
  by (simp add: attach_def case_prod_beta Let_def subdued_same split: option.split)

lemma subdued_leave [simp]: "subdued w (leaveRoom c a) \<longleftrightarrow> subdued w a"
  by (simp add: leaveRoom_def case_prod_beta split: option.split)

lemma subdued_lists [simp]:
  assumes "subdued w a"
  shows "subdued w (upd_hub (cancelQuickMatch c) a)" "subdued w (upd_hub (hub_unregister t) a)"
    "subdued w (upd_hub (hub_register t c) a)" "subdued w (upd_hub gameStarted a)" "subdued w (upd_hub gameFinished a)"
    "subdued w (upd_hub (evict code) a)" "subdued w (upd_hub (\<lambda>h. h\<lparr>h_roomLimiter := k\<rparr>) a)"
    "subdued w (upd_hub (\<lambda>h. h\<lparr>h_joinLimiter := k\<rparr>) a)" "subdued w (sweepLimiters now a)"
  unfolding sweepLimiters_def
  by (rule subdued_hub [OF assms]; simp add: cancelQuickMatch_def set_remove1_subset hub_unregister_def hub_register_def
      gameStarted_def gameFinished_def evict_def AList.delete_eq)+

subsection \<open>The steps\<close>

lemma subdued_perform [simp]: "subdued w a \<Longrightarrow> subdued w (perform ox i x a)"
  by (cases x) (simp_all add: perform_def subdued_same)

lemma subdued_performs: "subdued w a \<Longrightarrow> subdued w (fold (perform ox i) xs a)"
  by (induction xs arbitrary: a) simp_all

lemma subdued_turn: "subdued w a \<Longrightarrow> subdued w (room_turn ox ev i x rest a)"
  by (simp add: room_turn_def Let_def subdued_performs)

lemma subdued_refuse [simp]: "subdued w a \<Longrightarrow> subdued w (snd (refuseMidGame ox c a))"
  by (simp add: refuseMidGame_def)

lemma subdued_allow [simp]: "subdued w a \<Longrightarrow> subdued w (snd (allowRoom ox c a))"
  by (simp add: allowRoom_def case_prod_beta Let_def)

lemma subdued_toRoom [simp]: "subdued w a \<Longrightarrow> subdued w (toRoom ox c b e e' m a)"
  by (simp add: toRoom_def case_prod_beta Let_def split: option.split)

lemma subdued_resume [simp]: "subdued w a \<Longrightarrow> subdued w (resumeFrom ox c prior a)"
  by (simp add: resumeFrom_def case_prod_beta split: option.split)

lemma subdued_hello [simp]: "subdued w a \<Longrightarrow> subdued w (snd (handleHello ox c v n t a))"
  by (simp add: handleHello_def Let_def subdued_same split: option.split)

lemma subdued_report [simp]: "subdued w a \<Longrightarrow> subdued w (Dispatch.handleReportWord ox c word a)"
  by (simp add: Dispatch.handleReportWord_def case_prod_beta Let_def subdued_same split: option.split)

lemma subdued_join [simp]: "subdued w a \<Longrightarrow> subdued w (snd (joinRoom code c a))"
  by (simp add: joinRoom_def case_prod_beta split: option.split)

lemma subdued_joinRoom [simp]: "subdued w a \<Longrightarrow> subdued w (dispatch_joinRoom ox c code a)"
  using subdued_join [of w _ code c]
  by (auto simp: dispatch_joinRoom_def case_prod_beta Let_def split: option.split)

text \<open>In a world that drains, whoever asks for a room is told so.\<close>

lemma subdued_ask_room [simp]:
  assumes s: "subdued w a" and d: "h_draining (w_hub w)"
  shows "subdued w (ask_startBot ox c level a)" "subdued w (ask_createRoom ox c a)" "subdued w (ask_quickMatch ox c a)"
proof -
  have check: "subdued w (passes_check ox c k b)" if "subdued w b" for k b
    using that d by (simp add: passes_check_def subdued_def [of w b])
  show "subdued w (ask_startBot ox c level a)" "subdued w (ask_createRoom ox c a)" "subdued w (ask_quickMatch ox c a)"
    using s by (simp_all add: ask_startBot_def startBot_case_def ask_createRoom_def createRoom_case_def ask_quickMatch_def
      quickMatch_case_def case_prod_beta Let_def check split: option.split)
qed

lemma subdued_ask: "subdued w a \<Longrightarrow> h_draining (w_hub w) \<Longrightarrow> subdued w (snd (ask ox c msg a))"
  by (cases msg) (simp_all add: ask_def dispatch_def toLobby_def)

lemma subdued_frame: "h_draining (w_hub w) \<Longrightarrow> subdued w (take_frame ox c f w)"
  using subdued_ask [of w "snd (charge ox frameLimiter c w)"]
  by (auto simp: take_frame_def read_frame_by_def case_prod_beta Let_def split: option.split)

lemma subdued_shutdown: "subdued w (shutdown ox w)"
proof -
  have "subdued w b \<Longrightarrow> subdued w (fold (\<lambda>c. send_to ox c m) cs b)" for b cs m by (induction cs arbitrary: b) simp_all
  moreover have "subdued w b \<Longrightarrow> subdued w (fold cancel_room is' b)" for b is'
    by (induction is' arbitrary: b) (simp_all add: cancel_room_def)
  moreover have "subdued w (upd_hub (\<lambda>h. h\<lparr>h_waiting := []\<rparr>) w)" by (rule subdued_hub) simp_all
  ultimately show ?thesis by (simp add: shutdown_def Let_def)
qed

text \<open>A call past the check: it opens at most one room, and is over.\<close>

lemma register_room_adds:
  assumes "register_room ox mode w = (res, a)"
  shows "h_draining (w_hub a) = h_draining (w_hub w) \<and> w_conns a = w_conns w \<and> w_sess a = w_sess w \<and>
    h_waiting (w_hub a) = h_waiting (w_hub w) \<and> w_rooms w \<le> w_rooms a \<and> w_rooms a \<le> Suc (w_rooms w) \<and>
    (\<forall>(code, i) \<in> set (h_rooms (w_hub a)). (code, i) \<in> set (h_rooms (w_hub w)) \<or> w_rooms w \<le> i \<and> i < w_rooms a)"
proof -
  have "set (AList.update code i xs) \<subseteq> insert (code, i) (set xs)" for code i and xs :: "(str \<times> rid) list"
    by (induction xs) auto
  then show ?thesis using assms by (fastforce simp: register_room_def Let_def split: if_splits option.splits)
qed

lemma subdued_first [simp]: "subdued w (snd r) \<Longrightarrow> subdued w (snd (first_input m r))"
  by (cases r) (simp add: first_input_def split: sum.split)

lemma subdued_pair [simp]: "subdued w (snd r) \<Longrightarrow> subdued w (snd (pair_up ox c d r))"
  by (cases r) (simp add: pair_up_def Let_def split: sum.split)

lemma subdued_answers [simp]:
  "subdued w (snd r) \<Longrightarrow> subdued w (answer_error ox c r)" "subdued w (snd r) \<Longrightarrow> subdued w (answer_match ox c r)"
  by (simp_all add: answer_error_def answer_match_def case_prod_beta split: option.split)

lemma drained_open:
  assumes d: "h_draining (w_hub w)" and c: "c < w_conns w" "ss_phase (w_sess w c) = InCall k" "opens_room k"
    and s: "subdued (snd (register_room ox mode w)) b"
  shows "drained w (returns c b)"
proof -
  obtain res a where reg: "register_room ox mode w = (res, a)" by fastforce
  note r = register_room_adds [OF reg]
  have s: "subdued a b" using s by (simp add: reg)
  have ph: "ss_phase (w_sess w e) = InCall k' \<and> e \<noteq> c" if "ss_phase (w_sess (returns c b) e) = InCall k'" for e k'
    using that s r unfolding returns_def subdued_def by (auto simp: upd_sess_def split: if_splits)
  have eqs: "w_conns (returns c b) = w_conns w" "w_rooms (returns c b) = w_rooms a" "w_hub (returns c b) = w_hub b"
    using s r by (simp_all add: returns_def upd_sess_def subdued_def)
  have sub: "calling q (returns c b) \<subseteq> calling q w - {c}" for q using ph eqs(1) by (auto simp: calling_def)
  have "c \<in> openers w" using c by (auto simp: calling_def)
  then have "card (openers w - {c}) + 1 = card (openers w)" using card_Suc_Diff1 [of "openers w" c] by simp
  moreover have "card (openers (returns c b)) \<le> card (openers w - {c})" using sub by (intro card_mono) simp_all
  moreover have "set (h_rooms (w_hub b)) \<subseteq> set (h_rooms (w_hub a))" "set (h_waiting (w_hub b)) \<subseteq> set (h_waiting (w_hub w))"
      "h_draining (w_hub b)" using s r d by (simp_all add: subdued_def)
  moreover have "w_rooms w \<le> w_rooms a" "w_rooms a \<le> Suc (w_rooms w)" using r by simp_all
  ultimately show ?thesis using r sub [of opens_room] sub [of "\<lambda>k. k = Match"] unfolding drained_def eqs by (fastforce simp: subset_iff)
qed

text \<open>A look through the queue adds the caller at most.\<close>

lemma take_waiter_adds:
  assumes "take_waiter c w = (p, a)"
  shows "w_sess a = w_sess w \<and> w_conns a = w_conns w \<and> w_rooms a = w_rooms w \<and> h_draining (w_hub a) = h_draining (w_hub w) \<and>
    h_rooms (w_hub a) = h_rooms (w_hub w) \<and> set (h_waiting (w_hub a)) \<subseteq> insert c (set (h_waiting (w_hub w)))"
proof -
  obtain waiter rest where n: "next_waiter (\<lambda>d. ss_closed (w_sess w d)) (h_waiting (w_hub w)) = (waiter, rest)" by fastforce
  have "set rest \<subseteq> set (h_waiting (w_hub w))"
  proof (cases waiter)
    case None
    then show ?thesis using next_waiter_None n by fastforce
  next
    case (Some d)
    then obtain before where "h_waiting (w_hub w) = before @ d # rest" using next_waiter_Some n by blast
    then show ?thesis by auto
  qed
  then show ?thesis using assms n by (auto simp: take_waiter_def Let_def upd_hub_def split: if_splits option.splits)
qed

lemma drained_match:
  assumes d: "h_draining (w_hub w)" and c: "c < w_conns w" "ss_phase (w_sess w c) = InCall Match"
    and t: "take_waiter c w = (p, a)" and s: "subdued (upd_sess c (\<lambda>s. s\<lparr>ss_phase := ph\<rparr>) a) b"
    and ph: "ph = Reading \<or> (\<exists>k. ph = InCall k \<and> k \<noteq> Match \<and> \<not> opens_room k)"
  shows "drained w b"
proof -
  note f = take_waiter_adds [OF t]
  have eqs: "w_conns b = w_conns w" "w_rooms b = w_rooms w" "h_draining (w_hub b)"
      "set (h_rooms (w_hub b)) \<subseteq> set (h_rooms (w_hub w))" "set (h_waiting (w_hub b)) \<subseteq> insert c (set (h_waiting (w_hub w)))"
    using s f d by (auto simp: subdued_def upd_sess_def)
  have "e \<noteq> c \<and> ss_phase (w_sess w e) = InCall k" if "ss_phase (w_sess b e) = InCall k" "opens_room k \<or> k = Match" for e k
  proof -
    have "ss_phase (((w_sess w)(c := (w_sess w c)\<lparr>ss_phase := ph\<rparr>)) e) = InCall k"
      using s f that(1) by (simp add: subdued_def upd_sess_def)
    then show ?thesis using ph that(2) by (auto split: if_splits)
  qed
  then have sub: "openers b \<subseteq> openers w" "matchers b \<subseteq> matchers w" using eqs(1) by (auto simp: calling_def)
  then have "card (openers b) \<le> card (openers w)" by (intro card_mono) simp_all
  moreover have "c \<in> matchers w" using c by (simp add: calling_def)
  ultimately show ?thesis using sub eqs unfolding drained_def by auto
qed

lemma drained_call:
  assumes d: "h_draining (w_hub w)" and c: "c < w_conns w" "ss_phase (w_sess w c) = InCall k"
  shows "drained w (hub_turn ox c k w)"
proof (cases k)
  case (OpenBot level)
  show ?thesis unfolding OpenBot hub_turn_def hub_call.case
    by (rule drained_open [OF d c, where ox = ox and mode = roomModeBot]) (simp_all add: OpenBot)
next
  case OpenRoom
  show ?thesis unfolding OpenRoom hub_turn_def hub_call.case
    by (rule drained_open [OF d c, where ox = ox and mode = roomModePvP]) (simp_all add: OpenRoom)
next
  case (PairOpen e)
  show ?thesis unfolding PairOpen hub_turn_def hub_call.case
    by (rule drained_open [OF d c, where ox = ox and mode = roomModePvP]) (simp_all add: PairOpen)
next
  case Match
  obtain p a where t: "take_waiter c w = (p, a)" by fastforce
  note m = drained_match [OF d c(1) c(2) [unfolded Match] t]
  show ?thesis
  proof (cases p)
    case AlreadyWaits
    have "subdued (upd_sess c (\<lambda>s. s\<lparr>ss_phase := Reading\<rparr>) a) (returns c (answer_match ox c (Some errAlreadyQueued, a)))"
      by (simp add: returns_def answer_match_def answer_def send_to_def subdued_def upd_sess_def)
    then show ?thesis unfolding Match hub_turn_def hub_call.case t prod.case AlreadyWaits pairing.case
      by (rule m [where ph = Reading]) simp
  next
    case Waits
    show ?thesis unfolding Match hub_turn_def hub_call.case t prod.case Waits pairing.case enter_def
      by (rule m [where ph = "InCall Tell"]) simp_all
  next
    case (Partner e)
    show ?thesis unfolding Match hub_turn_def hub_call.case t prod.case Partner pairing.case enter_def
      by (rule m [where ph = "InCall (Pair e)"]) simp_all
  qed
next
  case Tell
  then show ?thesis by (simp add: hub_turn_def subdued_drained [OF d])
next
  case (Pair e)
  then show ?thesis by (simp add: hub_turn_def d subdued_drained [OF d])
qed

lemma drained_step: "server_step w w' \<Longrightarrow> h_draining (w_hub w) \<Longrightarrow> drained w w'"
proof (induction rule: server_step.induct)
  case (connects token w sid ip now)
  have "calling q (connect sid token ip now w) \<subseteq> calling q w" for q
    by (auto simp: calling_def connect_def split: if_splits)
  then have "openers (connect sid token ip now w) \<subseteq> openers w" "matchers (connect sid token ip now w) \<subseteq> matchers w"
    "card (openers (connect sid token ip now w)) \<le> card (openers w)" by (simp_all add: card_mono)
  then show ?case using connects by (auto simp: drained_def connect_def)
next
  case (calls c w k ox)
  then show ?case by (intro drained_call)
next
  case (drains w)
  then show ?case by (intro subdued_drained subdued_hub) (simp_all add: startDraining_def)
next
  case (ends c w)
  show ?case unfolding end_session_def Let_def
    by (rule subdued_drained [OF ends(3) subdued_sess]) (simp_all add: subdued_same)
next
  case (bot i w k word)
  then show ?case by (simp add: bot_answers_def Let_def subdued_drained)
qed (simp_all add: subdued_drained subdued_frame subdued_turn subdued_shutdown hello_expired_def
      written_def deliver_def subdued_same)

lemma drained_reach: "server_reach w w' \<Longrightarrow> h_draining (w_hub w) \<Longrightarrow> drained w w'"
proof (induction rule: server_reach.induct)
  case (stepped w1 w2)
  then have "drained w w1" by simp
  moreover from this have "drained w1 w2" using drained_step [OF stepped.hyps(2)] by (simp add: drained_def)
  ultimately show ?case by (rule drained_trans)
qed simp

text \<open>
  Claim (C26). Draining lets the calls under way run out and admits no other. The drain flag is an atomic read outside the
  hub's lock, so a call that read it before it was set may still open a room, or enter the queue, after. But
  from the moment the server drains, whatever connections, rooms and timers do, in whatever order: it goes on draining; no
  further call gets past the flag; each of those past it opens one room at most, and once they are through the number
  of rooms and the registry grow no more; and only the callers who had passed the flag but not yet looked
  through the queue can still join it.
\<close>

theorem draining_final:
  assumes "server_reach w w'" and "h_draining (w_hub w)"
  shows "h_draining (w_hub w') \<and>
    calling opens_room w' \<subseteq> calling opens_room w \<and> calling (\<lambda>k. k = Match) w' \<subseteq> calling (\<lambda>k. k = Match) w \<and>
    w_rooms w \<le> w_rooms w' \<and> w_rooms w' + card (calling opens_room w') \<le> w_rooms w + card (calling opens_room w) \<and>
    (\<forall>(code, i) \<in> set (h_rooms (w_hub w')). (code, i) \<in> set (h_rooms (w_hub w)) \<or> w_rooms w \<le> i \<and> i < w_rooms w') \<and>
    set (h_waiting (w_hub w')) \<subseteq> set (h_waiting (w_hub w)) \<union> calling (\<lambda>k. k = Match) w"
  using drained_reach [OF assms] unfolding drained_def .

text \<open>
  The room that slips through: the server starts to drain just after a connection asked for a room. The call opens it; it
  was the only one under way, so it is the last.
\<close>

lemma late_room:
  defines "w \<equiv> upd_hub startDraining serve_asked"
  shows "h_draining (w_hub w)" "w_rooms w = 0" "calling opens_room w = {0}" "server_reach w (hub_turn demo_outside 0 OpenRoom w)"
    "w_rooms (hub_turn demo_outside 0 OpenRoom w) = 1"
proof -
  have eqs: "w_conns w = 1" "ss_phase (w_sess w 0) = InCall OpenRoom"
    by (simp_all add: w_def serve_asked_eq upd_hub_def)
  show "h_draining (w_hub w)" "w_rooms w = 0" "calling opens_room w = {0}"
    using eqs by (auto simp: w_def serve_asked_eq upd_hub_def startDraining_def calling_def)
  show "server_reach w (hub_turn demo_outside 0 OpenRoom w)"
    by (rule server_reach.stepped [OF server_reach.started server_step.calls]) (simp_all add: eqs)
  show "w_rooms (hub_turn demo_outside 0 OpenRoom w) = 1"
    by (simp add: w_def serve_asked_eq hub_turn_def register_room_def Let_def demo_draw first_input_def room_send_def upd_room_def
      answer_error_def returns_def upd_sess_def upd_hub_def startDraining_def defaultMaxRooms_def demo_outside_def demo_hub_def
      newHub_def)
qed

theorem draining_final_witness:
  "w_rooms (hub_turn demo_outside 0 OpenRoom (upd_hub startDraining serve_asked)) = 1 \<and>
   calling opens_room (hub_turn demo_outside 0 OpenRoom (upd_hub startDraining serve_asked)) = {}"
  using draining_final [OF late_room(4,1)] by (simp add: late_room(2,3,5))

end
