(* ===== verification/Dispatch_Props.thy ===== *)
theory Dispatch_Props
  imports Hub_Props
begin

text \<open>What a client gets for the frames it sends: nothing it asks for is met with silence.\<close>

text \<open>The connection whose request an input is.\<close>

fun asker :: "room_input \<Rightarrow> conn option" where
  "asker (createInput c auto) = Some c"
| "asker (startBotInput c d) = Some c"
| "asker (joinInput c) = Some c"
| "asker (submitInput c p word seq) = Some c"
| "asker (botMoveInput word seq) = None"
| "asker (lobbyInput c p act) = Some c"
| "asker (chatInput c p text) = Some c"
| "asker (resignInput c p) = Some c"
| "asker (claimDeadEndInput c p) = Some c"
| "asker (reportWordInput c word) = Some c"
| "asker (disconnectInput p c) = None"
| "asker (resumeInput p c prior) = Some c"

text \<open>A frame is queued for the connection, or it is being closed for not keeping up.\<close>

definition heard :: "conn \<Rightarrow> world \<Rightarrow> world \<Rightarrow> bool" where
  "heard c w w' \<longleftrightarrow> ss_closed (w_sess w' c) \<or>
     (\<exists>ms. ms \<noteq> [] \<and> ss_outbox (w_sess w' c) = ss_outbox (w_sess w c) @ ms)"

text \<open>The request is the last input of a room that took it: one that was there, or the one opened for it.\<close>

definition posted :: "conn \<Rightarrow> world \<Rightarrow> world \<Rightarrow> bool" where
  "posted c w w' \<longleftrightarrow> (\<exists>i m ms. asker m = Some c \<and> rp_inputs (w_room w' i) = ms @ [m] \<and>
     (ms = rp_inputs (w_room w i) \<or> i = w_rooms w \<and> w_rooms w' = Suc i))"

definition answered :: "conn \<Rightarrow> world \<Rightarrow> world \<Rightarrow> bool" where
  "answered c w w' \<longleftrightarrow> heard c w w' \<or> posted c w w'"

text \<open>What charging and checking leaves alone.\<close>

definition calm :: "conn \<Rightarrow> world \<Rightarrow> world \<Rightarrow> bool" where
  "calm c w a \<longleftrightarrow> ss_outbox (w_sess a c) = ss_outbox (w_sess w c) \<and> w_room a = w_room w \<and> w_rooms a = w_rooms w"

lemma calm_refl [simp]: "calm c w w"
  by (simp add: calm_def)

lemma calm_hub [simp]: "calm c w (upd_hub f a) \<longleftrightarrow> calm c w a"
  by (simp add: calm_def upd_hub_def)

lemma calm_charge [simp]: "calm c w (snd (charge ox b d a)) \<longleftrightarrow> calm c w a"
proof -
  have "ss_outbox (set_bucket b k s) = ss_outbox s" for k s by (cases b) simp_all
  then show ?thesis by (simp add: calm_def charge_def case_prod_beta upd_sess_def)
qed

lemma calm_sess: "calm c w a \<Longrightarrow> ss_outbox (f (w_sess a c)) = ss_outbox (w_sess a c) \<Longrightarrow> calm c w (upd_sess c f a)"
  by (simp add: calm_def upd_sess_def)

lemma send_heard:
  assumes "ss_outbox (w_sess a c) = ss_outbox (w_sess w c) \<or> heard c w a"
  shows "heard c w (send_to ox c m a)"
proof (cases "ss_closed (w_sess a c)")
  case True
  then show ?thesis by (simp add: heard_def send_to_def upd_sess_def session_send_def enqueue_def)
next
  case False
  then obtain ms where "ss_outbox (w_sess a c) = ss_outbox (w_sess w c) @ ms"
    using assms by (auto simp: heard_def)
  then show ?thesis using False by (simp add: heard_def send_to_def upd_sess_def session_send_def enqueue_def)
qed

lemma send_answered [simp]: "calm c w a \<Longrightarrow> answered c w (send_to ox c m a)"
  by (simp add: answered_def calm_def send_heard)

lemma answer_answered [simp]: "calm c w a \<Longrightarrow> answered c w (answer ox c code a)"
  by (simp add: answer_def)

lemma post_posted: "calm c w a \<Longrightarrow> fst (room_send i m a) \<Longrightarrow> asker m = Some c \<Longrightarrow> posted c w (snd (room_send i m a))"
  unfolding posted_def by (intro exI [of _ i] exI [of _ m] exI [of _ "rp_inputs (w_room w i)"])
    (auto simp: room_send_def calm_def upd_room_def split: if_splits)

lemma refused_calm [simp]: "calm c w a \<Longrightarrow> \<not> fst (room_send i m a) \<Longrightarrow> calm c w (snd (room_send i m a))"
  by (auto simp: room_send_def split: if_splits)

text \<open>Posting, with an answer if the room does not take it.\<close>

lemma post_answered:
  assumes "calm c w a" and "asker m = Some c"
  shows "answered c w (let (sent, b) = room_send i m a in if sent then b else answer ox c (code b) b)"
  using assms by (cases "fst (room_send i m a)") (simp_all add: case_prod_beta post_posted [of c w a i m] answered_def [of c w "snd (room_send i m a)"])

lemma toRoom_answered:
  assumes "\<And>p. asker (build p) = Some c"
  shows "answered c w (toRoom ox c limiter notIn dropped build w)"
proof -
  define a where "a = (case limiter of None \<Rightarrow> (True, w) | Some b \<Rightarrow> charge ox b c w)"
  have a: "calm c w (snd a)" by (simp add: a_def split: option.split)
  show ?thesis
  proof (cases "fst a \<and> fst (currentRoom c (snd a)) \<noteq> None")
    case True
    then obtain i p where "currentRoom c (snd a) = (Some i, p)" by (cases "currentRoom c (snd a)") auto
    then show ?thesis using True post_answered [OF a assms [of p], of i ox "\<lambda>_. dropped"]
      by (simp add: toRoom_def a_def [symmetric] case_prod_beta Let_def)
  next
    case False
    then show ?thesis using a by (auto simp: toRoom_def a_def [symmetric] case_prod_beta split: option.split)
  qed
qed

lemma toLobby_answered: "answered c w (toLobby ox c act w)"
  unfolding toLobby_def by (rule toRoom_answered) simp

subsection \<open>Requests to the hub\<close>

lemma refuse_cases:
  "if fst (refuseMidGame ox c w) then answered c w (snd (refuseMidGame ox c w)) else calm c w (snd (refuseMidGame ox c w))"
  by (simp add: refuseMidGame_def)

lemma allow_cases:
  assumes "calm c w a"
  shows "if fst (allowRoom ox c a) then calm c w (snd (allowRoom ox c a)) else answered c w (snd (allowRoom ox c a))"
  using assms by (simp add: allowRoom_def case_prod_beta Let_def)

text \<open>The shape the handlers that open a room share.\<close>

lemma guarded_answered:
  assumes "\<And>a. calm c w a \<Longrightarrow> answered c w (f a)"
  shows "answered c w (let (refused, a) = refuseMidGame ox c w
      in if refused then a else let (ok, a) = allowRoom ox c a in if \<not> ok then a else f a)"
  using refuse_cases [of ox c w] allow_cases [of c w "snd (refuseMidGame ox c w)" ox] assms
  by (simp add: case_prod_beta Let_def split: if_splits)

text \<open>The request to be seated is the first input of a room opened for it.\<close>

lemma open_answered:
  assumes "calm c w a" and n: "newRegisteredRoom ox mode a = (Inr i, b)" and "asker m = Some c"
  shows "answered c w (snd (room_send i m b))"
proof -
  have i: "i = w_rooms a" "w_rooms b = Suc i" and new: "rp_inputs (w_room b i) = []" "\<not> rp_over (w_room b i)"
    using newRegisteredRoom_new [OF n] by blast+
  have "room_send i m b = (True, upd_room i (\<lambda>p. p\<lparr>rp_inputs := rp_inputs p @ [m]\<rparr>) b)"
    by (rule post_taken) (simp_all add: new roomInputCap_def)
  then have "posted c w (snd (room_send i m b))"
    using i new assms(1,3) unfolding posted_def
    by (intro exI [of _ i] exI [of _ m] exI [of _ "[]"]) (simp add: calm_def upd_room_def)
  then show ?thesis by (simp add: answered_def)
qed

lemma startBot_answered: "answered c w (dispatch_startBot ox c d w)"
  unfolding dispatch_startBot_def startBot_case_def
proof (rule guarded_answered)
  fix a assume a: "calm c w a"
  show "answered c w (case Difficulty d of None \<Rightarrow> answer ox c codeUnknownDifficulty a
      | Some level \<Rightarrow> answer_error ox c (startBotRoom ox c level a))"
  proof (cases "Difficulty d")
    case (Some level)
    show ?thesis
    proof (cases "newRegisteredRoom ox roomModeBot a")
      case (Pair res b)
      then show ?thesis using a open_answered [OF a, of ox roomModeBot _ b "startBotInput c level"]
          newRegisteredRoom_error [of ox roomModeBot a _ b] Some
        by (cases res) (auto simp: startBotRoom_def first_input_def answer_error_def)
    qed
  qed (simp add: a)
qed

lemma createRoom_answered: "answered c w (dispatch_createRoom ox c w)"
  unfolding dispatch_createRoom_def createRoom_case_def
proof (rule guarded_answered)
  fix a assume a: "calm c w a"
  show "answered c w (answer_error ox c (createRoom ox c a))"
  proof (cases "newRegisteredRoom ox roomModePvP a")
    case (Pair res b)
    then show ?thesis using a open_answered [OF a, of ox roomModePvP _ b "createInput c False"]
        newRegisteredRoom_error [of ox roomModePvP a _ b]
      by (cases res) (auto simp: createRoom_def first_input_def answer_error_def)
  qed
qed

lemma joinRoom_answered: "answered c w (dispatch_joinRoom ox c code w)"
proof (cases "fst (refuseMidGame ox c w)")
  case True
  then show ?thesis using refuse_cases [of ox c w] by (simp add: dispatch_joinRoom_def case_prod_beta)
next
  case False
  define a where "a = (let (ok, l) = keyed_allow (ss_remoteIP (w_sess (snd (refuseMidGame ox c w)) c)) (ox_now ox)
      (h_joinLimiter (w_hub (snd (refuseMidGame ox c w)))) in
    (ok, upd_hub (\<lambda>h. h\<lparr>h_joinLimiter := l\<rparr>) (snd (refuseMidGame ox c w))))"
  have a: "calm c w (snd a)" using refuse_cases [of ox c w] False by (simp add: a_def case_prod_beta)
  have "dispatch_joinRoom ox c code w =
    (if \<not> fst a then answer ox c codeTooManyAttempts (snd a)
     else case joinRoom code c (snd a) of (None, w) \<Rightarrow> w | (Some err, w) \<Rightarrow> answer ox c codeRoomNotFound w)"
    using False by (simp add: dispatch_joinRoom_def a_def case_prod_beta Let_def)
  also have "answered c w \<dots>"
  proof (cases "map_of (h_rooms (w_hub (snd a))) code")
    case (Some i)
    then show ?thesis using a post_answered [OF a, of "joinInput c" i ox "\<lambda>_. codeRoomNotFound"]
      by (simp add: joinRoom_def case_prod_beta split: if_splits)
  qed (simp add: joinRoom_def a)
  finally show ?thesis .
qed

lemma quickMatch_answered:
  assumes a: "calm c w a"
  shows "answered c w (answer_match ox c (quickMatch ox c a))"
proof (cases "h_draining (w_hub a) \<or> c \<in> set (h_waiting (w_hub a))")
  case False
  obtain waiter rest where n: "next_waiter (\<lambda>d. ss_closed (w_sess a d)) (h_waiting (w_hub a)) = (waiter, rest)" by fastforce
  define a1 where "a1 = upd_hub (\<lambda>h. h\<lparr>h_waiting := rest\<rparr>) a"
  have a1: "calm c w a1" by (simp add: a1_def a)
  show ?thesis
  proof (cases waiter)
    case None
    then show ?thesis using False n a by (simp add: quickMatch_def take_waiter_def answer_match_def)
  next
    case (Some d)
    note q = quickMatch_partner [of a c d rest ox, folded a1_def]
    have dc: "d \<noteq> c" using next_waiter_Some [of _ _ d rest] n Some False by fastforce
    show ?thesis
    proof (cases "newRegisteredRoom ox roomModePvP a1")
      case (Pair res b)
      show ?thesis
      proof (cases res)
        case (Inl err)
        have e: "b = a1" "err \<noteq> errAlreadyQueued"
          using Pair Inl by (auto simp: newRegisteredRoom_def register_room_def Let_def split: if_splits option.splits)
        have "calm c w (send_to ox d m b)" for m using a1 dc e by (simp add: calm_def send_to_def upd_sess_def)
        then show ?thesis using False n Some Pair Inl e by (simp add: q pair_up_def answer_match_def)
      next
        case (Inr i)
        have s: "w_sess b = w_sess a1" using newRegisteredRoom_new [of ox roomModePvP a1 i b] Pair Inr by simp
        define b1 where "b1 = send_to ox c (quickMatchStatusMsg False) (send_to ox d (quickMatchStatusMsg False) b)"
        have "heard c w b1" unfolding b1_def
          by (rule send_heard) (use a1 dc s in \<open>auto simp: heard_def calm_def send_to_def upd_sess_def\<close>)
        moreover have "w_sess (snd (room_send i m v)) = w_sess v" for m v by (simp add: room_send_def upd_room_def)
        ultimately have "heard c w (snd (room_send i (joinInput c) (snd (room_send i (createInput d True) b1))))"
          by (simp add: heard_def)
        then show ?thesis using False n Some Pair Inr by (simp add: q pair_up_def b1_def answered_def answer_match_def)
      qed
    qed
  qed
qed (use a in \<open>auto simp: quickMatch_def take_waiter_def answer_match_def\<close>)

subsection \<open>The handshake and word reports\<close>

lemma hello_answered: "answered c w (snd (handleHello ox c v nick token w))"
proof (cases "v \<noteq> ProtocolVersion \<or> ss_greeted (w_sess w c)")
  case False
  define w1 where "w1 = upd_sess c (\<lambda>s. s\<lparr>ss_greeted := True, ss_helloTimer := False,
    ss_nick := sanitizeNickname (ox_unicode ox) nick\<rparr>) w"
  define s where "s = w_sess w1 c"
  define a where "a = upd_hub (hub_register (ss_resumeToken s) c) w1"
  define b where "b = send_to ox c (welcomeMsg (ss_id s) (ss_resumeToken s) (ss_nick s)) a"
  have b: "heard c w b" unfolding b_def by (rule send_heard) (simp add: a_def w1_def upd_hub_def upd_sess_def)
  have res: "heard c w (resumeFrom ox c prior b)" for prior
    using b send_heard [of _ c w ox] unfolding resumeFrom_def answer_def
    by (auto simp: case_prod_beta heard_def room_send_def upd_room_def split: option.split)
  have "snd (handleHello ox c v nick token w) = (case resumable token (w_hub b) of
      Some prior \<Rightarrow> if prior \<noteq> c then resumeFrom ox c prior b else b
    | None \<Rightarrow> if token \<noteq> [] then answer ox c codeSessionNotResumable b else b)"
    using False by (simp only: handleHello_def Let_def b_def a_def s_def w1_def simp_thms de_Morgan_disj if_True if_False
        snd_conv)
  then show ?thesis using b res send_heard [of b c w] by (simp add: answered_def answer_def split: option.split)
qed (auto simp: handleHello_def)

lemma reportWord_answered: "answered c w (Dispatch.handleReportWord ox c raw w)"
proof -
  define a where "a = snd (charge ox chatLimiter c w)"
  define b where "b word = upd_sess c (\<lambda>s. s\<lparr>ss_reportedWords := List.insert word (ss_reportedWords s)\<rparr>) a" for word
  have a: "calm c w a" and b: "calm c w (b word)" for word by (simp_all add: a_def b_def calm_sess)
  show ?thesis
    using post_answered [OF b, where code = "\<lambda>_. codeBusy"] a b
    by (simp add: Dispatch.handleReportWord_def case_prod_beta Let_def a_def [symmetric] b_def [symmetric] split: option.split)
qed

lemma quick_answered: "answered c w (dispatch_quickMatch ox c w)"
proof -
  have "answered c w (let (ok, a) = allowRoom ox c a in if \<not> ok then a else answer_match ox c (quickMatch ox c a))" if "calm c w a" for a
    using allow_cases [OF that, of ox] quickMatch_answered [of c w "snd (allowRoom ox c a)" ox]
    by (simp add: case_prod_beta split: if_splits)
  then show ?thesis using refuse_cases [of ox c w] by (simp add: dispatch_quickMatch_def quickMatch_case_def case_prod_beta split: if_splits)
qed

lemma answered_after: "calm c w a \<Longrightarrow> answered c a b \<Longrightarrow> answered c w b"
  by (simp add: calm_def answered_def heard_def posted_def)

lemma charge_greeted: "ss_greeted (w_sess (snd (charge ox b c w)) d) = ss_greeted (w_sess w d)"
  using mild_charge [of w ox b c] by (simp add: mild_def)

text \<open>
  Claim (C27). No silence: whatever frame a client sends, it is answered. Either a frame for this client is queued (or the client
  is being closed because its outbox is full), or the request is now the last input of a room: one that was open
  before, or the one just opened for it. And reading goes on exactly when the frame was within budget, decoded, and was
  either a first hello with the server's protocol version or another message after a hello. (Said of a frame handled in one
  go; lemma \<open>ask_run_through\<close> relates it to the steps of the server.)
\<close>

theorem every_frame_answered:
  "answered c w (snd (read_frame ox c frame w)) \<and>
   (fst (read_frame ox c frame w) = None \<longleftrightarrow>
      fst (charge ox frameLimiter c w) \<and>
      (case frame of None \<Rightarrow> False
       | Some (ClientMessage_Hello v nick token) \<Rightarrow> v = ProtocolVersion \<and> \<not> ss_greeted (w_sess w c)
       | Some msg \<Rightarrow> ss_greeted (w_sess w c)))"
proof -
  define a where "a = snd (charge ox frameLimiter c w)"
  have a: "calm c w a" by (simp add: a_def)
  have routed: "answered c a (snd (dispatch ox c msg a))" for msg
    by (cases "ss_greeted (w_sess a c)"; cases msg)
      (simp_all add: dispatch_def hello_answered startBot_answered createRoom_answered joinRoom_answered
        quick_answered reportWord_answered toRoom_answered toLobby_answered)
  have g: "ss_greeted (w_sess a c) = ss_greeted (w_sess w c)" by (simp add: a_def charge_greeted)
  have gate: "fst (dispatch ox c msg a) = None \<longleftrightarrow> (case msg of
      ClientMessage_Hello v nick token \<Rightarrow> v = ProtocolVersion \<and> \<not> ss_greeted (w_sess w c)
    | msg \<Rightarrow> ss_greeted (w_sess w c))" for msg
    by (cases msg) (simp_all add: dispatch_def handleHello_def Let_def g)
  show ?thesis
  proof (cases "fst (charge ox frameLimiter c w) \<and> frame \<noteq> None")
    case True
    then obtain msg where "frame = Some msg" "fst (charge ox frameLimiter c w)" by blast
    then have "snd (read_frame ox c frame w) = snd (dispatch ox c msg a)"
        "fst (read_frame ox c frame w) = None \<longleftrightarrow> fst (dispatch ox c msg a) = None"
      by (auto simp: read_frame_def read_frame_by_def case_prod_beta a_def [symmetric] split: option.splits)
    then show ?thesis using gate [of msg] answered_after [OF a routed] \<open>frame = Some msg\<close> True by simp
  next
    case False
    then show ?thesis using a by (auto simp: read_frame_def read_frame_by_def case_prod_beta a_def [symmetric])
  qed
qed

end
