(* ===== verification/Go_Text.thy ===== *)
theory Go_Text
  imports Go_Strings "HOL-Library.Sublist"
begin

text \<open>
  More of Go's \<open>strings\<close> package, as the dictionary builder uses it: trimming, cutting and splitting text,
  and printing a number. Separators are runes, since every one the builder cuts at is.
\<close>

subsection \<open>Trimming\<close>

definition TrimLeftFunc :: "(rune \<Rightarrow> bool) \<Rightarrow> str \<Rightarrow> str" where
  "TrimLeftFunc f s = dropWhile f s"

definition TrimRightFunc :: "(rune \<Rightarrow> bool) \<Rightarrow> str \<Rightarrow> str" where
  "TrimRightFunc f s = rev (dropWhile f (rev s))"

definition TrimSpace :: "str \<Rightarrow> str" where
  "TrimSpace s = TrimRightFunc is_space (TrimLeftFunc is_space s)"

definition trimmed :: "str \<Rightarrow> bool" where
  "trimmed s \<longleftrightarrow> s = [] \<or> \<not> is_space (hd s) \<and> \<not> is_space (List.last s)"

lemma TrimRightFunc_id: "s = [] \<or> \<not> f (List.last s) \<Longrightarrow> TrimRightFunc f s = s"
  by (cases s rule: rev_cases) (auto simp: TrimRightFunc_def)

lemma TrimLeftFunc_id: "s = [] \<or> \<not> f (hd s) \<Longrightarrow> TrimLeftFunc f s = s"
  by (cases s) (auto simp: TrimLeftFunc_def)

lemma TrimRightFunc_snoc [simp]: "TrimRightFunc f (s @ [r]) = (if f r then TrimRightFunc f s else s @ [r])"
  by (simp add: TrimRightFunc_def)

lemma TrimRightFunc_Nil [simp]: "TrimRightFunc f [] = []"
  by (simp add: TrimRightFunc_def)

lemma TrimRightFunc_last: "TrimRightFunc f s = [] \<or> \<not> f (List.last (TrimRightFunc f s))"
  by (induction s rule: rev_induct) simp_all

lemma TrimRightFunc_prefix: "prefix (TrimRightFunc f s) s"
  by (induction s rule: rev_induct) (auto intro: prefix_order.trans)

lemma TrimRightFunc_hd: "TrimRightFunc f s = [] \<or> hd (TrimRightFunc f s) = hd s"
  using TrimRightFunc_prefix [of f s] by (cases "TrimRightFunc f s") (auto simp: prefix_def)

lemma set_TrimRightFunc: "set (TrimRightFunc f s) \<subseteq> set s"
  using set_dropWhileD [of _ f "rev s"] by (auto simp: TrimRightFunc_def)

lemma set_TrimSpace: "set (TrimSpace s) \<subseteq> set s"
  using set_TrimRightFunc [of is_space "TrimLeftFunc is_space s"] set_dropWhileD [of _ is_space s]
  by (auto simp: TrimSpace_def TrimLeftFunc_def)

lemma trimmed_TrimSpace [simp]: "trimmed (TrimSpace s)"
proof -
  define t where "t = TrimLeftFunc is_space s"
  have "t = [] \<or> \<not> is_space (hd t)" using hd_dropWhile [of is_space s] by (auto simp: t_def TrimLeftFunc_def)
  then show ?thesis
    using TrimRightFunc_last [of is_space t] TrimRightFunc_hd [of is_space t]
    by (auto simp: trimmed_def TrimSpace_def t_def [symmetric])
qed

lemma TrimSpace_id: "trimmed s \<Longrightarrow> TrimSpace s = s"
  by (auto simp: trimmed_def TrimSpace_def TrimLeftFunc_id TrimRightFunc_id)

lemma TrimSpace_id_iff: "TrimSpace s = s \<longleftrightarrow> trimmed s"
  using TrimSpace_id trimmed_TrimSpace by metis

subsection \<open>Cutting\<close>

text \<open>\<open>strings.Cut\<close> at the first separator; \<open>None\<close> when there is none.\<close>

fun Cut :: "rune \<Rightarrow> str \<Rightarrow> (str \<times> str) option" where
  "Cut c [] = None"
| "Cut c (r # rs) =
     (if r = c then Some ([], rs)
      else case Cut c rs of None \<Rightarrow> None | Some (a, b) \<Rightarrow> Some (r # a, b))"

lemma Cut_append: "c \<notin> set a \<Longrightarrow> Cut c (a @ c # b) = Some (a, b)"
  by (induction a) auto

lemma Cut_None: "Cut c s = None \<longleftrightarrow> c \<notin> set s"
  by (induction s) (auto split: option.split)

lemma Cut_Some: "Cut c s = Some (a, b) \<Longrightarrow> s = a @ c # b \<and> c \<notin> set a"
  by (induction s arbitrary: a) (auto split: if_splits option.splits)

text \<open>\<open>strings.Split\<close>: one field more than separators.\<close>

fun Split :: "rune \<Rightarrow> str \<Rightarrow> str list" where
  "Split c [] = [[]]"
| "Split c (r # rs) =
     (if r = c then [] # Split c rs
      else case Split c rs of [] \<Rightarrow> [[r]] | f # fs \<Rightarrow> (r # f) # fs)"

lemma Split_ne [simp]: "Split c s \<noteq> []"
  by (cases s) (auto split: list.split)

lemma Split_append: "c \<notin> set a \<Longrightarrow> Split c (a @ c # b) = a # Split c b"
  by (induction a) auto

lemma Split_single: "c \<notin> set a \<Longrightarrow> Split c a = [a]"
  by (induction a) auto

lemma Split_join: "fs \<noteq> [] \<Longrightarrow> \<forall>f \<in> set fs. c \<notin> set f \<Longrightarrow> Split c (join [c] fs) = fs"
proof (induction fs rule: induct_list012)
  case (3 f g fs)
  then show ?case using Split_append [of c f "join [c] (g # fs)"] by simp
qed (auto simp: Split_single)

lemma join_Split: "join [c] (Split c s) = s"
proof (induction s)
  case (Cons r s)
  then show ?case by (cases "Split c s") (auto simp: join_Cons, (cases "tl (Split c s)"; auto)+)
qed simp

text \<open>\<open>strings.Lines\<close>: the lines of a text, each with its line break; a last one may have none.\<close>

fun Lines :: "str \<Rightarrow> str list" where
  "Lines [] = []"
| "Lines (r # rs) =
     (if r = 10 then [r] # Lines rs
      else case Lines rs of [] \<Rightarrow> [[r]] | l # ls \<Rightarrow> (r # l) # ls)"

lemma Lines_append: "10 \<notin> set a \<Longrightarrow> Lines (a @ 10 # b) = (a @ [10]) # Lines b"
  by (induction a) auto

lemma Lines_concat: "\<forall>l \<in> set ls. 10 \<notin> set l \<Longrightarrow> Lines (concat (map (\<lambda>l. l @ [10]) ls)) = map (\<lambda>l. l @ [10]) ls"
  by (induction ls) (auto simp: Lines_append)

subsection \<open>Printing a number\<close>

text \<open>\<open>fmt.Sprint\<close> of a count.\<close>

fun digits_of :: "nat \<Rightarrow> str" where
  "digits_of n = (if n < 10 then [48 + n] else digits_of (n div 10) @ [48 + n mod 10])"

declare digits_of.simps [simp del]

lemma decimal_append: "decimal (s @ t) n = (case decimal s n of None \<Rightarrow> None | Some m \<Rightarrow> decimal t m)"
  by (induction s n rule: decimal.induct) auto

lemma decimal_digits_of: "decimal (digits_of n) 0 = Some (int n)"
proof (induction n rule: digits_of.induct)
  case (1 n)
  show ?case
  proof (cases "n < 10")
    case True
    then show ?thesis by (simp add: digits_of.simps)
  next
    case False
    with 1 show ?thesis by (subst digits_of.simps) (simp add: decimal_append, presburger)
  qed
qed

lemma digits_of_hd: "digits_of n \<noteq> [] \<and> 48 \<le> hd (digits_of n) \<and> hd (digits_of n) \<le> 57"
proof (induction n rule: digits_of.induct)
  case (1 n)
  then show ?case by (cases "n < 10") (auto simp: digits_of.simps [of n])
qed

text \<open>What is printed reads back.\<close>

lemma Atoi_digits_of: "int n \<le> max_int64 \<Longrightarrow> Atoi (digits_of n) = Some (int n)"
  using digits_of_hd [of n] decimal_digits_of [of n] by (auto simp: Atoi_def Let_def min_int64_def)

end
