(* ===== verification/Go_Netip.thy ===== *)
theory Go_Netip
  imports Go_Text
begin

text \<open>
  What the server uses of Go's \<open>net/netip\<close> and of \<open>net.SplitHostPort\<close>: reading and printing addresses, and
  the ranges of addresses proxies are configured by. An address is the number it stands for, of 32 or of
  128 bits; one of 128 bits may carry a zone, whose empty text means it has none.
\<close>

unbundle bit_operations_syntax

datatype addr = Addr4 "32 word" | Addr6 "128 word" str

subsection \<open>A number and its pieces\<close>

text \<open>The \<open>n\<close> pieces of \<open>k\<close> bits a number has, the most significant first, and the number back.\<close>

definition pieces :: "nat \<Rightarrow> nat \<Rightarrow> nat \<Rightarrow> nat list" where
  "pieces k n x = map (\<lambda>i. take_bit k (drop_bit (k * i) x)) (rev [0..<n])"

definition glue :: "nat \<Rightarrow> nat list \<Rightarrow> nat" where
  "glue k gs = foldl (\<lambda>x g. push_bit k x + g) 0 gs"

lemma glue_snoc: "glue k (gs @ [g]) = push_bit k (glue k gs) + g"
  by (simp add: glue_def)

lemma pieces_Suc: "pieces k (Suc n) x = pieces k n (drop_bit k x) @ [take_bit k x]"
proof -
  have "[0..<Suc n] = 0 # map Suc [0..<n]" by (simp add: upt_conv_Cons map_Suc_upt del: upt_Suc)
  then show ?thesis by (simp add: pieces_def rev_map drop_bit_drop_bit add.commute del: upt_Suc)
qed

lemma length_pieces [simp]: "length (pieces k n x) = n"
  by (simp add: pieces_def)

lemma glue_pieces: "x < 2 ^ (k * n) \<Longrightarrow> glue k (pieces k n x) = x"
proof (induction n arbitrary: x)
  case 0
  then show ?case by (simp add: pieces_def glue_def)
next
  case (Suc n)
  have "drop_bit k x < 2 ^ (k * n)"
    using Suc.prems by (simp add: drop_bit_eq_div power_add less_mult_imp_div_less mult.commute)
  then show ?case using Suc.IH by (simp add: pieces_Suc glue_snoc bits_ident)
qed

lemma pieces_glue: "\<forall>g \<in> set gs. g < 2 ^ k \<Longrightarrow> pieces k (length gs) (glue k gs) = gs"
proof (induction gs rule: rev_induct)
  case Nil
  then show ?case by (simp add: pieces_def)
next
  case (snoc g gs)
  then have "take_bit k (push_bit k (glue k gs) + g) = g" "drop_bit k (push_bit k (glue k gs) + g) = glue k gs"
    by (simp_all add: take_bit_eq_mod drop_bit_eq_div push_bit_eq_mult)
  with snoc show ?case by (simp add: glue_snoc pieces_Suc)
qed

lemma glue_less: "\<forall>g \<in> set gs. g < 2 ^ k \<Longrightarrow> glue k gs < 2 ^ (k * length gs)"
proof (induction gs rule: rev_induct)
  case (snoc g gs)
  then have "glue k gs + 1 \<le> 2 ^ (k * length gs)" "g < 2 ^ k" by auto
  then have "(glue k gs + 1) * 2 ^ k \<le> 2 ^ (k * length gs) * 2 ^ k" "g < 2 ^ k" by (simp_all del: mult_Suc)
  then show ?case by (simp add: glue_snoc push_bit_eq_mult power_add algebra_simps)
qed (simp add: glue_def)

lemma pieces_less: "g \<in> set (pieces k n x) \<Longrightarrow> g < 2 ^ k"
  by (auto simp: pieces_def)

text \<open>The octets of an address of 32 bits, and the eight groups of one of 128.\<close>

definition octets :: "32 word \<Rightarrow> nat list" where
  "octets a = pieces 8 4 (unat a)"

definition groups :: "128 word \<Rightarrow> nat list" where
  "groups a = pieces 16 8 (unat a)"

definition from_octets :: "nat list \<Rightarrow> 32 word" where
  "from_octets os = of_nat (glue 8 os)"

definition from_groups :: "nat list \<Rightarrow> 128 word" where
  "from_groups gs = of_nat (glue 16 gs)"

lemma from_octets_octets [simp]: "from_octets (octets a) = a"
proof -
  have "unat a < 2 ^ LENGTH(32)" by (rule unsigned_less)
  then show ?thesis using glue_pieces [of "unat a" 8 4] by (simp add: from_octets_def octets_def)
qed

lemma from_groups_groups [simp]: "from_groups (groups a) = a"
proof -
  have "unat a < 2 ^ LENGTH(128)" by (rule unsigned_less)
  then show ?thesis using glue_pieces [of "unat a" 16 8] by (simp add: from_groups_def groups_def)
qed

lemma groups_from_groups: "length gs = 8 \<Longrightarrow> \<forall>g \<in> set gs. g < 65536 \<Longrightarrow> groups (from_groups gs) = gs"
  using glue_less [of gs 16] pieces_glue [of gs 16]
  by (simp add: from_groups_def groups_def unat_of_nat take_bit_nat_eq_self)

lemma octets_from_octets: "length os = 4 \<Longrightarrow> \<forall>g \<in> set os. g < 256 \<Longrightarrow> octets (from_octets os) = os"
  using glue_less [of os 8] pieces_glue [of os 8]
  by (simp add: from_octets_def octets_def unat_of_nat take_bit_nat_eq_self)

lemma length_octets [simp]: "length (octets a) = 4"
  by (simp add: octets_def)

lemma length_groups [simp]: "length (groups a) = 8"
  by (simp add: groups_def)

lemma octets_less: "g \<in> set (octets a) \<Longrightarrow> g < 256"
  using pieces_less [of g 8 4] by (simp add: octets_def)

lemma groups_less: "g \<in> set (groups a) \<Longrightarrow> g < 65536"
  using pieces_less [of g 16 8] by (simp add: groups_def)

subsection \<open>Reading addresses\<close>

text \<open>Decimal octets: no sign, no leading zero.\<close>

definition octet :: "str \<Rightarrow> nat option" where
  "octet s =
     (if s = [] \<or> (hd s = 48 \<and> length s > 1) \<or> hd s = 43 \<or> hd s = 45 then None
      else case decimal s 0 of None \<Rightarrow> None | Some n \<Rightarrow> if n \<le> 255 then Some (nat n) else None)"

definition parse_octets :: "str \<Rightarrow> nat list option" where
  "parse_octets s =
     (let os = map octet (Split 46 s)
      in if length os = 4 \<and> None \<notin> set os then Some (map the os) else None)"

definition parseIPv4 :: "str \<Rightarrow> addr option" where
  "parseIPv4 s = map_option (\<lambda>os. Addr4 (from_octets os)) (parse_octets s)"

definition is_hex :: "rune \<Rightarrow> bool" where
  "is_hex r \<longleftrightarrow> 48 \<le> r \<and> r \<le> 57 \<or> 97 \<le> r \<and> r \<le> 102 \<or> 65 \<le> r \<and> r \<le> 70"

definition hex_value :: "rune \<Rightarrow> nat" where
  "hex_value r = (if r \<le> 57 then r - 48 else if r \<ge> 97 then r - 87 else r - 55)"

definition hex_number :: "str \<Rightarrow> nat" where
  "hex_number s = foldl (\<lambda>n r. 16 * n + hex_value r) 0 s"

text \<open>
  The loop of \<open>parseIPv6\<close>: the number of groups that still fit, the text left, the groups read and where the
  double colon stood. The last two groups may be written as four decimal octets.
\<close>

fun parse_groups :: "nat \<Rightarrow> str \<Rightarrow> nat list \<Rightarrow> nat option \<Rightarrow> (nat list \<times> nat option) option" where
  "parse_groups 0 s gs e = (if s = [] then Some (gs, e) else None)"
| "parse_groups (Suc k) s gs e =
     (let hex = takeWhile is_hex s; gs' = gs @ [hex_number hex]
      in if hex = [] \<or> length hex > 4 then None
         else case dropWhile is_hex s of
           [] \<Rightarrow> Some (gs', e)
         | r # rest \<Rightarrow>
             if r = 46 then
               (if (e = None \<and> length gs \<noteq> 6) \<or> length gs + 2 > 8 then None
                else case parse_octets s of
                  Some [a, b, c, d] \<Rightarrow> Some (gs @ [256 * a + b, 256 * c + d], e)
                | _ \<Rightarrow> None)
             else if r \<noteq> 58 then None
             else case rest of
               [] \<Rightarrow> None
             | q # rest' \<Rightarrow>
                 if q \<noteq> 58 then parse_groups k rest gs' e
                 else if e \<noteq> None then None
                 else if rest' = [] then Some (gs', Some (length gs'))
                 else parse_groups k rest' gs' (Some (length gs')))"

definition expand_groups :: "nat list \<times> nat option \<Rightarrow> nat list option" where
  "expand_groups x =
     (case x of
        (gs, None) \<Rightarrow> if length gs < 8 then None else Some gs
      | (gs, Some e) \<Rightarrow>
          if length gs < 8 then Some (take e gs @ replicate (8 - length gs) 0 @ drop e gs) else None)"

definition parse_body :: "str \<Rightarrow> nat list option" where
  "parse_body s =
     (if take 2 s = [58, 58]
      then (if length s = 2 then Some (replicate 8 0)
            else Option.bind (parse_groups 8 (drop 2 s) [] (Some 0)) expand_groups)
      else Option.bind (parse_groups 8 s [] None) expand_groups)"

definition parseIPv6 :: "str \<Rightarrow> addr option" where
  "parseIPv6 s =
     (case Cut 37 s of
        None \<Rightarrow> map_option (\<lambda>gs. Addr6 (from_groups gs) []) (parse_body s)
      | Some (body, zone) \<Rightarrow>
          if zone = [] then None else map_option (\<lambda>gs. Addr6 (from_groups gs) zone) (parse_body body))"

text \<open>Which of the two forms it is, the first dot, colon or percent sign decides.\<close>

definition ParseAddr :: "str \<Rightarrow> addr option" where
  "ParseAddr s =
     (case dropWhile (\<lambda>r. r \<notin> {46, 58, 37}) s of
        [] \<Rightarrow> None
      | r # _ \<Rightarrow> if r = 46 then parseIPv4 s else if r = 58 then parseIPv6 s else None)"

subsection \<open>Printing addresses\<close>

definition hex_digit :: "nat \<Rightarrow> rune" where
  "hex_digit n = (if n < 10 then 48 + n else 87 + n)"

fun hex_of :: "nat \<Rightarrow> str" where
  "hex_of n = (if n < 16 then [hex_digit n] else hex_of (n div 16) @ [hex_digit (n mod 16)])"

declare hex_of.simps [simp del]

definition string4 :: "32 word \<Rightarrow> str" where
  "string4 a = join [46] (map digits_of (octets a))"

text \<open>The first of the longest runs of at least two groups of zero, as its start and length.\<close>

definition zero_run :: "nat list \<Rightarrow> nat \<Rightarrow> nat" where
  "zero_run gs i = length (takeWhile (\<lambda>g. g = 0) (drop i gs))"

definition longest_run :: "nat list \<Rightarrow> nat \<times> nat" where
  "longest_run gs =
     foldl (\<lambda>(start, len) i. if zero_run gs i \<ge> 2 \<and> zero_run gs i > len then (i, zero_run gs i) else (start, len))
       (length gs, 0) [0..<length gs]"

definition print_groups :: "nat list \<Rightarrow> str" where
  "print_groups gs =
     (case longest_run gs of (start, len) \<Rightarrow>
        if len = 0 then join [58] (map hex_of gs)
        else join [58] (map hex_of (take start gs)) @ [58, 58] @ join [58] (map hex_of (drop (start + len) gs)))"

text \<open>An address of 32 bits written as one of 128 keeps its dots; \<open>::ffff:\<close> is in front.\<close>

definition Is4In6 :: "128 word \<Rightarrow> bool" where
  "Is4In6 a \<longleftrightarrow> drop_bit 32 a = 0xffff"

definition low_word :: "128 word \<Rightarrow> 32 word" where
  "low_word a = ucast a"

definition string6 :: "128 word \<Rightarrow> str" where
  "string6 a = (if Is4In6 a then lit ''::ffff:'' @ string4 (low_word a) else print_groups (groups a))"

fun addr_string :: "addr \<Rightarrow> str" where
  "addr_string (Addr4 a) = string4 a"
| "addr_string (Addr6 a zone) = string6 a @ (if zone = [] then [] else 37 # zone)"

fun Unmap :: "addr \<Rightarrow> addr" where
  "Unmap (Addr4 a) = Addr4 a"
| "Unmap (Addr6 a zone) = (if Is4In6 a then Addr4 (low_word a) else Addr6 a zone)"

fun WithZone :: "str \<Rightarrow> addr \<Rightarrow> addr" where
  "WithZone z (Addr4 a) = Addr4 a"
| "WithZone z (Addr6 a zone) = Addr6 a z"

fun Is6 :: "addr \<Rightarrow> bool" where
  "Is6 (Addr4 a) = False"
| "Is6 (Addr6 a zone) = True"

subsection \<open>Ranges\<close>

text \<open>A prefix has no zone; its length is within the address, which is what \<open>PrefixFrom\<close> calls valid.\<close>

record prefix_range =
  pr_addr :: addr
  pr_bits :: nat

fun BitLen :: "addr \<Rightarrow> nat" where
  "BitLen (Addr4 a) = 32"
| "BitLen (Addr6 a zone) = 128"

definition PrefixFrom :: "addr \<Rightarrow> nat \<Rightarrow> prefix_range" where
  "PrefixFrom a n = \<lparr>pr_addr = WithZone [] a, pr_bits = n\<rparr>"

definition high_bits :: "nat \<Rightarrow> 'a::len word \<Rightarrow> 'a word" where
  "high_bits n a = push_bit (LENGTH('a) - n) (drop_bit (LENGTH('a) - n) a)"

fun mask_addr :: "nat \<Rightarrow> addr \<Rightarrow> addr" where
  "mask_addr n (Addr4 a) = Addr4 (high_bits n a)"
| "mask_addr n (Addr6 a zone) = Addr6 (high_bits n a) []"

definition Masked :: "prefix_range \<Rightarrow> prefix_range" where
  "Masked p = p\<lparr>pr_addr := mask_addr (pr_bits p) (pr_addr p)\<rparr>"

definition prefix_string :: "prefix_range \<Rightarrow> str" where
  "prefix_string p = addr_string (pr_addr p) @ 47 # digits_of (pr_bits p)"

text \<open>Both must be of one kind, and an address with a zone is in no range.\<close>

fun prefix_contains :: "prefix_range \<Rightarrow> addr \<Rightarrow> bool" where
  "prefix_contains p (Addr4 a) =
     (case pr_addr p of
        Addr4 b \<Rightarrow> drop_bit (32 - pr_bits p) (a XOR b) = 0
      | Addr6 b _ \<Rightarrow> False)"
| "prefix_contains p (Addr6 a zone) =
     (case pr_addr p of
        Addr4 b \<Rightarrow> False
      | Addr6 b _ \<Rightarrow> zone = [] \<and> high_bits (pr_bits p) (a XOR b) = 0)"

text \<open>The address up to the last slash, and a length without sign or leading zero.\<close>

definition last_cut :: "rune \<Rightarrow> str \<Rightarrow> (str \<times> str) option" where
  "last_cut c s = map_option (\<lambda>(a, b). (rev b, rev a)) (Cut c (rev s))"

definition ParsePrefix :: "str \<Rightarrow> prefix_range option" where
  "ParsePrefix s =
     (case last_cut 47 s of
        None \<Rightarrow> None
      | Some (host, len) \<Rightarrow>
          (case ParseAddr host of
             None \<Rightarrow> None
           | Some a \<Rightarrow>
               if (case a of Addr4 _ \<Rightarrow> False | Addr6 _ zone \<Rightarrow> zone \<noteq> []) then None
               else if length len > 1 \<and> (hd len < 49 \<or> hd len > 57) then None
               else case Atoi len of
                 None \<Rightarrow> None
               | Some n \<Rightarrow> if n < 0 \<or> n > int (BitLen a) then None else Some (PrefixFrom a (nat n))))"

subsection \<open>net.SplitHostPort\<close>

text \<open>The host and the port of an address, brackets around the host removed; \<open>None\<close> is an error.\<close>

definition SplitHostPort :: "str \<Rightarrow> (str \<times> str) option" where
  "SplitHostPort s =
     (case last_cut 58 s of
        None \<Rightarrow> None
      | Some (front, port) \<Rightarrow>
          if s \<noteq> [] \<and> hd s = 91 then
            (case Cut 93 s of
               None \<Rightarrow> None
             | Some (host, rest) \<Rightarrow>
                 if rest \<noteq> 58 # port then None
                 else if 91 \<in> set (tl s) \<or> 93 \<in> set rest then None
                 else Some (tl host, port))
          else if 58 \<in> set front then None
          else if 91 \<in> set s \<or> 93 \<in> set s then None
          else Some (front, port))"

end
