(* ===== verification/Netip_Facts.thy ===== *)
theory Netip_Facts
  imports Go_Netip
begin

text \<open>An address that is printed reads back, and so the text of an address names it.\<close>

subsection \<open>Digits\<close>

lemma digits_of_zero: "hd (digits_of n) = 48 \<Longrightarrow> n = 0"
proof (induction n rule: digits_of.induct)
  case (1 n)
  then show ?case
    using digits_of_hd [of "n div 10"] by (cases "n < 10") (auto simp: digits_of.simps [of n] hd_append)
qed

lemma digits_of_digits: "r \<in> set (digits_of n) \<Longrightarrow> 48 \<le> r \<and> r \<le> 57"
proof (induction n rule: digits_of.induct)
  case (1 n)
  then show ?case by (cases "n < 10") (auto simp: digits_of.simps [of n])
qed

lemma length_digits_of: "n < 10 ^ k \<Longrightarrow> 0 < k \<Longrightarrow> length (digits_of n) \<le> k"
proof (induction k arbitrary: n)
  case (Suc k)
  then show ?case by (cases "n < 10"; cases k) (auto simp: digits_of.simps [of n] Suc.IH less_mult_imp_div_less)
qed simp

lemma octet_digits_of:
  assumes "n < 256"
  shows "octet (digits_of n) = Some n"
proof -
  have "n = 0 \<Longrightarrow> digits_of n = [48]" by (simp add: digits_of.simps)
  then have "\<not> (hd (digits_of n) = 48 \<and> length (digits_of n) > 1)" using digits_of_zero [of n] by auto
  with assms show ?thesis
    using digits_of_hd [of n] decimal_digits_of [of n] by (auto simp: octet_def)
qed

lemma parse_octets_join:
  assumes "length os = 4" "\<forall>n \<in> set os. n < 256"
  shows "parse_octets (join [46] (map digits_of os)) = Some os"
proof -
  have "\<forall>f \<in> set (map digits_of os). 46 \<notin> set f" using digits_of_digits by fastforce
  then have "Split 46 (join [46] (map digits_of os)) = map digits_of os"
    using assms(1) by (intro Split_join) auto
  moreover have "map (octet \<circ> digits_of) os = map Some os" using assms(2) by (auto simp: octet_digits_of)
  ultimately show ?thesis using assms by (auto simp: parse_octets_def o_def map_idI)
qed

lemma hex_digit_ok: "n < 16 \<Longrightarrow> is_hex (hex_digit n) \<and> hex_value (hex_digit n) = n"
  by (auto simp: is_hex_def hex_value_def hex_digit_def)

lemma hex_of_hex: "r \<in> set (hex_of n) \<Longrightarrow> is_hex r"
proof (induction n rule: hex_of.induct)
  case (1 n)
  then show ?case by (cases "n < 16") (auto simp: hex_of.simps [of n] hex_digit_ok)
qed

lemma hex_of_ne [simp]: "hex_of n \<noteq> []"
  by (subst hex_of.simps) simp

lemma hex_number_hex_of: "hex_number (hex_of n) = n"
proof (induction n rule: hex_of.induct)
  case (1 n)
  then show ?case
    by (cases "n < 16") (auto simp: hex_of.simps [of n] hex_number_def hex_digit_ok)
qed

lemma length_hex_of: "n < 16 ^ k \<Longrightarrow> 0 < k \<Longrightarrow> length (hex_of n) \<le> k"
proof (induction k arbitrary: n)
  case (Suc k)
  then show ?case by (cases "n < 16"; cases k) (auto simp: hex_of.simps [of n] Suc.IH less_mult_imp_div_less)
qed simp

lemma length_group: "g < 65536 \<Longrightarrow> length (hex_of g) \<le> 4"
  using length_hex_of [of g 4] by simp

lemma hex_not: "\<not> is_hex 58" "\<not> is_hex 46" "\<not> is_hex 37"
  by (simp_all add: is_hex_def)

subsection \<open>Groups\<close>

lemma take_hex [simp]: "takeWhile is_hex (hex_of g @ s) = hex_of g @ takeWhile is_hex s"
  "dropWhile is_hex (hex_of g @ s) = dropWhile is_hex s"
  by (simp_all add: hex_of_hex takeWhile_append2 dropWhile_append2)

lemma take_hex_end [simp]: "takeWhile is_hex (hex_of g) = hex_of g" "dropWhile is_hex (hex_of g) = []"
  using take_hex [of g "[]"] by simp_all

lemma hd_hex_of: "\<exists>r s. hex_of g = r # s \<and> r \<noteq> 58"
  using hex_of_hex [of "hd (hex_of g)" g] hex_not(1) by (cases "hex_of g") auto

lemma hd_join_hex: "gs \<noteq> [] \<Longrightarrow> \<exists>r s. join [58] (map hex_of gs) = r # s \<and> r \<noteq> 58"
  using hd_hex_of [of "hd gs"] by (cases gs; cases "tl gs") auto

lemma parse_groups_join:
  "gs \<noteq> [] \<Longrightarrow> length gs \<le> k \<Longrightarrow> \<forall>g \<in> set gs. g < 65536 \<Longrightarrow>
     parse_groups k (join [58] (map hex_of gs)) acc e = Some (acc @ gs, e)"
proof (induction gs arbitrary: k acc)
  case (Cons g gs)
  then obtain j where k: "k = Suc j" by (cases k) auto
  show ?case
  proof (cases gs)
    case Nil
    with Cons k show ?thesis by (simp add: Let_def length_group hex_number_hex_of not_less)
  next
    case (Cons h hs)
    then obtain r s where j: "join [58] (map hex_of gs) = r # s" "r \<noteq> 58" using hd_join_hex [of gs] by auto
    have "parse_groups j (join [58] (map hex_of gs)) (acc @ [g]) e = Some ((acc @ [g]) @ gs, e)"
      using Cons.IH [of j "acc @ [g]"] Cons.prems k Cons by simp
    moreover have "join [58] (map hex_of (g # gs)) = hex_of g @ 58 # r # s" using j Cons by simp
    ultimately show ?thesis
      using Cons.prems j by (simp add: Let_def k length_group hex_number_hex_of not_less hex_not)
  qed
qed simp

lemma parse_groups_gap:
  "xs \<noteq> [] \<Longrightarrow> length xs + length ys \<le> k \<Longrightarrow> \<forall>g \<in> set (xs @ ys). g < 65536 \<Longrightarrow>
     parse_groups k (join [58] (map hex_of xs) @ [58, 58] @ join [58] (map hex_of ys)) acc None =
       Some (acc @ xs @ ys, Some (length acc + length xs))"
proof (induction xs arbitrary: k acc)
  case (Cons g xs)
  then obtain j where k: "k = Suc j" by (cases k) auto
  have g: "length (hex_of g) \<le> 4" using Cons.prems by (simp add: length_group)
  show ?case
  proof (cases xs)
    case Nil
    then show ?thesis
      using g Cons.prems k parse_groups_join [of ys j "acc @ [g]" "Some (Suc (length acc))"] hd_join_hex [of ys]
      by (cases "ys = []") (auto simp: Let_def hex_number_hex_of not_less hex_not)
  next
    case (Cons h hs)
    then obtain r s where j: "join [58] (map hex_of xs) @ [58, 58] @ join [58] (map hex_of ys) = r # s" "r \<noteq> 58"
      using hd_join_hex [of xs] by auto
    have "parse_groups j (r # s) (acc @ [g]) None = Some ((acc @ [g]) @ xs @ ys, Some (Suc (length acc) + length xs))"
      using Cons.IH [of j "acc @ [g]"] Cons.prems k Cons by (simp add: j(1) [symmetric])
    moreover have "join [58] (map hex_of (g # xs)) @ [58, 58] @ join [58] (map hex_of ys) = hex_of g @ 58 # r # s"
      using Cons j by simp
    ultimately show ?thesis using g j(2) by (simp add: Let_def k hex_number_hex_of not_less hex_not)
  qed
qed simp

subsection \<open>The longest run of zeros\<close>

definition run_ok :: "nat list \<Rightarrow> nat \<times> nat \<Rightarrow> bool" where
  "run_ok gs x \<longleftrightarrow> (case x of (start, len) \<Rightarrow> len = 0 \<or>
     len \<ge> 2 \<and> start + len \<le> length gs \<and> take len (drop start gs) = replicate len 0)"

lemma zero_run_ok: "zero_run gs i \<ge> 2 \<Longrightarrow> run_ok gs (i, zero_run gs i)"
proof -
  assume two: "zero_run gs i \<ge> 2"
  have "take (zero_run gs i) (drop i gs) = takeWhile (\<lambda>g. g = 0) (drop i gs)"
    unfolding zero_run_def by (rule takeWhile_eq_take [symmetric])
  moreover have "takeWhile (\<lambda>g. g = 0) (drop i gs) = replicate (zero_run gs i) 0"
    unfolding zero_run_def by (rule replicate_length_same [symmetric]) (auto dest: set_takeWhileD)
  moreover have "zero_run gs i \<le> length gs - i"
    unfolding zero_run_def using length_takeWhile_le [of _ "drop i gs"] by simp
  ultimately show ?thesis using two by (auto simp: run_ok_def)
qed

lemma foldl_keeps: "P x \<Longrightarrow> (\<And>y i. P y \<Longrightarrow> P (f y i)) \<Longrightarrow> P (foldl f x is)"
  by (induction "is" arbitrary: x) auto

lemma longest_run_ok: "run_ok gs (longest_run gs)"
  unfolding longest_run_def
proof (rule foldl_keeps)
  show "run_ok gs (length gs, 0)" by (simp add: run_ok_def)
qed (auto intro: zero_run_ok split: if_splits prod.splits)

lemma parse_print_groups:
  assumes len: "length gs = 8" and small: "\<forall>g \<in> set gs. g < 65536"
  shows "parse_body (print_groups gs) = Some gs"
proof -
  obtain start l where run: "longest_run gs = (start, l)" by fastforce
  let ?xs = "take start gs" and ?ys = "drop (start + l) gs"
  have sub: "\<forall>g \<in> set (?xs @ ?ys). g < 65536" using small by (auto dest: in_set_takeD in_set_dropD)
  consider (none) "l = 0" | (gap) "l \<ge> 2" "start + l \<le> 8" "take l (drop start gs) = replicate l 0"
    using longest_run_ok [of gs] len by (auto simp: run run_ok_def)
  then show ?thesis
  proof cases
    case none
    have "gs \<noteq> []" using len by auto
    then obtain r s where hd: "join [58] (map hex_of gs) = r # s" "r \<noteq> 58" using hd_join_hex [of gs] by auto
    show ?thesis
      using parse_groups_join [of gs 8 "[]" None] \<open>gs \<noteq> []\<close> hd none len small
      by (simp add: print_groups_def run parse_body_def expand_groups_def)
  next
    case gap
    have whole: "?xs @ replicate l 0 @ ?ys = gs"
      by (metis gap(3) append_take_drop_id drop_drop add.commute)
    show ?thesis
    proof (cases "start = 0")
      case True
      then show ?thesis
      proof (cases "?ys = []")
        case ys: True
        then have l: "l = 8" using True gap len by simp
        then have "replicate 8 0 = gs" using whole ys True by simp
        moreover have "print_groups gs = [58, 58]" using ys True l by (simp add: print_groups_def run)
        ultimately show ?thesis by (simp add: parse_body_def)
      next
        case False
        then show ?thesis
          using parse_groups_join [of ?ys 8 "[]" "Some 0"] hd_join_hex [of ?ys] whole True gap len sub
          by (auto simp: print_groups_def run parse_body_def expand_groups_def)
      qed
    next
      case False
      then have "?xs \<noteq> []" using len by auto
      then obtain r s where hd: "join [58] (map hex_of ?xs) = r # s" "r \<noteq> 58"
        using hd_join_hex [of ?xs] by blast
      have "parse_groups 8 (print_groups gs) [] None = Some (?xs @ ?ys, Some start)"
        using parse_groups_gap [of ?xs ?ys 8 "[]"] \<open>?xs \<noteq> []\<close> gap len sub
        by (simp add: print_groups_def run min_def)
      then show ?thesis
        using hd gap len whole by (auto simp: print_groups_def run parse_body_def expand_groups_def min_def)
    qed
  qed
qed


subsection \<open>Whole addresses\<close>

text \<open>The characters of a printed address, and the first that tells which form it is.\<close>

lemma string4_chars: "r \<in> set (string4 a) \<Longrightarrow> r = 46 \<or> 48 \<le> r \<and> r \<le> 57"
  using set_join [of "[46]" "map digits_of (octets a)"] digits_of_digits by (fastforce simp: string4_def)

lemma join_hex_chars: "r \<in> set (join [58] (map hex_of gs)) \<Longrightarrow> r = 58 \<or> is_hex r"
  using set_join [of "[58]" "map hex_of gs"] hex_of_hex by fastforce

lemma print_groups_chars: "r \<in> set (print_groups gs) \<Longrightarrow> r = 58 \<or> is_hex r"
  using join_hex_chars [of r] by (auto simp: print_groups_def split: prod.splits if_splits)

lemma octets_cases: obtains a b c d where "octets w = [a, b, c, d]" "a < 256" "b < 256" "c < 256" "d < 256"
proof -
  have "\<exists>a b c d. octets w = [a, b, c, d]"
    using length_octets [of w] by (auto simp: numeral_eq_Suc length_Suc_conv simp del: length_octets)
  then obtain a b c d where "octets w = [a, b, c, d]" by blast
  then show thesis using that octets_less [of _ w] by simp
qed

lemma string4_shape: "\<exists>x y. string4 a = digits_of x @ 46 # y \<and> x < 256"
  by (rule octets_cases [of a]) (auto simp: string4_def)

lemma first_sign: "\<forall>r \<in> set xs. is_hex r \<Longrightarrow> y \<in> {46, 58, 37} \<Longrightarrow>
    dropWhile (\<lambda>r. r \<notin> {46, 58, 37}) (xs @ y # zs) = y # zs"
  using hex_not by (subst dropWhile_append2) auto

lemma digit_hex: "48 \<le> r \<and> r \<le> 57 \<Longrightarrow> is_hex r"
  by (simp add: is_hex_def)

lemma parse_string4: "ParseAddr (string4 a) = Some (Addr4 a)"
proof -
  obtain x y where "string4 a = digits_of x @ 46 # y" using string4_shape by blast
  then have "dropWhile (\<lambda>r. r \<notin> {46, 58, 37}) (string4 a) = 46 # y"
    using first_sign [of "digits_of x" 46 y] digits_of_digits digit_hex by auto
  moreover have "parseIPv4 (string4 a) = Some (Addr4 a)"
    using parse_octets_join [of "octets a"] octets_less by (simp add: parseIPv4_def string4_def)
  ultimately show ?thesis by (simp add: ParseAddr_def)
qed

lemma print_groups_colon:
  assumes "length gs = 8"
  shows "\<exists>g s. print_groups gs = hex_of g @ 58 # s \<or> print_groups gs = 58 # s"
proof -
  have join: "\<exists>g s. join [58] (map hex_of xs) @ 58 # t = hex_of g @ 58 # s \<or> join [58] (map hex_of xs) @ 58 # t = 58 # s" for xs t
    by (cases xs; cases "tl xs") auto
  obtain g h hs where "gs = g # h # hs" using assms by (cases gs; cases "tl gs") auto
  then show ?thesis
    using join [of "take (fst (longest_run gs)) gs"] by (auto simp: print_groups_def split: prod.splits)
qed

text \<open>The groups of an address of 32 bits written as one of 128.\<close>

lemma groups_4in6:
  assumes "Is4In6 a" "octets (low_word a) = [w, x, y, z]"
  shows "groups a = [0, 0, 0, 0, 0, 65535, 256 * w + x, 256 * y + z]"
proof -
  let ?gs = "[0, 0, 0, 0, 0, 65535, 256 * w + x, 256 * y + z]"
  have "glue 8 [w, x, y, z] = unat (low_word a)"
    using glue_pieces [of "unat (low_word a)" 8 4] unsigned_less [of "low_word a"] assms(2) by (simp add: octets_def)
  also have "\<dots> = take_bit 32 (unat a)" by (simp add: low_word_def unsigned_ucast_eq)
  finally have low: "take_bit 32 (unat a) = glue 8 [w, x, y, z]" by simp
  have high: "drop_bit 32 (unat a) = 65535"
  proof -
    have "unat a < 2 ^ LENGTH(128)" by (rule unsigned_less)
    then have "unat (drop_bit 32 a) = drop_bit 32 (unat a)"
      by (simp add: unsigned_drop_bit_eq take_bit_nat_eq_self)
    moreover have "unat (drop_bit 32 a) = 65535" using assms(1) by (simp add: Is4In6_def)
    ultimately show ?thesis by simp
  qed
  have "unat a = push_bit 32 65535 + glue 8 [w, x, y, z]"
    using bits_ident [of 32 "unat a"] by (simp only: low high)
  also have "\<dots> = glue 16 [0, 0, 0, 0, 0, 65535, 256 * w + x, 256 * y + z]"
    by (simp add: glue_def push_bit_eq_mult)
  finally have "unat a = glue 16 [0, 0, 0, 0, 0, 65535, 256 * w + x, 256 * y + z]" .
  moreover have "w < 256" "x < 256" "y < 256" "z < 256"
    using octets_less [of _ "low_word a"] assms(2) by auto
  ultimately have "pieces 16 (length ?gs) (unat a) = ?gs" by (simp only:) (rule pieces_glue, auto)
  moreover have "length ?gs = 8" by simp
  ultimately show ?thesis by (simp only: groups_def)
qed

lemma parse_4in6:
  assumes "Is4In6 a"
  shows "parse_body (lit ''::ffff:'' @ string4 (low_word a)) = Some (groups a)"
proof -
  obtain w x y z where os: "octets (low_word a) = [w, x, y, z]" "w < 256" by (rule octets_cases)
  let ?s = "string4 (low_word a)"
  obtain t where t: "?s = digits_of w @ 46 # t" using os by (simp add: string4_def)
  have p: "parse_octets ?s = Some [w, x, y, z]"
    using parse_octets_join [of "octets (low_word a)"] octets_less [of _ "low_word a"] os by (simp add: string4_def)
  have dig: "\<forall>r \<in> set (digits_of w). is_hex r" using digits_of_digits digit_hex by blast
  have take: "takeWhile is_hex ?s = digits_of w" "dropWhile is_hex ?s = 46 # t"
    using dig hex_not by (simp_all add: t takeWhile_append2 dropWhile_append2)
  have len: "digits_of w \<noteq> []" "length (digits_of w) \<le> 4"
    using digits_of_hd [of w] length_digits_of [of w 3] os(2) by auto
  obtain r u where hd: "?s = r # u" "r \<noteq> 58"
    using t dig hex_not len by (cases "digits_of w") auto
  have "parse_groups (Suc k) ?s [65535] (Some 0) = Some ([65535, 256 * w + x, 256 * y + z], Some 0)" for k
    using len by (simp add: take p Let_def not_less)
  from this [of 6] have "parse_groups 7 ?s [65535] (Some 0) = Some ([65535, 256 * w + x, 256 * y + z], Some 0)" by simp
  moreover have "parse_groups (Suc k) (lit ''ffff:'' @ ?s) [] (Some 0) = parse_groups k ?s [65535] (Some 0)" for k
    using hd by (simp add: lit_def is_hex_def hex_number_def hex_value_def Let_def)
  from this [of 7] have "parse_groups 8 (lit ''ffff:'' @ ?s) [] (Some 0) = parse_groups 7 ?s [65535] (Some 0)" by simp
  moreover have "replicate 5 0 = [0, 0, 0, 0, 0 :: nat]" by (simp add: eval_nat_numeral)
  ultimately show ?thesis
    by (simp add: parse_body_def lit_def expand_groups_def groups_4in6 [OF assms os(1)])
qed

lemma parse_string6: "parse_body (string6 a) = Some (groups a)"
  using parse_4in6 [of a] parse_print_groups [of "groups a"] groups_less [of _ a] by (simp add: string6_def)

lemma string6_chars: "37 \<notin> set (string6 a)"
  using string4_chars [of 37 "low_word a"] print_groups_chars [of 37 "groups a"] hex_not(3)
  by (auto simp: string6_def lit_def)

lemma string6_colon: "\<exists>s. dropWhile (\<lambda>r. r \<notin> {46, 58, 37}) (string6 a @ zs) = 58 # s"
proof -
  have "\<exists>g s. string6 a = hex_of g @ 58 # s \<or> string6 a = 58 # s"
  proof (cases "Is4In6 a")
    case True
    then have "string6 a = 58 # tl (lit ''::ffff:'') @ string4 (low_word a)" by (simp add: string6_def lit_def)
    then show ?thesis by blast
  next
    case False
    then show ?thesis using print_groups_colon [of "groups a"] by (simp add: string6_def)
  qed
  then obtain g s where "string6 a = hex_of g @ 58 # s \<or> string6 a = 58 # s" by blast
  then show ?thesis using first_sign [of "hex_of g" 58 "s @ zs"] hex_of_hex [of _ g] by auto
qed

theorem ParseAddr_addr_string: "ParseAddr (addr_string a) = Some a"
proof (cases a)
  case (Addr4 w)
  then show ?thesis by (simp add: parse_string4)
next
  case (Addr6 w zone)
  let ?z = "if zone = [] then [] else 37 # zone"
  have "Cut 37 (string6 w @ ?z) = (if zone = [] then None else Some (string6 w, zone))"
    using string6_chars [of w] by (auto simp: Cut_append Cut_None)
  then have "parseIPv6 (string6 w @ ?z) = Some a" by (auto simp: parseIPv6_def parse_string6 Addr6)
  moreover obtain s where "dropWhile (\<lambda>r. r \<notin> {46, 58, 37}) (string6 w @ ?z) = 58 # s" using string6_colon by blast
  ultimately have "ParseAddr (string6 w @ ?z) = Some a" unfolding ParseAddr_def by simp
  then show ?thesis by (simp add: Addr6)
qed

lemma addr_string_inject: "addr_string a = addr_string b \<longleftrightarrow> a = b"
  using ParseAddr_addr_string by (metis option.inject)

end
