(* ===== verification/Client_Address.thy ===== *)
theory Client_Address
  imports Netip_Facts
begin

text \<open>
  \<open>server/internal/wsapi/server.go\<close>, the part that tells clients apart: which proxies are trusted, which
  address a request came from, and the key the limits of an address count against. The headers of a request
  are its peer's address and the values of \<open>X-Forwarded-For\<close>.
\<close>

subsection \<open>The code\<close>

definition remoteHost :: "str \<Rightarrow> str" where
  "remoteHost remoteAddr = (case SplitHostPort remoteAddr of None \<Rightarrow> remoteAddr | Some (host, _) \<Rightarrow> host)"

text \<open>One configured entry: blank, a range, a bare address, or neither of them.\<close>

definition parse_proxy :: "str \<Rightarrow> prefix_range option" where
  "parse_proxy entry =
     (let entry = TrimSpace entry
      in if entry = [] then None
         else case ParsePrefix entry of
           Some p \<Rightarrow> Some (Masked p)
         | None \<Rightarrow> (case ParseAddr entry of
             Some a \<Rightarrow> (let a = Unmap a in Some (PrefixFrom a (BitLen a)))
           | None \<Rightarrow> None))"

definition parsePrefixes :: "str list \<Rightarrow> prefix_range list" where
  "parsePrefixes raw = List.map_filter parse_proxy raw"

definition trusted :: "prefix_range list \<Rightarrow> str \<Rightarrow> bool" where
  "trusted proxies host =
     (case ParseAddr host of
        None \<Rightarrow> False
      | Some a \<Rightarrow> (let a = Unmap a in list_ex (\<lambda>p. prefix_contains p a) proxies))"

text \<open>The loop over the hops, the last one first.\<close>

fun walk_hops :: "prefix_range list \<Rightarrow> str \<Rightarrow> str list \<Rightarrow> str" where
  "walk_hops proxies peer [] = peer"
| "walk_hops proxies peer (h # hs) =
     (let hop = TrimSpace h
      in if hop = [] \<or> trusted proxies hop then walk_hops proxies peer hs
         else if ParseAddr hop = None then peer
         else hop)"

definition clientAddr :: "prefix_range list \<Rightarrow> str \<Rightarrow> str list \<Rightarrow> str" where
  "clientAddr proxies remoteAddr forwarded =
     (let peer = remoteHost remoteAddr
      in if proxies = [] \<or> \<not> trusted proxies peer then peer
         else walk_hops proxies peer (rev (concat (map (Split 44) forwarded))))"

definition limiterKey :: "str \<Rightarrow> str" where
  "limiterKey host =
     (case ParseAddr host of
        None \<Rightarrow> host
      | Some a \<Rightarrow>
          (let a = Unmap (WithZone [] a)
           in if Is6 a then prefix_string (Masked (PrefixFrom a 64)) else addr_string a))"

definition clientIP :: "prefix_range list \<Rightarrow> str \<Rightarrow> str list \<Rightarrow> str" where
  "clientIP proxies remoteAddr forwarded = limiterKey (clientAddr proxies remoteAddr forwarded)"

subsection \<open>Leading bits\<close>

lemma word_bits: "a = b \<longleftrightarrow> (\<forall>i. bit a i = bit b i)" for a b :: "'a::len word"
  by (metis bit_word_eqI)

lemma xor_0_iff: "a XOR b = 0 \<longleftrightarrow> a = b" for a b :: "'a::len word"
  by (auto simp: word_bits bit_xor_iff)

lemma all_from: "(\<forall>i. P (n + i)) \<longleftrightarrow> (\<forall>i \<ge> n. P (i :: nat))"
  by (auto simp: le_iff_add)

lemma drop_bit_eq_iff: "drop_bit n a = drop_bit n b \<longleftrightarrow> (\<forall>i \<ge> n. bit a i = bit b i)"
  for a b :: "'a::len word"
  unfolding word_bits bit_drop_bit_eq o_def by (rule all_from)

lemma bit_high_bits: "bit (high_bits n a) i \<longleftrightarrow> LENGTH('a) - n \<le> i \<and> bit a i" for a :: "'a::len word"
  by (auto simp: high_bits_def bit_push_bit_iff bit_drop_bit_eq dest: bit_imp_le_length)

subsection \<open>Who owns an address\<close>

text \<open>The specification: a host of 32 bits, however it is written, or the upper half of one of 128.\<close>

datatype owner = Host4 "32 word" | Net6 "128 word"

definition owner_of :: "addr \<Rightarrow> owner" where
  "owner_of a = (case Unmap a of Addr4 w \<Rightarrow> Host4 w | Addr6 w _ \<Rightarrow> Net6 (drop_bit 64 w))"

lemma Unmap_WithZone: "Unmap (WithZone [] a) = (case Unmap a of Addr4 w \<Rightarrow> Addr4 w | Addr6 w _ \<Rightarrow> Addr6 w [])"
  by (cases a) auto

lemma high_bits_eq: "high_bits n a = high_bits n b \<longleftrightarrow> drop_bit (LENGTH('a) - n) a = drop_bit (LENGTH('a) - n) b"
  for a :: "'a::len word"
  unfolding drop_bit_eq_iff word_bits [of "high_bits n a"] bit_high_bits by auto

lemma prefix_string_inject:
  "pr_bits p = pr_bits q \<Longrightarrow> prefix_string p = prefix_string q \<longleftrightarrow> pr_addr p = pr_addr q"
  by (simp add: prefix_string_def addr_string_inject)

lemma string4_slash: "47 \<notin> set (string4 w)"
  using string4_chars [of 47 w] by auto

lemma key_owner:
  assumes "ParseAddr g = Some a" "ParseAddr h = Some b"
  shows "limiterKey g = limiterKey h \<longleftrightarrow> owner_of a = owner_of b"
proof -
  have ne: "string4 w \<noteq> prefix_string p" for w p
    using string4_slash [of w] by (auto simp: prefix_string_def)
  have four: "string4 v = string4 w \<longleftrightarrow> v = w" for v w
    using addr_string_inject [of "Addr4 v" "Addr4 w"] by simp
  show ?thesis
    using assms ne ne [symmetric] four
    by (auto simp: limiterKey_def Unmap_WithZone owner_of_def prefix_string_inject Masked_def PrefixFrom_def
        high_bits_eq [where ?'a = 128] split: addr.split)
qed

subsection \<open>Forged hops\<close>

lemma walk_hops_append:
  "list_ex (\<lambda>h. TrimSpace h \<noteq> [] \<and> \<not> trusted proxies (TrimSpace h)) hs \<Longrightarrow>
     walk_hops proxies peer (hs @ forged) = walk_hops proxies peer hs"
  by (induction hs) (auto simp: Let_def)

lemma Split_comma: "Split c (a @ c # b) = Split c a @ Split c b"
  by (induction a) (auto split: list.split)

lemma walk_hops_result:
  "walk_hops proxies peer hs = peer \<or>
     (\<exists>h \<in> set hs. walk_hops proxies peer hs = TrimSpace h \<and> \<not> trusted proxies (TrimSpace h) \<and> ParseAddr (TrimSpace h) \<noteq> None)"
  by (induction hs) (auto simp: Let_def)

lemma proxies_ignored:
  "\<not> trusted proxies (remoteHost remote) \<Longrightarrow> clientAddr proxies remote values = remoteHost remote"
  by (simp add: clientAddr_def)

text \<open>What was in the header before the proxy wrote to it does not matter.\<close>

lemma forged_values:
  assumes "list_ex (\<lambda>h. TrimSpace h \<noteq> [] \<and> \<not> trusted proxies (TrimSpace h)) (Split 44 written)"
  shows "clientAddr proxies remote (values @ [forged @ 44 # written]) = clientAddr proxies remote [written]"
    and "clientAddr proxies remote (values @ [written]) = clientAddr proxies remote [written]"
proof -
  have "list_ex (\<lambda>h. TrimSpace h \<noteq> [] \<and> \<not> trusted proxies (TrimSpace h)) (rev (Split 44 written))"
    using assms by (auto simp: list_ex_iff)
  note skip = walk_hops_append [OF this]
  show "clientAddr proxies remote (values @ [forged @ 44 # written]) = clientAddr proxies remote [written]"
    by (simp add: clientAddr_def Split_comma skip Let_def)
  show "clientAddr proxies remote (values @ [written]) = clientAddr proxies remote [written]"
    by (simp add: clientAddr_def skip Let_def)
qed

subsection \<open>Ranges\<close>

text \<open>A range holds the addresses of its kind that agree with it on its leading bits.\<close>

lemma contains4: "prefix_contains p (Addr4 a) \<longleftrightarrow>
    (\<exists>b. pr_addr p = Addr4 b \<and> (\<forall>i \<ge> 32 - pr_bits p. bit a i = bit b i))"
  by (cases "pr_addr p") (simp_all add: xor_0_iff drop_bit_eq_iff)

lemma contains6: "prefix_contains p (Addr6 a zone) \<longleftrightarrow>
    zone = [] \<and> (\<exists>b z. pr_addr p = Addr6 b z \<and> (\<forall>i \<ge> 128 - pr_bits p. bit a i = bit b i))"
  by (cases "pr_addr p") (auto simp: word_bits [of _ 0] bit_high_bits bit_xor_iff)

text \<open>A range written in the mapped form holds no address the server asks about.\<close>

lemma mapped_range_trusts_nobody:
  assumes "pr_addr p = Addr6 b z" "Is4In6 b" "96 \<le> pr_bits p"
  shows "\<not> trusted [p] host"
proof -
  have "\<not> prefix_contains p (Unmap a)" for a
  proof (cases "Unmap a")
    case (Addr4 w)
    then show ?thesis using assms(1) by simp
  next
    case (Addr6 w zone)
    then have "\<not> Is4In6 w" by (cases a) (auto split: if_splits)
    moreover have "Is4In6 w" if "\<forall>i \<ge> 128 - pr_bits p. bit w i = bit b i"
    proof -
      have "drop_bit 32 w = drop_bit 32 b" using that assms(3) by (simp add: drop_bit_eq_iff)
      then show ?thesis using assms(2) by (simp add: Is4In6_def)
    qed
    ultimately show ?thesis using assms(1) by (auto simp: Addr6 contains6 simp del: prefix_contains.simps)
  qed
  then show ?thesis by (simp add: trusted_def Let_def split: option.split)
qed

end
