(* ===== verification/Gateway.thy ===== *)
theory Gateway
  imports Server_Run Client_Address
begin

text \<open>
  \<open>server/internal/wsapi/server.go\<close>: the HTTP side of the server. \<open>NewServer\<close>, the small endpoints, and \<open>handleWS\<close>,
  which counts the connections in and out around the upgrade. A request is its peer's address and the values
  of its \<open>X-Forwarded-For\<close> header; the paths under \<open>/\<close> are in \<open>Static_Files\<close>.
\<close>

subsection \<open>Configuration\<close>

text \<open>The allowed origins are only handed on to the library that upgrades a connection.\<close>

record server_config =
  cf_turnLimit :: duration
  cf_graceFor :: duration
  cf_idleFor :: duration
  cf_allowedOrigins :: "str list"
  cf_webDir :: str
  cf_trustedProxies :: "str list"
  cf_maxRooms :: int
  cf_maxConnections :: int
  cf_maxConnectionsPerIP :: int
  cf_version :: str

definition defaultVersion :: str where "defaultVersion = lit ''dev''"
definition defaultMaxConnections :: int where "defaultMaxConnections = 2000"

text \<open>What of a \<open>Server\<close> does not change, and what does: the hub, the counters, and the requests under way.\<close>

record server =
  sv_version :: str
  sv_proxies :: "prefix_range list"
  sv_maxConns :: int
  sv_maxConnsPerIP :: int

record request =
  rq_remoteAddr :: str
  rq_forwarded :: "str list"

datatype outcome = ServerFull | TooManyFromAddress | NotUpgraded | Served

text \<open>
  Where a call of \<open>handleWS\<close> is: over the cap and about to say so, counted, past the address's cap, running its
  session, on its last deferred call, returned.
\<close>

datatype handler = Overfull | Counted request | Reserved str | Serving str conn | Leaving outcome | Gone outcome

record front =
  fr_world :: world
  fr_conns :: int
  fr_connsByIP :: "str \<rightharpoonup> int"
  fr_handlers :: "handler list"

definition NewServer :: "room_dictionary \<Rightarrow> server_config \<Rightarrow> server \<times> front" where
  "NewServer d cfg =
     (\<lparr>sv_version = (if cf_version cfg = [] then defaultVersion else cf_version cfg),
       sv_proxies = parsePrefixes (cf_trustedProxies cfg),
       sv_maxConns = (if cf_maxConnections cfg \<le> 0 then defaultMaxConnections else cf_maxConnections cfg),
       sv_maxConnsPerIP = cf_maxConnectionsPerIP cfg\<rparr>,
      \<lparr>fr_world = start_world (newHub d (cf_turnLimit cfg) (cf_graceFor cfg) (cf_idleFor cfg) (cf_maxRooms cfg)),
       fr_conns = 0, fr_connsByIP = Map.empty, fr_handlers = []\<rparr>)"

subsection \<open>Counting connections\<close>

definition conns_add :: "int \<Rightarrow> front \<Rightarrow> front" where
  "conns_add d f = f\<lparr>fr_conns := fr_conns f + d\<rparr>"

definition connections_of :: "str \<Rightarrow> front \<Rightarrow> int" where
  "connections_of ip f = (case fr_connsByIP f ip of None \<Rightarrow> 0 | Some n \<Rightarrow> n)"

definition reserveIP :: "server \<Rightarrow> str \<Rightarrow> front \<Rightarrow> bool \<times> front" where
  "reserveIP sv ip f =
     (if connections_of ip f \<ge> sv_maxConnsPerIP sv then (False, f)
      else (True, f\<lparr>fr_connsByIP := (fr_connsByIP f)(ip \<mapsto> connections_of ip f + 1)\<rparr>))"

definition releaseIP :: "str \<Rightarrow> front \<Rightarrow> front" where
  "releaseIP ip f =
     (let n = connections_of ip f - 1
      in if n \<le> 0 then f\<lparr>fr_connsByIP := (fr_connsByIP f)(ip := None)\<rparr>
         else f\<lparr>fr_connsByIP := (fr_connsByIP f)(ip \<mapsto> n)\<rparr>)"

subsection \<open>handleWS\<close>

text \<open>
  A call of \<open>handleWS\<close> runs beside all others, and each of its accesses to a counter is a step of its own. The
  call is the entry \<open>k\<close> of the list of handlers.
\<close>

definition set_handler :: "nat \<Rightarrow> handler \<Rightarrow> front \<Rightarrow> front" where
  "set_handler k h f = f\<lparr>fr_handlers := (fr_handlers f)[k := h]\<rparr>"

text \<open>The first access: the connection is counted, and compared with the cap.\<close>

definition ws_arrive :: "server \<Rightarrow> request \<Rightarrow> front \<Rightarrow> front" where
  "ws_arrive sv r f =
     (let f = conns_add 1 f
      in f\<lparr>fr_handlers := fr_handlers f @ [if fr_conns f > sv_maxConns sv then Overfull else Counted r]\<rparr>)"

definition ws_turn_away :: "nat \<Rightarrow> front \<Rightarrow> front" where
  "ws_turn_away k f = set_handler k (Gone ServerFull) (conns_add (- 1) f)"

text \<open>The second: a slot of the address, when addresses are capped.\<close>

definition ws_admit :: "server \<Rightarrow> nat \<Rightarrow> request \<Rightarrow> front \<Rightarrow> front" where
  "ws_admit sv k r f =
     (let ip = clientIP (sv_proxies sv) (rq_remoteAddr r) (rq_forwarded r)
      in if sv_maxConnsPerIP sv > 0
         then (case reserveIP sv ip f of
                 (False, f) \<Rightarrow> set_handler k (Leaving TooManyFromAddress) f
               | (True, f) \<Rightarrow> set_handler k (Reserved ip) f)
         else set_handler k (Reserved ip) f)"

text \<open>The upgrade: a session is made and runs, or the library has refused it.\<close>

definition ws_upgrade :: "str \<Rightarrow> str \<Rightarrow> instant \<Rightarrow> nat \<Rightarrow> str \<Rightarrow> front \<Rightarrow> front" where
  "ws_upgrade sid token now k ip f =
     (let c = w_conns (fr_world f)
      in set_handler k (Serving ip c) (f\<lparr>fr_world := connect sid token ip now (fr_world f)\<rparr>))"

text \<open>The deferred calls: the slot of the address first, then the count.\<close>

definition ws_release :: "server \<Rightarrow> nat \<Rightarrow> str \<Rightarrow> outcome \<Rightarrow> front \<Rightarrow> front" where
  "ws_release sv k ip out f =
     set_handler k (Leaving out) (if sv_maxConnsPerIP sv > 0 then releaseIP ip f else f)"

definition ws_leave :: "nat \<Rightarrow> outcome \<Rightarrow> front \<Rightarrow> front" where
  "ws_leave k out f = set_handler k (Gone out) (conns_add (- 1) f)"

definition handler_at :: "nat \<Rightarrow> front \<Rightarrow> handler option" where
  "handler_at k f = (if k < length (fr_handlers f) then Some (fr_handlers f ! k) else None)"

text \<open>
  The server under load: requests come and go, and the rest of the program takes its steps; the only step of it
  that makes a connection is the upgrade. After \<open>run\<close> has returned, \<open>expireToken\<close> lets the token go in its own time:
  the step \<open>expires\<close> of an ended session.
\<close>

inductive front_step :: "server \<Rightarrow> front \<Rightarrow> front \<Rightarrow> bool" for sv where
  arrives: "front_step sv f (ws_arrive sv r f)"
| turned_away: "handler_at k f = Some Overfull \<Longrightarrow> front_step sv f (ws_turn_away k f)"
| admits: "handler_at k f = Some (Counted r) \<Longrightarrow> front_step sv f (ws_admit sv k r f)"
| upgrades: "handler_at k f = Some (Reserved ip) \<Longrightarrow> token_new token (fr_world f) \<Longrightarrow>
    front_step sv f (ws_upgrade sid token now k ip f)"
| refused_upgrade: "handler_at k f = Some (Reserved ip) \<Longrightarrow> front_step sv f (ws_release sv k ip NotUpgraded f)"
| session_over: "handler_at k f = Some (Serving ip c) \<Longrightarrow> ss_phase (w_sess (fr_world f) c) = Ended \<Longrightarrow>
    front_step sv f (ws_release sv k ip Served f)"
| leaves: "handler_at k f = Some (Leaving out) \<Longrightarrow> front_step sv f (ws_leave k out f)"
| inside: "server_step (fr_world f) w \<Longrightarrow> w_conns w = w_conns (fr_world f) \<Longrightarrow> front_step sv f (f\<lparr>fr_world := w\<rparr>)"

inductive front_reach :: "server \<Rightarrow> front \<Rightarrow> front \<Rightarrow> bool" for sv f0 where
  opened: "front_reach sv f0 f0"
| moved_on: "front_reach sv f0 f \<Longrightarrow> front_step sv f f' \<Longrightarrow> front_reach sv f0 f'"

subsection \<open>The small endpoints\<close>

text \<open>
  A handler is given the headers set so far and returns the response. \<open>http.Error\<close> sets two of its own and ends
  its text with a line break.
\<close>

type_synonym headers = "(str \<times> str) list"

record response =
  rs_status :: nat
  rs_headers :: headers
  rs_body :: str

definition header_set :: "string \<Rightarrow> str \<Rightarrow> headers \<Rightarrow> headers" where
  "header_set key v hs = AList.update (lit key) v hs"

definition write_ok :: "str \<Rightarrow> headers \<Rightarrow> response" where
  "write_ok body hs = \<lparr>rs_status = 200, rs_headers = hs, rs_body = body\<rparr>"

definition http_error :: "str \<Rightarrow> nat \<Rightarrow> headers \<Rightarrow> response" where
  "http_error msg status hs =
     \<lparr>rs_status = status,
      rs_headers = header_set ''X-Content-Type-Options'' (lit ''nosniff'')
        (header_set ''Content-Type'' (lit ''text/plain; charset=utf-8'') hs),
      rs_body = msg @ [10]\<rparr>"

definition healthz :: "headers \<Rightarrow> response" where
  "healthz hs = write_ok (lit ''ok'') hs"

definition readyz :: "hub \<Rightarrow> headers \<Rightarrow> response" where
  "readyz h hs = (if h_draining h then http_error (lit ''draining'') 503 hs else write_ok (lit ''ready'') hs)"

definition version_page :: "server \<Rightarrow> headers \<Rightarrow> response" where
  "version_page sv hs = write_ok (sv_version sv) (header_set ''Content-Type'' (lit ''text/plain; charset=utf-8'') hs)"

text \<open>What \<open>handleWS\<close> answers a request it does not upgrade; in the third case the library has answered.\<close>

definition http_refusal :: "outcome \<Rightarrow> headers \<Rightarrow> response option" where
  "http_refusal out hs =
     (case out of
        ServerFull \<Rightarrow> Some (http_error (lit ''server full'') 503 hs)
      | TooManyFromAddress \<Rightarrow> Some (http_error (lit ''too many connections from this address'') 503 hs)
      | _ \<Rightarrow> None)"

definition ServeHTTP :: "(headers \<Rightarrow> response) \<Rightarrow> response" where
  "ServeHTTP handler =
     handler
       (header_set ''Referrer-Policy'' (lit ''strict-origin-when-cross-origin'')
         (header_set ''Content-Security-Policy'' (lit ''frame-ancestors '' @ [39] @ lit ''self'' @ [39])
           (header_set ''X-Content-Type-Options'' (lit ''nosniff'') [])))"

end
