(* ===== verification/Gateway_Facts.thy ===== *)
theory Gateway_Facts
  imports Gateway
begin

text \<open>
  The books of \<open>handleWS\<close> are exact at every moment: the count is the number of calls that have not returned, an
  address's entry the number of its calls that hold a slot. So the live sessions never exceed the caps.
\<close>

subsection \<open>What the program's own steps leave of a session\<close>

text \<open>The connections there are, where their requests came from, and how far each is.\<close>

definition same_conns :: "world \<Rightarrow> world \<Rightarrow> bool" where
  "same_conns w w' \<longleftrightarrow> w_conns w' = w_conns w \<and>
     (\<forall>c. ss_remoteIP (w_sess w' c) = ss_remoteIP (w_sess w c) \<and> ss_phase (w_sess w' c) = ss_phase (w_sess w c))"

lemma same_conns_refl [simp]: "same_conns w w"
  by (simp add: same_conns_def)

lemma same_conns_hub [simp]: "same_conns w (a\<lparr>w_hub := h\<rparr>) \<longleftrightarrow> same_conns w a" "same_conns w (upd_hub f a) \<longleftrightarrow> same_conns w a"
  by (simp_all add: same_conns_def upd_hub_def)

lemma same_conns_room [simp]: "same_conns w (upd_room i f a) \<longleftrightarrow> same_conns w a"
  by (simp add: same_conns_def upd_room_def)

lemma same_conns_sess:
  "same_conns w a \<Longrightarrow> ss_remoteIP (f (w_sess a c)) = ss_remoteIP (w_sess a c) \<Longrightarrow>
   ss_phase (f (w_sess a c)) = ss_phase (w_sess a c) \<Longrightarrow> same_conns w (upd_sess c f a)"
  by (simp add: same_conns_def upd_sess_def)

lemma same_conns_send [simp]: "same_conns w a \<Longrightarrow> same_conns w (send_to ox c m a)"
  unfolding send_to_def by (rule same_conns_sess) (simp_all add: session_send_def enqueue_def)

lemma same_conns_answer [simp]: "same_conns w a \<Longrightarrow> same_conns w (answer ox c code a)"
  by (simp add: answer_def)

lemma same_conns_close [simp]: "same_conns w a \<Longrightarrow> same_conns w (close_session c a)"
  unfolding close_session_def by (rule same_conns_sess) simp_all

lemma same_conns_post [simp]: "same_conns w a \<Longrightarrow> same_conns w (snd (room_send i m a))"
  by (simp add: room_send_def)

lemma same_conns_notice [simp]: "same_conns w (sendReliably i m a) \<longleftrightarrow> same_conns w a"
  by (simp add: sendReliably_def)

lemma same_conns_charge [simp]: "same_conns w a \<Longrightarrow> same_conns w (snd (charge ox b c a))"
  by (cases b) (auto simp: charge_def Let_def case_prod_beta intro!: same_conns_sess)

lemma same_conns_release [simp]: "same_conns w a \<Longrightarrow> same_conns w (release c i a)"
  unfolding release_def by (rule same_conns_sess) simp_all

lemma same_conns_attach [simp]: "same_conns w a \<Longrightarrow> same_conns w (attach c i p a)"
  by (simp add: attach_def currentRoom_def Let_def same_conns_sess split: option.split)

lemma same_conns_leave [simp]: "same_conns w (leaveRoom c a) \<longleftrightarrow> same_conns w a"
  by (simp add: leaveRoom_def currentRoom_def split: option.split)

lemma same_conns_perform [simp]: "same_conns w a \<Longrightarrow> same_conns w (perform ox i x a)"
  by (cases x) (simp_all add: perform_def same_conns_sess session_trySend_def enqueue_def)

lemma same_conns_performs: "same_conns w a \<Longrightarrow> same_conns w (fold (perform ox i) xs a)"
  by (induction xs arbitrary: a) simp_all

lemma same_conns_turn: "same_conns w a \<Longrightarrow> same_conns w (room_turn ox ev i x rest a)"
  by (simp add: room_turn_def Let_def same_conns_performs)

lemma same_conns_refuse [simp]: "same_conns w a \<Longrightarrow> same_conns w (snd (refuseMidGame ox c a))"
  by (simp add: refuseMidGame_def)

lemma same_conns_allow [simp]: "same_conns w a \<Longrightarrow> same_conns w (snd (allowRoom ox c a))"
  by (simp add: allowRoom_def case_prod_beta Let_def)

lemma same_conns_toRoom [simp]: "same_conns w a \<Longrightarrow> same_conns w (toRoom ox c b e e' m a)"
  by (simp add: toRoom_def case_prod_beta Let_def split: option.split)

lemma same_conns_resume [simp]: "same_conns w a \<Longrightarrow> same_conns w (resumeFrom ox c prior a)"
  by (simp add: resumeFrom_def case_prod_beta split: option.split)

lemma same_conns_hello [simp]: "same_conns w a \<Longrightarrow> same_conns w (snd (handleHello ox c v n t a))"
  by (simp add: handleHello_def Let_def same_conns_sess split: option.split)

lemma same_conns_report [simp]: "same_conns w a \<Longrightarrow> same_conns w (Dispatch.handleReportWord ox c word a)"
  by (simp add: Dispatch.handleReportWord_def case_prod_beta Let_def same_conns_sess split: option.split)

lemma same_conns_register [simp]: "same_conns w a \<Longrightarrow> same_conns w (snd (register_room ox mode a))"
  by (simp add: register_room_def Let_def split: option.split) (simp add: same_conns_def)

lemma same_conns_first [simp]: "same_conns w (snd r) \<Longrightarrow> same_conns w (snd (first_input m r))"
  by (cases r) (simp add: first_input_def split: sum.split)

lemma same_conns_pair [simp]: "same_conns w (snd r) \<Longrightarrow> same_conns w (snd (pair_up ox c d r))"
  by (cases r) (simp add: pair_up_def Let_def split: sum.split)

lemma same_conns_take [simp]: "same_conns w a \<Longrightarrow> same_conns w (snd (take_waiter c a))"
  by (simp add: take_waiter_def case_prod_beta Let_def split: option.split)

lemma same_conns_answer_error [simp]: "same_conns w (snd r) \<Longrightarrow> same_conns w (answer_error ox c r)"
  by (cases r) (simp add: answer_error_def split: option.split)

lemma same_conns_answer_match [simp]: "same_conns w (snd r) \<Longrightarrow> same_conns w (answer_match ox c r)"
  by (cases r) (simp add: answer_match_def split: option.split)

lemma same_conns_join [simp]: "same_conns w a \<Longrightarrow> same_conns w (snd (joinRoom code c a))"
  by (simp add: joinRoom_def case_prod_beta split: option.split)

lemma same_conns_joinRoom [simp]: "same_conns w a \<Longrightarrow> same_conns w (dispatch_joinRoom ox c code a)"
  using same_conns_join [of w _ code c]
  by (simp add: dispatch_joinRoom_def case_prod_beta Let_def split: option.split)

lemma same_conns_shutdown: "same_conns w a \<Longrightarrow> same_conns w (shutdown ox a)"
proof -
  assume k: "same_conns w a"
  have "same_conns w b \<Longrightarrow> same_conns w (fold (\<lambda>c. send_to ox c m) cs b)" for b cs m by (induction cs arbitrary: b) simp_all
  moreover have "same_conns w b \<Longrightarrow> same_conns w (fold cancel_room is' b)" for b is'
    by (induction is' arbitrary: b) (simp_all add: cancel_room_def)
  ultimately show ?thesis using k by (simp add: shutdown_def Let_def)
qed

text \<open>Over any step, a session that has ended stays ended, and only an upgrade makes one.\<close>

definition aged :: "world \<Rightarrow> world \<Rightarrow> bool" where
  "aged w w' \<longleftrightarrow> w_conns w' = w_conns w \<and> (\<forall>c. ss_remoteIP (w_sess w' c) = ss_remoteIP (w_sess w c) \<and>
     (ss_phase (w_sess w c) = Ended \<longrightarrow> ss_phase (w_sess w' c) = Ended))"

lemma same_conns_aged: "same_conns w w' \<Longrightarrow> aged w w'"
  by (simp add: same_conns_def aged_def)

lemma aged_phase:
  "aged w a \<Longrightarrow> ss_phase (w_sess w c) \<noteq> Ended \<Longrightarrow> (\<And>s. ss_remoteIP (f s) = ss_remoteIP s) \<Longrightarrow> aged w (upd_sess c f a)"
  by (simp add: aged_def upd_sess_def)

lemma aged_enter: "aged w a \<Longrightarrow> ss_phase (w_sess w c) \<noteq> Ended \<Longrightarrow> aged w (enter c k a)"
  unfolding enter_def by (rule aged_phase) simp_all

lemma aged_returns: "aged w a \<Longrightarrow> ss_phase (w_sess w c) \<noteq> Ended \<Longrightarrow> aged w (returns c a)"
  unfolding returns_def by (rule aged_phase) simp_all

lemma aged_check: "same_conns w a \<Longrightarrow> ss_phase (w_sess w c) \<noteq> Ended \<Longrightarrow> aged w (passes_check ox c k a)"
  by (simp add: passes_check_def same_conns_aged aged_enter)

lemma aged_ask:
  assumes a: "same_conns w a" and e: "ss_phase (w_sess w c) \<noteq> Ended"
  shows "aged w (snd (ask ox c msg a))"
proof -
  have "aged w (ask_startBot ox c d a)" "aged w (ask_createRoom ox c a)" "aged w (ask_quickMatch ox c a)" for d
    using a e by (simp_all add: ask_startBot_def startBot_case_def ask_createRoom_def createRoom_case_def ask_quickMatch_def
      quickMatch_case_def case_prod_beta Let_def aged_check same_conns_aged split: option.split)
  moreover have "aged w (snd (dispatch ox c msg a))"
    if "\<not> ss_greeted (w_sess a c) \<or> (\<forall>d. msg \<noteq> ClientMessage_StartBotGame d) \<and> msg \<noteq> ClientMessage_CreateRoom \<and> msg \<noteq> ClientMessage_QuickMatch"
    using that a by (cases msg) (auto simp: dispatch_def toLobby_def same_conns_aged)
  ultimately show ?thesis by (cases msg) (simp_all add: ask_def)
qed

lemma aged_frame:
  assumes "ss_phase (w_sess w c) = Reading"
  shows "aged w (take_frame ox c f w)"
proof -
  have "aged w (snd (read_frame_by (ask ox c) ox c f w))"
    using aged_ask [of w "snd (charge ox frameLimiter c w)" c ox] assms
    by (auto simp: read_frame_by_def case_prod_beta Let_def same_conns_aged split: option.split)
  then show ?thesis using assms
    by (cases "read_frame_by (ask ox c) ox c f w") (simp add: take_frame_def stop_reading_def aged_phase split: option.split)
qed

lemma aged_call:
  assumes "ss_phase (w_sess w c) = InCall k"
  shows "aged w (hub_turn ox c k w)"
proof (cases k)
  case Match
  obtain p a where t: "take_waiter c w = (p, a)" by fastforce
  then have "same_conns w a" using same_conns_take [of w w c] by simp
  then show ?thesis using assms
    by (cases p) (simp_all add: Match hub_turn_def t aged_enter aged_returns same_conns_aged)
qed (use assms in \<open>simp_all add: hub_turn_def aged_enter aged_returns same_conns_aged\<close>)

lemma aged_step:
  assumes "server_step w w'" "w_conns w' = w_conns w"
  shows "aged w w'"
  using assms
proof (induction rule: server_step.induct)
  case (connects token w sid ip now)
  then show ?case by (simp add: connect_def)
next
  case (frame c w ox f)
  then show ?case by (simp add: aged_frame)
next
  case (calls c w k ox)
  then show ?case by (simp add: aged_call)
next
  case (hangs_up c w)
  then show ?case by (simp add: stop_reading_def aged_def upd_sess_def)
next
  case (ends c w)
  have "same_conns w (leaveRoom c (upd_hub (cancelQuickMatch c) (upd_sess c (\<lambda>s. s\<lparr>ss_helloTimer := False\<rparr>) w)))"
    by (simp add: same_conns_sess)
  then show ?case by (auto simp: end_session_def Let_def aged_def same_conns_def upd_sess_def)
qed (simp_all add: same_conns_aged same_conns_turn same_conns_shutdown same_conns_sess hello_expired_def written_def deliver_def bot_answers_def
      sweepLimiters_def Let_def)

subsection \<open>The books\<close>

definition gone :: "handler \<Rightarrow> bool" where
  "gone h \<longleftrightarrow> (case h of Gone _ \<Rightarrow> True | _ \<Rightarrow> False)"

definition admitted :: "handler \<Rightarrow> bool" where
  "admitted h \<longleftrightarrow> h \<noteq> Overfull \<and> \<not> gone h"

definition holds_slot :: "str \<Rightarrow> handler \<Rightarrow> bool" where
  "holds_slot ip h \<longleftrightarrow> (case h of Reserved a \<Rightarrow> a = ip | Serving a _ \<Rightarrow> a = ip | _ \<Rightarrow> False)"

definition how_many :: "(handler \<Rightarrow> bool) \<Rightarrow> front \<Rightarrow> int" where
  "how_many P f = int (length (filter P (fr_handlers f)))"

definition live :: "world \<Rightarrow> conn set" where
  "live w = {c. c < w_conns w \<and> ss_phase (w_sess w c) \<noteq> Ended}"

definition slot :: "int \<Rightarrow> int option" where
  "slot n = (if n \<le> 0 then None else Some n)"

definition books_ok :: "server \<Rightarrow> front \<Rightarrow> bool" where
  "books_ok sv f \<longleftrightarrow> fr_conns f = how_many (\<lambda>h. \<not> gone h) f \<and> how_many admitted f \<le> sv_maxConns sv \<and>
     (sv_maxConnsPerIP sv > 0 \<longrightarrow>
        (\<forall>ip. fr_connsByIP f ip = slot (how_many (holds_slot ip) f) \<and> how_many (holds_slot ip) f \<le> sv_maxConnsPerIP sv)) \<and>
     (\<forall>c \<in> live (fr_world f). Serving (ss_remoteIP (w_sess (fr_world f) c)) c \<in> set (fr_handlers f))"

lemmas handler_kinds = gone_def admitted_def holds_slot_def

lemma filter_update:
  assumes "k < length xs"
  shows "int (length (filter P (xs[k := y]))) = int (length (filter P xs)) + of_bool (P y) - of_bool (P (xs ! k))"
proof -
  have "filter P xs = filter P (take k xs @ xs ! k # drop (Suc k) xs)"
    using assms by (simp add: id_take_nth_drop [symmetric])
  then show ?thesis using assms by (simp add: upd_conv_take_nth_drop)
qed

lemma filter_le: "(\<And>x. P x \<Longrightarrow> Q x) \<Longrightarrow> length (filter P xs) \<le> length (filter Q xs)"
  by (induction xs) (auto intro: le_SucI)

lemma in_set_update: "x \<in> set xs \<Longrightarrow> k < length xs \<Longrightarrow> xs ! k \<noteq> x \<Longrightarrow> x \<in> set (xs[k := y])"
  by (metis in_set_conv_nth length_list_update nth_list_update_neq)

lemma how_many_nonneg: "0 \<le> how_many P f"
  by (simp add: how_many_def)

text \<open>One handler changes: every count changes by what it was and what it is.\<close>

lemma how_many_set:
  assumes "handler_at k f = Some h" "fr_handlers g = fr_handlers f"
  shows "how_many P (set_handler k h' g) = how_many P f + of_bool (P h') - of_bool (P h)"
proof -
  have "k < length (fr_handlers f)" "fr_handlers f ! k = h"
    using assms(1) by (auto simp: handler_at_def split: if_splits)
  then show ?thesis
    using filter_update [of k "fr_handlers f" P h'] assms(2) by (simp add: how_many_def set_handler_def)
qed

lemma books_change:
  assumes ok: "books_ok sv f" and h: "handler_at k f = Some h" "fr_handlers g = fr_handlers f"
    and conns: "fr_conns g = fr_conns f + of_bool (\<not> gone h') - of_bool (\<not> gone h)"
    and adm: "admitted h' \<Longrightarrow> admitted h"
    and ips: "\<And>ip. sv_maxConnsPerIP sv > 0 \<Longrightarrow>
      fr_connsByIP g ip = slot (how_many (holds_slot ip) f + of_bool (holds_slot ip h') - of_bool (holds_slot ip h)) \<and>
      how_many (holds_slot ip) f + of_bool (holds_slot ip h') - of_bool (holds_slot ip h) \<le> sv_maxConnsPerIP sv"
    and sess: "\<And>c. c \<in> live (fr_world g) \<Longrightarrow> h' = Serving (ss_remoteIP (w_sess (fr_world g) c)) c \<or>
      c \<in> live (fr_world f) \<and> ss_remoteIP (w_sess (fr_world g) c) = ss_remoteIP (w_sess (fr_world f) c) \<and>
      h \<noteq> Serving (ss_remoteIP (w_sess (fr_world f) c)) c"
  shows "books_ok sv (set_handler k h' g)"
proof -
  have k: "k < length (fr_handlers f)" "fr_handlers f ! k = h" using h(1) by (auto simp: handler_at_def split: if_splits)
  have at: "h' \<in> set ((fr_handlers f)[k := h'])" using k(1) by (rule set_update_memI)
  have "Serving (ss_remoteIP (w_sess (fr_world g) c)) c \<in> set ((fr_handlers f)[k := h'])" if "c \<in> live (fr_world g)" for c
    using sess [OF that] at ok k in_set_update [of _ "fr_handlers f" k h'] by (auto simp: books_ok_def)
  moreover have "of_bool (admitted h') \<le> (of_bool (admitted h) :: int)" using adm by simp
  ultimately show ?thesis
    using ok conns ips how_many_set [OF h] h(2) by (auto simp: books_ok_def set_handler_def) 
qed

lemma books_of:
  assumes "books_ok sv f" "sv_maxConnsPerIP sv > 0"
  shows "fr_connsByIP f ip = slot (how_many (holds_slot ip) f)" "how_many (holds_slot ip) f \<le> sv_maxConnsPerIP sv"
    "connections_of ip f = how_many (holds_slot ip) f"
  using assms how_many_nonneg [of "holds_slot ip" f] by (auto simp: books_ok_def connections_of_def slot_def)

lemma books_arrive:
  assumes "books_ok sv f"
  shows "books_ok sv (ws_arrive sv r f)"
proof -
  have le: "how_many admitted f \<le> how_many (\<lambda>h. \<not> gone h) f"
    using filter_le [of admitted "\<lambda>h. \<not> gone h"] by (simp add: how_many_def admitted_def)
  show ?thesis
    using assms le by (auto simp: books_ok_def ws_arrive_def conns_add_def Let_def how_many_def handler_kinds)
qed

lemma books_turn_away:
  assumes "books_ok sv f" "handler_at k f = Some Overfull"
  shows "books_ok sv (ws_turn_away k f)"
  unfolding ws_turn_away_def
  by (rule books_change [OF assms])
    (use assms books_of in \<open>auto simp: conns_add_def handler_kinds\<close>)

lemma books_leave:
  assumes "books_ok sv f" "handler_at k f = Some (Leaving out)"
  shows "books_ok sv (ws_leave k out f)"
  unfolding ws_leave_def
  by (rule books_change [OF assms])
    (use assms books_of in \<open>auto simp: conns_add_def handler_kinds\<close>)

lemma books_admit:
  assumes ok: "books_ok sv f" and h: "handler_at k f = Some (Counted r)"
  shows "books_ok sv (ws_admit sv k r f)"
proof -
  let ?ip = "clientIP (sv_proxies sv) (rq_remoteAddr r) (rq_forwarded r)"
  consider (off) "sv_maxConnsPerIP sv \<le> 0"
    | (full) "sv_maxConnsPerIP sv > 0" "connections_of ?ip f \<ge> sv_maxConnsPerIP sv"
    | (free) "sv_maxConnsPerIP sv > 0" "connections_of ?ip f < sv_maxConnsPerIP sv" by linarith
  then show ?thesis
  proof cases
    case off
    have "books_ok sv (set_handler k (Reserved ?ip) f)"
      by (rule books_change [OF ok h]) (use off in \<open>auto simp: handler_kinds\<close>)
    then show ?thesis using off by (simp add: ws_admit_def Let_def)
  next
    case full
    have "books_ok sv (set_handler k (Leaving TooManyFromAddress) f)"
      by (rule books_change [OF ok h]) (use ok books_of in \<open>auto simp: handler_kinds\<close>)
    then show ?thesis using full by (simp add: ws_admit_def reserveIP_def Let_def)
  next
    case free
    let ?g = "f\<lparr>fr_connsByIP := (fr_connsByIP f)(?ip \<mapsto> connections_of ?ip f + 1)\<rparr>"
    have "books_ok sv (set_handler k (Reserved ?ip) ?g)"
      by (rule books_change [OF ok h])
        (use ok free books_of [OF ok] how_many_nonneg [of "holds_slot ?ip" f] in \<open>auto simp: handler_kinds slot_def\<close>)
    then show ?thesis using free by (simp add: ws_admit_def reserveIP_def Let_def)
  qed
qed

lemma books_release:
  assumes ok: "books_ok sv f" and h: "handler_at k f = Some h" and ip: "holds_slot ip h"
    and over: "\<And>c. h = Serving ip c \<Longrightarrow> ss_phase (w_sess (fr_world f) c) = Ended"
  shows "books_ok sv (ws_release sv k ip out f)"
proof -
  let ?g = "if sv_maxConnsPerIP sv > 0 then releaseIP ip f else f"
  have "books_ok sv (set_handler k (Leaving out) ?g)"
  proof (rule books_change [OF ok h])
    show "fr_handlers ?g = fr_handlers f" by (simp add: releaseIP_def Let_def)
    show "fr_conns ?g = fr_conns f + of_bool (\<not> gone (Leaving out)) - of_bool (\<not> gone h)"
      using ip by (auto simp: releaseIP_def Let_def handler_kinds split: handler.splits)
    show "admitted (Leaving out) \<Longrightarrow> admitted h" using ip by (auto simp: handler_kinds split: handler.splits)
  next
    fix i
    assume on: "sv_maxConnsPerIP sv > 0"
    show "fr_connsByIP ?g i = slot (how_many (holds_slot i) f + of_bool (holds_slot i (Leaving out)) - of_bool (holds_slot i h)) \<and>
        how_many (holds_slot i) f + of_bool (holds_slot i (Leaving out)) - of_bool (holds_slot i h) \<le> sv_maxConnsPerIP sv"
    proof
      show "fr_connsByIP ?g i = slot (how_many (holds_slot i) f + of_bool (holds_slot i (Leaving out)) - of_bool (holds_slot i h))"
        using on ip books_of [OF ok on]
        by (auto simp: releaseIP_def Let_def slot_def handler_kinds split: handler.splits)
      have "how_many (holds_slot i) f + of_bool (holds_slot i (Leaving out)) - of_bool (holds_slot i h) \<le> how_many (holds_slot i) f"
        by (simp add: holds_slot_def)
      also have "\<dots> \<le> sv_maxConnsPerIP sv" by (rule books_of [OF ok on])
      finally show "how_many (holds_slot i) f + of_bool (holds_slot i (Leaving out)) - of_bool (holds_slot i h) \<le> sv_maxConnsPerIP sv" .
    qed
  next
    fix c
    assume "c \<in> live (fr_world ?g)"
    then show "Leaving out = Serving (ss_remoteIP (w_sess (fr_world ?g) c)) c \<or>
      c \<in> live (fr_world f) \<and> ss_remoteIP (w_sess (fr_world ?g) c) = ss_remoteIP (w_sess (fr_world f) c) \<and>
      h \<noteq> Serving (ss_remoteIP (w_sess (fr_world f) c)) c"
      using over ip by (auto simp: releaseIP_def Let_def live_def handler_kinds split: if_splits handler.splits)
  qed
  then show ?thesis by (simp add: ws_release_def)
qed

lemma books_upgrade:
  assumes ok: "books_ok sv f" and h: "handler_at k f = Some (Reserved ip)"
  shows "books_ok sv (ws_upgrade sid token now k ip f)"
  unfolding ws_upgrade_def Let_def
proof (rule books_change [OF ok h])
  fix c
  assume "c \<in> live (fr_world (f\<lparr>fr_world := connect sid token ip now (fr_world f)\<rparr>))"
  then show "Serving ip (w_conns (fr_world f)) =
        Serving (ss_remoteIP (w_sess (fr_world (f\<lparr>fr_world := connect sid token ip now (fr_world f)\<rparr>)) c)) c \<or>
      c \<in> live (fr_world f) \<and>
      ss_remoteIP (w_sess (fr_world (f\<lparr>fr_world := connect sid token ip now (fr_world f)\<rparr>)) c) =
        ss_remoteIP (w_sess (fr_world f) c) \<and> Reserved ip \<noteq> Serving (ss_remoteIP (w_sess (fr_world f) c)) c"
    by (auto simp: live_def connect_def newSession_def less_Suc_eq split: if_splits)
qed (use books_of [OF ok] in \<open>auto simp: handler_kinds\<close>)

lemma books_inside:
  assumes "books_ok sv f" "aged (fr_world f) w"
  shows "books_ok sv (f\<lparr>fr_world := w\<rparr>)"
  using assms by (auto simp: books_ok_def how_many_def live_def aged_def)

lemma books_step: "front_step sv f f' \<Longrightarrow> books_ok sv f \<Longrightarrow> books_ok sv f'"
proof (induction rule: front_step.induct)
  case (refused_upgrade k f ip)
  then show ?case by (intro books_release) (auto simp: holds_slot_def)
next
  case (session_over k f ip c)
  then show ?case by (intro books_release) (auto simp: holds_slot_def)
qed (simp_all add: books_arrive books_turn_away books_admit books_upgrade books_leave books_inside aged_step)

lemma books_reach: "front_reach sv f0 f \<Longrightarrow> books_ok sv f0 \<Longrightarrow> books_ok sv f"
  by (induction rule: front_reach.induct) (auto intro: books_step)

lemma books_start:
  assumes "NewServer d cfg = (sv, f)"
  shows "books_ok sv f"
  using assms by (auto simp: NewServer_def books_ok_def how_many_def slot_def live_def start_world_def defaultMaxConnections_def)

subsection \<open>The world inside\<close>

text \<open>The upgrade is the step \<open>connects\<close> of the program, so everything proved of its runs holds_slot here.\<close>

lemma front_step_world: "front_step sv f f' \<Longrightarrow> fr_world f' = fr_world f \<or> server_step (fr_world f) (fr_world f')"
  by (induction rule: front_step.induct)
    (auto simp: ws_arrive_def ws_turn_away_def ws_leave_def ws_admit_def ws_upgrade_def ws_release_def reserveIP_def
      releaseIP_def conns_add_def set_handler_def Let_def intro: connects)

lemma front_reach_world: "front_reach sv f0 f \<Longrightarrow> server_reach (fr_world f0) (fr_world f)"
  by (induction rule: front_reach.induct)
    (auto intro: server_reach.intros dest: front_step_world)

text \<open>A live session has a handler of its own.\<close>

lemma live_le:
  assumes ok: "books_ok sv f" and P: "\<And>c. c \<in> C \<Longrightarrow> P (Serving (ss_remoteIP (w_sess (fr_world f) c)) c)"
    and C: "C \<subseteq> live (fr_world f)"
  shows "int (card C) \<le> how_many P f"
proof -
  let ?h = "\<lambda>c. Serving (ss_remoteIP (w_sess (fr_world f) c)) c"
  have "inj_on ?h C" by (auto simp: inj_on_def)
  then have "card C = card (?h ` C)" by (simp add: card_image)
  also have "?h ` C \<subseteq> set (filter P (fr_handlers f))" using ok P C by (auto simp: books_ok_def)
  then have "card (?h ` C) \<le> card (set (filter P (fr_handlers f)))" by (intro card_mono) auto
  also have "\<dots> \<le> length (filter P (fr_handlers f))" by (rule card_length)
  finally show ?thesis by (simp add: how_many_def)
qed

end
