(* ===== verification/Go_Filepath.thy ===== *)
theory Go_Filepath
  imports Go_Text
begin

text \<open>
  What the server uses of \<open>path/filepath\<close>, on a system whose separator is the slash: cleaning, joining and
  comparing paths by their text alone. A path is clean when no rule of \<open>Clean\<close> applies to it any more; its
  elements (\<open>elems\<close>) are then a run of \<open>..\<close>, in front of names, and no \<open>..\<close> at all under the root.
\<close>

definition dot :: str where "dot = [46]"
definition dotdot :: str where "dotdot = [46, 46]"

definition IsAbs :: "str \<Rightarrow> bool" where
  "IsAbs p \<longleftrightarrow> p \<noteq> [] \<and> hd p = 47"

text \<open>One element: nothing and \<open>.\<close> are dropped, and \<open>..\<close> takes back the name before it.\<close>

definition clean_step :: "bool \<Rightarrow> str list \<Rightarrow> str \<Rightarrow> str list" where
  "clean_step rooted out e =
     (if e = [] \<or> e = dot then out
      else if e \<noteq> dotdot then out @ [e]
      else if out \<noteq> [] \<and> List.last out \<noteq> dotdot then butlast out
      else if rooted then out
      else out @ [e])"

definition normal :: "bool \<Rightarrow> str list \<Rightarrow> str list" where
  "normal rooted es = foldl (clean_step rooted) [] es"

definition path_of :: "bool \<Rightarrow> str list \<Rightarrow> str" where
  "path_of rooted es = (if rooted then 47 # join [47] es else if es = [] then dot else join [47] es)"

definition Clean :: "str \<Rightarrow> str" where
  "Clean p = path_of (IsAbs p) (normal (IsAbs p) (Split 47 p))"

definition Join :: "str \<Rightarrow> str \<Rightarrow> str" where
  "Join a b = (if a \<noteq> [] then Clean (a @ 47 # b) else if b \<noteq> [] then Clean b else [])"

definition elems :: "str \<Rightarrow> str list" where
  "elems p = (if p = dot then [] else filter (\<lambda>e. e \<noteq> []) (Split 47 p))"

fun strip_common :: "str list \<Rightarrow> str list \<Rightarrow> str list \<times> str list" where
  "strip_common (b # bs) (t # ts) = (if b = t then strip_common bs ts else (b # bs, t # ts))"
| "strip_common bs ts = (bs, ts)"

text \<open>From the first path to the second: up as often as needed, then down; \<open>None\<close> when the text does not tell.\<close>

definition Rel :: "str \<Rightarrow> str \<Rightarrow> str option" where
  "Rel basepath targpath =
     (let base = Clean basepath; targ = Clean targpath
      in if targ = base then Some dot
         else if (base \<noteq> dot \<and> IsAbs base) \<noteq> IsAbs targ then None
         else let (b, t) = strip_common (elems base) (if targ = dot then [dot] else elems targ)
              in if b \<noteq> [] \<and> hd b = dotdot then None
                 else Some (join [47] (map (\<lambda>_. dotdot) b @ t)))"

subsection \<open>Clean paths\<close>

definition name_ok :: "str \<Rightarrow> bool" where
  "name_ok e \<longleftrightarrow> e \<noteq> [] \<and> e \<noteq> dot \<and> 47 \<notin> set e"

definition elems_ok :: "bool \<Rightarrow> str list \<Rightarrow> bool" where
  "elems_ok rooted es \<longleftrightarrow> list_all name_ok es \<and>
     (\<exists>n names. es = replicate n dotdot @ names \<and> dotdot \<notin> set names \<and> (rooted \<longrightarrow> n = 0))"

lemma dots [simp]: "dot \<noteq> []" "dotdot \<noteq> []" "dot \<noteq> dotdot" "dotdot \<noteq> dot" "name_ok dotdot"
  by (simp_all add: dot_def dotdot_def name_ok_def)

lemma elems_okI:
  "list_all name_ok (replicate n dotdot @ names) \<Longrightarrow> dotdot \<notin> set names \<Longrightarrow> (rooted \<longrightarrow> n = 0) \<Longrightarrow>
     elems_ok rooted (replicate n dotdot @ names)"
  unfolding elems_ok_def by blast

lemma clean_step_ok:
  assumes "elems_ok rooted out" "47 \<notin> set e"
  shows "elems_ok rooted (clean_step rooted out e)"
proof -
  obtain n names where out: "out = replicate n dotdot @ names" "dotdot \<notin> set names" "rooted \<longrightarrow> n = 0"
    "list_all name_ok out"
    using assms(1) unfolding elems_ok_def by blast
  consider (skip) "e = [] \<or> e = dot" | (name) "name_ok e" "e \<noteq> dotdot"
    | (up) "e = dotdot" "names \<noteq> []" | (top) "e = dotdot" "names = []" "rooted" | (out) "e = dotdot" "names = []" "\<not> rooted"
    using assms(2) by (auto simp: name_ok_def)
  then show ?thesis
  proof cases
    case skip
    then show ?thesis using assms by (simp add: clean_step_def)
  next
    case name
    then have "clean_step rooted out e = replicate n dotdot @ (names @ [e])" "list_all name_ok (out @ [e])"
      using out by (simp_all add: clean_step_def name_ok_def)
    moreover have "dotdot \<notin> set (names @ [e])" using out name by simp
    ultimately show ?thesis using elems_okI [of n "names @ [e]" rooted] out by simp
  next
    case up
    then obtain ns x where ns: "names = ns @ [x]" by (cases names rule: rev_cases) auto
    then have "x \<noteq> dotdot" using out by auto
    then have "clean_step rooted out e = replicate n dotdot @ ns"
      using up out ns by (simp add: clean_step_def butlast_append)
    moreover have "list_all name_ok (replicate n dotdot @ ns)" using out ns by simp
    ultimately show ?thesis using elems_okI [of n ns rooted] out ns by simp
  next
    case top
    then have "clean_step rooted out e = out" using out by (simp add: clean_step_def)
    then show ?thesis using assms by simp
  next
    case out': out
    then have "clean_step rooted out e = replicate (Suc n) dotdot" using out
      by (cases n) (simp_all add: clean_step_def replicate_append_same)
    moreover have "list_all name_ok (replicate (Suc n) dotdot)" by (simp add: list_all_iff)
    ultimately show ?thesis using elems_okI [of "Suc n" "[]" rooted] out' by simp
  qed
qed

lemma foldl_ok: "elems_ok rooted out \<Longrightarrow> \<forall>e \<in> set es. 47 \<notin> set e \<Longrightarrow> elems_ok rooted (foldl (clean_step rooted) out es)"
  by (induction es arbitrary: out) (auto simp: clean_step_ok)

lemma Split_free: "e \<in> set (Split c s) \<Longrightarrow> c \<notin> set e"
proof (induction s arbitrary: e)
  case (Cons r s)
  then show ?case by (cases "Split c s") (auto split: if_splits)
qed simp

lemma normal_ok: "elems_ok rooted (normal rooted (Split 47 p))"
  unfolding normal_def by (rule foldl_ok) (auto simp: elems_ok_def Split_free)

text \<open>A normal list stays as it is.\<close>

lemma clean_names: "list_all name_ok names \<Longrightarrow> dotdot \<notin> set names \<Longrightarrow> foldl (clean_step rooted) out names = out @ names"
  by (induction names arbitrary: out) (auto simp: clean_step_def name_ok_def)

lemma clean_ups: "\<forall>e \<in> set out. e = dotdot \<Longrightarrow> \<not> rooted \<Longrightarrow>
    foldl (clean_step rooted) out (replicate n dotdot) = out @ replicate n dotdot"
proof (induction n arbitrary: out)
  case (Suc n)
  have "clean_step rooted out dotdot = out @ [dotdot]"
    using Suc.prems by (auto simp: clean_step_def)
  then show ?case using Suc by simp
qed simp

lemma normal_id: "elems_ok rooted es \<Longrightarrow> normal rooted es = es"
  by (auto simp: elems_ok_def normal_def clean_names clean_ups)

lemma normal_append: "normal rooted (es @ fs) = foldl (clean_step rooted) (normal rooted es) fs"
  by (simp add: normal_def)

lemma elems_path_of:
  assumes "elems_ok rooted es"
  shows "elems (path_of rooted es) = es" "IsAbs (path_of rooted es) = rooted"
    "normal rooted (Split 47 (path_of rooted es)) = es"
proof -
  have ok: "\<forall>e \<in> set es. name_ok e" using assms by (simp add: elems_ok_def list_all_iff)
  have split: "es \<noteq> [] \<Longrightarrow> Split 47 (join [47] es) = es" using ok by (intro Split_join) (auto simp: name_ok_def)
  have sl: "Split 47 (47 # s) = [] # Split 47 s" for s by simp
  have hd: "es \<noteq> [] \<Longrightarrow> join [47] es \<noteq> [] \<and> hd (join [47] es) \<noteq> 47 \<and> join [47] es \<noteq> dot"
  proof -
    assume ne: "es \<noteq> []"
    then obtain e rest where es: "es = e # rest" by (cases es) auto
    then obtain t where "join [47] es = e @ t" by (cases rest) auto
    moreover have "e \<noteq> []" "47 \<notin> set e" using ok es by (auto simp: name_ok_def)
    then have "e \<noteq> []" "hd e \<noteq> 47" using hd_in_set by metis+
    moreover have "join [47] es \<noteq> dot"
    proof
      assume d: "join [47] es = dot"
      then have "es = [dot]" using split [OF ne] by (simp add: dot_def)
      then show False using ok by (simp add: name_ok_def)
    qed
    ultimately show ?thesis by simp
  qed
  have flt: "filter (\<lambda>e. e \<noteq> []) es = es" using ok by (auto simp: name_ok_def filter_id_conv)
  show "elems (path_of rooted es) = es"
    using split hd flt by (cases "es = []") (auto simp: path_of_def elems_def dot_def)
  show "IsAbs (path_of rooted es) = rooted"
    using hd by (auto simp: path_of_def IsAbs_def dot_def)
  have n: "normal rooted es = es" by (rule normal_id [OF assms])
  have e: "normal rooted ([] # fs) = normal rooted fs" for fs by (simp add: normal_def clean_step_def)
  show "normal rooted (Split 47 (path_of rooted es)) = es"
    using split n e by (cases "es = []") (auto simp: path_of_def normal_def clean_step_def dot_def)
qed

lemma Clean_shape: "\<exists>es. Clean p = path_of (IsAbs p) es \<and> elems_ok (IsAbs p) es"
  unfolding Clean_def using normal_ok by blast

lemma elems_Clean: "elems (Clean p) = normal (IsAbs p) (Split 47 p)" "elems_ok (IsAbs p) (elems (Clean p))"
    "IsAbs (Clean p) = IsAbs p"
  using elems_path_of [OF normal_ok] normal_ok by (simp_all add: Clean_def)

lemma Clean_Clean [simp]: "Clean (Clean p) = Clean p"
  using elems_path_of [OF normal_ok, of "IsAbs p" p] by (simp add: Clean_def)

lemma path_of_elems: "Clean p = path_of (IsAbs p) (elems (Clean p))"
  unfolding elems_Clean(1) by (simp only: Clean_def)

lemma Clean_eq: "Clean p = Clean q \<longleftrightarrow> IsAbs p = IsAbs q \<and> elems (Clean p) = elems (Clean q)"
proof
  assume e: "Clean p = Clean q"
  then have "IsAbs (Clean p) = IsAbs (Clean q)" by simp
  then show "IsAbs p = IsAbs q \<and> elems (Clean p) = elems (Clean q)" using e unfolding elems_Clean(3) by simp
next
  assume "IsAbs p = IsAbs q \<and> elems (Clean p) = elems (Clean q)"
  then have "path_of (IsAbs p) (elems (Clean p)) = path_of (IsAbs q) (elems (Clean q))" by simp
  then show "Clean p = Clean q" by (simp only: path_of_elems [symmetric])
qed

subsection \<open>Below a directory\<close>

lemma strip_append: "strip_common b t = (b', t') \<Longrightarrow> \<exists>c. b = c @ b' \<and> t = c @ t' \<and> (b' = [] \<or> t' = [] \<or> hd b' \<noteq> hd t')"
proof (induction b t rule: strip_common.induct)
  case (1 b bs t ts)
  show ?case
  proof (cases "b = t")
    case True
    then obtain c where "bs = c @ b'" "ts = c @ t'" "b' = [] \<or> t' = [] \<or> hd b' \<noteq> hd t'" using 1 by auto
    with True show ?thesis by (intro exI [of _ "t # c"]) simp
  qed (use 1 in auto)
qed auto

lemma strip_prefix [simp]: "strip_common b (b @ t) = ([], t)"
  by (induction b) (cases t; simp)+

text \<open>The path from a clean directory to another goes down only, just when the one is at the front of the other.\<close>

lemma Rel_down:
  assumes "IsAbs b = IsAbs t" "elems (Clean t) = elems (Clean b) @ rest"
  shows "Rel b t = Some (if rest = [] then dot else join [47] rest)"
proof (cases "rest = []")
  case True
  then show ?thesis using assms Clean_eq [of t b] by (simp add: Rel_def)
next
  case False
  then have "Clean t \<noteq> Clean b" using assms Clean_eq [of t b] by auto
  moreover have "Clean t \<noteq> dot" using assms(2) False by (auto simp: elems_def split: if_splits)
  moreover have "Clean b = dot \<Longrightarrow> \<not> IsAbs b" using elems_Clean(3) [of b] by (simp add: IsAbs_def dot_def)
  ultimately show ?thesis using assms False by (auto simp: Rel_def Let_def elems_Clean(3))
qed

lemma join_front: "\<exists>s. join c (e # es) = e @ s"
  by (cases es) auto

lemma Rel_up:
  assumes "IsAbs b = IsAbs t" "\<nexists>rest. elems (Clean t) = elems (Clean b) @ rest"
  shows "Rel b t = None \<or> (\<exists>s. Rel b t = Some (dotdot @ s))"
proof -
  define ts where "ts = (if Clean t = dot then [dot] else elems (Clean t))"
  obtain b' t' where st: "strip_common (elems (Clean b)) ts = (b', t')" by fastforce
  then obtain c where c: "elems (Clean b) = c @ b'" "ts = c @ t'" using strip_append by blast
  have "b' \<noteq> []"
  proof
    assume "b' = []"
    then have pre: "ts = elems (Clean b) @ t'" using c by simp
    show False
    proof (cases "Clean t = dot")
      case True
      then have "elems (Clean b) @ t' = [dot]" using pre by (simp add: ts_def)
      moreover have "dot \<notin> set (elems (Clean b))"
        using elems_Clean(2) [of b] by (auto simp: elems_ok_def list_all_iff name_ok_def)
      ultimately have "elems (Clean b) = []" by (cases "elems (Clean b)") auto
      then show False using assms(2) by simp
    next
      case False
      then show False using pre assms(2) by (simp add: ts_def)
    qed
  qed
  then obtain x xs where b': "b' = x # xs" by (cases b') auto
  obtain s where "join [47] (dotdot # map (\<lambda>_. dotdot) xs @ t') = dotdot @ s" using join_front by blast
  moreover have "Clean t \<noteq> Clean b" using assms(2) by (metis append_Nil2)
  ultimately show ?thesis
    using st assms(1) by (auto simp: b' Rel_def Let_def elems_Clean(3) ts_def [symmetric])
qed

end
