(* ===== verification/Static_Files.thy ===== *)
theory Static_Files
  imports Gateway Go_Filepath
begin

text \<open>
  \<open>server/internal/wsapi/server.go\<close>: the built frontend under \<open>/\<close>. What the file system says of a path is the
  argument \<open>stat\<close>, \<open>None\<close> for an error and otherwise whether it is a directory; what the two file servers of
  \<open>net/http\<close> write, after the headers set so far, are the arguments \<open>files\<close> and \<open>serveFile\<close>.
\<close>

type_synonym file_system = "str \<Rightarrow> bool option"

definition HasPrefix :: "str \<Rightarrow> str \<Rightarrow> bool" where
  "HasPrefix s p \<longleftrightarrow> take (length p) s = p"

definition underRoot :: "str \<Rightarrow> str \<Rightarrow> bool" where
  "underRoot dir path =
     (case Rel dir path of
        None \<Rightarrow> False
      | Some rel \<Rightarrow> rel = dot \<or> (\<not> HasPrefix rel dotdot \<and> \<not> IsAbs rel))"

definition immutablePrefix :: str where
  "immutablePrefix = lit ''/_app/immutable/''"

definition index_of :: "str \<Rightarrow> str" where
  "index_of webDir = Join webDir (lit ''index.html'')"

text \<open>\<open>mountStatic\<close> adds the handler only when there is a page to fall back to.\<close>

definition mounted :: "file_system \<Rightarrow> str \<Rightarrow> bool" where
  "mounted stat webDir \<longleftrightarrow> webDir \<noteq> [] \<and> stat (index_of webDir) \<noteq> None"

text \<open>The handler first decides: not below the root, a file there, or the page of the application.\<close>

datatype file_reply = NotFound | Asset bool str | Shell str

definition static_reply :: "file_system \<Rightarrow> str \<Rightarrow> str \<Rightarrow> file_reply" where
  "static_reply stat webDir urlPath =
     (let dir = Clean webDir; clean = Join dir (Clean urlPath)
      in if \<not> underRoot dir clean then NotFound
         else if stat clean = Some False then Asset (HasPrefix urlPath immutablePrefix) clean
         else Shell (index_of webDir))"

definition static_handler ::
  "(str \<Rightarrow> headers \<Rightarrow> response) \<Rightarrow> (str \<Rightarrow> headers \<Rightarrow> response) \<Rightarrow> file_system \<Rightarrow> str \<Rightarrow> str \<Rightarrow> headers \<Rightarrow> response" where
  "static_handler files serveFile stat webDir urlPath hs =
     (case static_reply stat webDir urlPath of
        NotFound \<Rightarrow> http_error (lit ''404 page not found'') 404 hs
      | Asset immutable _ \<Rightarrow>
          files urlPath
            (if immutable then header_set ''Cache-Control'' (lit ''public, max-age=31536000, immutable'') hs else hs)
      | Shell index \<Rightarrow> serveFile index (header_set ''Cache-Control'' (lit ''no-cache'') hs))"

subsection \<open>What is under the dir\<close>

lemma HasPrefix_append: "HasPrefix (p @ s) p"
  by (simp add: HasPrefix_def)

text \<open>Below the root, and by a name that does not begin with two dots.\<close>

lemma underRoot_iff:
  "underRoot dir path \<longleftrightarrow> IsAbs dir = IsAbs path \<and>
     (\<exists>rest. elems (Clean path) = elems (Clean dir) @ rest \<and> (rest = [] \<or> \<not> HasPrefix (hd rest) dotdot))"
proof (cases "IsAbs dir = IsAbs path \<and> (\<exists>rest. elems (Clean path) = elems (Clean dir) @ rest)")
  case True
  then obtain rest where rest: "IsAbs dir = IsAbs path" "elems (Clean path) = elems (Clean dir) @ rest" by blast
  have rel: "Rel dir path = Some (if rest = [] then dot else join [47] rest)" by (rule Rel_down [OF rest])
  show ?thesis
  proof (cases rest)
    case Nil
    then show ?thesis using rest rel by (simp add: underRoot_def)
  next
    case (Cons e es)
    have ok: "\<forall>x \<in> set rest. name_ok x"
      using elems_Clean(2) [of path] rest by (auto simp: elems_ok_def list_all_iff)
    then have e: "e \<noteq> []" "e \<noteq> dot" "47 \<notin> set e" using Cons by (auto simp: name_ok_def)
    obtain s where s: "join [47] rest = e @ s" "s = [] \<or> hd s = 47" using Cons by (cases es) auto
    have "HasPrefix (e @ s) dotdot \<longleftrightarrow> HasPrefix e dotdot"
    proof -
      have "take 2 (e @ s) = [46, 46] \<longleftrightarrow> take 2 e = [46, 46]"
        using e s(2) by (cases e; cases "tl e"; cases s) (auto simp: dot_def)
      then show ?thesis by (simp add: HasPrefix_def dotdot_def numeral_2_eq_2)
    qed
    moreover have "\<not> IsAbs (e @ s)" using e by (cases e) (auto simp: IsAbs_def)
    moreover have "e @ s \<noteq> dot" using e s by (cases e) (auto simp: dot_def)
    ultimately show ?thesis using rest rel Cons s(1) by (simp add: underRoot_def)
  qed
next
  case False
  then have "\<not> underRoot dir path"
  proof (cases "IsAbs dir = IsAbs path")
    case True
    then show ?thesis using False Rel_up [of dir path] HasPrefix_append [of dotdot]
      by (auto simp: underRoot_def dotdot_def dot_def)
  next
    case ne: False
    then have "Clean path \<noteq> Clean dir" using Clean_eq [of path dir] by auto
    moreover have "Clean dir = dot \<Longrightarrow> \<not> IsAbs dir" using elems_Clean(3) [of dir] by (simp add: IsAbs_def dot_def)
    ultimately have "Rel dir path = None"
      using ne by (cases "Clean dir = dot") (auto simp: Rel_def Let_def elems_Clean(3))
    then show ?thesis by (simp add: underRoot_def)
  qed
  then show ?thesis using False by blast
qed

text \<open>What is served is below the root, and no element of the way down leads up.\<close>

lemma rest_names:
  assumes "elems_ok rooted (b @ rest)" "rest = [] \<or> \<not> HasPrefix (hd rest) dotdot"
  shows "dotdot \<notin> set rest"
proof -
  obtain n names where es: "b @ rest = replicate n dotdot @ names" "dotdot \<notin> set names"
    using assms(1) unfolding elems_ok_def by blast
  show ?thesis
  proof (cases "length b < n")
    case True
    then obtain us where us: "b @ us = replicate n dotdot" "rest = us @ names" "us \<noteq> []"
      using es(1) by (fastforce simp: append_eq_append_conv2 dest: arg_cong [of _ _ length])
    then have "hd us \<in> set (replicate n dotdot)" unfolding us(1) [symmetric] by simp
    then have "rest \<noteq> []" "hd rest = dotdot" using us by auto
    then show ?thesis using assms(2) HasPrefix_append [of dotdot "[]"] by simp
  next
    case False
    then have "rest = drop (length b - n) names"
      using arg_cong [OF es(1), of "drop (length b)"] by simp
    then show ?thesis using es(2) by (auto dest: in_set_dropD)
  qed
qed

lemma Join_Clean: "Clean (Join a b) = Join a b \<or> Join a b = []"
  by (simp add: Join_def)

lemma Clean_ne [simp]: "Clean p \<noteq> []"
proof -
  have "path_of r es \<noteq> []" if "elems_ok r es" for r es
    using that by (cases es; cases "tl es") (auto simp: path_of_def elems_ok_def name_ok_def)
  then show ?thesis using normal_ok by (simp add: Clean_def)
qed

lemma IsAbs_Join: "IsAbs (Join (Clean d) b) = IsAbs d"
proof -
  have "IsAbs (Clean d @ 47 # b) = IsAbs (Clean d)" by (cases "Clean d") (auto simp: IsAbs_def)
  then show ?thesis by (simp add: Join_def elems_Clean(3))
qed

lemma elems_Join:
  assumes "IsAbs u"
  shows "elems (Join (Clean d) (Clean u)) = elems (Clean d) @ elems (Clean u)"
proof -
  have u: "Clean u = 47 # join [47] (elems (Clean u))" "elems_ok True (elems (Clean u))"
    using path_of_elems [of u] elems_Clean(2) [of u] assms by (simp_all add: path_of_def)
  have a: "IsAbs (Clean d @ 47 # Clean u) = IsAbs d"
    using elems_Clean(3) [of d] by (cases "Clean d") (auto simp: IsAbs_def)
  have names: "list_all name_ok (elems (Clean u))" "dotdot \<notin> set (elems (Clean u))"
    using u(2) by (auto simp: elems_ok_def)
  have su: "foldl (clean_step r) out (Split 47 (Clean u)) = out @ elems (Clean u)" for r out
  proof (cases "elems (Clean u) = []")
    case True
    then show ?thesis using u(1) by (simp add: clean_step_def)
  next
    case False
    then have "Split 47 (join [47] (elems (Clean u))) = elems (Clean u)"
      using names(1) by (intro Split_join) (auto simp: list_all_iff name_ok_def)
    then have "Split 47 (Clean u) = [] # elems (Clean u)" by (subst u(1)) simp
    then show ?thesis using clean_names [OF names] by (simp add: clean_step_def)
  qed
  have "normal (IsAbs d) (Split 47 (Clean d)) = elems (Clean d)"
    using elems_Clean(1) [of "Clean d"] by (simp add: elems_Clean(3))
  then have "normal (IsAbs d) (Split 47 (Clean d @ 47 # Clean u)) = elems (Clean d) @ elems (Clean u)"
    using su by (simp add: Split_comma normal_append)
  then show ?thesis using a by (simp add: Join_def elems_Clean(1))
qed

end
