(* ===== verification/Server_Command.thy ===== *)
theory Server_Command
  imports Static_Files
begin

text \<open>
  \<open>server/cmd/noitu-server/main.go\<close>: reading the environment, the order of a shutdown and the wait before it, and the
  health check. The environment is a function from names to values, the empty text for an unset one.
\<close>

subsection \<open>time.ParseDuration\<close>

definition is_decimal :: "rune \<Rightarrow> bool" where
  "is_decimal r \<longleftrightarrow> 48 \<le> r \<and> r \<le> 57"

definition units :: "(str \<times> nat) list" where
  "units = [(lit ''ns'', 1), (lit ''us'', 1000), ([0xB5, 115], 1000), ([0x3BC, 115], 1000), (lit ''ms'', 1000000),
     (lit ''s'', 1000000000), (lit ''m'', 60000000000), (lit ''h'', 3600000000000)]"

definition digits_value :: "str \<Rightarrow> nat" where
  "digits_value s = foldl (\<lambda>n r. 10 * n + (r - 48)) 0 s"

text \<open>\<open>leadingFraction\<close>: the digits as a number and the power of ten under it; digits beyond 63 bits are ignored.\<close>

fun fraction :: "str \<Rightarrow> nat \<Rightarrow> nat \<Rightarrow> nat \<times> nat" where
  "fraction [] x scale = (x, scale)"
| "fraction (r # rs) x scale =
     (if x > (2 ^ 63 - 1) div 10 \<or> 10 * x + (r - 48) > 2 ^ 63 then (x, scale)
      else fraction rs (10 * x + (r - 48)) (10 * scale))"

text \<open>One number with its unit, in nanoseconds, and the text after it. Products of floats are exact here.\<close>

definition one_unit :: "str \<Rightarrow> (nat \<times> str) option" where
  "one_unit s =
     (let whole = takeWhile is_decimal s; s1 = dropWhile is_decimal s;
          dotted = (s1 \<noteq> [] \<and> hd s1 = 46);
          frac = (if dotted then takeWhile is_decimal (tl s1) else []);
          s2 = (if dotted then dropWhile is_decimal (tl s1) else s1);
          name = takeWhile (\<lambda>r. r \<noteq> 46 \<and> \<not> is_decimal r) s2;
          rest = dropWhile (\<lambda>r. r \<noteq> 46 \<and> \<not> is_decimal r) s2;
          v = digits_value whole; (f, scale) = fraction frac 0 1
      in if (whole = [] \<and> frac = []) \<or> v > 2 ^ 63 \<or> name = [] then None
         else case map_of units name of
           None \<Rightarrow> None
         | Some unit \<Rightarrow>
             if v > 2 ^ 63 div unit then None
             else let v = v * unit + f * unit div scale
                  in if v > 2 ^ 63 then None else Some (v, rest))"

lemma one_unit_shorter: "one_unit s = Some (v, rest) \<Longrightarrow> length rest < length s"
proof -
  assume eq: "one_unit s = Some (v, rest)"
  define s1 where "s1 = dropWhile is_decimal s"
  define s2 where "s2 = (if s1 \<noteq> [] \<and> hd s1 = 46 then dropWhile is_decimal (tl s1) else s1)"
  let ?P = "\<lambda>r. r \<noteq> 46 \<and> \<not> is_decimal r"
  have "takeWhile ?P s2 \<noteq> []" "rest = dropWhile ?P s2"
    using eq by (auto simp: one_unit_def Let_def s1_def s2_def split: if_splits option.splits prod.splits)
  moreover have "length s2 = length (takeWhile ?P s2) + length (dropWhile ?P s2)"
    by (metis length_append takeWhile_dropWhile_id)
  ultimately have "length rest < length s2" by simp
  moreover have "length s2 \<le> length s1"
    using length_dropWhile_le [of is_decimal "tl s1"] by (cases s1) (auto simp: s2_def)
  moreover have "length s1 \<le> length s" by (simp add: s1_def length_dropWhile_le)
  ultimately show ?thesis by linarith
qed

text \<open>The sum is kept in 64 bits without sign, and compared with \<open>2 ^ 63\<close> after each number.\<close>

function sum_units :: "str \<Rightarrow> nat \<Rightarrow> nat option" where
  "sum_units s d =
     (if s = [] then Some d
      else case one_unit s of
        None \<Rightarrow> None
      | Some (v, rest) \<Rightarrow>
          let d = (d + v) mod 2 ^ 64 in if d > 2 ^ 63 then None else sum_units rest d)"
  by pat_completeness auto
termination by (relation "measure (length \<circ> fst)") (auto simp: one_unit_shorter)

declare sum_units.simps [simp del]

definition ParseDuration :: "str \<Rightarrow> duration option" where
  "ParseDuration s =
     (let signed = (s \<noteq> [] \<and> (hd s = 45 \<or> hd s = 43)); neg = (signed \<and> hd s = 45); s = (if signed then tl s else s)
      in if s = [48] then Some 0
         else if s = [] then None
         else case sum_units s 0 of
           None \<Rightarrow> None
         | Some d \<Rightarrow> if neg then Some (- int d) else if d > 2 ^ 63 - 1 then None else Some (int d))"

subsection \<open>The environment\<close>

type_synonym environment = "str \<Rightarrow> str"

definition defaultAddr :: str where "defaultAddr = lit '':8080''"
definition defaultDBPath :: str where "defaultDBPath = lit ''data/noitu.db''"
definition defaultTurnLimit :: duration where "defaultTurnLimit = 30000000000"
definition defaultGrace :: duration where "defaultGrace = 30000000000"
definition shutdownFlush :: duration where "shutdownFlush = 2000000000"

definition getenv :: "environment \<Rightarrow> string \<Rightarrow> str \<Rightarrow> str" where
  "getenv e key fallback = (let v = TrimSpace (e (lit key)) in if v \<noteq> [] then v else fallback)"

definition envParsed :: "environment \<Rightarrow> string \<Rightarrow> 'a \<Rightarrow> (str \<Rightarrow> 'a option) \<Rightarrow> ('a \<Rightarrow> bool) \<Rightarrow> 'a" where
  "envParsed e key fallback parse valid =
     (let raw = TrimSpace (e (lit key))
      in if raw = [] then fallback
         else case parse raw of
           None \<Rightarrow> fallback
         | Some v \<Rightarrow> if \<not> valid v then fallback else v)"

definition envInt :: "environment \<Rightarrow> string \<Rightarrow> int \<Rightarrow> int" where
  "envInt e key fallback = envParsed e key fallback Atoi (\<lambda>n. n \<ge> 0)"

definition envDuration :: "environment \<Rightarrow> string \<Rightarrow> duration \<Rightarrow> duration" where
  "envDuration e key fallback = envParsed e key fallback ParseDuration (\<lambda>d. d > 0)"

definition envNonNegDuration :: "environment \<Rightarrow> string \<Rightarrow> duration \<Rightarrow> duration" where
  "envNonNegDuration e key fallback = envParsed e key fallback ParseDuration (\<lambda>d. d \<ge> 0)"

definition envList :: "environment \<Rightarrow> string \<Rightarrow> str list" where
  "envList e key =
     (let raw = TrimSpace (e (lit key))
      in if raw = [] then [] else filter (\<lambda>p. p \<noteq> []) (map TrimSpace (Split 44 raw)))"

record command_config =
  cc_addr :: str
  cc_dbPath :: str
  cc_turnLimit :: duration
  cc_grace :: duration
  cc_allowedOrigins :: "str list"
  cc_webDir :: str
  cc_trustedProxies :: "str list"
  cc_maxRooms :: int
  cc_maxConnections :: int
  cc_maxConnectionsPerIP :: int
  cc_debugAddr :: str
  cc_drainTimeout :: duration
  cc_flushWait :: duration

definition loadConfig :: "environment \<Rightarrow> command_config" where
  "loadConfig e =
     \<lparr>cc_addr = getenv e ''NOITU_ADDR'' defaultAddr,
      cc_dbPath = getenv e ''NOITU_DB_PATH'' defaultDBPath,
      cc_turnLimit = envDuration e ''NOITU_TURN_LIMIT'' defaultTurnLimit,
      cc_grace = envDuration e ''NOITU_GRACE'' defaultGrace,
      cc_allowedOrigins = envList e ''NOITU_ALLOWED_ORIGINS'',
      cc_webDir = getenv e ''NOITU_WEB_DIR'' [],
      cc_trustedProxies = envList e ''NOITU_TRUSTED_PROXIES'',
      cc_maxRooms = envInt e ''NOITU_MAX_ROOMS'' 0,
      cc_maxConnections = envInt e ''NOITU_MAX_CONNECTIONS'' 0,
      cc_maxConnectionsPerIP = envInt e ''NOITU_MAX_CONNECTIONS_PER_IP'' 0,
      cc_debugAddr = getenv e ''NOITU_DEBUG_ADDR'' [],
      cc_drainTimeout = envNonNegDuration e ''NOITU_DRAIN_TIMEOUT'' 0,
      cc_flushWait = shutdownFlush\<rparr>"

text \<open>What \<open>serve\<close> hands to \<open>NewServer\<close>; an unset field is the zero of its type.\<close>

definition server_config_of :: "str \<Rightarrow> command_config \<Rightarrow> server_config" where
  "server_config_of version cc =
     \<lparr>cf_turnLimit = cc_turnLimit cc, cf_graceFor = cc_grace cc, cf_idleFor = 0,
      cf_allowedOrigins = cc_allowedOrigins cc, cf_webDir = cc_webDir cc,
      cf_trustedProxies = cc_trustedProxies cc, cf_maxRooms = cc_maxRooms cc,
      cf_maxConnections = cc_maxConnections cc, cf_maxConnectionsPerIP = cc_maxConnectionsPerIP cc,
      cf_version = version\<rparr>"

subsection \<open>Waiting for games, and shutting down\<close>

definition drainPollInterval :: duration where "drainPollInterval = 200000000"

text \<open>
  \<open>waitForGamesToFinish\<close>: the loop reads the count at its \<open>k\<close>-th turn (\<open>live k\<close>), which is \<open>k\<close> intervals after it
  started; then it waits for the deadline or the next tick, whichever is first. When both are due at once,
  \<open>select\<close> takes either (\<open>coin\<close>). The result is how it ended, and after how long.
\<close>

datatype wait_end = NoWait | GamesOver | DrainTimedOut

function wait_turn :: "(nat \<Rightarrow> int) \<Rightarrow> bool \<Rightarrow> duration \<Rightarrow> nat \<Rightarrow> wait_end \<times> nat \<times> duration" where
  "wait_turn live coin timeout k =
     (if live k = 0 then (GamesOver, k, int k * drainPollInterval)
      else let tick = (int k + 1) * drainPollInterval
           in if timeout < tick \<or> timeout = tick \<and> coin then (DrainTimedOut, k, timeout)
              else wait_turn live coin timeout (k + 1))"
  by pat_completeness auto
termination
  by (relation "measure (\<lambda>(live, coin, timeout, k). nat (timeout + 1 - int k * drainPollInterval))")
    (auto simp: drainPollInterval_def)

declare wait_turn.simps [simp del]

definition waitForGamesToFinish :: "(nat \<Rightarrow> int) \<Rightarrow> bool \<Rightarrow> duration \<Rightarrow> wait_end \<times> nat \<times> duration" where
  "waitForGamesToFinish live coin timeout = (if timeout \<le> 0 then (NoWait, 0, 0) else wait_turn live coin timeout 0)"

text \<open>What the shutdown does to the server, in order; the lines it logs are left out.\<close>

datatype act = StartDraining | LiveGameCount nat | Shutdown | Sleep duration | ReleaseSignals | ShutdownDebug | ShutdownHTTP

definition wait_acts :: "wait_end \<times> nat \<times> duration \<Rightarrow> act list" where
  "wait_acts r = (case r of (NoWait, _, _) \<Rightarrow> [] | (_, k, _) \<Rightarrow> map LiveGameCount [0..<k + 1])"

definition drainAndShutdown :: "(nat \<Rightarrow> int) \<Rightarrow> bool \<Rightarrow> duration \<Rightarrow> duration \<Rightarrow> act list" where
  "drainAndShutdown live coin drainTimeout flush =
     StartDraining # wait_acts (waitForGamesToFinish live coin drainTimeout) @
     Shutdown # (if flush > 0 then [Sleep flush] else [])"

text \<open>\<open>serve\<close>: the listener fails first, or the signal comes first.\<close>

definition serve_acts :: "bool \<Rightarrow> (nat \<Rightarrow> int) \<Rightarrow> bool \<Rightarrow> command_config \<Rightarrow> act list" where
  "serve_acts listener_failed live coin cc =
     (if listener_failed then [Shutdown, ShutdownDebug]
      else ReleaseSignals # drainAndShutdown live coin (cc_drainTimeout cc) (cc_flushWait cc) @ [ShutdownDebug, ShutdownHTTP])"

subsection \<open>The health check\<close>

definition unspecified :: "str \<Rightarrow> bool" where
  "unspecified host =
     (case ParseAddr host of
        None \<Rightarrow> False
      | Some a \<Rightarrow> (case a of Addr4 _ \<Rightarrow> True | Addr6 _ zone \<Rightarrow> zone = []) \<and>
          (case Unmap a of Addr4 w \<Rightarrow> w = 0 | Addr6 w _ \<Rightarrow> w = 0))"

definition JoinHostPort :: "str \<Rightarrow> str \<Rightarrow> str" where
  "JoinHostPort host port = (if 58 \<in> set host then 91 # host @ [93, 58] @ port else host @ 58 # port)"

definition loopback :: str where "loopback = lit ''127.0.0.1''"

datatype health_error = BadAddress | GetFailed | Answered nat

definition health_host :: "str \<Rightarrow> str" where
  "health_host host = (if host = [] \<or> unspecified host then loopback else host)"

definition checkHealth :: "(str \<Rightarrow> nat option) \<Rightarrow> str \<Rightarrow> health_error option" where
  "checkHealth get addr =
     (case SplitHostPort addr of
        None \<Rightarrow> Some BadAddress
      | Some (host, port) \<Rightarrow>
          (case get (lit ''http://'' @ JoinHostPort (health_host host) port @ lit ''/healthz'') of
             None \<Rightarrow> Some GetFailed
           | Some status \<Rightarrow> if status \<noteq> 200 then Some (Answered status) else None))"

subsection \<open>What a configuration can be\<close>

lemma envParsed_valid: "valid fallback \<Longrightarrow> valid (envParsed e key fallback parse valid)"
  by (simp add: envParsed_def Let_def split: option.split)

lemma envList_clean: "p \<in> set (envList e key) \<Longrightarrow> p \<noteq> [] \<and> TrimSpace p = p"
  by (auto simp: envList_def Let_def TrimSpace_id split: if_splits)

lemma wait_turn_result:
  "wait_turn live coin timeout k = (r, n, t) \<Longrightarrow> int k * drainPollInterval \<le> timeout \<Longrightarrow>
     k \<le> n \<and> t \<le> timeout \<and> (\<forall>j. k \<le> j \<longrightarrow> j < n \<longrightarrow> live j \<noteq> 0) \<and>
     (r = GamesOver \<and> live n = 0 \<and> t = int n * drainPollInterval \<or>
      r = DrainTimedOut \<and> live n \<noteq> 0 \<and> t = timeout \<and> timeout \<le> (int n + 1) * drainPollInterval)"
proof (induction live coin timeout k rule: wait_turn.induct)
  case (1 live coin timeout k)
  show ?case
  proof (cases "live k = 0 \<or> timeout < (int k + 1) * drainPollInterval \<or> timeout = (int k + 1) * drainPollInterval \<and> coin")
    case True
    then show ?thesis using 1(2,3) by (auto simp: wait_turn.simps [of _ _ _ k] Let_def split: if_splits)
  next
    case False
    then have "wait_turn live coin timeout (k + 1) = (r, n, t)" "int (k + 1) * drainPollInterval \<le> timeout"
      using 1(2) by (auto simp: wait_turn.simps [of _ _ _ k] Let_def add.commute)
    then have ih: "k + 1 \<le> n \<and> t \<le> timeout \<and> (\<forall>j. k + 1 \<le> j \<longrightarrow> j < n \<longrightarrow> live j \<noteq> 0) \<and>
     (r = GamesOver \<and> live n = 0 \<and> t = int n * drainPollInterval \<or>
      r = DrainTimedOut \<and> live n \<noteq> 0 \<and> t = timeout \<and> timeout \<le> (int n + 1) * drainPollInterval)"
      using 1(1) False by blast
    have "live j \<noteq> 0" if "k \<le> j" "j < n" for j
      using ih that False by (cases "j = k") auto
    then show ?thesis using ih by auto
  qed
qed

end
