(* ===== verification/Session_IO.thy ===== *)
theory Session_IO
  imports Server_State "HOL-Library.Sublist"
begin

text \<open>
  \<open>server/internal/wsapi/session.go\<close>: the goroutines of one connection around its socket. \<open>Server_Run\<close> only says
  that frames leave the outbox and that a connection may close; here is how: the writer, which drains what is
  queued when the session is cancelled, the keepalive, and the teardown, which cancels the read only when the
  writer is done or the time to drain is over. Whether a write or a ping succeeds is the peer's choice, and so
  part of the step.
\<close>

definition pingMisses :: nat where "pingMisses = 2"

text \<open>The writer is in its loop, in \<open>drain\<close>, or has closed \<open>flushed\<close>. \<open>run\<close> is reading, waiting for the others, or done.\<close>

datatype writer = Writing | Draining | Flushed
datatype reader = InRead | Waiting | SocketClosed

text \<open>
  The last four fields are history: every frame ever queued, every frame the socket took, whether a write
  failed, and how many frames had been queued when the session was cancelled.
\<close>

record socket_io =
  io_out :: "smsg list"
  io_done :: bool
  io_writer :: writer
  io_misses :: nat
  io_pinging :: bool
  io_readCancelled :: bool
  io_reader :: reader
  io_queued :: "smsg list"
  io_written :: "smsg list"
  io_failed :: bool
  io_closedAt :: "nat option"

definition io_start :: socket_io where
  "io_start = \<lparr>io_out = [], io_done = False, io_writer = Writing, io_misses = 0, io_pinging = True,
     io_readCancelled = False, io_reader = InRead, io_queued = [], io_written = [], io_failed = False,
     io_closedAt = None\<rparr>"

text \<open>\<open>close\<close> cancels the context; the first call counts.\<close>

definition io_close :: "socket_io \<Rightarrow> socket_io" where
  "io_close s = s\<lparr>io_done := True,
     io_closedAt := (case io_closedAt s of None \<Rightarrow> Some (length (io_queued s)) | Some n \<Rightarrow> Some n)\<rparr>"

text \<open>The one select of \<open>enqueue\<close> that matters here: there is space, and the case was taken.\<close>

definition io_enqueue :: "smsg \<Rightarrow> socket_io \<Rightarrow> socket_io" where
  "io_enqueue m s = s\<lparr>io_out := io_out s @ [m], io_queued := io_queued s @ [m]\<rparr>"

definition take_out :: "socket_io \<Rightarrow> smsg \<times> socket_io" where
  "take_out s = (hd (io_out s), s\<lparr>io_out := tl (io_out s)\<rparr>)"

text \<open>\<open>write\<close>: one frame to the socket; a failure closes the session.\<close>

definition io_write :: "bool \<Rightarrow> smsg \<Rightarrow> socket_io \<Rightarrow> bool \<times> socket_io" where
  "io_write ok m s =
     (if ok then (True, s\<lparr>io_written := io_written s @ [m]\<rparr>)
      else (False, io_close (s\<lparr>io_failed := True\<rparr>)))"

text \<open>One turn of \<open>writeLoop\<close>: with the context done it may go and drain, with a frame there it may write.\<close>

definition writeLoop_frame :: "bool \<Rightarrow> socket_io \<Rightarrow> socket_io" where
  "writeLoop_frame ok s =
     (let (raw, s) = take_out s; (sent, s) = io_write ok raw s
      in if \<not> sent then s\<lparr>io_writer := Flushed\<rparr> else s)"

definition writeLoop_done :: "socket_io \<Rightarrow> socket_io" where
  "writeLoop_done s = s\<lparr>io_writer := Draining\<rparr>"

text \<open>One turn of \<open>drain\<close>: a frame is written, or the loop ends at an empty outbox or a failed write.\<close>

definition drain_turn :: "bool \<Rightarrow> socket_io \<Rightarrow> socket_io" where
  "drain_turn ok s =
     (if io_out s = [] then s\<lparr>io_writer := Flushed\<rparr>
      else let (raw, s) = take_out s
           in if ok then s\<lparr>io_written := io_written s @ [raw]\<rparr>
              else s\<lparr>io_failed := True, io_writer := Flushed\<rparr>)"

text \<open>One tick of \<open>keepalive\<close>.\<close>

definition keepalive_tick :: "bool \<Rightarrow> socket_io \<Rightarrow> socket_io" where
  "keepalive_tick ok s =
     (if ok then s\<lparr>io_misses := 0\<rparr>
      else let n = io_misses s + 1; s = s\<lparr>io_misses := n\<rparr>
           in if n \<ge> pingMisses then (io_close s)\<lparr>io_pinging := False\<rparr> else s)"

text \<open>The read returns an error, and \<open>run\<close> closes; it closes the socket once its three goroutines are done.\<close>

definition read_over :: "socket_io \<Rightarrow> socket_io" where
  "read_over s = (io_close s)\<lparr>io_reader := Waiting\<rparr>"

definition all_done :: "socket_io \<Rightarrow> bool" where
  "all_done s \<longleftrightarrow> io_writer s = Flushed \<and> \<not> io_pinging s \<and> io_readCancelled s"

text \<open>The time to drain can be over at any moment after the cancellation: \<open>overdue\<close> is the run's clock saying so.\<close>

inductive io_step :: "bool \<Rightarrow> socket_io \<Rightarrow> socket_io \<Rightarrow> bool" for overdue where
  queues: "length (io_out s) < outboxCap \<Longrightarrow> io_step overdue s (io_enqueue m s)"
| closes: "io_step overdue s (io_close s)"
| writes: "io_writer s = Writing \<Longrightarrow> io_out s \<noteq> [] \<Longrightarrow> io_step overdue s (writeLoop_frame ok s)"
| stops: "io_writer s = Writing \<Longrightarrow> io_done s \<Longrightarrow> io_step overdue s (writeLoop_done s)"
| drains: "io_writer s = Draining \<Longrightarrow> io_step overdue s (drain_turn ok s)"
| ticks: "io_pinging s \<Longrightarrow> io_step overdue s (keepalive_tick ok s)"
| stops_pinging: "io_pinging s \<Longrightarrow> io_done s \<Longrightarrow> io_step overdue s (s\<lparr>io_pinging := False\<rparr>)"
| cancels_read: "io_done s \<Longrightarrow> io_writer s = Flushed \<or> overdue \<Longrightarrow> io_step overdue s (s\<lparr>io_readCancelled := True\<rparr>)"
| read_fails: "io_reader s = InRead \<Longrightarrow> io_step overdue s (read_over s)"
| closes_socket: "io_reader s = Waiting \<Longrightarrow> all_done s \<Longrightarrow> io_step overdue s (s\<lparr>io_reader := SocketClosed\<rparr>)"

inductive io_reach :: "bool \<Rightarrow> socket_io \<Rightarrow> bool" for overdue where
  io_init: "io_reach overdue io_start"
| io_next: "io_reach overdue s \<Longrightarrow> io_step overdue s s' \<Longrightarrow> io_reach overdue s'"

subsection \<open>What holds of every run\<close>

text \<open>
  Frames are written in the order they were queued. While nothing has failed, what is not written is in the
  outbox; a failure ends the writer. The writer drains only a cancelled session, and when it has ended without
  a failure, everything queued before the cancellation is written.
\<close>

definition frames_inv :: "socket_io \<Rightarrow> bool" where
  "frames_inv s \<longleftrightarrow> prefix (io_written s) (io_queued s) \<and>
     (if io_failed s then io_writer s = Flushed else io_queued s = io_written s @ io_out s)"

definition phases_inv :: "bool \<Rightarrow> socket_io \<Rightarrow> bool" where
  "phases_inv overdue s \<longleftrightarrow>
     (\<not> io_done s \<longrightarrow> io_writer s = Writing \<and> \<not> io_failed s \<and> io_pinging s \<and> io_reader s = InRead) \<and>
     (io_pinging s \<longrightarrow> io_misses s < pingMisses) \<and>
     (io_readCancelled s \<longrightarrow> io_writer s = Flushed \<or> overdue) \<and>
     (io_reader s = SocketClosed \<longrightarrow> io_writer s = Flushed \<and> io_readCancelled s)"

definition mark_inv :: "socket_io \<Rightarrow> bool" where
  "mark_inv s \<longleftrightarrow>
     (case io_closedAt s of
        None \<Rightarrow> \<not> io_done s
      | Some n \<Rightarrow> io_done s \<and> n \<le> length (io_queued s) \<and>
          (io_writer s = Flushed \<and> \<not> io_failed s \<longrightarrow> n \<le> length (io_written s)))"

definition io_inv :: "bool \<Rightarrow> socket_io \<Rightarrow> bool" where
  "io_inv overdue s \<longleftrightarrow> frames_inv s \<and> phases_inv overdue s \<and> mark_inv s"

lemmas io_ops = io_close_def io_enqueue_def take_out_def io_write_def writeLoop_frame_def writeLoop_done_def
  drain_turn_def keepalive_tick_def read_over_def Let_def

lemmas io_invs = io_inv_def frames_inv_def phases_inv_def mark_inv_def

lemma io_inv_start: "io_inv overdue io_start"
  by (simp add: io_invs io_start_def pingMisses_def)

lemma io_inv_close: "io_inv overdue s \<Longrightarrow> io_inv overdue (io_close s)"
  unfolding io_inv_def
proof (intro conjI; elim conjE)
  assume "phases_inv overdue s" "mark_inv s"
  then show "mark_inv (io_close s)" by (auto simp: mark_inv_def phases_inv_def io_close_def split: option.splits)
qed (auto simp: frames_inv_def phases_inv_def io_close_def)

lemma io_inv_enqueue: "io_inv overdue s \<Longrightarrow> io_inv overdue (io_enqueue m s)"
  unfolding io_inv_def
proof (intro conjI; elim conjE)
  assume "frames_inv s" "phases_inv overdue s" "mark_inv s"
  then show "frames_inv (io_enqueue m s)" "phases_inv overdue (io_enqueue m s)" "mark_inv (io_enqueue m s)"
    by (auto simp: frames_inv_def phases_inv_def mark_inv_def io_enqueue_def split: option.splits if_splits)
qed

text \<open>A frame is taken from the outbox and written, or the write fails and the writer ends.\<close>

lemma io_inv_sent:
  assumes inv: "io_inv overdue s" and "io_writer s \<noteq> Flushed" "io_out s = m # rest"
  shows "io_inv overdue (s\<lparr>io_out := rest, io_written := io_written s @ [m]\<rparr>)"
proof -
  have nf: "\<not> io_failed s" "io_queued s = io_written s @ m # rest"
    using assms by (auto simp: io_inv_def frames_inv_def split: if_splits)
  have "frames_inv (s\<lparr>io_out := rest, io_written := io_written s @ [m]\<rparr>)"
    using nf by (simp add: frames_inv_def)
  moreover have "phases_inv overdue (s\<lparr>io_out := rest, io_written := io_written s @ [m]\<rparr>)"
    using inv by (simp add: io_inv_def phases_inv_def)
  moreover have "mark_inv (s\<lparr>io_out := rest, io_written := io_written s @ [m]\<rparr>)"
    using inv assms(2) by (auto simp: io_inv_def mark_inv_def split: option.splits)
  ultimately show ?thesis by (simp add: io_inv_def)
qed

lemma io_inv_unsent:
  assumes inv: "io_inv overdue s"
  shows "io_inv overdue ((io_close (s\<lparr>io_out := rest, io_failed := True\<rparr>))\<lparr>io_writer := Flushed\<rparr>)"
proof -
  let ?t = "(io_close (s\<lparr>io_out := rest, io_failed := True\<rparr>))\<lparr>io_writer := Flushed\<rparr>"
  have "frames_inv ?t" using inv by (simp add: io_inv_def frames_inv_def io_close_def)
  moreover have "phases_inv overdue ?t" using inv by (auto simp: io_inv_def phases_inv_def io_close_def)
  moreover have "mark_inv ?t" using inv by (auto simp: io_inv_def mark_inv_def io_close_def split: option.splits)
  ultimately show ?thesis by (simp add: io_inv_def)
qed

lemma io_inv_frame:
  assumes "io_inv overdue s" "io_writer s = Writing" "io_out s \<noteq> []"
  shows "io_inv overdue (writeLoop_frame ok s)"
proof -
  obtain m rest where o': "io_out s = m # rest" using assms(3) by (cases "io_out s") auto
  then have "writeLoop_frame ok s =
      (if ok then s\<lparr>io_out := rest, io_written := io_written s @ [m]\<rparr>
       else (io_close (s\<lparr>io_out := rest, io_failed := True\<rparr>))\<lparr>io_writer := Flushed\<rparr>)"
    by (simp add: io_ops)
  then show ?thesis using io_inv_sent [OF assms(1) _ o'] io_inv_unsent [OF assms(1)] assms(2) by simp
qed

lemma done_close: "mark_inv s \<Longrightarrow> io_done s \<Longrightarrow> io_close s = s"
  by (auto simp: mark_inv_def io_close_def split: option.splits)

lemma io_inv_drain:
  assumes inv: "io_inv overdue s" and w: "io_writer s = Draining"
  shows "io_inv overdue (drain_turn ok s)"
proof (cases "io_out s")
  case Nil
  have "io_done s" "\<not> io_failed s" "io_queued s = io_written s"
    using inv w Nil by (auto simp: io_inv_def phases_inv_def frames_inv_def split: if_splits)
  then have "frames_inv (s\<lparr>io_writer := Flushed\<rparr>)" "phases_inv overdue (s\<lparr>io_writer := Flushed\<rparr>)"
      "mark_inv (s\<lparr>io_writer := Flushed\<rparr>)"
    using inv Nil by (auto simp: io_inv_def frames_inv_def phases_inv_def mark_inv_def split: option.splits)
  then show ?thesis by (simp add: drain_turn_def Nil io_inv_def)
next
  case (Cons m rest)
  have d: "mark_inv (s\<lparr>io_out := rest, io_failed := True\<rparr>)" "io_done s"
    using inv w by (auto simp: io_inv_def phases_inv_def mark_inv_def split: option.splits)
  then have "drain_turn ok s =
      (if ok then s\<lparr>io_out := rest, io_written := io_written s @ [m]\<rparr>
       else (io_close (s\<lparr>io_out := rest, io_failed := True\<rparr>))\<lparr>io_writer := Flushed\<rparr>)"
    by (simp add: done_close drain_turn_def take_out_def Cons)
  then show ?thesis using io_inv_sent [OF inv _ Cons] io_inv_unsent [OF inv] w by simp
qed

lemma io_inv_tick:
  assumes inv: "io_inv overdue s" and p: "io_pinging s"
  shows "io_inv overdue (keepalive_tick ok s)"
proof -
  have m: "io_misses s < pingMisses" using inv p by (simp add: io_inv_def phases_inv_def)
  have set_misses: "io_inv overdue (t\<lparr>io_misses := n\<rparr>)" if "io_inv overdue t" "n < pingMisses" for t n
    using that by (simp add: io_invs split: option.splits)
  have stop: "io_inv overdue (t\<lparr>io_misses := n, io_pinging := False\<rparr>)" if "io_inv overdue t" "io_done t" for t n
    using that by (simp add: io_invs split: option.splits)
  show ?thesis
  proof (cases "\<not> ok \<and> io_misses s + 1 \<ge> pingMisses")
    case True
    then have "keepalive_tick ok s = (io_close s)\<lparr>io_misses := io_misses s + 1, io_pinging := False\<rparr>"
      by (simp add: keepalive_tick_def io_close_def Let_def split: option.split)
    then show ?thesis using stop [OF io_inv_close [OF inv]] by (simp add: io_close_def)
  next
    case False
    then show ?thesis using set_misses [OF inv] m by (auto simp: keepalive_tick_def Let_def)
  qed
qed

lemma io_inv_read: "io_inv overdue s \<Longrightarrow> io_inv overdue (read_over s)"
proof -
  assume "io_inv overdue s"
  then have "io_inv overdue (io_close s)" by (rule io_inv_close)
  then show ?thesis unfolding read_over_def
    by (auto simp: io_inv_def frames_inv_def phases_inv_def mark_inv_def io_close_def split: option.splits)
qed

lemma io_inv_step: "io_step overdue s s' \<Longrightarrow> io_inv overdue s \<Longrightarrow> io_inv overdue s'"
proof (induction rule: io_step.induct)
  case (stops s)
  then show ?case by (auto simp: io_invs writeLoop_done_def split: option.splits if_splits)
next
  case (stops_pinging s)
  then show ?case by (auto simp: io_invs split: option.splits)
next
  case (cancels_read s)
  then show ?case by (auto simp: io_invs split: option.splits)
next
  case (closes_socket s)
  then show ?case by (auto simp: io_invs all_done_def split: option.splits)
qed (simp_all add: io_inv_enqueue io_inv_close io_inv_frame io_inv_drain io_inv_tick io_inv_read)

lemma io_inv_reach: "io_reach overdue s \<Longrightarrow> io_inv overdue s"
  by (induction rule: io_reach.induct) (auto intro: io_inv_start io_inv_step)

end
