(* ===== verification/Corpus_Log.thy ===== *)
theory Corpus_Log
  imports Rate_Limit
begin

text \<open>
  \<open>server/internal/wsapi/corpuslog.go\<close>: the lines that tell of rejected and reported words go through one bucket for
  the whole process. A line is its text, its arguments and, after a run of dropped lines, how many there were.
  Calls are taken one after the other.
\<close>

definition corpusLogPerSecond :: rat where "corpusLogPerSecond = 20"
definition corpusLogBurst :: nat where "corpusLogBurst = 100"

record log_line =
  ll_msg :: str
  ll_args :: "str list"
  ll_suppressed_before :: "int option"

record corpusLogger =
  cl_bucket :: bucket
  cl_suppressed :: int

definition newCorpusLogger :: "instant \<Rightarrow> corpusLogger" where
  "newCorpusLogger now = \<lparr>cl_bucket = newBucket corpusLogPerSecond corpusLogBurst now, cl_suppressed = 0\<rparr>"

definition corpus_info :: "instant \<Rightarrow> str \<Rightarrow> str list \<Rightarrow> corpusLogger \<Rightarrow> log_line option \<times> corpusLogger" where
  "corpus_info now msg args l =
     (let (ok, b) = bucket_allow now (cl_bucket l); l = l\<lparr>cl_bucket := b\<rparr>
      in if \<not> ok then (None, l\<lparr>cl_suppressed := cl_suppressed l + 1\<rparr>)
         else let n = cl_suppressed l
              in (Some \<lparr>ll_msg = msg, ll_args = args, ll_suppressed_before = (if n > 0 then Some n else None)\<rparr>,
                  l\<lparr>cl_suppressed := 0\<rparr>))"

fun corpus_calls :: "(instant \<times> str \<times> str list) list \<Rightarrow> corpusLogger \<Rightarrow> log_line list \<times> corpusLogger" where
  "corpus_calls [] l = ([], l)"
| "corpus_calls ((now, msg, args) # cs) l =
     (let (line, l) = corpus_info now msg args l; (lines, l) = corpus_calls cs l
      in (case line of None \<Rightarrow> lines | Some x \<Rightarrow> x # lines, l))"

definition gap :: "log_line \<Rightarrow> int" where
  "gap x = (case ll_suppressed_before x of None \<Rightarrow> 0 | Some n \<Rightarrow> n)"

text \<open>No line is lost without being counted: written, told of by a later line, or still to be told of.\<close>

lemma corpus_accounts:
  "corpus_calls cs l = (lines, l') \<Longrightarrow> 0 \<le> cl_suppressed l \<Longrightarrow>
     0 \<le> cl_suppressed l' \<and>
     int (length cs) + cl_suppressed l = int (length lines) + sum_list (map gap lines) + cl_suppressed l'"
proof (induction cs l arbitrary: lines rule: corpus_calls.induct)
  case (2 now msg args cs l)
  obtain line m where i: "corpus_info now msg args l = (line, m)" by fastforce
  obtain ls where c: "corpus_calls cs m = (ls, l')" and lines: "lines = (case line of None \<Rightarrow> ls | Some x \<Rightarrow> x # ls)"
    using 2(2) i by (auto simp: Let_def split: prod.splits)
  have one: "0 \<le> cl_suppressed m \<and> 1 + cl_suppressed l =
      (case line of None \<Rightarrow> 0 | Some x \<Rightarrow> 1 + gap x) + cl_suppressed m"
    using i 2(3) by (auto simp: corpus_info_def gap_def Let_def split: prod.splits if_splits)
  then have "0 \<le> cl_suppressed l' \<and>
      int (length cs) + cl_suppressed m = int (length ls) + sum_list (map gap ls) + cl_suppressed l'"
    using 2(1) [OF _ _ c] i by simp
  with one show ?case by (cases line) (auto simp: lines)
qed simp

text \<open>The lines written are what the bucket lets through.\<close>

lemma corpus_lines: "length (fst (corpus_calls cs l)) = fst (bucket_run (map fst cs) (cl_bucket l))"
proof (induction cs l rule: corpus_calls.induct)
  case (2 now msg args cs l)
  then show ?case by (auto simp: corpus_info_def Let_def split: prod.splits)
qed simp

lemma corpus_bound:
  "of_nat (length (fst (corpus_calls cs (newCorpusLogger start)))) \<le>
     of_nat corpusLogBurst + seconds (foldl max start (map fst cs) - start) * corpusLogPerSecond"
proof -
  let ?b = "newBucket corpusLogPerSecond corpusLogBurst start"
  obtain n b where run: "bucket_run (map fst cs) ?b = (n, b)" by fastforce
  have "bucket_ok ?b" by (simp add: newBucket_ok corpusLogPerSecond_def)
  from bucket_run_bound [OF this run] run show ?thesis
    by (auto simp: corpus_lines newCorpusLogger_def newBucket_def bucket_ok_def)
qed

end
