(* ===== verification/Gateway_Props.thy ===== *)
theory Gateway_Props
  imports Gateway_Facts Server_Command Session_IO Corpus_Log Demo_Room
begin

text \<open>
  What the server promises at its edge: who counts as one client, how many may connect, which files are served,
  that frames reach the socket, and how the process ends.
\<close>

subsection \<open>Addresses\<close>

text \<open>
  Claim (C28). Two addresses have the same key exactly when they belong to the same client: the same host of 32 bits,
  in whichever of its two forms, or the same network of 64 bits, whatever the zone. So no spelling of an
  address, and no other address of one's own network, is a way around a limit, and no stranger is charged.
\<close>

theorem one_key_per_client:
  assumes "ParseAddr g = Some a" "ParseAddr h = Some b"
  shows "limiterKey g = limiterKey h \<longleftrightarrow> owner_of a = owner_of b"
  using assms by (rule key_owner)

text \<open>One host of 32 bits in its two forms, and two networks.\<close>

lemma demo_addresses:
  "ParseAddr (lit ''10.0.0.1'') = Some (Addr4 0x0A000001)"
  "ParseAddr (lit ''::ffff:10.0.0.1'') = Some (Addr6 0xffff0A000001 [])"
proof -
  show "ParseAddr (lit ''10.0.0.1'') = Some (Addr4 0x0A000001)"
    by (simp add: ParseAddr_def lit_def parseIPv4_def parse_octets_def octet_def from_octets_def glue_def push_bit_eq_mult)
  have "octets (low_word 0xffff0A000001) = [10, 0, 0, 1]"
    by (simp add: low_word_def octets_def pieces_def upt_rec take_bit_eq_mod drop_bit_eq_div)
  then have "addr_string (Addr6 0xffff0A000001 []) = lit ''::ffff:10.0.0.1''"
    by (simp add: string6_def Is4In6_def string4_def digits_of.simps lit_def)
  then show "ParseAddr (lit ''::ffff:10.0.0.1'') = Some (Addr6 0xffff0A000001 [])"
    using ParseAddr_addr_string [of "Addr6 0xffff0A000001 []"] by simp
qed

theorem one_key_per_client_witness:
  "limiterKey (lit ''::ffff:10.0.0.1'') = limiterKey (lit ''10.0.0.1'') \<and>
   limiterKey (addr_string (Addr6 0x20010db8000000000000000000000001 [])) =
     limiterKey (addr_string (Addr6 0x20010db80000000000000000ffff0002 [101])) \<and>
   limiterKey (addr_string (Addr6 0x20010db8000000000000000000000001 [])) \<noteq>
     limiterKey (addr_string (Addr6 0x20010db8000000010000000000000001 []))"
proof (intro conjI)
  show "limiterKey (lit ''::ffff:10.0.0.1'') = limiterKey (lit ''10.0.0.1'')"
    by (simp add: one_key_per_client [OF demo_addresses(2,1)] owner_of_def Is4In6_def low_word_def)
  show "limiterKey (addr_string (Addr6 0x20010db8000000000000000000000001 [])) =
     limiterKey (addr_string (Addr6 0x20010db80000000000000000ffff0002 [101]))"
    by (subst one_key_per_client [OF ParseAddr_addr_string ParseAddr_addr_string]) (simp add: owner_of_def Is4In6_def)
  show "limiterKey (addr_string (Addr6 0x20010db8000000000000000000000001 [])) \<noteq>
     limiterKey (addr_string (Addr6 0x20010db8000000010000000000000001 []))"
    by (subst one_key_per_client [OF ParseAddr_addr_string ParseAddr_addr_string]) (simp add: owner_of_def Is4In6_def)
qed

text \<open>
  Claim (C29). Behind a trusted proxy, what a client wrote into the header beforehand does not change the key its
  request counts against, as long as the proxy adds an entry that is no proxy itself; without a trusted proxy
  the header is not read at all.
\<close>

theorem forged_hops_ignored:
  assumes "list_ex (\<lambda>hop. TrimSpace hop \<noteq> [] \<and> \<not> trusted proxies (TrimSpace hop)) (Split 44 added)"
  shows "clientIP proxies remote (values @ [forged @ 44 # added]) = clientIP proxies remote [added] \<and>
    clientIP proxies remote (values @ [added]) = clientIP proxies remote [added] \<and>
    (\<not> trusted proxies (remoteHost remote) \<longrightarrow> clientIP proxies remote values = limiterKey (remoteHost remote))"
  using forged_values [OF assms] proxies_ignored by (simp add: clientIP_def)

definition demo_proxies :: "prefix_range list" where
  "demo_proxies = parsePrefixes [lit '' 10.0.0.0/8'', [], lit ''nonsense'']"

lemma demo_proxies_eq: "demo_proxies = [\<lparr>pr_addr = Addr4 0x0A000000, pr_bits = 8\<rparr>]"
proof -
  have t: "TrimSpace (lit '' 10.0.0.0/8'') = lit ''10.0.0.0/8''" "TrimSpace (lit ''nonsense'') = lit ''nonsense''"
    by (simp_all add: TrimSpace_def TrimLeftFunc_def TrimRightFunc_def lit_def is_space_def)
  have "parse_proxy (lit ''nonsense'') = None"
    unfolding parse_proxy_def t by (simp add: lit_def ParsePrefix_def last_cut_def ParseAddr_def)
  moreover have "parse_proxy [] = None" by (simp add: parse_proxy_def TrimSpace_def TrimLeftFunc_def)
  moreover have "parse_proxy (lit '' 10.0.0.0/8'') = Some \<lparr>pr_addr = Addr4 0x0A000000, pr_bits = 8\<rparr>"
    unfolding parse_proxy_def t
    by (simp add: lit_def ParsePrefix_def last_cut_def ParseAddr_def parseIPv4_def parse_octets_def octet_def
        from_octets_def glue_def push_bit_eq_mult Atoi_def Let_def max_int64_def min_int64_def PrefixFrom_def
        Masked_def high_bits_def)
  ultimately show ?thesis by (simp add: demo_proxies_def parsePrefixes_def map_filter_def)
qed

theorem forged_hops_ignored_witness:
  "clientIP demo_proxies (lit ''10.0.0.1:443'') [lit ''8.8.8.8,1.2.3.4''] = lit ''1.2.3.4''"
proof -
  have addr: "ParseAddr (lit ''1.2.3.4'') = Some (Addr4 0x01020304)"
    by (simp add: ParseAddr_def lit_def parseIPv4_def parse_octets_def octet_def from_octets_def glue_def push_bit_eq_mult)
  have space: "TrimSpace (lit ''1.2.3.4'') = lit ''1.2.3.4''"
    by (rule TrimSpace_id) (simp add: trimmed_def lit_def is_space_def)
  have hop: "\<not> trusted demo_proxies (lit ''1.2.3.4'')" and peer: "trusted demo_proxies (lit ''10.0.0.1'')"
    by (simp_all add: trusted_def addr demo_addresses demo_proxies_eq)
  have split: "Split 44 (lit ''1.2.3.4'') = [lit ''1.2.3.4'']" by (rule Split_single) (simp add: lit_def)
  have ne: "lit ''1.2.3.4'' \<noteq> []" by (simp add: lit_def)
  have host: "remoteHost (lit ''10.0.0.1:443'') = lit ''10.0.0.1''"
    by (simp add: remoteHost_def SplitHostPort_def last_cut_def lit_def)
  have "octets 0x01020304 = [1, 2, 3, 4]"
    by (simp add: octets_def pieces_def upt_rec take_bit_eq_mod drop_bit_eq_div)
  then have key: "limiterKey (lit ''1.2.3.4'') = lit ''1.2.3.4''"
    unfolding limiterKey_def addr by (simp add: string4_def digits_of.simps lit_def)
  have one: "clientIP demo_proxies (lit ''10.0.0.1:443'') [lit ''1.2.3.4''] = lit ''1.2.3.4''"
    using peer hop ne by (simp add: clientIP_def clientAddr_def host split space addr key Let_def demo_proxies_eq)
  have "list_ex (\<lambda>hop. TrimSpace hop \<noteq> [] \<and> \<not> trusted demo_proxies (TrimSpace hop)) (Split 44 (lit ''1.2.3.4''))"
    using hop ne by (simp add: split space)
  from forged_hops_ignored [OF this, of "lit ''10.0.0.1:443''" "[]" "lit ''8.8.8.8''"] one
  show ?thesis by (simp add: lit_def)
qed

subsection \<open>Connections\<close>

text \<open>
  Claim (C30). However requests, upgrades, sessions and their ends interleave, the sessions that live never exceed the
  ceiling, nor those of one address its cap; when every call has returned, every counter is back where
  it began. And the program inside only ever takes the steps the rest of this development speaks of.
\<close>

theorem connections_capped:
  assumes "NewServer d cfg = (sv, f0)" "front_reach sv f0 f"
  shows "int (card (live (fr_world f))) \<le> sv_maxConns sv \<and>
    (0 < sv_maxConnsPerIP sv \<longrightarrow>
       int (card {c \<in> live (fr_world f). ss_remoteIP (w_sess (fr_world f) c) = ip}) \<le> sv_maxConnsPerIP sv \<and>
       fr_connsByIP f ip = slot (how_many (holds_slot ip) f)) \<and>
    fr_conns f = how_many (\<lambda>h. \<not> gone h) f \<and> server_reach (fr_world f0) (fr_world f)"
proof -
  have ok: "books_ok sv f" by (rule books_reach [OF assms(2) books_start [OF assms(1)]])
  have "int (card (live (fr_world f))) \<le> how_many admitted f"
    by (rule live_le [OF ok]) (auto simp: handler_kinds)
  moreover have "int (card {c \<in> live (fr_world f). ss_remoteIP (w_sess (fr_world f) c) = ip}) \<le> how_many (holds_slot ip) f"
    by (rule live_le [OF ok]) (auto simp: handler_kinds)
  moreover have "how_many admitted f \<le> sv_maxConns sv" "fr_conns f = how_many (\<lambda>h. \<not> gone h) f"
    using ok by (simp_all add: books_ok_def)
  ultimately show ?thesis using books_of [OF ok] front_reach_world [OF assms(2)] order_trans by blast
qed

text \<open>A server for one connection, and two requests: one is served, one turned away.\<close>

definition demo_server :: "server \<times> front" where
  "demo_server = NewServer demo_words
     \<lparr>cf_turnLimit = 15000000000, cf_graceFor = 30000000000, cf_idleFor = 0, cf_allowedOrigins = [], cf_webDir = [],
      cf_trustedProxies = [],
      cf_maxRooms = 0, cf_maxConnections = 1, cf_maxConnectionsPerIP = 1, cf_version = []\<rparr>"

definition demo_request :: request where
  "demo_request = \<lparr>rq_remoteAddr = [120], rq_forwarded = []\<rparr>"

definition demo_front :: front where
  "demo_front =
     (let (sv, f) = demo_server
      in ws_arrive sv demo_request (ws_upgrade [115] [116] 0 0 [120] (ws_admit sv 0 demo_request (ws_arrive sv demo_request f))))"

theorem connections_capped_witness:
  "int (card (live (fr_world demo_front))) \<le> 1 \<and> fr_handlers demo_front = [Serving [120] 0, Overfull] \<and>
   fr_conns demo_front = 2 \<and> fr_connsByIP demo_front [120] = Some 1"
proof -
  obtain sv f0 where new: "demo_server = (sv, f0)" by fastforce
  have sv: "sv_maxConns sv = 1" "sv_maxConnsPerIP sv = 1" "sv_proxies sv = []"
    and f0: "fr_conns f0 = 0" "fr_connsByIP f0 = Map.empty" "fr_handlers f0 = []" "w_conns (fr_world f0) = 0"
    using new by (auto simp: demo_server_def NewServer_def parsePrefixes_def map_filter_def start_world_def)
  have ip: "clientIP [] [120] [] = [120]"
    by (simp add: clientIP_def clientAddr_def remoteHost_def SplitHostPort_def last_cut_def limiterKey_def ParseAddr_def)
  define f1 where "f1 = ws_arrive sv demo_request f0"
  define f2 where "f2 = ws_admit sv 0 demo_request f1"
  define f3 where "f3 = ws_upgrade [115] [116] 0 0 [120] f2"
  have f1: "fr_conns f1 = 1" "fr_connsByIP f1 = Map.empty" "fr_handlers f1 = [Counted demo_request]"
      "fr_world f1 = fr_world f0"
    using f0 sv by (simp_all add: f1_def ws_arrive_def conns_add_def Let_def)
  have f2: "fr_conns f2 = 1" "fr_connsByIP f2 = [[120] \<mapsto> 1]" "fr_handlers f2 = [Reserved [120]]"
      "fr_world f2 = fr_world f0"
    using f1 sv ip by (simp_all add: f2_def ws_admit_def reserveIP_def connections_of_def demo_request_def set_handler_def Let_def)
  have f3: "fr_conns f3 = 1" "fr_connsByIP f3 = [[120] \<mapsto> 1]" "fr_handlers f3 = [Serving [120] 0]"
    using f2 f0 by (simp_all add: f3_def ws_upgrade_def set_handler_def Let_def)
  have front: "demo_front = ws_arrive sv demo_request f3"
    by (simp add: demo_front_def new f1_def f2_def f3_def)
  have "front_reach sv f0 f1" unfolding f1_def by (rule moved_on [OF front_reach.opened arrives])
  then have "front_reach sv f0 f2" unfolding f2_def
    by (rule moved_on) (rule admits, use f1 in \<open>simp add: handler_at_def\<close>)
  then have "front_reach sv f0 f3" unfolding f3_def
    by (rule moved_on) (rule upgrades, use f2 f0 in \<open>simp_all add: handler_at_def token_new_def\<close>)
  then have "front_reach sv f0 demo_front" unfolding front by (rule moved_on) (rule arrives)
  from connections_capped [OF new [unfolded demo_server_def] this, of "[120]"] sv
  show ?thesis using f3 sv by (simp add: front ws_arrive_def conns_add_def Let_def)
qed

subsection \<open>Files\<close>

text \<open>
  Claim (C31). Whatever path a request asks for, what is served is a file that lies below the configured directory:
  its path goes down from there only, and for a path as HTTP sends it, down by just that path.
\<close>

theorem static_confined:
  assumes "static_reply stat webDir urlPath = Asset immutable p"
  shows "stat p = Some False \<and> IsAbs p = IsAbs webDir \<and> immutable = HasPrefix urlPath immutablePrefix \<and>
    (\<exists>rest. elems p = elems (Clean webDir) @ rest \<and> dotdot \<notin> set rest \<and> (IsAbs urlPath \<longrightarrow> rest = elems (Clean urlPath)))"
proof -
  let ?dir = "Clean webDir"
  have p: "p = Join ?dir (Clean urlPath)" "stat p = Some False" "immutable = HasPrefix urlPath immutablePrefix"
      "underRoot ?dir p"
    using assms by (auto simp: static_reply_def Let_def split: if_splits)
  have c: "Clean p = p" using p(1) by (simp add: Join_def)
  obtain rest where rest: "elems p = elems ?dir @ rest" "rest = [] \<or> \<not> HasPrefix (hd rest) dotdot"
    using p(4) by (auto simp: underRoot_iff c)
  have "dotdot \<notin> set rest" by (rule rest_names [OF _ rest(2)]) (use elems_Clean(2) [of p] c rest(1) in simp)
  moreover have "IsAbs urlPath \<longrightarrow> rest = elems (Clean urlPath)" using elems_Join [of urlPath webDir] rest(1) p(1) by simp
  moreover have "IsAbs p = IsAbs webDir" using IsAbs_Join [of webDir] p(1) by simp
  ultimately show ?thesis using p rest(1) by blast
qed

theorem static_confined_witness:
  "static_reply (\<lambda>p. if p = lit ''/srv/web/app.js'' then Some False else None) (lit ''/srv/web/'') (lit ''/x/../app.js'') =
     Asset False (lit ''/srv/web/app.js'') \<and>
   (\<exists>rest. elems (lit ''/srv/web/app.js'') = elems (Clean (lit ''/srv/web/'')) @ rest \<and> dotdot \<notin> set rest)"
proof -
  have dir: "Clean (lit ''/srv/web/'') = lit ''/srv/web''"
    by (simp add: Clean_def IsAbs_def normal_def clean_step_def path_of_def lit_def dot_def dotdot_def)
  have url: "Clean (lit ''/x/../app.js'') = lit ''/app.js''"
    by (simp add: Clean_def IsAbs_def normal_def clean_step_def path_of_def lit_def dot_def dotdot_def)
  have join: "Join (lit ''/srv/web'') (lit ''/app.js'') = lit ''/srv/web/app.js''"
    by (simp add: Join_def Clean_def IsAbs_def normal_def clean_step_def path_of_def lit_def dot_def dotdot_def)
  have clean: "Clean (lit ''/srv/web'') = lit ''/srv/web''" "Clean (lit ''/srv/web/app.js'') = lit ''/srv/web/app.js''"
    by (simp_all add: Clean_def IsAbs_def normal_def clean_step_def path_of_def lit_def dot_def dotdot_def)
  have "underRoot (lit ''/srv/web'') (lit ''/srv/web/app.js'')"
    unfolding underRoot_iff clean by (simp add: IsAbs_def elems_def lit_def dot_def dotdot_def HasPrefix_def)
  then have served: "static_reply (\<lambda>p. if p = lit ''/srv/web/app.js'' then Some False else None) (lit ''/srv/web/'')
      (lit ''/x/../app.js'') = Asset False (lit ''/srv/web/app.js'')"
    by (simp add: static_reply_def dir url join) (simp add: HasPrefix_def immutablePrefix_def lit_def)
  from static_confined [OF this] served show ?thesis by blast
qed

text \<open>
  \<open>underRoot\<close> says less than its comment: a file below the root whose first name begins with two dots is refused too.
\<close>

lemma dotted_names_refused:
  assumes "IsAbs urlPath"
  shows "static_reply stat webDir urlPath = NotFound \<longleftrightarrow>
    elems (Clean urlPath) \<noteq> [] \<and> HasPrefix (hd (elems (Clean urlPath))) dotdot"
proof -
  let ?p = "Join (Clean webDir) (Clean urlPath)"
  have "Clean ?p = ?p" by (simp add: Join_def)
  then have "underRoot (Clean webDir) ?p \<longleftrightarrow>
      elems (Clean urlPath) = [] \<or> \<not> HasPrefix (hd (elems (Clean urlPath))) dotdot"
    by (simp add: underRoot_iff IsAbs_Join elems_Clean(3) elems_Join [OF assms])
  then show ?thesis by (auto simp: static_reply_def Let_def)
qed

subsection \<open>Frames\<close>

text \<open>
  Claim (C32). The socket takes the frames in the order they were queued. When the connection is torn down and no
  write has failed, every frame queued before the session was cancelled has been written before the socket is
  closed, and, unless the time to drain ran out, before the read is cancelled: so who is refused is told.
\<close>

theorem refusals_are_told:
  assumes "io_reach overdue s"
  shows "prefix (io_written s) (io_queued s) \<and>
    (io_closedAt s = Some n \<and> \<not> io_failed s \<and> (io_reader s = SocketClosed \<or> io_readCancelled s \<and> \<not> overdue) \<longrightarrow>
       prefix (take n (io_queued s)) (io_written s))"
proof -
  have inv: "io_inv overdue s" by (rule io_inv_reach [OF assms])
  then have pre: "prefix (io_written s) (io_queued s)" by (simp add: io_inv_def frames_inv_def)
  moreover have "prefix (take n (io_queued s)) (io_written s)"
    if "io_closedAt s = Some n" "\<not> io_failed s" "io_reader s = SocketClosed \<or> io_readCancelled s \<and> \<not> overdue"
  proof -
    have "io_writer s = Flushed" using inv that(3) by (auto simp: io_inv_def phases_inv_def)
    then have "n \<le> length (io_written s)" using inv that(1,2) by (simp add: io_inv_def mark_inv_def)
    then have "take n (io_queued s) = take n (io_written s)" using pre by (auto simp: prefix_def)
    then show ?thesis by (simp add: take_is_prefix)
  qed
  ultimately show ?thesis by blast
qed

text \<open>A refusal is queued, the session is closed at once, and the writer still sends it.\<close>

definition demo_refused :: socket_io where
  "demo_refused = (let s = writeLoop_done (io_close (io_enqueue (errorMsg codeHandshakeRequired) io_start));
     s = drain_turn True (drain_turn True s) in s\<lparr>io_readCancelled := True\<rparr>)"

theorem refusals_are_told_witness:
  "io_readCancelled demo_refused \<and> prefix [errorMsg codeHandshakeRequired] (io_written demo_refused)"
proof -
  let ?m = "errorMsg codeHandshakeRequired"
  define s1 where "s1 = io_enqueue ?m io_start"
  define s2 where "s2 = io_close s1"
  define s3 where "s3 = writeLoop_done s2"
  define s4 where "s4 = drain_turn True s3"
  define s5 where "s5 = drain_turn True s4"
  have s: "io_done s2" "io_writer s1 = Writing" "io_writer s2 = Writing" "io_writer s3 = Draining" "io_writer s4 = Draining"
      "io_writer s5 = Flushed" "io_done s5" "io_queued s5 = [?m]" "io_closedAt s5 = Some 1" "\<not> io_failed s5"
    by (simp_all add: s5_def s4_def s3_def s2_def s1_def io_start_def io_ops)
  have "io_reach False s1" unfolding s1_def
    by (rule io_next [OF io_init]) (rule queues, simp add: io_start_def outboxCap_def)
  then have "io_reach False s2" unfolding s2_def by (rule io_next) (rule closes)
  then have "io_reach False s3" unfolding s3_def by (rule io_next) (rule stops, use s in simp_all)
  then have "io_reach False s4" unfolding s4_def by (rule io_next) (rule drains, use s in simp)
  then have "io_reach False s5" unfolding s5_def by (rule io_next) (rule drains, use s in simp)
  then have "io_reach False (s5\<lparr>io_readCancelled := True\<rparr>)" by (rule io_next) (rule cancels_read, use s in simp_all)
  from refusals_are_told [OF this, of 1] s
  have p: "prefix [?m] (io_written (s5\<lparr>io_readCancelled := True\<rparr>))" by simp
  have d: "demo_refused = s5\<lparr>io_readCancelled := True\<rparr>"
    by (simp add: demo_refused_def s5_def s4_def s3_def s2_def s1_def)
  show ?thesis unfolding d using p by simp
qed

subsection \<open>The process\<close>

text \<open>
  Claim (C33). Whatever the environment holds, the clocks of the game are positive, and a signal ends the server in
  order: it drains, then polls the running games until there are none or the configured time is over, never
  longer, and only then tells the players, waits for that to leave, and closes its listeners.
\<close>

theorem shutdown_in_order:
  assumes "waitForGamesToFinish games coin (cc_drainTimeout (loadConfig e)) = (r, n, t)"
  shows "serve_acts False games coin (loadConfig e) =
      [ReleaseSignals, StartDraining] @ (if r = NoWait then [] else map LiveGameCount [0..<n + 1]) @
      [Shutdown, Sleep shutdownFlush, ShutdownDebug, ShutdownHTTP] \<and>
    0 < cc_turnLimit (loadConfig e) \<and> 0 < cc_grace (loadConfig e) \<and> 0 \<le> t \<and> t \<le> cc_drainTimeout (loadConfig e) \<and>
    (\<forall>j < n. games j \<noteq> 0) \<and>
    (case r of
       NoWait \<Rightarrow> cc_drainTimeout (loadConfig e) = 0
     | GamesOver \<Rightarrow> games n = 0
     | DrainTimedOut \<Rightarrow> games n \<noteq> 0 \<and> t = cc_drainTimeout (loadConfig e))"
proof -
  let ?T = "cc_drainTimeout (loadConfig e)"
  have T: "0 \<le> ?T" unfolding loadConfig_def envNonNegDuration_def by (simp add: envParsed_valid [of "\<lambda>d. 0 \<le> d"])
  have pos: "0 < cc_turnLimit (loadConfig e)" "0 < cc_grace (loadConfig e)"
    unfolding loadConfig_def envDuration_def
    by (simp_all add: envParsed_valid [of "\<lambda>d. 0 < d"] defaultTurnLimit_def defaultGrace_def)
  have acts: "serve_acts False games coin (loadConfig e) = [ReleaseSignals, StartDraining] @ wait_acts (r, n, t) @
      [Shutdown, Sleep shutdownFlush, ShutdownDebug, ShutdownHTTP]"
    using assms by (simp add: serve_acts_def drainAndShutdown_def) (simp add: loadConfig_def shutdownFlush_def)
  show ?thesis
  proof (cases "?T = 0")
    case True
    then have "r = NoWait" "n = 0" "t = 0" using assms by (simp_all add: waitForGamesToFinish_def)
    then show ?thesis using acts pos True by (simp add: wait_acts_def)
  next
    case False
    then have "wait_turn games coin ?T 0 = (r, n, t)" using assms T by (simp add: waitForGamesToFinish_def split: if_splits)
    from wait_turn_result [OF this] T have w: "t \<le> ?T" "\<forall>j < n. games j \<noteq> 0"
        "r = GamesOver \<and> games n = 0 \<and> t = int n * drainPollInterval \<or> r = DrainTimedOut \<and> games n \<noteq> 0 \<and> t = ?T"
      by auto
    then have "0 \<le> t" using T by (auto simp: drainPollInterval_def)
    moreover have "wait_acts (r, n, t) = (if r = NoWait then [] else map LiveGameCount [0..<n + 1])"
      using w(3) by (auto simp: wait_acts_def)
    ultimately show ?thesis using acts pos w by (auto split: wait_end.split)
  qed
qed

text \<open>One second to drain, and two games that are over at the third look.\<close>

definition demo_environment :: environment where
  "demo_environment = (\<lambda>key. if key = lit ''NOITU_DRAIN_TIMEOUT'' then lit ''1s'' else [])"

theorem shutdown_in_order_witness:
  "serve_acts False (\<lambda>k. 2 - int k) True (loadConfig demo_environment) =
     [ReleaseSignals, StartDraining, LiveGameCount 0, LiveGameCount 1, LiveGameCount 2, Shutdown, Sleep 2000000000,
      ShutdownDebug, ShutdownHTTP]"
proof -
  have "ParseDuration (lit ''1s'') = Some 1000000000"
    by (simp add: ParseDuration_def sum_units.simps one_unit_def lit_def is_decimal_def units_def digits_value_def Let_def)
  moreover have "TrimSpace (lit ''1s'') = lit ''1s''" by (rule TrimSpace_id) (simp add: trimmed_def lit_def is_space_def)
  moreover have "lit ''1s'' \<noteq> []" by (simp add: lit_def)
  ultimately have T: "cc_drainTimeout (loadConfig demo_environment) = 1000000000"
    by (simp add: loadConfig_def envNonNegDuration_def envParsed_def demo_environment_def Let_def)
  have "waitForGamesToFinish (\<lambda>k. 2 - int k) True 1000000000 = (GamesOver, 2, 400000000)"
    by (simp add: waitForGamesToFinish_def wait_turn.simps drainPollInterval_def Let_def)
  from shutdown_in_order [of "\<lambda>k. 2 - int k" True demo_environment, unfolded T, OF this]
  show ?thesis by (simp add: shutdownFlush_def upt_rec)
qed

end
