(* ===== verification/Codec.thy ===== *)
theory Codec
  imports Dispatch
begin

text \<open>
  \<open>server/internal/wsapi/codec.go\<close>, the frames: what of a frame off the socket reaches \<open>dispatch\<close>. The generated
  code that reads and writes messages is an argument, \<open>unmarshal\<close> and \<open>marshal\<close>, \<open>None\<close> being its error.
\<close>

type_synonym octets = "nat list"

datatype message_type = MessageText | MessageBinary

datatype codec_error = ErrNotBinary | DecodeFailed | EncodeFailed

definition Encode :: "(smsg \<Rightarrow> octets option) \<Rightarrow> smsg \<Rightarrow> codec_error + octets" where
  "Encode marshal m = (case marshal m of None \<Rightarrow> Inl EncodeFailed | Some raw \<Rightarrow> Inr raw)"

definition Decode :: "(octets \<Rightarrow> cmsg option) \<Rightarrow> message_type \<Rightarrow> octets \<Rightarrow> codec_error + cmsg" where
  "Decode unmarshal typ raw =
     (if typ \<noteq> MessageBinary then Inl ErrNotBinary
      else case unmarshal raw of None \<Rightarrow> Inl DecodeFailed | Some m \<Rightarrow> Inr m)"

text \<open>One turn of \<open>readLoop\<close>, from the frame the socket delivers.\<close>

definition readLoop_turn ::
  "(octets \<Rightarrow> cmsg option) \<Rightarrow> outside \<Rightarrow> conn \<Rightarrow> message_type \<Rightarrow> octets \<Rightarrow> world \<Rightarrow> read_error option \<times> world" where
  "readLoop_turn unmarshal ox c typ raw w =
     read_frame ox c (case Decode unmarshal typ raw of Inl _ \<Rightarrow> None | Inr msg \<Rightarrow> Some msg) w"

text \<open>
  A frame of text is never parsed: whatever it holds, the sender is told and the connection ends, as for a frame
  that does not decode.
\<close>

lemma text_frames_end:
  "readLoop_turn unmarshal ox c MessageText raw w = readLoop_turn (\<lambda>_. None) ox c MessageBinary raw' w"
  "fst (readLoop_turn unmarshal ox c MessageText raw w) \<noteq> None"
  by (auto simp: readLoop_turn_def Decode_def read_frame_def read_frame_by_def split: prod.split)

end
