(* ===== verification/Builder_Filter.thy ===== *)
theory Builder_Filter
  imports Vietnamese Go_Text
begin

text \<open>
  \<open>server/cmd/build-dictionary/filter.go\<close> and \<open>syllable.go\<close>: which entries of the source become words of the
  game. An entry is normalised as a typed word is, and must be made of Vietnamese syllables.
\<close>

subsection \<open>Syllables\<close>

text \<open>
  The inventories as the source lists them, before \<open>init\<close> sorts them. \<open>0x111\<close> is the letter d with a stroke.
  \<open>len\<close> counts bytes, so the sort does.
\<close>

definition utf8_len :: "str \<Rightarrow> nat" where
  "utf8_len s = sum_list (map (\<lambda>r. if r < 0x80 then 1 else if r < 0x800 then 2 else if r < 0x10000 then 3 else 4) s)"

definition byLengthDesc :: "str list \<Rightarrow> str list" where
  "byLengthDesc ss = sort_key (\<lambda>s. - int (utf8_len s)) ss"

definition vietnameseOnsets :: "str list" where
  "vietnameseOnsets = byLengthDesc
     [lit ''ngh'', lit ''ng'', lit ''nh'', lit ''ch'', lit ''gh'', lit ''gi'', lit ''kh'', lit ''ph'', lit ''qu'',
      lit ''th'', lit ''tr'', lit ''b'', lit ''c'', lit ''d'', [0x111], lit ''g'', lit ''h'', lit ''k'', lit ''l'',
      lit ''m'', lit ''n'', lit ''p'', lit ''r'', lit ''s'', lit ''t'', lit ''v'', lit ''x'']"

definition vietnameseCodas :: "str list" where
  "vietnameseCodas = byLengthDesc
     [lit ''ng'', lit ''nh'', lit ''ch'',
      lit ''c'', lit ''m'', lit ''n'', lit ''p'', lit ''t'', lit ''i'', lit ''o'', lit ''u'', lit ''y'']"

definition vietnameseNuclei :: "str list" where
  "vietnameseNuclei = byLengthDesc
     [lit ''uye'', lit ''uya'', lit ''uyu'', lit ''oai'', lit ''oay'', lit ''uoi'', lit ''uou'', lit ''ieu'',
      lit ''yeu'', lit ''uai'', lit ''uay'',
      lit ''ai'', lit ''ao'', lit ''au'', lit ''ay'', lit ''eo'', lit ''eu'', lit ''ia'', lit ''ie'', lit ''iu'',
      lit ''oa'', lit ''oe'', lit ''oi'', lit ''oo'',
      lit ''ua'', lit ''ue'', lit ''ui'', lit ''uo'', lit ''uu'', lit ''uy'', lit ''ya'', lit ''ye'', lit ''yu'',
      lit ''a'', lit ''e'', lit ''i'', lit ''o'', lit ''u'', lit ''y'']"

definition isCombiningMark :: "rune \<Rightarrow> bool" where
  "isCombiningMark r \<longleftrightarrow> 0x300 \<le> r \<and> r \<le> 0x36F"

text \<open>This \<open>stripDiacritics\<close> is the builder's own: it keeps the d with a stroke.\<close>

definition strip_marks :: "unicode \<Rightarrow> str \<Rightarrow> str" where
  "strip_marks u syllable = filter (\<lambda>r. \<not> isCombiningMark r) (nfd u syllable)"

definition parsesAsRhyme :: "str \<Rightarrow> bool" where
  "parsesAsRhyme rest =
     (if rest = [] then False
      else list_ex (\<lambda>nucleus.
             if \<not> prefix nucleus rest then False
             else let tail = drop (length nucleus) rest
                  in tail = [] \<or> list_ex (\<lambda>coda. tail = coda) vietnameseCodas)
           vietnameseNuclei)"

definition isVietnameseSyllable :: "unicode \<Rightarrow> str \<Rightarrow> bool" where
  "isVietnameseSyllable u syllable =
     (let base = strip_marks u syllable
      in if base = [] then False
         else let candidates = [] # filter (\<lambda>onset. prefix onset base) vietnameseOnsets
              in list_ex (\<lambda>onset. parsesAsRhyme (drop (length onset) base)) candidates)"

subsection \<open>The alphabet\<close>

definition vietnameseBaseLetters :: str where
  "vietnameseBaseLetters = lit ''abcdeghiklmnopqrstuvxy'' @ [0x111]"

text \<open>The loop, with whether a letter was seen.\<close>

fun alphabet_loop :: "unicode \<Rightarrow> str \<Rightarrow> bool \<Rightarrow> bool" where
  "alphabet_loop u [] sawLetter = sawLetter"
| "alphabet_loop u (r # rs) sawLetter =
     (if is_mn u r \<or> r = 32 then alphabet_loop u rs sawLetter
      else if r \<notin> set vietnameseBaseLetters then False
      else alphabet_loop u rs True)"

definition usesVietnameseAlphabet :: "unicode \<Rightarrow> str \<Rightarrow> bool" where
  "usesVietnameseAlphabet u word = alphabet_loop u (nfd u word) False"

subsection \<open>Acceptance\<close>

datatype rejectReason =
    rejectEmpty | rejectTooShort | rejectDigit | rejectPunct | rejectNonVietnam | rejectNotVietnamese

fun bad_rune :: "unicode \<Rightarrow> str \<Rightarrow> rejectReason option" where
  "bad_rune u [] = None"
| "bad_rune u (r # rs) =
     (if r = 32 then bad_rune u rs
      else if is_digit u r then Some rejectDigit
      else if is_punct u r \<or> is_symbol u r then Some rejectPunct
      else if \<not> is_letter u r then Some rejectPunct
      else bad_rune u rs)"

definition accept :: "unicode \<Rightarrow> str \<Rightarrow> rejectReason + (str \<times> str list)" where
  "accept u raw =
     (case Normalize u raw of
        None \<Rightarrow> Inl rejectEmpty
      | Some (word, syllables) \<Rightarrow>
          if \<not> HasEnoughSyllables syllables then Inl rejectTooShort
          else case bad_rune u word of
            Some reason \<Rightarrow> Inl reason
          | None \<Rightarrow>
              if \<not> usesVietnameseAlphabet u word then Inl rejectNonVietnam
              else if \<not> list_all (isVietnameseSyllable u) syllables then Inl rejectNonVietnam
              else Inr (word, syllables))"

subsection \<open>The parser accepts exactly the grammar\<close>

lemma set_byLengthDesc [simp]: "set (byLengthDesc ss) = set ss"
  by (simp add: byLengthDesc_def)

text \<open>An optional onset, a nucleus, an optional coda.\<close>

definition syllable_of :: "str \<Rightarrow> bool" where
  "syllable_of s \<longleftrightarrow> (\<exists>onset \<in> insert [] (set vietnameseOnsets). \<exists>nucleus \<in> set vietnameseNuclei.
     \<exists>coda \<in> insert [] (set vietnameseCodas). s = onset @ nucleus @ coda)"

lemma nuclei_ne: "n \<in> set vietnameseNuclei \<Longrightarrow> n \<noteq> []"
  by (auto simp: vietnameseNuclei_def lit_def)

lemma rhyme_iff:
  "parsesAsRhyme s \<longleftrightarrow> (\<exists>nucleus \<in> set vietnameseNuclei. \<exists>coda \<in> insert [] (set vietnameseCodas). s = nucleus @ coda)"
proof -
  have "(prefix n s \<and> (drop (length n) s = [] \<or> (\<exists>c \<in> set vietnameseCodas. drop (length n) s = c))) \<longleftrightarrow>
      (\<exists>c \<in> insert [] (set vietnameseCodas). s = n @ c)" for n
    by (auto simp: prefix_def)
  then have "s \<noteq> [] \<Longrightarrow> ?thesis" by (simp add: parsesAsRhyme_def list_ex_iff Let_def) blast
  moreover have "s = [] \<Longrightarrow> ?thesis" using nuclei_ne by (auto simp: parsesAsRhyme_def)
  ultimately show ?thesis by blast
qed

lemma isVietnameseSyllable_iff: "isVietnameseSyllable u s \<longleftrightarrow> syllable_of (strip_marks u s)"
proof -
  define b where "b = strip_marks u s"
  have ne: "syllable_of [] = False" using nuclei_ne by (auto simp: syllable_of_def)
  have whole: "prefix a b \<and> drop (length a) b = x \<longleftrightarrow> b = a @ x" for a x by (auto simp: prefix_def)
  have split: "(\<exists>n \<in> set vietnameseNuclei. \<exists>c \<in> insert [] (set vietnameseCodas). prefix a b \<and> drop (length a) b = n @ c) \<longleftrightarrow>
      (\<exists>n \<in> set vietnameseNuclei. \<exists>c \<in> insert [] (set vietnameseCodas). b = a @ n @ c)" for a
    by (simp only: whole)
  have "isVietnameseSyllable u s \<longleftrightarrow> b \<noteq> [] \<and> (\<exists>a \<in> insert [] (set vietnameseOnsets). prefix a b \<and> parsesAsRhyme (drop (length a) b))"
    by (auto simp: isVietnameseSyllable_def Let_def b_def [symmetric] list_ex_iff)
  also have "\<dots> \<longleftrightarrow> b \<noteq> [] \<and> (\<exists>a \<in> insert [] (set vietnameseOnsets). \<exists>n \<in> set vietnameseNuclei.
      \<exists>c \<in> insert [] (set vietnameseCodas). b = a @ n @ c)"
    using split unfolding rhyme_iff by blast
  also have "\<dots> \<longleftrightarrow> syllable_of b" using ne by (cases "b = []") (simp_all add: syllable_of_def)
  finally show ?thesis by (simp add: b_def)
qed

lemma alphabet_loop_iff:
  "alphabet_loop u s saw \<longleftrightarrow> (\<forall>r \<in> set s. is_mn u r \<or> r = 32 \<or> r \<in> set vietnameseBaseLetters) \<and>
     (saw \<or> (\<exists>r \<in> set s. \<not> is_mn u r \<and> r \<noteq> 32))"
  by (induction s arbitrary: saw) auto

lemma bad_rune_None:
  "bad_rune u s = None \<longleftrightarrow> (\<forall>r \<in> set s. r = 32 \<or>
     is_letter u r \<and> \<not> is_digit u r \<and> \<not> is_punct u r \<and> \<not> is_symbol u r)"
  by (induction s) auto

lemma accept_Inr:
  "accept u raw = Inr (w, ss) \<longleftrightarrow> Normalize u raw = Some (w, ss) \<and> HasEnoughSyllables ss \<and> bad_rune u w = None \<and>
     usesVietnameseAlphabet u w \<and> list_all (isVietnameseSyllable u) ss"
  by (auto simp: accept_def split: option.splits if_splits)

lemma accept_idem: "unicode_laws u \<Longrightarrow> accept u raw = Inr (w, ss) \<Longrightarrow> accept u w = Inr (w, ss)"
  using Normalize_idem by (auto simp: accept_Inr)

end
