(* ===== verification/Builder_Aliases.thy ===== *)
theory Builder_Aliases
  imports Builder_Filter "HOL-Library.AList" "HOL-Library.Multiset"
begin

text \<open>
  \<open>server/cmd/build-dictionary/aliases.go\<close>, and \<open>buildAliases\<close> of \<open>main.go\<close>: the other spellings of a word a
  player may type. A tone mark has two places in an open oa, oe or uy; a lone i or y has two spellings
  after some onsets.
\<close>

subsection \<open>Clusters\<close>

text \<open>The five tones, and the marks that make another letter.\<close>

definition toneMarks :: "rune set" where "toneMarks = {0x300, 0x301, 0x303, 0x309, 0x323}"
definition letterMarks :: "rune set" where "letterMarks = {0x302, 0x306, 0x31B}"

record cluster =
  cl_base :: rune
  cl_mods :: "rune list"

definition cl_tone :: "cluster \<Rightarrow> rune option" where
  "cl_tone c = List.find (\<lambda>m. m \<in> toneMarks) (cl_mods c)"

definition hasLetterMark :: "cluster \<Rightarrow> bool" where
  "hasLetterMark c = list_ex (\<lambda>m. m \<in> letterMarks) (cl_mods c)"

definition without :: "cluster \<Rightarrow> rune \<Rightarrow> cluster" where
  "without c target = \<lparr>cl_base = cl_base c, cl_mods = filter (\<lambda>m. m \<noteq> target) (cl_mods c)\<rparr>"

definition with_mark :: "cluster \<Rightarrow> rune \<Rightarrow> cluster" where
  "with_mark c extra = \<lparr>cl_base = cl_base c, cl_mods = cl_mods c @ [extra]\<rparr>"

definition decompose_step :: "cluster list \<Rightarrow> rune \<Rightarrow> cluster list" where
  "decompose_step clusters r =
     (if (r \<in> toneMarks \<or> r \<in> letterMarks) \<and> clusters \<noteq> []
      then butlast clusters @ [(List.last clusters)\<lparr>cl_mods := cl_mods (List.last clusters) @ [r]\<rparr>]
      else clusters @ [\<lparr>cl_base = r, cl_mods = []\<rparr>])"

definition decompose :: "unicode \<Rightarrow> str \<Rightarrow> cluster list" where
  "decompose u syllable = foldl decompose_step [] (nfd u syllable)"

definition recompose :: "unicode \<Rightarrow> cluster list \<Rightarrow> str" where
  "recompose u clusters = nfc u (concat (map (\<lambda>c. cl_base c # cl_mods c) clusters))"

subsection \<open>Moving the tone\<close>

definition shiftablePairs :: "(rune \<times> rune) list" where
  "shiftablePairs = [(111, 97), (111, 101), (117, 121)]"

definition isShiftablePair :: "rune \<Rightarrow> rune \<Rightarrow> bool" where
  "isShiftablePair a b = list_ex (\<lambda>p. fst p = a \<and> snd p = b) shiftablePairs"

text \<open>One round of the loop: \<open>None\<close> goes on to the next.\<close>

definition shift_at :: "unicode \<Rightarrow> cluster list \<Rightarrow> nat \<Rightarrow> str option" where
  "shift_at u clusters i =
     (let first = clusters ! i; second = clusters ! (i + 1)
      in if hasLetterMark first \<or> hasLetterMark second then None
         else if \<not> isShiftablePair (cl_base first) (cl_base second) then None
         else if i + 1 \<noteq> length clusters - 1 then None
         else if cl_base first = 117 \<and> i > 0 \<and> cl_base (clusters ! (i - 1)) = 113 then None
         else case cl_tone first of
           Some tone \<Rightarrow> Some (recompose u (clusters[i := without first tone, i + 1 := with_mark second tone]))
         | None \<Rightarrow>
             (case cl_tone second of
                Some tone \<Rightarrow> Some (recompose u (clusters[i := with_mark first tone, i + 1 := without second tone]))
              | None \<Rightarrow> None))"

fun first_some :: "('a \<Rightarrow> 'b option) \<Rightarrow> 'a list \<Rightarrow> 'b option" where
  "first_some f [] = None"
| "first_some f (x # xs) = (case f x of None \<Rightarrow> first_some f xs | Some y \<Rightarrow> Some y)"

definition toneShiftVariant :: "unicode \<Rightarrow> str \<Rightarrow> str option" where
  "toneShiftVariant u syllable =
     (let clusters = decompose u syllable in first_some (shift_at u clusters) [0..<length clusters - 1])"

subsection \<open>i and y\<close>

definition iyOnsets :: "str set" where
  "iyOnsets = {lit ''h'', lit ''k'', lit ''l'', lit ''m'', lit ''t'', lit ''qu''}"

text \<open>\<open>0x129\<close> is i with a tilde, \<open>0x1EF9\<close> is y with one.\<close>

definition iyPairs :: "(str \<times> str) list" where
  "iyPairs = [([115, 0x129], [115, 0x1EF9]), ([115, 0x1EF9], [115, 0x129]),
              ([118, 0x129], [118, 0x1EF9]), ([118, 0x1EF9], [118, 0x129])]"

definition iyVariant :: "unicode \<Rightarrow> str \<Rightarrow> str option" where
  "iyVariant u syllable =
     (case map_of iyPairs syllable of
        Some pair \<Rightarrow> Some pair
      | None \<Rightarrow>
          (let clusters = decompose u syllable
           in if length clusters < 2 then None
              else let nucleus = List.last clusters; before = butlast clusters
                   in if hasLetterMark nucleus then None
                      else if cl_base nucleus \<noteq> 105 \<and> cl_base nucleus \<noteq> 121 then None
                      else let swapped = (if cl_base nucleus = 105 then 121 else 105)
                           in if list_ex hasLetterMark before then None
                              else if map cl_base before \<notin> iyOnsets then None
                              else Some (recompose u (before @ [\<lparr>cl_base = swapped, cl_mods = cl_mods nucleus\<rparr>]))))"

subsection \<open>All spellings\<close>

definition maxVariantsPerWord :: nat where "maxVariantsPerWord = 32"

definition add_spelling :: "str list \<Rightarrow> str option \<Rightarrow> str list" where
  "add_spelling out alt = (case alt of None \<Rightarrow> out | Some s \<Rightarrow> if s \<in> set out then out else out @ [s])"

definition spellingsOf :: "unicode \<Rightarrow> str \<Rightarrow> str list" where
  "spellingsOf u syllable =
     foldl add_spelling [syllable] (map (\<lambda>gen. gen u syllable) [toneShiftVariant, iyVariant])"

text \<open>One syllable more: every combination so far with every spelling, up to the cap.\<close>

definition extend_combos :: "str list list \<Rightarrow> str list \<Rightarrow> str list list" where
  "extend_combos combos spellings =
     foldl (\<lambda>next pre. foldl (\<lambda>next s. if length next \<ge> maxVariantsPerWord then next else next @ [pre @ [s]])
              next spellings)
       [] combos"

definition variantsFor :: "unicode \<Rightarrow> str \<Rightarrow> str list" where
  "variantsFor u word =
     (let combos = foldl (\<lambda>combos syl. extend_combos combos (spellingsOf u syl)) [[]] (Split 32 word);
          (seen, out) = foldl (\<lambda>(seen, out) combo.
              let joined = join_sp combo
              in if joined \<in> seen then (seen, out) else (insert joined seen, out @ [joined])) ({word}, []) combos
      in out)"

subsection \<open>Aliases\<close>

record entry =
  en_word :: str
  en_first :: str
  en_last :: str
  en_syllables :: nat

text \<open>
  The aliases so far, the spellings more than one word claims, and how many claims were turned down. A Go map is
  an association list; \<open>ord\<close> is the order the map of words is ranged over.
\<close>

record alias_state =
  al_aliases :: "(str \<times> str) list"
  al_poisoned :: "str set"
  al_collisions :: nat

definition claim_variant :: "(str \<times> entry) list \<Rightarrow> str \<Rightarrow> str \<Rightarrow> alias_state \<Rightarrow> alias_state" where
  "claim_variant ws word variant s =
     (if variant \<in> al_poisoned s then s
      else if map_of ws variant \<noteq> None then s\<lparr>al_collisions := al_collisions s + 1\<rparr>
      else case map_of (al_aliases s) variant of
        Some existing \<Rightarrow>
          if existing \<noteq> word
          then s\<lparr>al_aliases := AList.delete variant (al_aliases s),
                 al_poisoned := insert variant (al_poisoned s), al_collisions := al_collisions s + 1\<rparr>
          else s\<lparr>al_aliases := AList.update variant word (al_aliases s)\<rparr>
      | None \<Rightarrow> s\<lparr>al_aliases := AList.update variant word (al_aliases s)\<rparr>)"

definition buildAliases ::
  "unicode \<Rightarrow> (str list \<Rightarrow> str list) \<Rightarrow> (str \<times> entry) list \<Rightarrow> (str \<times> str) list \<times> nat" where
  "buildAliases u ord ws =
     (let s = fold (\<lambda>word. fold (claim_variant ws word) (variantsFor u word)) (ord (map fst ws))
            \<lparr>al_aliases = [], al_poisoned = {}, al_collisions = 0\<rparr>
      in (al_aliases s, al_collisions s))"

subsection \<open>The combinations\<close>

lemma capped_append:
  "foldl (\<lambda>next s. if length next \<ge> n then next else next @ [f s]) acc ss = acc @ take (n - length acc) (map f ss)"
proof (induction ss arbitrary: acc)
  case (Cons s ss)
  then show ?case by (cases "length acc \<ge> n") (auto simp: take_Cons' Suc_diff_Suc)
qed simp

lemma extend_combos_take:
  "extend_combos combos spellings = take maxVariantsPerWord (concat (map (\<lambda>pre. map (\<lambda>s. pre @ [s]) spellings) combos))"
proof -
  have "foldl (\<lambda>next pre. next @ take (n - length next) (map (\<lambda>s. pre @ [s]) spellings)) acc combos =
      acc @ take (n - length acc) (concat (map (\<lambda>pre. map (\<lambda>s. pre @ [s]) spellings) combos))" for n acc
  proof (induction combos arbitrary: acc)
    case (Cons pre combos)
    show ?case by (simp add: Cons.IH) (simp add: min_def split: if_splits)
  qed simp
  from this [of maxVariantsPerWord "[]"] show ?thesis by (simp add: extend_combos_def capped_append)
qed

lemma take_concat_take: "\<forall>x. f x \<noteq> [] \<Longrightarrow> take n (concat (map f (take n xs))) = take n (concat (map f xs))"
proof (induction xs arbitrary: n)
  case (Cons x xs)
  show ?case
  proof (cases n)
    case (Suc k)
    have f: "f x \<noteq> []" using Cons.prems by blast
    define m where "m = n - length (f x)"
    have m: "m \<le> k" using f Suc by (cases "f x") (auto simp: m_def)
    have "take m (concat (map f (take k xs))) = take m (take k (concat (map f (take k xs))))" using m by (simp add: min_def)
    also have "\<dots> = take m (take k (concat (map f xs)))" using Cons by simp
    also have "\<dots> = take m (concat (map f xs))" using m by (simp add: min_def)
    finally show ?thesis by (simp add: Suc m_def)
  qed simp
qed simp

lemma product_snoc:
  "concat (map (\<lambda>pre. map (\<lambda>s. pre @ [s]) ys) (product_lists xss)) = product_lists (xss @ [ys])"
proof (induction xss)
  case (Cons xs xss)
  have "concat (map (\<lambda>pre. map (\<lambda>s. pre @ [s]) ys) (map ((#) x) (product_lists xss))) =
      map ((#) x) (product_lists (xss @ [ys]))" for x
    by (simp add: Cons.IH [symmetric] map_concat o_def)
  then show ?case by (induction xs) (simp_all add: o_def)
qed simp

text \<open>Capping after each syllable is capping once: nothing among the first combinations is lost.\<close>

lemma combos_product:
  assumes "\<forall>ys \<in> set yss. ys \<noteq> []" and "combos = take maxVariantsPerWord (product_lists xss)"
  shows "foldl extend_combos combos yss = take maxVariantsPerWord (product_lists (xss @ yss))"
  using assms
proof (induction yss arbitrary: combos xss)
  case (Cons ys yss)
  have "extend_combos combos ys = take maxVariantsPerWord (product_lists (xss @ [ys]))"
    using take_concat_take [of "\<lambda>pre. map (\<lambda>s. pre @ [s]) ys"] Cons.prems
    by (simp add: extend_combos_take product_snoc)
  then show ?case using Cons by simp
qed simp

lemma add_spelling_hd: "out \<noteq> [] \<Longrightarrow> add_spelling out alt \<noteq> [] \<and> hd (add_spelling out alt) = hd out \<and>
    (distinct out \<longrightarrow> distinct (add_spelling out alt)) \<and>
    set (add_spelling out alt) = set out \<union> set_option alt"
  by (auto simp: add_spelling_def split: option.split)

lemma spellingsOf_facts:
  "spellingsOf u s \<noteq> []" "hd (spellingsOf u s) = s" "distinct (spellingsOf u s)"
  "set (spellingsOf u s) = {s} \<union> set_option (toneShiftVariant u s) \<union> set_option (iyVariant u s)"
  using add_spelling_hd [of "[s]" "toneShiftVariant u s"] add_spelling_hd [of "add_spelling [s] (toneShiftVariant u s)" "iyVariant u s"]
  by (simp_all add: spellingsOf_def)

text \<open>The loop that drops repetitions.\<close>

lemma fresh_loop:
  fixes f :: "'b \<Rightarrow> 'a"
  assumes "foldl (\<lambda>(seen, out) c. let j = f c in if j \<in> seen then (seen, out) else (insert j seen, out @ [j])) (seen, out) cs = (seen', out')"
    and "set out \<subseteq> seen" and "distinct out"
  shows "distinct out' \<and> set out' = set out \<union> (f ` set cs - seen) \<and> length out' \<le> length out + length cs \<and>
    (cs \<noteq> [] \<and> f (hd cs) \<in> seen \<longrightarrow> length out' < length out + length cs)"
  using assms
proof (induction cs arbitrary: seen out)
  case (Cons c cs)
  show ?case
  proof (cases "f c \<in> seen")
    case True
    then have "distinct out' \<and> set out' = set out \<union> (f ` set cs - seen) \<and> length out' \<le> length out + length cs"
      using Cons.IH [of seen out] Cons.prems by simp
    then show ?thesis using True by auto
  next
    case False
    then have "distinct out' \<and> set out' = set (out @ [f c]) \<union> (f ` set cs - insert (f c) seen) \<and>
        length out' \<le> length (out @ [f c]) + length cs"
      using Cons.IH [of "insert (f c) seen" "out @ [f c]"] Cons.prems by (auto simp: Let_def)
    then show ?thesis using False by auto
  qed
qed simp

lemma variantsFor_facts:
  fixes u :: unicode and word :: str
  defines "spellings \<equiv> \<lambda>word. map (spellingsOf u) (Split 32 word)"
  shows "distinct (variantsFor u word)"
    and "set (variantsFor u word) = join_sp ` set (take maxVariantsPerWord (product_lists (spellings word))) - {word}"
    and "length (variantsFor u word) < maxVariantsPerWord"
proof -
  define combos where "combos = take maxVariantsPerWord (product_lists (spellings word))"
  obtain seen out where loop: "foldl (\<lambda>(seen, out) combo. let joined = join_sp combo
      in if joined \<in> seen then (seen, out) else (insert joined seen, out @ [joined])) ({word}, []) combos = (seen, out)" by fastforce
  have "foldl (\<lambda>combos syl. extend_combos combos (spellingsOf u syl)) [[]] (Split 32 word) = foldl extend_combos [[]] (spellings word)"
    by (simp add: spellings_def foldl_map)
  also have "\<dots> = combos"
    using combos_product [of "spellings word" "[[]]" "[]"] by (simp add: combos_def spellings_def spellingsOf_facts(1) maxVariantsPerWord_def)
  finally have v: "variantsFor u word = out" using loop by (simp add: variantsFor_def)
  have hd: "xss \<noteq> [] \<Longrightarrow> \<forall>xs \<in> set xss. xs \<noteq> [] \<Longrightarrow> product_lists xss \<noteq> [] \<and> hd (product_lists xss) = map hd xss" for xss :: "str list list"
  proof (induction xss)
    case (Cons xs xss)
    then show ?case by (cases "xss = []"; cases xs) (auto simp: hd_append hd_map)
  qed simp
  have ne: "spellings word \<noteq> []" "\<forall>xs \<in> set (spellings word). xs \<noteq> []" by (simp_all add: spellings_def spellingsOf_facts(1))
  have "map hd (spellings word) = Split 32 word" by (simp add: spellings_def spellingsOf_facts(2) o_def)
  then have c: "combos \<noteq> []" "join_sp (hd combos) = word"
    using hd [OF ne] by (simp_all add: combos_def maxVariantsPerWord_def join_Split)
  have "length combos \<le> maxVariantsPerWord" by (simp add: combos_def)
  then show "distinct (variantsFor u word)" "length (variantsFor u word) < maxVariantsPerWord"
      "set (variantsFor u word) = join_sp ` set (take maxVariantsPerWord (product_lists (spellings word))) - {word}"
    using fresh_loop [OF loop] c by (auto simp: v combos_def [symmetric])
qed

subsection \<open>Who gets an alias\<close>

text \<open>All claims of a build, in the order they are made.\<close>

definition claims :: "unicode \<Rightarrow> str list \<Rightarrow> (str \<times> str) list" where
  "claims u order = concat (map (\<lambda>word. map (Pair word) (variantsFor u word)) order)"

definition make_claims :: "(str \<times> entry) list \<Rightarrow> (str \<times> str) list \<Rightarrow> alias_state" where
  "make_claims ws cs = fold (\<lambda>(word, variant). claim_variant ws word variant) cs
     \<lparr>al_aliases = [], al_poisoned = {}, al_collisions = 0\<rparr>"

lemma buildAliases_claims:
  "buildAliases u ord ws = (let s = make_claims ws (claims u (ord (map fst ws))) in (al_aliases s, al_collisions s))"
proof -
  have "fold (\<lambda>word. fold (claim_variant ws word) (variantsFor u word)) order s =
      fold (\<lambda>(word, variant). claim_variant ws word variant) (claims u order) s" for order s
    by (induction order arbitrary: s) (simp_all add: claims_def fold_map o_def)
  then show ?thesis by (simp add: buildAliases_def make_claims_def)
qed

lemma claims_distinct: "distinct order \<Longrightarrow> distinct (claims u order)"
  by (induction order) (auto simp: claims_def distinct_map variantsFor_facts(1) inj_on_def)

lemma set_claims: "(w, v) \<in> set (claims u order) \<longleftrightarrow> w \<in> set order \<and> v \<in> set (variantsFor u w)"
  by (auto simp: claims_def)

text \<open>The claimants of a spelling, and whether it is a word itself.\<close>

definition claimants :: "(str \<times> str) list \<Rightarrow> str \<Rightarrow> str set" where
  "claimants cs v = {w. (w, v) \<in> set cs}"

lemma finite_claimants [simp]: "finite (claimants cs v)"
  by (rule finite_subset [of _ "fst ` set cs"]) (force simp: claimants_def)+

lemma not_singleton_empty [simp]: "\<not> is_singleton {}"
  by (simp add: is_singleton_def)

lemma only_claimant: "(if P \<and> is_singleton X then Some (the_elem X) else None) = Some w \<longleftrightarrow> P \<and> X = {w}"
  by (auto simp: is_singleton_def)

definition settled_claims :: "(str \<times> entry) list \<Rightarrow> (str \<times> str) list \<Rightarrow> alias_state \<Rightarrow> bool" where
  "settled_claims ws cs s \<longleftrightarrow> distinct (map fst (al_aliases s)) \<and>
     (\<forall>v. map_of (al_aliases s) v = (if map_of ws v = None \<and> is_singleton (claimants cs v)
        then Some (the_elem (claimants cs v)) else None)) \<and>
     al_poisoned s = {v. map_of ws v = None \<and> 2 \<le> card (claimants cs v)} \<and>
     al_collisions s = length (filter (\<lambda>(w, v). map_of ws v \<noteq> None) cs) + card (al_poisoned s)"

lemma map_of_delete: "map_of (AList.delete k m) = (map_of m)(k := None)"
  by (rule delete_conv')

lemma claim_settled:
  assumes "settled_claims ws cs s" and "(w, v) \<notin> set cs"
  shows "settled_claims ws (cs @ [(w, v)]) (claim_variant ws w v s)"
proof -
  define C where "C = claimants cs"
  have C': "claimants (cs @ [(w, v)]) = C(v := insert w (C v))" by (auto simp: C_def claimants_def fun_eq_iff)
  have new: "w \<notin> C v" using assms(2) by (simp add: C_def claimants_def)
  have fin: "finite (C x)" for x by (simp add: C_def)
  note inv = assms(1) [unfolded settled_claims_def, folded C_def]
  have finp: "finite (al_poisoned s)"
  proof (rule finite_subset)
    have "C x = {}" if "x \<notin> snd ` set cs" for x using that by (force simp: C_def claimants_def)
    then show "al_poisoned s \<subseteq> snd ` set cs" using inv by fastforce
  qed simp
  consider (real) "map_of ws v \<noteq> None" | (many) "map_of ws v = None" "2 \<le> card (C v)"
    | (one) x where "map_of ws v = None" "C v = {x}" | (none) "map_of ws v = None" "C v = {}"
  proof (cases "map_of ws v = None")
    case True
    consider "card (C v) = 0" | "card (C v) = 1" | "2 \<le> card (C v)" by linarith
    then show ?thesis
    proof cases
      case 2
      then show ?thesis using True one by (metis card_1_singletonE)
    qed (use True many none fin in auto)
  qed (use real in blast)
  then show ?thesis
  proof cases
    case real
    then have "claim_variant ws w v s = s\<lparr>al_collisions := al_collisions s + 1\<rparr>" using inv by (auto simp: claim_variant_def)
    then show ?thesis using inv real by (auto simp: settled_claims_def C')
  next
    case many
    then have "claim_variant ws w v s = s" using inv by (auto simp: claim_variant_def)
    moreover have "\<not> is_singleton (insert w (C v))" "\<not> is_singleton (C v)" "2 \<le> card (insert w (C v))"
      using many(2) new fin by (auto simp: is_singleton_altdef)
    ultimately show ?thesis using inv many by (auto simp: settled_claims_def C')
  next
    case one
    then have "map_of (al_aliases s) v = Some x" "v \<notin> al_poisoned s" "x \<noteq> w" using inv new by auto
    then have "claim_variant ws w v s = s\<lparr>al_aliases := AList.delete v (al_aliases s),
        al_poisoned := insert v (al_poisoned s), al_collisions := al_collisions s + 1\<rparr>"
      using one by (simp add: claim_variant_def)
    moreover have "\<not> is_singleton (insert w (C v))" "2 \<le> card (insert w (C v))"
      using one(2) \<open>x \<noteq> w\<close> by (auto simp: is_singleton_altdef)
    ultimately show ?thesis using inv one finp \<open>v \<notin> al_poisoned s\<close>
      by (auto simp: settled_claims_def C' map_of_delete distinct_delete)
  next
    case none
    then have "map_of (al_aliases s) v = None" "v \<notin> al_poisoned s" using inv by auto
    then have "claim_variant ws w v s = s\<lparr>al_aliases := AList.update v w (al_aliases s)\<rparr>"
      using none by (simp add: claim_variant_def)
    then show ?thesis using inv none
      by (auto simp: settled_claims_def C' update_conv' distinct_update)
  qed
qed

lemma make_claims_settled: "distinct cs \<Longrightarrow> settled_claims ws cs (make_claims ws cs)"
proof (induction cs rule: rev_induct)
  case Nil
  then show ?case by (simp add: settled_claims_def make_claims_def claimants_def is_singleton_def)
next
  case (snoc c cs)
  obtain w v where "c = (w, v)" by (cases c)
  then show ?case using snoc claim_settled [of ws cs "make_claims ws cs" w v] by (simp add: make_claims_def)
qed

text \<open>A spelling is an alias of a word exactly when it is no word and the word is the only one that claims it.\<close>

lemma buildAliases_alias:
  assumes "distinct (map fst ws)" and "mset (ord (map fst ws)) = mset (map fst ws)"
  shows "distinct (map fst (fst (buildAliases u ord ws)))"
    and "map_of (fst (buildAliases u ord ws)) v = Some w \<longleftrightarrow>
      map_of ws v = None \<and> {w'. map_of ws w' \<noteq> None \<and> v \<in> set (variantsFor u w')} = {w}"
    and "snd (buildAliases u ord ws) = card {(w, v). map_of ws w \<noteq> None \<and> v \<in> set (variantsFor u w) \<and> map_of ws v \<noteq> None} +
      card {v. map_of ws v = None \<and> 2 \<le> card {w. map_of ws w \<noteq> None \<and> v \<in> set (variantsFor u w)}}"
proof -
  define cs where "cs = claims u (ord (map fst ws))"
  have set: "set (ord (map fst ws)) = fst ` set ws" using assms(2) by (metis list.set_map mset_eq_setD)
  have "distinct (ord (map fst ws))" using assms by (metis mset_eq_imp_distinct_iff)
  then have d: "distinct cs" by (simp add: cs_def claims_distinct)
  have m: "(w, v) \<in> set cs \<longleftrightarrow> map_of ws w \<noteq> None \<and> v \<in> set (variantsFor u w)" for w v
    by (simp add: cs_def set_claims set map_of_eq_None_iff)
  then have C: "claimants cs v = {w. map_of ws w \<noteq> None \<and> v \<in> set (variantsFor u w)}" for v by (simp add: claimants_def)
  have inv: "settled_claims ws cs (make_claims ws cs)" by (rule make_claims_settled [OF d])
  have b: "buildAliases u ord ws = (al_aliases (make_claims ws cs), al_collisions (make_claims ws cs))"
    by (simp add: buildAliases_claims cs_def Let_def)
  have al: "map_of (al_aliases (make_claims ws cs)) v =
      (if map_of ws v = None \<and> is_singleton (claimants cs v) then Some (the_elem (claimants cs v)) else None)"
    using inv by (simp add: settled_claims_def)
  show "distinct (map fst (fst (buildAliases u ord ws)))" using inv by (simp add: b settled_claims_def)
  show "map_of (fst (buildAliases u ord ws)) v = Some w \<longleftrightarrow>
      map_of ws v = None \<and> {w'. map_of ws w' \<noteq> None \<and> v \<in> set (variantsFor u w')} = {w}"
    unfolding C [symmetric] b fst_conv al by (rule only_claimant)
  have "length (filter (\<lambda>(w, v). map_of ws v \<noteq> None) cs) = card (set (filter (\<lambda>(w, v). map_of ws v \<noteq> None) cs))"
    using d by (intro distinct_card [symmetric]) simp
  also have "set (filter (\<lambda>(w, v). map_of ws v \<noteq> None) cs) =
      {(w, v). map_of ws w \<noteq> None \<and> v \<in> set (variantsFor u w) \<and> map_of ws v \<noteq> None}" by (auto simp: m)
  finally show "snd (buildAliases u ord ws) = card {(w, v). map_of ws w \<noteq> None \<and> v \<in> set (variantsFor u w) \<and> map_of ws v \<noteq> None} +
      card {v. map_of ws v = None \<and> 2 \<le> card {w. map_of ws w \<noteq> None \<and> v \<in> set (variantsFor u w)}}"
    using inv by (simp add: b settled_claims_def C)
qed

end
