(* ===== verification/Builder_Corpus.thy ===== *)
theory Builder_Corpus
  imports Builder_Aliases
begin

text \<open>
  \<open>server/cmd/build-dictionary/corpus.go\<close>, and the word-list reader of \<open>main.go\<close>: the dictionary as text, written
  after a dump build and read back by the build of the image. Counters that are only logged are not modelled.
\<close>

subsection \<open>Senses\<close>

record gloss_sense =
  gs_pos :: str
  gs_gloss :: str

definition maxSenses :: nat where "maxSenses = 5"
definition maxGlossRunes :: nat where "maxGlossRunes = 200"
definition ellipsis :: str where "ellipsis = [0x2026]"

text \<open>\<open>strings.LastIndexByte\<close> at a space: what comes before the last one, if one is there.\<close>

fun before_last_space :: "str \<Rightarrow> str option" where
  "before_last_space [] = None"
| "before_last_space (r # rs) =
     (case before_last_space rs of
        Some s \<Rightarrow> Some (r # s)
      | None \<Rightarrow> if r = 32 then Some [] else None)"

text \<open>A cut at the very front is none.\<close>

definition capGloss :: "str \<Rightarrow> str \<times> bool" where
  "capGloss s =
     (if length s \<le> maxGlossRunes then (s, False)
      else let head = take (maxGlossRunes - length ellipsis) s;
               head = (case before_last_space head of None \<Rightarrow> head | Some h \<Rightarrow> if h = [] then head else h)
           in (TrimRightFunc (\<lambda>r. r \<in> {32, 44, 59, 58}) head @ ellipsis, True))"

definition parse_cell :: "str \<Rightarrow> gloss_sense option" where
  "parse_cell cell =
     (let cell = TrimSpace cell
      in if cell = [] then None
         else let s = (case Cut 124 cell of
                  None \<Rightarrow> \<lparr>gs_pos = [], gs_gloss = cell\<rparr>
                | Some (pos, gloss) \<Rightarrow> \<lparr>gs_pos = TrimSpace pos, gs_gloss = TrimSpace gloss\<rparr>)
              in if gs_gloss s = [] then None else Some (s\<lparr>gs_gloss := fst (capGloss (gs_gloss s))\<rparr>))"

definition parseSenses :: "str list \<Rightarrow> gloss_sense list" where
  "parseSenses cells =
     foldl (\<lambda>senses cell. case parse_cell cell of
         None \<Rightarrow> senses
       | Some s \<Rightarrow> if length senses < maxSenses then senses @ [s] else senses) [] cells"

subsection \<open>Reading a word list\<close>

type_synonym word_data = "(str \<times> entry) list \<times> (str \<times> gloss_sense list) list"

definition entry_of :: "str \<Rightarrow> str list \<Rightarrow> entry" where
  "entry_of word syllables = \<lparr>en_word = word, en_first = hd syllables, en_last = List.last syllables,
     en_syllables = length syllables\<rparr>"

definition read_line :: "unicode \<Rightarrow> word_data \<Rightarrow> str \<Rightarrow> word_data" where
  "read_line u = (\<lambda>(ws, ms) line.
     let line = TrimSpace line
     in if line = [] \<or> hd line = 35 then (ws, ms)
        else let cells = Split 9 line
             in case accept u (hd cells) of
               Inl reason \<Rightarrow> (ws, ms)
             | Inr (word, syllables) \<Rightarrow>
                 (let senses = parseSenses (tl cells)
                  in (AList.update word (entry_of word syllables) ws,
                      if length senses > 0 then AList.update word senses ms else ms)))"

definition readWordList :: "unicode \<Rightarrow> str \<Rightarrow> word_data" where
  "readWordList u raw = foldl (read_line u) ([], []) (Lines raw)"

subsection \<open>Writing the corpus\<close>

definition corpusHeaderPrefix :: str where "corpusHeaderPrefix = lit ''#@''"

definition corpusProvenanceKeys :: "str list" where
  "corpusProvenanceKeys = [lit ''source_url'', lit ''source_sha256'', lit ''source_pages'', lit ''source_fetched_at'']"

definition corpus_comments :: "str list" where
  "corpus_comments =
     [lit ''# The noitu dictionary: every word the builder accepted from the Wiktionary'',
      lit ''# ti'' @ [0x1EBF] @ lit ''ng Vi'' @ [0x1EC7] @ lit ''t dump named below, with the meanings it kept. Derived from'',
      lit ''# Wiktionary content under CC BY-SA 4.0; see data/ATTRIBUTION.md.'',
      lit ''#'',
      lit ''# Generated by `make refresh-dict`; do not edit by hand. A line is the word, then'',
      lit ''# its meanings as tab-separated pos|gloss cells, in page order.'',
      lit ''#'']"

definition corpusPreamble :: str where
  "corpusPreamble = concat (map (\<lambda>line. line @ [10]) corpus_comments)"

definition dumpSourceURL :: str where
  "dumpSourceURL = lit ''https://dumps.wikimedia.org/viwiktionary/latest/viwiktionary-latest-pages-articles.xml.bz2''"

text \<open>The time of the fetch is held as it is printed.\<close>

record dumpProvenance =
  pv_sha256 :: str
  pv_pages :: nat
  pv_fetchedAt :: str

definition provenance_values :: "dumpProvenance \<Rightarrow> str list" where
  "provenance_values prov = [dumpSourceURL, pv_sha256 prov, digits_of (pv_pages prov), pv_fetchedAt prov]"

datatype corpus_error =
    CreateFailed | WriteFailed | RenameFailed
  | FieldHasBreak | FieldHasSpace | WordField str | MeaningField nat str | LabelField nat str
  | ReadCorpusFailed | NotACorpus str

definition corpusField :: "str \<Rightarrow> corpus_error option" where
  "corpusField s =
     (if \<exists>r \<in> set s. r \<in> {9, 13, 10} then Some FieldHasBreak
      else if s \<noteq> TrimSpace s then Some FieldHasSpace
      else None)"

text \<open>The senses of a word, from number \<open>i\<close> on.\<close>

fun write_senses :: "str \<Rightarrow> nat \<Rightarrow> gloss_sense list \<Rightarrow> corpus_error + str" where
  "write_senses word i [] = Inr []"
| "write_senses word i (s # ss) =
     (if corpusField (gs_gloss s) \<noteq> None then Inl (MeaningField i word)
      else if corpusField (gs_pos s) \<noteq> None \<or> 124 \<in> set (gs_pos s) then Inl (LabelField i word)
      else case write_senses word (i + 1) ss of
        Inl e \<Rightarrow> Inl e
      | Inr rest \<Rightarrow> Inr ([9] @ gs_pos s @ [124] @ gs_gloss s @ rest))"

definition senses_of :: "(str \<times> gloss_sense list) list \<Rightarrow> str \<Rightarrow> gloss_sense list" where
  "senses_of ms word = (case map_of ms word of None \<Rightarrow> [] | Some ss \<Rightarrow> ss)"

fun write_words :: "(str \<times> gloss_sense list) list \<Rightarrow> str list \<Rightarrow> corpus_error + str" where
  "write_words ms [] = Inr []"
| "write_words ms (word # keys) =
     (if corpusField word \<noteq> None then Inl (WordField word)
      else case write_senses word 0 (senses_of ms word) of
        Inl e \<Rightarrow> Inl e
      | Inr cells \<Rightarrow>
          (case write_words ms keys of Inl e \<Rightarrow> Inl e | Inr rest \<Rightarrow> Inr (word @ cells @ [10] @ rest)))"

definition corpus_text :: "(str \<times> entry) list \<Rightarrow> (str \<times> gloss_sense list) list \<Rightarrow> dumpProvenance \<Rightarrow> corpus_error + str" where
  "corpus_text ws ms prov =
     (let keys = sort (map fst ws);
          header = concat (map (\<lambda>(key, v). corpusHeaderPrefix @ key @ [32] @ v @ [10])
             (zip corpusProvenanceKeys (provenance_values prov)))
      in case write_words ms keys of
           Inl e \<Rightarrow> Inl e
         | Inr body \<Rightarrow> Inr (corpusPreamble @ header @ [10] @ body))"

text \<open>
  The file system maps paths to contents, text or a database; which of its calls fail is an argument. The deferred function removes
  the temporary file whenever the end was not reached.
\<close>

datatype 't content = Text str | Db 't

type_synonym 't files = "str \<Rightarrow> 't content option"

record io_faults =
  create_fails :: bool
  flush_fails :: bool
  close_fails :: bool
  rename_fails :: bool

definition tmp_path :: "str \<Rightarrow> str" where "tmp_path path = path @ lit ''.tmp''"

definition writeCorpus ::
  "io_faults \<Rightarrow> str \<Rightarrow> (str \<times> entry) list \<Rightarrow> (str \<times> gloss_sense list) list \<Rightarrow> dumpProvenance \<Rightarrow> 't files \<Rightarrow>
   corpus_error option \<times> 't files" where
  "writeCorpus io path ws ms prov fs =
     (let tmp = tmp_path path
      in if create_fails io then (Some CreateFailed, fs)
         else case corpus_text ws ms prov of
           Inl e \<Rightarrow> (Some e, fs(tmp := None))
         | Inr text \<Rightarrow>
             if flush_fails io \<or> close_fails io then (Some WriteFailed, fs(tmp := None))
             else let fs = fs(tmp := Some (Text text))
                  in if rename_fails io then (Some RenameFailed, fs(tmp := None))
                     else (None, fs(path := Some (Text text), tmp := None)))"

subsection \<open>Reading the corpus\<close>

definition header_line :: "(str \<times> str) list \<Rightarrow> str \<Rightarrow> (str \<times> str) list" where
  "header_line header line =
     (let line = TrimSpace line
      in if \<not> prefix corpusHeaderPrefix line then header
         else let rest = drop (length corpusHeaderPrefix) line;
                  (key, v) = (case Cut 32 rest of None \<Rightarrow> (rest, []) | Some kv \<Rightarrow> kv)
              in AList.update key (TrimSpace v) header)"

definition corpus_header :: "str \<Rightarrow> (str \<times> str) list" where
  "corpus_header raw = foldl header_line [] (Lines raw)"

definition header_value :: "(str \<times> str) list \<Rightarrow> str \<Rightarrow> str" where
  "header_value header key = (case map_of header key of None \<Rightarrow> [] | Some v \<Rightarrow> v)"

end
