(* ===== verification/Go_Regex.thy ===== *)
theory Go_Regex
  imports Go_Text "HOL-Library.AList"
begin

text \<open>
  Go's \<open>regexp\<close> as far as the dictionary builder's expressions use it: a matcher by backtracking that tries the
  choices in the order \<open>regexp\<close> prefers them, and the searches and replacements that take its first match.
  No expression of the builder matches the empty text.
\<close>

datatype re =
    Eps
  | Sym "rune \<Rightarrow> bool"
  | Seq re re
  | Alt re re
  | Star re
  | Lazy re
  | Group nat re
  | At_start
  | At_end
  | Word_edge

type_synonym captures = "(nat \<times> nat \<times> nat) list"

definition is_word_rune :: "rune \<Rightarrow> bool" where
  "is_word_rune r \<longleftrightarrow> (48 \<le> r \<and> r \<le> 57) \<or> (65 \<le> r \<and> r \<le> 90) \<or> (97 \<le> r \<and> r \<le> 122) \<or> r = 95"

definition word_at :: "str \<Rightarrow> nat \<Rightarrow> bool" where
  "word_at s i \<longleftrightarrow> i < length s \<and> is_word_rune (s ! i)"

definition at_edge :: "str \<Rightarrow> nat \<Rightarrow> bool" where
  "at_edge s i \<longleftrightarrow> (0 < i \<and> word_at s (i - 1)) \<noteq> word_at s i"

text \<open>The ends of the matches from position \<open>i\<close>, with what the groups captured, the preferred one first.\<close>

function tries :: "str \<Rightarrow> re \<Rightarrow> nat \<Rightarrow> captures \<Rightarrow> (nat \<times> captures) list" where
  "tries s Eps i c = [(i, c)]"
| "tries s (Sym f) i c = (if i < length s \<and> f (s ! i) then [(i + 1, c)] else [])"
| "tries s (Seq p q) i c = concat (map (\<lambda>(j, d). tries s q j d) (tries s p i c))"
| "tries s (Alt p q) i c = tries s p i c @ tries s q i c"
| "tries s (Star p) i c =
     concat (map (\<lambda>(j, d). if i < j \<and> j \<le> length s then tries s (Star p) j d else []) (tries s p i c)) @ [(i, c)]"
| "tries s (Lazy p) i c =
     (i, c) # concat (map (\<lambda>(j, d). if i < j \<and> j \<le> length s then tries s (Lazy p) j d else []) (tries s p i c))"
| "tries s (Group n p) i c = map (\<lambda>(j, d). (j, AList.update n (i, j) d)) (tries s p i c)"
| "tries s At_start i c = (if i = 0 then [(i, c)] else [])"
| "tries s At_end i c = (if i = length s then [(i, c)] else [])"
| "tries s Word_edge i c = (if at_edge s i then [(i, c)] else [])"
  by pat_completeness auto
termination
  by (relation "measures [\<lambda>(s, r, i, c). size r, \<lambda>(s, r, i, c). length s - i]") auto

declare tries.simps(5,6) [simp del]

subsection \<open>Repetition, sets and literals\<close>

abbreviation Plus :: "re \<Rightarrow> re" where "Plus p \<equiv> Seq p (Star p)"
abbreviation Opt :: "re \<Rightarrow> re" where "Opt p \<equiv> Alt p Eps"
abbreviation Rune :: "rune \<Rightarrow> re" where "Rune r \<equiv> Sym (\<lambda>x. x = r)"
abbreviation Not_in :: "str \<Rightarrow> re" where "Not_in s \<equiv> Sym (\<lambda>x. x \<notin> set s)"

fun Literal :: "str \<Rightarrow> re" where
  "Literal [] = Eps"
| "Literal [r] = Rune r"
| "Literal (r # rs) = Seq (Rune r) (Literal rs)"

fun Seqs :: "re list \<Rightarrow> re" where
  "Seqs [] = Eps"
| "Seqs [p] = p"
| "Seqs (p # ps) = Seq p (Seqs ps)"

fun Alts :: "re list \<Rightarrow> re" where
  "Alts [] = Sym (\<lambda>_. False)"
| "Alts [p] = p"
| "Alts (p # ps) = Alt p (Alts ps)"

text \<open>Between \<open>m\<close> and \<open>m + n\<close> times, as often as it can.\<close>

fun Repeat :: "nat \<Rightarrow> nat \<Rightarrow> re \<Rightarrow> re" where
  "Repeat (Suc m) n p = Seq p (Repeat m n p)"
| "Repeat 0 (Suc n) p = Opt (Seq p (Repeat 0 n p))"
| "Repeat 0 0 p = Eps"

text \<open>\<open>\s\<close>.\<close>

abbreviation Space :: re where "Space \<equiv> Sym (\<lambda>r. r \<in> {9, 10, 12, 13, 32})"

subsection \<open>Searching\<close>

type_synonym match = "nat \<times> nat \<times> captures"

function first_match :: "re \<Rightarrow> str \<Rightarrow> nat \<Rightarrow> match option" where
  "first_match r s i =
     (if i > length s then None
      else case tries s r i [] of
        (j, c) # _ \<Rightarrow> Some (i, j, c)
      | [] \<Rightarrow> first_match r s (i + 1))"
  by pat_completeness auto
termination by (relation "measure (\<lambda>(r, s, i). length s + 1 - i)") auto

declare first_match.simps [simp del]

lemma first_match_from: "first_match r s i = Some (a, b, c) \<Longrightarrow> i \<le> a \<and> a \<le> length s"
proof (induction r s i rule: first_match.induct)
  case (1 r s i)
  show ?case
  proof (cases "i > length s")
    case False
    then show ?thesis using 1 by (auto simp: first_match.simps [of r s i] split: list.splits)
  qed (use 1 in \<open>simp add: first_match.simps [of r s i]\<close>)
qed

text \<open>\<open>FindAllStringSubmatch\<close>: from left to right, none overlapping another.\<close>

function all_matches :: "re \<Rightarrow> str \<Rightarrow> nat \<Rightarrow> match list" where
  "all_matches r s i =
     (case first_match r s i of
        None \<Rightarrow> []
      | Some (a, b, c) \<Rightarrow> (a, b, c) # all_matches r s (max b (a + 1)))"
  by pat_completeness auto
termination
  by (relation "measure (\<lambda>(r, s, i). length s + 1 - i)") (auto dest: first_match_from)

declare all_matches.simps [simp del]

definition submatch :: "str \<Rightarrow> captures \<Rightarrow> nat \<Rightarrow> str" where
  "submatch s c n = (case map_of c n of None \<Rightarrow> [] | Some (a, b) \<Rightarrow> take (b - a) (drop a s))"

definition FindStringSubmatch :: "re \<Rightarrow> str \<Rightarrow> (nat \<Rightarrow> str) option" where
  "FindStringSubmatch r s = (case first_match r s 0 of None \<Rightarrow> None | Some (a, b, c) \<Rightarrow> Some (submatch s c))"

definition MatchString :: "re \<Rightarrow> str \<Rightarrow> bool" where
  "MatchString r s \<longleftrightarrow> first_match r s 0 \<noteq> None"

fun splice :: "str \<Rightarrow> str \<Rightarrow> nat \<Rightarrow> match list \<Rightarrow> str" where
  "splice s repl seen [] = drop seen s"
| "splice s repl seen ((a, b, _) # ms) = take (a - seen) (drop seen s) @ repl @ splice s repl b ms"

definition ReplaceAllString :: "re \<Rightarrow> str \<Rightarrow> str \<Rightarrow> str" where
  "ReplaceAllString r s repl = splice s repl 0 (all_matches r s 0)"

subsection \<open>What the matcher finds\<close>

text \<open>The spans an expression matches, whatever is preferred; the matcher finds exactly these.\<close>

fun spans :: "str \<Rightarrow> re \<Rightarrow> nat \<Rightarrow> nat \<Rightarrow> bool" where
  "spans s Eps = (\<lambda>i j. j = i)"
| "spans s (Sym f) = (\<lambda>i j. i < length s \<and> f (s ! i) \<and> j = i + 1)"
| "spans s (Seq p q) = spans s p OO spans s q"
| "spans s (Alt p q) = (\<lambda>i j. spans s p i j \<or> spans s q i j)"
| "spans s (Star p) = (spans s p)\<^sup>*\<^sup>*"
| "spans s (Lazy p) = (spans s p)\<^sup>*\<^sup>*"
| "spans s (Group n p) = spans s p"
| "spans s At_start = (\<lambda>i j. i = 0 \<and> j = i)"
| "spans s At_end = (\<lambda>i j. i = length s \<and> j = i)"
| "spans s Word_edge = (\<lambda>i j. at_edge s i \<and> j = i)"

lemma spans_bounds: "spans s r i j \<Longrightarrow> i \<le> j \<and> (i \<le> length s \<longrightarrow> j \<le> length s)"
proof (induction r arbitrary: i j)
  case (Star p)
  have "(spans s p)\<^sup>*\<^sup>* i j" using Star.prems by simp
  then show ?case by (induction rule: rtranclp_induct) (use Star.IH in fastforce)+
next
  case (Lazy p)
  have "(spans s p)\<^sup>*\<^sup>* i j" using Lazy.prems by simp
  then show ?case by (induction rule: rtranclp_induct) (use Lazy.IH in fastforce)+
qed fastforce+

text \<open>A repetition needs no empty round.\<close>

lemma progress_rounds:
  assumes le: "\<And>i j. R i j \<Longrightarrow> (i :: nat) \<le> j"
  shows "R\<^sup>*\<^sup>* i k \<longleftrightarrow> i = k \<or> (\<exists>j. R i j \<and> i < j \<and> R\<^sup>*\<^sup>* j k)"
proof
  assume "R\<^sup>*\<^sup>* i k"
  then show "i = k \<or> (\<exists>j. R i j \<and> i < j \<and> R\<^sup>*\<^sup>* j k)"
  proof (induction rule: converse_rtranclp_induct)
    case (step a b)
    then show ?case using le [of a b] by (cases "a = b") auto
  qed simp
qed (auto intro: converse_rtranclp_into_rtranclp)

lemma ends_concat:
  assumes ts: "fst ` set ts = {j. R j}" and f: "\<And>j d. (j, d) \<in> set ts \<Longrightarrow> fst ` set (f j d) = {k. Q j k}"
  shows "fst ` set (concat (map (\<lambda>(j, d). f j d) ts)) = {k. \<exists>j. R j \<and> Q j k}"
proof -
  have "fst ` set (concat (map (\<lambda>(j, d). f j d) ts)) = (\<Union>(j, d) \<in> set ts. fst ` set (f j d))" by auto
  also have "\<dots> = (\<Union>(j, d) \<in> set ts. {k. Q j k})" by (rule SUP_cong) (use f in auto)
  also have "\<dots> = {k. \<exists>j \<in> fst ` set ts. Q j k}" by force
  finally show ?thesis by (simp add: ts)
qed

lemma ends_rounds:
  assumes ts: "fst ` set ts = {j. spans s p i j}" and "i \<le> length s"
    and f: "\<And>j d. (j, d) \<in> set ts \<Longrightarrow> i < j \<Longrightarrow> j \<le> length s \<Longrightarrow> fst ` set (f j d) = {k. (spans s p)\<^sup>*\<^sup>* j k}"
  shows "insert i (fst ` set (concat (map (\<lambda>(j, d). if i < j \<and> j \<le> length s then f j d else []) ts))) =
    {k. (spans s p)\<^sup>*\<^sup>* i k}"
proof -
  have "fst ` set (concat (map (\<lambda>(j, d). if i < j \<and> j \<le> length s then f j d else []) ts)) =
      {k. \<exists>j. spans s p i j \<and> i < j \<and> j \<le> length s \<and> (spans s p)\<^sup>*\<^sup>* j k}"
  proof (rule ends_concat [OF ts])
    fix j d assume jd: "(j, d) \<in> set ts"
    show "fst ` set (if i < j \<and> j \<le> length s then f j d else []) =
        {k. i < j \<and> j \<le> length s \<and> (spans s p)\<^sup>*\<^sup>* j k}"
    proof (cases "i < j \<and> j \<le> length s")
      case True
      then show ?thesis using f [OF jd] by simp
    qed auto
  qed
  moreover have "spans s p i j \<Longrightarrow> j \<le> length s" for j using spans_bounds [of s p i j] assms(2) by blast
  ultimately show ?thesis
    using progress_rounds [of "spans s p" i] spans_bounds [of s p] by (simp add: set_eq_iff) blast
qed

lemma tries_spans: "i \<le> length s \<Longrightarrow> fst ` set (tries s r i c) = {j. spans s r i j}"
proof (induction s r i c rule: tries.induct)
  case (3 s p q i c)
  have ts: "fst ` set (tries s p i c) = {j. spans s p i j}" by (rule 3(1) [OF 3(3)])
  have "fst ` set (tries s q j d) = {k. spans s q j k}" if jd: "(j, d) \<in> set (tries s p i c)" for j d
  proof -
    have "spans s p i j" using ts jd by force
    then have "j \<le> length s" using spans_bounds 3(3) by blast
    then show ?thesis using 3(2) [OF jd refl] by blast
  qed
  from ends_concat [OF ts this] show ?case by (simp add: OO_def)
next
  case (5 s p i c)
  have "insert i (fst ` set (concat (map (\<lambda>(j, d). if i < j \<and> j \<le> length s then tries s (Star p) j d else [])
      (tries s p i c)))) = {k. (spans s p)\<^sup>*\<^sup>* i k}"
  proof (rule ends_rounds [OF 5(1) [OF 5(3)] 5(3)])
    fix j d assume jd: "(j, d) \<in> set (tries s p i c)" "i < j" "j \<le> length s"
    then show "fst ` set (tries s (Star p) j d) = {k. (spans s p)\<^sup>*\<^sup>* j k}" using 5(2) [OF jd(1) refl] by simp
  qed
  then show ?case by (simp add: tries.simps(5) [of s p i c] image_Un)
next
  case (6 s p i c)
  have "insert i (fst ` set (concat (map (\<lambda>(j, d). if i < j \<and> j \<le> length s then tries s (Lazy p) j d else [])
      (tries s p i c)))) = {k. (spans s p)\<^sup>*\<^sup>* i k}"
  proof (rule ends_rounds [OF 6(1) [OF 6(3)] 6(3)])
    fix j d assume jd: "(j, d) \<in> set (tries s p i c)" "i < j" "j \<le> length s"
    then show "fst ` set (tries s (Lazy p) j d) = {k. (spans s p)\<^sup>*\<^sup>* j k}" using 6(2) [OF jd(1) refl] by simp
  qed
  then show ?case by (simp add: tries.simps(6) [of s p i c])
qed (auto simp: image_Un image_image case_prod_beta)

end
