(* ===== verification/Builder_Wikitext.thy ===== *)
theory Builder_Wikitext
  imports Builder_Corpus Go_Regex
begin

text \<open>
  \<open>server/cmd/build-dictionary/wikitext.go\<close>: the Vietnamese section of a page of the dump, its headings, and the
  text of its definitions.

  The byte indices of the source are rune indices here: every byte it looks at is ASCII, so a cut never falls inside
  a rune. \<open>unescape\<close> is \<open>html.UnescapeString\<close>, with its table of entities. The counters of the build log
  (\<open>sectionStats\<close>) are left out: nothing but the log reads them.
\<close>

subsection \<open>Searching for a string\<close>

text \<open>What comes before and after the first \<open>sep\<close>.\<close>

fun Cut_at :: "str \<Rightarrow> str \<Rightarrow> (str \<times> str) option" where
  "Cut_at sep [] = (if sep = [] then Some ([], []) else None)"
| "Cut_at sep (r # rs) =
     (if prefix sep (r # rs) then Some ([], drop (length sep) (r # rs))
      else case Cut_at sep rs of None \<Rightarrow> None | Some (a, b) \<Rightarrow> Some (r # a, b))"

lemma Cut_at_Some: "Cut_at sep s = Some (a, b) \<Longrightarrow> s = a @ sep @ b"
  by (induction s arbitrary: a) (auto simp: prefix_def split: if_splits option.splits)

definition Contains :: "str \<Rightarrow> str \<Rightarrow> bool" where
  "Contains s sep \<longleftrightarrow> Cut_at sep s \<noteq> None"

text \<open>\<open>strings.ReplaceAll\<close>, which the source calls with an \<open>old\<close> that is not empty.\<close>

function ReplaceAll :: "str \<Rightarrow> str \<Rightarrow> str \<Rightarrow> str" where
  "ReplaceAll s old new =
     (if old = [] then s
      else case Cut_at old s of None \<Rightarrow> s | Some (a, b) \<Rightarrow> a @ new @ ReplaceAll b old new)"
  by pat_completeness auto
termination by (relation "measure (\<lambda>(s, old, new). length s)") (auto dest: Cut_at_Some)

declare ReplaceAll.simps [simp del]

subsection \<open>The codes of headings\<close>

definition danh_tu :: str where "danh_tu = lit ''danh t'' @ [0x1EEB]"
definition dong_tu :: str where "dong_tu = [0x111, 0x1ED9] @ lit ''ng t'' @ [0x1EEB]"
definition tinh_tu :: str where "tinh_tu = lit ''t'' @ [0xED] @ lit ''nh t'' @ [0x1EEB]"
definition pho_tu :: str where "pho_tu = lit ''ph'' @ [0xF3] @ lit '' t'' @ [0x1EEB]"
definition danh_tu_rieng :: str where "danh_tu_rieng = lit ''danh t'' @ [0x1EEB] @ lit '' ri'' @ [0xEA] @ lit ''ng''"
definition tinh_tu_rieng :: str where "tinh_tu_rieng = lit ''t'' @ [0xED] @ lit ''nh t'' @ [0x1EEB] @ lit '' ri'' @ [0xEA] @ lit ''ng''"
definition dia_danh :: str where "dia_danh = [0x111, 0x1ECB] @ lit ''a danh''"
definition dai_tu :: str where "dai_tu = [0x111, 0x1EA1] @ lit ''i t'' @ [0x1EEB]"
definition so_tu :: str where "so_tu = lit ''s'' @ [0x1ED1] @ lit '' t'' @ [0x1EEB]"
definition lien_tu :: str where "lien_tu = lit ''li'' @ [0xEA] @ lit ''n t'' @ [0x1EEB]"
definition gioi_tu :: str where "gioi_tu = lit ''gi'' @ [0x1EDB] @ lit ''i t'' @ [0x1EEB]"
definition than_tu :: str where "than_tu = lit ''th'' @ [0xE1] @ lit ''n t'' @ [0x1EEB]"
definition tro_tu :: str where "tro_tu = lit ''tr'' @ [0x1EE3] @ lit '' t'' @ [0x1EEB]"
definition cum_tu :: str where "cum_tu = lit ''c'' @ [0x1EE5] @ lit ''m t'' @ [0x1EEB]"
definition thanh_ngu :: str where "thanh_ngu = lit ''th'' @ [0xE0] @ lit ''nh ng'' @ [0x1EEF]"
definition tuc_ngu :: str where "tuc_ngu = lit ''t'' @ [0x1EE5] @ lit ''c ng'' @ [0x1EEF]"
definition viet_tat :: str where "viet_tat = lit ''vi'' @ [0x1EBF] @ lit ''t t'' @ [0x1EAF] @ lit ''t''"
definition tien_to :: str where "tien_to = lit ''ti'' @ [0x1EC1] @ lit ''n t'' @ [0x1ED1]"
definition hau_to :: str where "hau_to = lit ''h'' @ [0x1EAD] @ lit ''u t'' @ [0x1ED1]"
definition chu_cai :: str where "chu_cai = lit ''ch'' @ [0x1EEF] @ lit '' c'' @ [0xE1] @ lit ''i''"
definition ky_hieu :: str where "ky_hieu = lit ''k'' @ [0xFD] @ lit '' hi'' @ [0x1EC7] @ lit ''u''"

definition posLabelMap :: "(str \<times> str) list" where
  "posLabelMap =
     [(lit ''noun'', danh_tu), (lit ''n'', danh_tu), (lit ''verb'', dong_tu), (lit ''v'', dong_tu),
      (lit ''tr-verb'', dong_tu), (lit ''intr-verb'', dong_tu), (lit ''aux-verb'', dong_tu), (lit ''adj'', tinh_tu),
      (lit ''adjc'', tinh_tu), (lit ''adjective'', tinh_tu), (lit ''adv'', pho_tu), (lit ''adverb'', pho_tu),
      (lit ''advb'', pho_tu), (lit ''pr-noun'', danh_tu_rieng), (lit ''proper'', danh_tu_rieng),
      (lit ''propn'', danh_tu_rieng), (lit ''proper noun'', danh_tu_rieng), (lit ''name'', danh_tu_rieng),
      (lit ''pr-adj'', tinh_tu_rieng), (lit ''place'', dia_danh), (lit ''pronoun'', dai_tu),
      (lit ''per-pronoun'', dai_tu), (lit ''num'', so_tu), (lit ''numeral'', so_tu), (lit ''conj'', lien_tu),
      (lit ''conjunction'', lien_tu), (lit ''prep'', gioi_tu), (lit ''interj'', than_tu), (lit ''intj'', than_tu),
      (lit ''interjection'', than_tu), (lit ''part'', tro_tu), (lit ''particle'', tro_tu), (lit ''phrase'', cum_tu),
      (lit ''idiom'', thanh_ngu), (lit ''proverb'', tuc_ngu), (lit ''prov'', tuc_ngu), (lit ''abbr'', viet_tat),
      (lit ''abr'', viet_tat), (lit ''prefix'', tien_to), (lit ''suffix'', hau_to), (lit ''letter'', chu_cai),
      (lit ''symbol'', ky_hieu)]"

definition otherSectionCodes :: "str list" where
  "otherSectionCodes =
     [lit ''pron'', lit ''pronunciation'', lit ''ref'', lit ''reference'', lit ''references'', lit ''trans'',
      lit ''translations'', lit ''paro'', lit ''paronym'', lit ''etym'', lit ''etymology'', lit ''syn'',
      lit ''synonym'', lit ''ant'', lit ''antonym'', lit ''info'', lit ''hanviet'', lit ''hanviet-t'', lit ''see'',
      lit ''see also'', lit ''related'', lit ''rel'', lit ''related terms'', lit ''drv'', lit ''der'',
      lit ''derived'', lit ''derived terms'', lit ''desction'', lit ''desc'', lit ''usage'', lit ''usage notes'',
      lit ''expr'', lit ''homo'', lit ''further'', lit ''further reading'', lit ''forms'', lit ''note'',
      lit ''anagram'', lit ''anagrams'', lit ''ana'', lit ''compound'', lit ''redup'', lit ''translit'', lit ''cat'',
      lit ''coord'', lit ''coordinate'', lit ''alt'', lit ''alter'', lit ''alter form'', lit ''alternative form'',
      lit ''alternative forms'', lit ''alternative script'', lit ''glyph origin'', lit ''han'',
      lit ''n'' @ [0xF4] @ lit ''m'', lit ''han character'', lit ''kanji'', lit ''rom'', lit ''romanization'',
      lit ''mut'', lit ''participle'', lit ''ptcp'', lit ''syllable'', lit ''article'', lit ''contr'', lit ''cmavo'',
      lit ''dfn'', lit ''com'', lit ''ph'' @ [0xE1] @ lit ''t '' @ [0xE2] @ lit ''m'',
      lit ''t'' @ [0x1EEB] @ lit '' nguy'' @ [0xEA] @ lit ''n'',
      lit ''t'' @ [0x1EEB] @ lit '' nguy'' @ [0xEA] @ lit ''n 1'',
      lit ''t'' @ [0x1EEB] @ lit '' nguy'' @ [0xEA] @ lit ''n 2'', lit ''tham kh'' @ [0x1EA3] @ lit ''o'',
      lit ''xem th'' @ [0xEA] @ lit ''m'',
      lit ''c'' @ [0xE1] @ lit ''ch vi'' @ [0x1EBF] @ lit ''t kh'' @ [0xE1] @ lit ''c'',
      lit ''ph'' @ [0x1ED3] @ lit ''n th'' @ [0x1EC3], lit ''h'' @ [0xE1] @ lit ''n-n'' @ [0xF4] @ lit ''m'',
      lit ''h'' @ [0xE1] @ lit ''n n'' @ [0xF4] @ lit ''m'', lit ''ch'' @ [0x1EEF] @ lit '' h'' @ [0xE1] @ lit ''n'',
      lit ''ch'' @ [0x1EEF] @ lit '' n'' @ [0xF4] @ lit ''m'', lit ''ch'' @ [0xFA] @ lit '' '' @ [0xFD],
      [0x111, 0x1ED3] @ lit ''ng ngh'' @ [0x129] @ lit ''a'',
      lit ''t'' @ [0x1EEB] @ lit '' '' @ [0x111, 0x1ED3] @ lit ''ng ngh'' @ [0x129] @ lit ''a'',
      lit ''b'' @ [0x1EA3] @ lit ''n d'' @ [0x1ECB] @ lit ''ch'', lit ''d'' @ [0x1ECB] @ lit ''ch'',
      lit ''d'' @ [0x1EA5] @ lit ''u ph'' @ [0x1EE5],
      lit ''li'' @ [0xEA] @ lit ''n k'' @ [0x1EBF] @ lit ''t ngo'' @ [0xE0] @ lit ''i'',
      lit ''thu'' @ [0x1EAD] @ lit ''t ng'' @ [0x1EEF] @ lit '' li'' @ [0xEA] @ lit ''n quan'',
      lit ''t'' @ [0x1EEB] @ lit '' t'' @ [0x1B0, 0x1A1] @ lit ''ng t'' @ [0x1EF1], lit ''meronym'',
      lit ''meronyms'',
      lit ''ngu'' @ [0x1ED3] @ lit ''n g'' @ [0x1ED1] @ lit ''c k'' @ [0xFD] @ lit '' t'' @ [0x1EF1] @ lit '' ch'' @ [0x1EEF] @ lit '' n'' @ [0xF4] @ lit ''m'']"

subsection \<open>The expressions\<close>

abbreviation Alpha :: "rune \<Rightarrow> bool" where "Alpha r \<equiv> (65 \<le> r \<and> r \<le> 90) \<or> (97 \<le> r \<and> r \<le> 122)"
abbreviation Any :: re where "Any \<equiv> Sym (\<lambda>_. True)"

definition legacyTemplate :: re where
  "legacyTemplate =
     (let code = Sym (\<lambda>r. Alpha r \<or> (48 \<le> r \<and> r \<le> 57) \<or> r = 45)
      in Seqs [Literal (lit ''{{-''), Group 1 (Seq code (Lazy code)), Rune 45,
           Opt (Seq (Rune 124) (Star (Not_in (lit ''}'')))), Literal (lit ''}}'')])"

definition headingLine :: re where
  "headingLine = Seqs [At_start, Group 1 (Repeat 2 4 (Rune 61)), Star Space, Group 2 (Lazy (Not_in [10])),
     Star Space, Plus (Rune 61), Star Space, At_end]"

definition sectionTemplate :: re where
  "sectionTemplate = Seqs [Literal (lit ''{{''),
     Alts [Literal ([0x110] @ lit ''M''), Literal ([0x111] @ lit ''m''), Literal (lit ''DM''), Literal (lit ''dm''),
       Literal (lit ''section'')],
     Rune 124, Group 1 (Plus (Not_in (lit ''}|'')))]"

definition headwordTemplate :: re where
  "headwordTemplate = Seqs [At_start, Literal (lit ''{{vi''), Opt (Rune 101), Rune 45,
     Group 1 (Plus (Sym (\<lambda>r. (97 \<le> r \<and> r \<le> 122) \<or> r = 32 \<or> r = 45)))]"

definition langnameVi :: re where
  "langnameVi = Seqs [At_start, Literal (lit ''{{langname|vi}}''), At_end]"

definition htmlComment :: re where
  "htmlComment = Seqs [Literal (lit ''<!--''), Lazy Any, Literal (lit ''-->'')]"

definition refElement :: re where
  "refElement = Alt
     (Seqs [Literal (lit ''<ref''), Word_edge,
        Star (Alt (Not_in [62, 34]) (Seqs [Rune 34, Star (Not_in [34]), Rune 34])), Literal (lit ''/>'')])
     (Seqs [Literal (lit ''<ref''), Word_edge, Star (Not_in [62]), Rune 62, Lazy Any, Literal (lit ''</ref>'')])"

definition anyTag :: re where
  "anyTag = Seqs [Rune 60, Opt (Rune 47), Sym Alpha, Star (Not_in [62]), Rune 62]"

definition space_runs :: re where "space_runs = Plus Space"

subsection \<open>Finding the section\<close>

definition isLegacyHeading :: "str \<Rightarrow> bool" where
  "isLegacyHeading code \<longleftrightarrow> map_of posLabelMap code \<noteq> None \<or> code \<in> set otherSectionCodes"

datatype dialect = NoDialect | Legacy | NewDialect

definition trim_line :: "str \<Rightarrow> str" where
  "trim_line line = TrimRightFunc (\<lambda>r. r = 13 \<or> r = 32) line"

definition legacy_start :: "str \<Rightarrow> bool" where
  "legacy_start line \<longleftrightarrow> prefix (lit ''{{-'') line"

text \<open>The level and the text of a heading.\<close>

definition heading :: "str \<Rightarrow> (nat \<times> str) option" where
  "heading line = (case FindStringSubmatch headingLine line of None \<Rightarrow> None | Some m \<Rightarrow> Some (length (m 1), m 2))"

definition level_2 :: "str \<Rightarrow> bool" where
  "level_2 line \<longleftrightarrow> (case heading line of None \<Rightarrow> False | Some (n, _) \<Rightarrow> n = 2)"

text \<open>What follows the marker \<open>{{-vie-}}\<close> on its line.\<close>

definition after_marker :: "str \<Rightarrow> str option" where
  "after_marker line =
     (let line = trim_line line
      in if legacy_start line
         then map_option (\<lambda>(a, b, c). drop b line)
           (List.find (\<lambda>(a, b, c). submatch line c 1 = lit ''vie'') (all_matches legacyTemplate line 0))
         else None)"

definition opens_new :: "str \<Rightarrow> bool" where
  "opens_new line \<longleftrightarrow> (case heading (trim_line line) of None \<Rightarrow> False | Some (n, t) \<Rightarrow> n = 2 \<and> MatchString langnameVi t)"

fun first_index :: "('a \<Rightarrow> bool) \<Rightarrow> 'a list \<Rightarrow> nat option" where
  "first_index f [] = None"
| "first_index f (x # xs) = (if f x then Some 0 else map_option Suc (first_index f xs))"

text \<open>The code that closes a legacy section: the first on the line that is no heading.\<close>

definition ending_code :: "str \<Rightarrow> str option" where
  "ending_code line =
     (if legacy_start line
      then List.find (\<lambda>code. \<not> isLegacyHeading code) (map (\<lambda>(a, b, c). submatch line c 1) (all_matches legacyTemplate line 0))
      else None)"

fun legacy_lines :: "str list \<Rightarrow> str list \<times> str" where
  "legacy_lines [] = ([], [])"
| "legacy_lines (l # ls) =
     (let line = trim_line l
      in case ending_code line of
           Some code \<Rightarrow> ([], code)
         | None \<Rightarrow> if level_2 line then ([], []) else (let (rest, ender) = legacy_lines ls in (l # rest, ender)))"

definition legacySection :: "str list \<Rightarrow> str \<times> str" where
  "legacySection ls = (let (section, ender) = legacy_lines ls in (join [10] section, ender))"

definition newSection :: "str list \<Rightarrow> str" where
  "newSection ls = join [10] (takeWhile (\<lambda>line. \<not> level_2 (trim_line line)) ls)"

text \<open>The line of the marker keeps only what follows it, whichever section is taken.\<close>

definition vietnameseSection :: "str \<Rightarrow> str \<times> dialect \<times> bool \<times> str" where
  "vietnameseSection page_text =
     (let ls = Split 10 page_text;
          legacyAt = first_index (\<lambda>line. after_marker line \<noteq> None) ls;
          newAt = first_index opens_new ls;
          both = (legacyAt \<noteq> None \<and> newAt \<noteq> None);
          ls = (case legacyAt of None \<Rightarrow> ls | Some i \<Rightarrow> ls[i := the (after_marker (ls ! i))]);
          legacy = (\<lambda>i. let (section, ender) = legacySection (drop i ls) in (section, Legacy, both, ender))
      in case (legacyAt, newAt) of
           (None, None) \<Rightarrow> ([], NoDialect, False, [])
         | (Some i, None) \<Rightarrow> legacy i
         | (None, Some j) \<Rightarrow> (newSection (drop (j + 1) ls), NewDialect, both, [])
         | (Some i, Some j) \<Rightarrow> if i < j then legacy i else (newSection (drop (j + 1) ls), NewDialect, both, []))"

subsection \<open>Headings\<close>

datatype headingKind = notHeading | posHeading | otherHeading

definition classifyCode :: "str \<Rightarrow> str \<times> headingKind" where
  "classifyCode code =
     (if code = lit ''dfn'' then (code, notHeading)
      else if code \<in> set otherSectionCodes then (code, otherHeading)
      else (code, posHeading))"

text \<open>Only a headword template whose code is a part of speech counts.\<close>

definition headword :: "str \<Rightarrow> str \<times> headingKind" where
  "headword line =
     (case FindStringSubmatch headwordTemplate line of
        None \<Rightarrow> ([], notHeading)
      | Some m \<Rightarrow> (let code = TrimSpace (m 1)
                    in if map_of posLabelMap code \<noteq> None then (code, posHeading) else ([], notHeading)))"

definition classifyHeading :: "unicode \<Rightarrow> str \<Rightarrow> str \<times> headingKind" where
  "classifyHeading u line =
     (let line = trim_line line
      in if legacy_start line
         then foldl (\<lambda>found (a, b, c). let ck = classifyCode (submatch line c 1) in if snd ck \<noteq> notHeading then ck else found)
           ([], notHeading) (all_matches legacyTemplate line 0)
         else case heading line of
           Some (n, t) \<Rightarrow>
             if n \<ge> 3
             then classifyCode (case FindStringSubmatch sectionTemplate t of
                 Some sm \<Rightarrow> TrimSpace (sm 1)
               | None \<Rightarrow> to_lower u t)
             else headword line
         | None \<Rightarrow> headword line)"

definition isLabelValue :: "str \<Rightarrow> bool" where
  "isLabelValue t \<longleftrightarrow> t \<in> snd ` set posLabelMap"

definition posLabel :: "str \<Rightarrow> str \<times> bool" where
  "posLabel code =
     (case map_of posLabelMap code of
        Some label \<Rightarrow> (label, True)
      | None \<Rightarrow> if isLabelValue code then (code, True) else ([], False))"

subsection \<open>Templates\<close>

text \<open>The text as what stands outside every template, rune by rune, and the bodies of the outermost templates.\<close>

datatype piece = Plain rune | Template str

fun template_pieces :: "nat \<Rightarrow> str \<Rightarrow> str \<Rightarrow> piece list" where
  "template_pieces depth body [] = []"
| "template_pieces depth body (r # rs) =
     (if prefix (lit ''{{'') (r # rs)
      then template_pieces (depth + 1) (if depth = 0 then [] else body @ lit ''{{'') (tl rs)
      else if prefix (lit ''}}'') (r # rs)
      then if depth = 0 then template_pieces 0 body (tl rs)
           else if depth = 1 then Template body # template_pieces 0 [] (tl rs)
           else template_pieces (depth - 1) (body @ lit ''}}'') (tl rs)
      else if depth = 0 then Plain r # template_pieces 0 body rs
      else template_pieces depth (body @ [r]) rs)"

fun split_parts :: "nat \<Rightarrow> str \<Rightarrow> str \<Rightarrow> str list" where
  "split_parts depth part [] = [part]"
| "split_parts depth part (r # rs) =
     (if prefix (lit ''{{'') (r # rs) \<or> prefix (lit ''[['') (r # rs)
      then split_parts (depth + 1) (part @ take 2 (r # rs)) (tl rs)
      else if prefix (lit ''}}'') (r # rs) \<or> prefix (lit '']]'') (r # rs)
      then split_parts (depth - 1) (part @ take 2 (r # rs)) (tl rs)
      else if r = 124 \<and> depth = 0 then part # split_parts 0 [] rs
      else split_parts depth (part @ [r]) rs)"

definition splitTemplate :: "str \<Rightarrow> str list" where
  "splitTemplate body = split_parts 0 [] body"

fun lang_letters :: "nat \<Rightarrow> str \<Rightarrow> nat option" where
  "lang_letters letters [] = Some letters"
| "lang_letters letters (r # rs) =
     (if 97 \<le> r \<and> r \<le> 122 then lang_letters (letters + 1) rs
      else if r = 45 then if letters < 2 then None else lang_letters 0 rs
      else None)"

definition isLangCode :: "str \<Rightarrow> bool" where
  "isLangCode p \<longleftrightarrow> 2 \<le> length p \<and> length p \<le> 11 \<and>
     (case lang_letters 0 p of None \<Rightarrow> False | Some letters \<Rightarrow> letters \<ge> 2 \<and> letters \<le> 3)"

definition dropLang :: "str list \<Rightarrow> str list" where
  "dropLang ps = (if length ps > 1 \<and> isLangCode (hd ps) then tl ps else ps)"

text \<open>A parameter that is no \<open>key=value\<close>.\<close>

definition positional :: "str \<Rightarrow> bool" where
  "positional p \<longleftrightarrow> \<not> (Contains p (lit ''='') \<and> \<not> Contains p (lit ''[['') \<and> \<not> Contains p (lit ''{{''))"

definition untyped_place :: "str \<Rightarrow> str" where
  "untyped_place p = (if length p > 2 \<and> p ! 1 = 47 \<and> 97 \<le> p ! 0 \<and> p ! 0 \<le> 122 then drop 2 p else p)"

definition label_templates :: "str list" where
  "label_templates = [lit ''label'', lit ''lb'', lit ''nh'' @ [0xE3] @ lit ''n'', lit ''context'', lit ''term'', lit ''gloss'',
     lit ''qualifier'', lit ''q'']"

definition render_named :: "str \<Rightarrow> str list \<Rightarrow> str" where
  "render_named name params =
     (if name \<in> set label_templates
      then let ps = dropLang params in if ps = [] then [] else lit ''('' @ join (lit '', '') ps @ lit '')''
      else if name \<in> {lit ''l'', lit ''vi-l'', lit ''w'', lit ''m'', lit ''link''}
      then let ps = dropLang params in if ps = [] then [] else List.last ps
      else if name \<in> {lit ''n-g'', lit ''non-gloss'', lit ''non-gloss definition''} then join (lit '' '') params
      else if name \<in> {lit ''see-entry'', lit ''like-entry''}
      then if params = [] then [] else lit ''Xem '' @ hd params
      else if name = lit ''place'' then join (lit '', '') (map untyped_place (dropLang params))
      else [])"

lemma piece_shorter: "Template b \<in> set (template_pieces d body s) \<Longrightarrow>
    length b < length s + (if d = 0 then 0 else length body)"
proof (induction d body s rule: template_pieces.induct)
  case (2 d body r rs)
  then show ?case by (cases rs) (auto simp: lit_def split: if_splits)
qed simp

lemma split_parts_shorter:
  "p \<in> set (split_parts d part s) \<Longrightarrow> length p \<le> length part + length s"
  "p \<in> set (tl (split_parts d part s)) \<Longrightarrow> length p < length s"
proof (induction d part s rule: split_parts.induct)
  case (2 d part r rs)
  { case 1 then show ?case using 2 by (cases rs) (force split: if_splits)+
  next
    case 2 then show ?case using "2.IH" by (cases rs) (force split: if_splits)+ }
qed simp_all

lemma length_TrimSpace: "length (TrimSpace s) \<le> length s"
  by (simp add: TrimSpace_def TrimRightFunc_def TrimLeftFunc_def le_trans [OF length_dropWhile_le])

function (sequential) stripTemplates :: "unicode \<Rightarrow> str \<Rightarrow> str" and renderTemplate :: "unicode \<Rightarrow> str \<Rightarrow> str" where
  "stripTemplates u s =
     concat (map (\<lambda>p. case p of Plain r \<Rightarrow> [r] | Template body \<Rightarrow> renderTemplate u body) (template_pieces 0 [] s))"
| "renderTemplate u body =
     (let parts = splitTemplate body
      in render_named (to_lower u (TrimSpace (hd parts)))
           (map (\<lambda>p. TrimSpace (stripTemplates u (TrimSpace p))) (filter positional (tl parts))))"
  by pat_completeness auto
termination
proof (relation "measure (\<lambda>x. case x of Inl (u, s) \<Rightarrow> length s | Inr (u, b) \<Rightarrow> length b)", goal_cases)
  case (2 u s p b)
  then show ?case using piece_shorter [of b 0 "[]" s] by simp
next
  case (3 u b parts p)
  then have "length p < length b" using split_parts_shorter(2) [of p 0 "[]" b] by (auto simp: splitTemplate_def)
  then show ?case using length_TrimSpace [of p] by simp
qed simp

declare stripTemplates.simps [simp del] renderTemplate.simps [simp del]

subsection \<open>Links\<close>

definition after_last :: "rune \<Rightarrow> str \<Rightarrow> str" where
  "after_last c s = rev (takeWhile (\<lambda>r. r \<noteq> c) (rev s))"

definition link_text :: "unicode \<Rightarrow> str \<Rightarrow> str" where
  "link_text u inner =
     (let lower = to_lower u inner
      in if prefix (lit ''th'' @ [0x1EC3] @ lit '' lo'' @ [0x1EA1] @ lit ''i:'') lower \<or> prefix (lit ''category:'') lower
         then [] else after_last 124 inner)"

function wiki_links :: "unicode \<Rightarrow> str \<Rightarrow> str" where
  "wiki_links u s =
     (case Cut_at (lit ''[['') s of
        None \<Rightarrow> s
      | Some (before, rest) \<Rightarrow>
          (case Cut_at (lit '']]'') rest of
             None \<Rightarrow> s
           | Some (inner, rest) \<Rightarrow> before @ link_text u inner @ wiki_links u rest))"
  by pat_completeness auto
termination by (relation "measure (\<lambda>(u, s). length s)") (auto dest!: Cut_at_Some simp: lit_def)

function external_links :: "str \<Rightarrow> str" where
  "external_links s =
     (case Cut_at (lit ''[http'') s of
        None \<Rightarrow> s
      | Some (before, rest) \<Rightarrow>
          (case Cut_at (lit '']'') rest of
             None \<Rightarrow> s
           | Some (inner, rest) \<Rightarrow>
               before @ (case Cut 32 inner of None \<Rightarrow> [] | Some (_, label) \<Rightarrow> label) @ external_links rest))"
  by pat_completeness auto
termination by (relation "measure length") (auto dest!: Cut_at_Some simp: lit_def)

declare wiki_links.simps [simp del] external_links.simps [simp del]

definition stripLinks :: "unicode \<Rightarrow> str \<Rightarrow> str" where
  "stripLinks u s = external_links (wiki_links u s)"

subsection \<open>Plain text\<close>

definition plain_rune :: "unicode \<Rightarrow> rune \<Rightarrow> rune option" where
  "plain_rune u r = (if is_control r \<or> is_cf u r then None else if is_space r then Some 32 else Some r)"

definition stripWikitext :: "unicode \<Rightarrow> (str \<Rightarrow> str) \<Rightarrow> str \<Rightarrow> str" where
  "stripWikitext u unescape s =
     (let s = ReplaceAllString htmlComment s [];
          s = ReplaceAllString refElement s [];
          s = ReplaceAllString anyTag s [];
          s = stripTemplates u s;
          s = stripLinks u s;
          s = ReplaceAll s [39, 39, 39] [];
          s = ReplaceAll s [39, 39] [];
          s = unescape s;
          s = List.map_filter (plain_rune u) s;
          s = TrimSpace (ReplaceAllString space_runs s (lit '' ''));
          s = foldl (\<lambda>s p. ReplaceAll s p (tl p)) s [lit '' .'', lit '' ,'', lit '' ;'', lit '' :'', lit '' )'']
      in if \<exists>r \<in> set s. is_letter u r \<or> is_digit u r then s else [])"

subsection \<open>Definitions\<close>

definition isDefinitionLine :: "str \<Rightarrow> bool" where
  "isDefinitionLine line \<longleftrightarrow> length line \<ge> 2 \<and> hd line = 35 \<and> line ! 1 \<notin> {35, 58, 42, 59}"

definition definition_step :: "unicode \<Rightarrow> (str \<Rightarrow> str) \<Rightarrow> gloss_sense list \<times> str \<Rightarrow> str \<Rightarrow> gloss_sense list \<times> str" where
  "definition_step u unescape = (\<lambda>(senses, pos) line.
     let line = trim_line line
     in case classifyHeading u line of
          (code, posHeading) \<Rightarrow> (senses, fst (posLabel code))
        | (code, otherHeading) \<Rightarrow> (senses, [])
        | (code, notHeading) \<Rightarrow>
            if \<not> isDefinitionLine line then (senses, pos)
            else let gloss = stripWikitext u unescape (tl line)
                 in if gloss = [] then (senses, pos)
                    else let gloss = fst (capGloss gloss)
                         in (if length senses < maxSenses then senses @ [\<lparr>gs_pos = pos, gs_gloss = gloss\<rparr>] else senses, pos))"

definition definitions :: "unicode \<Rightarrow> (str \<Rightarrow> str) \<Rightarrow> str \<Rightarrow> gloss_sense list" where
  "definitions u unescape section =
     fst (foldl (definition_step u unescape) ([], []) (Split 10 section))"

end
