(* ===== verification/Builder_Dump.thy ===== *)
theory Builder_Dump
  imports Builder_Wikitext
begin

text \<open>
  \<open>server/cmd/build-dictionary/dump.go\<close>: the pages of the Wikimedia dump, read once from first to last.

  What the libraries that open, decompress, decode and hash the file make of it is the input: the pages the decoder
  delivers before it stops, and whether each stage ends well. The order of checks is the source's.
\<close>

record dumpPage =
  pg_title :: str
  pg_ns :: int
  pg_redirect :: "str option"
  pg_revisions :: "str list"

record dump_input =
  di_exists :: bool
  di_opens :: bool
  di_bzip2 :: bool
  di_pages :: "dumpPage list"
  di_stream_ok :: bool
  di_tail_ok :: bool
  di_sha256 :: str
  di_fetchedAt :: str

datatype dump_error = DumpUnreadable | NotBzip2 | NoRevision str | StreamFailed str | TailUnreadable

record dumpStats =
  ds_pages :: nat
  ds_ns0 :: nat
  ds_redirects :: nat
  ds_noVietnamese :: nat
  ds_legacy :: nat
  ds_newDialect :: nat
  ds_bothDialects :: nat
  ds_merged :: nat
  ds_enders :: "(str \<times> int) list"

record dump_state =
  dm_words :: "(str \<times> entry) list"
  dm_meanings :: "(str \<times> gloss_sense list) list"
  dm_rejects :: "rejectReason \<Rightarrow> nat"
  dm_stats :: dumpStats
  dm_pages :: nat

definition no_dump_stats :: dumpStats where
  "no_dump_stats = \<lparr>ds_pages = 0, ds_ns0 = 0, ds_redirects = 0, ds_noVietnamese = 0, ds_legacy = 0, ds_newDialect = 0,
     ds_bothDialects = 0, ds_merged = 0, ds_enders = []\<rparr>"

definition no_dump_state :: dump_state where
  "no_dump_state = \<lparr>dm_words = [], dm_meanings = [], dm_rejects = (\<lambda>_. 0), dm_stats = no_dump_stats, dm_pages = 0\<rparr>"

definition stat :: "(dumpStats \<Rightarrow> dumpStats) \<Rightarrow> dump_state \<Rightarrow> dump_state" where
  "stat f d = d\<lparr>dm_stats := f (dm_stats d)\<rparr>"

definition rejected :: "rejectReason \<Rightarrow> dump_state \<Rightarrow> dump_state" where
  "rejected reason d = d\<lparr>dm_rejects := (dm_rejects d)(reason := dm_rejects d reason + 1)\<rparr>"

text \<open>A page whose title is accepted: one entry per word, the senses of its pages in order, under one cap.\<close>

definition keep_word :: "str \<Rightarrow> str list \<Rightarrow> gloss_sense list \<Rightarrow> dump_state \<Rightarrow> dump_state" where
  "keep_word word syllables senses d =
     (let d = (if map_of (dm_words d) word \<noteq> None then stat (\<lambda>s. s\<lparr>ds_merged := ds_merged s + 1\<rparr>) d else d);
          d = d\<lparr>dm_words := AList.update word (entry_of word syllables) (dm_words d)\<rparr>
      in if length senses > 0
         then d\<lparr>dm_meanings := AList.update word (take maxSenses (senses_of (dm_meanings d) word @ senses)) (dm_meanings d)\<rparr>
         else d)"

definition count_section :: "dialect \<Rightarrow> bool \<Rightarrow> str \<Rightarrow> dump_state \<Rightarrow> dump_state" where
  "count_section dialect both ender d =
     (let d = (if both then stat (\<lambda>s. s\<lparr>ds_bothDialects := ds_bothDialects s + 1\<rparr>) d else d);
          d = (if dialect = Legacy then stat (\<lambda>s. s\<lparr>ds_legacy := ds_legacy s + 1\<rparr>) d
               else stat (\<lambda>s. s\<lparr>ds_newDialect := ds_newDialect s + 1\<rparr>) d);
          d = d\<lparr>dm_pages := dm_pages d + 1\<rparr>
      in if ender \<noteq> []
         then stat (\<lambda>s. s\<lparr>ds_enders := AList.update ender
           ((case map_of (ds_enders s) ender of None \<Rightarrow> 0 | Some n \<Rightarrow> n) + 1) (ds_enders s)\<rparr>) d
         else d)"

definition read_page :: "unicode \<Rightarrow> (str \<Rightarrow> str) \<Rightarrow> dumpPage \<Rightarrow> dump_state \<Rightarrow> dump_error + dump_state" where
  "read_page u unescape page d =
     (let d = stat (\<lambda>s. s\<lparr>ds_pages := ds_pages s + 1\<rparr>) d
      in if pg_ns page \<noteq> 0 then Inr d
         else let d = stat (\<lambda>s. s\<lparr>ds_ns0 := ds_ns0 s + 1\<rparr>) d
              in if pg_redirect page \<noteq> None then Inr (stat (\<lambda>s. s\<lparr>ds_redirects := ds_redirects s + 1\<rparr>) d)
                 else if pg_revisions page = [] then Inl (NoRevision (pg_title page))
                 else case vietnameseSection (List.last (pg_revisions page)) of
                   (section, dialect, both, ender) \<Rightarrow>
                     if dialect = NoDialect
                     then Inr (rejected rejectNotVietnamese (stat (\<lambda>s. s\<lparr>ds_noVietnamese := ds_noVietnamese s + 1\<rparr>) d))
                     else let d = count_section dialect both ender d
                          in case accept u (pg_title page) of
                               Inl reason \<Rightarrow> Inr (rejected reason d)
                             | Inr (word, syllables) \<Rightarrow> Inr (keep_word word syllables (definitions u unescape section) d))"

fun read_pages :: "unicode \<Rightarrow> (str \<Rightarrow> str) \<Rightarrow> dumpPage list \<Rightarrow> str \<Rightarrow> dump_state \<Rightarrow> dump_error + (str \<times> dump_state)" where
  "read_pages u unescape [] lastTitle d = Inr (lastTitle, d)"
| "read_pages u unescape (page # pages) lastTitle d =
     (case read_page u unescape page d of
        Inl e \<Rightarrow> Inl e
      | Inr d \<Rightarrow> read_pages u unescape pages (pg_title page) d)"

definition readDump :: "unicode \<Rightarrow> (str \<Rightarrow> str) \<Rightarrow> dump_input \<Rightarrow> dump_error + (dump_state \<times> dumpProvenance)" where
  "readDump u unescape di =
     (if \<not> di_opens di then Inl DumpUnreadable
      else if \<not> di_bzip2 di then Inl NotBzip2
      else case read_pages u unescape (di_pages di) [] no_dump_state of
        Inl e \<Rightarrow> Inl e
      | Inr (lastTitle, d) \<Rightarrow>
          if \<not> di_stream_ok di then Inl (StreamFailed lastTitle)
          else if \<not> di_tail_ok di then Inl TailUnreadable
          else Inr (d, \<lparr>pv_sha256 = di_sha256 di, pv_pages = dm_pages d, pv_fetchedAt = di_fetchedAt di\<rparr>))"

end
