(* ===== verification/Builder_Database.thy ===== *)
theory Builder_Database
  imports Complex_Main Builder_Dump Dictionary_Store
begin

text \<open>
  The tail every build shares (\<open>server/cmd/build-dictionary/main.go\<close>): the aliases, the tables of the database, the file
  moved into place, and the checks on what landed there.

  A database is its tables, a table the rows in it, and SQLite keeps what the schema says: a primary key
  is unique. Which calls of SQLite and of the file system fail is an argument. A Go map is an association list,
  \<open>ord\<close> the order one is ranged over.
\<close>

record tables =
  t_words :: "(str \<times> str \<times> str \<times> nat) list"
  t_syllables :: "(str \<times> int) list"
  t_aliases :: "(str \<times> str) list"
  t_meanings :: "(str \<times> nat \<times> str \<times> str) list"
  t_meta :: "(str \<times> str) list"

record sourceSpec =
  src_table :: str
  src_url :: str
  src_license :: str
  src_attribution :: str
  src_extra :: "(str \<times> str) list"

datatype build_error =
    NoInput | ManyInputs | ExportNeedsDump | DumpNotFound | DumpFailed dump_error | TooFewPages nat | TooFewWords nat
  | StaleTmp | SqlFailed | DuplicateKey str | MeaningWithoutWord str | MeaningOverCap nat str
  | RemoveOldFailed | MoveFailed | VerifyFailed str nat | CoverageFailed nat nat
  | ReadInputFailed | CorpusFailed corpus_error

subsection \<open>Filling the tables\<close>

text \<open>\<open>outDegree[first]++\<close>, and a zero for a last syllable not seen so far.\<close>

definition count_degree :: "entry \<Rightarrow> (str \<times> int) list \<Rightarrow> (str \<times> int) list" where
  "count_degree e degrees =
     (let degrees = AList.update (en_first e) (get_int degrees (en_first e) + 1) degrees
      in if map_of degrees (en_last e) = None then AList.update (en_last e) 0 degrees else degrees)"

fun insert_words :: "entry list \<Rightarrow> (str \<times> str \<times> str \<times> nat) list \<Rightarrow> (str \<times> int) list \<Rightarrow>
    build_error + ((str \<times> str \<times> str \<times> nat) list \<times> (str \<times> int) list)" where
  "insert_words [] rows degrees = Inr (rows, degrees)"
| "insert_words (e # es) rows degrees =
     (if en_word e \<in> fst ` set rows then Inl (DuplicateKey (en_word e))
      else insert_words es (rows @ [(en_word e, en_first e, en_last e, en_syllables e)]) (count_degree e degrees))"

fun insert_senses :: "str \<Rightarrow> nat \<Rightarrow> gloss_sense list \<Rightarrow> build_error + (str \<times> nat \<times> str \<times> str) list" where
  "insert_senses word i [] = Inr []"
| "insert_senses word i (s # ss) =
     (if gs_gloss s = [] \<or> length (gs_gloss s) > maxGlossRunes then Inl (MeaningOverCap i word)
      else case insert_senses word (i + 1) ss of
        Inl e \<Rightarrow> Inl e
      | Inr rows \<Rightarrow> Inr ((word, i, gs_pos s, gs_gloss s) # rows))"

fun insert_meanings :: "(str \<times> entry) list \<Rightarrow> (str \<times> gloss_sense list) list \<Rightarrow> str list \<Rightarrow>
    build_error + (str \<times> nat \<times> str \<times> str) list" where
  "insert_meanings ws ms [] = Inr []"
| "insert_meanings ws ms (word # keys) =
     (if map_of ws word = None then Inl (MeaningWithoutWord word)
      else case insert_senses word 0 (senses_of ms word) of
        Inl e \<Rightarrow> Inl e
      | Inr rows \<Rightarrow> (case insert_meanings ws ms keys of Inl e \<Rightarrow> Inl e | Inr rest \<Rightarrow> Inr (rows @ rest)))"

definition meta_rows :: "(str \<times> entry) list \<Rightarrow> (str \<times> gloss_sense list) list \<Rightarrow> (str \<times> str) list \<Rightarrow> nat \<Rightarrow>
    sourceSpec \<Rightarrow> str \<Rightarrow> (str \<times> str) list" where
  "meta_rows ws ms als senseCount src now =
     [(lit ''source_url'', src_url src), (lit ''source_license'', src_license src),
      (lit ''attribution'', src_attribution src), (lit ''built_at'', now),
      (lit ''builder_version'', RequiredBuilderVersion),
      (lit ''word_count'', digits_of (length ws)), (lit ''alias_count'', digits_of (length als)),
      (lit ''meaning_count'', digits_of senseCount), (lit ''words_with_meaning'', digits_of (length ms)),
      (lit ''source_table'', src_table src)] @ src_extra src"

text \<open>The first key that comes again.\<close>

fun duplicate_key :: "str list \<Rightarrow> str option" where
  "duplicate_key [] = None"
| "duplicate_key (k # ks) = (if k \<in> set ks then Some k else duplicate_key ks)"

definition writeTo :: "(str list \<Rightarrow> str list) \<Rightarrow> str \<Rightarrow> (str \<times> entry) list \<Rightarrow> (str \<times> gloss_sense list) list \<Rightarrow>
    (str \<times> str) list \<Rightarrow> sourceSpec \<Rightarrow> build_error + tables" where
  "writeTo ord now ws ms als src =
     (case insert_words (map (\<lambda>w. the (map_of ws w)) (ord (map fst ws))) [] [] of
        Inl e \<Rightarrow> Inl e
      | Inr (word_rows, degrees) \<Rightarrow>
          (case insert_meanings ws ms (ord (map fst ms)) of
             Inl e \<Rightarrow> Inl e
           | Inr meaning_rows \<Rightarrow>
               (let meta = meta_rows ws ms als (length meaning_rows) src now
                in case duplicate_key (map fst meta) of
                     Some k \<Rightarrow> Inl (DuplicateKey k)
                   | None \<Rightarrow> Inr
                       \<lparr>t_words = word_rows,
                        t_syllables = map (\<lambda>s. (s, get_int degrees s)) (ord (map fst degrees)),
                        t_aliases = map (\<lambda>v. (v, the (map_of als v))) (ord (map fst als)),
                        t_meanings = meaning_rows, t_meta = meta\<rparr>)))"

subsection \<open>Moving the file into place\<close>

record write_faults =
  stale_fails :: bool
  sql_fails :: bool
  move_fails :: bool
  on_windows :: bool
  remove_fails :: bool
  move_again_fails :: bool

definition write_db :: "write_faults \<Rightarrow> str \<Rightarrow> build_error + tables \<Rightarrow> tables files \<Rightarrow> build_error option \<times> tables files" where
  "write_db io path built fs =
     (let tmp = tmp_path path
      in if stale_fails io then (Some StaleTmp, fs)
         else let fs = fs(tmp := None)
              in if sql_fails io then (Some SqlFailed, fs)
                 else case built of
                   Inl e \<Rightarrow> (Some e, fs)
                 | Inr t \<Rightarrow>
                     if \<not> move_fails io then (None, fs(path := Some (Db t)))
                     else if \<not> on_windows io then (Some MoveFailed, fs)
                     else if remove_fails io then (Some RemoveOldFailed, fs)
                     else let fs = fs(path := None)
                          in if move_again_fails io then (Some MoveFailed, fs)
                             else (None, fs(path := Some (Db t))))"

subsection \<open>Reading it back\<close>

definition count_if :: "('a \<Rightarrow> bool) \<Rightarrow> 'a list \<Rightarrow> nat" where
  "count_if f xs = length (filter f xs)"

definition has_word :: "tables \<Rightarrow> str \<Rightarrow> bool" where
  "has_word t w \<longleftrightarrow> w \<in> fst ` set (t_words t)"

text \<open>Each check: what it counts, and which counts pass.\<close>

definition verify_checks :: "nat \<Rightarrow> (string \<times> (tables \<Rightarrow> nat) \<times> (nat \<Rightarrow> bool)) list" where
  "verify_checks minWords =
     [(''words below the minimum'', \<lambda>t. length (t_words t), \<lambda>n. n \<ge> minWords),
      (''words with fewer than 2 syllables'', \<lambda>t. count_if (\<lambda>(w, f, l, n). n < 2) (t_words t), \<lambda>n. n = 0),
      (''words with an empty first or last syllable'', \<lambda>t. count_if (\<lambda>(w, f, l, n). f = [] \<or> l = []) (t_words t), \<lambda>n. n = 0),
      (''aliases pointing at a missing word'', \<lambda>t. count_if (\<lambda>(v, c). \<not> has_word t c) (t_aliases t), \<lambda>n. n = 0),
      (''aliases that are themselves real words'', \<lambda>t. count_if (\<lambda>(v, c). has_word t v) (t_aliases t), \<lambda>n. n = 0),
      (''words whose first syllable is missing from the syllables table'',
         \<lambda>t. count_if (\<lambda>(w, f, l, n). f \<notin> fst ` set (t_syllables t)) (t_words t), \<lambda>n. n = 0),
      (''meanings whose word is missing from the words table'', \<lambda>t. count_if (\<lambda>(w, i, p, g). \<not> has_word t w) (t_meanings t), \<lambda>n. n = 0),
      (''meanings with an empty gloss'', \<lambda>t. count_if (\<lambda>(w, i, p, g). g = []) (t_meanings t), \<lambda>n. n = 0),
      (''meanings over the length cap'', \<lambda>t. count_if (\<lambda>(w, i, p, g). length g > maxGlossRunes) (t_meanings t), \<lambda>n. n = 0),
      (''words with more meanings than the cap'',
         \<lambda>t. count_if (\<lambda>w. count_if (\<lambda>r. fst r = w) (t_meanings t) > maxSenses) (remdups (map fst (t_meanings t))), \<lambda>n. n = 0)]"

fun first_failed :: "tables \<Rightarrow> (string \<times> (tables \<Rightarrow> nat) \<times> (nat \<Rightarrow> bool)) list \<Rightarrow> build_error option" where
  "first_failed t [] = None"
| "first_failed t ((desc, query, want) # cs) =
     (if \<not> want (query t) then Some (VerifyFailed (lit desc) (query t)) else first_failed t cs)"

definition minMeaningCoverage :: rat where "minMeaningCoverage = 6 / 10"

definition verify :: "nat \<Rightarrow> bool \<Rightarrow> tables \<Rightarrow> build_error option" where
  "verify minWords requireCoverage t =
     (case first_failed t (verify_checks minWords) of
        Some e \<Rightarrow> Some e
      | None \<Rightarrow>
          if requireCoverage
          then let wordCount = length (t_words t); withMeaning = length (remdups (map fst (t_meanings t)))
               in if of_nat withMeaning < minMeaningCoverage * of_nat wordCount
                  then Some (CoverageFailed withMeaning wordCount) else None
          else None)"

subsection \<open>The tail of a build\<close>

record config =
  cf_dump :: str
  cf_words :: str
  cf_corpus :: str
  cf_export :: str
  cf_out :: str
  cf_minWords :: nat
  cf_minPages :: nat

text \<open>
  What a build is given: the Unicode tables, the order maps are ranged over, the time, the calls that fail, and its
  inputs, the dump or the text of the word list or corpus (\<open>None\<close> when it cannot be read).
\<close>

record builder_env =
  be_unicode :: unicode
  be_ord :: "str list \<Rightarrow> str list"
  be_now :: str
  be_write :: write_faults
  be_verify_fails :: bool
  be_unescape :: "str \<Rightarrow> str"
  be_dump :: dump_input
  be_input :: "str option"
  be_export :: io_faults

definition finish :: "builder_env \<Rightarrow> config \<Rightarrow> word_data \<Rightarrow> sourceSpec \<Rightarrow> bool \<Rightarrow> tables files \<Rightarrow>
    build_error option \<times> tables files" where
  "finish env cfg = (\<lambda>(ws, ms) src requireCoverage fs.
     if length ws < cf_minWords cfg then (Some (TooFewWords (length ws)), fs)
     else let (als, collisions) = buildAliases (be_unicode env) (be_ord env) ws
          in case write_db (be_write env) (cf_out cfg) (writeTo (be_ord env) (be_now env) ws ms als src) fs of
               (Some e, fs) \<Rightarrow> (Some e, fs)
             | (None, fs) \<Rightarrow>
                 if be_verify_fails env then (Some SqlFailed, fs)
                 else case fs (cf_out cfg) of
                   Some (Db t) \<Rightarrow> (verify (cf_minWords cfg) requireCoverage t, fs)
                 | _ \<Rightarrow> (Some SqlFailed, fs))"

subsection \<open>The modes of a build\<close>

text \<open>\<open>filepath.Base\<close> with the slash as separator.\<close>

definition Base :: "str \<Rightarrow> str" where
  "Base path =
     (if path = [] then lit ''.''
      else let name = after_last 47 (TrimRightFunc (\<lambda>r. r = 47) path) in if name = [] then lit ''/'' else name)"

definition dumpLicense :: str where
  "dumpLicense = lit ''CC BY-SA 4.0 (https://creativecommons.org/licenses/by-sa/4.0/)''"

definition dumpAttribution :: str where
  "dumpAttribution = lit ''See data/ATTRIBUTION.md for required attribution and the list of modifications.''"

definition dumpSourceSpec :: "str \<Rightarrow> dumpProvenance \<Rightarrow> sourceSpec" where
  "dumpSourceSpec path prov =
     \<lparr>src_table = lit ''dump:'' @ Base path, src_url = dumpSourceURL, src_license = dumpLicense,
      src_attribution = dumpAttribution,
      src_extra = [(lit ''source_sha256'', pv_sha256 prov), (lit ''source_pages'', digits_of (pv_pages prov)),
        (lit ''source_fetched_at'', pv_fetchedAt prov)]\<rparr>"

definition runFromDump :: "builder_env \<Rightarrow> config \<Rightarrow> tables files \<Rightarrow> build_error option \<times> tables files" where
  "runFromDump env cfg fs =
     (if \<not> di_exists (be_dump env) then (Some DumpNotFound, fs)
      else case readDump (be_unicode env) (be_unescape env) (be_dump env) of
        Inl e \<Rightarrow> (Some (DumpFailed e), fs)
      | Inr (d, prov) \<Rightarrow>
          if pv_pages prov < cf_minPages cfg then (Some (TooFewPages (pv_pages prov)), fs)
          else case finish env cfg (dm_words d, dm_meanings d) (dumpSourceSpec (cf_dump cfg) prov) True fs of
            (Some e, fs) \<Rightarrow> (Some e, fs)
          | (None, fs) \<Rightarrow>
              if cf_export cfg = [] then (None, fs)
              else case writeCorpus (be_export env) (cf_export cfg) (dm_words d) (dm_meanings d) prov fs of
                (e, fs) \<Rightarrow> (map_option CorpusFailed e, fs))"

definition corpusSourceSpec :: "str \<Rightarrow> (str \<times> str) list \<Rightarrow> sourceSpec" where
  "corpusSourceSpec path header =
     \<lparr>src_table = lit ''corpus:'' @ Base path, src_url = header_value header (lit ''source_url''), src_license = dumpLicense,
      src_attribution = dumpAttribution,
      src_extra = map (\<lambda>key. (key, header_value header key))
        (filter (\<lambda>key. key \<noteq> lit ''source_url'') corpusProvenanceKeys)\<rparr>"

definition runFromCorpus :: "builder_env \<Rightarrow> config \<Rightarrow> tables files \<Rightarrow> build_error option \<times> tables files" where
  "runFromCorpus env cfg fs =
     (case be_input env of
        None \<Rightarrow> (Some (CorpusFailed ReadCorpusFailed), fs)
      | Some raw \<Rightarrow>
          (let header = corpus_header raw
           in case List.find (\<lambda>key. header_value header key = []) corpusProvenanceKeys of
                Some key \<Rightarrow> (Some (CorpusFailed (NotACorpus key)), fs)
              | None \<Rightarrow>
                  finish env cfg (readWordList (be_unicode env) raw) (corpusSourceSpec (cf_corpus cfg) header) True fs))"

definition listSourceSpec :: "str \<Rightarrow> sourceSpec" where
  "listSourceSpec path =
     \<lparr>src_table = lit ''wordlist:'' @ Base path, src_url = [],
      src_license = lit ''none: hand-written fixture wordlist, no upstream data'',
      src_attribution = lit ''Fixture written by this project; no third-party attribution applies.'', src_extra = []\<rparr>"

definition runFromWordList :: "builder_env \<Rightarrow> config \<Rightarrow> tables files \<Rightarrow> build_error option \<times> tables files" where
  "runFromWordList env cfg fs =
     (case be_input env of
        None \<Rightarrow> (Some ReadInputFailed, fs)
      | Some raw \<Rightarrow>
          finish env cfg (readWordList (be_unicode env) raw) (listSourceSpec (cf_words cfg)) False fs)"

definition run_builder :: "builder_env \<Rightarrow> config \<Rightarrow> tables files \<Rightarrow> build_error option \<times> tables files" where
  "run_builder env cfg fs =
     (let inputs = length (filter (\<lambda>path. path \<noteq> []) [cf_dump cfg, cf_words cfg, cf_corpus cfg])
      in if inputs = 0 then (Some NoInput, fs)
         else if inputs > 1 then (Some ManyInputs, fs)
         else if cf_export cfg \<noteq> [] \<and> cf_dump cfg = [] then (Some ExportNeedsDump, fs)
         else if cf_dump cfg \<noteq> [] then runFromDump env cfg fs
         else if cf_corpus cfg \<noteq> [] then runFromCorpus env cfg fs
         else runFromWordList env cfg fs)"

end
