(* ===== verification/Builder_Roundtrip.thy ===== *)
theory Builder_Roundtrip
  imports Builder_Corpus
begin

text \<open>
  What the builder's readers produce (\<open>builder_data\<close>), and that the corpus written from it reads back as the same
  words and meanings.
\<close>

text \<open>
  Beyond what normalisation asks of the Unicode tables, the corpus asks that the mark that opens a comment is no
  letter.
\<close>

definition builder_laws :: "unicode \<Rightarrow> bool" where
  "builder_laws u \<longleftrightarrow> unicode_laws u \<and> is_punct u 35"

definition sense_ok :: "gloss_sense \<Rightarrow> bool" where
  "sense_ok s \<longleftrightarrow> gs_gloss s \<noteq> [] \<and> length (gs_gloss s) \<le> maxGlossRunes"

definition builder_data :: "unicode \<Rightarrow> word_data \<Rightarrow> bool" where
  "builder_data u = (\<lambda>(ws, ms). distinct (map fst ws) \<and> distinct (map fst ms) \<and>
     (\<forall>(w, e) \<in> set ws. \<exists>ss. accept u w = Inr (w, ss) \<and> e = entry_of w ss) \<and>
     (\<forall>(w, ss) \<in> set ms. w \<in> fst ` set ws \<and> ss \<noteq> [] \<and> length ss \<le> maxSenses \<and> (\<forall>s \<in> set ss. sense_ok s)))"

subsection \<open>Glosses\<close>

lemma before_last_space_prefix: "before_last_space s = Some t \<Longrightarrow> prefix t s"
  by (induction s arbitrary: t) (auto split: option.splits if_splits)

lemma capGloss_length: "length (fst (capGloss s)) \<le> maxGlossRunes"
proof (cases "length s \<le> maxGlossRunes")
  case False
  define head where "head = take (maxGlossRunes - length ellipsis) s"
  define head' where "head' = (case before_last_space head of None \<Rightarrow> head | Some h \<Rightarrow> if h = [] then head else h)"
  have "prefix head' head" by (auto simp: head'_def split: option.split dest: before_last_space_prefix)
  then have "prefix (TrimRightFunc f head') head" for f using TrimRightFunc_prefix prefix_order.trans by blast
  then have "length (TrimRightFunc f head') \<le> maxGlossRunes - length ellipsis" for f
    using prefix_length_le [of "TrimRightFunc f head'" head] by (simp add: head_def)
  then have "length (TrimRightFunc f head' @ ellipsis) \<le> maxGlossRunes" for f
    by (auto simp: ellipsis_def maxGlossRunes_def intro: le_trans)
  then show ?thesis unfolding capGloss_def Let_def head_def [symmetric] head'_def [symmetric] using False by simp
qed (simp add: capGloss_def)

lemma capGloss_id: "length s \<le> maxGlossRunes \<Longrightarrow> capGloss s = (s, False)"
  by (simp add: capGloss_def)

lemma capGloss_ne: "s \<noteq> [] \<Longrightarrow> fst (capGloss s) \<noteq> []"
  by (simp add: capGloss_def ellipsis_def Let_def)

lemma capGloss_ok: "s \<noteq> [] \<Longrightarrow> fst (capGloss s) \<noteq> [] \<and> length (fst (capGloss s)) \<le> maxGlossRunes"
  using capGloss_ne capGloss_length by blast

lemma parse_cell_ok: "parse_cell cell = Some s \<Longrightarrow> sense_ok s"
  by (auto simp: parse_cell_def Let_def sense_ok_def capGloss_ne capGloss_length split: if_splits option.splits)

lemma parseSenses_ok: "length (parseSenses cells) \<le> maxSenses \<and> (\<forall>s \<in> set (parseSenses cells). sense_ok s)"
proof (induction cells rule: rev_induct)
  case (snoc cell cells)
  then show ?case using parse_cell_ok [of cell] by (auto simp: parseSenses_def split: option.split)
qed (simp add: parseSenses_def)

subsection \<open>The reader's result\<close>

lemma read_line_data:
  assumes "builder_laws u" and "builder_data u d"
  shows "builder_data u (read_line u d line)"
proof -
  obtain ws ms where d: "d = (ws, ms)" by (cases d)
  show ?thesis
  proof (cases "\<exists>w ss cells. read_line u d line =
      (AList.update w (entry_of w ss) ws, if parseSenses cells \<noteq> [] then AList.update w (parseSenses cells) ms else ms) \<and>
      accept u w = Inr (w, ss)")
    case True
    then obtain w ss cells where r: "read_line u d line =
        (AList.update w (entry_of w ss) ws, if parseSenses cells \<noteq> [] then AList.update w (parseSenses cells) ms else ms)"
      "accept u w = Inr (w, ss)" by blast
    have sub: "set (AList.update k v xs) \<subseteq> insert (k, v) (set xs)" for k :: str and v :: 'b and xs
      by (induction xs) auto
    have keys: "fst ` set (AList.update w (entry_of w ss) ws) = insert w (fst ` set ws)" by (simp add: dom_update)
    have "\<forall>(k, e) \<in> set (AList.update w (entry_of w ss) ws). \<exists>ss. accept u k = Inr (k, ss) \<and> e = entry_of k ss"
    proof -
      have "\<forall>(k, e) \<in> set ws. \<exists>ss. accept u k = Inr (k, ss) \<and> e = entry_of k ss" using assms(2) by (simp add: builder_data_def d)
      then have "\<forall>(k, e) \<in> insert (w, entry_of w ss) (set ws). \<exists>ss. accept u k = Inr (k, ss) \<and> e = entry_of k ss"
        using r(2) by blast
      then show ?thesis using sub [of w "entry_of w ss" ws] by blast
    qed
    moreover define P where "P k cs \<longleftrightarrow> k \<in> insert w (fst ` set ws) \<and> cs \<noteq> [] \<and> length cs \<le> maxSenses \<and>
        (\<forall>s \<in> set cs. sense_ok s)" for k :: str and cs
    have old: "\<forall>(k, cs) \<in> set ms. P k cs" using assms(2) by (auto simp: builder_data_def d P_def)
    moreover have "\<forall>(k, cs) \<in> set (AList.update w (parseSenses cells) ms). P k cs" if "parseSenses cells \<noteq> []"
    proof -
      have "P w (parseSenses cells)" using that parseSenses_ok [of cells] by (simp add: P_def)
      then show ?thesis using old sub [of w "parseSenses cells" ms] by blast
    qed
    moreover have "distinct (map fst ws)" "distinct (map fst ms)" using assms(2) by (simp_all add: builder_data_def d)
    ultimately show ?thesis unfolding r(1) builder_data_def prod.case keys P_def
      by (cases "parseSenses cells = []") (simp_all add: distinct_update)
  next
    case False
    have "read_line u d line = d"
    proof (rule ccontr)
      assume changed: "read_line u d line \<noteq> d"
      then obtain w ss where a: "accept u (hd (Split 9 (TrimSpace line))) = Inr (w, ss)"
        by (auto simp: read_line_def d Let_def split: if_splits sum.splits)
      have "accept u w = Inr (w, ss)" using accept_idem [OF _ a] assms(1) by (simp add: builder_laws_def)
      moreover have "read_line u d line = (AList.update w (entry_of w ss) ws,
          if parseSenses (tl (Split 9 (TrimSpace line))) \<noteq> [] then AList.update w (parseSenses (tl (Split 9 (TrimSpace line)))) ms else ms)"
        using changed a by (auto simp: read_line_def d Let_def split: if_splits)
      ultimately show False using False by blast
    qed
    then show ?thesis using assms(2) by simp
  qed
qed

lemma readWordList_data:
  assumes "builder_laws u"
  shows "builder_data u (readWordList u raw)"
proof -
  have "builder_data u d \<Longrightarrow> builder_data u (foldl (read_line u) d ls)" for d ls
    by (induction ls arbitrary: d) (simp_all add: read_line_data [OF assms])
  then show ?thesis by (simp add: readWordList_def builder_data_def)
qed

subsection \<open>What is written\<close>

definition cell_of :: "gloss_sense \<Rightarrow> str" where
  "cell_of s = gs_pos s @ [124] @ gs_gloss s"

definition line_of :: "(str \<times> gloss_sense list) list \<Rightarrow> str \<Rightarrow> str" where
  "line_of ms word = join [9] (word # map cell_of (senses_of ms word))"

lemma corpusField_None: "corpusField s = None \<longleftrightarrow> 9 \<notin> set s \<and> 13 \<notin> set s \<and> 10 \<notin> set s \<and> trimmed s"
proof -
  have "s \<noteq> TrimSpace s \<longleftrightarrow> \<not> trimmed s" using TrimSpace_id_iff [of s] by argo
  then show ?thesis unfolding corpusField_def by auto
qed

definition writable :: "gloss_sense \<Rightarrow> bool" where
  "writable s \<longleftrightarrow> corpusField (gs_gloss s) = None \<and> corpusField (gs_pos s) = None \<and> 124 \<notin> set (gs_pos s)"

lemma write_senses_cases:
  "if \<forall>s \<in> set ss. writable s then write_senses word i ss = Inr (concat (map (\<lambda>s. 9 # cell_of s) ss))
   else \<exists>e. write_senses word i ss = Inl e"
proof (induction ss arbitrary: i)
  case (Cons s ss)
  show ?case using Cons.IH [of "i + 1"] by (auto simp: writable_def cell_of_def split: if_splits)
qed simp

lemma join_append: "join sep ((a @ b) # xs) = a @ join sep (b # xs)"
  by (cases xs) simp_all

lemma join_tabs: "word @ concat (map (\<lambda>c. 9 # f c) cs) = join [9] (word # map f cs)"
proof (induction cs arbitrary: word)
  case (Cons c cs)
  then show ?case using Cons.IH [of "9 # f c"] join_append [of "[9]" "[9]" "f c"] by simp
qed simp

lemma write_words_cases:
  "if \<forall>w \<in> set keys. corpusField w = None \<and> (\<forall>s \<in> set (senses_of ms w). writable s)
   then write_words ms keys = Inr (concat (map (\<lambda>w. line_of ms w @ [10]) keys))
   else \<exists>e. write_words ms keys = Inl e"
proof (induction keys)
  case (Cons w keys)
  show ?case using Cons.IH write_senses_cases [of "senses_of ms w" w 0]
    by (auto simp: line_of_def join_tabs [symmetric] split: if_splits sum.splits)
qed simp

lemma write_words_Inr:
  "write_words ms keys = Inr t \<Longrightarrow>
     (\<forall>w \<in> set keys. corpusField w = None \<and> (\<forall>s \<in> set (senses_of ms w). writable s)) \<and>
     t = concat (map (\<lambda>w. line_of ms w @ [10]) keys)"
  using write_words_cases [where keys = keys and ms = ms] by (auto split: if_splits)

subsection \<open>And reads back\<close>

lemma separators [simp]: "is_space 9" "is_space 10" "is_space 13" "\<not> is_space 124" "\<not> is_space 35"
  by (simp_all add: is_space_def)

lemma join_sp_ends:
  assumes "fs \<noteq> []" and "\<forall>f \<in> set fs. no_space f"
  shows "join_sp fs \<noteq> [] \<and> \<not> is_space (hd (join_sp fs)) \<and> \<not> is_space (List.last (join_sp fs)) \<and>
    (\<forall>r \<in> set (join_sp fs). r = 32 \<or> \<not> is_space r)"
  using assms
proof (induction fs rule: induct_list012)
  case (3 f g fs)
  then have "f \<noteq> []" "join_sp (g # fs) \<noteq> []" by (auto simp: no_space_def)
  with 3 show ?case by (auto simp: no_space_def hd_append)
qed (auto simp: no_space_def)

lemma accepted_shape:
  assumes "builder_laws u" and "accept u raw = Inr (w, ss)"
  shows "w \<noteq> []" "\<not> is_space (hd w)" "\<not> is_space (List.last w)" "9 \<notin> set w" "10 \<notin> set w" "13 \<notin> set w" "hd w \<noteq> 35" "ss \<noteq> []"
    "trimmed w"
proof -
  have n: "ss \<noteq> []" "w = join_sp ss" "Go_Strings.fields w = ss" using Normalize_syllables assms(2) by (auto simp: accept_Inr)
  then have "\<forall>f \<in> set ss. no_space f" using fields_no_space by metis
  note e = join_sp_ends [OF n(1) this, folded n(2)]
  then show "w \<noteq> []" "\<not> is_space (hd w)" "\<not> is_space (List.last w)" "9 \<notin> set w" "10 \<notin> set w" "13 \<notin> set w" "ss \<noteq> []" "trimmed w"
    using n(1) by (auto simp: trimmed_def)
  have "bad_rune u w = None" using assms(2) by (simp add: accept_Inr)
  moreover have "hd w \<in> set w" "hd w \<noteq> 32" using e by auto
  ultimately have "\<not> is_punct u (hd w)" using bad_rune_None [of u w] by blast
  then show "hd w \<noteq> 35" using assms(1) by (auto simp: builder_laws_def)
qed

lemma cell_shape:
  assumes "writable s" and "sense_ok s"
  shows "9 \<notin> set (cell_of s)" "10 \<notin> set (cell_of s)" "parse_cell (cell_of s) = Some s"
    "cell_of s \<noteq> [] \<and> \<not> is_space (List.last (cell_of s))"
proof -
  have p: "9 \<notin> set (gs_pos s)" "10 \<notin> set (gs_pos s)" "trimmed (gs_pos s)" "124 \<notin> set (gs_pos s)"
    and g: "9 \<notin> set (gs_gloss s)" "10 \<notin> set (gs_gloss s)" "trimmed (gs_gloss s)" "gs_gloss s \<noteq> []"
        "length (gs_gloss s) \<le> maxGlossRunes"
    using assms unfolding writable_def corpusField_None sense_ok_def by blast+
  then show "9 \<notin> set (cell_of s)" "10 \<notin> set (cell_of s)" and ends: "cell_of s \<noteq> [] \<and> \<not> is_space (List.last (cell_of s))"
    by (auto simp: cell_of_def trimmed_def)
  have "hd (cell_of s) = 124 \<or> \<not> is_space (hd (cell_of s))" using p(3) by (cases "gs_pos s") (auto simp: cell_of_def trimmed_def)
  then have "trimmed (cell_of s)" using ends by (auto simp: trimmed_def)
  moreover have "Cut 124 (cell_of s) = Some (gs_pos s, gs_gloss s)" using p(4) by (simp add: cell_of_def Cut_append)
  ultimately show "parse_cell (cell_of s) = Some s"
    using p g ends by (simp add: parse_cell_def TrimSpace_id capGloss_id)
qed

lemma parseSenses_cells:
  assumes "\<forall>s \<in> set ss. writable s \<and> sense_ok s" and "length ss \<le> maxSenses"
  shows "parseSenses (map cell_of ss) = ss"
  using assms
proof (induction ss rule: rev_induct)
  case (snoc s ss)
  then show ?case using cell_shape(3) [of s] by (simp add: parseSenses_def)
qed (simp add: parseSenses_def)

text \<open>A line with its break, as the reader sees it.\<close>

lemma line_shape:
  assumes laws: "builder_laws u" and acc: "accept u w = Inr (w, ss)"
    and cells: "\<forall>s \<in> set (senses_of ms w). writable s \<and> sense_ok s"
  shows "trimmed (line_of ms w)" "line_of ms w \<noteq> []" "hd (line_of ms w) \<noteq> 35" "10 \<notin> set (line_of ms w)"
    "Split 9 (line_of ms w) = w # map cell_of (senses_of ms w)"
proof -
  note w = accepted_shape [OF laws acc]
  define cs where "cs = map cell_of (senses_of ms w)"
  have c: "\<forall>c \<in> set cs. 9 \<notin> set c \<and> 10 \<notin> set c \<and> c \<noteq> [] \<and> \<not> is_space (List.last c)"
    using cells cell_shape by (auto simp: cs_def)
  have l: "line_of ms w = w @ concat (map ((#) 9) cs)"
    unfolding line_of_def cs_def by (simp add: join_tabs [symmetric] o_def)
  show "line_of ms w \<noteq> []" "hd (line_of ms w) \<noteq> 35" "10 \<notin> set (line_of ms w)" using w c by (auto simp: l)
  have "\<not> is_space (List.last (line_of ms w))"
  proof (cases cs rule: rev_cases)
    case (snoc cs' c')
    then show ?thesis using c by (simp add: l)
  qed (simp add: l w)
  then show "trimmed (line_of ms w)" using w by (auto simp: trimmed_def l)
  show "Split 9 (line_of ms w) = w # map cell_of (senses_of ms w)"
    unfolding line_of_def using Split_join [of "w # cs" 9] w c by (simp add: cs_def)
qed

lemma TrimSpace_break: "trimmed l \<Longrightarrow> TrimSpace (l @ [10]) = l"
proof -
  assume t: "trimmed l"
  have "TrimLeftFunc is_space (l @ [10]) = (if l = [] then [] else l @ [10])"
    using t by (cases l) (auto simp: TrimLeftFunc_def trimmed_def)
  then show ?thesis using t by (auto simp: TrimSpace_def trimmed_def TrimRightFunc_id)
qed

lemma read_line_word:
  assumes "builder_laws u" and "accept u w = Inr (w, ss)"
    and "\<forall>s \<in> set (senses_of ms w). writable s \<and> sense_ok s" and "length (senses_of ms w) \<le> maxSenses"
  shows "read_line u (ws0, ms0) (line_of ms w @ [10]) =
    (AList.update w (entry_of w ss) ws0, if senses_of ms w = [] then ms0 else AList.update w (senses_of ms w) ms0)"
  using line_shape [OF assms(1-3)] parseSenses_cells [OF assms(3,4)] assms(2)
  by (simp add: read_line_def TrimSpace_break)

lemma read_line_comment: "trimmed l \<Longrightarrow> l = [] \<or> hd l = 35 \<Longrightarrow> read_line u d (l @ [10]) = d"
  by (cases d) (auto simp: read_line_def TrimSpace_break)

lemma read_lines_words:
  assumes "builder_laws u" and "distinct keys"
    and "\<forall>w \<in> set keys. accept u w = Inr (w, f w) \<and> (\<forall>s \<in> set (senses_of ms w). writable s \<and> sense_ok s) \<and>
      length (senses_of ms w) \<le> maxSenses"
    and "foldl (read_line u) (ws0, ms0) (map (\<lambda>w. line_of ms w @ [10]) keys) = (ws', ms')"
  shows "map_of ws' k = (if k \<in> set keys then Some (entry_of k (f k)) else map_of ws0 k) \<and>
    map_of ms' k = (if k \<in> set keys \<and> senses_of ms k \<noteq> [] then Some (senses_of ms k) else map_of ms0 k)"
  using assms(2-4)
proof (induction keys arbitrary: ws0 ms0)
  case (Cons w keys)
  have "read_line u (ws0, ms0) (line_of ms w @ [10]) =
    (AList.update w (entry_of w (f w)) ws0, if senses_of ms w = [] then ms0 else AList.update w (senses_of ms w) ms0)"
    by (rule read_line_word [OF assms(1)]) (use Cons.prems(2) in auto)
  then show ?case
    using Cons.IH [of "AList.update w (entry_of w (f w)) ws0" "if senses_of ms w = [] then ms0 else AList.update w (senses_of ms w) ms0"]
      Cons.prems by (auto simp: update_conv')
qed simp

text \<open>The corpus is the comments, the header, an empty line and a line per word.\<close>

lemma comment_lines: "\<forall>l \<in> set corpus_comments. 10 \<notin> set l \<and> trimmed l \<and> hd l = 35 \<and> l \<noteq> [] \<and> \<not> prefix corpusHeaderPrefix l"
proof -
  have "list_all (\<lambda>l. 10 \<notin> set l \<and> l \<noteq> [] \<and> hd l = 35 \<and> (tl l \<noteq> [] \<longrightarrow> hd (tl l) \<noteq> 64) \<and>
      List.last l \<in> {121, 109, 46, 35, 110}) corpus_comments"
    by (simp add: corpus_comments_def lit_def)
  then have all: "\<forall>l \<in> set corpus_comments. 10 \<notin> set l \<and> l \<noteq> [] \<and> hd l = 35 \<and> (tl l \<noteq> [] \<longrightarrow> hd (tl l) \<noteq> 64) \<and>
      List.last l \<in> {121, 109, 46, 35, 110}"
    unfolding list_all_iff .
  have "\<forall>r \<in> {35, 121, 109, 46, 110}. \<not> is_space r" by (simp add: is_space_def)
  then have "trimmed l" if "l \<in> set corpus_comments" for l using all that unfolding trimmed_def by (metis insert_iff)
  moreover have "\<not> prefix corpusHeaderPrefix l" if "l \<in> set corpus_comments" for l
  proof
    assume "prefix corpusHeaderPrefix l"
    then obtain t where "l = 35 # 64 # t" by (auto simp: corpusHeaderPrefix_def lit_def prefix_def)
    then show False using all that by fastforce
  qed
  ultimately show ?thesis using all by blast
qed

definition header_lines :: "dumpProvenance \<Rightarrow> str list" where
  "header_lines prov = map (\<lambda>(key, v). corpusHeaderPrefix @ key @ [32] @ v) (zip corpusProvenanceKeys (provenance_values prov))"

definition corpus_lines :: "(str \<times> entry) list \<Rightarrow> (str \<times> gloss_sense list) list \<Rightarrow> dumpProvenance \<Rightarrow> str list" where
  "corpus_lines ws ms prov = corpus_comments @ header_lines prov @ [[]] @ map (line_of ms) (sort (map fst ws))"

definition provenance_ok :: "dumpProvenance \<Rightarrow> bool" where
  "provenance_ok prov \<longleftrightarrow> (\<forall>v \<in> {pv_sha256 prov, pv_fetchedAt prov}. v \<noteq> [] \<and> trimmed v \<and> 10 \<notin> set v)"

lemma digits_of_chars: "\<forall>r \<in> set (digits_of n). 48 \<le> r \<and> r \<le> 57"
proof (induction n rule: digits_of.induct)
  case (1 n)
  then show ?case by (cases "n < 10") (auto simp: digits_of.simps [of n])
qed

lemma digits_of_shape: "digits_of n \<noteq> [] \<and> trimmed (digits_of n) \<and> 10 \<notin> set (digits_of n)"
proof -
  have ne: "digits_of n \<noteq> []" using digits_of_hd by blast
  have "\<not> is_space r" if "r \<in> set (digits_of n)" for r
    using digits_of_chars [of n] that by (auto simp: is_space_def)
  moreover have "10 \<notin> set (digits_of n)" using digits_of_chars [of n] by auto
  ultimately show ?thesis using ne by (simp add: trimmed_def)
qed

lemma corpus_text_lines:
  "corpus_text ws ms prov = Inr text \<Longrightarrow> text = concat (map (\<lambda>l. l @ [10]) (corpus_lines ws ms prov)) \<and>
    (\<forall>w \<in> fst ` set ws. corpusField w = None \<and> (\<forall>s \<in> set (senses_of ms w). writable s))"
proof -
  assume t: "corpus_text ws ms prov = Inr text"
  define keys where "keys = sort (map fst ws)"
  obtain body where b: "write_words ms keys = Inr body"
    using t by (auto simp: corpus_text_def keys_def Let_def split: sum.splits)
  have "concat (map (\<lambda>(key, v). corpusHeaderPrefix @ key @ [32] @ v @ [10]) kvs) =
      concat (map (\<lambda>l. l @ [10]) (map (\<lambda>(key, v). corpusHeaderPrefix @ key @ [32] @ v) kvs))" for kvs
    by (induction kvs) auto
  then have "text = concat (map (\<lambda>l. l @ [10]) (corpus_comments @ header_lines prov @ [[]])) @ body"
    using t b by (simp add: corpus_text_def keys_def [symmetric] Let_def corpusPreamble_def header_lines_def)
  then show ?thesis using write_words_Inr [OF b] by (simp add: corpus_lines_def keys_def o_def)
qed

lemma map_add_late: "m k = None \<Longrightarrow> (h(k \<mapsto> v)) ++ m = h ++ m(k \<mapsto> v)"
  by (auto simp: map_add_def fun_eq_iff split: option.split)

lemma header_lines_shape:
  assumes "provenance_ok prov"
  shows "\<forall>l \<in> set (header_lines prov). trimmed l \<and> 10 \<notin> set l \<and> l \<noteq> [] \<and> hd l = 35"
    and "map_of (foldl header_line h (map (\<lambda>l. l @ [10]) (header_lines prov))) =
      map_of h ++ map_of (zip corpusProvenanceKeys (provenance_values prov))"
proof -
  define kvs where "kvs = zip corpusProvenanceKeys (provenance_values prov)"
  have url: "dumpSourceURL \<noteq> [] \<and> trimmed dumpSourceURL \<and> 10 \<notin> set dumpSourceURL"
    by (simp add: dumpSourceURL_def lit_def trimmed_def is_space_def)
  have keys: "\<forall>k \<in> set corpusProvenanceKeys. 32 \<notin> set k \<and> 10 \<notin> set k" "distinct corpusProvenanceKeys"
    by (simp_all add: corpusProvenanceKeys_def lit_def)
  have kv: "32 \<notin> set k \<and> 10 \<notin> set k \<and> v \<noteq> [] \<and> trimmed v \<and> 10 \<notin> set v" if "(k, v) \<in> set kvs" for k v
  proof -
    have "k \<in> set corpusProvenanceKeys" "v \<in> set (provenance_values prov)"
      using that set_zip_leftD set_zip_rightD unfolding kvs_def by fastforce+
    moreover have "\<forall>v \<in> set (provenance_values prov). v \<noteq> [] \<and> trimmed v \<and> 10 \<notin> set v"
      using assms url digits_of_shape by (simp add: provenance_values_def provenance_ok_def)
    ultimately show ?thesis using keys by blast
  qed
  have l: "trimmed (corpusHeaderPrefix @ k @ [32] @ v)" if "(k, v) \<in> set kvs" for k v
    using kv [OF that] by (auto simp: trimmed_def corpusHeaderPrefix_def lit_def)
  show "\<forall>l \<in> set (header_lines prov). trimmed l \<and> 10 \<notin> set l \<and> l \<noteq> [] \<and> hd l = 35"
    using l kv unfolding header_lines_def kvs_def [symmetric] by (fastforce simp: corpusHeaderPrefix_def lit_def)
  have step: "header_line h ((corpusHeaderPrefix @ k @ [32] @ v) @ [10]) = AList.update k v h" if "(k, v) \<in> set kvs" for k v h
    using TrimSpace_break [OF l [OF that]] kv [OF that] Cut_append [of 32 k v]
    by (simp add: header_line_def TrimSpace_id Let_def)
  have "map_of (foldl header_line h (map (\<lambda>l. l @ [10]) (map (\<lambda>(k, v). corpusHeaderPrefix @ k @ [32] @ v) xs))) =
      map_of h ++ map_of xs" if "set xs \<subseteq> set kvs" "distinct (map fst xs)" for xs
    using that
  proof (induction xs arbitrary: h)
    case (Cons kv xs)
    obtain k v where "kv = (k, v)" by (cases kv)
    moreover from this have "map_of (foldl header_line h (map (\<lambda>l. l @ [10]) (map (\<lambda>(k, v). corpusHeaderPrefix @ k @ [32] @ v) (kv # xs)))) =
        map_of (AList.update k v h) ++ map_of xs"
      using Cons.IH [of "AList.update k v h"] Cons.prems step [of k v h] by simp
    moreover have "(map_of h)(k \<mapsto> v) ++ map_of xs = map_of h ++ (map_of xs)(k \<mapsto> v)"
      using Cons.prems(2) \<open>kv = (k, v)\<close> by (intro map_add_late) (simp add: map_of_eq_None_iff)
    ultimately show ?case by (simp only: update_conv' map_of.simps fst_conv snd_conv)
  qed simp
  from this [of kvs] keys(2) show "map_of (foldl header_line h (map (\<lambda>l. l @ [10]) (header_lines prov))) =
      map_of h ++ map_of (zip corpusProvenanceKeys (provenance_values prov))"
    by (simp add: header_lines_def kvs_def corpusProvenanceKeys_def provenance_values_def)
qed

lemma senses_of_ms:
  assumes "builder_data u (ws, ms)"
  shows "length (senses_of ms w) \<le> maxSenses" "\<forall>s \<in> set (senses_of ms w). sense_ok s"
    "(if senses_of ms w = [] then None else Some (senses_of ms w)) = map_of ms w"
    "senses_of ms w \<noteq> [] \<Longrightarrow> w \<in> fst ` set ws"
proof -
  have "\<forall>(w, ss) \<in> set ms. w \<in> fst ` set ws \<and> ss \<noteq> [] \<and> length ss \<le> maxSenses \<and> (\<forall>s \<in> set ss. sense_ok s)"
    using assms by (simp add: builder_data_def)
  then have "w \<in> fst ` set ws \<and> ss \<noteq> [] \<and> length ss \<le> maxSenses \<and> (\<forall>s \<in> set ss. sense_ok s)" if "map_of ms w = Some ss" for ss
    using map_of_SomeD [OF that] by blast
  then show "length (senses_of ms w) \<le> maxSenses" "\<forall>s \<in> set (senses_of ms w). sense_ok s"
      "(if senses_of ms w = [] then None else Some (senses_of ms w)) = map_of ms w"
      "senses_of ms w \<noteq> [] \<Longrightarrow> w \<in> fst ` set ws"
    unfolding senses_of_def by (cases "map_of ms w"; auto)+
qed

lemma foldl_skip: "\<forall>x \<in> set xs. f d x = d \<Longrightarrow> foldl f d xs = d"
  by (induction xs) auto

lemma corpus_reads_back:
  assumes laws: "builder_laws u" and data: "builder_data u (ws, ms)" and prov: "provenance_ok prov"
    and written: "corpus_text ws ms prov = Inr text"
  shows "map_of (fst (readWordList u text)) = map_of ws"
    and "map_of (snd (readWordList u text)) = map_of ms"
    and "map_of (corpus_header text) = map_of (zip corpusProvenanceKeys (provenance_values prov))"
proof -
  define keys where "keys = sort (map fst ws)"
  define f where "f w = snd (projr (accept u w))" for w
  note t = corpus_text_lines [OF written]
  have entries: "\<forall>(w, e) \<in> set ws. accept u w = Inr (w, f w) \<and> e = entry_of w (f w)"
    using data by (fastforce simp: builder_data_def f_def)
  have keys: "distinct keys" "set keys = fst ` set ws" using data by (simp_all add: keys_def builder_data_def)
  have acc: "accept u w = Inr (w, f w)" if "w \<in> set keys" for w using that entries keys(2) by auto
  have wok: "\<forall>s \<in> set (senses_of ms w). writable s \<and> sense_ok s" if "w \<in> set keys" for w
    using that t senses_of_ms(2) [OF data] keys(2) by blast
  note shape = line_shape [OF laws acc wok]
  have head: "\<forall>l \<in> set (corpus_comments @ header_lines prov @ [[]]). 10 \<notin> set l \<and> trimmed l \<and> (l = [] \<or> hd l = 35)"
    using comment_lines header_lines_shape(1) [OF prov] by (auto simp: trimmed_def)
  have "\<forall>l \<in> set (corpus_lines ws ms prov). 10 \<notin> set l"
    using head shape(4) by (auto simp: corpus_lines_def keys_def [symmetric])
  then have "Lines text = map (\<lambda>l. l @ [10]) (corpus_lines ws ms prov)" using t Lines_concat by blast
  then have lines: "Lines text = map (\<lambda>l. l @ [10]) (corpus_comments @ header_lines prov @ [[]]) @ map (\<lambda>w. line_of ms w @ [10]) keys"
    by (simp add: corpus_lines_def keys_def)
  have "foldl (read_line u) ([], []) (map (\<lambda>l. l @ [10]) (corpus_comments @ header_lines prov @ [[]])) = ([], [])"
  proof (rule foldl_skip, rule ballI)
    fix x assume "x \<in> set (map (\<lambda>l. l @ [10]) (corpus_comments @ header_lines prov @ [[]]))"
    then obtain l where "x = l @ [10]" "l \<in> set (corpus_comments @ header_lines prov @ [[]])" by auto
    then show "read_line u ([], []) x = ([], [])" using head read_line_comment by blast
  qed
  then have "readWordList u text = foldl (read_line u) ([], []) (map (\<lambda>w. line_of ms w @ [10]) keys)"
    by (simp only: readWordList_def lines foldl_append)
  moreover obtain ws' ms' where "foldl (read_line u) ([], []) (map (\<lambda>w. line_of ms w @ [10]) keys) = (ws', ms')" by fastforce
  ultimately have r: "readWordList u text = (ws', ms')" and fold: "foldl (read_line u) ([], []) (map (\<lambda>w. line_of ms w @ [10]) keys) = (ws', ms')"
    by simp_all
  have "\<forall>w \<in> set keys. accept u w = Inr (w, f w) \<and> (\<forall>s \<in> set (senses_of ms w). writable s \<and> sense_ok s) \<and>
      length (senses_of ms w) \<le> maxSenses"
    using acc wok senses_of_ms(1) [OF data] by blast
  note maps = read_lines_words [OF laws keys(1) this fold]
  have "map_of ws' w = map_of ws w" for w
  proof (cases "w \<in> set keys")
    case True
    then obtain e where "map_of ws w = Some e" using keys(2) by (metis map_of_eq_None_iff not_None_eq)
    then show ?thesis using maps [of w] True entries by (auto dest: map_of_SomeD)
  next
    case False
    then have "map_of ws w = None" using keys(2) by (simp add: map_of_eq_None_iff)
    moreover have "map_of ws' w = None" using maps [of w] False by auto
    ultimately show ?thesis by simp
  qed
  then show "map_of (fst (readWordList u text)) = map_of ws" by (simp add: r fun_eq_iff)
  have "map_of ms' w = map_of ms w" for w
  proof -
    have "map_of ms' w = (if w \<in> set keys \<and> senses_of ms w \<noteq> [] then Some (senses_of ms w) else None)"
      using maps [of w] by simp
    also have "\<dots> = (if senses_of ms w = [] then None else Some (senses_of ms w))"
      using senses_of_ms(4) [OF data, of w] keys(2) by metis
    finally show ?thesis unfolding senses_of_ms(3) [OF data] .
  qed
  then show "map_of (snd (readWordList u text)) = map_of ms" by (simp add: r fun_eq_iff)
  have skip: "header_line h (l @ [10]) = h" if "trimmed l" "\<not> prefix corpusHeaderPrefix l" for h l
    using that by (simp add: header_line_def TrimSpace_break)
  have "\<not> prefix corpusHeaderPrefix (line_of ms w)" if "w \<in> set keys" for w
    using shape(2,3) [OF that that] by (auto simp: corpusHeaderPrefix_def lit_def prefix_def)
  then have "foldl header_line h (map (\<lambda>w. line_of ms w @ [10]) keys) = h" for h
    by (intro foldl_skip) (use skip shape(1) in auto)
  moreover have "foldl header_line [] (map (\<lambda>l. l @ [10]) corpus_comments) = []"
    by (rule foldl_skip) (use skip comment_lines in auto)
  moreover have "header_line h ([] @ [10]) = h" for h
    by (rule skip) (simp_all add: trimmed_def corpusHeaderPrefix_def lit_def)
  ultimately have "corpus_header text = foldl header_line [] (map (\<lambda>l. l @ [10]) (header_lines prov))"
    by (simp add: corpus_header_def lines)
  then show "map_of (corpus_header text) = map_of (zip corpusProvenanceKeys (provenance_values prov))"
    using header_lines_shape(2) [OF prov, of "[]"] by simp
qed

end
