(* ===== verification/Builder_Facts.thy ===== *)
theory Builder_Facts
  imports Builder_Database Builder_Roundtrip Dictionary_Facts
begin

text \<open>
  What a build writes: the rows of the tables, that they pass every check of the re-read, and that the server's store
  opens on them.
\<close>

subsection \<open>Words and degrees\<close>

definition word_row :: "entry \<Rightarrow> str \<times> str \<times> str \<times> nat" where
  "word_row e = (en_word e, en_first e, en_last e, en_syllables e)"

lemma insert_words_ok:
  assumes "distinct (map en_word es)" and "\<forall>e \<in> set es. en_word e \<notin> fst ` set rows"
  shows "insert_words es rows degrees = Inr (rows @ map word_row es, fold count_degree es degrees)"
  using assms
proof (induction es arbitrary: rows degrees)
  case (Cons e es)
  have "\<forall>e' \<in> set es. en_word e' \<notin> fst ` set (rows @ [word_row e])" using Cons.prems
    by (auto simp: word_row_def) (metis imageI)
  then show ?case using Cons by (simp add: word_row_def)
qed simp

lemma get_int_update: "get_int (AList.update k v m) k' = (if k' = k then v else get_int m k')"
  by (simp add: get_int_def update_conv')

lemma count_degree_facts:
  "get_int (count_degree e m) k = get_int m k + (if k = en_first e then 1 else 0)"
  "fst ` set (count_degree e m) = insert (en_first e) (insert (en_last e) (fst ` set m))"
  "distinct (map fst m) \<Longrightarrow> distinct (map fst (count_degree e m))"
proof -
  have new: "map_of m k = None \<Longrightarrow> get_int m k = 0" for m :: "(str \<times> int) list" and k by (simp add: get_int_def)
  show "get_int (count_degree e m) k = get_int m k + (if k = en_first e then 1 else 0)"
    using new [of m "en_last e"] by (auto simp: count_degree_def Let_def get_int_update update_conv')
  show "fst ` set (count_degree e m) = insert (en_first e) (insert (en_last e) (fst ` set m))"
    by (auto simp: count_degree_def Let_def dom_update update_conv' map_of_eq_None_iff split: if_splits)
  show "distinct (map fst m) \<Longrightarrow> distinct (map fst (count_degree e m))"
    by (simp add: count_degree_def Let_def distinct_update)
qed

lemma degrees_facts:
  "get_int (fold count_degree es m) k = get_int m k + int (count_if (\<lambda>e. en_first e = k) es)"
  "fst ` set (fold count_degree es m) = en_first ` set es \<union> en_last ` set es \<union> fst ` set m"
  "distinct (map fst m) \<Longrightarrow> distinct (map fst (fold count_degree es m))"
  by (induction es arbitrary: m) (auto simp: count_degree_facts count_if_def)

subsection \<open>Meanings\<close>

definition sense_row :: "str \<Rightarrow> nat \<times> gloss_sense \<Rightarrow> str \<times> nat \<times> str \<times> str" where
  "sense_row word = (\<lambda>(i, s). (word, i, gs_pos s, gs_gloss s))"

definition sense_rows :: "(str \<times> gloss_sense list) list \<Rightarrow> str \<Rightarrow> (str \<times> nat \<times> str \<times> str) list" where
  "sense_rows ms word = map (sense_row word) (List.enumerate 0 (senses_of ms word))"

lemma insert_senses_ok:
  "\<forall>s \<in> set ss. sense_ok s \<Longrightarrow> insert_senses word i ss = Inr (map (sense_row word) (List.enumerate i ss))"
  by (induction ss arbitrary: i) (auto simp: sense_ok_def sense_row_def)

lemma insert_meanings_ok:
  assumes "\<forall>w \<in> set keys. map_of ws w \<noteq> None \<and> (\<forall>s \<in> set (senses_of ms w). sense_ok s)"
  shows "insert_meanings ws ms keys = Inr (concat (map (sense_rows ms) keys))"
  using assms by (induction keys) (auto simp: insert_senses_ok sense_rows_def)

subsection \<open>The tables\<close>

lemma duplicate_key_None: "duplicate_key ks = None \<longleftrightarrow> distinct ks"
  by (induction ks) auto

text \<open>The rows a source adds of its own have keys of their own.\<close>

definition meta_keys :: "str list" where
  "meta_keys = [lit ''source_url'', lit ''source_license'', lit ''attribution'', lit ''built_at'', lit ''builder_version'',
     lit ''word_count'', lit ''alias_count'', lit ''meaning_count'', lit ''words_with_meaning'', lit ''source_table'']"

definition src_ok :: "sourceSpec \<Rightarrow> bool" where
  "src_ok src \<longleftrightarrow> distinct (map fst (src_extra src)) \<and> set (map fst (src_extra src)) \<inter> set meta_keys = {}"

lemma meta_rows_keys: "src_ok src \<Longrightarrow> distinct (map fst (meta_rows ws ms als n src now))"
proof -
  assume "src_ok src"
  moreover have "map fst (meta_rows ws ms als n src now) = meta_keys @ map fst (src_extra src)"
    by (simp add: meta_rows_def meta_keys_def)
  moreover have "distinct meta_keys" by (simp add: meta_keys_def lit_def)
  ultimately show ?thesis by (auto simp: src_ok_def)
qed

text \<open>What \<open>writeTo\<close> puts into the tables, whatever the orders.\<close>

definition filled :: "(str \<times> entry) list \<Rightarrow> (str \<times> gloss_sense list) list \<Rightarrow> (str \<times> str) list \<Rightarrow> tables \<Rightarrow> bool" where
  "filled ws ms als t \<longleftrightarrow>
     mset (t_words t) = mset (map (word_row \<circ> snd) ws) \<and>
     distinct (map fst (t_syllables t)) \<and>
     (\<forall>k. map_of (t_syllables t) k = (if k \<in> en_first ` snd ` set ws \<union> en_last ` snd ` set ws
        then Some (int (count_if (\<lambda>p. en_first (snd p) = k) ws)) else None)) \<and>
     mset (t_aliases t) = mset als \<and>
     (\<exists>keys. mset keys = mset (map fst ms) \<and> t_meanings t = concat (map (sense_rows ms) keys)) \<and>
     map_of (t_meta t) (lit ''builder_version'') = Some RequiredBuilderVersion \<and>
     map_of (t_meta t) (lit ''source_license'') \<noteq> None \<and>
     map_of (t_meta t) (lit ''word_count'') = Some (digits_of (length ws)) \<and>
     map_of (t_meta t) (lit ''meaning_count'') = Some (digits_of (length (t_meanings t)))"

lemma map_the_map_of: "distinct (map fst m) \<Longrightarrow> set ks = fst ` set m \<Longrightarrow> distinct ks \<Longrightarrow>
    mset (map (\<lambda>k. (k, the (map_of m k))) ks) = mset m"
proof -
  assume d: "distinct (map fst m)" "set ks = fst ` set m" "distinct ks"
  have "set (map (\<lambda>k. (k, the (map_of m k))) ks) = set m"
    using d by (force simp: image_iff)
  moreover have "distinct (map (\<lambda>k. (k, the (map_of m k))) ks)" using d(3) by (simp add: distinct_map inj_on_def)
  moreover have "distinct m" using d(1) by (simp add: distinct_map)
  ultimately show ?thesis using set_eq_iff_mset_eq_distinct by blast
qed

lemma writeTo_filled:
  assumes data: "builder_data u (ws, ms)" and ord: "range_order ord" and als: "distinct (map fst als)" and src: "src_ok src"
  shows "\<exists>t. writeTo ord now ws ms als src = Inr t \<and> filled ws ms als t"
proof -
  define es where "es = map (\<lambda>w. the (map_of ws w)) (ord (map fst ws))"
  define degrees where "degrees = fold count_degree es []"
  define keys where "keys = ord (map fst ms)"
  have dw: "distinct (map fst ws)" and dm: "distinct (map fst ms)" using data by (simp_all add: builder_data_def)
  have names: "\<forall>(w, e) \<in> set ws. en_word e = w" using data by (fastforce simp: builder_data_def entry_of_def)
  have "mset (map (\<lambda>w. (w, the (map_of ws w))) (ord (map fst ws))) = mset ws"
    by (rule map_the_map_of [OF dw]) (use ord dw range_order_set [OF ord] range_order_distinct [OF ord] in simp_all)
  then have "mset (map snd (map (\<lambda>w. (w, the (map_of ws w))) (ord (map fst ws)))) = mset (map snd ws)" by (metis mset_map)
  then have es: "mset es = mset (map snd ws)" by (simp add: es_def image_mset.compositionality o_def)
  have "map en_word (map snd ws) = map fst ws" using names by (auto simp: case_prod_beta)
  then have "mset (map en_word es) = mset (map fst ws)" using es by (metis mset_map)
  then have "distinct (map en_word es)" using dw by (metis mset_eq_imp_distinct_iff)
  then have w: "insert_words es [] [] = Inr (map word_row es, degrees)" by (simp add: insert_words_ok degrees_def)
  have "\<forall>w \<in> set keys. map_of ws w \<noteq> None \<and> (\<forall>s \<in> set (senses_of ms w). sense_ok s)"
    using data senses_of_ms(2) [OF data] range_order_set [OF ord, of "map fst ms"]
    by (fastforce simp: keys_def builder_data_def map_of_eq_None_iff)
  then have m: "insert_meanings ws ms keys = Inr (concat (map (sense_rows ms) keys))" by (rule insert_meanings_ok)
  define t where "t = \<lparr>t_words = map word_row es, t_syllables = map (\<lambda>s. (s, get_int degrees s)) (ord (map fst degrees)),
      t_aliases = map (\<lambda>v. (v, the (map_of als v))) (ord (map fst als)),
      t_meanings = concat (map (sense_rows ms) keys),
      t_meta = meta_rows ws ms als (length (concat (map (sense_rows ms) keys))) src now\<rparr>"
  have "writeTo ord now ws ms als src = Inr t"
    using w m meta_rows_keys [OF src]
    by (simp add: writeTo_def es_def [symmetric] keys_def [symmetric] Let_def t_def duplicate_key_None [symmetric])
  moreover have "filled ws ms als t"
  proof -
    have 1: "mset (t_words t) = mset (map (word_row \<circ> snd) ws)" 
    proof -
      have "mset (map word_row es) = mset (map word_row (map snd ws))" unfolding mset_map es ..
      then show ?thesis unfolding map_map by (simp only: t_def tables.simps)
    qed
    have d: "distinct (map fst degrees)" by (simp add: degrees_def degrees_facts(3))
    have ddo: "distinct (ord (map fst degrees))" using d range_order_distinct [OF ord] by simp
    then have 2: "distinct (map fst (t_syllables t))" by (simp add: t_def o_def)
    have ses: "set es = snd ` set ws" using es by (metis list.set_map mset_eq_setD)
    have "map_of (t_syllables t) k = (if k \<in> fst ` set degrees then Some (get_int degrees k) else None)" for k
      using range_order_set [OF ord, of "map fst degrees"] by (simp add: t_def map_of_map_restrict restrict_map_def)
    moreover have "count_if f es = count_if f (map snd ws)" for f
      using es unfolding count_if_def by (metis mset_filter size_mset)
    ultimately have 3: "map_of (t_syllables t) k = (if k \<in> en_first ` snd ` set ws \<union> en_last ` snd ` set ws
        then Some (int (count_if (\<lambda>p. en_first (snd p) = k) ws)) else None)" for k
      unfolding degrees_def degrees_facts ses by (simp add: get_int_def count_if_def filter_map o_def case_prod_beta)
    have 4: "mset (t_aliases t) = mset als" unfolding t_def
      using map_the_map_of [OF als] als range_order_set [OF ord] range_order_distinct [OF ord] by simp
    have 5: "mset keys = mset (map fst ms)" using ord by (simp add: keys_def range_order_def)
    have 6: "map_of (t_meta t) (lit ''builder_version'') = Some RequiredBuilderVersion"
      "map_of (t_meta t) (lit ''source_license'') \<noteq> None"
      "map_of (t_meta t) (lit ''word_count'') = Some (digits_of (length ws))"
      "map_of (t_meta t) (lit ''meaning_count'') = Some (digits_of (length (t_meanings t)))"
      by (simp_all add: t_def meta_rows_def lit_def)
    show ?thesis unfolding filled_def using 1 2 3 4 5 6 by (auto simp: t_def)
  qed
  ultimately show ?thesis by blast
qed

subsection \<open>The re-read finds nothing wrong\<close>

lemma filled_rows:
  assumes data: "builder_data u (ws, ms)" and t: "filled ws ms als t"
  shows "has_word t w \<longleftrightarrow> map_of ws w \<noteq> None" "length (t_words t) = length ws" "distinct (map fst (t_words t))"
    "r \<in> set (t_words t) \<Longrightarrow> \<exists>w ss. r = (w, hd ss, List.last ss, length ss) \<and> accept u w = Inr (w, ss) \<and> map_of ws w = Some (entry_of w ss)"
    "map_of ws w = Some e \<Longrightarrow> (w, en_first e, en_last e, en_syllables e) \<in> set (t_words t)"
    "set (t_aliases t) = set als"
    "q \<in> set (t_meanings t) \<Longrightarrow> \<exists>w i s. q = sense_row w (i, s) \<and> map_of ws w \<noteq> None \<and> map_of ms w \<noteq> None \<and> sense_ok s"
    "filter (\<lambda>r. fst r = w) (t_meanings t) = sense_rows ms w"
proof -
  have dw: "distinct (map fst ws)" and dm: "distinct (map fst ms)" using data by (simp_all add: builder_data_def)
  have ents: "\<forall>(w, e) \<in> set ws. \<exists>ss. accept u w = Inr (w, ss) \<and> e = entry_of w ss" using data by (simp add: builder_data_def)
  have names: "map (fst \<circ> (word_row \<circ> snd)) ws = map fst ws"
  proof (rule map_cong [OF refl])
    fix p assume "p \<in> set ws"
    then show "(fst \<circ> (word_row \<circ> snd)) p = fst p" using ents by (cases p) (auto simp: word_row_def entry_of_def)
  qed
  have mw: "mset (t_words t) = mset (map (word_row \<circ> snd) ws)" using t by (simp add: filled_def)
  then have sw: "set (t_words t) = (word_row \<circ> snd) ` set ws" by (metis list.set_map mset_eq_setD)
  have "mset (map fst (t_words t)) = mset (map fst (map (word_row \<circ> snd) ws))" by (simp only: mset_map [of fst] mw)
  then have mf: "mset (map fst (t_words t)) = mset (map fst ws)" unfolding map_map names .
  show "length (t_words t) = length ws" using mw by (metis length_map size_mset)
  show "distinct (map fst (t_words t))" using mf dw by (metis mset_eq_imp_distinct_iff)
  have "set (map fst (t_words t)) = set (map fst ws)" using mf by (rule mset_eq_setD)
  then show "has_word t w \<longleftrightarrow> map_of ws w \<noteq> None" by (simp add: has_word_def map_of_eq_None_iff)
  show "\<exists>w ss. r = (w, hd ss, List.last ss, length ss) \<and> accept u w = Inr (w, ss) \<and> map_of ws w = Some (entry_of w ss)"
    if r: "r \<in> set (t_words t)" for r
  proof -
    obtain w e where p: "(w, e) \<in> set ws" "r = word_row e" using r sw by auto
    moreover obtain ss where "accept u w = Inr (w, ss)" "e = entry_of w ss" using p(1) ents by auto
    moreover have "map_of ws w = Some e" using p(1) dw by simp
    ultimately show ?thesis by (auto simp: word_row_def entry_of_def)
  qed
  show "(w, en_first e, en_last e, en_syllables e) \<in> set (t_words t)" if "map_of ws w = Some e" for w e
  proof -
    have p: "(w, e) \<in> set ws" using that by (rule map_of_SomeD)
    then have "en_word e = w" using ents by (auto simp: entry_of_def)
    then show ?thesis unfolding sw using p by (force simp: word_row_def)
  qed
  show "set (t_aliases t) = set als" using t by (metis filled_def mset_eq_setD)
  obtain keys where keys: "mset keys = mset (map fst ms)" "t_meanings t = concat (map (sense_rows ms) keys)"
    using t by (auto simp: filled_def)
  have sk: "set keys = fst ` set ms" "distinct keys" using keys(1) dm by (metis list.set_map mset_eq_setD, metis mset_eq_imp_distinct_iff)
  show "\<exists>w i s. q = sense_row w (i, s) \<and> map_of ws w \<noteq> None \<and> map_of ms w \<noteq> None \<and> sense_ok s" if q: "q \<in> set (t_meanings t)" for q
  proof -
    obtain w i s where w: "w \<in> set keys" "q = sense_row w (i, s)" "(i, s) \<in> set (List.enumerate 0 (senses_of ms w))"
      using q by (auto simp: keys(2) sense_rows_def)
    have "s \<in> set (senses_of ms w)" using w(3) nth_mem [of i "senses_of ms w"] by (auto simp: in_set_enumerate_eq)
    with senses_of_ms(2) [OF data] have "sense_ok s" by blast
    moreover have "map_of ms w \<noteq> None" using w(1) sk(1) by (simp add: map_of_eq_None_iff)
    moreover have "map_of ws w \<noteq> None"
      using senses_of_ms(4) [OF data, of w] \<open>s \<in> set (senses_of ms w)\<close> by (cases "senses_of ms w = []") (auto simp: map_of_eq_None_iff)
    ultimately show ?thesis using w(2) by blast
  qed
  have fst_rows: "\<forall>r \<in> set (sense_rows ms k). fst r = k" for k by (auto simp: sense_rows_def sense_row_def)
  have "filter (\<lambda>r. fst r = w) (concat (map (sense_rows ms) ks)) = (if w \<in> set ks then sense_rows ms w else [])"
    if "distinct ks" for ks
    using that
  proof (induction ks)
    case (Cons k ks)
    have "filter (\<lambda>r. fst r = w) (sense_rows ms k) = (if k = w then sense_rows ms k else [])"
      using fst_rows [of k] by (auto simp: filter_empty_conv intro: filter_True)
    then show ?case using Cons by auto
  qed simp
  moreover have "w \<notin> set keys \<Longrightarrow> map_of ms w = None" using sk(1) by (simp add: map_of_eq_None_iff)
  then have "w \<notin> set keys \<Longrightarrow> sense_rows ms w = []" by (simp add: sense_rows_def senses_of_def)
  ultimately show "filter (\<lambda>r. fst r = w) (t_meanings t) = sense_rows ms w" using sk(2) by (simp add: keys(2))
qed

lemma verify_passes:
  assumes laws: "builder_laws u" and data: "builder_data u (ws, ms)" and t: "filled ws ms als t"
    and als: "\<forall>(v, w) \<in> set als. map_of ws v = None \<and> map_of ws w \<noteq> None"
  shows "first_failed t (verify_checks n) =
    (if n \<le> length ws then None else Some (VerifyFailed (lit ''words below the minimum'') (length ws)))"
proof -
  note r = filled_rows [OF data t]
  have zero: "count_if f xs = 0 \<longleftrightarrow> (\<forall>x \<in> set xs. \<not> f x)" for f and xs :: "'z list"
    by (simp add: count_if_def filter_empty_conv)
  have syl: "2 \<le> length ss \<and> hd ss \<noteq> [] \<and> List.last ss \<noteq> []" if "accept u w = Inr (w, ss)" for w ss
  proof -
    have n: "ss \<noteq> []" "Go_Strings.fields w = ss" "HasEnoughSyllables ss"
      using that Normalize_syllables by (auto simp: accept_Inr)
    then have "\<forall>f \<in> set ss. f \<noteq> []" using fields_no_space [of _ w] by (auto simp: no_space_def)
    then show ?thesis using n by (simp add: HasEnoughSyllables_def MinSyllables_def)
  qed
  have 1: "count_if (\<lambda>(w, f, l, n). n < 2) (t_words t) = 0" unfolding zero using r(4) syl by fastforce
  have 2: "count_if (\<lambda>(w, f, l, n). f = [] \<or> l = []) (t_words t) = 0" unfolding zero using r(4) syl by fastforce
  have 3: "count_if (\<lambda>(v, c). \<not> has_word t c) (t_aliases t) = 0" "count_if (\<lambda>(v, c). has_word t v) (t_aliases t) = 0"
    unfolding zero r(1) r(6) using als by auto
  have keys: "fst ` set (t_syllables t) = {k. map_of (t_syllables t) k \<noteq> None}" by (auto simp: map_of_eq_None_iff)
  have 4: "count_if (\<lambda>(w, f, l, n). f \<notin> fst ` set (t_syllables t)) (t_words t) = 0"
    unfolding zero
  proof
    fix x assume "x \<in> set (t_words t)"
    then obtain w ss where x: "x = (w, hd ss, List.last ss, length ss)" "map_of ws w = Some (entry_of w ss)" using r(4) by blast
    then have "hd ss \<in> en_first ` snd ` set ws" using map_of_SomeD [OF x(2)] by (force simp: entry_of_def image_iff)
    then have "map_of (t_syllables t) (hd ss) \<noteq> None" using t by (auto simp: filled_def)
    then show "\<not> (case x of (w, f, l, n) \<Rightarrow> f \<notin> fst ` set (t_syllables t))" by (simp add: x(1) keys)
  qed
  have 5: "count_if (\<lambda>(w, i, p, g). \<not> has_word t w) (t_meanings t) = 0" "count_if (\<lambda>(w, i, p, g). g = []) (t_meanings t) = 0"
      "count_if (\<lambda>(w, i, p, g). length g > maxGlossRunes) (t_meanings t) = 0"
    unfolding zero r(1) using r(7) by (fastforce simp: sense_row_def sense_ok_def)+
  have 6: "count_if (\<lambda>w. count_if (\<lambda>r. fst r = w) (t_meanings t) > maxSenses) (remdups (map fst (t_meanings t))) = 0"
    unfolding zero using senses_of_ms(1) [OF data] by (simp add: count_if_def r(8) sense_rows_def not_less)
  show ?thesis by (simp add: verify_checks_def 1 2 3 4 5 6 r(2))
qed

subsection \<open>The server's store opens on it\<close>

text \<open>
  The file's tables as the store's queries (\<open>store.go\<close>) answer them: \<open>meta\<close> by key, every other
  table's rows once each, the senses of a word by their \<open>ord\<close>. The order of words is left open.
\<close>

definition serves :: "tables \<Rightarrow> database \<Rightarrow> bool" where
  "serves t db \<longleftrightarrow>
     (\<forall>k. db_meta db k = (case map_of (t_meta t) k of None \<Rightarrow> NoRows | Some v \<Rightarrow> Scanned v)) \<and>
     (\<exists>rs. db_syllables db = Rows rs \<and> mset rs = mset (t_syllables t)) \<and>
     (\<exists>rs. db_words db = Rows rs \<and> mset rs = mset (map (\<lambda>(w, f, l, n). (w, f, l)) (t_words t))) \<and>
     (\<exists>rs. db_aliases db = Rows rs \<and> mset rs = mset (t_aliases t)) \<and>
     (\<exists>qs. db_meanings db = Rows (map (\<lambda>(w, i, p, g). (w, \<lparr>Pos = p, Gloss = g\<rparr>)) qs) \<and>
        mset qs = mset (t_meanings t) \<and> sorted_wrt (\<lambda>(w, i, _) (w', i', _). w = w' \<longrightarrow> i \<le> i') qs)"

definition as_sense :: "gloss_sense \<Rightarrow> sense" where
  "as_sense s = \<lparr>Pos = gs_pos s, Gloss = gs_gloss s\<rparr>"

lemma fold_syllables:
  "outDegree (fold add_syllable rs s) = fold (\<lambda>(k, n). AList.update k n) rs (outDegree s)"
  "words (fold add_syllable rs s) = words s" "byFirst (fold add_syllable rs s) = byFirst s"
  "openers (fold add_syllable rs s) = openers s" "aliases (fold add_syllable rs s) = aliases s"
  "meanings (fold add_syllable rs s) = meanings s" "meaningCount (fold add_syllable rs s) = meaningCount s"
  by (induction rs arbitrary: s) (simp_all add: add_syllable_def split_def)

lemma fold_aliases:
  "aliases (fold add_alias rs s) = fold (\<lambda>(k, n). AList.update k n) rs (aliases s)"
  "words (fold add_alias rs s) = words s" "byFirst (fold add_alias rs s) = byFirst s"
  "openers (fold add_alias rs s) = openers s" "outDegree (fold add_alias rs s) = outDegree s"
  "meanings (fold add_alias rs s) = meanings s" "meaningCount (fold add_alias rs s) = meaningCount s"
  by (induction rs arbitrary: s) (simp_all add: add_alias_def split_def)

lemma fold_words:
  "words (fold add_word rs s) = fold (\<lambda>(w, f, l). AList.update w \<lparr>wi_first = f, wi_last = l\<rparr>) rs (words s)"
  "get_list (byFirst (fold add_word rs s)) f = get_list (byFirst s) f @ map fst (filter (\<lambda>r. fst (snd r) = f) rs)"
  "outDegree (fold add_word rs s) = outDegree s" "aliases (fold add_word rs s) = aliases s"
  "meanings (fold add_word rs s) = meanings s" "meaningCount (fold add_word rs s) = meaningCount s"
  by (induction rs arbitrary: s) (simp_all add: add_word_def Let_def split_def)

lemma fold_meanings:
  "get_list (meanings (fold add_meaning rs s)) w = get_list (meanings s) w @ map snd (filter (\<lambda>r. fst r = w) rs)"
  "fst ` set (meanings (fold add_meaning rs s)) = fst ` set (meanings s) \<union> fst ` set rs"
  "meaningCount (fold add_meaning rs s) = meaningCount s + length rs"
  "words (fold add_meaning rs s) = words s" "byFirst (fold add_meaning rs s) = byFirst s"
  "openers (fold add_meaning rs s) = openers s" "outDegree (fold add_meaning rs s) = outDegree s"
  "aliases (fold add_meaning rs s) = aliases s"
  by (induction rs arbitrary: s) (auto simp: add_meaning_def append_to_def dom_update split_def get_list_def)

lemma fold_update_facts:
  "map_of (fold (\<lambda>(k, v). AList.update k v) rs m) = map_of m ++ map_of (rev rs)"
  "distinct (map fst m) \<Longrightarrow> distinct (map fst (fold (\<lambda>(k, v). AList.update k v) rs m))"
  by (induction rs arbitrary: m) (auto simp: distinct_update)

lemma fold_update_new:
  assumes "distinct (map fst rs)"
  shows "map_of (fold (\<lambda>(k, v). AList.update k v) rs []) = map_of rs"
    "length (fold (\<lambda>(k, v). AList.update k v) rs []) = length rs"
proof -
  let ?m = "fold (\<lambda>(k, v). AList.update k v) rs []"
  have d: "distinct (map fst (rev rs))" using assms by (simp add: rev_map [symmetric])
  have "map_of (rev rs) = map_of rs" using map_of_inject_set [OF d assms] by simp
  then show m: "map_of ?m = map_of rs" by (simp add: fold_update_facts)
  have "fst ` set ?m = fst ` set rs" using m by (metis dom_map_of_conv_image_fst)
  moreover have "distinct (map fst ?m)" by (simp add: fold_update_facts)
  ultimately show "length ?m = length rs" using assms by (metis distinct_card length_map list.set_map)
qed

lemma senses_of_rows:
  "map (\<lambda>(w, i, p, g). \<lparr>Pos = p, Gloss = g\<rparr>) (map (sense_row w) (List.enumerate n ss)) = map as_sense ss"
  by (induction ss arbitrary: n) (simp_all add: sense_row_def as_sense_def)

lemma serves_lists:
  assumes data: "builder_data u (ws, ms)" and t: "filled ws ms als t" and als: "distinct (map fst als)"
    and serve: "serves t db"
  obtains ss rs as qs where "db_syllables db = Rows ss" "distinct (map fst ss)" "map_of ss = map_of (t_syllables t)"
    "db_words db = Rows rs" "distinct (map fst rs)" "length rs = length ws"
    "mset rs = mset (map (\<lambda>p. (en_word (snd p), en_first (snd p), en_last (snd p))) ws)"
    "db_aliases db = Rows as" "distinct (map fst as)" "map_of as = map_of als"
    "db_meanings db = Rows qs" "length qs = length (t_meanings t)" "fst ` set qs = fst ` set (t_meanings t)"
    "\<forall>w. map snd (filter (\<lambda>r. fst r = w) qs) = map as_sense (senses_of ms w)"
proof -
  note r = filled_rows [OF data t]
  obtain ss rs as qs where l: "db_syllables db = Rows ss" "mset ss = mset (t_syllables t)"
      "db_words db = Rows rs" "mset rs = mset (map (\<lambda>(w, f, l, n). (w, f, l)) (t_words t))"
      "db_aliases db = Rows as" "mset as = mset (t_aliases t)"
      "db_meanings db = Rows (map (\<lambda>(w, i, p, g). (w, \<lparr>Pos = p, Gloss = g\<rparr>)) qs)"
      "mset qs = mset (t_meanings t)" "sorted_wrt (\<lambda>(w, i, _) (w', i', _). w = w' \<longrightarrow> i \<le> i') qs"
    using serve unfolding serves_def by blast
  have keys: "mset (map fst xs) = mset (map fst ys)" if "mset xs = mset ys" for xs ys :: "('y \<times> 'z) list"
    using that by simp
  have dis: "distinct (map fst xs)" if "mset xs = mset ys" "distinct (map fst ys)" for xs ys :: "('y \<times> 'z) list"
    using keys [OF that(1)] that(2) by (metis mset_eq_imp_distinct_iff)
  have eq: "map_of xs = map_of ys" if "mset xs = mset ys" "distinct (map fst ys)" for xs ys :: "('y \<times> 'z) list"
    using map_of_inject_set [OF dis [OF that] that(2)] mset_eq_setD [OF that(1)] by blast
  have ds: "distinct (map fst (t_syllables t))" and ma: "mset as = mset als" using t l(6) by (simp_all add: filled_def)
  have dw: "distinct (map fst (map (\<lambda>(w, f, l, n). (w, f, l)) (t_words t)))"
    using r(3) by (simp add: o_def case_prod_beta)
  have "length rs = length ws" using l(4) r(2) by (metis length_map size_mset)
  moreover have "mset rs = mset (map (\<lambda>p. (en_word (snd p), en_first (snd p), en_last (snd p))) ws)"
  proof -
    have "mset (t_words t) = mset (map (word_row \<circ> snd) ws)" using t by (simp add: filled_def)
    then have "mset (map (\<lambda>(w, f, l, n). (w, f, l)) (t_words t)) =
        mset (map (\<lambda>(w, f, l, n). (w, f, l)) (map (word_row \<circ> snd) ws))" by (simp only: mset_map)
    then show ?thesis using l(4) by (simp add: word_row_def o_def case_prod_beta)
  qed
  moreover have "length qs = length (t_meanings t)" "fst ` set qs = fst ` set (t_meanings t)"
    using mset_eq_length [OF l(8)] mset_eq_setD [OF l(8)] by simp_all
  moreover have "map snd (filter (\<lambda>r. fst r = w) (map (\<lambda>(w, i, p, g). (w, \<lparr>Pos = p, Gloss = g\<rparr>)) qs)) =
      map as_sense (senses_of ms w)" for w
  proof -
    define idx :: "str \<times> nat \<times> str \<times> str \<Rightarrow> nat" where "idx q = fst (snd q)" for q
    let ?q = "filter (\<lambda>r. fst r = w) qs"
    have m: "mset ?q = mset (sense_rows ms w)" using l(8) r(8) [of w] by (metis mset_filter)
    have i: "map idx (sense_rows ms w) = [0..<length (senses_of ms w)]"
      by (auto simp: sense_rows_def sense_row_def idx_def case_prod_beta enumerate_eq_zip map_fst_zip o_def)
    then have inj: "inj_on idx (set (sense_rows ms w))" by (metis distinct_map distinct_upt)
    have "sorted_wrt (\<lambda>x y. fst x = w \<longrightarrow> fst y = w \<longrightarrow> idx x \<le> idx y) qs"
      by (rule sorted_wrt_mono_rel [OF _ l(9)]) (simp add: idx_def case_prod_beta)
    then have "sorted (map idx ?q)" by (induction qs) auto
    then have "sort_key idx (sense_rows ms w) = ?q" using m inj by (intro sort_key_inj_key_eq) simp_all
    moreover have "sort_key idx (sense_rows ms w) = sense_rows ms w"
      by (rule sort_key_inj_key_eq [OF refl inj]) (simp add: i)
    ultimately have "?q = sense_rows ms w" by simp
    moreover have "map snd (filter (\<lambda>r. fst r = w) (map (\<lambda>(w, i, p, g). (w, \<lparr>Pos = p, Gloss = g\<rparr>)) qs)) =
        map (\<lambda>(w, i, p, g). \<lparr>Pos = p, Gloss = g\<rparr>) ?q"
      by (simp add: filter_map o_def case_prod_beta)
    ultimately show ?thesis by (simp add: sense_rows_def senses_of_rows del: map_map)
  qed
  ultimately show ?thesis
    using that [OF l(1) dis [OF l(2) ds] eq [OF l(2) ds] l(3) dis [OF l(4) dw] _ _ l(5) dis [OF ma als] eq [OF ma als] l(7)]
    by (simp add: image_image case_prod_beta)
qed

definition word_info :: "entry \<Rightarrow> wordInfo" where
  "word_info e = \<lparr>wi_first = en_first e, wi_last = en_last e\<rparr>"

lemma loaded_words:
  assumes names: "\<forall>p \<in> set ws. en_word (snd p) = fst p" and dw: "distinct (map fst ws)" and dr: "distinct (map fst rs)"
    and rs: "mset rs = mset (map (\<lambda>p. (en_word (snd p), en_first (snd p), en_last (snd p))) ws)" and s: "words s = []" "byFirst s = []"
  shows "map_of (words (fold add_word rs s)) w = map_option word_info (map_of ws w)"
    "length (words (fold add_word rs s)) = length ws"
    "length (get_list (byFirst (fold add_word rs s)) k) = count_if (\<lambda>p. en_first (snd p) = k) ws"
proof -
  define pairs where "pairs = map (\<lambda>(w, f, l). (w, \<lparr>wi_first = f, wi_last = l\<rparr>)) rs"
  have w: "words (fold add_word rs s) = fold (\<lambda>(k, v). AList.update k v) pairs []"
    unfolding fold_words s pairs_def fold_map by (rule fold_cong) (auto simp: fun_eq_iff)
  have d: "distinct (map fst pairs)" using dr by (simp add: pairs_def o_def case_prod_beta)
  have "set pairs = set (map (\<lambda>(w, e). (w, word_info e)) ws)"
    using mset_eq_setD [OF rs] names by (force simp: pairs_def word_info_def image_image case_prod_beta)
  moreover have "distinct (map fst (map (\<lambda>(w, e). (w, word_info e)) ws))" using dw by (simp add: o_def case_prod_beta)
  ultimately have "map_of pairs = map_of (map (\<lambda>(w, e). (w, word_info e)) ws)" using map_of_inject_set [OF d] by blast
  then show "map_of (words (fold add_word rs s)) w = map_option word_info (map_of ws w)"
    unfolding w fold_update_new(1) [OF d] by (simp add: map_of_map)
  show "length (words (fold add_word rs s)) = length ws"
    unfolding w fold_update_new(2) [OF d] using mset_eq_length [OF rs] by (simp add: pairs_def)
  have "mset (filter (\<lambda>r. fst (snd r) = k) rs) =
      mset (filter (\<lambda>r. fst (snd r) = k) (map (\<lambda>p. (en_word (snd p), en_first (snd p), en_last (snd p))) ws))"
    unfolding mset_filter rs ..
  from mset_eq_length [OF this] show "length (get_list (byFirst (fold add_word rs s)) k) = count_if (\<lambda>p. en_first (snd p) = k) ws"
    unfolding fold_words s by (simp add: get_list_def count_if_def filter_map o_def)
qed

lemma built_opens:
  assumes data: "builder_data u (ws, ms)" and t: "filled ws ms als t" and ord: "range_order ord"
    and als: "distinct (map fst als)" "\<forall>(v, w) \<in> set als. map_of ws w \<noteq> None"
    and size: "int (length ws) \<le> max_int64" "int (length (t_meanings t)) \<le> max_int64" and serve: "serves t db"
  shows "if ws = [] then Open u ord (FileOpens db) = Inl NoWords
    else \<exists>s. Open u ord (FileOpens db) = Inr s \<and> (\<forall>w. map_of (words s) w = map_option word_info (map_of ws w)) \<and>
      map_of (aliases s) = map_of als \<and> (\<forall>w. Store_Meanings s w = map as_sense (senses_of ms w))"
proof -
  note r = filled_rows [OF data t]
  obtain ss rs as qs where ss: "db_syllables db = Rows ss" "distinct (map fst ss)" "map_of ss = map_of (t_syllables t)"
    and rs: "db_words db = Rows rs" "distinct (map fst rs)" "length rs = length ws"
      "mset rs = mset (map (\<lambda>p. (en_word (snd p), en_first (snd p), en_last (snd p))) ws)"
    and as: "db_aliases db = Rows as" "distinct (map fst as)" "map_of as = map_of als"
    and qs: "db_meanings db = Rows qs" "length qs = length (t_meanings t)" "fst ` set qs = fst ` set (t_meanings t)"
      "\<forall>w. map snd (filter (\<lambda>r. fst r = w) qs) = map as_sense (senses_of ms w)"
    by (rule serves_lists [OF data t als(1) serve]) blast
  have dw: "distinct (map fst ws)" and names: "\<forall>p \<in> set ws. en_word (snd p) = fst p"
    using data by (auto simp: builder_data_def entry_of_def)
  obtain lic where lic: "map_of (t_meta t) (lit ''source_license'') = Some lic" using t by (auto simp: filled_def)
  have meta: "db_meta db (lit ''source_license'') = Scanned lic" "db_meta db (lit ''builder_version'') = Scanned RequiredBuilderVersion"
      "db_meta db (lit ''word_count'') = Scanned (digits_of (length ws))"
      "db_meta db (lit ''meaning_count'') = Scanned (digits_of (length (t_meanings t)))"
    using serve t lic by (simp_all add: serves_def filled_def)
  define s0 where "s0 = empty_store\<lparr>license := lic\<rparr>"
  define s1 where "s1 = fold add_syllable ss s0"
  define s2 where "s2 = fold add_word rs s1"
  define s3 where "s3 = fold add_alias as s2"
  define s4 where "s4 = fold add_meaning qs s3"
  have loads: "loadMeta db empty_store = Inr (s0, int (length ws), int (length (t_meanings t)))"
      "loadSyllables db s0 = Inr s1" "loadWords db s1 = Inr s2" "loadAliases db s2 = Inr s3" "loadMeanings db s3 = Inr s4"
    using size
    by (simp_all add: loadMeta_def Let_def meta count_meta_def Atoi_digits_of s0_def loadSyllables_def loadWords_def
        loadAliases_def loadMeanings_def with_rows_def ss(1) rs(1) as(1) qs(1) s1_def s2_def s3_def s4_def)
  have e: "words s1 = []" "byFirst s1 = []" "aliases s1 = []" "meanings s1 = []" "meaningCount s1 = 0"
    by (simp_all add: s1_def fold_syllables s0_def empty_store_def)
  note lw = loaded_words [OF names dw rs(2,4) e(1,2), folded s2_def]
  have w4: "words s4 = words s2" and b4: "byFirst s4 = byFirst s2" and o4: "outDegree s4 = outDegree s1"
    by (simp_all add: s4_def fold_meanings s3_def fold_aliases s2_def fold_words)
  have d4: "map_of (outDegree s4) = map_of (t_syllables t)"
    unfolding o4 s1_def fold_syllables using fold_update_new(1) [OF ss(2)] ss(3) by (simp add: s0_def empty_store_def)
  have a4: "map_of (aliases s4) = map_of als"
    unfolding s4_def fold_meanings s3_def fold_aliases using fold_update_new(1) [OF as(2)] as(3) e(3) by (simp add: s2_def fold_words)
  have m4: "get_list (meanings s4) w = map as_sense (senses_of ms w)" for w
    unfolding s4_def fold_meanings using qs(4) e(4) by (simp add: s3_def fold_aliases s2_def fold_words get_list_def)
  have c4: "meaningCount s4 = length (t_meanings t)"
    using qs(2) e(5) by (simp add: s4_def fold_meanings s3_def fold_aliases s2_def fold_words)
  have mk: "fst ` set (meanings s4) = fst ` set (t_meanings t)"
    using qs(3) e(4) by (simp add: s4_def fold_meanings s3_def fold_aliases s2_def fold_words)
  have "validate ord (int (length ws)) (int (length (t_meanings t))) s4 = (if ws = [] then Some NoWords else None)"
  proof -
    have "meaning_error s4 w = None" if w: "w \<in> fst ` set (meanings s4)" for w
    proof -
      obtain q where "q \<in> set (t_meanings t)" "fst q = w" using w mk by auto
      with r(7) [of q] obtain i s where "q = sense_row w (i, s)" "map_of ws w \<noteq> None" by (auto simp: sense_row_def)
      then show ?thesis by (simp add: meaning_error_def w4 lw(1))
    qed
    moreover have "degree_error s4 k = None" if k: "k \<in> fst ` set (outDegree s4)" for k
    proof -
      have "map_of (outDegree s4) k \<noteq> None" using k by (simp add: map_of_eq_None_iff)
      moreover have "\<forall>k. map_of (t_syllables t) k = (if k \<in> en_first ` snd ` set ws \<union> en_last ` snd ` set ws
          then Some (int (count_if (\<lambda>p. en_first (snd p) = k) ws)) else None)" using t by (simp add: filled_def)
      ultimately show ?thesis unfolding degree_error_def Let_def get_int_def d4 b4 lw(3) by (auto split: if_splits)
    qed
    moreover have "alias_error s4 v = None" for v
      using als(2) map_of_SomeD [of als v] by (force simp: alias_error_def a4 w4 lw(1) split: option.split)
    ultimately have none: "first_error (meaning_error s4) (ord (map fst (meanings s4))) = None"
        "first_error (degree_error s4) (ord (map fst (outDegree s4))) = None"
        "first_error (alias_error s4) (ord (map fst (aliases s4))) = None"
      by (simp_all add: first_error_None range_order_set [OF ord])
    show ?thesis using lw(2) by (cases "ws = []") (simp_all add: validate_def none c4 w4)
  qed
  then have "Open u ord (FileOpens db) = (if ws = [] then Inl NoWords else Inr ((buildStrippedIndex u ord s4)
      \<lparr>openers := sort_openers (openers (buildStrippedIndex u ord s4))\<rparr>))"
    by (simp add: Open_def loads Let_def)
  then show ?thesis using w4 lw(1) a4 m4 by (simp add: buildStrippedIndex_def Store_Meanings_def)
qed

end
