(* ===== verification/Builder_Gloss.thy ===== *)
theory Builder_Gloss
  imports Builder_Wikitext Builder_Roundtrip
begin

text \<open>
  What the stripper leaves of a definition: text without control characters, without a space but the plain one, and
  with none at its ends, so that the corpus can carry it.
\<close>

subsection \<open>Replacing\<close>

lemma ReplaceAll_step: "old \<noteq> [] \<Longrightarrow> Cut_at old s = Some (a, b) \<Longrightarrow> ReplaceAll s old new = a @ new @ ReplaceAll b old new"
  by (simp add: ReplaceAll.simps [of s])

lemma set_ReplaceAll: "set (ReplaceAll s old new) \<subseteq> set s \<union> set new"
proof (induction s old new rule: ReplaceAll.induct)
  case (1 s old new)
  show ?case
  proof (cases "old = [] \<or> Cut_at old s = None")
    case False
    then obtain a b where c: "Cut_at old s = Some (a, b)" by auto
    then have "s = a @ old @ b" by (rule Cut_at_Some)
    moreover have "set (ReplaceAll b old new) \<subseteq> set b \<union> set new" using 1 False c by simp
    moreover have "ReplaceAll s old new = a @ new @ ReplaceAll b old new" using False c ReplaceAll_step by blast
    ultimately show ?thesis by auto
  qed (auto simp: ReplaceAll.simps [of s])
qed

lemma set_splice: "set (splice s repl seen ms) \<subseteq> set s \<union> set repl"
  by (induction s repl seen ms rule: splice.induct) (auto dest: in_set_dropD in_set_takeD)

lemma set_ReplaceAllString: "set (ReplaceAllString r s repl) \<subseteq> set s \<union> set repl"
  by (simp add: ReplaceAllString_def set_splice)

text \<open>Taking away the space in front of a mark leaves the ends of the text as they are.\<close>

lemma ReplaceAll_last:
  assumes "\<not> is_space c" and "s \<noteq> []" and "\<not> is_space (List.last s)"
  shows "ReplaceAll s [32, c] [c] \<noteq> [] \<and> \<not> is_space (List.last (ReplaceAll s [32, c] [c]))"
  using assms(2,3)
proof (induction "length s" arbitrary: s rule: less_induct)
  case less
  show ?case
  proof (cases "Cut_at [32, c] s")
    case None
    then show ?thesis using less by (simp add: ReplaceAll.simps [of s])
  next
    case (Some ab)
    then obtain a b where c: "Cut_at [32, c] s = Some (a, b)" by (cases ab) auto
    then have s: "s = a @ [32, c] @ b" by (rule Cut_at_Some)
    then have r: "ReplaceAll s [32, c] [c] = a @ [c] @ ReplaceAll b [32, c] [c]" using c by (intro ReplaceAll_step) simp_all
    show ?thesis
    proof (cases "b = []")
      case True
      then show ?thesis using assms(1) by (simp add: r ReplaceAll.simps [of "[]"])
    next
      case False
      then have "ReplaceAll b [32, c] [c] \<noteq> [] \<and> \<not> is_space (List.last (ReplaceAll b [32, c] [c]))"
        using less(1) [of b] less(3) by (simp add: s)
      then show ?thesis unfolding r by simp
    qed
  qed
qed

lemma ReplaceAll_trimmed:
  assumes "\<not> is_space c" and "trimmed s"
  shows "trimmed (ReplaceAll s [32, c] [c])"
proof (cases "s = [] \<or> Cut_at [32, c] s = None")
  case True
  then show ?thesis using assms(2) by (auto simp: ReplaceAll.simps [of s] ReplaceAll.simps [of "[]"])
next
  case False
  then obtain a b where c: "Cut_at [32, c] s = Some (a, b)" by auto
  then have s: "s = a @ [32, c] @ b" by (rule Cut_at_Some)
  then have "a \<noteq> []" using assms(2) by (auto simp: trimmed_def)
  moreover have "ReplaceAll s [32, c] [c] = a @ [c] @ ReplaceAll b [32, c] [c]" using c by (intro ReplaceAll_step) simp_all
  ultimately have "hd (ReplaceAll s [32, c] [c]) = hd s" by (simp add: s)
  then show ?thesis using assms False ReplaceAll_last [of c s] by (auto simp: trimmed_def)
qed

lemma marks_trimmed:
  assumes "\<forall>c \<in> set cs. \<not> is_space c" and "trimmed s"
  shows "trimmed (foldl (\<lambda>s p. ReplaceAll s p (tl p)) s (map (\<lambda>c. [32, c]) cs)) \<and>
    set (foldl (\<lambda>s p. ReplaceAll s p (tl p)) s (map (\<lambda>c. [32, c]) cs)) \<subseteq> set s \<union> set cs"
  using assms
proof (induction cs arbitrary: s)
  case (Cons c cs)
  have "trimmed (ReplaceAll s [32, c] [c])" using Cons.prems by (simp add: ReplaceAll_trimmed)
  with Cons show ?case using set_ReplaceAll [of s "[32, c]" "[c]"] by fastforce
qed simp

subsection \<open>The stripper\<close>

definition clean :: "str \<Rightarrow> bool" where
  "clean s \<longleftrightarrow> trimmed s \<and> (\<forall>r \<in> set s. \<not> is_control r \<and> (is_space r \<longrightarrow> r = 32))"

lemma plain_runes: "r \<in> set (List.map_filter (plain_rune u) s) \<Longrightarrow> \<not> is_control r \<and> (is_space r \<longrightarrow> r = 32)"
  by (auto simp: map_filter_def plain_rune_def is_control_def split: if_splits)

lemma stripWikitext_clean: "clean (stripWikitext u unescape s)"
proof -
  obtain t where t: "stripWikitext u unescape s =
      (let s = TrimSpace (ReplaceAllString space_runs (List.map_filter (plain_rune u) t) (lit '' ''));
           s = foldl (\<lambda>s p. ReplaceAll s p (tl p)) s [lit '' .'', lit '' ,'', lit '' ;'', lit '' :'', lit '' )'']
       in if \<exists>r \<in> set s. is_letter u r \<or> is_digit u r then s else [])"
    by (simp add: stripWikitext_def Let_def)
  define v where "v = TrimSpace (ReplaceAllString space_runs (List.map_filter (plain_rune u) t) (lit '' ''))"
  define w where "w = foldl (\<lambda>s p. ReplaceAll s p (tl p)) v (map (\<lambda>c. [32, c]) [46, 44, 59, 58, 41])"
  have "set v \<subseteq> set (List.map_filter (plain_rune u) t) \<union> {32}"
    using set_TrimSpace set_ReplaceAllString [of space_runs _ "lit '' ''"] unfolding v_def by (fastforce simp: lit_def)
  then have v: "\<forall>r \<in> set v. \<not> is_control r \<and> (is_space r \<longrightarrow> r = 32)" using plain_runes by (fastforce simp: is_control_def)
  have marks: "\<forall>c \<in> set [46, 44, 59, 58, 41]. \<not> is_space c \<and> \<not> is_control c" by (simp add: is_space_def is_control_def)
  have "trimmed v" by (simp add: v_def)
  then have w: "trimmed w" "set w \<subseteq> set v \<union> set [46, 44, 59, 58, 41]"
    using marks_trimmed [of "[46, 44, 59, 58, 41]" v] marks unfolding w_def by blast+
  have "clean w" unfolding clean_def using w v marks by blast
  moreover have "stripWikitext u unescape s = (if \<exists>r \<in> set w. is_letter u r \<or> is_digit u r then w else [])"
    unfolding t Let_def v_def [symmetric] by (simp add: w_def lit_def)
  ultimately show ?thesis by (simp add: clean_def trimmed_def)
qed

lemma capGloss_clean:
  assumes "clean s"
  shows "clean (fst (capGloss s))"
proof (cases "length s \<le> maxGlossRunes")
  case False
  define head where "head = take (maxGlossRunes - length ellipsis) s"
  define h where "h = (case before_last_space head of None \<Rightarrow> head | Some h \<Rightarrow> if h = [] then head else h)"
  have "prefix h head" by (auto simp: h_def split: option.split dest: before_last_space_prefix)
  then have pre: "prefix (TrimRightFunc (\<lambda>r. r \<in> {32, 44, 59, 58}) h) s"
    by (metis TrimRightFunc_prefix head_def prefix_order.trans take_is_prefix)
  define k where "k = TrimRightFunc (\<lambda>r. r \<in> {32, 44, 59, 58}) h"
  have c: "fst (capGloss s) = k @ [0x2026]" using False
    unfolding capGloss_def Let_def k_def h_def head_def ellipsis_def by simp
  have dots: "\<not> is_space 0x2026" "\<not> is_control 0x2026" by (simp_all add: is_space_def is_control_def)
  have k: "prefix k s" using pre by (simp add: k_def)
  then have "set k \<subseteq> set s" "k = [] \<or> hd k = hd s" by (cases k; auto simp: prefix_def)+
  then show ?thesis using assms dots False by (auto simp: clean_def c trimmed_def hd_append)
qed (use assms in \<open>simp add: capGloss_id\<close>)

lemma clean_field: "clean s \<Longrightarrow> corpusField s = None"
  by (auto simp: corpusField_None clean_def is_control_def)

lemma labels: "\<forall>l \<in> insert [] (snd ` set posLabelMap). corpusField l = None \<and> 124 \<notin> set l"
proof -
  define P :: "str \<Rightarrow> bool" where "P l \<longleftrightarrow> 9 \<notin> set l \<and> 13 \<notin> set l \<and> 10 \<notin> set l \<and> 124 \<notin> set l \<and> l \<noteq> [] \<and> \<not> is_space (hd l) \<and>
      \<not> is_space (List.last l)" for l
  have "list_all P [danh_tu, dong_tu, tinh_tu, pho_tu, danh_tu_rieng, tinh_tu_rieng, dia_danh, dai_tu, so_tu, lien_tu, gioi_tu,
      than_tu, tro_tu, cum_tu, thanh_ngu, tuc_ngu, viet_tat, tien_to, hau_to, chu_cai, ky_hieu]"
    by (simp add: P_def danh_tu_def dong_tu_def tinh_tu_def pho_tu_def danh_tu_rieng_def tinh_tu_rieng_def dia_danh_def
        dai_tu_def so_tu_def lien_tu_def gioi_tu_def than_tu_def tro_tu_def cum_tu_def thanh_ngu_def tuc_ngu_def viet_tat_def
        tien_to_def hau_to_def chu_cai_def ky_hieu_def lit_def is_space_def)
  then have "\<forall>l \<in> snd ` set posLabelMap. P l" by (simp add: posLabelMap_def)
  then show ?thesis by (auto simp: corpusField_None trimmed_def P_def)
qed

lemma posLabel_label: "fst (posLabel code) \<in> insert [] (snd ` set posLabelMap)"
proof (cases "map_of posLabelMap code")
  case (Some l)
  then have "l \<in> snd ` set posLabelMap" using map_of_SomeD by force
  then show ?thesis by (simp add: posLabel_def Some)
qed (simp add: posLabel_def isLabelValue_def)

text \<open>Every sense taken from a page can be written into the corpus and the database.\<close>

lemma definitions_ok: "length (definitions u unescape section) \<le> maxSenses \<and>
    (\<forall>s \<in> set (definitions u unescape section). writable s \<and> sense_ok s \<and> clean (gs_gloss s) \<and>
      gs_pos s \<in> insert [] (snd ` set posLabelMap))"
proof -
  define ok where "ok = (\<lambda>(senses :: gloss_sense list, pos). length senses \<le> maxSenses \<and> (\<forall>s \<in> set senses. writable s \<and>
      sense_ok s \<and> clean (gs_gloss s) \<and> gs_pos s \<in> insert [] (snd ` set posLabelMap)) \<and> pos \<in> insert [] (snd ` set posLabelMap))"
  have step: "ok (definition_step u unescape sp line)" if "ok sp" for sp line
  proof -
    obtain senses pos where sp: "sp = (senses, pos)" by (cases sp)
    obtain code kind where ck: "classifyHeading u (trim_line line) = (code, kind)" by (cases "classifyHeading u (trim_line line)")
    let ?g = "stripWikitext u unescape (tl (trim_line line))"
    have cl: "clean (fst (capGloss ?g))" by (rule capGloss_clean [OF stripWikitext_clean])
    have "writable \<lparr>gs_pos = pos, gs_gloss = fst (capGloss ?g)\<rparr> \<and> sense_ok \<lparr>gs_pos = pos, gs_gloss = fst (capGloss ?g)\<rparr>" if "?g \<noteq> []"
      using that \<open>ok sp\<close> labels capGloss_ok [OF that] clean_field [OF cl]
      by (auto simp: writable_def sense_ok_def ok_def sp)
    then show ?thesis using that cl posLabel_label [of code]
      by (auto simp: definition_step_def sp ck Let_def ok_def split: headingKind.split)
  qed
  have "ok (foldl (definition_step u unescape) sp ls)" if "ok sp" for sp ls
    using that step by (induction ls arbitrary: sp) simp_all
  from this [of "([], [])"] show ?thesis by (auto simp: definitions_def ok_def split_def)
qed

end
