(* ===== verification/Builder_Run.thy ===== *)
theory Builder_Run
  imports Builder_Facts Builder_Gloss
begin

text \<open>
  Whole builds: what is read from a dump can be written into a corpus and a database, every page is accounted for,
  a build ends with every table filled, and the checks of its own output never fire.
\<close>

subsection \<open>Reading the dump\<close>

definition all_reasons :: "rejectReason list" where
  "all_reasons = [rejectEmpty, rejectTooShort, rejectDigit, rejectPunct, rejectNonVietnam, rejectNotVietnamese]"

definition rejects_total :: "dump_state \<Rightarrow> nat" where
  "rejects_total d = sum_list (map (dm_rejects d) all_reasons)"

definition accounted :: "dump_state \<Rightarrow> bool" where
  "accounted d \<longleftrightarrow>
     (let s = dm_stats d
      in ds_ns0 s \<le> ds_pages s \<and> ds_ns0 s = ds_redirects s + ds_noVietnamese s + dm_pages d \<and>
         dm_pages d = ds_legacy s + ds_newDialect s \<and> ds_bothDialects s \<le> dm_pages d \<and>
         ds_noVietnamese s + dm_pages d = length (dm_words d) + ds_merged s + rejects_total d)"

definition all_writable :: "(str \<times> gloss_sense list) list \<Rightarrow> bool" where
  "all_writable ms \<longleftrightarrow> (\<forall>w. \<forall>s \<in> set (senses_of ms w). writable s)"

definition dump_ok :: "unicode \<Rightarrow> dump_state \<Rightarrow> bool" where
  "dump_ok u d \<longleftrightarrow> builder_data u (dm_words d, dm_meanings d) \<and> all_writable (dm_meanings d)"

lemma rejects_total_more: "rejects_total (rejected r d) = Suc (rejects_total d)"
  by (cases r) (simp_all add: rejects_total_def all_reasons_def rejected_def)

lemma rejects_total_same: "dm_rejects d' = dm_rejects d \<Longrightarrow> rejects_total d' = rejects_total d"
  by (simp add: rejects_total_def)

lemma length_update: "length (AList.update k v m) = (if k \<in> fst ` set m then length m else Suc (length m))"
  by (induction m) auto

text \<open>What a page with a Vietnamese section adds to the counters before its title is looked at.\<close>

definition sectioned :: "dump_state \<Rightarrow> bool" where
  "sectioned d \<longleftrightarrow>
     (let s = dm_stats d
      in ds_ns0 s \<le> ds_pages s \<and> ds_ns0 s = ds_redirects s + ds_noVietnamese s + dm_pages d \<and>
         dm_pages d = ds_legacy s + ds_newDialect s \<and> ds_bothDialects s \<le> dm_pages d \<and>
         ds_noVietnamese s + dm_pages d = Suc (length (dm_words d) + ds_merged s + rejects_total d))"

lemma sectioned_rejected: "sectioned d \<Longrightarrow> accounted (rejected r d)"
  using rejects_total_more [of r d] by (simp add: sectioned_def accounted_def rejected_def Let_def)

lemma sectioned_kept: "sectioned d \<Longrightarrow> accounted (keep_word word syllables senses d)"
  using map_of_eq_None_iff [of "dm_words d" word]
  by (auto simp: sectioned_def accounted_def keep_word_def stat_def Let_def length_update rejects_total_def)

lemma read_page_accounted:
  assumes "accounted d" and "read_page u unescape page d = Inr d'"
  shows "accounted d'"
proof -
  define d1 where "d1 = stat (\<lambda>s. s\<lparr>ds_pages := ds_pages s + 1\<rparr>) d"
  define d2 where "d2 = stat (\<lambda>s. s\<lparr>ds_ns0 := ds_ns0 s + 1\<rparr>) d1"
  have d1: "accounted d1" using assms(1)
    by (auto simp: accounted_def d1_def stat_def Let_def rejects_total_def)
  obtain sect dialect both ender where v: "vietnameseSection (List.last (pg_revisions page)) = (sect, dialect, both, ender)"
    by (metis prod_cases4)
  show ?thesis
  proof (cases "pg_ns page \<noteq> 0 \<or> pg_redirect page \<noteq> None \<or> pg_revisions page = [] \<or> dialect = NoDialect")
    case True
    have "accounted (stat (\<lambda>s. s\<lparr>ds_redirects := ds_redirects s + 1\<rparr>) d2)"
      using assms(1) by (auto simp: accounted_def d2_def d1_def stat_def Let_def rejects_total_def)
    moreover have "accounted (rejected r (stat (\<lambda>s. s\<lparr>ds_noVietnamese := ds_noVietnamese s + 1\<rparr>) d2))" for r
      by (rule sectioned_rejected)
        (use assms(1) in \<open>auto simp: accounted_def sectioned_def d2_def d1_def stat_def Let_def rejects_total_def\<close>)
    ultimately show ?thesis using True assms(2) d1
      by (auto simp: read_page_def v d1_def d2_def Let_def split: if_splits)
  next
    case False
    have "sectioned (count_section dialect both ender d2)" using assms(1)
      by (auto simp: accounted_def sectioned_def count_section_def d2_def d1_def stat_def Let_def rejects_total_def)
    moreover have "d' = (case accept u (pg_title page) of
        Inl reason \<Rightarrow> rejected reason (count_section dialect both ender d2)
      | Inr (word, syllables) \<Rightarrow> keep_word word syllables (definitions u unescape sect) (count_section dialect both ender d2))"
      using assms(2) False by (auto simp: read_page_def v d1_def d2_def Let_def split: sum.splits)
    ultimately show ?thesis using sectioned_rejected sectioned_kept by (auto split: sum.splits)
  qed
qed

lemma set_update: "set (AList.update k v xs) \<subseteq> insert (k, v) (set xs)"
  by (induction xs) auto

lemma senses_of_update: "senses_of (AList.update k v ms) w = (if w = k then v else senses_of ms w)"
  by (simp add: senses_of_def update_conv')

lemma keep_word_ok:
  assumes laws: "builder_laws u" and d: "dump_ok u d" and acc: "accept u raw = Inr (w, ss)"
    and senses: "length senses \<le> maxSenses \<and> (\<forall>s \<in> set senses. writable s \<and> sense_ok s)"
  shows "dump_ok u (keep_word w ss senses d)"
proof -
  define ws where "ws = dm_words d"
  define ms where "ms = dm_meanings d"
  define ws' where "ws' = AList.update w (entry_of w ss) ws"
  define all where "all = take maxSenses (senses_of ms w @ senses)"
  define ms' where "ms' = (if length senses > 0 then AList.update w all ms else ms)"
  have data: "builder_data u (ws, ms)" and writ: "all_writable ms" using d by (simp_all add: dump_ok_def ws_def ms_def)
  have acc': "accept u w = Inr (w, ss)" using accept_idem acc laws by (auto simp: builder_laws_def)
  have fw: "fst ` set ws' = insert w (fst ` set ws)" by (simp add: ws'_def dom_update)
  have old: "\<forall>s \<in> set (senses_of ms w). sense_ok s" using senses_of_ms(2) [OF data] by blast
  have all: "all \<noteq> []" if "length senses > 0" using that by (cases senses) (auto simp: all_def maxSenses_def)
  have all': "length all \<le> maxSenses" "\<forall>s \<in> set all. sense_ok s \<and> writable s"
    using old senses writ by (auto simp: all_def all_writable_def dest!: in_set_takeD)
  have ents: "\<forall>(k, e) \<in> set ws. \<exists>ss. accept u k = Inr (k, ss) \<and> e = entry_of k ss"
    and mns: "\<forall>(k, cs) \<in> set ms. k \<in> fst ` set ws \<and> cs \<noteq> [] \<and> length cs \<le> maxSenses \<and> (\<forall>s \<in> set cs. sense_ok s)"
    and dist: "distinct (map fst ws)" "distinct (map fst ms)"
    using data by (simp_all add: builder_data_def)
  have "\<forall>(k, e) \<in> set ws'. \<exists>ss. accept u k = Inr (k, ss) \<and> e = entry_of k ss"
    using ents acc' set_update [of w "entry_of w ss" ws] unfolding ws'_def by blast
  moreover have "\<forall>(k, cs) \<in> set ms'. k \<in> fst ` set ws' \<and> cs \<noteq> [] \<and> length cs \<le> maxSenses \<and> (\<forall>s \<in> set cs. sense_ok s)"
  proof (cases "length senses > 0")
    case True
    define P where "P k cs \<longleftrightarrow> k \<in> fst ` set ws' \<and> cs \<noteq> [] \<and> length cs \<le> maxSenses \<and> (\<forall>s \<in> set cs. sense_ok s)" for k cs
    have "\<forall>(k, cs) \<in> set ms. P k cs" using mns unfolding P_def fw by blast
    moreover have "P w all" using all [OF True] all' by (simp add: P_def fw)
    ultimately have "\<forall>(k, cs) \<in> set ms'. P k cs" using set_update [of w all ms] True unfolding ms'_def by auto
    then show ?thesis by (simp add: P_def)
  next
    case False
    then show ?thesis using mns unfolding ms'_def fw by auto
  qed
  ultimately have "builder_data u (ws', ms')" using dist by (simp add: builder_data_def ws'_def ms'_def distinct_update)
  moreover have "all_writable ms'" using writ all' by (simp add: all_writable_def ms'_def senses_of_update)
  moreover have "dm_words (keep_word w ss senses d) = ws'" "dm_meanings (keep_word w ss senses d) = ms'"
    by (simp_all add: keep_word_def Let_def stat_def ws'_def ws_def ms'_def ms_def all_def)
  ultimately show ?thesis by (simp add: dump_ok_def)
qed

lemma dump_ok_counters [simp]:
  "dump_ok u (stat f d) = dump_ok u d" "dump_ok u (rejected r d) = dump_ok u d" "dump_ok u (d\<lparr>dm_pages := n\<rparr>) = dump_ok u d"
  "dump_ok u (count_section dialect both ender d) = dump_ok u d"
  by (simp_all add: dump_ok_def stat_def rejected_def count_section_def Let_def)

lemma read_page_ok:
  assumes "builder_laws u" and "dump_ok u d" and "read_page u unescape page d = Inr d'"
  shows "dump_ok u d'"
  using assms(2,3) keep_word_ok [OF assms(1)] definitions_ok
  by (auto simp: read_page_def Let_def split: if_splits sum.splits prod.splits)

lemma readDump_ok:
  assumes laws: "builder_laws u" and "readDump u unescape di = Inr (d, prov)"
  shows "dump_ok u d" "accounted d" "ds_pages (dm_stats d) = length (di_pages di)"
    "prov = \<lparr>pv_sha256 = di_sha256 di, pv_pages = dm_pages d, pv_fetchedAt = di_fetchedAt di\<rparr>"
proof -
  have "dump_ok u d' \<and> accounted d' \<and> ds_pages (dm_stats d') = length pages + ds_pages (dm_stats d0)"
    if "dump_ok u d0 \<and> accounted d0" "read_pages u unescape pages t d0 = Inr (t', d')" for pages t d0 t' d'
    using that
  proof (induction pages arbitrary: t d0)
    case (Cons page pages)
    then obtain d1 where d1: "read_page u unescape page d0 = Inr d1" "read_pages u unescape pages (pg_title page) d1 = Inr (t', d')"
      by (auto split: sum.splits)
    have "ds_pages (dm_stats d1) = Suc (ds_pages (dm_stats d0))"
      using d1(1) by (auto simp: read_page_def Let_def stat_def rejected_def keep_word_def count_section_def split: if_splits sum.splits prod.splits)
    then show ?case using Cons.IH [OF _ d1(2)] Cons.prems(1) read_page_ok [OF laws _ d1(1)] read_page_accounted [OF _ d1(1)] by simp
  qed simp
  moreover have "dump_ok u no_dump_state \<and> accounted no_dump_state"
    by (simp add: dump_ok_def no_dump_state_def no_dump_stats_def builder_data_def all_writable_def senses_of_def accounted_def
        rejects_total_def all_reasons_def)
  moreover obtain t' where "read_pages u unescape (di_pages di) [] no_dump_state = Inr (t', d)"
    using assms(2) by (auto simp: readDump_def split: if_splits sum.splits)
  ultimately have "dump_ok u d \<and> accounted d \<and> ds_pages (dm_stats d) = length (di_pages di) + ds_pages (dm_stats no_dump_state)"
    by blast
  then show "dump_ok u d" "accounted d" "ds_pages (dm_stats d) = length (di_pages di)"
    by (simp_all add: no_dump_state_def no_dump_stats_def)
  show "prov = \<lparr>pv_sha256 = di_sha256 di, pv_pages = dm_pages d, pv_fetchedAt = di_fetchedAt di\<rparr>"
    using assms(2) by (auto simp: readDump_def split: if_splits sum.splits)
qed

subsection \<open>The tail of a build\<close>

lemma meanings_of_filled:
  assumes data: "builder_data u (ws, ms)" and t: "filled ws ms als t"
  shows "length (remdups (map fst (t_meanings t))) = length ms"
    "length (t_meanings t) = (\<Sum>w \<in> fst ` set ms. length (senses_of ms w))"
proof -
  obtain keys where keys: "mset keys = mset (map fst ms)" "t_meanings t = concat (map (sense_rows ms) keys)"
    using t by (auto simp: filled_def)
  have dm: "distinct (map fst ms)" using data by (simp add: builder_data_def)
  have sk: "set keys = fst ` set ms" and dk: "distinct keys"
    using mset_eq_setD [OF keys(1)] dm keys(1) by (simp, metis mset_eq_imp_distinct_iff)
  have ne: "senses_of ms w \<noteq> []" if "w \<in> fst ` set ms" for w
    using that senses_of_ms(3) [OF data, of w] by (metis map_of_eq_None_iff)
  have "fst ` set (sense_rows ms w) = (if senses_of ms w = [] then {} else {w})" for w
    by (cases "senses_of ms w") (force simp: sense_rows_def sense_row_def)+
  then have "fst ` set (t_meanings t) = fst ` set ms" using ne sk by (auto simp: keys(2) image_UN)
  then have "length (remdups (map fst (t_meanings t))) = card (fst ` set ms)" by (simp add: length_remdups_card_conv)
  also have "\<dots> = length ms" using distinct_card [OF dm] by simp
  finally show "length (remdups (map fst (t_meanings t))) = length ms" .
  have "length (t_meanings t) = sum_list (map (\<lambda>w. length (senses_of ms w)) keys)"
    by (simp add: keys(2) length_concat o_def sense_rows_def)
  then show "length (t_meanings t) = (\<Sum>w \<in> fst ` set ms. length (senses_of ms w))"
    using dk sk by (simp add: sum_list_distinct_conv_sum_set)
qed

lemma verify_filled:
  assumes "builder_laws u" and "builder_data u (ws, ms)" and "filled ws ms als t"
    and "\<forall>(v, w) \<in> set als. map_of ws v = None \<and> map_of ws w \<noteq> None" and "n \<le> length ws"
  shows "verify n coverage t =
    (if coverage \<and> of_nat (length ms) < minMeaningCoverage * of_nat (length ws)
     then Some (CoverageFailed (length ms) (length ws)) else None)"
  using verify_passes [OF assms(1-4), of n] assms(5) meanings_of_filled(1) [OF assms(2,3)] filled_rows(2) [OF assms(2,3)]
  by (simp add: verify_def Let_def)

lemma aliases_of_words:
  assumes "builder_data u (ws, ms)" and "range_order ord"
  shows "distinct (map fst (fst (buildAliases u ord ws)))"
    "\<forall>(v, w) \<in> set (fst (buildAliases u ord ws)). map_of ws v = None \<and> map_of ws w \<noteq> None"
proof -
  have d: "distinct (map fst ws)" "mset (ord (map fst ws)) = mset (map fst ws)"
    using assms by (simp_all add: builder_data_def range_order_def)
  note al = buildAliases_alias [where ord = ord and u = u, OF d]
  show "distinct (map fst (fst (buildAliases u ord ws)))" by (rule al(1))
  show "\<forall>(v, w) \<in> set (fst (buildAliases u ord ws)). map_of ws v = None \<and> map_of ws w \<noteq> None"
  proof clarify
    fix v w assume "(v, w) \<in> set (fst (buildAliases u ord ws))"
    then have "map_of (fst (buildAliases u ord ws)) v = Some w" using al(1) by simp
    then have "map_of ws v = None" "{w'. map_of ws w' \<noteq> None \<and> v \<in> set (variantsFor u w')} = {w}" using al(2) by blast+
    then show "map_of ws v = None \<and> map_of ws w \<noteq> None" by blast
  qed
qed

text \<open>What a build may end with once its words are read, and what it leaves at the paths it was given.\<close>

definition write_clear :: "write_faults \<Rightarrow> bool" where
  "write_clear io \<longleftrightarrow> \<not> stale_fails io \<and> \<not> sql_fails io \<and> \<not> move_fails io"

definition expected_error :: "build_error \<Rightarrow> bool" where
  "expected_error e \<longleftrightarrow>
     (case e of DuplicateKey _ \<Rightarrow> False | MeaningWithoutWord _ \<Rightarrow> False | MeaningOverCap _ _ \<Rightarrow> False | VerifyFailed _ _ \<Rightarrow> False
      | CorpusFailed ce \<Rightarrow>
          (case ce of WordField _ \<Rightarrow> False | MeaningField _ _ \<Rightarrow> False | LabelField _ _ \<Rightarrow> False | _ \<Rightarrow> True)
      | _ \<Rightarrow> True)"

lemma tmp_path_other [simp]: "tmp_path p \<noteq> p" "p \<noteq> tmp_path p"
  by (simp_all add: tmp_path_def lit_def)

lemma finish_result:
  assumes laws: "builder_laws (be_unicode env)" and ord: "range_order (be_ord env)"
    and data: "builder_data (be_unicode env) (ws, ms)" and src: "src_ok src"
    and res: "finish env cfg (ws, ms) src coverage fs = (r, fs')"
  shows "p \<noteq> cf_out cfg \<Longrightarrow> p \<noteq> tmp_path (cf_out cfg) \<Longrightarrow> fs' p = fs p"
    and "r = None \<Longrightarrow> cf_minWords cfg \<le> length ws \<and>
      \<not> (coverage \<and> of_nat (length ms) < minMeaningCoverage * of_nat (length ws)) \<and>
      (\<exists>t. fs' (cf_out cfg) = Some (Db t) \<and> filled ws ms (fst (buildAliases (be_unicode env) (be_ord env) ws)) t)"
    and "r = Some e \<Longrightarrow> expected_error e"
    and "on_windows (be_write env) \<or> fs' (cf_out cfg) = fs (cf_out cfg) \<or> cf_minWords cfg \<le> length ws \<and>
      (\<exists>t. fs' (cf_out cfg) = Some (Db t) \<and> filled ws ms (fst (buildAliases (be_unicode env) (be_ord env) ws)) t)"
    and "write_clear (be_write env) \<Longrightarrow> \<not> be_verify_fails env \<Longrightarrow> cf_minWords cfg \<le> length ws \<Longrightarrow>
      \<not> (coverage \<and> of_nat (length ms) < minMeaningCoverage * of_nat (length ws)) \<Longrightarrow> r = None"
    and "r = Some (CoverageFailed m n) \<Longrightarrow> cf_minWords cfg \<le> length ws \<and> m = length ms \<and> n = length ws \<and>
      of_nat m < minMeaningCoverage * of_nat n \<and>
      (\<exists>t. fs' (cf_out cfg) = Some (Db t) \<and> filled ws ms (fst (buildAliases (be_unicode env) (be_ord env) ws)) t)"
    and "on_windows (be_write env) \<Longrightarrow> fs' (cf_out cfg) = fs (cf_out cfg) \<or> fs' (cf_out cfg) = None \<or> cf_minWords cfg \<le> length ws \<and>
      (\<exists>t. fs' (cf_out cfg) = Some (Db t) \<and> filled ws ms (fst (buildAliases (be_unicode env) (be_ord env) ws)) t)"
proof -
  obtain als collisions where al: "buildAliases (be_unicode env) (be_ord env) ws = (als, collisions)"
    by (cases "buildAliases (be_unicode env) (be_ord env) ws")
  note a = aliases_of_words [OF data ord, unfolded al fst_conv]
  obtain t where t: "writeTo (be_ord env) (be_now env) ws ms als src = Inr t" "filled ws ms als t"
    using writeTo_filled [OF data ord a(1) src] by blast
  note v = verify_filled [OF laws data t(2) a(2)]
  have f: "finish env cfg (ws, ms) src coverage fs =
     (if length ws < cf_minWords cfg then (Some (TooFewWords (length ws)), fs)
      else case write_db (be_write env) (cf_out cfg) (Inr t) fs of
               (Some e, fs) \<Rightarrow> (Some e, fs)
             | (None, fs) \<Rightarrow>
                 if be_verify_fails env then (Some SqlFailed, fs)
                 else case fs (cf_out cfg) of
                   Some (Db t) \<Rightarrow> (verify (cf_minWords cfg) coverage t, fs)
                 | _ \<Rightarrow> (Some SqlFailed, fs))"
    by (simp add: finish_def al t(1))
  show "p \<noteq> cf_out cfg \<Longrightarrow> p \<noteq> tmp_path (cf_out cfg) \<Longrightarrow> fs' p = fs p"
    using res unfolding f by (auto simp: write_db_def Let_def split: if_splits option.splits content.splits)
  show "r = None \<Longrightarrow> cf_minWords cfg \<le> length ws \<and>
      \<not> (coverage \<and> of_nat (length ms) < minMeaningCoverage * of_nat (length ws)) \<and> (\<exists>t. fs' (cf_out cfg) = Some (Db t) \<and>
      filled ws ms (fst (buildAliases (be_unicode env) (be_ord env) ws)) t)"
    using res t(2) unfolding f al by (auto simp: write_db_def Let_def v split: if_splits)
  show "on_windows (be_write env) \<or> fs' (cf_out cfg) = fs (cf_out cfg) \<or> cf_minWords cfg \<le> length ws \<and> (\<exists>t. fs' (cf_out cfg) = Some (Db t) \<and>
      filled ws ms (fst (buildAliases (be_unicode env) (be_ord env) ws)) t)"
    using res t(2) unfolding f al by (auto simp: write_db_def Let_def split: if_splits)
  show "r = Some e \<Longrightarrow> expected_error e"
    using res unfolding f by (auto simp: write_db_def Let_def expected_error_def v split: if_splits)
  show "write_clear (be_write env) \<Longrightarrow> \<not> be_verify_fails env \<Longrightarrow> cf_minWords cfg \<le> length ws \<Longrightarrow>
      \<not> (coverage \<and> of_nat (length ms) < minMeaningCoverage * of_nat (length ws)) \<Longrightarrow> r = None"
    using res unfolding f by (auto simp: write_db_def Let_def v write_clear_def)
  show "r = Some (CoverageFailed m n) \<Longrightarrow> cf_minWords cfg \<le> length ws \<and> m = length ms \<and> n = length ws \<and>
      of_nat m < minMeaningCoverage * of_nat n \<and> (\<exists>t. fs' (cf_out cfg) = Some (Db t) \<and>
      filled ws ms (fst (buildAliases (be_unicode env) (be_ord env) ws)) t)"
    using res t(2) unfolding f al by (auto simp: write_db_def Let_def v split: if_splits)
  show "on_windows (be_write env) \<Longrightarrow> fs' (cf_out cfg) = fs (cf_out cfg) \<or> fs' (cf_out cfg) = None \<or> cf_minWords cfg \<le> length ws \<and>
      (\<exists>t. fs' (cf_out cfg) = Some (Db t) \<and> filled ws ms (fst (buildAliases (be_unicode env) (be_ord env) ws)) t)"
    using res t(2) unfolding f al by (auto simp: write_db_def Let_def split: if_splits)
qed

subsection \<open>The corpus of a dump\<close>

definition provenance_keys :: "str list" where
  "provenance_keys = [lit ''source_sha256'', lit ''source_pages'', lit ''source_fetched_at'']"

lemma provenance_keys_new: "distinct provenance_keys" "set provenance_keys \<inter> set meta_keys = {}"
  by (simp_all add: provenance_keys_def meta_keys_def lit_def)

lemma corpus_keys: "filter (\<lambda>key. key \<noteq> lit ''source_url'') corpusProvenanceKeys = provenance_keys"
  by (simp add: corpusProvenanceKeys_def provenance_keys_def lit_def)

lemma specs_ok: "src_ok (dumpSourceSpec path prov)" "src_ok (corpusSourceSpec path header)" "src_ok (listSourceSpec path)"
proof -
  have keys: "map fst (src_extra (dumpSourceSpec path prov)) = provenance_keys"
    by (simp add: dumpSourceSpec_def provenance_keys_def)
  then show "src_ok (dumpSourceSpec path prov)" unfolding src_ok_def keys using provenance_keys_new by blast
  have keys': "map fst (src_extra (corpusSourceSpec path header)) = provenance_keys"
    by (simp add: corpusSourceSpec_def corpus_keys o_def)
  then show "src_ok (corpusSourceSpec path header)" unfolding src_ok_def keys' using provenance_keys_new by blast
  show "src_ok (listSourceSpec path)" by (simp add: src_ok_def listSourceSpec_def)
qed

lemma corpus_text_ok:
  assumes laws: "builder_laws u" and data: "builder_data u (ws, ms)" and writ: "all_writable ms"
  shows "\<exists>text. corpus_text ws ms prov = Inr text"
proof -
  have "corpusField w = None" if w: "w \<in> fst ` set ws" for w
  proof -
    have "\<forall>(w, e) \<in> set ws. \<exists>ss. accept u w = Inr (w, ss) \<and> e = entry_of w ss" using data by (simp add: builder_data_def)
    then obtain ss where "accept u w = Inr (w, ss)" using w by auto
    from accepted_shape [OF laws this] show ?thesis by (simp add: corpusField_None)
  qed
  then have all: "\<forall>w \<in> set (sort (map fst ws)). corpusField w = None \<and> (\<forall>s \<in> set (senses_of ms w). writable s)"
    using writ by (simp add: all_writable_def)
  note write_words_cases [where keys = "sort (map fst ws)" and ms = ms, unfolded if_P [OF all]]
  then show ?thesis by (simp add: corpus_text_def Let_def)
qed

lemma writeCorpus_result:
  assumes "writeCorpus io path ws ms prov fs = (e, fs')" and "corpus_text ws ms prov = Inr text"
  shows "p \<noteq> path \<Longrightarrow> p \<noteq> tmp_path path \<Longrightarrow> fs' p = fs p" "e = None \<Longrightarrow> fs' path = Some (Text text)"
    "e = Some ce \<Longrightarrow> expected_error (CorpusFailed ce) \<and> fs' path = fs path"
  using assms by (auto simp: writeCorpus_def Let_def expected_error_def split: if_splits)

lemma runFromDump_None:
  assumes "runFromDump env cfg fs = (None, fs')"
  obtains d prov fs1 where "readDump (be_unicode env) (be_unescape env) (be_dump env) = Inr (d, prov)"
    "finish env cfg (dm_words d, dm_meanings d) (dumpSourceSpec (cf_dump cfg) prov) True fs = (None, fs1)"
    "if cf_export cfg = [] then fs' = fs1
     else writeCorpus (be_export env) (cf_export cfg) (dm_words d) (dm_meanings d) prov fs1 = (None, fs')"
  using assms by (auto simp: runFromDump_def split: if_splits sum.splits prod.splits option.splits)

subsection \<open>Tables with the same rows\<close>

definition same_rows :: "tables \<Rightarrow> tables \<Rightarrow> bool" where
  "same_rows t t' \<longleftrightarrow> mset (t_words t') = mset (t_words t) \<and> mset (t_syllables t') = mset (t_syllables t) \<and>
     mset (t_aliases t') = mset (t_aliases t) \<and> mset (t_meanings t') = mset (t_meanings t)"

lemma alist_mset:
  assumes "distinct (map fst xs)" and "distinct (map fst ys)" and "map_of xs = map_of ys"
  shows "mset xs = mset ys"
proof -
  have "set xs = set ys" using map_of_inject_set [OF assms(1,2)] assms(3) by blast
  moreover have "distinct xs" "distinct ys" using assms(1,2) by (simp_all add: distinct_map)
  ultimately show ?thesis by (simp add: set_eq_iff_mset_eq_distinct)
qed

lemma buildAliases_same:
  assumes data: "builder_data u (ws, ms)" "builder_data u (ws', ms')" and ord: "range_order ord" "range_order ord'"
    and eq: "map_of ws' = map_of ws"
  shows "mset (fst (buildAliases u ord' ws')) = mset (fst (buildAliases u ord ws))"
proof (rule alist_mset [OF aliases_of_words(1) [OF data(2) ord(2)] aliases_of_words(1) [OF data(1) ord(1)]])
  have d: "distinct (map fst ws)" "mset (ord (map fst ws)) = mset (map fst ws)"
      "distinct (map fst ws')" "mset (ord' (map fst ws')) = mset (map fst ws')"
    using data ord by (simp_all add: builder_data_def range_order_def)
  show "map_of (fst (buildAliases u ord' ws')) = map_of (fst (buildAliases u ord ws))"
  proof
    fix v
    have "map_of (fst (buildAliases u ord' ws')) v = Some w \<longleftrightarrow> map_of (fst (buildAliases u ord ws)) v = Some w" for w
      unfolding buildAliases_alias(2) [where ord = ord and u = u, OF d(1,2)]
        buildAliases_alias(2) [where ord = ord' and u = u, OF d(3,4)] eq ..
    then show "map_of (fst (buildAliases u ord' ws')) v = map_of (fst (buildAliases u ord ws)) v"
      by (metis not_None_eq)
  qed
qed

lemma filled_same:
  assumes data: "builder_data u (ws, ms)" "builder_data u (ws', ms')" and t: "filled ws ms als t" "filled ws' ms' als' t'"
    and eq: "map_of ws' = map_of ws" "map_of ms' = map_of ms" and als: "mset als' = mset als"
  shows "same_rows t t'"
proof -
  have d: "distinct (map fst ws)" "distinct (map fst ms)" "distinct (map fst ws')" "distinct (map fst ms')"
    using data by (simp_all add: builder_data_def)
  have w: "mset ws' = mset ws" and m: "mset ms' = mset ms" by (rule alist_mset; use d eq in simp)+
  have "mset (map (word_row \<circ> snd) ws') = mset (map (word_row \<circ> snd) ws)" by (simp only: mset_map w)
  then have words: "mset (t_words t') = mset (t_words t)" using t by (simp add: filled_def)
  have cnt: "count_if f ws' = count_if f ws" for f using w unfolding count_if_def by (metis mset_filter size_mset)
  have sets: "set ws' = set ws" using w by (rule mset_eq_setD)
  have "map_of (t_syllables t') = map_of (t_syllables t)" using t by (simp add: filled_def fun_eq_iff sets cnt)
  moreover have "distinct (map fst (t_syllables t'))" "distinct (map fst (t_syllables t))" using t by (simp_all add: filled_def)
  ultimately have syl: "mset (t_syllables t') = mset (t_syllables t)" by (intro alist_mset)
  obtain keys keys' where keys: "mset keys = mset (map fst ms)" "t_meanings t = concat (map (sense_rows ms) keys)"
      "mset keys' = mset (map fst ms')" "t_meanings t' = concat (map (sense_rows ms') keys')"
    using t by (auto simp: filled_def)
  have rows: "sense_rows ms' = sense_rows ms" by (simp add: fun_eq_iff sense_rows_def senses_of_def eq)
  have "mset (concat (map f ks)) = sum_mset (image_mset (mset \<circ> f) (mset ks))" for f :: "str \<Rightarrow> (str \<times> nat \<times> str \<times> str) list" and ks
    by (induction ks) simp_all
  moreover have "mset keys' = mset keys" using keys(1,3) m by simp
  ultimately have "mset (t_meanings t') = mset (t_meanings t)" by (simp add: keys(2,4) rows)
  then show ?thesis using words syl t als by (simp add: same_rows_def filled_def)
qed

end
