(* ===== verification/Builder_Demo.thy ===== *)
theory Builder_Demo
  imports Builder_Run Fixtures
begin

text \<open>
  A dump of one page for the witnesses: the word \<open>ba me\<close> with one definition, and the environment of a build from it.
  Nothing here models code.
\<close>

lemma demo_builder_laws: "builder_laws demo_unicode"
  by (simp add: builder_laws_def demo_unicode_laws) (simp add: demo_unicode_def)

lemma demo_accepts:
  "accept demo_unicode (lit ''Ba  me'') = Inr (lit ''ba me'', [lit ''ba'', lit ''me''])"
  "accept demo_unicode (lit ''ba me'') = Inr (lit ''ba me'', [lit ''ba'', lit ''me''])"
proof -
  have n: "Normalize demo_unicode (lit ''Ba  me'') = Some (lit ''ba me'', [lit ''ba'', lit ''me''])"
    "Normalize demo_unicode (lit ''ba me'') = Some (lit ''ba me'', [lit ''ba'', lit ''me''])"
    by (simp_all add: Normalize_def Let_def demo_unicode_def to_lower_def Go_Strings.fields_def lit_def is_space_def)
  have b: "bad_rune demo_unicode (lit ''ba me'') = None" by code_simp
  have a: "usesVietnameseAlphabet demo_unicode (lit ''ba me'')"
    by (simp add: usesVietnameseAlphabet_def demo_unicode_def vietnameseBaseLetters_def lit_def)
  have m: "strip_marks demo_unicode (lit ''ba'') = lit ''b'' @ lit ''a'' @ []"
    "strip_marks demo_unicode (lit ''me'') = lit ''m'' @ lit ''e'' @ []"
    by (simp_all add: strip_marks_def demo_unicode_def isCombiningMark_def lit_def)
  have "lit ''b'' \<in> set vietnameseOnsets" "lit ''m'' \<in> set vietnameseOnsets"
    "lit ''a'' \<in> set vietnameseNuclei" "lit ''e'' \<in> set vietnameseNuclei"
    by (simp_all add: vietnameseOnsets_def vietnameseNuclei_def)
  then have s: "isVietnameseSyllable demo_unicode (lit ''ba'')" "isVietnameseSyllable demo_unicode (lit ''me'')"
    unfolding isVietnameseSyllable_iff syllable_of_def m by blast+
  show "accept demo_unicode (lit ''Ba  me'') = Inr (lit ''ba me'', [lit ''ba'', lit ''me''])"
    "accept demo_unicode (lit ''ba me'') = Inr (lit ''ba me'', [lit ''ba'', lit ''me''])"
    unfolding accept_Inr using n b a s by (simp_all add: HasEnoughSyllables_def MinSyllables_def)
qed

lemma demo_section: "vietnameseSection (lit ''{{-vie-}}'' @ [10] @ lit ''#b'') = ([10] @ lit ''#b'', Legacy, False, [])"
  by code_simp

lemma demo_strip: "stripWikitext demo_unicode (\<lambda>s. s) [98] = [98]"
proof -
  have r: "all_matches htmlComment [98] 0 = []" "all_matches refElement [98] 0 = []" "all_matches anyTag [98] 0 = []"
      "all_matches space_runs [98] 0 = []"
    by (simp_all add: all_matches.simps first_match.simps htmlComment_def refElement_def anyTag_def space_runs_def lit_def)
  have t: "stripTemplates demo_unicode [98] = [98]" "stripLinks demo_unicode [98] = [98]"
    by (simp_all add: stripTemplates.simps stripLinks_def wiki_links.simps [of _ "[98]"] external_links.simps [of "[98]"] lit_def)
  have p: "List.map_filter (plain_rune demo_unicode) [98] = [98]" "TrimSpace [98] = [98]"
    "\<exists>r \<in> set [98]. is_letter demo_unicode r \<or> is_digit demo_unicode r"
    by (simp_all add: map_filter_def plain_rune_def is_control_def demo_unicode_def is_space_def TrimSpace_id trimmed_def)
  show ?thesis
    using p by (simp add: stripWikitext_def Let_def ReplaceAllString_def r t ReplaceAll.simps [of "[98]"] lit_def)
qed

lemma demo_definitions: "definitions demo_unicode (\<lambda>s. s) ([10] @ lit ''#b'') = [\<lparr>gs_pos = [], gs_gloss = [98]\<rparr>]"
proof -
  have l: "Split 10 ([10] @ lit ''#b'') = [[], [35, 98]]" "trim_line [] = []" "trim_line [35, 98] = [35, 98]"
    by (simp_all add: lit_def trim_line_def TrimRightFunc_def)
  have h: "classifyHeading demo_unicode [] = ([], notHeading)" "classifyHeading demo_unicode [35, 98] = ([], notHeading)"
    by code_simp+
  have d: "\<not> isDefinitionLine []" "isDefinitionLine [35, 98]" by code_simp+
  show ?thesis
    unfolding definitions_def l using demo_strip
    by (simp add: definition_step_def l h d Let_def capGloss_id maxGlossRunes_def maxSenses_def)
qed

definition demo_page :: dumpPage where
  "demo_page = \<lparr>pg_title = lit ''Ba  me'', pg_ns = 0, pg_redirect = None,
       pg_revisions = [lit ''{{-vie-}}'' @ [10] @ lit ''#b'']\<rparr>"

definition demo_dump :: dump_input where
  "demo_dump = \<lparr>di_exists = True, di_opens = True, di_bzip2 = True,
     di_pages = [demo_page],
     di_stream_ok = True, di_tail_ok = True, di_sha256 = lit ''ab'', di_fetchedAt = lit ''t''\<rparr>"

definition demo_words :: "(str \<times> entry) list" where
  "demo_words = [(lit ''ba me'', entry_of (lit ''ba me'') [lit ''ba'', lit ''me''])]"

definition demo_meanings :: "(str \<times> gloss_sense list) list" where
  "demo_meanings = [(lit ''ba me'', [\<lparr>gs_pos = [], gs_gloss = [98]\<rparr>])]"

definition demo_prov :: dumpProvenance where
  "demo_prov = \<lparr>pv_sha256 = lit ''ab'', pv_pages = 1, pv_fetchedAt = lit ''t''\<rparr>"

lemma demo_read:
  "\<exists>d. readDump demo_unicode (\<lambda>s. s) demo_dump = Inr (d, demo_prov) \<and> dm_words d = demo_words \<and> dm_meanings d = demo_meanings"
proof -
  obtain d where d: "read_page demo_unicode (\<lambda>s. s) demo_page no_dump_state = Inr d"
      "dm_words d = demo_words" "dm_meanings d = demo_meanings" "dm_pages d = 1"
    by (simp add: read_page_def Let_def demo_page_def demo_section [simplified] demo_accepts demo_definitions [simplified]
        keep_word_def count_section_def stat_def no_dump_state_def no_dump_stats_def demo_words_def demo_meanings_def senses_of_def
        maxSenses_def)
  then show ?thesis by (auto simp: readDump_def demo_dump_def demo_prov_def)
qed

definition demo_env :: builder_env where
  "demo_env = \<lparr>be_unicode = demo_unicode, be_ord = (\<lambda>ks. ks), be_now = [],
     be_write = \<lparr>stale_fails = False, sql_fails = False, move_fails = False, on_windows = False, remove_fails = False,
       move_again_fails = False\<rparr>,
     be_verify_fails = False, be_unescape = (\<lambda>s. s), be_dump = demo_dump, be_input = None,
     be_export = \<lparr>create_fails = False, flush_fails = False, close_fails = False, rename_fails = False\<rparr>\<rparr>"

definition demo_config :: config where
  "demo_config = \<lparr>cf_dump = lit ''d'', cf_words = [], cf_corpus = [], cf_export = lit ''x'', cf_out = lit ''o'',
     cf_minWords = 1, cf_minPages = 1\<rparr>"

lemma demo_run:
  "\<exists>t b fs1. runFromDump demo_env demo_config (\<lambda>_. None) = (None, fs1) \<and> fs1 (lit ''o'') = Some (Db t) \<and>
     fs1 (lit ''x'') = Some (Text b) \<and> length (t_words t) = 1 \<and> length (t_meanings t) = 1"
proof -
  obtain d where d: "readDump demo_unicode (\<lambda>s. s) demo_dump = Inr (d, demo_prov)" "dm_words d = demo_words"
    "dm_meanings d = demo_meanings" using demo_read by blast
  have ok: "builder_data demo_unicode (demo_words, demo_meanings)" "all_writable demo_meanings"
    using readDump_ok(1) [OF demo_builder_laws d(1)] d(2,3) by (simp_all add: dump_ok_def)
  obtain r fs' where fin: "finish demo_env demo_config (demo_words, demo_meanings) (dumpSourceSpec (lit ''d'') demo_prov) True
      (\<lambda>_. None) = (r, fs')"
    by (cases "finish demo_env demo_config (demo_words, demo_meanings) (dumpSourceSpec (lit ''d'') demo_prov) True (\<lambda>_. None)")
  have env: "be_unicode demo_env = demo_unicode" "be_ord demo_env = (\<lambda>ks. ks)" "write_clear (be_write demo_env)"
      "\<not> be_verify_fails demo_env" "be_export demo_env = \<lparr>create_fails = False, flush_fails = False, close_fails = False,
      rename_fails = False\<rparr>" "be_unescape demo_env = (\<lambda>s. s)" "be_dump demo_env = demo_dump"
    by (simp_all add: demo_env_def write_clear_def)
  have pre: "builder_laws (be_unicode demo_env)" "range_order (be_ord demo_env)"
      "builder_data (be_unicode demo_env) (demo_words, demo_meanings)"
    using demo_builder_laws ok by (simp_all add: env range_order_def)
  have r: "r = None"
    using finish_result(5) [OF pre specs_ok(1) fin]
    by (simp add: env demo_config_def demo_words_def demo_meanings_def minMeaningCoverage_def)
  obtain t where t: "fs' (cf_out demo_config) = Some (Db t)"
      "filled demo_words demo_meanings (fst (buildAliases (be_unicode demo_env) (be_ord demo_env) demo_words)) t"
    using finish_result(2) [OF pre specs_ok(1) fin r] by blast
  have "length (t_words t) = 1" "length (t_meanings t) = 1"
    using filled_rows(2) [OF pre(3) t(2)] meanings_of_filled(2) [OF pre(3) t(2)]
    by (simp_all add: demo_words_def demo_meanings_def senses_of_def)
  moreover obtain body where "corpus_text demo_words demo_meanings demo_prov = Inr body"
    using corpus_text_ok [OF demo_builder_laws ok] by blast
  ultimately show ?thesis using fin r t(1)
    by (simp add: runFromDump_def env d demo_dump_def [THEN arg_cong [where f = di_exists]] demo_prov_def [THEN arg_cong [where f = pv_pages]]
        demo_config_def writeCorpus_def Let_def tmp_path_def lit_def)
qed

text \<open>A database that answers from tables.\<close>

definition served :: "tables \<Rightarrow> database" where
  "served t = \<lparr>db_meta = (\<lambda>k. case map_of (t_meta t) k of None \<Rightarrow> NoRows | Some v \<Rightarrow> Scanned v),
     db_syllables = Rows (t_syllables t), db_words = Rows (map (\<lambda>(w, f, l, n). (w, f, l)) (t_words t)),
     db_aliases = Rows (t_aliases t),
     db_meanings = Rows (map (\<lambda>(w, i, p, g). (w, \<lparr>Pos = p, Gloss = g\<rparr>)) (sort_key (\<lambda>r. fst (snd r)) (t_meanings t)))\<rparr>"

lemma serves_served: "serves t (served t)"
proof -
  have "sorted_wrt (\<lambda>x y. fst (snd x) \<le> fst (snd y)) (sort_key (\<lambda>r. fst (snd r)) (t_meanings t))"
    using sorted_sort_key [of "\<lambda>r. fst (snd r)" "t_meanings t"] by (simp add: sorted_map)
  then have "sorted_wrt (\<lambda>(w, i, _) (w', i', _). w = w' \<longrightarrow> i \<le> i') (sort_key (\<lambda>r. fst (snd r)) (t_meanings t))"
    by (rule sorted_wrt_mono_rel [rotated]) auto
  moreover have "mset (sort_key (\<lambda>r. fst (snd r)) (t_meanings t)) = mset (t_meanings t)" by simp
  ultimately show ?thesis unfolding serves_def served_def by auto
qed

end
