(* ===== verification/Builder_Props.thy ===== *)
theory Builder_Props
  imports Builder_Demo
begin

text \<open>
  What the offline builder promises: the words it accepts, the spellings it adds, the definitions it keeps, how it
  accounts for the pages of a dump, how a build may end, that a build from the corpus equals the build the corpus was
  exported from, and that the server's store opens on what was built.
\<close>

subsection \<open>Runs\<close>

definition output_apart :: "config \<Rightarrow> bool" where
  "output_apart cfg \<longleftrightarrow> cf_export cfg = [] \<or> cf_out cfg \<notin> {cf_export cfg, tmp_path (cf_export cfg)}"

definition built :: "builder_env \<Rightarrow> config \<Rightarrow> (nat \<Rightarrow> nat \<Rightarrow> bool) \<Rightarrow> tables files \<Rightarrow> bool" where
  "built env cfg quota fs \<longleftrightarrow> (\<exists>ws ms t. builder_data (be_unicode env) (ws, ms) \<and> cf_minWords cfg \<le> length ws \<and>
     quota (length ms) (length ws) \<and>
     fs (cf_out cfg) = Some (Db t) \<and> filled ws ms (fst (buildAliases (be_unicode env) (be_ord env) ws)) t)"

abbreviation low :: "nat \<Rightarrow> nat \<Rightarrow> bool" where
  "low meant all \<equiv> of_nat meant < minMeaningCoverage * of_nat all"

definition ends_well :: "bool \<Rightarrow> builder_env \<Rightarrow> config \<Rightarrow> tables files \<Rightarrow> build_error option \<times> tables files \<Rightarrow> bool" where
  "ends_well coverage env cfg fs = (\<lambda>(r, fs').
     (r = None \<longrightarrow> built env cfg (\<lambda>m n. \<not> (coverage \<and> low m n)) fs') \<and> (\<forall>e. r = Some e \<longrightarrow> expected_error e) \<and>
     (\<forall>m n. r = Some (CoverageFailed m n) \<longrightarrow> built env cfg (\<lambda>m' n'. m' = m \<and> n' = n \<and> low m n) fs') \<and>
     (fs' (cf_out cfg) = fs (cf_out cfg) \<or> built env cfg (\<lambda>_ _. True) fs' \<or> on_windows (be_write env) \<and> fs' (cf_out cfg) = None))"

lemma finish_ends_well:
  assumes "builder_laws (be_unicode env)" and "range_order (be_ord env)"
    and "builder_data (be_unicode env) (ws, ms)" and "src_ok src"
  shows "ends_well coverage env cfg fs (finish env cfg (ws, ms) src coverage fs)"
proof -
  obtain r fs' where res: "finish env cfg (ws, ms) src coverage fs = (r, fs')"
    by (cases "finish env cfg (ws, ms) src coverage fs")
  note f = finish_result(2-4,6,7) [OF assms res]
  show ?thesis unfolding res ends_well_def prod.case
  proof (intro conjI allI impI)
    show "r = None \<Longrightarrow> built env cfg (\<lambda>m n. \<not> (coverage \<and> low m n)) fs'" using f(1) assms(3) unfolding built_def by blast
    show "r = Some e \<Longrightarrow> expected_error e" for e by (rule f(2))
    show "r = Some (CoverageFailed m n) \<Longrightarrow> built env cfg (\<lambda>m' n'. m' = m \<and> n' = n \<and> low m n) fs'" for m n
      using f(4) assms(3) unfolding built_def by blast
    show "fs' (cf_out cfg) = fs (cf_out cfg) \<or> built env cfg (\<lambda>_ _. True) fs' \<or> on_windows (be_write env) \<and> fs' (cf_out cfg) = None"
      using f(3,5) assms(3) unfolding built_def by blast
  qed
qed

lemma runFromDump_ends_well:
  assumes laws: "builder_laws (be_unicode env)" and ord: "range_order (be_ord env)" and apart: "output_apart cfg"
  shows "ends_well True env cfg fs (runFromDump env cfg fs)"
proof (cases "readDump (be_unicode env) (be_unescape env) (be_dump env)")
  case (Inl e)
  then show ?thesis by (simp add: runFromDump_def ends_well_def expected_error_def)
next
  case (Inr dp)
  obtain d prov where dp: "dp = (d, prov)" by (cases dp)
  have d: "dump_ok (be_unicode env) d" using readDump_ok(1) [OF laws] Inr dp by blast
  then have data: "builder_data (be_unicode env) (dm_words d, dm_meanings d)" and writ: "all_writable (dm_meanings d)"
    by (simp_all add: dump_ok_def)
  obtain r fs1 where fin: "finish env cfg (dm_words d, dm_meanings d) (dumpSourceSpec (cf_dump cfg) prov) True fs = (r, fs1)"
    by (cases "finish env cfg (dm_words d, dm_meanings d) (dumpSourceSpec (cf_dump cfg) prov) True fs")
  have e1: "ends_well True env cfg fs (r, fs1)"
    using finish_ends_well [OF laws ord data specs_ok(1), of True cfg fs] fin by metis
  obtain body where body: "corpus_text (dm_words d) (dm_meanings d) prov = Inr body" using corpus_text_ok [OF laws data writ] by blast
  obtain e fs2 where wr: "writeCorpus (be_export env) (cf_export cfg) (dm_words d) (dm_meanings d) prov fs1 = (e, fs2)"
    by (cases "writeCorpus (be_export env) (cf_export cfg) (dm_words d) (dm_meanings d) prov fs1")
  note w = writeCorpus_result [OF wr body]
  have "ends_well True env cfg fs (map_option CorpusFailed e, fs2)" if "r = None" "cf_export cfg \<noteq> []"
  proof -
    have same: "fs2 (cf_out cfg) = fs1 (cf_out cfg)" using w(1) apart that(2) by (auto simp: output_apart_def)
    then have "built env cfg q fs2 = built env cfg q fs1" for q by (simp add: built_def)
    then show ?thesis using e1 that(1) w(3) same by (auto simp: ends_well_def)
  qed
  then show ?thesis using e1
    by (cases r) (simp_all add: runFromDump_def Inr dp fin wr ends_well_def expected_error_def)
qed

lemma run_ends_well:
  assumes laws: "builder_laws (be_unicode env)" and ord: "range_order (be_ord env)" and apart: "output_apart cfg"
  shows "ends_well (cf_words cfg = []) env cfg fs (run_builder env cfg fs)"
proof -
  have fail: "expected_error e \<Longrightarrow> \<forall>m n. e \<noteq> CoverageFailed m n \<Longrightarrow> ends_well coverage env cfg fs (Some e, fs)" for coverage e
    by (simp add: ends_well_def)
  have list: "ends_well coverage env cfg fs (finish env cfg (readWordList (be_unicode env) raw) src coverage fs)"
    if "src_ok src" for raw src coverage
    using finish_ends_well [OF laws ord _ that] readWordList_data [OF laws, of raw]
    by (cases "readWordList (be_unicode env) raw") simp
  have "ends_well True env cfg fs (runFromCorpus env cfg fs)"
    using list [OF specs_ok(2)] fail
    by (auto simp: runFromCorpus_def Let_def expected_error_def split: option.split)
  moreover have "ends_well False env cfg fs (runFromWordList env cfg fs)"
    using list [OF specs_ok(3)] fail
    by (auto simp: runFromWordList_def expected_error_def split: option.split)
  ultimately show ?thesis using runFromDump_ends_well [OF assms] fail
    by (cases "cf_words cfg = []") (simp_all add: run_builder_def Let_def expected_error_def)
qed

subsection \<open>Words\<close>

text \<open>
  Claim (C34). The builder accepts a title exactly when it normalizes to at least two syllables, every rune is a plain
  letter, the letters are Vietnamese ones, and every syllable, its tone and marks aside, is an onset, a nucleus and a
  coda of the tables; and what it accepts it would accept again, unchanged.
\<close>

theorem accepted_words:
  assumes "unicode_laws u"
  shows "(accept u raw = Inr (w, ss) \<longleftrightarrow>
      Normalize u raw = Some (w, ss) \<and> 2 \<le> length ss \<and>
      (\<forall>r \<in> set w. r = 32 \<or> is_letter u r \<and> \<not> is_digit u r \<and> \<not> is_punct u r \<and> \<not> is_symbol u r) \<and>
      (\<forall>r \<in> set (nfd u w). is_mn u r \<or> r = 32 \<or> r \<in> set vietnameseBaseLetters) \<and>
      (\<exists>r \<in> set (nfd u w). \<not> is_mn u r \<and> r \<noteq> 32) \<and>
      (\<forall>s \<in> set ss. syllable_of (strip_marks u s))) \<and>
    (accept u raw = Inr (w, ss) \<longrightarrow> accept u w = Inr (w, ss) \<and> w = join_sp ss)"
proof
  show "accept u raw = Inr (w, ss) \<longleftrightarrow>
      Normalize u raw = Some (w, ss) \<and> 2 \<le> length ss \<and>
      (\<forall>r \<in> set w. r = 32 \<or> is_letter u r \<and> \<not> is_digit u r \<and> \<not> is_punct u r \<and> \<not> is_symbol u r) \<and>
      (\<forall>r \<in> set (nfd u w). is_mn u r \<or> r = 32 \<or> r \<in> set vietnameseBaseLetters) \<and>
      (\<exists>r \<in> set (nfd u w). \<not> is_mn u r \<and> r \<noteq> 32) \<and>
      (\<forall>s \<in> set ss. syllable_of (strip_marks u s))"
    unfolding accept_Inr HasEnoughSyllables_def MinSyllables_def bad_rune_None usesVietnameseAlphabet_def alphabet_loop_iff
      list_all_iff isVietnameseSyllable_iff by (simp only: simp_thms conj_assoc)
  show "accept u raw = Inr (w, ss) \<longrightarrow> accept u w = Inr (w, ss) \<and> w = join_sp ss"
  proof
    assume a: "accept u raw = Inr (w, ss)"
    then have "Normalize u raw = Some (w, ss)" unfolding accept_Inr by (rule conjunct1)
    then show "accept u w = Inr (w, ss) \<and> w = join_sp ss" using accept_idem [OF assms a] Normalize_syllables by blast
  qed
qed

theorem accepted_words_witness:
  "accept demo_unicode (lit ''Ba  me'') = Inr (lit ''ba me'', [lit ''ba'', lit ''me'']) \<and>
   accept demo_unicode (lit ''ba me'') = Inr (lit ''ba me'', [lit ''ba'', lit ''me''])"
  using demo_accepts(1)
    conjunct1 [OF mp [OF conjunct2 [OF accepted_words [OF demo_unicode_laws]] demo_accepts(1)]] by (rule conjI)

subsection \<open>Other spellings\<close>

text \<open>
  Claim (C35). Whatever order Go ranges over the words in, a spelling becomes an alias of a word exactly when it is no
  word itself and that word alone claims it; a word claims fewer than 32 spellings, none twice and never itself,
  and the collisions counted are the claims on real words and the spellings two words claim.
\<close>

theorem alias_of_the_only_claimant:
  assumes "distinct (map fst ws)" and "range_order ord"
  shows "(map_of (fst (buildAliases u ord ws)) v = Some w \<longleftrightarrow>
      map_of ws v = None \<and> {w'. map_of ws w' \<noteq> None \<and> v \<in> set (variantsFor u w')} = {w}) \<and>
    snd (buildAliases u ord ws) = card {(w, v). map_of ws w \<noteq> None \<and> v \<in> set (variantsFor u w) \<and> map_of ws v \<noteq> None} +
      card {v. map_of ws v = None \<and> 2 \<le> card {w. map_of ws w \<noteq> None \<and> v \<in> set (variantsFor u w)}} \<and>
    length (variantsFor u w) < 32 \<and> distinct (variantsFor u w) \<and> w \<notin> set (variantsFor u w)"
proof -
  have d: "distinct (map fst ws)" "mset (ord (map fst ws)) = mset (map fst ws)" using assms by (simp_all add: range_order_def)
  show ?thesis
    using buildAliases_alias(2,3) [where ord = ord and u = u, OF d] variantsFor_facts [of u w] by (simp add: maxVariantsPerWord_def)
qed

theorem alias_of_the_only_claimant_witness:
  "distinct (map fst [(lit ''ba me'', entry_of (lit ''ba me'') [lit ''ba'', lit ''me''])]) \<and>
   length (variantsFor demo_unicode (lit ''ba me'')) < 32"
  using alias_of_the_only_claimant [of "[(lit ''ba me'', entry_of (lit ''ba me'') [lit ''ba'', lit ''me''])]" "\<lambda>ks. ks" demo_unicode
      _ "lit ''ba me''"] by (simp add: range_order_def)

subsection \<open>Definitions\<close>

text \<open>
  Claim (C36). Whatever the wikitext of a page holds, the definitions taken from it are at most five, each non-empty,
  at most 200 characters long, free of control characters, of any space but the plain one, and of space at its ends;
  and each label and text can be written into the corpus, so that it reads back as the same definition.
\<close>

theorem definitions_are_plain:
  "length (definitions u unescape wikitext) \<le> 5 \<and>
   list_all (\<lambda>s. gs_gloss s \<noteq> [] \<and> length (gs_gloss s) \<le> 200 \<and>
     filter is_control (gs_gloss s) = [] \<and> set (filter is_space (gs_gloss s)) \<subseteq> {32} \<and>
     TrimSpace (gs_gloss s) = gs_gloss s \<and> (gs_pos s = [] \<or> gs_pos s \<in> snd ` set posLabelMap) \<and>
     parse_cell (cell_of s) = Some s) (definitions u unescape wikitext)"
  using definitions_ok [of u unescape wikitext] cell_shape(3)
  by (auto simp: list_all_iff maxSenses_def maxGlossRunes_def sense_ok_def clean_def TrimSpace_id filter_empty_conv)

text \<open>A pipe outside links and templates survives the stripper.\<close>

lemma pipe_survives: "stripWikitext demo_unicode (\<lambda>s. s) [97, 124, 98] = [97, 124, 98]"
proof -
  have r: "all_matches htmlComment [97, 124, 98] 0 = []" "all_matches refElement [97, 124, 98] 0 = []"
      "all_matches anyTag [97, 124, 98] 0 = []" "all_matches space_runs [97, 124, 98] 0 = []"
    by (simp_all add: all_matches.simps first_match.simps htmlComment_def refElement_def anyTag_def space_runs_def lit_def)
  have t: "stripTemplates demo_unicode [97, 124, 98] = [97, 124, 98]" "stripLinks demo_unicode [97, 124, 98] = [97, 124, 98]"
    by (simp_all add: stripTemplates.simps stripLinks_def wiki_links.simps [of _ "[97, 124, 98]"]
        external_links.simps [of "[97, 124, 98]"] lit_def)
  have p: "List.map_filter (plain_rune demo_unicode) [97, 124, 98] = [97, 124, 98]" "TrimSpace [97, 124, 98] = [97, 124, 98]"
    "\<exists>r \<in> set [97, 124, 98]. is_letter demo_unicode r \<or> is_digit demo_unicode r"
    by (simp_all add: map_filter_def plain_rune_def is_control_def demo_unicode_def is_space_def TrimSpace_id trimmed_def)
  show ?thesis
    using p by (simp add: stripWikitext_def Let_def ReplaceAllString_def r t ReplaceAll.simps [of "[97, 124, 98]"] lit_def)
qed

subsection \<open>The dump\<close>

text \<open>
  Claim (C37). Reading a dump to its end accounts for every page: each page of the main namespace is a redirect, has no
  Vietnamese section, or is counted into the provenance under the one dialect that opened its section; and each of
  the latter two is a new word, a title merged into a word already seen, or rejected for one reason.
\<close>

theorem dump_pages_accounted:
  assumes "builder_laws u" and "readDump u unescape di = Inr (d, prov)"
  shows "let s = dm_stats d
    in ds_pages s = length (di_pages di) \<and> ds_ns0 s \<le> ds_pages s \<and>
       ds_ns0 s = ds_redirects s + ds_noVietnamese s + pv_pages prov \<and>
       pv_pages prov = ds_legacy s + ds_newDialect s \<and> ds_bothDialects s \<le> pv_pages prov \<and>
       ds_noVietnamese s + pv_pages prov = length (dm_words d) + ds_merged s + rejects_total d \<and>
       distinct (map fst (dm_words d))"
proof -
  note r = readDump_ok [OF assms]
  have "distinct (map fst (dm_words d))" using r(1) by (simp add: dump_ok_def builder_data_def)
  then show ?thesis using r(2-4) by (simp add: accounted_def Let_def)
qed

theorem dump_pages_accounted_witness:
  "\<exists>d. readDump demo_unicode (\<lambda>s. s) demo_dump = Inr (d, demo_prov) \<and>
     ds_noVietnamese (dm_stats d) + pv_pages demo_prov = length (dm_words d) + ds_merged (dm_stats d) + rejects_total d"
proof -
  obtain d where d: "readDump demo_unicode (\<lambda>s. s) demo_dump = Inr (d, demo_prov)" using demo_read by blast
  then show ?thesis using dump_pages_accounted [OF demo_builder_laws d] by (auto simp: Let_def)
qed

subsection \<open>How a build ends\<close>

text \<open>
  A whole database, said over its rows: enough words, none twice, each of two syllables or more with its first in the
  syllables table; an alias is no word and leads to one; a meaning is some word's, not empty and not too long, and no
  word has too many. The floor on meanings is said apart: at least six words in ten have one.
\<close>

definition whole_database :: "nat \<Rightarrow> tables \<Rightarrow> bool" where
  "whole_database quota t \<longleftrightarrow>
     quota \<le> length (t_words t) \<and> distinct (map fst (t_words t)) \<and>
     (\<forall>(w, f, l, n) \<in> set (t_words t). 2 \<le> n \<and> f \<noteq> [] \<and> l \<noteq> [] \<and> f \<in> fst ` set (t_syllables t)) \<and>
     (\<forall>(v, w) \<in> set (t_aliases t). v \<notin> fst ` set (t_words t) \<and> w \<in> fst ` set (t_words t)) \<and>
     (\<forall>(w, i, p, g) \<in> set (t_meanings t). w \<in> fst ` set (t_words t) \<and> g \<noteq> [] \<and> length g \<le> maxGlossRunes) \<and>
     (\<forall>w. length (filter (\<lambda>r. fst r = w) (t_meanings t)) \<le> maxSenses)"

definition words_with_meaning :: "tables \<Rightarrow> nat" where
  "words_with_meaning t = card (fst ` set (t_meanings t))"

definition covered :: "tables \<Rightarrow> bool" where
  "covered t \<longleftrightarrow> 6 * length (t_words t) \<le> 10 * words_with_meaning t"

lemma first_failed_None: "first_failed t cs = None \<longleftrightarrow> (\<forall>(d, query, want) \<in> set cs. want (query t))"
  by (induction t cs rule: first_failed.induct) auto

lemma passed_whole:
  assumes "first_failed t (verify_checks quota) = None" and "distinct (map fst (t_words t))"
  shows "whole_database quota t"
proof -
  have zero: "count_if f xs = 0 \<longleftrightarrow> (\<forall>x \<in> set xs. \<not> f x)" for f and xs :: "'z list"
    by (simp add: count_if_def filter_empty_conv)
  have p: "\<forall>(d, query, want) \<in> set (verify_checks quota). want (query t)" using assms(1) by (simp only: first_failed_None)
  note p = p [unfolded verify_checks_def, simplified, unfolded zero has_word_def]
  have senses: "length (filter (\<lambda>r. fst r = w) (t_meanings t)) \<le> maxSenses" for w
  proof (cases "w \<in> fst ` set (t_meanings t)")
    case True
    then show ?thesis using p by (force simp: count_if_def)
  next
    case False
    then have "filter (\<lambda>r. fst r = w) (t_meanings t) = []" by (auto simp: filter_empty_conv)
    then show ?thesis by simp
  qed
  show ?thesis unfolding whole_database_def using p assms(2) senses
    by (simp add: case_prod_beta not_less ball_conj_distrib)
qed

lemma built_whole:
  assumes laws: "builder_laws (be_unicode env)" and ord: "range_order (be_ord env)" and built: "built env cfg q fs"
  obtains t where "fs (cf_out cfg) = Some (Db t)" "whole_database (cf_minWords cfg) t"
    "q (words_with_meaning t) (length (t_words t))"
proof -
  obtain ws ms t where b: "builder_data (be_unicode env) (ws, ms)" "cf_minWords cfg \<le> length ws" "fs (cf_out cfg) = Some (Db t)"
      "filled ws ms (fst (buildAliases (be_unicode env) (be_ord env) ws)) t" "q (length ms) (length ws)"
    using built by (auto simp: built_def)
  have "first_failed t (verify_checks (cf_minWords cfg)) = None"
    using verify_passes [OF laws b(1,4) aliases_of_words(2) [OF b(1) ord], of "cf_minWords cfg"] b(2) by simp
  then have "whole_database (cf_minWords cfg) t" using filled_rows(3) [OF b(1,4)] by (rule passed_whole)
  moreover have "words_with_meaning t = length ms"
    using meanings_of_filled(1) [OF b(1,4)] by (simp add: words_with_meaning_def length_remdups_card_conv)
  ultimately show ?thesis using that b(3,5) filled_rows(2) [OF b(1,4)] by simp
qed

lemma low_covered: "low (words_with_meaning t) (length (t_words t)) \<longleftrightarrow> \<not> covered t"
proof -
  have "low m n \<longleftrightarrow> rat_of_nat (10 * m) < rat_of_nat (6 * n)" for m n by (simp add: minMeaningCoverage_def field_simps)
  then show ?thesis by (simp only: of_nat_less_iff covered_def not_le)
qed

text \<open>
  Claim (C38). However a build is run, in whichever mode and whichever call of the system fails: a success leaves at the
  target a whole database, and outside word-list mode one in which at least six words in ten have a meaning. A failure
  is never a duplicate key, a meaning without its word or over its cap, a failed table check, or a word or meaning the
  corpus cannot carry. The target is left as it was, or holds a whole database, never a partial one, or, on Windows
  only, is gone. A failure after the rename has already replaced the target: when the build fails for too few
  meanings, what stands there is the new database, whole, with the meanings and words counted in the error and fewer
  than six words in ten with a meaning.
\<close>

theorem build_outcome:
  assumes "builder_laws (be_unicode env)" and "range_order (be_ord env)" and "output_apart cfg"
  shows "case run_builder env cfg fs of (r, fs') \<Rightarrow>
    (r = None \<longrightarrow> (\<exists>t. fs' (cf_out cfg) = Some (Db t) \<and> whole_database (cf_minWords cfg) t \<and> (cf_words cfg = [] \<longrightarrow> covered t))) \<and>
    (\<forall>e. r = Some e \<longrightarrow> expected_error e) \<and>
    (\<forall>m n. r = Some (CoverageFailed m n) \<longrightarrow> (\<exists>t. fs' (cf_out cfg) = Some (Db t) \<and> whole_database (cf_minWords cfg) t \<and>
      \<not> covered t \<and> m = words_with_meaning t \<and> n = length (t_words t))) \<and>
    (fs' (cf_out cfg) = fs (cf_out cfg) \<or> (\<exists>t. fs' (cf_out cfg) = Some (Db t) \<and> whole_database (cf_minWords cfg) t) \<or>
      on_windows (be_write env) \<and> fs' (cf_out cfg) = None)"
proof -
  obtain r fs' where run: "run_builder env cfg fs = (r, fs')" by (cases "run_builder env cfg fs")
  note e = run_ends_well [OF assms, of fs, unfolded run ends_well_def prod.case]
  note whole = built_whole [OF assms(1,2)]
  show ?thesis unfolding run prod.case
  proof (intro conjI allI impI)
    assume "r = None"
    with e obtain t where "fs' (cf_out cfg) = Some (Db t)" "whole_database (cf_minWords cfg) t"
        "\<not> (cf_words cfg = [] \<and> low (words_with_meaning t) (length (t_words t)))"
      by (auto elim: whole)
    then show "\<exists>t. fs' (cf_out cfg) = Some (Db t) \<and> whole_database (cf_minWords cfg) t \<and> (cf_words cfg = [] \<longrightarrow> covered t)"
      unfolding low_covered by blast
  next
    show "r = Some e \<Longrightarrow> expected_error e" for e using e by blast
  next
    fix m n assume "r = Some (CoverageFailed m n)"
    with e obtain t where "fs' (cf_out cfg) = Some (Db t)" "whole_database (cf_minWords cfg) t"
        "words_with_meaning t = m \<and> length (t_words t) = n \<and> low m n"
      by (auto elim: whole)
    then show "\<exists>t. fs' (cf_out cfg) = Some (Db t) \<and> whole_database (cf_minWords cfg) t \<and> \<not> covered t \<and>
        m = words_with_meaning t \<and> n = length (t_words t)"
      using low_covered by blast
  next
    show "fs' (cf_out cfg) = fs (cf_out cfg) \<or> (\<exists>t. fs' (cf_out cfg) = Some (Db t) \<and> whole_database (cf_minWords cfg) t) \<or>
      on_windows (be_write env) \<and> fs' (cf_out cfg) = None"
      using e by (blast elim: whole)
  qed
qed

theorem build_outcome_witness:
  "\<exists>t. snd (runFromDump demo_env demo_config (\<lambda>_. None)) (cf_out demo_config) = Some (Db t) \<and>
     whole_database 1 t \<and> covered t"
proof -
  have "run_builder demo_env demo_config (\<lambda>_. None) = runFromDump demo_env demo_config (\<lambda>_. None)"
    by (simp add: run_builder_def demo_config_def lit_def)
  moreover have "be_unicode demo_env = demo_unicode" "range_order (be_ord demo_env)"
    by (simp_all add: demo_env_def range_order_def)
  moreover have "output_apart demo_config" "cf_words demo_config = []" "cf_minWords demo_config = 1"
    by (simp_all add: output_apart_def demo_config_def tmp_path_def lit_def)
  moreover obtain fs1 where "runFromDump demo_env demo_config (\<lambda>_. None) = (None, fs1)" using demo_run by blast
  ultimately show ?thesis using build_outcome [of demo_env demo_config "\<lambda>_. None"] demo_builder_laws by auto
qed

subsection \<open>The corpus\<close>

lemma exported_header:
  assumes "provenance_ok prov"
  shows "\<forall>key \<in> set corpusProvenanceKeys.
    (case map_of (zip corpusProvenanceKeys (provenance_values prov)) key of None \<Rightarrow> [] | Some v \<Rightarrow> v) \<noteq> []"
  using assms digits_of_shape [of "pv_pages prov"]
  by (simp add: corpusProvenanceKeys_def provenance_values_def provenance_ok_def lit_def dumpSourceURL_def)

text \<open>
  Claim (C39). The corpus a dump build exports loses nothing: a build from that text, with no failing call and a word
  floor no higher, succeeds, and its database has the same words, syllables, aliases and meanings as the one built
  from the dump, in whatever orders the two builds ranged over their maps.
\<close>

theorem corpus_build_same_rows:
  assumes laws: "builder_laws (be_unicode env)" and ord: "range_order (be_ord env)" "range_order (be_ord env')"
    and dump: "runFromDump env cfg fs = (None, fs1)" and paths: "cf_export cfg \<noteq> []" "output_apart cfg"
    and prov: "\<forall>v \<in> {di_sha256 (be_dump env), di_fetchedAt (be_dump env)}. v \<noteq> [] \<and> TrimSpace v = v \<and> 10 \<notin> set v"
    and env': "be_unicode env' = be_unicode env" "write_clear (be_write env')" "\<not> be_verify_fails env'"
    and corpus: "fs1 (cf_export cfg) = map_option Text (be_input env')"
    and floor: "cf_minWords cfg' \<le> cf_minWords cfg"
  shows "\<exists>t fs2 t'. fs1 (cf_out cfg) = Some (Db t) \<and> runFromCorpus env' cfg' fs' = (None, fs2) \<and>
    fs2 (cf_out cfg') = Some (Db t') \<and> same_rows t t'"
proof -
  let ?u = "be_unicode env"
  obtain d prov fs0 where read: "readDump ?u (be_unescape env) (be_dump env) = Inr (d, prov)"
    and fin: "finish env cfg (dm_words d, dm_meanings d) (dumpSourceSpec (cf_dump cfg) prov) True fs = (None, fs0)"
    and wr: "writeCorpus (be_export env) (cf_export cfg) (dm_words d) (dm_meanings d) prov fs0 = (None, fs1)"
    using runFromDump_None [OF dump] paths(1) by metis
  have data: "builder_data ?u (dm_words d, dm_meanings d)" and writ: "all_writable (dm_meanings d)"
    using readDump_ok(1) [OF laws read] by (simp_all add: dump_ok_def)
  obtain text' where text': "corpus_text (dm_words d) (dm_meanings d) prov = Inr text'"
    using corpus_text_ok [OF laws data writ] by blast
  note w = writeCorpus_result [OF wr text']
  obtain t where t: "fs0 (cf_out cfg) = Some (Db t)" "filled (dm_words d) (dm_meanings d) (fst (buildAliases ?u (be_ord env) (dm_words d))) t"
    and floors: "cf_minWords cfg \<le> length (dm_words d)"
      "\<not> (True \<and> of_nat (length (dm_meanings d)) < minMeaningCoverage * of_nat (length (dm_words d)))"
    using finish_result(2) [OF laws ord(1) data specs_ok(1) fin refl] by blast
  have out: "fs1 (cf_out cfg) = Some (Db t)" using w(1) paths t(1) by (auto simp: output_apart_def)
  have inp: "be_input env' = Some text'" using w(2) corpus by auto
  have pok: "provenance_ok prov" using readDump_ok(4) [OF laws read] assms(7)
    by (auto simp: provenance_ok_def TrimSpace_id_iff)
  note reads = corpus_reads_back [OF laws data pok text']
  obtain ws' ms' where wl: "readWordList ?u text' = (ws', ms')" by (cases "readWordList ?u text'")
  have data': "builder_data ?u (ws', ms')" using readWordList_data [OF laws, of text'] wl by simp
  have same: "map_of ws' = map_of (dm_words d)" "map_of ms' = map_of (dm_meanings d)" using reads(1,2) wl by simp_all
  have lens: "length ws' = length (dm_words d)" "length ms' = length (dm_meanings d)"
    using alist_mset [of ws' "dm_words d"] alist_mset [of ms' "dm_meanings d"] data data' same
    by (auto simp: builder_data_def intro: mset_eq_length)
  have "List.find (\<lambda>key. header_value (corpus_header text') key = []) corpusProvenanceKeys = None"
    using exported_header [OF pok] reads(3) by (simp add: find_None_iff header_value_def)
  moreover obtain r fs2 where fin': "finish env' cfg' (ws', ms') (corpusSourceSpec (cf_corpus cfg') (corpus_header text')) True fs' = (r, fs2)"
    by (cases "finish env' cfg' (ws', ms') (corpusSourceSpec (cf_corpus cfg') (corpus_header text')) True fs'")
  ultimately have run: "runFromCorpus env' cfg' fs' = (r, fs2)" by (simp add: runFromCorpus_def inp Let_def env'(1) wl)
  note f' = finish_result [where env = env', unfolded env'(1), OF laws ord(2) data' specs_ok(2) fin']
  have "r = None" using f'(5) env'(2,3) floors floor lens by simp
  moreover obtain t' where "fs2 (cf_out cfg') = Some (Db t')" "filled ws' ms' (fst (buildAliases ?u (be_ord env') ws')) t'"
    using f'(2) calculation by blast
  moreover have "same_rows t t'"
    using filled_same [OF data data' t(2) _ same buildAliases_same [OF data data' ord same(1)]] calculation(3) by blast
  ultimately show ?thesis using out run by blast
qed

theorem corpus_build_same_rows_witness:
  "\<exists>body t fs2 t'. snd (runFromDump demo_env demo_config (\<lambda>_. None)) (lit ''x'') = Some (Text body) \<and>
     snd (runFromDump demo_env demo_config (\<lambda>_. None)) (lit ''o'') = Some (Db t) \<and>
     runFromCorpus (demo_env\<lparr>be_input := Some body\<rparr>) demo_config (\<lambda>_. None) = (None, fs2) \<and>
     fs2 (lit ''o'') = Some (Db t') \<and> same_rows t t'"
proof -
  obtain body fs1 where run: "runFromDump demo_env demo_config (\<lambda>_. None) = (None, fs1)" "fs1 (lit ''x'') = Some (Text body)"
    using demo_run by blast
  have env: "builder_laws (be_unicode demo_env)" "range_order (be_ord demo_env)" "write_clear (be_write demo_env)"
      "\<not> be_verify_fails demo_env" "be_dump demo_env = demo_dump"
    by (simp_all add: demo_env_def range_order_def write_clear_def demo_builder_laws)
  have cfg: "cf_export demo_config = lit ''x''" "cf_out demo_config = lit ''o''" "output_apart demo_config"
    by (simp_all add: output_apart_def demo_config_def tmp_path_def lit_def)
  have prov: "\<forall>v \<in> {di_sha256 (be_dump demo_env), di_fetchedAt (be_dump demo_env)}. v \<noteq> [] \<and> TrimSpace v = v \<and> 10 \<notin> set v"
    by (simp add: env(5) demo_dump_def TrimSpace_id_iff trimmed_def is_space_def lit_def)
  let ?env = "demo_env\<lparr>be_input := Some body\<rparr>"
  have "\<exists>t fs2 t'. fs1 (cf_out demo_config) = Some (Db t) \<and> runFromCorpus ?env demo_config (\<lambda>_. None) = (None, fs2) \<and>
      fs2 (cf_out demo_config) = Some (Db t') \<and> same_rows t t'"
    by (rule corpus_build_same_rows [OF env(1,2) _ run(1) _ cfg(3) prov, where env' = ?env])
      (use env cfg run(2) in \<open>simp_all add: lit_def\<close>)
  then show ?thesis using run cfg(2) by auto
qed

subsection \<open>The server opens what was built\<close>

text \<open>
  Claim (C40). The server's store opens on every database with a word in it that a successful build leaves behind,
  passing all of its own checks, and answers from it: a word resolves to itself, an alias to its word, and nothing else
  resolves; a word's syllables are its first and last; and its meanings are the definitions kept for it, in their
  order. A database without words, which a build with a floor of zero words can leave, is refused as such. (The rows
  are taken to be fewer than \<open>2 ^ 63\<close>, the numbers the store can read back from the meta table.)
\<close>

theorem built_database_opens:
  assumes laws: "builder_laws (be_unicode env)" and ord: "range_order (be_ord env)" "range_order ord" and apart: "output_apart cfg"
    and run: "run_builder env cfg fs = (None, fs')" and out: "fs' (cf_out cfg) = Some (Db t)" and serve: "serves t db"
    and size: "int (length (t_words t)) \<le> max_int64" "int (length (t_meanings t)) \<le> max_int64"
  shows "if t_words t = [] then Open (be_unicode env) ord (FileOpens db) = Inl NoWords
    else \<exists>s. Open (be_unicode env) ord (FileOpens db) = Inr s \<and>
    (\<forall>w. Store_Resolve s w = (if has_word t w then Some w else map_of (t_aliases t) w)) \<and>
    (\<forall>(w, f, l, n) \<in> set (t_words t). Store_FirstSyllable s w = Some f \<and> Store_LastSyllable s w = Some l) \<and>
    (\<forall>w. Store_Meanings s w =
       map (\<lambda>(_, _, p, g). \<lparr>Pos = p, Gloss = g\<rparr>) (filter (\<lambda>r. fst r = w) (t_meanings t)))"
proof -
  let ?u = "be_unicode env"
  have "built env cfg (\<lambda>m n. \<not> (cf_words cfg = [] \<and> low m n)) fs'"
    using run_ends_well [OF laws ord(1) apart, of fs] run by (simp add: ends_well_def)
  then obtain ws ms where data: "builder_data ?u (ws, ms)" and t: "filled ws ms (fst (buildAliases ?u (be_ord env) ws)) t"
    using out by (auto simp: built_def)
  let ?als = "fst (buildAliases ?u (be_ord env) ws)"
  note r = filled_rows [OF data t]
  note a = aliases_of_words [OF data ord(1)]
  have sz: "int (length ws) \<le> max_int64" using size(1) r(2) by auto
  have a2: "\<forall>(v, w) \<in> set ?als. map_of ws w \<noteq> None" using a(2) by auto
  note o = built_opens [OF data t ord(2) a(1) a2 sz size(2) serve]
  have none: "t_words t = [] \<longleftrightarrow> ws = []" using r(2) by (metis length_0_conv)
  show ?thesis
  proof (cases "ws = []")
    case True
    then show ?thesis using o none by simp
  next
    case False
    obtain s where s: "Open ?u ord (FileOpens db) = Inr s" "\<forall>w. map_of (words s) w = map_option word_info (map_of ws w)"
        "map_of (aliases s) = map_of ?als" "\<forall>w. Store_Meanings s w = map as_sense (senses_of ms w)"
      using o False by auto
    have "mset (t_aliases t) = mset ?als" using t by (simp add: filled_def)
    then have "distinct (map fst (t_aliases t))" "set (t_aliases t) = set ?als"
      using a(1) by (metis mset_eq_imp_distinct_iff mset_map, metis mset_eq_setD)
    then have al: "map_of (t_aliases t) = map_of ?als" using map_of_inject_set a(1) by metis
    have "Store_Resolve s w = (if has_word t w then Some w else map_of (t_aliases t) w)" for w
      using s(2,3) r(1) [of w] al by (simp add: Store_Resolve_def split: option.split)
    moreover have "Store_FirstSyllable s w = Some f \<and> Store_LastSyllable s w = Some l" if "(w, f, l, n) \<in> set (t_words t)" for w f l n
      using r(4) [OF that] s(2) by (auto simp: Store_FirstSyllable_def Store_LastSyllable_def word_info_def entry_of_def)
    moreover have "Store_Meanings s w = map (\<lambda>(_, _, p, g). \<lparr>Pos = p, Gloss = g\<rparr>) (filter (\<lambda>r. fst r = w) (t_meanings t))" for w
      using s(4) r(8) [of w] senses_of_rows [of w 0 "senses_of ms w"] by (simp add: sense_rows_def)
    ultimately show ?thesis using s(1) False none by auto
  qed
qed

theorem built_database_opens_witness:
  "\<exists>t s. snd (runFromDump demo_env demo_config (\<lambda>_. None)) (lit ''o'') = Some (Db t) \<and>
     Open demo_unicode (\<lambda>ks. ks) (FileOpens (served t)) = Inr s"
proof -
  obtain t fs1 where run: "runFromDump demo_env demo_config (\<lambda>_. None) = (None, fs1)" "fs1 (lit ''o'') = Some (Db t)"
    "length (t_words t) = 1" "length (t_meanings t) = 1"
    using demo_run by blast
  have run': "run_builder demo_env demo_config (\<lambda>_. None) = (None, fs1)"
    using run(1) by (simp add: run_builder_def demo_config_def lit_def)
  have env: "builder_laws (be_unicode demo_env)" "range_order (be_ord demo_env)" "range_order (\<lambda>ks. ks)" "be_unicode demo_env = demo_unicode"
    by (simp_all add: demo_env_def range_order_def demo_builder_laws)
  have cfg: "fs1 (cf_out demo_config) = Some (Db t)" "output_apart demo_config"
    using run(2) by (simp_all add: output_apart_def demo_config_def tmp_path_def lit_def)
  have size: "t_words t \<noteq> []" "int (length (t_words t)) \<le> max_int64" "int (length (t_meanings t)) \<le> max_int64"
    using run(3,4) by (auto simp: max_int64_def)
  show ?thesis
    using built_database_opens [OF env(1-3) cfg(2) run' cfg(1) serves_served size(2,3)] size(1) run(1,2) env(4) by auto
qed

end
