(* ===== verification/Builder_Log.thy ===== *)
theory Builder_Log
  imports Builder_Dump "HOL-Library.Product_Lexorder"
begin

text \<open>
  \<open>server/cmd/build-dictionary/dump.go\<close>: how counts are written on one line of the build log. Go ranges over a map in
  any order, so the entries come as a list.
\<close>

definition none_name :: str where "none_name = lit ''(none)''"

text \<open>Largest first, then by name.\<close>

definition tally_before :: "str \<times> nat \<Rightarrow> int \<times> str" where
  "tally_before e = (case e of (name, k) \<Rightarrow> (- int k, name))"

definition tally_entry :: "str \<times> nat \<Rightarrow> str" where
  "tally_entry e = (case e of (name, k) \<Rightarrow> name @ [32] @ digits_of k)"

definition formatTally :: "(str \<times> nat) list \<Rightarrow> nat \<Rightarrow> str" where
  "formatTally counts n =
     (let tally = map (\<lambda>(name, k). (if name = [] then none_name else name, k)) counts;
          tally = sort_key tally_before tally;
          tally = (if n > 0 \<and> length tally > n then take n tally else tally)
      in join (lit '', '') (map tally_entry tally))"

text \<open>So a line does not depend on the order of the map: entries that tie are equal.\<close>

lemma tally_before_inj: "inj tally_before"
  by (auto simp: inj_def tally_before_def)

lemma formatTally_order:
  assumes "mset xs = mset ys"
  shows "formatTally xs n = formatTally ys n"
proof -
  let ?f = "\<lambda>(name, k). (if name = [] then none_name else name, k :: nat)"
  have "sort_key tally_before (map ?f xs) = sort_key tally_before (map ?f ys)"
    by (rule sort_key_inj_key_eq) (use assms tally_before_inj in \<open>auto intro: inj_on_subset\<close>)
  then show ?thesis by (simp only: formatTally_def Let_def)
qed

text \<open>With a limit, what is written are the largest counts.\<close>

lemma formatTally_largest:
  assumes "x \<in> set (take n (sort_key tally_before xs))" "y \<in> set (drop n (sort_key tally_before xs))"
  shows "snd y \<le> snd x"
proof -
  have "sorted (map tally_before (take n (sort_key tally_before xs) @ drop n (sort_key tally_before xs)))" by simp
  then have "tally_before x \<le> tally_before y" using assms unfolding map_append sorted_append by auto
  then show ?thesis by (cases x; cases y) (auto simp: tally_before_def less_eq_prod_def split: if_splits)
qed

end
