(* ===== verification/Hub_Calls.thy ===== *)
theory Hub_Calls
  imports Gateway_Facts Server_Steps
begin

text \<open>
  The run of the server takes a message that asks for a room apart, into the read of the drain flag, the critical
  sections and what lies between. With nothing in between, the pieces are the handler as \<open>dispatch\<close> has it.
\<close>

definition in_phase :: "conn \<Rightarrow> phase \<Rightarrow> world \<Rightarrow> world" where
  "in_phase c ph w = upd_sess c (\<lambda>s. s\<lparr>ss_phase := ph\<rparr>) w"

lemma phases: "enter c k = in_phase c (InCall k)" "returns c = in_phase c Reading"
  by (simp_all add: enter_def returns_def in_phase_def fun_eq_iff)

lemma in_phase_twice [simp]: "in_phase c ph (in_phase c ph' w) = in_phase c ph w"
  by (simp add: in_phase_def upd_sess_def)

lemma in_phase_same: "ss_phase (w_sess w c) = ph \<Longrightarrow> in_phase c ph w = w"
  by (simp add: in_phase_def upd_sess_def fun_upd_idem)

lemma phase_in_phase [simp]: "ss_phase (w_sess (in_phase c ph w) c) = ph"
  by (simp add: in_phase_def upd_sess_def)

lemma hub_in_phase [simp]: "w_hub (in_phase c ph w) = w_hub w"
  by (simp add: in_phase_def upd_sess_def)

lemma send_in_phase [simp]: "send_to ox d m (in_phase c ph w) = in_phase c ph (send_to ox d m w)"
proof -
  have "session_send coin m (s\<lparr>ss_phase := ph\<rparr>) = (session_send coin m s)\<lparr>ss_phase := ph\<rparr>" for coin s
    by (simp add: session_send_def enqueue_def)
  then show ?thesis by (simp add: send_to_def in_phase_def upd_sess_def fun_eq_iff)
qed

lemma answer_in_phase [simp]: "answer ox d code (in_phase c ph w) = in_phase c ph (answer ox d code w)"
  by (simp add: answer_def)

lemma post_in_phase [simp]: "room_send i m (in_phase c ph w) = map_prod id (in_phase c ph) (room_send i m w)"
  by (simp add: room_send_def in_phase_def upd_sess_def upd_room_def)

lemma register_in_phase [simp]: "register_room ox mode (in_phase c ph w) = map_prod id (in_phase c ph) (register_room ox mode w)"
  by (simp add: register_room_def Let_def split: option.split) (simp add: in_phase_def upd_sess_def)

lemma first_in_phase [simp]: "first_input m (map_prod id (in_phase c ph) r) = map_prod id (in_phase c ph) (first_input m r)"
  by (cases r) (simp add: first_input_def split: sum.split)

lemma pair_in_phase [simp]: "pair_up ox c' d (map_prod id (in_phase c ph) r) = map_prod id (in_phase c ph) (pair_up ox c' d r)"
  by (cases r) (simp add: pair_up_def Let_def split: sum.split)

lemma errors_in_phase [simp]:
  "answer_error ox d (map_prod id (in_phase c ph) r) = in_phase c ph (answer_error ox d r)"
  "answer_match ox d (map_prod id (in_phase c ph) r) = in_phase c ph (answer_match ox d r)"
  by (cases r; simp add: answer_error_def answer_match_def split: option.split)+

lemma take_in_phase [simp]: "take_waiter c (in_phase c ph w) = map_prod id (in_phase c ph) (take_waiter c w)"
proof -
  have closed: "(\<lambda>d. ss_closed (w_sess (in_phase c ph w) d)) = (\<lambda>d. ss_closed (w_sess w d))"
    by (simp add: in_phase_def upd_sess_def fun_eq_iff)
  have hub: "upd_hub f (in_phase c ph a) = in_phase c ph (upd_hub f a)" for f a
    by (simp add: in_phase_def upd_sess_def upd_hub_def)
  show ?thesis
    by (cases "next_waiter (\<lambda>d. ss_closed (w_sess w d)) (h_waiting (w_hub w))")
      (simp add: take_waiter_def closed hub Let_def split: option.split)
qed

text \<open>A call, step after step, until it is over.\<close>

fun run_call :: "nat \<Rightarrow> outside \<Rightarrow> conn \<Rightarrow> world \<Rightarrow> world" where
  "run_call 0 ox c w = w"
| "run_call (Suc n) ox c w =
     (case ss_phase (w_sess w c) of InCall k \<Rightarrow> run_call n ox c (hub_turn ox c k w) | _ \<Rightarrow> w)"

lemma run_call_Reading [simp]: "ss_phase (w_sess w c) = Reading \<Longrightarrow> run_call n ox c w = w"
  by (cases n) simp_all

lemma run_call_in [simp]:
  "run_call (Suc n) ox c (in_phase c (InCall k) w) = run_call n ox c (hub_turn ox c k (in_phase c (InCall k) w))"
  "run_call n ox c (in_phase c Reading w) = in_phase c Reading w"
  by simp_all

lemma sess_take: "w_sess (snd (take_waiter c w)) = w_sess w"
  by (simp add: take_waiter_def case_prod_beta Let_def upd_hub_def split: option.split)

lemma open_call:
  assumes r: "ss_phase (w_sess w c) = Reading"
  shows "run_call 4 ox c (passes_check ox c (OpenBot level) w) = answer_error ox c (startBotRoom ox c level w)"
    and "run_call 4 ox c (passes_check ox c OpenRoom w) = answer_error ox c (createRoom ox c w)"
proof -
  have err: "first_input m (Inl e, a) = (Some e, a)" "answer_error ox c (Some e, a) = send_to ox c (roomCreateError e) a" for m e a
    by (simp_all add: first_input_def answer_error_def)
  show "run_call 4 ox c (passes_check ox c (OpenBot level) w) = answer_error ox c (startBotRoom ox c level w)"
    "run_call 4 ox c (passes_check ox c OpenRoom w) = answer_error ox c (createRoom ox c w)"
    using r by (simp_all add: passes_check_def phases hub_turn_def startBotRoom_def createRoom_def newRegisteredRoom_def err
      in_phase_same numeral_eq_Suc)
qed

lemma match_call:
  assumes r: "ss_phase (w_sess w c) = Reading"
  shows "run_call 4 ox c (passes_check ox c Match w) = answer_match ox c (quickMatch ox c w)"
proof (cases "h_draining (w_hub w)")
  case True
  then show ?thesis using r by (simp add: passes_check_def quickMatch_def answer_match_def)
next
  case False
  obtain p a where t: "take_waiter c w = (p, a)" by fastforce
  have a: "ss_phase (w_sess a c) = Reading" using sess_take [of c w] r t by simp
  have d: "h_draining (w_hub a) = h_draining (w_hub w)"
    using t by (auto simp: take_waiter_def case_prod_beta Let_def upd_hub_def split: if_splits option.splits)
  show ?thesis using False a d
    by (cases p) (simp_all add: passes_check_def phases hub_turn_def quickMatch_def t numeral_eq_Suc in_phase_same
      newRegisteredRoom_def answer_match_def [of _ _ "(None, b)" for b] answer_match_def [of _ _ "(Some errAlreadyQueued, b)" for b])
qed

text \<open>Every message, asked and its call run through, is handled as \<open>dispatch\<close> handles it.\<close>

theorem ask_run_through:
  assumes "ss_phase (w_sess w c) = Reading"
  shows "fst (ask ox c msg w) = fst (dispatch ox c msg w) \<and>
    run_call 4 ox c (snd (ask ox c msg w)) = snd (dispatch ox c msg w)"
proof -
  have hub: "run_call 4 ox c (ask_startBot ox c d w) = dispatch_startBot ox c d w"
    "run_call 4 ox c (ask_createRoom ox c w) = dispatch_createRoom ox c w"
    "run_call 4 ox c (ask_quickMatch ox c w) = dispatch_quickMatch ox c w" for d
  proof -
    have phase: "ss_phase (w_sess a c) = Reading" if "same_conns w a" for a using that assms by (simp add: same_conns_def)
    note run = open_call match_call run_call_Reading phase same_conns_answer same_conns_refuse same_conns_allow same_conns_refl
    show "run_call 4 ox c (ask_startBot ox c d w) = dispatch_startBot ox c d w"
      by (simp add: ask_startBot_def dispatch_startBot_def startBot_case_def case_prod_beta Let_def run split: option.split)
    show "run_call 4 ox c (ask_createRoom ox c w) = dispatch_createRoom ox c w"
      by (simp add: ask_createRoom_def dispatch_createRoom_def createRoom_case_def case_prod_beta Let_def run)
    show "run_call 4 ox c (ask_quickMatch ox c w) = dispatch_quickMatch ox c w"
      by (simp add: ask_quickMatch_def dispatch_quickMatch_def quickMatch_case_def case_prod_beta Let_def run)
  qed
  have other: "ss_phase (w_sess (snd (dispatch ox c msg w)) c) = Reading"
    if "\<not> ss_greeted (w_sess w c) \<or> (\<forall>d. msg \<noteq> ClientMessage_StartBotGame d) \<and> msg \<noteq> ClientMessage_CreateRoom \<and> msg \<noteq> ClientMessage_QuickMatch"
  proof -
    have "same_conns w (snd (dispatch ox c msg w))" using that by (cases msg) (auto simp: dispatch_def toLobby_def)
    then show ?thesis using assms by (simp add: same_conns_def)
  qed
  show ?thesis
  proof (cases "ss_greeted (w_sess w c)")
    case True
    then show ?thesis using hub other by (cases msg) (simp_all add: ask_def, simp_all add: dispatch_def)
  next
    case False
    then show ?thesis using other by (simp add: ask_def)
  qed
qed

end
