(* ===== verification/Spec2Isabelle.thy ===== *)
theory Spec2Isabelle
  imports Engine_Props Dictionary_Props Room_Props Room_Seat_Props Bot_Props Text_Props Rate_Props Server_Props
    Dispatch_Props Gateway_Props Codec Builder_Props
    Builder_Log Hub_Calls
begin

text \<open>
  A verification development for noitu, a server for the Vietnamese word-chain game: players in a room take
  turns, each word starts with the last syllable of the one before, no word is used twice, and who cannot go
  on is out. The program is the Go server under \<open>src/server\<close>.

  \<^bold>\<open>The program and its model.\<close> From the inside out:

  \<^item> \<open>internal/vietnamese\<close> brings a typed word to its canonical form: \<open>Vietnamese\<close>, over the string functions of
    \<open>Go_Strings\<close>. Unicode tables (NFC, NFD, case, categories) are the record \<open>unicode\<close>, an argument; the laws a
    property needs of them are its hypotheses (\<open>unicode_laws\<close>).
  \<^item> \<open>internal/dictionary/store.go\<close> loads the builder's database, validates it and answers look-ups:
    \<open>Dictionary_Store\<close>. SQLite is the rows its queries return. \<open>Dictionary_Facts\<close> proves that a store that opens
    satisfies \<open>store_inv\<close>, and interprets the contract \<open>word_graph\<close> of the game's dictionary by it.
  \<^item> \<open>internal/game\<close> has the rules: \<open>Game_State\<close> the vocabulary of \<open>state.go\<close> and the contract \<open>word_graph\<close>;
    \<open>Engine\<close> one definition per method of \<open>engine.go\<close>, state passed in and returned. \<open>Engine_Turns\<close>,
    \<open>Engine_Moves\<close>, \<open>Engine_Score\<close> and \<open>Engine_Game\<close> hold the lemmas on turn order and elimination, the operations, the
    points, and whole games (\<open>reachable\<close>, \<open>engine_step\<close>).
  \<^item> \<open>internal/bot\<close> chooses words for the computer: \<open>Bot\<close> has the three strategies and the frozen board, draws
    and logarithms being arguments; \<open>Bot_Facts\<close> the contract \<open>strategy\<close>, interpreted by each of them, and the
    search against plain minimax.
  \<^item> \<open>internal/wsapi\<close> is the server. \<open>Nickname\<close> filters text, \<open>Wire\<close> builds the messages, \<open>Rate_Limit\<close> is the token
    bucket. A room is \<open>Room_State\<close> (state and helpers of \<open>room.go\<close>), \<open>Room_Lobby\<close> (\<open>room_lobby.go\<close>,
    \<open>room_presence.go\<close>), \<open>Room_Game\<close> (\<open>room_game.go\<close>, \<open>room_chat.go\<close>) and \<open>Room_Run\<close>, one turn of its loop with
    the three timers. A handler returns the room changed; what it does to the world outside (frames, calls of
    the session and the hub) it appends to the list \<open>rm_out\<close>.
  \<^item> Around the rooms: \<open>Server_State\<close> (sessions, hub, and the store \<open>world\<close> they
    live in), \<open>Hub\<close> (\<open>hub.go\<close>), \<open>Dispatch\<close> (\<open>dispatch.go\<close> and
    the read loop, with the frames of \<open>codec.go\<close> in \<open>Codec\<close>) and
    \<open>Server_Run\<close>: \<open>server_step\<close> is one step of any goroutine, and
    \<open>server_reach\<close> the worlds any interleaving of steps reaches. A message that asks the hub for a room takes several
    steps (\<open>ask\<close>, then \<open>hub_turn\<close> for the \<open>hub_call\<close> its connection is in), which \<open>Hub_Calls\<close> proves to be the handler of
    \<open>dispatch\<close> when nothing comes in between. There what a room appended to
    \<open>rm_out\<close> is performed. \<open>Session_IO\<close> looks closer at one connection: the goroutines
    of \<open>session.go\<close> around its socket (the writer, its draining, the keepalive, the teardown), as the
    step relation \<open>io_step\<close>. \<open>Corpus_Log\<close> is the sampled log of
    \<open>corpuslog.go\<close>.
  \<^item> \<open>server.go\<close> is the edge to HTTP. \<open>Client_Address\<close> says which address a request counts against, over the
    addresses and ranges of \<open>net/netip\<close> in \<open>Go_Netip\<close>; \<open>Gateway\<close> has \<open>NewServer\<close>, the endpoints and \<open>handleWS\<close>, each of
    whose accesses to a counter is a step of \<open>front_step\<close>, beside the steps of the server inside; \<open>Static_Files\<close>
    serves the frontend, over the path functions of \<open>Go_Filepath\<close>.
  \<^item> \<open>cmd/noitu-server\<close> runs it: \<open>Server_Command\<close> has the environment and the configuration read from it (with
    \<open>time.ParseDuration\<close>), the wait for running games, the order of the shutdown and the health check.
  \<^item> \<open>cmd/build-dictionary\<close> makes the database offline: \<open>Builder_Filter\<close> (\<open>filter.go\<close>, \<open>syllable.go\<close>) decides which
    titles are words, \<open>Builder_Aliases\<close> (\<open>aliases.go\<close>) adds other spellings, \<open>Builder_Wikitext\<close> (\<open>wikitext.go\<close>) finds the
    Vietnamese section of a page and strips its definitions, \<open>Builder_Dump\<close> (\<open>dump.go\<close>) reads the pages, \<open>Builder_Corpus\<close>
    (\<open>corpus.go\<close>, the line reader of \<open>main.go\<close>) writes and reads the dictionary as text, and \<open>Builder_Database\<close>
    (\<open>main.go\<close>) fills the tables, moves the file into place, checks it again, and runs the three modes. \<open>Go_Text\<close> and
    \<open>Go_Regex\<close> are what it uses of \<open>strings\<close> and \<open>regexp\<close>, the latter a matcher by backtracking. The dump is the pages
    the decoder delivers; \<open>Builder_Log\<close> is how counts are written in the log; failing calls of SQLite and the file system and the order of maps are arguments.

  \<^bold>\<open>The layers of lemmas.\<close> \<open>Room_Frames\<close> says once what the talking of a room leaves alone; \<open>Room_Inv\<close> states the
  invariant of a room and \<open>Room_Lobby_Inv\<close>, \<open>Room_Presence_Inv\<close>, \<open>Room_Steps\<close> and \<open>Room_Loop_Inv\<close> prove that every
  input, timer and ending keeps it. \<open>Room_Moves\<close> relates the seats before and after an operation to what
  the connections are told. \<open>Server_Inv\<close> is the invariant of the whole server: rooms sound, inboxes fit for them,
  every seat known to its connection or its notice of leaving under way, the queue, the registry, the count
  of running games; \<open>Server_Turn\<close> proves it for a room's turn, \<open>Server_Steps\<close> for everything else. \<open>Demo_Game\<close>,
  \<open>Demo_Room\<close>, \<open>Demo_Server\<close>, \<open>Builder_Demo\<close> and \<open>Fixtures\<close> are concrete runs the witnesses stand on. \<open>Netip_Facts\<close>
  proves that printed addresses read back, so that different addresses have different keys; \<open>Gateway_Facts\<close> has
  \<open>books_ok\<close>, the accounts of the connections, and that every run of the edge is a run of the server inside. For the builder,
  \<open>Builder_Roundtrip\<close> proves that the corpus reads back, \<open>Builder_Facts\<close> what the tables hold and that the store of
  \<open>Dictionary_Store\<close> opens on them, \<open>Builder_Gloss\<close> what the stripper leaves of a definition, and \<open>Builder_Run\<close> puts
  these together for whole builds.

  \<^bold>\<open>The properties\<close> are in the theories named \<open>Props\<close>: \<open>Engine_Props\<close> (games: turns, chain, points, ranking,
  termination of the elimination cascade and of every game), \<open>Dictionary_Props\<close> (loading, near misses, opening words),
  \<open>Room_Props\<close> and \<open>Room_Seat_Props\<close> (a room in every state it reaches: who may act, timers, counting, chat,
  joining, kicking, resuming, giving up seats), \<open>Bot_Props\<close>, \<open>Text_Props\<close>, \<open>Rate_Props\<close>, \<open>Server_Props\<close> (no ghost
  seats, exact registry, sound rooms), \<open>Hub_Props\<close> (room codes, pairing, draining), \<open>Dispatch_Props\<close>
  (every frame is answered) and \<open>Builder_Props\<close> (accepted words, aliases, definitions, pages accounted for, how a build
  ends, verification coming after the move into place, the corpus build equal to the dump build, and the server opening what
  was built). \<open>Gateway_Props\<close> has the edge:
  one key per client, forged headers without effect, connections under their caps, files only from below the
  root, frames written before the socket goes, and a shutdown in order.

  \<^bold>\<open>Bounds and fuel.\<close> Nothing runs on fuel. The elimination cascade is a \<open>while\<close> whose termination is
  proved by the number of players left; the binary search and the bot's search are recursive with measures or
  on their depth (the depth and the node budget are the code's own constants), the rendering of nested templates on
  the length of the text, a duration unit by unit on the text that is left, the wait for running games on the time
  that is left; the loop that draws a room code reads
  random bytes until it has enough and is a \<open>partial_function\<close>, which is proved to return once the source
  has delivered six usable bytes. Words of the wire (turn numbers, versions) are 32 bit and wrap; Go's
  \<open>int\<close> is \<open>int\<close> or \<open>nat\<close>, since nothing counted comes near 63 bits; instants and durations are integers
  in nanoseconds; floats are rationals.

  \<^bold>\<open>Concurrency.\<close> One step of \<open>server_step\<close> is what one goroutine does for one frame, one input or one timer, and
  inside a step handlers run to their end. The calls of the hub that open or join up rooms are the exception: the drain flag is
  an atomic read outside the hub's lock, \<open>quickMatch\<close> gives the lock up before \<open>newRegisteredRoom\<close> reads the flag
  again and takes it again, and the waiter is told it waits after that. So these calls are split at every look at the flag
  and every critical section (\<open>hub_call\<close>, \<open>hub_turn\<close>), any other step may come in between, and what a call
  decided on may be out of date when it acts: a room opened after the drain began (\<open>late_room\<close> in \<open>Hub_Props\<close>), a connection
  queued that a room has just seated (\<open>seated_in_queue\<close> in \<open>Server_Props\<close>). Two things stay in one step: what a
  handler checks before it calls the hub, with the first look at the flag; and the registration of a room with its first
  inputs, since nobody is told its code before the room has taken them (a code that is guessed in that moment is left
  out). The flag as a room reads it when a game is to start, and the other look-ups of a handler (a
  room by its code, the session of a token, with what is posted to the room found) are read in the step that acts on them.
  A notice that waits for space in an inbox, an answer the bot is thinking about and a connection
  that is being torn down are states of their own, so their steps interleave freely with all others. A
  \<open>select\<close> with two ready cases may take either.

  \<^bold>\<open>Not modelled.\<close> The socket itself (\<open>coder/websocket\<close>: whether it upgrades, and whether a write or a ping succeeds,
  is left open), the routing and the file servers of \<open>net/http\<close>, whose responses are arguments; the flags, the
  listeners and the delivery of signals of \<open>cmd/noitu-server\<close>; metrics and the other log lines, which nothing reads
  back; the generated protocol code (its messages are datatypes of what they carry) and the encoding of frames by
  it. Of the builder its flags, the sentences of its log and the counters only they read, and the libraries that decompress,
  parse and hash the dump, run SQL and unescape HTML entities.
\<close>

end
